(* ===== verification/Sx_Prelude.thy ===== *)
theory Sx_Prelude
  imports Main "HOL-Library.List_Lexorder" "HOL-Library.Char_ord" "HOL-Library.Sublist"
begin

text \<open>
  Shared vocabulary of the development: the collections of rewrite rules the component
  proofs use, the error monad in which fallible Go functions are written, and the parts of
  Go's \<open>strings\<close> package that several components call.  Go strings are byte sequences, so
  a Go \<open>string\<close> is a HOL \<open>string\<close> (a list of 8-bit characters) and Go's \<open><\<close> on strings
  is the lexicographic order of \<open>List_Lexorder\<close> over \<open>Char_ord\<close>, which is also the
  order of PostgreSQL's C collation.
\<close>

named_theorems result_simps \<open>inversion rules of the error monad\<close>
named_theorems text_simps \<open>splitting and joining of dotted text\<close>

subsection \<open>Fallible computations\<close>

text \<open>
  A Go function that returns \<open>(T, error)\<close> is a value of \<open>'e + 'a\<close>: \<open>Inl\<close> carries the
  error of the early return, \<open>Inr\<close> the result.  \<open>rbind m f\<close> is the Go idiom
  \<open>x, err := m; if err != nil { return err }; ... f(x)\<close>.
\<close>

definition rbind :: "'err + 'v \<Rightarrow> ('v \<Rightarrow> 'err + 'w) \<Rightarrow> 'err + 'w" where
  "rbind m f = (case m of Inl e \<Rightarrow> Inl e | Inr x \<Rightarrow> f x)"

text \<open>A loop whose body may return an error: the state is threaded through the elements.\<close>

fun rfold :: "('s \<Rightarrow> 'a \<Rightarrow> 'e + 's) \<Rightarrow> 's \<Rightarrow> 'a list \<Rightarrow> 'e + 's" where
  "rfold f s [] = Inr s"
| "rfold f s (x # xs) = rbind (f s x) (\<lambda>s'. rfold f s' xs)"

text \<open>A loop that collects one result per element and stops at the first error.\<close>

fun rmap :: "('row \<Rightarrow> 'err + 'v) \<Rightarrow> 'row list \<Rightarrow> 'err + 'v list" where
  "rmap f [] = Inr []"
| "rmap f (x # xs) = rbind (f x) (\<lambda>y. rbind (rmap f xs) (\<lambda>ys. Inr (y # ys)))"

text \<open>A guard with early return.\<close>

definition guard_or :: "bool \<Rightarrow> 'e \<Rightarrow> 'e + unit" where
  "guard_or b e = (if b then Inr () else Inl e)"

text \<open>Turning a missing row or value into an error.\<close>

definition some_or :: "'a option \<Rightarrow> 'e \<Rightarrow> 'e + 'a" where
  "some_or x e = (case x of None \<Rightarrow> Inl e | Some v \<Rightarrow> Inr v)"

lemma rbind_simps [simp]:
  "rbind (Inl e) f = Inl e"
  "rbind (Inr x) f = f x"
  by (simp_all add: rbind_def)

lemma rbind_cong:
  "res = res' \<Longrightarrow> (\<And>v. res' = Inr v \<Longrightarrow> k v = k' v) \<Longrightarrow> rbind res k = rbind res' k'"
  by (cases res') simp_all

lemma rbind_Inr [result_simps]: "rbind res k = Inr w \<longleftrightarrow> (\<exists>v. res = Inr v \<and> k v = Inr w)"
  by (cases res) auto

lemma rbind_Inl [result_simps]:
  "rbind m f = Inl e \<longleftrightarrow> m = Inl e \<or> (\<exists>x. m = Inr x \<and> f x = Inl e)"
  by (cases m) auto

lemma guard_or_Inr [result_simps]: "guard_or b e = Inr u \<longleftrightarrow> b"
  by (simp add: guard_or_def)

lemma guard_or_Inl [result_simps]: "guard_or b e = Inl e' \<longleftrightarrow> \<not> b \<and> e' = e"
  by (auto simp: guard_or_def)

lemma some_or_Inr [result_simps]: "some_or x e = Inr v \<longleftrightarrow> x = Some v"
  by (auto simp: some_or_def split: option.splits)

lemma some_or_Inl [result_simps]: "some_or x e = Inl e' \<longleftrightarrow> x = None \<and> e' = e"
  by (auto simp: some_or_def split: option.splits)

lemma rfold_append: "rfold f s (xs @ ys) = rbind (rfold f s xs) (\<lambda>s'. rfold f s' ys)"
proof (induction xs arbitrary: s)
  case (Cons x xs)
  then show ?case by (cases "f s x") simp_all
qed simp

lemma rmap_Inr: "rmap f xs = Inr ys \<longleftrightarrow> list_all2 (\<lambda>x y. f x = Inr y) xs ys"
  by (induction xs arbitrary: ys) (auto simp: result_simps list_all2_Cons1)

lemma rmap_Inl_iff: "(\<exists>e. rmap f xs = Inl e) \<longleftrightarrow> (\<exists>x \<in> set xs. \<exists>e. f x = Inl e)"
proof (induction xs)
  case (Cons x xs)
  then show ?case by (cases "f x"; cases "rmap f xs") auto
qed simp

text \<open>An invariant of the loop body is an invariant of the loop.\<close>

lemma rfold_invariant:
  assumes "rfold f s xs = Inr t" and "P s"
    and "\<And>s x s'. x \<in> set xs \<Longrightarrow> P s \<Longrightarrow> f s x = Inr s' \<Longrightarrow> P s'"
  shows "P t"
  using assms
proof (induction xs arbitrary: s)
  case (Cons x xs)
  from Cons.prems(1) obtain s' where s': "f s x = Inr s'" "rfold f s' xs = Inr t"
    by (auto simp: result_simps)
  show ?case
  proof (rule Cons.IH)
    show "rfold f s' xs = Inr t" by (rule s')
    show "P s'" using Cons.prems(3) [of x s s'] Cons.prems(2) s'(1) by simp
    show "P v" if "x \<in> set xs" "P u" "f u x = Inr v" for u x v
      using that Cons.prems(3) [of x u v] by simp
  qed
qed simp

text \<open>A loop that stops with an error stops at one of its elements.\<close>

lemma rfold_error:
  "rfold f s xs = Inl e \<Longrightarrow> \<exists>ys x zs t. xs = ys @ x # zs \<and> rfold f s ys = Inr t \<and> f t x = Inl e"
proof (induction xs arbitrary: s)
  case (Cons x xs)
  show ?case
  proof (cases "f s x")
    case (Inl e')
    then show ?thesis using Cons.prems by (intro exI [of _ "[]"]) auto
  next
    case (Inr s')
    then have "rfold f s' xs = Inl e" using Cons.prems by simp
    then obtain ys y zs t where "xs = ys @ y # zs" "rfold f s' ys = Inr t" "f t y = Inl e" using Cons.IH by blast
    then show ?thesis using Inr by (intro exI [of _ "x # ys"]) auto
  qed
qed simp

lemma rfold_growth:
  "rfold f s xs = Inr t \<Longrightarrow> (\<And>s x s'. f s x = Inr s' \<Longrightarrow> sz s' \<le> Suc (sz s)) \<Longrightarrow> sz t \<le> sz s + length xs"
proof (induction xs arbitrary: s)
  case (Cons x xs)
  then obtain s' where "f s x = Inr s'" "rfold f s' xs = Inr t" by (auto simp: result_simps)
  then have "sz t \<le> sz s' + length xs" "sz s' \<le> Suc (sz s)" using Cons.IH Cons.prems(2) by blast+
  then show ?case by simp
qed simp

subsection \<open>Bytes\<close>

definition char_between :: "char \<Rightarrow> char \<Rightarrow> char \<Rightarrow> bool" where
  "char_between lo hi c = (lo \<le> c \<and> c \<le> hi)"

subsection \<open>Positions in a list\<close>

text \<open>\<open>strings.IndexByte\<close>, as an option: the first position of a byte.\<close>

fun index_of :: "'a list \<Rightarrow> 'a \<Rightarrow> nat option" where
  "index_of [] y = None"
| "index_of (x # xs) y = (if x = y then Some 0 else map_option Suc (index_of xs y))"

lemma index_of_Some: "index_of xs y = Some i \<Longrightarrow> i < length xs \<and> xs ! i = y"
  by (induction xs arbitrary: i) (auto split: if_splits)

lemma index_of_None [simp]: "index_of xs y = None \<longleftrightarrow> y \<notin> set xs"
  by (induction xs) auto

lemma index_of_nth: "distinct xs \<Longrightarrow> i < length xs \<Longrightarrow> index_of xs (xs ! i) = Some i"
proof (induction xs arbitrary: i)
  case (Cons x xs)
  then show ?case by (cases i) (auto simp: in_set_conv_nth)
qed simp

lemma filter_unique: "distinct (map f xs) \<Longrightarrow> x \<in> set xs \<Longrightarrow> filter (\<lambda>y. f y = f x) xs = [x]"
  by (induction xs) (auto simp: filter_empty_conv rev_image_eqI)

end
