(* ===== verification/Sx_Rank.thy ===== *)
theory Sx_Rank
  imports Sx_Prelude
begin

text \<open>
  The fractional ranks that order the items of a project: \<open>src/internal/store/rank.go\<close>.
  A rank is a string over a 36-letter alphabet, read as the digits of a fraction; a new item
  gets a rank strictly between its neighbours.  The search loop of \<open>RankBetween\<close> has no
  exit when both bounds denote the same fraction, so it is a \<open>partial_function\<close> whose
  value is \<open>None\<close> where the Go loop does not return.
\<close>

subsection \<open>The alphabet\<close>

definition rankAlphabet :: string where
  "rankAlphabet = ''0123456789abcdefghijklmnopqrstuvwxyz''"

definition RankRebalanceThreshold :: nat where
  "RankRebalanceThreshold = 40"

definition RankFirst :: string where
  "RankFirst = ''n''"

definition RankLast :: string where
  "RankLast = ''u''"

text \<open>
  What a call can end in besides a rank: the package error, or the run-time panic of
  indexing \<open>rankAlphabet\<close> out of range (a byte outside the alphabet has index -1).
\<close>

datatype rank_error = ErrRankOrder | IndexPanic

text \<open>\<open>strings.IndexByte(rankAlphabet, b)\<close>.\<close>

definition rankIndex :: "char \<Rightarrow> int" where
  "rankIndex b = (case index_of rankAlphabet b of None \<Rightarrow> -1 | Some i \<Rightarrow> int i)"

definition rankAt :: "string \<Rightarrow> nat \<Rightarrow> int" where
  "rankAt s i = (if length s \<le> i then 0 else rankIndex (s ! i))"

text \<open>The indexing expression \<open>rankAlphabet[d]\<close>; \<open>None\<close> is the panic.\<close>

definition alphabetAt :: "int \<Rightarrow> char option" where
  "alphabetAt d = (if 0 \<le> d \<and> d < int (length rankAlphabet) then Some (rankAlphabet ! nat d) else None)"

subsection \<open>RankBetween\<close>

text \<open>The inner loop, entered when the digits at position \<open>i\<close> are adjacent.\<close>

function rank_extend :: "string \<Rightarrow> nat \<Rightarrow> string \<Rightarrow> rank_error + string" where
  "rank_extend lo j b =
     (let dl = rankAt lo j in
      if dl < int (length rankAlphabet) - 1
      then rbind (some_or (alphabetAt ((dl + int (length rankAlphabet)) div 2)) IndexPanic)
             (\<lambda>c. Inr (b @ [c]))
      else rbind (some_or (alphabetAt dl) IndexPanic) (\<lambda>c. rank_extend lo (Suc j) (b @ [c])))"
  by pat_completeness auto
termination
  by (relation "measure (\<lambda>(lo, j, b). length lo - j)")
     (auto simp: rankAt_def rankAlphabet_def split: if_splits)

declare rank_extend.simps [simp del]

text \<open>The outer loop over the digit positions.\<close>

partial_function (option) rank_loop :: "string \<Rightarrow> string \<Rightarrow> nat \<Rightarrow> string \<Rightarrow> (rank_error + string) option" where
  "rank_loop lo hi i b =
     (let dlo = rankAt lo i; dhi = rankAt hi i in
      if dlo = dhi
      then (case alphabetAt dlo of None \<Rightarrow> Some (Inl IndexPanic) | Some c \<Rightarrow> rank_loop lo hi (Suc i) (b @ [c]))
      else if dhi - dlo > 1
      then Some (rbind (some_or (alphabetAt ((dlo + dhi) div 2)) IndexPanic) (\<lambda>c. Inr (b @ [c])))
      else Some (rbind (some_or (alphabetAt dlo) IndexPanic) (\<lambda>c. rank_extend lo (Suc i) (b @ [c]))))"

definition RankBetween :: "string \<Rightarrow> string \<Rightarrow> (rank_error + string) option" where
  "RankBetween lo hi =
     (if lo \<noteq> [] \<and> hi \<noteq> [] \<and> lo \<ge> hi then Some (Inl ErrRankOrder)
      else if hi = [] then
        (if lo = [] then Some (Inr RankFirst)
         else let last = length lo - 1; d = rankIndex (lo ! last) in
              if d < int (length rankAlphabet) - 1
              then Some (rbind (some_or (alphabetAt (d + 1)) IndexPanic) (\<lambda>c. Inr (take last lo @ [c])))
              else Some (Inr (lo @ RankFirst)))
      else rank_loop lo hi 0 [])"

subsection \<open>RankSequence\<close>

fun intPow :: "nat \<Rightarrow> nat \<Rightarrow> nat" where
  "intPow base 0 = 1"
| "intPow base (Suc e) = intPow base e * base"

text \<open>The loop fills the buffer from its last byte, one base-36 digit at a time.\<close>

fun rankEncode :: "nat \<Rightarrow> nat \<Rightarrow> string" where
  "rankEncode v 0 = []"
| "rankEncode v (Suc width) =
     rankEncode (v div length rankAlphabet) width @ [rankAlphabet ! (v mod length rankAlphabet)]"

text \<open>\<open>for pow := base; pow < n+2; pow *= base { width++ }\<close>.\<close>

function rank_width :: "nat \<Rightarrow> nat \<Rightarrow> nat \<Rightarrow> nat" where
  "rank_width n pow width =
     (if 0 < pow \<and> pow < n + 2 then rank_width n (pow * length rankAlphabet) (Suc width) else width)"
  by pat_completeness auto
termination
  by (relation "measure (\<lambda>(n, pow, width). n + 2 - pow)") (auto simp: rankAlphabet_def)

declare rank_width.simps [simp del]

definition rank_step :: "nat \<Rightarrow> nat \<Rightarrow> nat" where
  "rank_step n width =
     (let capacity = intPow (length rankAlphabet) width in
      if capacity > n + 2
      then (let step = (capacity - 2) div (n + 1) in if step < 1 then 1 else step)
      else 1)"

definition RankSequence :: "int \<Rightarrow> string list" where
  "RankSequence n =
     (if n \<le> 0 then []
      else let m = nat n; width = rank_width m (length rankAlphabet) 1; step = rank_step m width in
           map (\<lambda>i. rankEncode ((i + 1) * step) width) [0..<m])"

definition RankNeedsRebalance :: "string \<Rightarrow> bool" where
  "RankNeedsRebalance rank = (length rank > RankRebalanceThreshold)"


subsection \<open>Digits\<close>

definition rank_valid :: "string \<Rightarrow> bool" where
  "rank_valid s = list_all (\<lambda>c. c \<in> set rankAlphabet) s"

lemma length_rankAlphabet [simp]: "length rankAlphabet = 36"
  by (simp add: rankAlphabet_def)

lemma distinct_rankAlphabet: "distinct rankAlphabet"
  by (simp add: rankAlphabet_def)

lemma sorted_rankAlphabet: "sorted_wrt (<) rankAlphabet"
  by code_simp

lemma rankIndex_nth [simp]: "i < 36 \<Longrightarrow> rankIndex (rankAlphabet ! i) = int i"
  by (simp add: rankIndex_def index_of_nth [OF distinct_rankAlphabet])

lemma rankIndex_bounds: "c \<in> set rankAlphabet \<Longrightarrow> 0 \<le> rankIndex c \<and> rankIndex c < 36"
  by (auto simp: in_set_conv_nth)

lemma nth_rankIndex: "c \<in> set rankAlphabet \<Longrightarrow> rankAlphabet ! nat (rankIndex c) = c"
  by (auto simp: in_set_conv_nth)

lemma rankIndex_less_iff:
  assumes "c \<in> set rankAlphabet" and "d \<in> set rankAlphabet"
  shows "rankIndex c < rankIndex d \<longleftrightarrow> c < d"
proof -
  obtain i j where ij: "c = rankAlphabet ! i" "i < 36" "d = rankAlphabet ! j" "j < 36"
    using assms by (auto simp: in_set_conv_nth)
  have "i < j \<Longrightarrow> c < d" "j < i \<Longrightarrow> d < c"
    using ij sorted_wrt_nth_less [OF sorted_rankAlphabet] by auto
  then show ?thesis using ij by (cases i j rule: linorder_cases) auto
qed

lemma rankIndex_eq_iff:
  "c \<in> set rankAlphabet \<Longrightarrow> d \<in> set rankAlphabet \<Longrightarrow> rankIndex c = rankIndex d \<longleftrightarrow> c = d"
  by (metis nth_rankIndex)

lemma rankIndex_zero [simp]: "rankIndex CHR ''0'' = 0"
  by (simp add: rankIndex_def rankAlphabet_def)

lemma rankIndex_pos_iff: "c \<in> set rankAlphabet \<Longrightarrow> 0 < rankIndex c \<longleftrightarrow> c \<noteq> CHR ''0''"
proof -
  assume c: "c \<in> set rankAlphabet"
  have "CHR ''0'' \<in> set rankAlphabet" by (simp add: rankAlphabet_def)
  then show ?thesis
    using rankIndex_eq_iff [OF c] rankIndex_bounds [OF c] by fastforce
qed

lemma rankAt_simps [simp]:
  "rankAt [] k = 0"
  "rankAt (x # xs) 0 = rankIndex x"
  "rankAt (x # xs) (Suc k) = rankAt xs k"
  by (simp_all add: rankAt_def)

lemma rankAt_append:
  "rankAt (s @ t) k = (if k < length s then rankAt s k else rankAt t (k - length s))"
  by (auto simp: rankAt_def nth_append)

lemma rank_valid_simps [simp]:
  "rank_valid []"
  "rank_valid (x # xs) \<longleftrightarrow> x \<in> set rankAlphabet \<and> rank_valid xs"
  "rank_valid (xs @ ys) \<longleftrightarrow> rank_valid xs \<and> rank_valid ys"
  by (simp_all add: rank_valid_def)

lemma rankAt_bounds: "rank_valid s \<Longrightarrow> 0 \<le> rankAt s k \<and> rankAt s k < 36"
  by (auto simp: rankAt_def rank_valid_def list_all_iff dest: rankIndex_bounds)

lemma alphabetAt_eq:
  assumes "0 \<le> d" and "d < 36"
  obtains c where "alphabetAt d = Some c" "c \<in> set rankAlphabet" "rankIndex c = d"
proof -
  have "nat d < 36" using assms by simp
  then show thesis
    using assms that [of "rankAlphabet ! nat d"] by (simp add: alphabetAt_def)
qed

subsection \<open>Ranks as fractions\<close>

text \<open>
  The order of the fractions two ranks denote: digits past the end of a rank are zero, so
  \<open>a\<close> and \<open>a0\<close> are different strings but the same fraction.
\<close>

fun rank_lt :: "string \<Rightarrow> string \<Rightarrow> bool" where
  "rank_lt s [] = False"
| "rank_lt [] (y # ys) = (0 < rankIndex y \<or> rankIndex y = 0 \<and> rank_lt [] ys)"
| "rank_lt (x # xs) (y # ys) = (rankIndex x < rankIndex y \<or> rankIndex x = rankIndex y \<and> rank_lt xs ys)"

lemma ex_nat_split: "(\<exists>k. P k) \<longleftrightarrow> P (0::nat) \<or> (\<exists>k. P (Suc k))"
  by (metis not0_implies_Suc)

lemma rank_lt_digits:
  assumes "rank_valid s" and "rank_valid t"
  shows "rank_lt s t \<longleftrightarrow> (\<exists>k. (\<forall>i<k. rankAt s i = rankAt t i) \<and> rankAt s k < rankAt t k)"
  using assms
proof (induction s t rule: rank_lt.induct)
  case (1 s)
  then show ?case using rankAt_bounds by (auto simp: not_less)
next
  case (2 y ys)
  then show ?case by (subst ex_nat_split) (auto simp: All_less_Suc2)
next
  case (3 x xs y ys)
  then show ?case by (subst ex_nat_split) (auto simp: All_less_Suc2)
qed

lemma rank_lt_less: "rank_valid s \<Longrightarrow> rank_valid t \<Longrightarrow> rank_lt s t \<Longrightarrow> s < t"
  by (induction s t rule: rank_lt.induct) (auto simp: rankIndex_less_iff rankIndex_eq_iff)

lemma rank_lt_irrefl [simp]: "\<not> rank_lt s s"
  by (induction s) auto

lemma rank_lt_trans:
  assumes "rank_valid s" "rank_valid t" "rank_valid u" "rank_lt s t" "rank_lt t u"
  shows "rank_lt s u"
proof -
  obtain k where k: "\<forall>i<k. rankAt s i = rankAt t i" "rankAt s k < rankAt t k"
    using assms rank_lt_digits by blast
  obtain l where l: "\<forall>i<l. rankAt t i = rankAt u i" "rankAt t l < rankAt u l"
    using assms rank_lt_digits by blast
  have "(\<forall>i < min k l. rankAt s i = rankAt u i) \<and> rankAt s (min k l) < rankAt u (min k l)"
    using k l by (cases k l rule: linorder_cases) (auto simp: min_def)
  then show ?thesis using assms rank_lt_digits by blast
qed

text \<open>\<open>zero_extension lo hi\<close>: \<open>hi\<close> is \<open>lo\<close> followed by zeros, the same fraction.\<close>

definition zero_extension :: "string \<Rightarrow> string \<Rightarrow> bool" where
  "zero_extension lo hi = (hi = lo @ replicate (length hi - length lo) CHR ''0'')"

lemma zero_extension_simps [simp]:
  "zero_extension s []  \<longleftrightarrow> s = []"
  "zero_extension (x # xs) (y # ys) \<longleftrightarrow> x = y \<and> zero_extension xs ys"
  "zero_extension [] (y # ys) \<longleftrightarrow> y = CHR ''0'' \<and> zero_extension [] ys"
  by (auto simp: zero_extension_def)

text \<open>Two ranks in string order are in fraction order, or the second only adds zeros.\<close>

lemma less_rank_lt:
  assumes "rank_valid s" "rank_valid t" "s < t"
  shows "rank_lt s t \<or> zero_extension s t"
  using assms
proof (induction s t rule: rank_lt.induct)
  case (2 y ys)
  have "ys = [] \<or> [] < ys" by (cases ys) auto
  with 2 show ?case using rankIndex_pos_iff [of y] by (cases "y = CHR ''0''") auto
next
  case (3 x xs y ys)
  then show ?case by (auto simp: rankIndex_less_iff)
qed auto

lemma zero_extension_digits: "zero_extension s t \<Longrightarrow> rankAt s k = rankAt t k"
proof (induction s t arbitrary: k rule: rank_lt.induct)
  case (2 y ys)
  then show ?case by (cases k) auto
next
  case (3 x xs y ys)
  then show ?case by (cases k) auto
qed simp


subsection \<open>Digit by digit\<close>

lemma rank_lt_drop:
  assumes "rank_valid s" "rank_valid t"
  shows "rank_lt (drop i s) (drop i t) \<longleftrightarrow>
    rankAt s i < rankAt t i \<or> rankAt s i = rankAt t i \<and> rank_lt (drop (Suc i) s) (drop (Suc i) t)"
proof -
  have eq: "drop i u = (if i < length u then u ! i # drop (Suc i) u else [])" for u :: string
    by (simp add: Cons_nth_drop_Suc)
  have pos: "i < length u \<Longrightarrow> 0 \<le> rankIndex (u ! i)" if "rank_valid u" for u
    using rankAt_bounds [OF that, of i] by (simp add: rankAt_def)
  show ?thesis
    using eq [of s] eq [of t] pos [OF assms(1)] pos [OF assms(2)] 
    by (auto simp: rankAt_def not_less)
qed

lemma rank_lt_drop_Cons:
  assumes "rank_valid s"
  shows "rank_lt (drop i s) (c # w) \<longleftrightarrow>
    rankAt s i < rankIndex c \<or> rankAt s i = rankIndex c \<and> rank_lt (drop (Suc i) s) w"
proof (cases "i < length s")
  case True
  then show ?thesis by (simp add: Cons_nth_drop_Suc [symmetric] rankAt_def)
qed (auto simp: rankAt_def)

lemma rank_lt_Cons_drop:
  assumes "rank_valid s" "0 \<le> rankIndex c"
  shows "rank_lt (c # w) (drop i s) \<longleftrightarrow>
    rankIndex c < rankAt s i \<or> rankIndex c = rankAt s i \<and> rank_lt w (drop (Suc i) s)"
proof (cases "i < length s")
  case True
  then show ?thesis by (simp add: Cons_nth_drop_Suc [symmetric] rankAt_def)
qed (use assms in \<open>auto simp: rankAt_def\<close>)

subsection \<open>The inner loop\<close>

lemma rank_extend_spec:
  assumes "rank_valid lo"
  shows "\<exists>w. rank_extend lo j b = Inr (b @ w) \<and> rank_valid w \<and> rank_lt (drop j lo) w \<and>
           length w \<le> Suc (length lo - j)"
  using assms
proof (induction lo j b rule: rank_extend.induct)
  case (1 lo j b)
  note bnd = rankAt_bounds [OF 1(2), of j]
  show ?case
  proof (cases "rankAt lo j < 35")
    case True
    have "0 \<le> (rankAt lo j + 36) div 2" "(rankAt lo j + 36) div 2 < 36" using bnd True by auto
    then obtain c where "alphabetAt ((rankAt lo j + 36) div 2) = Some c" "c \<in> set rankAlphabet"
      "rankIndex c = (rankAt lo j + 36) div 2" by (rule alphabetAt_eq)
    then show ?thesis using True bnd
      by (auto simp: rank_extend.simps [of lo j b] some_or_def rank_lt_drop_Cons [OF 1(2)])
  next
    case False
    obtain c where c: "alphabetAt (rankAt lo j) = Some c" "c \<in> set rankAlphabet" "rankIndex c = rankAt lo j"
      using bnd alphabetAt_eq by metis
    have j: "j < length lo" using False by (auto simp: rankAt_def split: if_splits)
    have "\<exists>w. rank_extend lo (Suc j) (b @ [c]) = Inr ((b @ [c]) @ w) \<and> rank_valid w \<and>
        rank_lt (drop (Suc j) lo) w \<and> length w \<le> Suc (length lo - Suc j)"
      using 1(1) [OF refl _ 1(2)] False by simp
    then obtain w where "rank_extend lo (Suc j) (b @ [c]) = Inr (b @ c # w)" "rank_valid w"
      "rank_lt (drop (Suc j) lo) w" "length w \<le> Suc (length lo - Suc j)" by auto
    then show ?thesis using False c j
      by (intro exI [of _ "c # w"])
         (simp add: rank_extend.simps [of lo j b] some_or_def rank_lt_drop_Cons [OF 1(2)])
  qed
qed

lemma rank_loop_spec:
  assumes "rank_valid lo" "rank_valid hi" "rank_lt (drop i lo) (drop i hi)"
  shows "\<exists>w. rank_loop lo hi i b = Some (Inr (b @ w)) \<and> rank_valid w \<and>
           rank_lt (drop i lo) w \<and> rank_lt w (drop i hi) \<and>
           length w \<le> Suc (max (length lo) (length hi) - i)"
  using assms(3)
proof (induction "length hi - i" arbitrary: i b rule: less_induct)
  case less
  note lo = rankAt_bounds [OF assms(1), of i] and hi = rankAt_bounds [OF assms(2), of i]
  note digit = rank_lt_drop_Cons [OF assms(1)] rank_lt_Cons_drop [OF assms(2)]
  have i: "i < length hi" using less.prems by (cases "i < length hi") auto
  consider "rankAt lo i = rankAt hi i" "rank_lt (drop (Suc i) lo) (drop (Suc i) hi)"
    | "rankAt hi i - rankAt lo i > 1" | "rankAt hi i = rankAt lo i + 1"
    using less.prems rank_lt_drop [OF assms(1,2), of i] by fastforce
  then show ?case
  proof cases
    case 1
    obtain c where c: "alphabetAt (rankAt lo i) = Some c" "c \<in> set rankAlphabet" "rankIndex c = rankAt lo i"
      using lo alphabetAt_eq by metis
    obtain w where "rank_loop lo hi (Suc i) (b @ [c]) = Some (Inr ((b @ [c]) @ w))" "rank_valid w"
      "rank_lt (drop (Suc i) lo) w" "rank_lt w (drop (Suc i) hi)"
      "length w \<le> Suc (max (length lo) (length hi) - Suc i)"
      using less.hyps [of "Suc i" "b @ [c]", OF _ 1(2)] i by fastforce
    then show ?thesis using 1 c lo i
      by (intro exI [of _ "c # w"]) (simp add: rank_loop.simps [of lo hi i b] digit)
  next
    case 2
    have "0 \<le> (rankAt lo i + rankAt hi i) div 2" "(rankAt lo i + rankAt hi i) div 2 < 36"
      using lo hi 2 by auto
    then obtain c where "alphabetAt ((rankAt lo i + rankAt hi i) div 2) = Some c" "c \<in> set rankAlphabet"
      "rankIndex c = (rankAt lo i + rankAt hi i) div 2" by (rule alphabetAt_eq)
    then show ?thesis using 2 lo i
      by (intro exI [of _ "[c]"]) (auto simp: rank_loop.simps [of lo hi i b] some_or_def digit)
  next
    case 3
    obtain c where c: "alphabetAt (rankAt lo i) = Some c" "c \<in> set rankAlphabet" "rankIndex c = rankAt lo i"
      using lo alphabetAt_eq by metis
    obtain w where "rank_extend lo (Suc i) (b @ [c]) = Inr ((b @ [c]) @ w)" "rank_valid w"
      "rank_lt (drop (Suc i) lo) w" "length w \<le> Suc (length lo - Suc i)"
      using rank_extend_spec [OF assms(1)] by blast
    then show ?thesis using 3 c lo i
      by (intro exI [of _ "c # w"]) (simp add: rank_loop.simps [of lo hi i b] some_or_def digit)
  qed
qed

lemma rank_loop_diverges:
  assumes "rank_valid lo" "\<And>k. rankAt lo k = rankAt hi k"
  shows "rank_loop lo hi i b = None"
proof -
  have "rank_valid lo \<longrightarrow> (\<exists>k. rankAt lo k \<noteq> rankAt hi k)" if "rank_loop lo hi i b = Some y" for y
  proof (rule rank_loop.raw_induct [OF _ that], intro impI)
    fix loop :: "string \<Rightarrow> string \<Rightarrow> nat \<Rightarrow> string \<Rightarrow> (rank_error + string) option" and lo hi i b y
    assume IH: "\<And>lo hi i b y. loop lo hi i b = Some y \<Longrightarrow> rank_valid lo \<longrightarrow> (\<exists>k. rankAt lo k \<noteq> rankAt hi k)"
      and step: "(let dlo = rankAt lo i; dhi = rankAt hi i in
      if dlo = dhi
      then (case alphabetAt dlo of None \<Rightarrow> Some (Inl IndexPanic) | Some c \<Rightarrow> loop lo hi (Suc i) (b @ [c]))
      else if dhi - dlo > 1
      then Some (rbind (some_or (alphabetAt ((dlo + dhi) div 2)) IndexPanic) (\<lambda>c. Inr (b @ [c])))
      else Some (rbind (some_or (alphabetAt dlo) IndexPanic) (\<lambda>c. rank_extend lo (Suc i) (b @ [c])))) = Some y"
      and valid: "rank_valid lo"
    obtain c where c: "alphabetAt (rankAt lo i) = Some c"
      using rankAt_bounds [OF valid, of i] alphabetAt_eq by metis
    show "\<exists>k. rankAt lo k \<noteq> rankAt hi k"
    proof (cases "rankAt lo i = rankAt hi i")
      case True
      then have "loop lo hi (Suc i) (b @ [c]) = Some y" using step c by (simp add: Let_def)
      then show ?thesis using IH valid by blast
    qed blast
  qed
  then show ?thesis using assms by fastforce
qed

subsection \<open>What RankBetween returns\<close>

lemma less_Nil_string [simp]: "\<not> s < ([] :: string)"
  by (simp add: not_less)

lemma RankBetween_loop:
  "hi \<noteq> [] \<Longrightarrow> lo < hi \<Longrightarrow> RankBetween lo hi = rank_loop lo hi 0 []"
  by (auto simp: RankBetween_def)

lemma RankBetween_rank_lt:
  assumes "rank_valid lo" "rank_valid hi" "rank_lt lo hi"
  shows "\<exists>r. RankBetween lo hi = Some (Inr r) \<and> rank_valid r \<and> rank_lt lo r \<and> rank_lt r hi \<and>
           length r \<le> Suc (max (length lo) (length hi))"
proof -
  have "hi \<noteq> []" "lo < hi" using assms rank_lt_less by auto
  then show ?thesis using rank_loop_spec [OF assms(1,2), of 0 "[]"] assms(3) by (auto simp: RankBetween_loop)
qed

lemma rank_lt_append_pos: "0 < rankIndex c \<Longrightarrow> rank_lt s (s @ [c])"
  by (induction s) auto

lemma rank_lt_butlast:
  assumes "rank_valid s" "rankIndex c < rankIndex d"
  shows "rank_lt (s @ [c]) (s @ [d])"
  using assms by (induction s) auto

lemma RankBetween_after:
  assumes "rank_valid lo"
  shows "\<exists>r. RankBetween lo [] = Some (Inr r) \<and> rank_valid r \<and> rank_lt lo r \<and> length r \<le> Suc (length lo)"
proof (cases lo rule: rev_cases)
  case Nil
  then show ?thesis by (simp add: RankBetween_def RankFirst_def rankIndex_def rankAlphabet_def)
next
  case (snoc s c)
  have c: "c \<in> set rankAlphabet" "rank_valid s" using assms snoc by auto
  show ?thesis
  proof (cases "rankIndex c < 35")
    case True
    have "0 \<le> rankIndex c + 1" "rankIndex c + 1 < 36" using rankIndex_bounds [OF c(1)] True by auto
    then obtain d where "alphabetAt (rankIndex c + 1) = Some d" "d \<in> set rankAlphabet"
      "rankIndex d = rankIndex c + 1" by (rule alphabetAt_eq)
    then show ?thesis using True c snoc
      by (auto simp: RankBetween_def nth_append some_or_def intro!: rank_lt_butlast)
  next
    case False
    have "CHR ''n'' \<in> set rankAlphabet" "0 < rankIndex CHR ''n''"
      by (simp_all add: rankAlphabet_def rankIndex_def)
    then show ?thesis using False snoc assms rank_lt_append_pos [of "CHR ''n''" lo]
      by (simp add: RankBetween_def nth_append RankFirst_def)
  qed
qed

lemma RankBetween_not_above:
  "lo \<noteq> [] \<Longrightarrow> hi \<noteq> [] \<Longrightarrow> hi \<le> lo \<Longrightarrow> RankBetween lo hi = Some (Inl ErrRankOrder)"
  by (simp add: RankBetween_def)

lemma RankBetween_same_fraction:
  assumes "rank_valid lo" "hi \<noteq> []" "lo < hi" "zero_extension lo hi"
  shows "RankBetween lo hi = None"
  using rank_loop_diverges [OF assms(1)] zero_extension_digits [OF assms(4)] assms(2,3)
  by (simp add: RankBetween_loop)

subsection \<open>Evenly spread ranks\<close>

lemma rank_lt_snoc:
  assumes "length s = length t" "rank_valid s" "rank_valid t"
  shows "rank_lt (s @ [c]) (t @ [d]) \<longleftrightarrow> rank_lt s t \<or> s = t \<and> rankIndex c < rankIndex d"
  using assms
proof (induction s t rule: list_induct2)
  case (Cons x xs y ys)
  then show ?case using rankIndex_eq_iff [of x y] by auto
qed auto

lemma rankEncode_valid [simp]: "rank_valid (rankEncode v w)" "length (rankEncode v w) = w"
  by (induction w arbitrary: v) auto

lemma rankEncode_rank_lt: "v < v' \<Longrightarrow> v' < 36 ^ w \<Longrightarrow> rank_lt (rankEncode v w) (rankEncode v' w)"
proof (induction w arbitrary: v v')
  case (Suc w)
  have w: "v' div 36 < 36 ^ w" using Suc.prems(2) by (simp add: less_mult_imp_div_less mult.commute)
  have "v div 36 \<le> v' div 36" using Suc.prems(1) by (simp add: div_le_mono)
  then consider "v div 36 < v' div 36" | "v div 36 = v' div 36" "v mod 36 < v' mod 36"
    using Suc.prems(1) by (metis div_mult_mod_eq le_neq_implies_less nat_add_left_cancel_less)
  then show ?case
    by cases (use Suc.IH w in \<open>auto simp: rank_lt_snoc\<close>)
qed simp

lemma intPow_power: "intPow b e = b ^ e"
  by (induction e) (simp_all add: mult.commute)

lemma rank_width_capacity: "n + 2 \<le> 36 ^ rank_width n (36 ^ w) w"
proof (induction "n + 2 - 36 ^ w" arbitrary: w rule: less_induct)
  case less
  show ?case
  proof (cases "36 ^ w < n + 2")
    case True
    have "(36::nat) ^ w < 36 ^ Suc w" by simp
    then have "n + 2 - 36 ^ Suc w < n + 2 - 36 ^ w" using True by linarith
    then show ?thesis using less.hyps [of "Suc w"] True
      by (simp add: rank_width.simps [of n "36 ^ w"] mult.commute)
  qed (simp add: rank_width.simps)
qed

lemma rank_step_bounds:
  assumes "n + 2 \<le> 36 ^ w"
  shows "0 < rank_step n w" and "n * rank_step n w + 1 < 36 ^ w"
proof -
  define q where "q = (36 ^ w - 2) div (n + 1)"
  have q: "1 \<le> q" if "n + 2 < 36 ^ w"
    using that by (simp add: q_def Suc_le_eq div_greater_zero_iff)
  have "q * (n + 1) \<le> 36 ^ w - 2" unfolding q_def by (rule div_times_less_eq_dividend)
  moreover have "n * q \<le> q * (n + 1)" by simp
  ultimately have le: "n * q + 1 < 36 ^ w" using assms by linarith
  have step: "rank_step n w = (if n + 2 < 36 ^ w then q else 1)"
    using q by (auto simp: rank_step_def intPow_power q_def Let_def)
  show "0 < rank_step n w" using q by (auto simp: step)
  show "n * rank_step n w + 1 < 36 ^ w" using le assms by (auto simp: step)
qed

lemma RankSequence_eq:
  assumes "0 < n"
  obtains w step where
    "RankSequence n = map (\<lambda>i. rankEncode ((i + 1) * step) w) [0..<nat n]"
    "0 < step" "nat n * step + 1 < 36 ^ w"
proof -
  define w where "w = rank_width (nat n) 36 1"
  have "nat n + 2 \<le> 36 ^ w" using rank_width_capacity [of "nat n" 1] by (simp add: w_def)
  then show thesis
    using that [of "rank_step (nat n) w" w] rank_step_bounds [of "nat n" w] assms
    by (simp add: RankSequence_def w_def Let_def)
qed

lemma RankSequence_sorted: "sorted_wrt rank_lt (RankSequence n)"
proof (cases "0 < n")
  case True
  then obtain w step where
    seq: "RankSequence n = map (\<lambda>i. rankEncode ((i + 1) * step) w) [0..<nat n]"
    and step: "0 < step" "nat n * step + 1 < 36 ^ w" by (rule RankSequence_eq)
  have "rank_lt (rankEncode ((i + 1) * step) w) (rankEncode ((j + 1) * step) w)"
    if "i < j" "j < nat n" for i j
  proof (rule rankEncode_rank_lt)
    show "(i + 1) * step < (j + 1) * step" using that step by simp
    have "(j + 1) * step \<le> nat n * step" using that by (intro mult_le_mono1) simp
    then show "(j + 1) * step < 36 ^ w" using step by linarith
  qed
  then show ?thesis by (auto simp: seq sorted_wrt_iff_nth_less)
qed (simp add: RankSequence_def)

lemma rankEncode_zero: "rankEncode 0 w = replicate w CHR ''0''"
  by (induction w) (simp_all add: rankAlphabet_def replicate_append_same)

lemma rank_lt_zeros: "rank_lt (replicate k CHR ''0'') t \<Longrightarrow> rank_lt [] t"
  by (induction t arbitrary: k; case_tac k) (auto simp: less_le_trans)

lemma RankSequence_bounds:
  assumes "r \<in> set (RankSequence n)"
  shows "rank_valid r" "rank_lt [] r" "length r = length (hd (RankSequence n))"
proof -
  have "0 < n" using assms by (auto simp: RankSequence_def split: if_splits)
  then obtain w step where
    seq: "RankSequence n = map (\<lambda>i. rankEncode ((i + 1) * step) w) [0..<nat n]"
    and step: "0 < step" "nat n * step + 1 < 36 ^ w" by (rule RankSequence_eq)
  obtain i where i: "i < nat n" "r = rankEncode ((i + 1) * step) w" using assms by (auto simp: seq)
  have "(i + 1) * step \<le> nat n * step" using i by (intro mult_le_mono1) simp
  then have "rank_lt (rankEncode 0 w) r"
    unfolding i(2) using step by (intro rankEncode_rank_lt) auto
  then show "rank_lt [] r" by (auto simp: rankEncode_zero dest: rank_lt_zeros)
  show "rank_valid r" using i by simp
  show "length r = length (hd (RankSequence n))" using i \<open>0 < n\<close> by (simp add: seq hd_map)
qed

subsection \<open>The rank space as an interface\<close>

text \<open>
  What the store relies on when it places an item: an order on valid ranks, a least sentinel
  standing for ``no neighbour'', and a placement function that finds room strictly between
  any two ranks and after any rank.  \<open>insert_at\<close> puts one rank at position \<open>k\<close> of an ordered
  project, asking for a rank between the neighbours there.
\<close>

fun insert_at :: "('r \<Rightarrow> 'r \<Rightarrow> 'r option) \<Rightarrow> 'r \<Rightarrow> 'r list \<Rightarrow> nat \<Rightarrow> 'r list option" where
  "insert_at place none rs k =
     map_option (\<lambda>r. take k rs @ r # drop k rs)
       (place (last (none # take k rs)) (hd (drop k rs @ [none])))"

fun insert_all :: "('r \<Rightarrow> 'r \<Rightarrow> 'r option) \<Rightarrow> 'r \<Rightarrow> 'r list \<Rightarrow> nat list \<Rightarrow> 'r list option" where
  "insert_all place none rs [] = Some rs"
| "insert_all place none rs (k # ks) =
     Option.bind (insert_at place none rs k) (\<lambda>rs'. insert_all place none rs' ks)"

locale rank_space =
  fixes valid :: "'r \<Rightarrow> bool" and lt :: "'r \<Rightarrow> 'r \<Rightarrow> bool"
    and none :: 'r and place :: "'r \<Rightarrow> 'r \<Rightarrow> 'r option"
  assumes none_valid: "valid none"
    and lt_trans: "valid r \<Longrightarrow> valid s \<Longrightarrow> valid t \<Longrightarrow> lt r s \<Longrightarrow> lt s t \<Longrightarrow> lt r t"
    and place_between: "valid lo \<Longrightarrow> valid hi \<Longrightarrow> lt lo hi \<Longrightarrow>
      \<exists>r. place lo hi = Some r \<and> valid r \<and> lt lo r \<and> lt r hi"
    and place_after: "valid lo \<Longrightarrow> \<exists>r. place lo none = Some r \<and> valid r \<and> lt lo r"
begin

definition ordered :: "'r list \<Rightarrow> bool" where
  "ordered rs = (list_all valid rs \<and> sorted_wrt lt (none # rs))"

lemma ordered_split:
  assumes "list_all valid (xs @ [l] @ [r] @ ys)" "sorted_wrt lt (xs @ [l])" "sorted_wrt lt ([l] @ ys)"
    and "lt l r" "\<forall>y \<in> set ys. lt r y"
  shows "sorted_wrt lt (xs @ [l] @ [r] @ ys)"
proof -
  have "lt x l" "valid x" if "x \<in> set xs" for x
    using that assms(1,2) by (auto simp: sorted_wrt_append list_all_iff)
  moreover have "valid l" "valid r" using assms(1) by (auto simp: list_all_iff)
  moreover have "lt x y" if "x \<in> set xs" "y \<in> set ys" for x y
    using that assms calculation lt_trans [of x l y] by (auto simp: list_all_iff)
  moreover have "lt x r" if "x \<in> set xs" for x
    using that assms(4) calculation lt_trans [of x l r] by auto
  ultimately show ?thesis
    using assms(2-5) by (auto simp: sorted_wrt_append)
qed

lemma insert_at_ordered:
  assumes "ordered rs"
  shows "\<exists>rs'. insert_at place none rs k = Some rs' \<and> ordered rs' \<and> length rs' = Suc (length rs)"
proof -
  define xs where "xs = butlast (none # take k rs)"
  define l where "l = last (none # take k rs)"
  define ys where "ys = drop k rs"
  have split: "none # take k rs = xs @ [l]"
    unfolding xs_def l_def by (rule append_butlast_last_id [symmetric]) simp
  have rs: "none # rs = xs @ [l] @ ys"
    using split ys_def by (metis append.assoc append_Cons append_take_drop_id)
  have valid: "list_all valid (xs @ [l] @ ys)" and sorted: "sorted_wrt lt (xs @ [l] @ ys)"
    using assms none_valid unfolding ordered_def rs [symmetric] by auto
  obtain r where r: "place l (hd (ys @ [none])) = Some r" "valid r" "lt l r" "\<forall>y \<in> set ys. lt r y"
  proof (cases ys)
    case Nil
    then show thesis using that place_after [of l] valid by auto
  next
    case (Cons y zs)
    then obtain r where "place l y = Some r" "valid r" "lt l r" "lt r y"
      using place_between [of l y] valid sorted by (auto simp: sorted_wrt_append)
    moreover have "lt r z" if "z \<in> set zs" for z
      using that calculation Cons valid sorted lt_trans [of r y z]
      by (auto simp: sorted_wrt_append list_all_iff)
    ultimately show thesis using that Cons by auto
  qed
  have "sorted_wrt lt (xs @ [l] @ [r] @ ys)"
    using ordered_split [of xs l r ys] r valid sorted by (auto simp: sorted_wrt_append)
  moreover have "none # take k rs @ r # ys = xs @ [l] @ [r] @ ys" using split by auto
  ultimately have "sorted_wrt lt (none # take k rs @ r # ys)" by metis
  moreover have "list_all valid (take k rs @ r # ys)"
    using r(2) assms ys_def by (auto simp: ordered_def list_all_iff dest: in_set_takeD in_set_dropD)
  ultimately have "ordered (take k rs @ r # ys)" unfolding ordered_def by blast
  then show ?thesis using r by (simp add: l_def ys_def)
qed

lemma insert_all_ordered:
  "ordered rs \<Longrightarrow> \<exists>rs'. insert_all place none rs ks = Some rs' \<and> ordered rs' \<and>
     length rs' = length rs + length ks"
proof (induction ks arbitrary: rs)
  case (Cons k ks)
  obtain rs' where "insert_at place none rs k = Some rs'" "ordered rs'" "length rs' = Suc (length rs)"
    using insert_at_ordered [OF Cons.prems] by blast
  then show ?case using Cons.IH [of rs'] by auto
qed simp

end

text \<open>The rank space of the store: \<open>RankBetween\<close>, with the empty string as the sentinel.\<close>

definition rank_place :: "string \<Rightarrow> string \<Rightarrow> string option" where
  "rank_place lo hi = (case RankBetween lo hi of Some (Inr r) \<Rightarrow> Some r | _ \<Rightarrow> None)"

interpretation ranks: rank_space rank_valid rank_lt "[]" rank_place
proof unfold_locales
  show "rank_valid []" by simp
  show "rank_lt r t" if "rank_valid r" "rank_valid s" "rank_valid t" "rank_lt r s" "rank_lt s t" for r s t
    using that by (rule rank_lt_trans)
  show "\<exists>r. rank_place lo hi = Some r \<and> rank_valid r \<and> rank_lt lo r \<and> rank_lt r hi"
    if "rank_valid lo" "rank_valid hi" "rank_lt lo hi" for lo hi
    using RankBetween_rank_lt [OF that] by (auto simp: rank_place_def)
  show "\<exists>r. rank_place lo [] = Some r \<and> rank_valid r \<and> rank_lt lo r" if "rank_valid lo" for lo
    using RankBetween_after [OF that] by (auto simp: rank_place_def)
qed

definition ranks_ordered :: "string list \<Rightarrow> bool" where
  "ranks_ordered rs = (list_all rank_valid rs \<and> sorted_wrt rank_lt ([] # rs))"

lemma ranks_ordered_alt: "ranks_ordered rs = ranks.ordered rs"
  by (simp add: ranks_ordered_def ranks.ordered_def)

lemma RankSequence_length [simp]: "length (RankSequence n) = nat n"
  by (simp add: RankSequence_def Let_def)

lemma RankSequence_ordered: "ranks_ordered (RankSequence n)"
  using RankSequence_bounds(1,2) [of _ n] RankSequence_sorted by (auto simp: ranks_ordered_def list_all_iff)

subsection \<open>Properties\<close>

text \<open>
  C6.  \<open>RankBetween\<close> places a rank: for two ranks over the alphabet in ascending order
  that do not denote the same fraction (the upper one is not the lower one with zeros
  appended), the search ends and its result is a rank over the alphabet that sorts strictly
  between them, both as a string and as a fraction.
\<close>

theorem RankBetween_between:
  assumes "rank_valid lo" "rank_valid hi" "lo < hi" "\<not> zero_extension lo hi"
  shows "\<exists>r. RankBetween lo hi = Some (Inr r) \<and> rank_valid r \<and> lo < r \<and> r < hi \<and>
           rank_lt lo r \<and> rank_lt r hi"
proof -
  have "rank_lt lo hi" using less_rank_lt [OF assms(1,2,3)] assms(4) by blast
  then show ?thesis using RankBetween_rank_lt [OF assms(1,2)] assms(1,2) rank_lt_less by blast
qed

theorem RankBetween_between_witness:
  "\<exists>r. RankBetween ''az'' ''bz'' = Some (Inr r) \<and> ''az'' < r \<and> r < ''bz''"
  using RankBetween_between [of "''az''" "''bz''"] by (auto simp: rankAlphabet_def)

text \<open>
  C10.  The search fails to return exactly on bounds that denote the same fraction: for ranks
  over the alphabet, \<open>RankBetween lo hi\<close> loops forever if and only if \<open>hi\<close> is \<open>lo\<close>
  followed by one or more zeros.  Every other call returns, and never panics.
\<close>

theorem RankBetween_diverges_iff:
  assumes "rank_valid lo" "rank_valid hi"
  shows "(RankBetween lo hi = None \<longleftrightarrow> lo < hi \<and> zero_extension lo hi) \<and>
    RankBetween lo hi \<noteq> Some (Inl IndexPanic) \<and>
    (RankBetween lo hi = Some (Inl ErrRankOrder) \<longleftrightarrow> lo \<noteq> [] \<and> hi \<noteq> [] \<and> hi \<le> lo)"
proof -
  consider "lo \<noteq> []" "hi \<noteq> []" "hi \<le> lo" | "hi = []" | "hi \<noteq> []" "lo < hi" "zero_extension lo hi"
    | "hi \<noteq> []" "lo < hi" "rank_lt lo hi" "\<not> zero_extension lo hi"
  proof -
    have "lo < hi" if "hi \<noteq> []" "\<not> (lo \<noteq> [] \<and> hi \<le> lo)"
      using that by (cases hi; cases "lo = []") auto
    then show ?thesis using that less_rank_lt [OF assms] by blast
  qed
  then show ?thesis
  proof cases
    case 1 then show ?thesis by (simp add: RankBetween_not_above leD)
  next
    case 2 then show ?thesis using RankBetween_after [OF assms(1)] by auto
  next
    case 3 then show ?thesis using RankBetween_same_fraction [OF assms(1)] by auto
  next
    case 4 then show ?thesis using RankBetween_rank_lt [OF assms] by auto
  qed
qed

theorem RankBetween_diverges_iff_witness: "RankBetween ''a'' ''a0'' = None"
  using RankBetween_diverges_iff [of "''a''" "''a0''"] by (simp add: rankAlphabet_def)

text \<open>
  The bulk spread: \<open>RankSequence n\<close> returns \<open>n\<close> ranks (none for \<open>n \<le> 0\<close>) in strictly
  ascending string and fraction order, all over the alphabet and of one width, with room left
  before the first.
\<close>

theorem RankSequence_spread:
  "length (RankSequence n) = nat n \<and>
   sorted_wrt (<) (RankSequence n) \<and>
   ranks_ordered (RankSequence n) \<and>
   list_all (\<lambda>r. length r = length (hd (RankSequence n))) (RankSequence n)"
proof -
  have "sorted_wrt (<) (RankSequence n)"
    by (rule sorted_wrt_mono_rel [OF _ RankSequence_sorted])
       (use rank_lt_less RankSequence_bounds(1) in blast)
  then show ?thesis
    using RankSequence_bounds(3) [of _ n] RankSequence_ordered RankSequence_length by (auto simp: list_all_iff)
qed

text \<open>
  Placement never gets stuck: starting from any strictly ordered project, any sequence of
  insertions at any positions, each rank computed by \<open>RankBetween\<close> from the two neighbours,
  succeeds and leaves the project strictly ordered with one more rank per insertion.
\<close>

theorem insertions_never_stuck:
  assumes "ranks_ordered rs"
  shows "\<exists>rs'. insert_all rank_place [] rs ks = Some rs' \<and> ranks_ordered rs' \<and>
           length rs' = length rs + length ks"
  using ranks.insert_all_ordered [of rs ks] assms by (simp add: ranks_ordered_alt)

theorem insertions_never_stuck_witness:
  "\<exists>rs'. insert_all rank_place [] [''9'', ''i'', ''i0c''] [0, 1, 1, 4] = Some rs' \<and> ranks_ordered rs' \<and>
     length rs' = 7"
proof -
  have "ranks_ordered [''9'', ''i'', ''i0c'']"
    by (simp add: ranks_ordered_def rankIndex_def rankAlphabet_def)
  then show ?thesis using insertions_never_stuck [of "[''9'', ''i'', ''i0c'']" "[0, 1, 1, 4]"]
    by (simp del: insert_all.simps insert_at.simps add: eval_nat_numeral)
qed

text \<open>
   A placed rank is at most one character longer than its longer neighbour, so
  \<open>RankNeedsRebalance\<close> holds only when a neighbour has reached the threshold already.
\<close>

theorem RankBetween_growth:
  assumes "rank_valid lo" "rank_valid hi" "RankBetween lo hi = Some (Inr r)"
  shows "length r \<le> Suc (max (length lo) (length hi)) \<and>
    (RankNeedsRebalance r \<longrightarrow> RankRebalanceThreshold \<le> max (length lo) (length hi))"
proof -
  have "hi = [] \<or> lo < hi"
    using assms(3) RankBetween_not_above [of lo hi] by (cases hi; cases "lo = []") force+
  then consider "hi = []" | "lo < hi" "rank_lt lo hi"
    using less_rank_lt [OF assms(1,2)] RankBetween_same_fraction [OF assms(1), of hi] assms(3) by auto
  then have "length r \<le> Suc (max (length lo) (length hi))"
    by cases (use RankBetween_after [OF assms(1)] RankBetween_rank_lt [OF assms(1,2)] assms(3) in auto)
  then show ?thesis by (auto simp: RankNeedsRebalance_def RankRebalanceThreshold_def)
qed

theorem RankBetween_growth_witness: "length ''azi'' \<le> Suc (max (length ''az'') (length ''bz''))"
proof -
  have "RankBetween ''az'' ''bz'' = Some (Inr ''azi'')"
    by (simp add: RankBetween_def rank_loop.simps rank_extend.simps rankAt_def rankIndex_def
        rankAlphabet_def alphabetAt_def some_or_def)
  then show ?thesis using RankBetween_growth [of "''az''" "''bz''" "''azi''"]
    by (simp add: rankAlphabet_def)
qed

text \<open>
  The comment of \<open>RankBetween\<close> promises the shortest string of the interval.  It is not
  always the shortest: between \<open>az\<close> and \<open>bz\<close> the code answers \<open>azi\<close>, although \<open>b\<close> lies
  between them and is shorter.
\<close>

theorem RankBetween_not_shortest:
  "RankBetween ''az'' ''bz'' = Some (Inr ''azi'') \<and> rank_valid ''b'' \<and>
   rank_lt ''az'' ''b'' \<and> rank_lt ''b'' ''bz'' \<and> length ''b'' < length ''azi''"
  by (simp add: RankBetween_def rank_loop.simps rank_extend.simps rankAt_def rankIndex_def
      rankAlphabet_def alphabetAt_def some_or_def)

end
