(* ===== verification/Sx_Path.thy ===== *)
theory Sx_Path
  imports Sx_Prelude "HOL-Library.Word"
begin

text \<open>
  Identifiers and materialised paths.  An item's \<open>path\<close> column is a PostgreSQL \<open>ltree\<close>
  whose labels are the canonical texts of the ids of its ancestors and of the item itself; Go
  sees it as the labels joined by dots.  This theory models the identifiers (Go's \<open>uuid\<close>
  package, 128-bit values with their hyphenated text), splitting and joining of dotted text
  (\<open>strings.Split\<close>, \<open>strings.Count\<close>, \<open>strings.HasPrefix\<close>), \<open>isDescendantOrSelf\<close> of
  \<open>src/internal/store/mutate.go\<close>, and the \<open>ltree\<close> operations the SQL text uses.
\<close>

subsection \<open>Dotted text\<close>

definition dotless :: "string \<Rightarrow> bool" where
  "dotless s = (CHR ''.'' \<notin> set s)"

text \<open>\<open>strings.Join(labels, ".")\<close>, the text form of an \<open>ltree\<close>.\<close>

fun join_dots :: "string list \<Rightarrow> string" where
  "join_dots [] = []"
| "join_dots [x] = x"
| "join_dots (x # y # ys) = x @ CHR ''.'' # join_dots (y # ys)"

text \<open>\<open>strings.Split(s, ".")\<close>: the empty text has one empty label.\<close>

fun split_dots :: "string \<Rightarrow> string list" where
  "split_dots [] = [[]]"
| "split_dots (c # cs) =
     (if c = CHR ''.'' then [] # split_dots cs
      else case split_dots cs of [] \<Rightarrow> [[c]] | l # ls \<Rightarrow> (c # l) # ls)"

text \<open>\<open>strings.Count(s, ".")\<close>.\<close>

definition count_dots :: "string \<Rightarrow> nat" where
  "count_dots s = length (filter (\<lambda>c. c = CHR ''.'') s)"

definition isDescendantOrSelf :: "string \<Rightarrow> string \<Rightarrow> bool" where
  "isDescendantOrSelf candidate ancestor =
     (candidate = ancestor \<or> prefix (ancestor @ ''.'') candidate)"

lemma split_dots_ne [simp]: "split_dots s \<noteq> []"
  by (induction s) (auto split: list.splits)

lemma split_dots_dotless: "dotless s \<Longrightarrow> split_dots s = [s]"
  by (induction s) (auto simp: dotless_def)

lemma split_dots_append:
  "dotless s \<Longrightarrow> split_dots (s @ CHR ''.'' # t) = s # split_dots t"
  by (induction s) (auto simp: dotless_def)

lemma split_join [text_simps]: "list_all dotless ls \<Longrightarrow> ls \<noteq> [] \<Longrightarrow> split_dots (join_dots ls) = ls"
  by (induction ls rule: join_dots.induct) (auto simp: split_dots_dotless split_dots_append)

lemma dot_append_eq:
  "dotless x \<Longrightarrow> dotless y \<Longrightarrow> x @ CHR ''.'' # s = y @ CHR ''.'' # t \<longleftrightarrow> x = y \<and> s = t"
proof (induction x arbitrary: y)
  case Nil
  then show ?case by (cases y) (auto simp: dotless_def)
next
  case (Cons a x)
  then show ?case by (cases y) (auto simp: dotless_def)
qed

lemma dot_prefix_iff:
  assumes "dotless x" "dotless y"
  shows "prefix (x @ CHR ''.'' # s) (y @ CHR ''.'' # t) \<longleftrightarrow> x = y \<and> prefix s t"
  using dot_append_eq [OF assms(2) assms(1)] by (auto simp: prefix_def)

lemma prefix_set: "prefix s t \<Longrightarrow> set s \<subseteq> set t"
  by (auto simp: prefix_def)

lemma dotted_prefix_iff:
  assumes "list_all dotless as" "list_all dotless cs" "as \<noteq> []"
  shows "prefix (join_dots as @ ''.'') (join_dots cs) \<longleftrightarrow> strict_prefix as cs"
  using assms
proof (induction as arbitrary: cs rule: join_dots.induct)
  case (2 x)
  show ?case
  proof (cases cs rule: join_dots.cases)
    case (2 y)
    then show ?thesis using \<open>list_all dotless cs\<close> by (auto simp: dotless_def dest!: prefix_set)
  next
    case (3 y z zs)
    then show ?thesis using \<open>list_all dotless cs\<close> \<open>list_all dotless [x]\<close>
      by (simp add: dot_prefix_iff strict_prefix_def)
  qed (simp add: prefix_def)
next
  case (3 x x' xs)
  show ?case
  proof (cases cs rule: join_dots.cases)
    case (2 y)
    then show ?thesis using \<open>list_all dotless cs\<close> by (auto simp: dotless_def dest!: prefix_set)
  next
    case c: (3 y z zs)
    then show ?thesis using "3.prems" "3.IH" [of "z # zs"]
      by (auto simp: dot_prefix_iff strict_prefix_def)
  qed (simp add: prefix_def)
qed simp

lemma join_dots_inject [text_simps]:
  assumes "list_all dotless as" "list_all dotless cs" "as \<noteq> []" "cs \<noteq> []"
  shows "join_dots as = join_dots cs \<longleftrightarrow> as = cs"
  using assms by (metis split_join)

text \<open>
  On the texts of paths, \<open>isDescendantOrSelf\<close> is the prefix order on whole labels.
\<close>

lemma isDescendantOrSelf_prefix [text_simps]:
  assumes "list_all dotless as" "list_all dotless cs" "as \<noteq> []" "cs \<noteq> []"
  shows "isDescendantOrSelf (join_dots cs) (join_dots as) \<longleftrightarrow> prefix as cs"
  using assms dotted_prefix_iff [OF assms(1-3)] join_dots_inject [OF assms]
  by (auto simp: isDescendantOrSelf_def strict_prefix_def)

lemma join_dots_snoc [text_simps]:
  "ls \<noteq> [] \<Longrightarrow> join_dots (ls @ [x]) = join_dots ls @ ''.'' @ x"
  by (induction ls rule: join_dots.induct) auto

lemma count_dots_join [text_simps]:
  "list_all dotless ls \<Longrightarrow> ls \<noteq> [] \<Longrightarrow> count_dots (join_dots ls) + 1 = length ls"
  by (induction ls rule: join_dots.induct) (auto simp: count_dots_def dotless_def filter_empty_conv)

subsection \<open>Hexadecimal text\<close>

definition hexAlphabet :: string where
  "hexAlphabet = ''0123456789abcdef''"

fun hexEncode :: "nat \<Rightarrow> nat \<Rightarrow> string" where
  "hexEncode v 0 = []"
| "hexEncode v (Suc w) = hexEncode (v div 16) w @ [hexAlphabet ! (v mod 16)]"

definition hexValue :: "char \<Rightarrow> nat option" where
  "hexValue c = (case index_of hexAlphabet c of Some i \<Rightarrow> Some i | None \<Rightarrow> index_of ''0123456789ABCDEF'' c)"

fun hexDecode :: "nat \<Rightarrow> string \<Rightarrow> nat option" where
  "hexDecode acc [] = Some acc"
| "hexDecode acc (c # cs) = (case hexValue c of None \<Rightarrow> None | Some d \<Rightarrow> hexDecode (16 * acc + d) cs)"

lemma length_hexAlphabet [simp]: "length hexAlphabet = 16"
  by (simp add: hexAlphabet_def)

lemma hexValue_nth [simp]: "i < 16 \<Longrightarrow> hexValue (hexAlphabet ! i) = Some i"
  using index_of_nth [of hexAlphabet i] by (simp add: hexValue_def) (simp add: hexAlphabet_def)

lemma length_hexEncode [simp]: "length (hexEncode v w) = w"
  by (induction w arbitrary: v) auto

lemma set_hexEncode: "set (hexEncode v w) \<subseteq> set hexAlphabet"
  by (induction w arbitrary: v) auto

lemma hexDecode_append: "hexDecode a (s @ t) = Option.bind (hexDecode a s) (\<lambda>a'. hexDecode a' t)"
  by (induction s arbitrary: a) (auto split: option.splits)

lemma hexDecode_hexEncode: "hexDecode a (hexEncode v w) = Some (a * 16 ^ w + v mod 16 ^ w)"
proof (induction w arbitrary: v)
  case (Suc w)
  have "16 * (v div 16 mod 16 ^ w) + v mod 16 = v mod (16 * 16 ^ w)"
    by (simp add: mod_mult2_eq)
  then show ?case using Suc by (simp add: hexDecode_append algebra_simps)
qed simp

subsection \<open>Identifiers\<close>

type_synonym uuid = "128 word"

text \<open>\<open>id.String()\<close>: lower-case hexadecimal, hyphenated 8-4-4-4-12.\<close>

definition uuid_String :: "uuid \<Rightarrow> string" where
  "uuid_String u =
     (let h = hexEncode (unat u) 32 in
      take 8 h @ ''-'' @ take 4 (drop 8 h) @ ''-'' @ take 4 (drop 12 h) @ ''-'' @
      take 4 (drop 16 h) @ ''-'' @ drop 20 h)"

text \<open>
  \<open>uuid.Parse\<close> on the hyphenated form of 36 bytes, in either case.  The package accepts
  further spellings (braces, a \<open>urn:\<close> prefix); none of them occurs in a path, whose labels
  are written by \<open>String\<close>.
\<close>

definition uuid_Parse :: "string \<Rightarrow> uuid option" where
  "uuid_Parse s =
     (if length s = 36 \<and> s ! 8 = CHR ''-'' \<and> s ! 13 = CHR ''-'' \<and> s ! 18 = CHR ''-'' \<and> s ! 23 = CHR ''-''
      then map_option of_nat (hexDecode 0
             (take 8 s @ take 4 (drop 9 s) @ take 4 (drop 14 s) @ take 4 (drop 19 s) @ drop 24 s))
      else None)"

lemma uuid_String_split:
  obtains a b c d e where "hexEncode (unat u) 32 = a @ b @ c @ d @ e"
    "length a = 8" "length b = 4" "length c = 4" "length d = 4" "length e = 12"
    "uuid_String u = a @ ''-'' @ b @ ''-'' @ c @ ''-'' @ d @ ''-'' @ e"
proof -
  define h where "h = hexEncode (unat u) 32"
  have "h = take 8 h @ take 4 (drop 8 h) @ take 4 (drop 12 h) @ take 4 (drop 16 h) @ drop 20 h"
    using append_take_drop_id [of 8 h] append_take_drop_id [of 4 "drop 8 h"]
      append_take_drop_id [of 4 "drop 12 h"] append_take_drop_id [of 4 "drop 16 h"]
    by (simp add: drop_drop)
  moreover have "length h = 32" by (simp add: h_def)
  ultimately show thesis
    using that [of "take 8 h" "take 4 (drop 8 h)" "take 4 (drop 12 h)" "take 4 (drop 16 h)" "drop 20 h"]
    by (simp add: h_def uuid_String_def Let_def)
qed

lemma uuid_Parse_String [simp]: "uuid_Parse (uuid_String u) = Some u"
proof -
  obtain a b c d e where h: "hexEncode (unat u) 32 = a @ b @ c @ d @ e"
    and len: "length a = 8" "length b = 4" "length c = 4" "length d = 4" "length e = 12"
    and s: "uuid_String u = a @ ''-'' @ b @ ''-'' @ c @ ''-'' @ d @ ''-'' @ e"
    by (rule uuid_String_split)
  have "uuid_Parse (uuid_String u) = map_option of_nat (hexDecode 0 (a @ b @ c @ d @ e))"
    using len by (simp add: uuid_Parse_def s nth_append)
  also have "\<dots> = Some (of_nat (unat u mod 16 ^ 32))"
    by (simp add: h [symmetric] hexDecode_hexEncode)
  also have "unat u mod 16 ^ 32 = unat u"
    using unsigned_less [of u, where 'a = nat] by simp
  finally show ?thesis by simp
qed

subsection \<open>Label codecs\<close>

text \<open>
  What the paths need of the text of an identifier: it can be read back and it is a valid
  \<open>ltree\<close> label (nonempty, made of letters, digits, underscores and hyphens).
\<close>

definition label_char :: "char \<Rightarrow> bool" where
  "label_char c = (char_between CHR ''0'' CHR ''9'' c \<or> char_between CHR ''a'' CHR ''z'' c \<or>
     char_between CHR ''A'' CHR ''Z'' c \<or> c \<in> {CHR ''_'', CHR ''-''})"

definition label_ok :: "string \<Rightarrow> bool" where
  "label_ok l = (l \<noteq> [] \<and> length l \<le> 1000 \<and> list_all label_char l)"

lemma label_ok_dotless: "label_ok l \<Longrightarrow> dotless l"
  by (auto simp: label_ok_def dotless_def label_char_def char_between_def list_all_iff)

locale label_codec =
  fixes enc :: "'a \<Rightarrow> string" and dec :: "string \<Rightarrow> 'a option"
  assumes dec_enc: "dec (enc u) = Some u"
    and enc_label: "label_ok (enc u)"
begin

lemma enc_inject: "enc u = enc v \<longleftrightarrow> u = v"
  using dec_enc by (metis option.inject)

lemma enc_dotless: "list_all dotless (map enc us)"
  using label_ok_dotless enc_label by (simp add: list_all_iff)

lemma enc_labels: "list_all label_ok (map enc us)"
  using enc_label by (simp add: list_all_iff)

lemma dec_labels: "List.map_filter dec (map enc us) = us"
  by (induction us) (simp_all add: List.map_filter_simps dec_enc)

lemma enc_in_set: "enc u \<in> set (map enc us) \<longleftrightarrow> u \<in> set us"
  using enc_inject by auto

lemma prefix_map_enc: "prefix (map enc us) (map enc vs) \<longleftrightarrow> prefix us vs"
proof (induction us arbitrary: vs)
  case (Cons u us)
  then show ?case by (cases vs) (simp_all add: enc_inject)
qed simp

lemma dec_split_join: "us \<noteq> [] \<Longrightarrow> List.map_filter dec (split_dots (join_dots (map enc us))) = us"
  using split_join [OF enc_dotless, of us] dec_labels by simp

lemma descendant_text_iff:
  "us \<noteq> [] \<Longrightarrow> vs \<noteq> [] \<Longrightarrow>
   isDescendantOrSelf (join_dots (map enc vs)) (join_dots (map enc us)) \<longleftrightarrow> prefix us vs"
  using isDescendantOrSelf_prefix [OF enc_dotless enc_dotless, of us vs]
    prefix_map_enc by simp

end

lemma uuid_String_label: "label_ok (uuid_String u)"
proof -
  obtain a b c d e where h: "hexEncode (unat u) 32 = a @ b @ c @ d @ e"
    and len: "length a = 8" "length b = 4" "length c = 4" "length d = 4" "length e = 12"
    and s: "uuid_String u = a @ ''-'' @ b @ ''-'' @ c @ ''-'' @ d @ ''-'' @ e"
    by (rule uuid_String_split)
  have "list_all label_char hexAlphabet" by code_simp
  then have "list_all label_char (a @ b @ c @ d @ e)"
    using set_hexEncode [of "unat u" 32] by (auto simp: h list_all_iff)
  moreover have "label_char CHR ''-''" by (simp add: label_char_def)
  ultimately show ?thesis using len by (auto simp: s label_ok_def)
qed

interpretation uuid_labels: label_codec uuid_String uuid_Parse
  by unfold_locales (simp_all add: uuid_String_label)

subsection \<open>The ltree type\<close>

type_synonym ltree = "string list"

text \<open>The cast \<open>text::ltree\<close> (the empty text is the empty path), and \<open>path::text\<close>.\<close>

definition ltree_of_text :: "string \<Rightarrow> ltree option" where
  "ltree_of_text t = (if t = [] then Some [] else
     (let ls = split_dots t in if list_all label_ok ls then Some ls else None))"

text \<open>\<open>a <@ b\<close>: \<open>a\<close> is at or below \<open>b\<close>.\<close>

definition ltree_below :: "ltree \<Rightarrow> ltree \<Rightarrow> bool" where
  "ltree_below a b = prefix b a"

lemma ltree_of_text_join [text_simps]: "list_all label_ok ls \<Longrightarrow> ltree_of_text (join_dots ls) = Some ls"
proof (cases "ls = []")
  case False
  assume ok: "list_all label_ok ls"
  have "join_dots ls \<noteq> []" using ok False by (cases ls rule: join_dots.cases) (auto simp: label_ok_def)
  moreover have "list_all dotless ls" using ok label_ok_dotless by (auto simp: list_all_iff)
  ultimately show ?thesis using ok False by (simp add: ltree_of_text_def split_join)
qed (simp add: ltree_of_text_def)

end
