(* ===== verification/Sx_Values.thy ===== *)
theory Sx_Values
  imports Sx_Prelude Complex_Main "HOL-Library.Product_Lexorder"
begin

text \<open>
  The values that travel between Go and PostgreSQL: \<open>src/internal/store/pgtypes.go\<close> and the
  pieces of \<open>fmt\<close>, \<open>time\<close> and \<open>encoding/json\<close> it uses.  Decimal columns are kept in
  hundredths, dates as year, month and day in their lexicographic order, and JSON documents as
  trees.
\<close>

subsection \<open>Decimal text\<close>

text \<open>\<open>strconv.Itoa\<close> and PostgreSQL's \<open>int::text\<close>.\<close>

fun utoa :: "nat \<Rightarrow> string" where
  "utoa n = (if n < 10 then [''0123456789'' ! n] else utoa (n div 10) @ [''0123456789'' ! (n mod 10)])"

declare utoa.simps [simp del]

definition itoa :: "int \<Rightarrow> string" where
  "itoa i = (if i < 0 then CHR ''-'' # utoa (nat (- i)) else utoa (nat i))"

definition is_digit :: "char \<Rightarrow> bool" where
  "is_digit c = (CHR ''0'' \<le> c \<and> c \<le> CHR ''9'')"

definition digit_val :: "char \<Rightarrow> nat" where
  "digit_val c = of_char c - 48"

definition atoi_digits :: "string \<Rightarrow> nat option" where
  "atoi_digits s = (if s \<noteq> [] \<and> list_all is_digit s then Some (foldl (\<lambda>a c. 10 * a + digit_val c) 0 s) else None)"

text \<open>A number padded with zeros to a fixed width, as \<open>time.Format\<close> writes it.\<close>

fun pad_digits :: "nat \<Rightarrow> nat \<Rightarrow> string" where
  "pad_digits 0 n = []"
| "pad_digits (Suc w) n = pad_digits w (n div 10) @ [''0123456789'' ! (n mod 10)]"

lemma digit_nth:
  assumes "n < 10"
  shows "is_digit (''0123456789'' ! n)" and "digit_val (''0123456789'' ! n) = n"
proof -
  have "n \<in> {0, 1, 2, 3, 4, 5, 6, 7, 8, 9}" using assms by auto
  then show "is_digit (''0123456789'' ! n)" and "digit_val (''0123456789'' ! n) = n"
    by (auto simp: is_digit_def digit_val_def)
qed

lemma pad_digits_length [simp]: "length (pad_digits w n) = w"
  by (induction w arbitrary: n) auto

lemma pad_digits_digits: "list_all is_digit (pad_digits w n)"
  by (induction w arbitrary: n) (auto simp: digit_nth)

lemma pad_digits_value:
  "foldl (\<lambda>a c. 10 * a + digit_val c) 0 (pad_digits w n) = n mod 10 ^ w"
proof (induction w arbitrary: n)
  case (Suc w)
  then show ?case by (simp add: digit_nth mod_mult2_eq)
qed simp

lemma atoi_pad_digits: "0 < w \<Longrightarrow> n < 10 ^ w \<Longrightarrow> atoi_digits (pad_digits w n) = Some n"
  using pad_digits_length [of w n] pad_digits_digits [of w n] pad_digits_value [of w n]
  by (auto simp: atoi_digits_def simp del: pad_digits_length)

lemma utoa_digits: "utoa n \<noteq> [] \<and> list_all is_digit (utoa n)"
proof (induction n rule: utoa.induct)
  case (1 n)
  then show ?case by (subst (1 2) utoa.simps) (auto simp: digit_nth)
qed

lemma atoi_utoa: "atoi_digits (utoa n) = Some n"
proof -
  have "foldl (\<lambda>a c. 10 * a + digit_val c) 0 (utoa n) = n"
  proof (induction n rule: utoa.induct)
    case (1 n)
    then show ?case by (subst utoa.simps) (auto simp: digit_nth)
  qed
  then show ?thesis using utoa_digits by (simp add: atoi_digits_def)
qed

lemma itoa_inject: "itoa i = itoa j \<longleftrightarrow> i = j"
proof
  assume eq: "itoa i = itoa j"
  have minus: "\<not> is_digit CHR ''-''" by (simp add: is_digit_def)
  have ne: "CHR ''-'' # s \<noteq> utoa n" for s n
    using utoa_digits [of n] minus by (metis list.pred_inject(2))
  have inj: "utoa m = utoa n \<Longrightarrow> m = n" for m n using atoi_utoa by (metis option.inject)
  have "(i < 0) = (j < 0)" using eq ne by (auto simp: itoa_def split: if_splits) metis+
  then show "i = j" using eq inj [of "nat (- i)" "nat (- j)"] inj [of "nat i" "nat j"]
    by (auto simp: itoa_def split: if_splits)
qed simp

subsection \<open>JSON documents\<close>

datatype json = JNull | JBool bool | JNum rat | JStr string | JArr "json list" | JObj "(string \<times> json) list"

text \<open>
  Go's \<open>map[string]any\<close> is its entries in key order, the order in which \<open>json.Marshal\<close>
  writes them; \<open>nil\<close> is \<open>None\<close>.
\<close>

type_synonym go_map = "(string \<times> json) list option"

definition marshalValue :: "json option \<Rightarrow> json option" where
  "marshalValue v = v"

definition marshalFields :: "go_map \<Rightarrow> json" where
  "marshalFields f = (case f of None \<Rightarrow> JObj [] | Some kvs \<Rightarrow> JObj kvs)"

definition marshalFieldsPatch :: "go_map \<Rightarrow> json option" where
  "marshalFieldsPatch f = map_option JObj f"

subsection \<open>Points\<close>

text \<open>
  \<open>fmt.Sprintf("%.2f", v)\<close> prints the exact binary value rounded to two decimals, ties to
  even.  A finite \<open>float64\<close> is the rational it denotes.
\<close>

definition round_half_even :: "rat \<Rightarrow> int" where
  "round_half_even q =
     (let f = \<lfloor>q\<rfloor>; r = q - of_int f in
      if r < 1 / 2 then f else if 1 / 2 < r then f + 1 else if even f then f else f + 1)"

definition toPgNumeric :: "rat option \<Rightarrow> int option" where
  "toPgNumeric v = map_option (\<lambda>x. round_half_even (100 * x)) v"

subsection \<open>Dates\<close>

type_synonym date = "nat \<times> nat \<times> nat"

definition leap_year :: "nat \<Rightarrow> bool" where
  "leap_year y = (y mod 4 = 0 \<and> (y mod 100 \<noteq> 0 \<or> y mod 400 = 0))"

definition days_in :: "nat \<Rightarrow> nat \<Rightarrow> nat" where
  "days_in y m =
     (if m = 2 then (if leap_year y then 29 else 28)
      else if m = 4 \<or> m = 6 \<or> m = 9 \<or> m = 11 then 30 else 31)"

definition date_ok :: "date \<Rightarrow> bool" where
  "date_ok d = (case d of (y, m, dd) \<Rightarrow> y < 10000 \<and> 1 \<le> m \<and> m \<le> 12 \<and> 1 \<le> dd \<and> dd \<le> days_in y m)"

text \<open>\<open>time.Parse(time.DateOnly, s)\<close>.\<close>

definition parse_DateOnly :: "string \<Rightarrow> date option" where
  "parse_DateOnly s =
     (if length s = 10 \<and> s ! 4 = CHR ''-'' \<and> s ! 7 = CHR ''-'' then
        (case (atoi_digits (take 4 s), atoi_digits (take 2 (drop 5 s)), atoi_digits (drop 8 s)) of
           (Some y, Some m, Some d) \<Rightarrow> if date_ok (y, m, d) then Some (y, m, d) else None
         | _ \<Rightarrow> None)
      else None)"

definition toPgDate :: "string option \<Rightarrow> date option" where
  "toPgDate s = (case s of None \<Rightarrow> None | Some t \<Rightarrow> if t = [] then None else parse_DateOnly t)"

definition fromPgDate :: "date option \<Rightarrow> string option" where
  "fromPgDate d = (case d of None \<Rightarrow> None | Some (y, m, dd) \<Rightarrow>
     Some (pad_digits 4 y @ ''-'' @ pad_digits 2 m @ ''-'' @ pad_digits 2 dd))"

subsection \<open>Properties\<close>

lemma round_half_even_near: "\<bar>of_int (round_half_even q) - q\<bar> \<le> 1 / 2"
proof -
  have bounds: "of_int \<lfloor>q\<rfloor> \<le> q" "q < of_int \<lfloor>q\<rfloor> + 1" by linarith+
  consider "q - of_int \<lfloor>q\<rfloor> < 1 / 2" | "q - of_int \<lfloor>q\<rfloor> > 1 / 2" | "q - of_int \<lfloor>q\<rfloor> = 1 / 2" by linarith
  then show ?thesis
  proof cases
    case 3
    then have "\<bar>of_int \<lfloor>q\<rfloor> - q\<bar> \<le> 1 / 2" "\<bar>of_int \<lfloor>q\<rfloor> + 1 - q\<bar> \<le> 1 / 2" by linarith+
    then show ?thesis using 3 by (simp add: round_half_even_def Let_def)
  qed (use bounds in \<open>simp_all add: round_half_even_def Let_def abs_le_iff\<close>)
qed

text \<open>
  Points are stored rounded, not truncated: the stored hundredths differ from a hundred
  times the given number by at most one half, so a number that already has two decimals is
  stored exactly, and a missing number stays missing.
\<close>

theorem toPgNumeric_rounds:
  "(case toPgNumeric v of None \<Rightarrow> v = None | Some h \<Rightarrow> (\<exists>x. v = Some x \<and> \<bar>of_int h - 100 * x\<bar> \<le> 1 / 2)) \<and>
   toPgNumeric (Some (of_int k / 100)) = Some k"
proof -
  have "\<bar>of_int (round_half_even (of_int k)) - (of_int k :: rat)\<bar> \<le> 1 / 2"
    by (rule round_half_even_near)
  moreover have "round_half_even (of_int k) = k" by (simp add: round_half_even_def)
  ultimately show ?thesis
    using round_half_even_near by (auto simp: toPgNumeric_def split: option.splits)
qed

text \<open>
   Dates round trip: a calendar date with a four-digit year is written in a form that
  reads back as the same date.
\<close>

theorem toPgDate_fromPgDate:
  assumes "date_ok d"
  shows "toPgDate (fromPgDate (Some d)) = Some d"
proof -
  obtain y m dd where d: "d = (y, m, dd)" by (cases d) auto
  have "days_in y m \<le> 31" by (auto simp: days_in_def)
  then have "y < 10 ^ 4" "m < 10 ^ 2" "dd < 10 ^ 2" using assms d by (auto simp: date_ok_def)
  then show ?thesis
    using assms d
    by (simp add: toPgDate_def fromPgDate_def parse_DateOnly_def nth_append atoi_pad_digits)
qed

theorem toPgDate_fromPgDate_witness: "toPgDate (fromPgDate (Some (2024, 2, 29))) = Some (2024, 2, 29)"
  using toPgDate_fromPgDate [of "(2024, 2, 29)"] by (simp add: date_ok_def days_in_def leap_year_def)

end
