(* ===== verification/Sx_Database.thy ===== *)
theory Sx_Database
  imports Sx_Path Sx_Values
begin

text \<open>
  The database as the store sees it: the rows of \<open>src/internal/store/gen/models.go\<close>, one
  record per table, and the generated statements of \<open>src/internal/store/gen/*.sql.go\<close>, each
  with the constraints and triggers of the schema it can trip over.  A statement takes the
  database and returns its result with the new database, or the SQL error that aborts the
  transaction.  Nullable columns are options; \<open>now()\<close> is an argument, because PostgreSQL
  fixes it for a transaction.  Integer columns are integers whose range is checked on write.
\<close>

subsection \<open>Rows\<close>

record Workspace =
  ws_ID :: uuid
  ws_Slug :: string
  ws_Name :: string
  ws_OriginID :: uuid
  ws_CreatedAt :: int
  ws_Version :: int

record UserAccount =
  ua_ID :: uuid
  ua_Email :: string
  ua_DisplayName :: string

record Project =
  pj_ID :: uuid
  pj_WorkspaceID :: uuid
  pj_KeyPrefix :: string
  pj_Name :: string
  pj_Kind :: string
  pj_NextKeyNum :: int
  pj_ArchivedAt :: "int option"
  pj_OwnerID :: "uuid option"
  pj_Version :: int
  pj_UpdatedAt :: int

record ProjectConfig =
  pc_ProjectID :: uuid
  pc_Version :: int
  pc_SourceYaml :: "string option"
  pc_AppliedAt :: int
  pc_AppliedBy :: "uuid option"

record Status =
  st_ID :: uuid
  st_ProjectID :: uuid
  st_Key :: string
  st_Name :: string
  st_Category :: string

record ItemType =
  ty_ID :: uuid
  ty_ProjectID :: uuid
  ty_Key :: string
  ty_Name :: string
  ty_Level :: int
  ty_IsIdea :: bool

record Item =
  it_ID :: uuid
  it_WorkspaceID :: uuid
  it_ProjectID :: uuid
  it_Key :: string
  it_ItemTypeID :: uuid
  it_StatusID :: uuid
  it_ConfigVersion :: int
  it_ParentID :: "uuid option"
  it_Path :: ltree
  it_Title :: string
  it_Body :: "string option"
  it_AssigneeID :: "uuid option"
  it_Points :: "int option"
  it_StartDate :: "date option"
  it_DueDate :: "date option"
  it_Rank :: string
  it_Fields :: json
  it_Version :: int
  it_ChangeSeq :: int
  it_OriginID :: uuid
  it_OriginSeq :: "int option"
  it_CreatedAt :: int
  it_UpdatedAt :: int
  it_DeletedAt :: "int option"

record ItemRollup =
  ru_ItemID :: uuid
  ru_DescendantCount :: int
  ru_DoneCount :: int
  ru_PointsTotal :: "int option"
  ru_PointsDone :: "int option"
  ru_EarliestStart :: "date option"
  ru_LatestDue :: "date option"
  ru_ComputedAt :: int

record ItemLink =
  ln_ID :: uuid
  ln_FromItemID :: uuid
  ln_ToItemID :: uuid
  ln_Kind :: string
  ln_CreatedAt :: int
  ln_CreatedBy :: "uuid option"

record Comment =
  cm_ID :: uuid
  cm_ItemID :: uuid
  cm_AuthorID :: uuid
  cm_Body :: string
  cm_CreatedAt :: int
  cm_EditedAt :: "int option"
  cm_DeletedAt :: "int option"

record ChangeEvent =
  ce_WorkspaceID :: uuid
  ce_Seq :: int
  ce_At :: int
  ce_ItemID :: "uuid option"
  ce_ActorID :: "uuid option"
  ce_Kind :: string
  ce_Field :: "string option"
  ce_OldValue :: "json option"
  ce_NewValue :: "json option"

record SeqCounter =
  sq_WorkspaceID :: uuid
  sq_Value :: int

record OperatorContentRestriction =
  rs_Kind :: string
  rs_TargetID :: uuid
  rs_WorkspaceID :: "uuid option"
  rs_RootPath :: "ltree option"

record database =
  workspaces :: "Workspace list"
  users :: "UserAccount list"
  projects :: "Project list"
  configs :: "ProjectConfig list"
  statuses :: "Status list"
  item_types :: "ItemType list"
  items :: "Item list"
  rollups :: "ItemRollup list"
  links :: "ItemLink list"
  comments :: "Comment list"
  events :: "ChangeEvent list"
  counters :: "SeqCounter list"
  restrictions :: "OperatorContentRestriction list"

datatype sql_error =
    NoRows
  | UniqueViolation string
  | ForeignKeyViolation string
  | CheckViolation string
  | OutOfRange
  | InvalidText
  | InvalidDatetime
  | RaiseException string
  | ScanError

subsection \<open>Column ranges\<close>

definition int4_ok :: "int \<Rightarrow> bool" where
  "int4_ok v = (- (2 ^ 31) \<le> v \<and> v < 2 ^ 31)"

definition int8_ok :: "int \<Rightarrow> bool" where
  "int8_ok v = (- (2 ^ 63) \<le> v \<and> v < 2 ^ 63)"

text \<open>\<open>numeric(6,2)\<close> and \<open>numeric(10,2)\<close>, in hundredths.\<close>

definition numeric_ok :: "nat \<Rightarrow> int option \<Rightarrow> bool" where
  "numeric_ok prec v = (case v of None \<Rightarrow> True | Some h \<Rightarrow> \<bar>h\<bar> < 10 ^ prec)"

text \<open>\<open>length(text)\<close> counts characters: the bytes that do not continue a UTF-8 sequence.\<close>

definition utf8_length :: "string \<Rightarrow> nat" where
  "utf8_length s = length (filter (\<lambda>c. \<not> (128 \<le> (of_char c :: nat) \<and> (of_char c :: nat) < 192)) s)"

subsection \<open>Item constraints\<close>

definition find_item :: "database \<Rightarrow> uuid \<Rightarrow> Item option" where
  "find_item db u = find (\<lambda>i. it_ID i = u) (items db)"

definition item_ranges_ok :: "Item \<Rightarrow> bool" where
  "item_ranges_ok it = (int4_ok (it_ConfigVersion it) \<and> int4_ok (it_Version it) \<and>
     int8_ok (it_ChangeSeq it) \<and> numeric_ok 6 (it_Points it))"

definition item_title_ok :: "Item \<Rightarrow> bool" where
  "item_title_ok it = (1 \<le> utf8_length (it_Title it) \<and> utf8_length (it_Title it) \<le> 500)"

definition items_unique :: "Item list \<Rightarrow> bool" where
  "items_unique its = (distinct (map it_ID its) \<and>
     distinct (map (\<lambda>i. (it_WorkspaceID i, it_Key i)) its) \<and>
     distinct (map (\<lambda>i. (it_ProjectID i, it_Rank i)) its))"

definition item_refs_ok :: "database \<Rightarrow> Item \<Rightarrow> bool" where
  "item_refs_ok db it =
     (it_WorkspaceID it \<in> ws_ID ` set (workspaces db) \<and>
      it_ProjectID it \<in> pj_ID ` set (projects db) \<and>
      (it_ProjectID it, it_ItemTypeID it) \<in> (\<lambda>t. (ty_ProjectID t, ty_ID t)) ` set (item_types db) \<and>
      (it_ProjectID it, it_StatusID it) \<in> (\<lambda>s. (st_ProjectID s, st_ID s)) ` set (statuses db) \<and>
      (it_ProjectID it, it_ConfigVersion it) \<in> (\<lambda>c. (pc_ProjectID c, pc_Version c)) ` set (configs db) \<and>
      (case it_ParentID it of None \<Rightarrow> True | Some p \<Rightarrow> p \<in> it_ID ` set (items db)) \<and>
      (case it_AssigneeID it of None \<Rightarrow> True | Some a \<Rightarrow> a \<in> ua_ID ` set (users db)))"

text \<open>
  The trigger \<open>item_path_check\<close>.  \<open>old\<close> is the row before an update; the ancestor check
  reads the parent's path as it stood before the statement.
\<close>

definition item_path_check :: "database \<Rightarrow> Item option \<Rightarrow> Item \<Rightarrow> bool" where
  "item_path_check db old new =
     (let depth = length (it_Path new) in
      depth \<le> 8 \<and> 1 \<le> depth \<and> last (it_Path new) = uuid_String (it_ID new) \<and>
      (case it_ParentID new of
         None \<Rightarrow> depth = 1
       | Some p \<Rightarrow> 2 \<le> depth \<and> it_Path new ! (depth - 2) = uuid_String p \<and>
           (case old of None \<Rightarrow> True
            | Some prev \<Rightarrow> it_ParentID prev = Some p \<or>
                (case find_item db p of None \<Rightarrow> True | Some par \<Rightarrow> \<not> ltree_below (it_Path par) (it_Path prev)))))"

text \<open>The trigger \<open>sierx_restricted_subtree_guard\<close>.\<close>

definition restricted_subtree :: "database \<Rightarrow> Item \<Rightarrow> bool" where
  "restricted_subtree db old =
     list_ex (\<lambda>i. it_WorkspaceID i = it_WorkspaceID old \<and> ltree_below (it_Path i) (it_Path old) \<and>
        list_ex (\<lambda>r. rs_Kind r = ''item'' \<and> rs_TargetID r = it_ID i) (restrictions db)) (items db)"

subsection \<open>Writing items\<close>

text \<open>
  \<open>UPDATE item SET ... WHERE ...\<close>: the row function is applied to the selected rows, then
  the ranges, the checks, the unique constraints and the references are tested (of every
  selected row: an unchanged reference is still satisfied).  The result is what
  \<open>RETURNING\<close> yields.
\<close>

definition update_items ::
  "(Item \<Rightarrow> bool) \<Rightarrow> (Item \<Rightarrow> Item) \<Rightarrow> database \<Rightarrow> sql_error + Item list \<times> database" where
  "update_items sel f db =
     (let its' = map (\<lambda>i. if sel i then f i else i) (items db);
          changed = map f (filter sel (items db));
          db' = db\<lparr>items := its'\<rparr> in
      rbind (guard_or (list_all item_ranges_ok changed) OutOfRange) (\<lambda>_.
      rbind (guard_or (list_all item_title_ok changed) (CheckViolation ''item_title_check'')) (\<lambda>_.
      rbind (guard_or (items_unique its') (UniqueViolation ''item'')) (\<lambda>_.
      rbind (guard_or (list_all (item_refs_ok db') changed) (ForeignKeyViolation ''item'')) (\<lambda>_.
      Inr (changed, db'))))))"

text \<open>\<open>QueryRow\<close> on a statement that returns rows: no row is \<open>pgx.ErrNoRows\<close>.\<close>

definition one_row :: "sql_error + 'r list \<times> 'd \<Rightarrow> sql_error + 'r \<times> 'd" where
  "one_row res = rbind res (\<lambda>(rows, db). case rows of [] \<Rightarrow> Inl NoRows | r # _ \<Rightarrow> Inr (r, db))"

definition GetItem :: "uuid \<Rightarrow> database \<Rightarrow> sql_error + Item" where
  "GetItem u db = some_or (find_item db u) NoRows"

definition GetItemForUpdate :: "uuid \<Rightarrow> database \<Rightarrow> sql_error + Item" where
  "GetItemForUpdate u db = some_or (find_item db u) NoRows"

definition GetItemsByPaths :: "ltree list \<Rightarrow> database \<Rightarrow> (uuid \<times> string \<times> uuid option) list" where
  "GetItemsByPaths paths db =
     map (\<lambda>i. (it_ID i, join_dots (it_Path i), it_ParentID i))
       (filter (\<lambda>i. list_ex (\<lambda>p. ltree_below p (it_Path i)) paths) (items db))"

definition HardDeleteItem_sql :: "uuid \<Rightarrow> database \<Rightarrow> sql_error + unit \<times> database" where
  "HardDeleteItem_sql u db =
     (if list_ex (\<lambda>i. it_ID i = u) (items db) \<and>
         (list_ex (\<lambda>i. it_ParentID i = Some u \<and> it_ID i \<noteq> u) (items db) \<or>
          list_ex (\<lambda>l. ln_FromItemID l = u \<or> ln_ToItemID l = u) (links db) \<or>
          list_ex (\<lambda>c. cm_ItemID c = u) (comments db))
      then Inl (ForeignKeyViolation ''item'')
      else Inr ((), db\<lparr>items := filter (\<lambda>i. it_ID i \<noteq> u) (items db),
                       rollups := filter (\<lambda>r. ru_ItemID r \<noteq> u) (rollups db)\<rparr>))"

text \<open>
  \<open>INSERT INTO item\<close>.  The parameters come as the row to be inserted, with the path still in
  its text form; \<open>version\<close>, \<open>created_at\<close>, \<open>updated_at\<close> and \<open>deleted_at\<close> get the column
  defaults.
\<close>

definition InsertItem :: "int \<Rightarrow> Item \<Rightarrow> string \<Rightarrow> database \<Rightarrow> sql_error + Item \<times> database" where
  "InsertItem now arg path_text db =
     rbind (some_or (ltree_of_text path_text) InvalidText) (\<lambda>path.
     let row = arg\<lparr>it_Path := path, it_Version := 1, it_CreatedAt := now, it_UpdatedAt := now,
                   it_DeletedAt := None\<rparr>;
         its' = items db @ [row]; db' = db\<lparr>items := its'\<rparr> in
     rbind (guard_or (item_ranges_ok row) OutOfRange) (\<lambda>_.
     rbind (guard_or (item_path_check db None row) (CheckViolation ''item_path_check'')) (\<lambda>_.
     rbind (guard_or (item_title_ok row) (CheckViolation ''item_title_check'')) (\<lambda>_.
     rbind (guard_or (items_unique its') (UniqueViolation ''item'')) (\<lambda>_.
     rbind (guard_or (item_refs_ok db' row) (ForeignKeyViolation ''item'')) (\<lambda>_.
     Inr (row, db')))))))"

text \<open>
  The view \<open>sierx_project_reserved_ranks\<close> reveals the rank of every item of the project and
  the id of those no operator restriction covers.
\<close>

definition rank_hidden :: "database \<Rightarrow> Item \<Rightarrow> bool" where
  "rank_hidden db i = list_ex (\<lambda>r. rs_Kind r = ''item'' \<and>
     (rs_TargetID r = it_ID i \<or>
      rs_WorkspaceID r = Some (it_WorkspaceID i) \<and>
      (case rs_RootPath r of None \<Rightarrow> False | Some p \<Rightarrow> ltree_below (it_Path i) p))) (restrictions db)"

definition ListProjectRanks :: "uuid \<Rightarrow> database \<Rightarrow> (uuid option \<times> string) list" where
  "ListProjectRanks project db =
     sort_key snd (map (\<lambda>i. (if rank_hidden db i then None else Some (it_ID i), it_Rank i))
       (filter (\<lambda>i. it_ProjectID i = project) (items db)))"

definition ReparentSubtree ::
  "int \<Rightarrow> uuid \<Rightarrow> uuid option \<Rightarrow> string \<Rightarrow> string \<Rightarrow> int \<Rightarrow> database \<Rightarrow> sql_error + Item list \<times> database" where
  "ReparentSubtree now itemID newParent newParentPath oldPath changeSeq db =
     rbind (some_or (ltree_of_text oldPath) InvalidText) (\<lambda>old.
     rbind (some_or (ltree_of_text newParentPath) InvalidText) (\<lambda>base.
     let sel = (\<lambda>i. ltree_below (it_Path i) old);
         f = (\<lambda>i. i\<lparr>it_ParentID := (if it_ID i = itemID then newParent else it_ParentID i),
                    it_Path := base @ drop (length old - 1) (it_Path i),
                    it_ChangeSeq := changeSeq, it_Version := it_Version i + 1, it_UpdatedAt := now\<rparr>);
         moved = filter sel (items db) in
     rbind (guard_or (list_all (\<lambda>i. item_path_check db (Some i) (f i)) moved) (CheckViolation ''item_path_check'')) (\<lambda>_.
     rbind (guard_or (list_all (\<lambda>i. it_Path (f i) = it_Path i \<or> \<not> restricted_subtree db i) moved)
              (CheckViolation ''restricted_subtree_guard'')) (\<lambda>_.
     update_items sel f db))))"

definition SetItemChangeSeq :: "int \<Rightarrow> uuid \<Rightarrow> database \<Rightarrow> sql_error + Item list \<times> database" where
  "SetItemChangeSeq seq u = update_items (\<lambda>i. it_ID i = u) (\<lambda>i. i\<lparr>it_ChangeSeq := seq\<rparr>)"

definition rank_text_ok :: "string \<Rightarrow> bool" where
  "rank_text_ok r = (1 \<le> length r \<and> length r \<le> 40 \<and>
     list_all (\<lambda>c. CHR ''0'' \<le> c \<and> c \<le> CHR ''9'' \<or> CHR ''a'' \<le> c \<and> c \<le> CHR ''z'') r)"

text \<open>The database function \<open>sierx_set_project_ranks\<close>.\<close>

definition SetProjectRanks ::
  "int \<Rightarrow> uuid \<Rightarrow> string list \<Rightarrow> string list \<Rightarrow> database \<Rightarrow> sql_error + Item list \<times> database" where
  "SetProjectRanks now project old new db =
     rbind (guard_or (project \<in> pj_ID ` set (projects db)) (RaiseException ''project rank access denied'')) (\<lambda>_.
     rbind (guard_or (length old = length new \<and>
              length old = length (filter (\<lambda>i. it_ProjectID i = project) (items db)) \<and>
              distinct old \<and> distinct new \<and> list_all rank_text_ok new \<and>
              list_all (\<lambda>i. it_ProjectID i = project \<longrightarrow> it_Rank i \<in> set old) (items db))
              (RaiseException ''complete unique bounded project rank map required'')) (\<lambda>_.
     update_items (\<lambda>i. it_ProjectID i = project \<and> it_Rank i \<in> set old)
       (\<lambda>i. i\<lparr>it_Rank := the (map_of (zip old new) (it_Rank i)), it_Version := it_Version i + 1,
              it_UpdatedAt := now\<rparr>) db))"

definition SoftDeleteItem :: "int \<Rightarrow> int \<Rightarrow> uuid \<Rightarrow> database \<Rightarrow> sql_error + Item \<times> database" where
  "SoftDeleteItem now changeSeq u db =
     one_row (update_items (\<lambda>i. it_ID i = u \<and> it_DeletedAt i = None)
       (\<lambda>i. i\<lparr>it_DeletedAt := Some now, it_ChangeSeq := changeSeq, it_Version := it_Version i + 1,
              it_UpdatedAt := now\<rparr>) db)"

record UpdateItemFieldsParams =
  up_Title :: "string option"
  up_SetBody :: bool
  up_Body :: "string option"
  up_StatusID :: "uuid option"
  up_ConfigVersion :: "int option"
  up_SetAssignee :: bool
  up_AssigneeID :: "uuid option"
  up_SetPoints :: bool
  up_Points :: "int option"
  up_SetStartDate :: bool
  up_StartDate :: "date option"
  up_SetDueDate :: bool
  up_DueDate :: "date option"
  up_Rank :: "string option"
  up_Fields :: "json option"
  up_ChangeSeq :: int
  up_ID :: uuid

definition coalesce :: "'a option \<Rightarrow> 'a \<Rightarrow> 'a" where
  "coalesce x y = (case x of None \<Rightarrow> y | Some v \<Rightarrow> v)"

definition UpdateItemFields :: "int \<Rightarrow> UpdateItemFieldsParams \<Rightarrow> database \<Rightarrow> sql_error + Item \<times> database" where
  "UpdateItemFields now arg db =
     one_row (update_items (\<lambda>i. it_ID i = up_ID arg)
       (\<lambda>i. i\<lparr>it_Title := coalesce (up_Title arg) (it_Title i),
              it_Body := (if up_SetBody arg then up_Body arg else it_Body i),
              it_StatusID := coalesce (up_StatusID arg) (it_StatusID i),
              it_ConfigVersion := coalesce (up_ConfigVersion arg) (it_ConfigVersion i),
              it_AssigneeID := (if up_SetAssignee arg then up_AssigneeID arg else it_AssigneeID i),
              it_Points := (if up_SetPoints arg then up_Points arg else it_Points i),
              it_StartDate := (if up_SetStartDate arg then up_StartDate arg else it_StartDate i),
              it_DueDate := (if up_SetDueDate arg then up_DueDate arg else it_DueDate i),
              it_Rank := coalesce (up_Rank arg) (it_Rank i),
              it_Fields := coalesce (up_Fields arg) (it_Fields i),
              it_ChangeSeq := up_ChangeSeq arg,
              it_Version := it_Version i + 1,
              it_UpdatedAt := now\<rparr>) db)"

definition UpdateItemRank :: "int \<Rightarrow> string \<Rightarrow> uuid \<Rightarrow> database \<Rightarrow> sql_error + Item list \<times> database" where
  "UpdateItemRank now rank u =
     update_items (\<lambda>i. it_ID i = u) (\<lambda>i. i\<lparr>it_Rank := rank, it_Version := it_Version i + 1, it_UpdatedAt := now\<rparr>)"

subsection \<open>Rollup statements\<close>

text \<open>The aggregates of SQL ignore NULL and are NULL over nothing.\<close>

fun sql_sum :: "int option list \<Rightarrow> int option" where
  "sql_sum [] = None"
| "sql_sum (None # xs) = sql_sum xs"
| "sql_sum (Some x # xs) = Some (x + coalesce (sql_sum xs) 0)"

fun sql_min :: "'a::linorder option list \<Rightarrow> 'a option" where
  "sql_min [] = None"
| "sql_min (None # xs) = sql_min xs"
| "sql_min (Some x # xs) = Some (case sql_min xs of None \<Rightarrow> x | Some y \<Rightarrow> min x y)"

fun sql_max :: "'a::linorder option list \<Rightarrow> 'a option" where
  "sql_max [] = None"
| "sql_max (None # xs) = sql_max xs"
| "sql_max (Some x # xs) = Some (case sql_max xs of None \<Rightarrow> x | Some y \<Rightarrow> max x y)"

definition status_category :: "database \<Rightarrow> uuid \<Rightarrow> string option" where
  "status_category db s = map_option st_Category (find (\<lambda>r. st_ID r = s) (statuses db))"

record contribution =
  co_points :: "int option"
  co_start :: "date option"
  co_due :: "date option"
  co_category :: string

text \<open>
  The common table expression \<open>d\<close> of \<open>recomputeRollup\<close>: points, dates and status category of
  the live items strictly below item \<open>u\<close>.
\<close>

definition descendants :: "database \<Rightarrow> uuid \<Rightarrow> contribution list" where
  "descendants db u =
     (case find_item db u of None \<Rightarrow> []
      | Some anc \<Rightarrow> List.map_filter (\<lambda>i.
          if ltree_below (it_Path i) (it_Path anc) \<and> it_ID i \<noteq> u \<and> it_DeletedAt i = None
          then map_option (\<lambda>c. \<lparr>co_points = it_Points i, co_start = it_StartDate i,
                                 co_due = it_DueDate i, co_category = c\<rparr>)
                 (status_category db (it_StatusID i))
          else None) (items db))"

definition done_only :: "contribution list \<Rightarrow> contribution list" where
  "done_only d = filter (\<lambda>c. co_category c = ''done'') d"

definition aggregate :: "int \<Rightarrow> uuid \<Rightarrow> contribution list \<Rightarrow> ItemRollup" where
  "aggregate now u d =
     \<lparr>ru_ItemID = u,
      ru_DescendantCount = int (length d),
      ru_DoneCount = int (length (done_only d)),
      ru_PointsTotal = sql_sum (map co_points d),
      ru_PointsDone = sql_sum (map co_points (done_only d)),
      ru_EarliestStart = sql_min (map co_start d),
      ru_LatestDue = sql_max (map co_due d),
      ru_ComputedAt = now\<rparr>"

definition rollup_ranges_ok :: "ItemRollup \<Rightarrow> bool" where
  "rollup_ranges_ok r = (int4_ok (ru_DescendantCount r) \<and> int4_ok (ru_DoneCount r) \<and>
     numeric_ok 10 (ru_PointsTotal r) \<and> numeric_ok 10 (ru_PointsDone r))"

text \<open>\<open>INSERT ... ON CONFLICT (item_id) DO UPDATE\<close>.\<close>

definition upsert_rollup :: "ItemRollup \<Rightarrow> ItemRollup list \<Rightarrow> ItemRollup list" where
  "upsert_rollup r rs =
     (if list_ex (\<lambda>x. ru_ItemID x = ru_ItemID r) rs
      then map (\<lambda>x. if ru_ItemID x = ru_ItemID r then r else x) rs
      else rs @ [r])"

definition RecomputeRollup :: "int \<Rightarrow> uuid \<Rightarrow> database \<Rightarrow> sql_error + database" where
  "RecomputeRollup now u db =
     (let r = aggregate now u (descendants db u) in
      rbind (guard_or (rollup_ranges_ok r) OutOfRange) (\<lambda>_.
      rbind (guard_or (u \<in> it_ID ` set (items db)) (ForeignKeyViolation ''item_rollup'')) (\<lambda>_.
      Inr (db\<lparr>rollups := upsert_rollup r (rollups db)\<rparr>))))"

definition empty_rollup :: "int \<Rightarrow> uuid \<Rightarrow> ItemRollup" where
  "empty_rollup now u =
     \<lparr>ru_ItemID = u, ru_DescendantCount = 0, ru_DoneCount = 0, ru_PointsTotal = None,
      ru_PointsDone = None, ru_EarliestStart = None, ru_LatestDue = None, ru_ComputedAt = now\<rparr>"

definition InsertRollupRow :: "int \<Rightarrow> uuid \<Rightarrow> database \<Rightarrow> sql_error + database" where
  "InsertRollupRow now u db =
     (if list_ex (\<lambda>r. ru_ItemID r = u) (rollups db) then Inr db
      else rbind (guard_or (u \<in> it_ID ` set (items db)) (ForeignKeyViolation ''item_rollup'')) (\<lambda>_.
           Inr (db\<lparr>rollups := rollups db @ [empty_rollup now u]\<rparr>)))"

definition GetRollup :: "uuid \<Rightarrow> database \<Rightarrow> sql_error + ItemRollup" where
  "GetRollup u db = some_or (find (\<lambda>r. ru_ItemID r = u) (rollups db)) NoRows"

definition CountItemsAndRollups_sql :: "database \<Rightarrow> int \<times> int" where
  "CountItemsAndRollups_sql db = (int (length (items db)), int (length (rollups db)))"

definition ListRollupsForProject :: "uuid \<Rightarrow> database \<Rightarrow> (uuid \<times> int \<times> int \<times> int option) list" where
  "ListRollupsForProject project db =
     List.map_filter (\<lambda>r. case find_item db (ru_ItemID r) of None \<Rightarrow> None
       | Some i \<Rightarrow> if it_ProjectID i = project
           then Some (ru_ItemID r, ru_DescendantCount r, ru_DoneCount r, ru_PointsTotal r) else None) (rollups db)"

record VerifyRollupsRow =
  vr_ID :: uuid
  vr_StoredDescendants :: int
  vr_ActualDescendants :: int
  vr_StoredDone :: int
  vr_ActualDone :: int
  vr_StoredPoints :: "int option"
  vr_ActualPoints :: int

text \<open>
  The lateral subquery of \<open>verifyRollups\<close>: the live items strictly below item \<open>i\<close> joined with
  their statuses, and the counts and the sum over these rows.
\<close>

definition lateral_rows :: "database \<Rightarrow> Item \<Rightarrow> (Item \<times> Status) list" where
  "lateral_rows db i =
     concat (map (\<lambda>d. map (Pair d) (filter (\<lambda>s. st_ID s = it_StatusID d) (statuses db)))
       (filter (\<lambda>d. ltree_below (it_Path d) (it_Path i) \<and> it_ID d \<noteq> it_ID i \<and> it_DeletedAt d = None) (items db)))"

record lateral =
  la_descendants :: int
  la_done :: int
  la_points :: "int option"

definition lateral_counts :: "database \<Rightarrow> Item \<Rightarrow> lateral" where
  "lateral_counts db i =
     (let rows = lateral_rows db i in
      \<lparr>la_descendants = int (length rows),
       la_done = int (length (filter (\<lambda>(d, s). st_Category s = ''done'') rows)),
       la_points = sql_sum (map (\<lambda>(d, s). it_Points d) rows)\<rparr>)"

text \<open>The comparison of \<open>verifyRollups\<close>: counts and total points, each with NULL read as zero.\<close>

definition rollup_differs :: "database \<Rightarrow> Item \<times> ItemRollup \<Rightarrow> bool" where
  "rollup_differs db ir =
     (case ir of (i, r) \<Rightarrow>
      let a = lateral_counts db i in
      ru_DescendantCount r \<noteq> la_descendants a \<or> ru_DoneCount r \<noteq> la_done a \<or>
      coalesce (ru_PointsTotal r) 0 \<noteq> coalesce (la_points a) 0)"

text \<open>
  The generated row declares \<open>ActualPoints\<close> as \<open>int64\<close>, while the column is the \<open>numeric\<close>
  sum: NULL and a fractional value cannot be scanned.
\<close>

definition scan_points :: "int option \<Rightarrow> sql_error + int" where
  "scan_points v = (case v of None \<Rightarrow> Inl ScanError
     | Some h \<Rightarrow> if h mod 100 = 0 then Inr (h div 100) else Inl ScanError)"

definition verify_row :: "database \<Rightarrow> Item \<times> ItemRollup \<Rightarrow> sql_error + VerifyRollupsRow" where
  "verify_row db ir =
     (case ir of (i, r) \<Rightarrow>
      let a = lateral_counts db i in
      rbind (scan_points (la_points a)) (\<lambda>pts.
      Inr \<lparr>vr_ID = it_ID i, vr_StoredDescendants = ru_DescendantCount r,
           vr_ActualDescendants = la_descendants a, vr_StoredDone = ru_DoneCount r,
           vr_ActualDone = la_done a, vr_StoredPoints = ru_PointsTotal r,
           vr_ActualPoints = pts\<rparr>))"

text \<open>\<open>item i JOIN item_rollup r ON r.item_id = i.id\<close>, restricted to the rows that differ.\<close>

definition differing_rollups :: "database \<Rightarrow> (Item \<Rightarrow> bool) \<Rightarrow> (Item \<times> ItemRollup) list" where
  "differing_rollups db sel =
     filter (rollup_differs db)
       (concat (map (\<lambda>i. map (Pair i) (filter (\<lambda>r. ru_ItemID r = it_ID i) (rollups db))) (filter sel (items db))))"

definition VerifyRollups_sql :: "database \<Rightarrow> sql_error + VerifyRollupsRow list" where
  "VerifyRollups_sql db = rmap (verify_row db) (differing_rollups db (\<lambda>_. True))"

definition VerifyRollupsForProject_sql :: "uuid \<Rightarrow> database \<Rightarrow> sql_error + VerifyRollupsRow list" where
  "VerifyRollupsForProject_sql project db =
     rmap (verify_row db) (differing_rollups db (\<lambda>i. it_ProjectID i = project))"

subsection \<open>Event and sequence statements\<close>

definition InsertEvent :: "int \<Rightarrow> ChangeEvent \<Rightarrow> database \<Rightarrow> sql_error + database" where
  "InsertEvent now arg db =
     (let e = arg\<lparr>ce_At := now\<rparr> in
      rbind (guard_or (int8_ok (ce_Seq e)) OutOfRange) (\<lambda>_.
      rbind (guard_or (\<not> list_ex (\<lambda>x. ce_WorkspaceID x = ce_WorkspaceID e \<and> ce_Seq x = ce_Seq e \<and>
                ce_At x = ce_At e) (events db)) (UniqueViolation ''change_event'')) (\<lambda>_.
      Inr (db\<lparr>events := events db @ [e]\<rparr>))))"

definition ListEventsSince :: "uuid \<Rightarrow> int \<Rightarrow> nat \<Rightarrow> database \<Rightarrow> ChangeEvent list" where
  "ListEventsSince ws since count db =
     take count (sort_key ce_Seq (filter (\<lambda>e. ce_WorkspaceID e = ws \<and> since < ce_Seq e) (events db)))"

definition MaxEventSeq :: "uuid \<Rightarrow> database \<Rightarrow> int" where
  "MaxEventSeq ws db = coalesce (sql_max (map (\<lambda>e. Some (ce_Seq e)) (filter (\<lambda>e. ce_WorkspaceID e = ws) (events db)))) 0"

definition AllocateSeq :: "int \<Rightarrow> uuid \<Rightarrow> database \<Rightarrow> sql_error + int \<times> database" where
  "AllocateSeq n ws db =
     rbind (some_or (find (\<lambda>c. sq_WorkspaceID c = ws) (counters db)) NoRows) (\<lambda>c.
     let v = sq_Value c + n in
     rbind (guard_or (int8_ok v) OutOfRange) (\<lambda>_.
     Inr (v, db\<lparr>counters := map (\<lambda>x. if sq_WorkspaceID x = ws then x\<lparr>sq_Value := v\<rparr> else x) (counters db)\<rparr>)))"

text \<open>
  \<open>CreateWorkspace\<close>; the counter row is made by the trigger of migration 0009.  The
  generated id is an argument.
\<close>

definition CreateWorkspace :: "int \<Rightarrow> uuid \<Rightarrow> string \<Rightarrow> string \<Rightarrow> uuid \<Rightarrow> database \<Rightarrow> sql_error + Workspace \<times> database" where
  "CreateWorkspace now fresh slug name origin db =
     (let w = \<lparr>ws_ID = fresh, ws_Slug = slug, ws_Name = name, ws_OriginID = origin,
               ws_CreatedAt = now, ws_Version = 1\<rparr> in
      rbind (guard_or (fresh \<notin> ws_ID ` set (workspaces db) \<and> slug \<notin> ws_Slug ` set (workspaces db))
              (UniqueViolation ''workspace'')) (\<lambda>_.
      rbind (guard_or (fresh \<notin> sq_WorkspaceID ` set (counters db)) (UniqueViolation ''seq_counter'')) (\<lambda>_.
      Inr (w, db\<lparr>workspaces := workspaces db @ [w],
                 counters := counters db @ [\<lparr>sq_WorkspaceID = fresh, sq_Value = 0\<rparr>]\<rparr>))))"

definition GetWorkspaceBySlug :: "string \<Rightarrow> database \<Rightarrow> sql_error + Workspace" where
  "GetWorkspaceBySlug slug db = some_or (find (\<lambda>w. ws_Slug w = slug) (workspaces db)) NoRows"

subsection \<open>Project and configuration statements\<close>

definition key_prefix_ok :: "string \<Rightarrow> bool" where
  "key_prefix_ok s =
     (case s of [] \<Rightarrow> False
      | c # cs \<Rightarrow> CHR ''A'' \<le> c \<and> c \<le> CHR ''Z'' \<and> 1 \<le> length cs \<and> length cs \<le> 9 \<and>
          list_all (\<lambda>x. CHR ''A'' \<le> x \<and> x \<le> CHR ''Z'' \<or> CHR ''0'' \<le> x \<and> x \<le> CHR ''9'') cs)"

definition CreateProject ::
  "int \<Rightarrow> uuid \<Rightarrow> uuid \<Rightarrow> string \<Rightarrow> string \<Rightarrow> string \<Rightarrow> database \<Rightarrow> sql_error + Project \<times> database" where
  "CreateProject now fresh ws keyPrefix name kind db =
     (let p = \<lparr>pj_ID = fresh, pj_WorkspaceID = ws, pj_KeyPrefix = keyPrefix, pj_Name = name,
               pj_Kind = kind, pj_NextKeyNum = 1, pj_ArchivedAt = None, pj_OwnerID = None,
               pj_Version = 1, pj_UpdatedAt = now\<rparr> in
      rbind (guard_or (key_prefix_ok keyPrefix \<and> kind \<in> set [''delivery'', ''discovery'', ''portfolio''])
              (CheckViolation ''project'')) (\<lambda>_.
      rbind (guard_or (fresh \<notin> pj_ID ` set (projects db) \<and>
                (ws, keyPrefix) \<notin> (\<lambda>x. (pj_WorkspaceID x, pj_KeyPrefix x)) ` set (projects db))
              (UniqueViolation ''project'')) (\<lambda>_.
      rbind (guard_or (ws \<in> ws_ID ` set (workspaces db)) (ForeignKeyViolation ''project'')) (\<lambda>_.
      Inr (p, db\<lparr>projects := projects db @ [p]\<rparr>)))))"

definition GetProject :: "uuid \<Rightarrow> database \<Rightarrow> sql_error + Project" where
  "GetProject u db = some_or (find (\<lambda>p. pj_ID p = u) (projects db)) NoRows"

definition InsertProjectConfig ::
  "int \<Rightarrow> uuid \<Rightarrow> int \<Rightarrow> string option \<Rightarrow> uuid option \<Rightarrow> database \<Rightarrow> sql_error + ProjectConfig \<times> database" where
  "InsertProjectConfig now project version yaml appliedBy db =
     (let c = \<lparr>pc_ProjectID = project, pc_Version = version, pc_SourceYaml = yaml,
               pc_AppliedAt = now, pc_AppliedBy = appliedBy\<rparr> in
      rbind (guard_or ((project, version) \<notin> (\<lambda>x. (pc_ProjectID x, pc_Version x)) ` set (configs db))
              (UniqueViolation ''project_config'')) (\<lambda>_.
      rbind (guard_or (project \<in> pj_ID ` set (projects db) \<and>
                (case appliedBy of None \<Rightarrow> True | Some a \<Rightarrow> a \<in> ua_ID ` set (users db)))
              (ForeignKeyViolation ''project_config'')) (\<lambda>_.
      Inr (c, db\<lparr>configs := configs db @ [c]\<rparr>))))"

definition InsertStatus ::
  "uuid \<Rightarrow> uuid \<Rightarrow> string \<Rightarrow> string \<Rightarrow> string \<Rightarrow> database \<Rightarrow> sql_error + Status \<times> database" where
  "InsertStatus fresh project key name category db =
     (let s = \<lparr>st_ID = fresh, st_ProjectID = project, st_Key = key, st_Name = name, st_Category = category\<rparr> in
      rbind (guard_or (category \<in> set [''open'', ''active'', ''done'', ''cancelled'']) (CheckViolation ''status'')) (\<lambda>_.
      rbind (guard_or (fresh \<notin> st_ID ` set (statuses db)) (UniqueViolation ''status'')) (\<lambda>_.
      rbind (guard_or (project \<in> pj_ID ` set (projects db)) (ForeignKeyViolation ''status'')) (\<lambda>_.
      Inr (s, db\<lparr>statuses := statuses db @ [s]\<rparr>)))))"

definition InsertItemType ::
  "uuid \<Rightarrow> uuid \<Rightarrow> string \<Rightarrow> string \<Rightarrow> int \<Rightarrow> bool \<Rightarrow> database \<Rightarrow> sql_error + ItemType \<times> database" where
  "InsertItemType fresh project key name level isIdea db =
     (let t = \<lparr>ty_ID = fresh, ty_ProjectID = project, ty_Key = key, ty_Name = name, ty_Level = level,
               ty_IsIdea = isIdea\<rparr> in
      rbind (guard_or (fresh \<notin> ty_ID ` set (item_types db)) (UniqueViolation ''item_type'')) (\<lambda>_.
      rbind (guard_or (project \<in> pj_ID ` set (projects db)) (ForeignKeyViolation ''item_type'')) (\<lambda>_.
      Inr (t, db\<lparr>item_types := item_types db @ [t]\<rparr>))))"

definition ListStatuses :: "uuid \<Rightarrow> database \<Rightarrow> Status list" where
  "ListStatuses project db = sort_key st_Key (filter (\<lambda>s. st_ProjectID s = project) (statuses db))"

definition ListItemTypes :: "uuid \<Rightarrow> database \<Rightarrow> ItemType list" where
  "ListItemTypes project db =
     sort_key (\<lambda>t. (ty_Level t, ty_Key t)) (filter (\<lambda>t. ty_ProjectID t = project) (item_types db))"

definition LatestConfigVersion :: "uuid \<Rightarrow> database \<Rightarrow> int" where
  "LatestConfigVersion project db =
     coalesce (sql_max (map (\<lambda>c. Some (pc_Version c)) (filter (\<lambda>c. pc_ProjectID c = project) (configs db)))) 0"

definition NextItemKey :: "uuid \<Rightarrow> database \<Rightarrow> sql_error + (string \<times> int) \<times> database" where
  "NextItemKey project db =
     rbind (some_or (find (\<lambda>p. pj_ID p = project) (projects db)) NoRows) (\<lambda>p.
     let num = pj_NextKeyNum p in
     rbind (guard_or (int4_ok (num + 1)) OutOfRange) (\<lambda>_.
     Inr ((pj_KeyPrefix p @ ''-'' @ itoa num, num),
          db\<lparr>projects := map (\<lambda>x. if pj_ID x = project then x\<lparr>pj_NextKeyNum := num + 1\<rparr> else x) (projects db)\<rparr>)))"

definition InsertLink ::
  "int \<Rightarrow> uuid \<Rightarrow> uuid \<Rightarrow> uuid \<Rightarrow> string \<Rightarrow> uuid option \<Rightarrow> database \<Rightarrow> sql_error + ItemLink \<times> database" where
  "InsertLink now u fromID toID kind createdBy db =
     (let l = \<lparr>ln_ID = u, ln_FromItemID = fromID, ln_ToItemID = toID, ln_Kind = kind,
               ln_CreatedAt = now, ln_CreatedBy = createdBy\<rparr> in
      rbind (guard_or (kind \<in> set [''blocks'', ''duplicates'', ''relates'', ''implements'', ''discovered_from''] \<and>
                fromID \<noteq> toID) (CheckViolation ''item_link'')) (\<lambda>_.
      rbind (guard_or (u \<notin> ln_ID ` set (links db) \<and>
                (fromID, toID, kind) \<notin> (\<lambda>x. (ln_FromItemID x, ln_ToItemID x, ln_Kind x)) ` set (links db))
              (UniqueViolation ''item_link'')) (\<lambda>_.
      rbind (guard_or (fromID \<in> it_ID ` set (items db) \<and> toID \<in> it_ID ` set (items db) \<and>
                (case createdBy of None \<Rightarrow> True | Some a \<Rightarrow> a \<in> ua_ID ` set (users db)))
              (ForeignKeyViolation ''item_link'')) (\<lambda>_.
      Inr (l, db\<lparr>links := links db @ [l]\<rparr>)))))"

definition DeleteLink :: "uuid \<Rightarrow> database \<Rightarrow> database" where
  "DeleteLink u db = db\<lparr>links := filter (\<lambda>l. ln_ID l \<noteq> u) (links db)\<rparr>"

end
