(* ===== verification/Sx_Events.thy ===== *)
theory Sx_Events
  imports Sx_Database
begin

text \<open>
  The mutation under construction: \<open>src/internal/store/events.go\<close>.  Callers register row
  changes through the builder methods; every builder makes the events that describe its
  change, so that a change without an event cannot be built.  Identifiers the code draws from
  \<open>uuid.NewV7\<close> are arguments (\<open>fresh\<close>).
\<close>

subsection \<open>Errors of the store\<close>

text \<open>
  The sentinel errors of the package, the errors it formats in place (\<open>BadMutation\<close> with the
  message), the error of a SQL statement, the error a caller's callback returns, and two
  outcomes that are not errors in Go: a rank search that does not return, and a run-time panic.
\<close>

datatype store_error =
    ErrNoEvents
  | ErrEmpty
  | ErrVersionConflict
  | ErrInvalidMove
  | ErrRank
  | BadMutation string
  | SqlError sql_error
  | CallerError string
  | Diverges
  | Panics

definition EventCreated :: string where "EventCreated = ''created''"
definition EventFieldChanged :: string where "EventFieldChanged = ''field_changed''"
definition EventStatusChanged :: string where "EventStatusChanged = ''status_changed''"
definition EventMoved :: string where "EventMoved = ''moved''"
definition EventLinked :: string where "EventLinked = ''linked''"
definition EventUnlinked :: string where "EventUnlinked = ''unlinked''"
definition EventPromoted :: string where "EventPromoted = ''promoted''"
definition EventDeleted :: string where "EventDeleted = ''deleted''"

subsection \<open>Pending changes\<close>

record event =
  ev_itemID :: uuid
  ev_hasItem :: bool
  ev_actorID :: uuid
  ev_hasActor :: bool
  ev_kind :: string
  ev_field :: "string option"
  ev_oldValue :: "json option"
  ev_newValue :: "json option"
  ev_seq :: int

record ItemInsert =
  in_ID :: uuid
  in_ProjectID :: uuid
  in_ItemTypeID :: uuid
  in_StatusID :: uuid
  in_ParentID :: "uuid option"
  in_Title :: string
  in_Body :: "string option"
  in_AssigneeID :: "uuid option"
  in_Points :: "rat option"
  in_StartDate :: "string option"
  in_DueDate :: "string option"
  in_Fields :: go_map
  in_OriginID :: uuid
  in_OriginSeq :: "int option"
  in_ConfigVersion :: "int option"
  in_rank :: string

record ItemUpdate =
  iu_ID :: uuid
  iu_Title :: "string option"
  iu_Body :: "string option"
  iu_SetBody :: bool
  iu_StatusID :: "uuid option"
  iu_ConfigVersion :: "int option"
  iu_AssigneeID :: "uuid option"
  iu_SetAssignee :: bool
  iu_Points :: "rat option"
  iu_SetPoints :: bool
  iu_StartDate :: "string option"
  iu_SetStartDate :: bool
  iu_DueDate :: "string option"
  iu_SetDueDate :: bool
  iu_Rank :: "string option"
  iu_Fields :: go_map

record ItemReparent =
  rp_ID :: uuid
  rp_NewParentID :: "uuid option"
  rp_SetRank :: bool
  rp_RankAfter :: "uuid option"

record LinkChange =
  lc_ID :: uuid
  lc_FromItemID :: uuid
  lc_ToItemID :: uuid
  lc_ActingItemID :: uuid
  lc_Kind :: string

record CommentChange =
  cc_ID :: uuid
  cc_ItemID :: uuid
  cc_Action :: string
  cc_Body :: string
  cc_OldBody :: "string option"

record FieldChange =
  fc_Kind :: string
  fc_Field :: string
  fc_Old :: "json option"
  fc_New :: "json option"

text \<open>The payload selected by \<open>changeKind\<close>.\<close>

datatype change_op =
    changeInsert ItemInsert
  | changeUpdate ItemUpdate
  | changeReparent ItemReparent
  | changeSoftDelete
  | changeHardDelete
  | changeLink LinkChange
  | changeUnlink LinkChange
  | changeComment CommentChange

record change =
  ch_op :: change_op
  ch_itemID :: uuid
  ch_events :: "event list"

record Mutation =
  mu_expected :: "(uuid \<times> int) list"
  mu_workspaceID :: uuid
  mu_actorID :: uuid
  mu_hasActor :: bool
  mu_changes :: "change list"
  mu_touchedPaths :: "string list"
  mu_err :: "store_error option"

definition WorkspaceID :: "Mutation \<Rightarrow> uuid" where
  "WorkspaceID m = mu_workspaceID m"

definition Actor :: "Mutation \<Rightarrow> uuid \<times> bool" where
  "Actor m = (mu_actorID m, mu_hasActor m)"

subsection \<open>Builders\<close>

definition fail :: "store_error \<Rightarrow> Mutation \<Rightarrow> Mutation" where
  "fail e m = (case mu_err m of None \<Rightarrow> m\<lparr>mu_err := Some e\<rparr> | Some _ \<Rightarrow> m)"

definition newEvent ::
  "Mutation \<Rightarrow> uuid \<Rightarrow> string \<Rightarrow> string option \<Rightarrow> json option \<Rightarrow> json option \<Rightarrow> event" where
  "newEvent m itemID kind field oldV newV =
     \<lparr>ev_itemID = itemID, ev_hasItem = (itemID \<noteq> 0), ev_actorID = mu_actorID m,
      ev_hasActor = mu_hasActor m, ev_kind = kind, ev_field = field, ev_oldValue = oldV,
      ev_newValue = newV, ev_seq = 0\<rparr>"

definition add_change :: "change \<Rightarrow> Mutation \<Rightarrow> Mutation" where
  "add_change c m = m\<lparr>mu_changes := mu_changes m @ [c]\<rparr>"

definition fieldEvent :: "Mutation \<Rightarrow> uuid \<Rightarrow> FieldChange \<Rightarrow> store_error + event" where
  "fieldEvent m itemID fc =
     (if fc_Field fc = [] then Inl (BadMutation ''store: field change has no field name'')
      else Inr (newEvent m itemID (if fc_Kind fc = [] then EventFieldChanged else fc_Kind fc)
                  (Some (fc_Field fc)) (marshalValue (fc_Old fc)) (marshalValue (fc_New fc))))"

definition comment_old :: "CommentChange \<Rightarrow> json option" where
  "comment_old c = map_option (\<lambda>b. JObj [(''body'', JStr b), (''id'', JStr (uuid_String (cc_ID c)))]) (cc_OldBody c)"

definition comment_new :: "CommentChange \<Rightarrow> json" where
  "comment_new c =
     JObj [(''body'', if cc_Action c = ''delete'' then JNull else JStr (cc_Body c)),
           (''deleted'', JBool (cc_Action c = ''delete'')),
           (''id'', JStr (uuid_String (cc_ID c)))]"

definition Comment_builder :: "uuid \<Rightarrow> CommentChange \<Rightarrow> Mutation \<Rightarrow> Mutation" where
  "Comment_builder fresh c m =
     (if cc_Action c \<noteq> ''create'' \<and> cc_Action c \<noteq> ''edit'' \<and> cc_Action c \<noteq> ''delete''
      then fail (BadMutation ''store: invalid comment action'') m
      else if \<not> mu_hasActor m then fail (BadMutation ''store: comment requires an actor'') m
      else let c' = (if cc_ID c = 0 then c\<lparr>cc_ID := fresh\<rparr> else c) in
           (case fieldEvent m (cc_ItemID c')
                   \<lparr>fc_Kind = [], fc_Field = ''comment'', fc_Old = comment_old c', fc_New = Some (comment_new c')\<rparr> of
              Inl e \<Rightarrow> fail e m
            | Inr ev \<Rightarrow> add_change \<lparr>ch_op = changeComment c', ch_itemID = cc_ItemID c', ch_events = [ev]\<rparr> m))"

definition Create :: "uuid \<Rightarrow> ItemInsert \<Rightarrow> Mutation \<Rightarrow> Mutation" where
  "Create fresh inp m =
     (let ins = (if in_ID inp = 0 then inp\<lparr>in_ID := fresh\<rparr> else inp) in
      if in_Title ins = [] then fail (BadMutation ''store: create: title is required'') m
      else if in_OriginID ins = 0 then fail (BadMutation ''store: create: origin_id is required'') m
      else let payload = JObj [(''project_id'', JStr (uuid_String (in_ProjectID ins))), (''title'', JStr (in_Title ins))] in
           add_change \<lparr>ch_op = changeInsert ins, ch_itemID = in_ID ins,
                       ch_events = [newEvent m (in_ID ins) EventCreated None None (Some payload)]\<rparr> m)"

text \<open>The loop over the described field changes stops at the first bad one.\<close>

fun fieldEvents :: "Mutation \<Rightarrow> uuid \<Rightarrow> FieldChange list \<Rightarrow> store_error + event list" where
  "fieldEvents m itemID [] = Inr []"
| "fieldEvents m itemID (fc # fcs) =
     rbind (fieldEvent m itemID fc) (\<lambda>ev. rbind (fieldEvents m itemID fcs) (\<lambda>evs. Inr (ev # evs)))"

definition Update :: "ItemUpdate \<Rightarrow> FieldChange list \<Rightarrow> Mutation \<Rightarrow> Mutation" where
  "Update up evs m =
     (if evs = [] then fail (BadMutation ''store: update: at least one field change must be described (ADR-001)'') m
      else case fieldEvents m (iu_ID up) evs of
             Inl e \<Rightarrow> fail e m
           | Inr es \<Rightarrow> add_change \<lparr>ch_op = changeUpdate up, ch_itemID = iu_ID up, ch_events = es\<rparr> m)"

definition Reparent :: "ItemReparent \<Rightarrow> Mutation \<Rightarrow> Mutation" where
  "Reparent r m =
     (let newParent = (case rp_NewParentID r of None \<Rightarrow> ''null'' | Some p \<Rightarrow> uuid_String p);
          payload = JObj [(''new_parent_id'', JStr newParent)] in
      add_change \<lparr>ch_op = changeReparent r, ch_itemID = rp_ID r,
                  ch_events = [newEvent m (rp_ID r) EventMoved (Some ''parent_id'') None (Some payload)]\<rparr> m)"

definition SoftDelete :: "uuid \<Rightarrow> Mutation \<Rightarrow> Mutation" where
  "SoftDelete u m =
     add_change \<lparr>ch_op = changeSoftDelete, ch_itemID = u,
                 ch_events = [newEvent m u EventDeleted None None None]\<rparr> m"

definition hardDelete :: "uuid \<Rightarrow> Mutation \<Rightarrow> Mutation" where
  "hardDelete u m =
     add_change \<lparr>ch_op = changeHardDelete, ch_itemID = u,
                 ch_events = [newEvent m u EventDeleted None None (Some (JObj [(''hard'', JBool True)]))]\<rparr> m"

definition link_payload :: "uuid \<Rightarrow> string \<Rightarrow> json" where
  "link_payload other kind = JObj [(''kind'', JStr kind), (''to'', JStr (uuid_String other))]"

definition Link :: "uuid \<Rightarrow> LinkChange \<Rightarrow> Mutation \<Rightarrow> Mutation" where
  "Link fresh l m =
     (let lc = (if lc_ID l = 0 then l\<lparr>lc_ID := fresh\<rparr> else l) in
      add_change \<lparr>ch_op = changeLink lc, ch_itemID = lc_FromItemID lc,
                  ch_events = [newEvent m (lc_FromItemID lc) EventLinked None None
                                 (Some (link_payload (lc_ToItemID lc) (lc_Kind lc)))]\<rparr> m)"

definition Unlink :: "LinkChange \<Rightarrow> Mutation \<Rightarrow> Mutation" where
  "Unlink l m =
     (let itemID = (if lc_ActingItemID l \<noteq> 0 then lc_ActingItemID l else lc_FromItemID l);
          otherID = (if lc_ActingItemID l \<noteq> 0 \<and> itemID = lc_ToItemID l then lc_FromItemID l else lc_ToItemID l) in
      if itemID \<noteq> lc_FromItemID l \<and> itemID \<noteq> lc_ToItemID l
      then fail (BadMutation ''store: unlink actor is not a link endpoint'') m
      else add_change \<lparr>ch_op = changeUnlink l, ch_itemID = itemID,
                       ch_events = [newEvent m itemID EventUnlinked None None
                                      (Some (link_payload otherID (lc_Kind l)))]\<rparr> m)"

definition eventCount :: "Mutation \<Rightarrow> nat" where
  "eventCount m = sum_list (map (\<lambda>c. length (ch_events c)) (mu_changes m))"

subsection \<open>What builders can build\<close>

text \<open>
  The step relation of the builder interface: from one pending mutation to the next by one
  public or package-private builder call.
\<close>

inductive build_step :: "Mutation \<Rightarrow> Mutation \<Rightarrow> bool" where
  comment: "build_step m (Comment_builder fresh c m)"
| create: "build_step m (Create fresh ins m)"
| update: "build_step m (Update up evs m)"
| reparent: "build_step m (Reparent r m)"
| softDelete: "build_step m (SoftDelete u m)"
| hardDelete: "build_step m (hardDelete u m)"
| link: "build_step m (Link fresh l m)"
| unlink: "build_step m (Unlink l m)"

inductive_cases build_stepE: "build_step m m'"

abbreviation builds :: "Mutation \<Rightarrow> Mutation \<Rightarrow> bool" where
  "builds \<equiv> build_step\<^sup>*\<^sup>*"

text \<open>
  What every registered change satisfies: it has an event, its events are about the item the
  change names, carry the mutation's actor, and the payload names that item.
\<close>

definition change_described :: "Mutation \<Rightarrow> change \<Rightarrow> bool" where
  "change_described m c =
     (ch_events c \<noteq> [] \<and>
      list_all (\<lambda>e. ev_itemID e = ch_itemID c \<and> ev_hasItem e = (ch_itemID c \<noteq> 0) \<and>
                    ev_actorID e = mu_actorID m \<and> ev_hasActor e = mu_hasActor m) (ch_events c) \<and>
      (case ch_op c of
         changeInsert ins \<Rightarrow> ch_itemID c = in_ID ins
       | changeUpdate up \<Rightarrow> ch_itemID c = iu_ID up
       | changeReparent r \<Rightarrow> ch_itemID c = rp_ID r
       | changeLink l \<Rightarrow> ch_itemID c = lc_FromItemID l
       | changeUnlink l \<Rightarrow> ch_itemID c = lc_FromItemID l \<or> ch_itemID c = lc_ToItemID l
       | changeComment cc \<Rightarrow> ch_itemID c = cc_ItemID cc
       | _ \<Rightarrow> True))"

lemma fail_simps [simp]:
  "mu_changes (fail e m) = mu_changes m" "mu_actorID (fail e m) = mu_actorID m"
  "mu_hasActor (fail e m) = mu_hasActor m" "mu_workspaceID (fail e m) = mu_workspaceID m"
  "mu_expected (fail e m) = mu_expected m" "mu_touchedPaths (fail e m) = mu_touchedPaths m"
  by (simp_all add: fail_def split: option.splits)

lemma add_change_simps [simp]:
  "mu_changes (add_change c m) = mu_changes m @ [c]" "mu_actorID (add_change c m) = mu_actorID m"
  "mu_hasActor (add_change c m) = mu_hasActor m" "mu_workspaceID (add_change c m) = mu_workspaceID m"
  "mu_expected (add_change c m) = mu_expected m" "mu_touchedPaths (add_change c m) = mu_touchedPaths m"
  by (simp_all add: add_change_def)

lemma newEvent_simps [simp]:
  "ev_itemID (newEvent m u k f old new) = u" "ev_hasItem (newEvent m u k f old new) = (u \<noteq> 0)"
  "ev_actorID (newEvent m u k f old new) = mu_actorID m"
  "ev_hasActor (newEvent m u k f old new) = mu_hasActor m"
  by (simp_all add: newEvent_def)

lemma fieldEvents_described:
  assumes "fieldEvents m u fcs = Inr es"
  shows "length es = length fcs"
    and "list_all (\<lambda>e. ev_itemID e = u \<and> ev_hasItem e = (u \<noteq> 0) \<and> ev_actorID e = mu_actorID m \<and>
           ev_hasActor e = mu_hasActor m) es"
  using assms
  by (induction fcs arbitrary: es) (auto simp: result_simps fieldEvent_def split: if_splits)

lemmas builder_defs = Comment_builder_def Create_def Update_def Reparent_def SoftDelete_def
  hardDelete_def Link_def Unlink_def Let_def

text \<open>Each builder keeps the header of the mutation and adds at most one, described, change.\<close>

lemma build_step_change:
  assumes "build_step m m'"
  shows "mu_actorID m' = mu_actorID m" "mu_hasActor m' = mu_hasActor m"
    and "mu_changes m' = mu_changes m \<or> (\<exists>c. mu_changes m' = mu_changes m @ [c] \<and> change_described m c)"
  using assms
  by (cases rule: build_step.cases;
      auto simp: builder_defs change_described_def fieldEvent_def split: sum.splits if_splits
           dest: fieldEvents_described)+

text \<open>
  C11.  A row change without an event is not a value the package can build (ADR-001): after
  any sequence of builder calls, starting from a mutation all of whose changes are described,
  every registered change has at least one event, each event names the item the change is
  about and the acting user, and the payload is about that item.
\<close>

theorem builders_describe_changes:
  assumes "builds m m'" and "list_all (change_described m) (mu_changes m)"
  shows "list_all (change_described m') (mu_changes m') \<and> list_all (\<lambda>c. ch_events c \<noteq> []) (mu_changes m')"
proof -
  have "list_all (change_described m') (mu_changes m') \<and> mu_actorID m' = mu_actorID m \<and> mu_hasActor m' = mu_hasActor m"
    using assms(1)
  proof (induction rule: rtranclp_induct)
    case (step y z)
    have "change_described z = change_described y"
      using build_step_change(1,2) [OF step.hyps(2)] by (simp add: change_described_def fun_eq_iff)
    then show ?case using step.IH build_step_change [OF step.hyps(2)] by auto
  qed (use assms(2) in simp)
  then show ?thesis by (auto simp: list_all_iff change_described_def)
qed

definition empty_mutation :: "uuid \<Rightarrow> Mutation" where
  "empty_mutation ws = \<lparr>mu_expected = [], mu_workspaceID = ws, mu_actorID = 0, mu_hasActor = False,
     mu_changes = [], mu_touchedPaths = [], mu_err = None\<rparr>"

theorem builders_describe_changes_witness:
  "list_all (\<lambda>c. ch_events c \<noteq> []) (mu_changes (hardDelete 7 (SoftDelete 5 (empty_mutation 1)))) \<and>
   length (mu_changes (hardDelete 7 (SoftDelete 5 (empty_mutation 1)))) = 2"
proof -
  have "builds (empty_mutation 1) (hardDelete 7 (SoftDelete 5 (empty_mutation 1)))"
    by (rule rtranclp_trans [OF r_into_rtranclp r_into_rtranclp]) (rule build_step.intros)+
  moreover have "list_all (change_described (empty_mutation 1)) (mu_changes (empty_mutation 1))"
    by (simp add: empty_mutation_def)
  ultimately show ?thesis
    using builders_describe_changes [of "empty_mutation 1" "hardDelete 7 (SoftDelete 5 (empty_mutation 1))"]
    by (simp add: hardDelete_def SoftDelete_def empty_mutation_def)
qed

end
