(* ===== verification/Sx_Mutate.thy ===== *)
theory Sx_Mutate
  imports Sx_Rank Sx_Events
begin

text \<open>
  The single write path: \<open>src/internal/store/mutate.go\<close>, with the rollup maintenance of
  \<open>rollup.go\<close> and the comment statements of \<open>comments.go\<close>.  \<open>flush\<close> runs inside one
  transaction: an error anywhere leaves the database as it was (\<open>Mutate\<close>).
\<close>

subsection \<open>Rollups\<close>

definition dirty_label :: "string list \<times> uuid list \<Rightarrow> string \<Rightarrow> string list \<times> uuid list" where
  "dirty_label acc label =
     (case acc of (seen, out) \<Rightarrow>
        if label \<in> set seen then (seen, out)
        else (label # seen, case uuid_Parse label of None \<Rightarrow> out | Some u \<Rightarrow> out @ [u]))"

definition dirtyAncestors :: "string list \<Rightarrow> uuid list" where
  "dirtyAncestors paths =
     snd (foldl (\<lambda>acc p. foldl dirty_label acc (butlast (split_dots p))) ([], []) paths)"

definition sql :: "sql_error + 'a \<Rightarrow> store_error + 'a" where
  "sql r = (case r of Inl e \<Rightarrow> Inl (SqlError e) | Inr x \<Rightarrow> Inr x)"

definition recomputeRollups :: "int \<Rightarrow> uuid list \<Rightarrow> database \<Rightarrow> store_error + database" where
  "recomputeRollups now ids db = rfold (\<lambda>d u. sql (RecomputeRollup now u d)) db ids"

record RollupMismatch =
  mm_ItemID :: uuid
  mm_StoredDescendants :: int
  mm_ActualDescendants :: int
  mm_StoredDone :: int
  mm_ActualDone :: int

definition mismatch :: "VerifyRollupsRow \<Rightarrow> RollupMismatch" where
  "mismatch r = \<lparr>mm_ItemID = vr_ID r, mm_StoredDescendants = vr_StoredDescendants r,
     mm_ActualDescendants = vr_ActualDescendants r, mm_StoredDone = vr_StoredDone r,
     mm_ActualDone = vr_ActualDone r\<rparr>"

definition VerifyRollups :: "database \<Rightarrow> store_error + RollupMismatch list" where
  "VerifyRollups db = rbind (sql (VerifyRollups_sql db)) (\<lambda>rows. Inr (map mismatch rows))"

definition VerifyRollupsForProject :: "uuid \<Rightarrow> database \<Rightarrow> store_error + RollupMismatch list" where
  "VerifyRollupsForProject project db =
     rbind (sql (VerifyRollupsForProject_sql project db)) (\<lambda>rows. Inr (map mismatch rows))"

definition CountItemsAndRollups :: "database \<Rightarrow> int \<times> int" where
  "CountItemsAndRollups db = CountItemsAndRollups_sql db"

subsection \<open>Comments\<close>

text \<open>\<open>RowsAffected() != 1\<close> is reported as \<open>pgx.ErrNoRows\<close>.\<close>

definition applyComment :: "int \<Rightarrow> Mutation \<Rightarrow> CommentChange \<Rightarrow> database \<Rightarrow> store_error + database" where
  "applyComment now m c db =
     (let hit = (\<lambda>x. cm_ID x = cc_ID c \<and> cm_ItemID x = cc_ItemID c \<and> cm_DeletedAt x = None) in
      if cc_Action c = ''create'' then
        rbind (guard_or (cc_ID c \<notin> cm_ID ` set (comments db)) (SqlError (UniqueViolation ''comment''))) (\<lambda>_.
        rbind (guard_or (cc_ItemID c \<in> it_ID ` set (items db) \<and> mu_actorID m \<in> ua_ID ` set (users db))
                 (SqlError (ForeignKeyViolation ''comment''))) (\<lambda>_.
        Inr (db\<lparr>comments := comments db @ [\<lparr>cm_ID = cc_ID c, cm_ItemID = cc_ItemID c,
               cm_AuthorID = mu_actorID m, cm_Body = cc_Body c, cm_CreatedAt = now,
               cm_EditedAt = None, cm_DeletedAt = None\<rparr>]\<rparr>)))
      else if cc_Action c = ''edit'' then
        rbind (guard_or (length (filter hit (comments db)) = 1) (SqlError NoRows)) (\<lambda>_.
        Inr (db\<lparr>comments := map (\<lambda>x. if hit x then x\<lparr>cm_Body := cc_Body c, cm_EditedAt := Some now\<rparr> else x) (comments db)\<rparr>))
      else if cc_Action c = ''delete'' then
        rbind (guard_or (length (filter hit (comments db)) = 1) (SqlError NoRows)) (\<lambda>_.
        Inr (db\<lparr>comments := map (\<lambda>x. if hit x then x\<lparr>cm_DeletedAt := Some now\<rparr> else x) (comments db)\<rparr>))
      else Inr db)"

subsection \<open>Ranks in the store\<close>

definition rank_result :: "(rank_error + string) option \<Rightarrow> store_error + string" where
  "rank_result r = (case r of None \<Rightarrow> Inl Diverges | Some (Inl ErrRankOrder) \<Rightarrow> Inl ErrRank
     | Some (Inl IndexPanic) \<Rightarrow> Inl Panics | Some (Inr s) \<Rightarrow> Inr s)"

definition rebalanceProjectRanks ::
  "int \<Rightarrow> uuid \<Rightarrow> (uuid option \<times> string) list \<Rightarrow> database \<Rightarrow> store_error + database" where
  "rebalanceProjectRanks now project ranks db =
     (if ranks = [] then Inr db
      else rbind (sql (SetProjectRanks now project (map snd ranks) (RankSequence (int (length ranks))) db))
             (\<lambda>(_, db'). Inr db'))"

definition last_rank :: "(uuid option \<times> string) list \<Rightarrow> string" where
  "last_rank ranks = (if ranks = [] then [] else snd (last ranks))"

definition rankForNewItem :: "int \<Rightarrow> uuid \<Rightarrow> database \<Rightarrow> store_error + string \<times> database" where
  "rankForNewItem now project db =
     (let ranks = ListProjectRanks project db in
      rbind (rank_result (RankBetween (last_rank ranks) [])) (\<lambda>rank.
      if RankNeedsRebalance rank then
        rbind (rebalanceProjectRanks now project ranks db) (\<lambda>db'.
        rbind (rank_result (RankBetween (last_rank (ListProjectRanks project db')) [])) (\<lambda>rank'.
        Inr (rank', db')))
      else Inr (rank, db)))"

text \<open>
  The scan of \<open>applyReparent\<close> for the neighbours of the new position: it skips the moved item
  itself, takes \<open>lo\<close> from the item to go after, and \<open>hi\<close> from the one that follows.
\<close>

fun rank_scan :: "uuid \<Rightarrow> uuid option \<Rightarrow> bool \<Rightarrow> string \<Rightarrow> (uuid option \<times> string) list \<Rightarrow> bool \<times> string \<times> string" where
  "rank_scan self after found lo [] = (found, lo, [])"
| "rank_scan self after found lo ((cid, r) # rest) =
     (if cid = Some self then rank_scan self after found lo rest
      else if found then (True, lo, r)
      else if after = Some (coalesce cid 0) then rank_scan self after True r rest
      else rank_scan self after False lo rest)"

text \<open>The two attempts of the placement loop; \<open>n\<close> is the number of attempts left.\<close>

fun reparent_rank :: "nat \<Rightarrow> int \<Rightarrow> Item \<Rightarrow> ItemReparent \<Rightarrow> database \<Rightarrow> store_error + database" where
  "reparent_rank 0 now it r db = Inl ErrRank"
| "reparent_rank (Suc n) now it r db =
     (let ranks = ListProjectRanks (it_ProjectID it) db in
      case rank_scan (it_ID it) (rp_RankAfter r) (rp_RankAfter r = None) [] ranks of (found, lo, hi) \<Rightarrow>
      if \<not> found then Inl ErrInvalidMove
      else rbind (rank_result (RankBetween lo hi)) (\<lambda>rank.
           if RankNeedsRebalance rank then
             rbind (rebalanceProjectRanks now (it_ProjectID it) ranks db) (\<lambda>db'. reparent_rank n now it r db')
           else rbind (sql (update_items (\<lambda>i. it_ID i = rp_ID r) (\<lambda>i. i\<lparr>it_Rank := rank\<rparr>) db))
                  (\<lambda>(_, db'). Inr db')))"

subsection \<open>Applying one change\<close>

definition insert_path :: "ItemInsert \<Rightarrow> database \<Rightarrow> store_error + string" where
  "insert_path ins db =
     (case in_ParentID ins of
        None \<Rightarrow> Inr (uuid_String (in_ID ins))
      | Some p \<Rightarrow> rbind (sql (GetItem p db)) (\<lambda>parent.
          if it_ProjectID parent \<noteq> in_ProjectID ins
          then Inl (BadMutation ''store: parent is in another project (ADR-012)'')
          else Inr (join_dots (it_Path parent) @ ''.'' @ uuid_String (in_ID ins))))"

definition insert_row :: "Mutation \<Rightarrow> ItemInsert \<Rightarrow> string \<Rightarrow> int \<Rightarrow> string \<Rightarrow> int \<Rightarrow> Item" where
  "insert_row m ins key cfg rank seq =
     \<lparr>it_ID = in_ID ins, it_WorkspaceID = mu_workspaceID m, it_ProjectID = in_ProjectID ins,
      it_Key = key, it_ItemTypeID = in_ItemTypeID ins, it_StatusID = in_StatusID ins,
      it_ConfigVersion = cfg, it_ParentID = in_ParentID ins, it_Path = [], it_Title = in_Title ins,
      it_Body = in_Body ins, it_AssigneeID = in_AssigneeID ins, it_Points = toPgNumeric (in_Points ins),
      it_StartDate = toPgDate (in_StartDate ins), it_DueDate = toPgDate (in_DueDate ins),
      it_Rank = rank, it_Fields = marshalFields (in_Fields ins), it_Version = 1, it_ChangeSeq = seq,
      it_OriginID = in_OriginID ins, it_OriginSeq = Some (coalesce (in_OriginSeq ins) seq),
      it_CreatedAt = 0, it_UpdatedAt = 0, it_DeletedAt = None\<rparr>"

definition applyInsert :: "int \<Rightarrow> Mutation \<Rightarrow> ItemInsert \<Rightarrow> int \<Rightarrow> database \<Rightarrow> store_error + string \<times> database" where
  "applyInsert now m ins seq db =
     rbind (sql (NextItemKey (in_ProjectID ins) db)) (\<lambda>((key, num), db1).
     rbind (insert_path ins db1) (\<lambda>path.
     let cfg = coalesce (in_ConfigVersion ins) (LatestConfigVersion (in_ProjectID ins) db1) in
     rbind (if in_rank ins = [] then rankForNewItem now (in_ProjectID ins) db1 else Inr (in_rank ins, db1)) (\<lambda>(rank, db2).
     rbind (sql (InsertItem now (insert_row m ins key cfg rank seq) path db2)) (\<lambda>(row, db3).
     Inr (path, db3)))))"

definition update_params :: "ItemUpdate \<Rightarrow> int \<Rightarrow> UpdateItemFieldsParams" where
  "update_params up seq =
     \<lparr>up_Title = iu_Title up, up_SetBody = iu_SetBody up, up_Body = iu_Body up,
      up_StatusID = iu_StatusID up, up_ConfigVersion = iu_ConfigVersion up,
      up_SetAssignee = iu_SetAssignee up, up_AssigneeID = iu_AssigneeID up,
      up_SetPoints = iu_SetPoints up, up_Points = toPgNumeric (iu_Points up),
      up_SetStartDate = iu_SetStartDate up, up_StartDate = toPgDate (iu_StartDate up),
      up_SetDueDate = iu_SetDueDate up, up_DueDate = toPgDate (iu_DueDate up),
      up_Rank = iu_Rank up, up_Fields = marshalFieldsPatch (iu_Fields up), up_ChangeSeq = seq, up_ID = iu_ID up\<rparr>"

definition applyUpdate :: "int \<Rightarrow> ItemUpdate \<Rightarrow> int \<Rightarrow> database \<Rightarrow> store_error + string \<times> database" where
  "applyUpdate now up seq db =
     rbind (sql (UpdateItemFields now (update_params up seq) db)) (\<lambda>(row, db').
     Inr (join_dots (it_Path row), db'))"

text \<open>The checks of \<open>applyReparent\<close> on the new parent; the result is the parent's path text.\<close>

definition reparent_target :: "Item \<Rightarrow> ItemReparent \<Rightarrow> database \<Rightarrow> store_error + string" where
  "reparent_target it r db =
     (case rp_NewParentID r of
        None \<Rightarrow> Inr []
      | Some p \<Rightarrow> rbind (sql (GetItem p db)) (\<lambda>parent.
          if it_ProjectID parent \<noteq> it_ProjectID it \<or> it_DeletedAt parent \<noteq> None then Inl ErrInvalidMove
          else if isDescendantOrSelf (join_dots (it_Path parent)) (join_dots (it_Path it)) then Inl ErrInvalidMove
          else Inr (join_dots (it_Path parent))))"

text \<open>
  \<open>SELECT max(nlevel(path))-nlevel($1::ltree)+1 FROM item WHERE path <@ $1::ltree\<close>; a NULL
  cannot be scanned into an \<open>int\<close>.
\<close>

definition subtree_height :: "ltree \<Rightarrow> database \<Rightarrow> store_error + int" where
  "subtree_height p db =
     (case sql_max (map (\<lambda>i. Some (int (length (it_Path i)))) (filter (\<lambda>i. ltree_below (it_Path i) p) (items db))) of
        None \<Rightarrow> Inl (SqlError ScanError)
      | Some h \<Rightarrow> Inr (h - int (length p) + 1))"

definition applyReparent ::
  "int \<Rightarrow> ItemReparent \<Rightarrow> int \<Rightarrow> database \<Rightarrow> store_error + string list \<times> database" where
  "applyReparent now r seq db =
     rbind (sql (GetItem (rp_ID r) db)) (\<lambda>it.
     rbind (reparent_target it r db) (\<lambda>newParentPath.
     rbind (subtree_height (it_Path it) db) (\<lambda>height.
     let depth = (if newParentPath \<noteq> [] then int (count_dots newParentPath) + 1 else 0) in
     if depth + height > 8 then Inl ErrInvalidMove
     else rbind (sql (ReparentSubtree now (rp_ID r) (rp_NewParentID r) newParentPath (join_dots (it_Path it)) seq db)) (\<lambda>(rows, db1).
          let touched = join_dots (it_Path it) # map (\<lambda>row. join_dots (it_Path row)) rows in
          if rp_SetRank r
          then rbind (reparent_rank 2 now it r db1) (\<lambda>db2. Inr (touched, db2))
          else Inr (touched, db1)))))"

definition actorPtr :: "Mutation \<Rightarrow> uuid option" where
  "actorPtr m = (if mu_hasActor m then Some (mu_actorID m) else None)"

record flush_state =
  fs_db :: database
  fs_touched :: "string list"
  fs_itemIDs :: "uuid list"
  fs_created :: "uuid list"
  fs_hardDeled :: "uuid list"

text \<open>\<open>UPDATE item SET version=version+1,change_seq=$2,updated_at=now() WHERE id=$1\<close>.\<close>

definition bump_item :: "int \<Rightarrow> uuid \<Rightarrow> int \<Rightarrow> database \<Rightarrow> store_error + database" where
  "bump_item now u seq db =
     rbind (sql (update_items (\<lambda>i. it_ID i = u)
       (\<lambda>i. i\<lparr>it_Version := it_Version i + 1, it_ChangeSeq := seq, it_UpdatedAt := now\<rparr>) db)) (\<lambda>(_, db'). Inr db')"

text \<open>The switch of \<open>flush\<close> over the kind of change.\<close>

definition apply_op ::
  "int \<Rightarrow> Mutation \<Rightarrow> change \<Rightarrow> int \<Rightarrow> flush_state \<Rightarrow> store_error + flush_state" where
  "apply_op now m c seq st =
     (let db = fs_db st; u = ch_itemID c in
      case ch_op c of
        changeInsert ins \<Rightarrow> rbind (applyInsert now m ins seq db) (\<lambda>(path, db').
          Inr (st\<lparr>fs_db := db', fs_created := fs_created st @ [in_ID ins], fs_touched := fs_touched st @ [path]\<rparr>))
      | changeUpdate up \<Rightarrow> rbind (applyUpdate now up seq db) (\<lambda>(path, db').
          Inr (st\<lparr>fs_db := db', fs_touched := fs_touched st @ [path]\<rparr>))
      | changeReparent r \<Rightarrow> rbind (applyReparent now r seq db) (\<lambda>(paths, db').
          Inr (st\<lparr>fs_db := db', fs_touched := fs_touched st @ paths\<rparr>))
      | changeSoftDelete \<Rightarrow> rbind (sql (SoftDeleteItem now seq u db)) (\<lambda>(row, db').
          Inr (st\<lparr>fs_db := db', fs_touched := fs_touched st @ [join_dots (it_Path row)]\<rparr>))
      | changeHardDelete \<Rightarrow> rbind (sql (GetItem u db)) (\<lambda>row.
          rbind (sql (HardDeleteItem_sql u db)) (\<lambda>(_, db').
          Inr (st\<lparr>fs_db := db', fs_touched := fs_touched st @ [join_dots (it_Path row)],
                  fs_hardDeled := fs_hardDeled st @ [u]\<rparr>)))
      | changeLink l \<Rightarrow> rbind (sql (InsertLink now (lc_ID l) (lc_FromItemID l) (lc_ToItemID l) (lc_Kind l) (actorPtr m) db)) (\<lambda>(_, db').
          rbind (bump_item now u seq db') (\<lambda>db''. Inr (st\<lparr>fs_db := db''\<rparr>)))
      | changeUnlink l \<Rightarrow> rbind (bump_item now u seq (DeleteLink (lc_ID l) db)) (\<lambda>db'. Inr (st\<lparr>fs_db := db'\<rparr>))
      | changeComment cc \<Rightarrow> rbind (applyComment now m cc db) (\<lambda>db'.
          rbind (bump_item now u seq db') (\<lambda>db''. Inr (st\<lparr>fs_db := db''\<rparr>))))"

definition apply_change ::
  "int \<Rightarrow> Mutation \<Rightarrow> (uuid \<Rightarrow> int) \<Rightarrow> flush_state \<Rightarrow> change \<Rightarrow> store_error + flush_state" where
  "apply_change now m itemSeq st c =
     rbind (apply_op now m c (itemSeq (ch_itemID c)) st) (\<lambda>st'.
     Inr (if ch_itemID c \<noteq> 0 then st'\<lparr>fs_itemIDs := fs_itemIDs st' @ [ch_itemID c]\<rparr> else st'))"

subsection \<open>Flush\<close>

fun assign_event_seqs :: "int \<Rightarrow> (uuid \<Rightarrow> int) \<Rightarrow> event list \<Rightarrow> event list \<times> int \<times> (uuid \<Rightarrow> int)" where
  "assign_event_seqs next itemSeq [] = ([], next, itemSeq)"
| "assign_event_seqs next itemSeq (e # es) =
     (let u = ev_itemID e;
          itemSeq' = (if u \<noteq> 0 \<and> next > itemSeq u then itemSeq(u := next) else itemSeq) in
      case assign_event_seqs (next + 1) itemSeq' es of (es', n, s) \<Rightarrow> (e\<lparr>ev_seq := next\<rparr> # es', n, s))"

fun assign_seqs :: "int \<Rightarrow> (uuid \<Rightarrow> int) \<Rightarrow> change list \<Rightarrow> change list \<times> (uuid \<Rightarrow> int)" where
  "assign_seqs next itemSeq [] = ([], itemSeq)"
| "assign_seqs next itemSeq (c # cs) =
     (case assign_event_seqs next itemSeq (ch_events c) of (es, n, s) \<Rightarrow>
      case assign_seqs n s cs of (cs', s') \<Rightarrow> (c\<lparr>ch_events := es\<rparr> # cs', s'))"

definition eventItemUUID :: "event \<Rightarrow> uuid option" where
  "eventItemUUID ev = (if ev_hasItem ev then Some (ev_itemID ev) else None)"

definition eventActorUUID :: "event \<Rightarrow> uuid option" where
  "eventActorUUID ev = (if ev_hasActor ev then Some (ev_actorID ev) else None)"

definition event_row :: "uuid \<Rightarrow> event \<Rightarrow> ChangeEvent" where
  "event_row ws ev =
     \<lparr>ce_WorkspaceID = ws, ce_Seq = ev_seq ev, ce_At = 0, ce_ItemID = eventItemUUID ev,
      ce_ActorID = eventActorUUID ev, ce_Kind = ev_kind ev, ce_Field = ev_field ev,
      ce_OldValue = ev_oldValue ev, ce_NewValue = ev_newValue ev\<rparr>"

text \<open>The version checks; \<open>None\<close> is no row, which conflicts too.\<close>

definition expected_ok :: "uuid \<Rightarrow> database \<Rightarrow> uuid \<times> int \<Rightarrow> bool" where
  "expected_ok ws db e =
     (case find (\<lambda>i. it_ID i = fst e \<and> it_WorkspaceID i = ws \<and> it_DeletedAt i = None) (items db) of
        None \<Rightarrow> False | Some i \<Rightarrow> it_Version i = snd e)"

record Result =
  res_HighestSeq :: int
  res_LowestSeq :: int
  res_EventCount :: nat
  res_ItemIDs :: "uuid list"

definition flush :: "int \<Rightarrow> Mutation \<Rightarrow> database \<Rightarrow> store_error + Result \<times> database" where
  "flush now m db =
     (let n = eventCount m in
      rbind (sql (AllocateSeq (int n) (mu_workspaceID m) db)) (\<lambda>(highest, db1).
      let lowest = highest - int n + 1 in
      rbind (guard_or (list_all (expected_ok (mu_workspaceID m) db1) (mu_expected m)) ErrVersionConflict) (\<lambda>_.
      case assign_seqs lowest (\<lambda>_. 0) (mu_changes m) of (changes, itemSeq) \<Rightarrow>
      rbind (rfold (apply_change now m itemSeq)
               \<lparr>fs_db = db1, fs_touched = mu_touchedPaths m, fs_itemIDs = [], fs_created = [], fs_hardDeled = []\<rparr>
               changes) (\<lambda>st.
      rbind (rfold (\<lambda>d u. sql (InsertRollupRow now u d)) (fs_db st) (fs_created st)) (\<lambda>db2.
      rbind (recomputeRollups now (filter (\<lambda>u. u \<notin> set (fs_hardDeled st)) (dirtyAncestors (fs_touched st))) db2) (\<lambda>db3.
      rbind (rfold (\<lambda>d e. sql (InsertEvent now (event_row (mu_workspaceID m) e) d)) db3 (concat (map ch_events changes))) (\<lambda>db4.
      Inr (\<lparr>res_HighestSeq = highest, res_LowestSeq = lowest, res_EventCount = n,
            res_ItemIDs = fs_itemIDs st\<rparr>, db4))))))))"

subsection \<open>Mutate\<close>

datatype MutateOption = WithActor uuid | WithExpectedVersion uuid int

definition apply_option :: "Mutation \<Rightarrow> MutateOption \<Rightarrow> Mutation" where
  "apply_option m opt =
     (case opt of WithActor u \<Rightarrow> m\<lparr>mu_actorID := u, mu_hasActor := True\<rparr>
      | WithExpectedVersion u v \<Rightarrow> m\<lparr>mu_expected := (u, v) # filter (\<lambda>e. fst e \<noteq> u) (mu_expected m)\<rparr>)"

text \<open>What \<open>Mutate\<close> does before it opens the transaction.\<close>

definition prepare ::
  "uuid \<Rightarrow> (Mutation \<Rightarrow> store_error + Mutation) \<Rightarrow> MutateOption list \<Rightarrow> store_error + Mutation" where
  "prepare ws fn opts =
     rbind (fn (foldl apply_option (empty_mutation ws) opts)) (\<lambda>m.
     case mu_err m of Some e \<Rightarrow> Inl e
     | None \<Rightarrow>
         if mu_changes m = [] then Inl ErrEmpty
         else if list_ex (\<lambda>c. ch_events c = []) (mu_changes m) then Inl ErrNoEvents
         else Inr m)"

text \<open>
  The transaction: the new database when \<open>flush\<close> succeeds, the old one (rollback) otherwise.
\<close>

definition transaction :: "(database \<Rightarrow> 'e + 'a \<times> database) \<Rightarrow> database \<Rightarrow> ('e + 'a) \<times> database" where
  "transaction body db = (case body db of Inl e \<Rightarrow> (Inl e, db) | Inr (x, db') \<Rightarrow> (Inr x, db'))"

definition Mutate ::
  "int \<Rightarrow> uuid \<Rightarrow> (Mutation \<Rightarrow> store_error + Mutation) \<Rightarrow> MutateOption list \<Rightarrow> database \<Rightarrow>
   (store_error + Result) \<times> database" where
  "Mutate now ws fn opts db =
     (case prepare ws fn opts of Inl e \<Rightarrow> (Inl e, db) | Inr m \<Rightarrow> transaction (flush now m) db)"

definition RebalanceProject :: "int \<Rightarrow> uuid \<Rightarrow> uuid \<Rightarrow> database \<Rightarrow> (store_error + nat) \<times> database" where
  "RebalanceProject now ws project db =
     transaction (\<lambda>db.
       let ranks = ListProjectRanks project db in
       rbind (sql (AllocateSeq 1 ws db)) (\<lambda>(seq, db1).
       rbind (rebalanceProjectRanks now project ranks db1) (\<lambda>db2.
       rbind (sql (InsertEvent now \<lparr>ce_WorkspaceID = ws, ce_Seq = seq, ce_At = 0, ce_ItemID = None,
                ce_ActorID = None, ce_Kind = EventFieldChanged, ce_Field = Some ''rank'', ce_OldValue = None,
                ce_NewValue = Some (JObj [(''rebalanced'', JNum (of_nat (length ranks))),
                                          (''project_id'', JStr (uuid_String project))])\<rparr> db2)) (\<lambda>db3.
       Inr (length ranks, db3))))) db"

definition HardDeleteItem :: "int \<Rightarrow> uuid \<Rightarrow> uuid \<Rightarrow> MutateOption list \<Rightarrow> database \<Rightarrow> (store_error + Result) \<times> database" where
  "HardDeleteItem now ws u opts db = Mutate now ws (\<lambda>m. Inr (hardDelete u m)) opts db"

end
