(* ===== verification/Sx_Example.thy ===== *)
theory Sx_Example
  imports Sx_Mutate
begin

text \<open>
  A small concrete store, used by the witnesses: one workspace with one project, two statuses,
  one item type and one configuration version, and the items a few mutations create in it.
\<close>

definition demo_db :: database where
  "demo_db =
     \<lparr>workspaces = [\<lparr>ws_ID = 1, ws_Slug = ''w'', ws_Name = ''W'', ws_OriginID = 7, ws_CreatedAt = 0, ws_Version = 1\<rparr>],
      users = [\<lparr>ua_ID = 9, ua_Email = ''u'', ua_DisplayName = ''U''\<rparr>],
      projects = [\<lparr>pj_ID = 2, pj_WorkspaceID = 1, pj_KeyPrefix = ''SRX'', pj_Name = ''P'', pj_Kind = ''delivery'',
                   pj_NextKeyNum = 1, pj_ArchivedAt = None, pj_OwnerID = None, pj_Version = 1, pj_UpdatedAt = 0\<rparr>],
      configs = [\<lparr>pc_ProjectID = 2, pc_Version = 1, pc_SourceYaml = None, pc_AppliedAt = 0, pc_AppliedBy = None\<rparr>],
      statuses = [\<lparr>st_ID = 3, st_ProjectID = 2, st_Key = ''todo'', st_Name = ''Todo'', st_Category = ''open''\<rparr>,
                  \<lparr>st_ID = 4, st_ProjectID = 2, st_Key = ''done'', st_Name = ''Done'', st_Category = ''done''\<rparr>],
      item_types = [\<lparr>ty_ID = 5, ty_ProjectID = 2, ty_Key = ''story'', ty_Name = ''Story'', ty_Level = 0, ty_IsIdea = False\<rparr>],
      items = [], rollups = [], links = [], comments = [], events = [],
      counters = [\<lparr>sq_WorkspaceID = 1, sq_Value = 0\<rparr>], restrictions = []\<rparr>"

definition demo_insert :: "uuid \<Rightarrow> uuid option \<Rightarrow> ItemInsert" where
  "demo_insert u parent =
     \<lparr>in_ID = u, in_ProjectID = 2, in_ItemTypeID = 5, in_StatusID = 3, in_ParentID = parent,
      in_Title = ''t'', in_Body = None, in_AssigneeID = None, in_Points = Some 2, in_StartDate = None,
      in_DueDate = None, in_Fields = None, in_OriginID = 7, in_OriginSeq = None, in_ConfigVersion = None,
      in_rank = []\<rparr>"

definition demo_create :: "Mutation \<Rightarrow> store_error + Mutation" where
  "demo_create m = Inr (Create 0 (demo_insert 21 (Some 20)) (Create 0 (demo_insert 20 None) m))"

definition demo_result :: "(store_error + Result) \<times> database" where
  "demo_result = Mutate 100 1 demo_create [WithActor 9] demo_db"

text \<open>The store with two items in it, a parent and its child, both worth two points.\<close>

definition demo_item :: "uuid \<Rightarrow> uuid option \<Rightarrow> uuid list \<Rightarrow> string \<Rightarrow> string \<Rightarrow> Item" where
  "demo_item u parent path key rank =
     \<lparr>it_ID = u, it_WorkspaceID = 1, it_ProjectID = 2, it_Key = key, it_ItemTypeID = 5, it_StatusID = 3,
      it_ConfigVersion = 1, it_ParentID = parent, it_Path = map uuid_String path, it_Title = ''t'', it_Body = None,
      it_AssigneeID = None, it_Points = Some 200, it_StartDate = None, it_DueDate = None, it_Rank = rank,
      it_Fields = JObj [], it_Version = 1, it_ChangeSeq = 1, it_OriginID = 7, it_OriginSeq = Some 1,
      it_CreatedAt = 0, it_UpdatedAt = 0, it_DeletedAt = None\<rparr>"

definition demo_tree :: database where
  "demo_tree = demo_db\<lparr>items := [demo_item 20 None [20] ''SRX-1'' ''i'', demo_item 21 (Some 20) [20, 21] ''SRX-2'' ''r'']\<rparr>"

lemma demo_items: "items demo_tree = [demo_item 20 None [20] ''SRX-1'' ''i'', demo_item 21 (Some 20) [20, 21] ''SRX-2'' ''r'']"
  by (simp add: demo_tree_def)

lemma demo_item_simps [simp]:
  "it_ID (demo_item u parent path key rank) = u" "it_ProjectID (demo_item u parent path key rank) = 2"
  "it_WorkspaceID (demo_item u parent path key rank) = 1" "it_Version (demo_item u parent path key rank) = 1"
  "it_ParentID (demo_item u parent path key rank) = parent" "it_DeletedAt (demo_item u parent path key rank) = None"
  "it_Path (demo_item u parent path key rank) = map uuid_String path" "it_Rank (demo_item u parent path key rank) = rank"
  by (simp_all add: demo_item_def)

definition demo_move :: ItemReparent where
  "demo_move = \<lparr>rp_ID = 21, rp_NewParentID = None, rp_SetRank = False, rp_RankAfter = None\<rparr>"

definition demo_stale :: database where
  "demo_stale = demo_tree\<lparr>rollups := [aggregate 0 21 []\<lparr>ru_DescendantCount := 3\<rparr>]\<rparr>"

lemma not_isl_fst: "\<not> isl (fst p) \<Longrightarrow> \<exists>x y. p = (Inr x, y)"
  by (cases p; cases "fst p") auto

text \<open>Two creates succeed in the empty store, and a respread in the one with two items.\<close>

lemma demo_ok: "\<not> isl (fst demo_result)"
  by code_simp

lemma demo_run: obtains res db' where "Mutate 100 1 demo_create [WithActor 9] demo_db = (Inr res, db')"
  using not_isl_fst [OF demo_ok] unfolding demo_result_def by blast

lemma demo_rebalance_ok: "\<not> isl (fst (RebalanceProject 100 1 2 demo_tree))"
  by code_simp

lemma demo_rebalance: obtains n db' where "RebalanceProject 100 1 2 demo_tree = (Inr n, db')"
  using not_isl_fst [OF demo_rebalance_ok] by blast

definition demo_mutation :: "MutateOption list \<Rightarrow> Mutation" where
  "demo_mutation opts =
     Create 0 (demo_insert 21 (Some 20)) (Create 0 (demo_insert 20 None) (foldl apply_option (empty_mutation 1) opts))"

lemma demo_builds: "demo_create m = Inr m' \<Longrightarrow> builds m m'"
  unfolding demo_create_def
  by (drule Inr_inject, erule subst) (meson build_step.create converse_rtranclp_into_rtranclp rtranclp.rtrancl_refl)

lemma demo_changes:
  "mu_changes (Create 0 (demo_insert 21 (Some 20)) (Create 0 (demo_insert 20 None) m)) =
     mu_changes m @ map (\<lambda>ins. \<lparr>ch_op = changeInsert ins, ch_itemID = in_ID ins,
       ch_events = [newEvent m (in_ID ins) EventCreated None None
         (Some (JObj [(''project_id'', JStr (uuid_String 2)), (''title'', JStr ''t'')]))]\<rparr>) [demo_insert 20 None, demo_insert 21 (Some 20)]"
  by (simp add: Create_def demo_insert_def add_change_def newEvent_def)

lemma demo_mutation_simps:
  "eventCount (demo_mutation [WithExpectedVersion 20 3]) = 2" "length (mu_changes (demo_mutation [WithExpectedVersion 20 3])) = 2"
  "prepare 1 demo_create [WithExpectedVersion 20 3] = Inr (demo_mutation [WithExpectedVersion 20 3])"
  by (simp_all add: demo_mutation_def eventCount_def demo_changes prepare_def demo_create_def empty_mutation_def apply_option_def)
     (simp add: Create_def demo_insert_def add_change_def)

end
