(* ===== verification/Sx_Flush.thy ===== *)
theory Sx_Flush
  imports Sx_Example
begin

text \<open>
  What a flush leaves alone and how it numbers its events.  The locale \<open>untouched\<close> states what
  a part of the database must satisfy to be out of reach of every row change; the change log
  and the counters are such a part, so the sequence properties reduce to the allocation at the
  start of \<open>flush\<close> and the event inserts at its end.
\<close>

subsection \<open>Statements and the tables they write\<close>

lemma sql_Inr [result_simps]: "sql r = Inr x \<longleftrightarrow> r = Inr x"
  by (cases r) (simp_all add: sql_def)

lemma sql_Inl [result_simps]: "sql r = Inl e \<longleftrightarrow> (\<exists>s. r = Inl s \<and> e = SqlError s)"
  by (cases r) (auto simp: sql_def)

lemma one_row_Inr [result_simps]:
  "one_row res = Inr (r, db) \<longleftrightarrow> (\<exists>rows. res = Inr (r # rows, db))"
  by (cases res) (auto simp: one_row_def split: list.splits prod.splits)

lemma update_items_Inr:
  "update_items sel f db = Inr (rows, db') \<longleftrightarrow>
     rows = map f (filter sel (items db)) \<and>
     db' = db\<lparr>items := map (\<lambda>i. if sel i then f i else i) (items db)\<rparr> \<and>
     list_all item_ranges_ok rows \<and> list_all item_title_ok rows \<and>
     items_unique (items db') \<and> list_all (item_refs_ok db') rows"
  by (auto simp: update_items_def Let_def result_simps)

lemma HardDelete_Inr:
  "HardDeleteItem_sql u db = Inr (x, db') \<Longrightarrow>
   db' = db\<lparr>items := filter (\<lambda>i. it_ID i \<noteq> u) (items db), rollups := filter (\<lambda>r. ru_ItemID r \<noteq> u) (rollups db)\<rparr>"
  by (auto simp: HardDeleteItem_sql_def split: if_splits)

text \<open>Inversion of the compound operations.\<close>

lemma applyInsertE:
  assumes "applyInsert now m ins seq db = Inr (path, db')"
  obtains key num db1 cfg rank db2 row where
    "NextItemKey (in_ProjectID ins) db = Inr ((key, num), db1)"
    "insert_path ins db1 = Inr path"
    "cfg = coalesce (in_ConfigVersion ins) (LatestConfigVersion (in_ProjectID ins) db1)"
    "(if in_rank ins = [] then rankForNewItem now (in_ProjectID ins) db1 else Inr (in_rank ins, db1)) = Inr (rank, db2)"
    "InsertItem now (insert_row m ins key cfg rank seq) path db2 = Inr (row, db')"
  using assms by (auto simp: applyInsert_def Let_def result_simps split: prod.splits)

lemma applyReparentE:
  assumes "applyReparent now r seq db = Inr (paths, db')"
  obtains it target height rows db1 where
    "find_item db (rp_ID r) = Some it"
    "reparent_target it r db = Inr target"
    "subtree_height (it_Path it) db = Inr height"
    "(if target \<noteq> [] then int (count_dots target) + 1 else 0) + height \<le> 8"
    "ReparentSubtree now (rp_ID r) (rp_NewParentID r) target (join_dots (it_Path it)) seq db = Inr (rows, db1)"
    "paths = join_dots (it_Path it) # map (\<lambda>row. join_dots (it_Path row)) rows"
    "db' = db1 \<or> rp_SetRank r \<and> reparent_rank 2 now it r db1 = Inr db'"
  using assms by (auto simp: applyReparent_def Let_def result_simps GetItem_def not_less split: if_splits)

text \<open>One change, by what it does to the database, the touched paths and the two id lists.\<close>

lemma apply_changeE [consumes 1, case_names insert update reparent softDelete hardDelete link unlink comment]:
  assumes "apply_change now m itemSeq st c = Inr st'"
  obtains
    (insert) ins path db' where "ch_op c = changeInsert ins"
      "applyInsert now m ins (itemSeq (ch_itemID c)) (fs_db st) = Inr (path, db')" "fs_db st' = db'"
      "fs_touched st' = fs_touched st @ [path]" "fs_created st' = fs_created st @ [in_ID ins]"
      "fs_hardDeled st' = fs_hardDeled st"
  | (update) up path db' where "ch_op c = changeUpdate up"
      "applyUpdate now up (itemSeq (ch_itemID c)) (fs_db st) = Inr (path, db')" "fs_db st' = db'"
      "fs_touched st' = fs_touched st @ [path]" "fs_created st' = fs_created st"
      "fs_hardDeled st' = fs_hardDeled st"
  | (reparent) r paths db' where "ch_op c = changeReparent r"
      "applyReparent now r (itemSeq (ch_itemID c)) (fs_db st) = Inr (paths, db')" "fs_db st' = db'"
      "fs_touched st' = fs_touched st @ paths" "fs_created st' = fs_created st"
      "fs_hardDeled st' = fs_hardDeled st"
  | (softDelete) row db' where "ch_op c = changeSoftDelete"
      "SoftDeleteItem now (itemSeq (ch_itemID c)) (ch_itemID c) (fs_db st) = Inr (row, db')" "fs_db st' = db'"
      "fs_touched st' = fs_touched st @ [join_dots (it_Path row)]" "fs_created st' = fs_created st"
      "fs_hardDeled st' = fs_hardDeled st"
  | (hardDelete) row db' where "ch_op c = changeHardDelete" "find_item (fs_db st) (ch_itemID c) = Some row"
      "HardDeleteItem_sql (ch_itemID c) (fs_db st) = Inr ((), db')" "fs_db st' = db'"
      "fs_touched st' = fs_touched st @ [join_dots (it_Path row)]" "fs_created st' = fs_created st"
      "fs_hardDeled st' = fs_hardDeled st @ [ch_itemID c]"
  | (link) l row db' db'' where "ch_op c = changeLink l"
      "InsertLink now (lc_ID l) (lc_FromItemID l) (lc_ToItemID l) (lc_Kind l) (actorPtr m) (fs_db st) = Inr (row, db')"
      "bump_item now (ch_itemID c) (itemSeq (ch_itemID c)) db' = Inr db''" "fs_db st' = db''"
      "fs_touched st' = fs_touched st" "fs_created st' = fs_created st" "fs_hardDeled st' = fs_hardDeled st"
  | (unlink) l db' where "ch_op c = changeUnlink l"
      "bump_item now (ch_itemID c) (itemSeq (ch_itemID c)) (DeleteLink (lc_ID l) (fs_db st)) = Inr db'" "fs_db st' = db'"
      "fs_touched st' = fs_touched st" "fs_created st' = fs_created st" "fs_hardDeled st' = fs_hardDeled st"
  | (comment) cc db' db'' where "ch_op c = changeComment cc"
      "applyComment now m cc (fs_db st) = Inr db'"
      "bump_item now (ch_itemID c) (itemSeq (ch_itemID c)) db' = Inr db''" "fs_db st' = db''"
      "fs_touched st' = fs_touched st" "fs_created st' = fs_created st" "fs_hardDeled st' = fs_hardDeled st"
proof (cases "ch_op c")
  case (changeInsert ins)
  then show thesis using assms insert by (auto simp: apply_change_def apply_op_def Let_def result_simps split: if_splits)
next
  case (changeUpdate up)
  then show thesis using assms update by (auto simp: apply_change_def apply_op_def Let_def result_simps split: if_splits)
next
  case (changeReparent r)
  then show thesis using assms reparent by (auto simp: apply_change_def apply_op_def Let_def result_simps split: if_splits)
next
  case changeSoftDelete
  then show thesis using assms softDelete by (auto simp: apply_change_def apply_op_def Let_def result_simps split: if_splits)
next
  case changeHardDelete
  then show thesis using assms hardDelete by (auto simp: apply_change_def apply_op_def Let_def result_simps GetItem_def split: if_splits)
next
  case (changeLink l)
  then show thesis using assms link by (auto simp: apply_change_def apply_op_def Let_def result_simps split: if_splits)
next
  case (changeUnlink l)
  then show thesis using assms unlink by (auto simp: apply_change_def apply_op_def Let_def result_simps split: if_splits)
next
  case (changeComment cc)
  then show thesis using assms comment by (auto simp: apply_change_def apply_op_def Let_def result_simps split: if_splits)
qed

lemmas statement_defs = applyInsert_def applyUpdate_def applyReparent_def SoftDeleteItem_def
  UpdateItemFields_def ReparentSubtree_def InsertItem_def NextItemKey_def HardDeleteItem_sql_def
  InsertLink_def DeleteLink_def applyComment_def bump_item_def rankForNewItem_def
  rebalanceProjectRanks_def SetProjectRanks_def update_items_Inr

locale untouched =
  fixes part :: "database \<Rightarrow> 'a"
  assumes items: "part (db\<lparr>items := x1\<rparr>) = part db"
    and rollups: "part (db\<lparr>rollups := x2\<rparr>) = part db"
    and links: "part (db\<lparr>links := x3\<rparr>) = part db"
    and comments: "part (db\<lparr>comments := x4\<rparr>) = part db"
    and projects: "part (db\<lparr>projects := x5\<rparr>) = part db"
begin

lemmas frames = items rollups links comments projects

lemma update_items_frame: "update_items sel f db = Inr (rows, db') \<Longrightarrow> part db' = part db"
  by (auto simp: update_items_Inr frames)

lemma rebalance_frame: "rebalanceProjectRanks now p ranks db = Inr db' \<Longrightarrow> part db' = part db"
  by (auto simp: rebalanceProjectRanks_def SetProjectRanks_def result_simps frames
      split: if_splits dest: update_items_frame)

lemma rankForNewItem_frame: "rankForNewItem now p db = Inr (r, db') \<Longrightarrow> part db' = part db"
  by (auto simp: rankForNewItem_def Let_def result_simps split: if_splits dest: rebalance_frame)

lemma reparent_rank_frame: "reparent_rank n now it r db = Inr db' \<Longrightarrow> part db' = part db"
proof (induction n arbitrary: db)
  case (Suc n)
  then show ?case
    by (auto simp: Let_def result_simps split: if_splits prod.splits
        dest!: rebalance_frame update_items_frame)
qed simp

lemma applyInsert_frame:
  assumes "applyInsert now m ins seq db = Inr (path, db')"
  shows "part db' = part db"
  using assms
proof (rule applyInsertE)
  fix key num db1 cfg rank db2 row
  assume 1: "NextItemKey (in_ProjectID ins) db = Inr ((key, num), db1)"
    and 2: "(if in_rank ins = [] then rankForNewItem now (in_ProjectID ins) db1 else Inr (in_rank ins, db1)) = Inr (rank, db2)"
    and 3: "InsertItem now (insert_row m ins key cfg rank seq) path db2 = Inr (row, db')"
  have "part db1 = part db" using 1 by (auto simp: NextItemKey_def Let_def result_simps frames)
  moreover have "part db2 = part db1" using 2 by (auto split: if_splits dest: rankForNewItem_frame)
  moreover have "part db' = part db2" using 3 by (auto simp: InsertItem_def Let_def result_simps frames)
  ultimately show ?thesis by simp
qed

lemma applyReparent_frame:
  assumes "applyReparent now r seq db = Inr (paths, db')"
  shows "part db' = part db"
  using assms
proof (rule applyReparentE)
  fix it target height rows db1
  assume 1: "ReparentSubtree now (rp_ID r) (rp_NewParentID r) target (join_dots (it_Path it)) seq db = Inr (rows, db1)"
    and 2: "db' = db1 \<or> rp_SetRank r \<and> reparent_rank 2 now it r db1 = Inr db'"
  have "part db1 = part db" using 1
    by (auto simp: ReparentSubtree_def Let_def result_simps dest: update_items_frame)
  then show ?thesis using 2 reparent_rank_frame by metis
qed

lemma bump_item_frame: "bump_item now u seq db = Inr db' \<Longrightarrow> part db' = part db"
  by (auto simp: bump_item_def result_simps dest: update_items_frame)

lemma applyComment_frame: "applyComment now m c db = Inr db' \<Longrightarrow> part db' = part db"
  by (auto simp: applyComment_def Let_def result_simps frames split: if_splits)

lemma apply_change_frame:
  assumes "apply_change now m itemSeq st c = Inr st'"
  shows "part (fs_db st') = part (fs_db st)"
  using assms
proof (cases rule: apply_changeE)
  case insert then show ?thesis using applyInsert_frame by auto
next
  case update then show ?thesis
    by (auto simp: applyUpdate_def UpdateItemFields_def result_simps dest: update_items_frame)
next
  case reparent then show ?thesis using applyReparent_frame by auto
next
  case softDelete then show ?thesis by (auto simp: SoftDeleteItem_def result_simps dest: update_items_frame)
next
  case (hardDelete row db')
  then show ?thesis by (simp add: frames HardDelete_Inr [OF hardDelete(3)])
next
  case link then show ?thesis
    by (auto simp: InsertLink_def Let_def result_simps frames dest: bump_item_frame)
next
  case unlink then show ?thesis by (auto simp: DeleteLink_def frames dest: bump_item_frame)
next
  case (comment cc db' db'')
  then show ?thesis using bump_item_frame [OF comment(3)] applyComment_frame [OF comment(2)] by simp
qed

lemma apply_changes_frame:
  "rfold (apply_change now m itemSeq) st cs = Inr st' \<Longrightarrow> part (fs_db st') = part (fs_db st)"
  by (rule rfold_invariant [where P = "\<lambda>s. part (fs_db s) = part (fs_db st)"])
     (auto dest: apply_change_frame)

lemma insert_rollups_frame:
  "rfold (\<lambda>d u. sql (InsertRollupRow now u d)) db us = Inr db' \<Longrightarrow> part db' = part db"
  by (rule rfold_invariant [where P = "\<lambda>d. part d = part db"])
     (auto simp: InsertRollupRow_def result_simps frames split: if_splits)

lemma recompute_frame: "recomputeRollups now us db = Inr db' \<Longrightarrow> part db' = part db"
  unfolding recomputeRollups_def
  by (rule rfold_invariant [where P = "\<lambda>d. part d = part db"])
     (auto simp: RecomputeRollup_def Let_def result_simps frames)

end

definition settled_part :: "database \<Rightarrow> Workspace list \<times> UserAccount list \<times> ProjectConfig list \<times> Status list \<times>
    ItemType list \<times> ChangeEvent list \<times> SeqCounter list \<times> OperatorContentRestriction list" where
  "settled_part db = (workspaces db, users db, configs db, statuses db, item_types db, events db,
     counters db, restrictions db)"

interpretation settled: untouched settled_part
  by unfold_locales (simp_all add: settled_part_def)

subsection \<open>Numbering\<close>

definition all_events :: "change list \<Rightarrow> event list" where
  "all_events cs = concat (map ch_events cs)"

definition unnumbered :: "event \<Rightarrow> event" where
  "unnumbered e = e\<lparr>ev_seq := 0\<rparr>"

lemma eventCount_all_events: "eventCount m = length (all_events (mu_changes m))"
  by (simp add: eventCount_def all_events_def length_concat o_def)

lemma upto_Cons: "[a..a + int (Suc n) - 1] = a # [a + 1..a + 1 + int n - 1]"
  by (subst upto_rec1) (simp_all add: algebra_simps)

lemma assign_event_seqs_numbers:
  "assign_event_seqs k s es = (es', k', s') \<Longrightarrow>
   k' = k + int (length es) \<and> map ev_seq es' = [k..k + int (length es) - 1] \<and>
   map unnumbered es' = map unnumbered es"
proof (induction es arbitrary: k s es' k' s')
  case (Cons e es)
  define s1 where "s1 = (if ev_itemID e \<noteq> 0 \<and> k > s (ev_itemID e) then s(ev_itemID e := k) else s)"
  obtain es2 n2 s2 where r: "assign_event_seqs (k + 1) s1 es = (es2, n2, s2)" by (metis prod_cases3)
  then have "es' = e\<lparr>ev_seq := k\<rparr> # es2" "k' = n2" using Cons.prems by (simp_all add: s1_def Let_def)
  then show ?case using Cons.IH [OF r] upto_Cons [of k "length es"] by (simp add: unnumbered_def)
qed simp

lemma upto_append: "[k..k + int m - 1] @ [k + int m..k + int m + int n - 1] = [k..k + int (m + n) - 1]"
proof (cases n)
  case (Suc n')
  then show ?thesis using upto_split1 [of k "k + int m" "k + int (m + n) - 1"] by (simp add: algebra_simps)
qed simp

lemma assign_seqs_numbers:
  "assign_seqs k s cs = (cs', s') \<Longrightarrow>
   map ev_seq (all_events cs') = [k..k + int (length (all_events cs)) - 1] \<and>
   map unnumbered (all_events cs') = map unnumbered (all_events cs) \<and>
   map (\<lambda>c. (ch_op c, ch_itemID c)) cs' = map (\<lambda>c. (ch_op c, ch_itemID c)) cs"
proof (induction cs arbitrary: k s cs' s')
  case (Cons c cs)
  obtain es n s1 where es: "assign_event_seqs k s (ch_events c) = (es, n, s1)" by (metis prod_cases3)
  obtain cs2 s2 where cs: "assign_seqs n s1 cs = (cs2, s2)" by (metis surj_pair)
  have "cs' = c\<lparr>ch_events := es\<rparr> # cs2" using Cons.prems es cs by simp
  then show ?case using Cons.IH [OF cs] assign_event_seqs_numbers [OF es]
      upto_append [of k "length (ch_events c)" "length (all_events cs)"]
    by (simp add: all_events_def)
qed (simp add: all_events_def)

text \<open>The item sequence is the number of the item's last event.\<close>

definition last_seq :: "uuid \<Rightarrow> event list \<Rightarrow> int \<Rightarrow> int" where
  "last_seq u es d = (let mine = filter (\<lambda>e. ev_itemID e = u) es in if mine = [] then d else ev_seq (last mine))"

lemma assign_event_seqs_itemSeq:
  assumes "assign_event_seqs k s es = (es', k', s')" "\<forall>u. s u < k" "u \<noteq> 0"
  shows "s' u = last_seq u es' (s u) \<and> (\<forall>u. s' u < k')"
  using assms
proof (induction es arbitrary: k s es' k' s')
  case (Cons e es)
  define s1 where "s1 = (if ev_itemID e \<noteq> 0 \<and> k > s (ev_itemID e) then s(ev_itemID e := k) else s)"
  obtain es2 n2 s2 where r: "assign_event_seqs (k + 1) s1 es = (es2, n2, s2)" by (metis prod_cases3)
  have eq: "es' = e\<lparr>ev_seq := k\<rparr> # es2" "k' = n2" "s' = s2"
    using Cons.prems(1) r by (simp_all add: s1_def Let_def)
  have lt: "\<forall>u. s1 u < k + 1" using Cons.prems(2) by (auto simp: s1_def less_imp_le intro: le_less_trans)
  have "s1 u = (if ev_itemID e = u then k else s u)" using Cons.prems(2,3) by (auto simp: s1_def)
  then show ?case using Cons.IH [OF r lt Cons.prems(3)] eq by (auto simp: last_seq_def Let_def)
qed (simp add: last_seq_def)

lemma assign_seqs_itemSeq:
  assumes "assign_seqs k s cs = (cs', s')" "\<forall>u. s u < k" "u \<noteq> 0"
  shows "s' u = last_seq u (all_events cs') (s u)"
  using assms
proof (induction cs arbitrary: k s cs' s')
  case (Cons c cs)
  obtain es n s1 where es: "assign_event_seqs k s (ch_events c) = (es, n, s1)" by (metis prod_cases3)
  obtain cs2 s2 where cs: "assign_seqs n s1 cs = (cs2, s2)" by (metis surj_pair)
  have "s1 u = last_seq u es (s u)" "\<forall>u. s1 u < n"
    using assign_event_seqs_itemSeq [OF es Cons.prems(2,3)] by auto
  moreover have "s2 u = last_seq u (all_events cs2) (s1 u)"
    using Cons.IH [OF cs] calculation(2) Cons.prems(3) by blast
  ultimately show ?case using Cons.prems(1) es cs
    by (auto simp: all_events_def last_seq_def Let_def)
qed (simp add: all_events_def last_seq_def)

subsection \<open>The phases of a flush\<close>

lemma flushE:
  assumes "flush now m db = Inr (res, db')"
  obtains highest db1 changes itemSeq st db2 db3 where
    "AllocateSeq (int (eventCount m)) (mu_workspaceID m) db = Inr (highest, db1)"
    "list_all (expected_ok (mu_workspaceID m) db1) (mu_expected m)"
    "assign_seqs (highest - int (eventCount m) + 1) (\<lambda>_. 0) (mu_changes m) = (changes, itemSeq)"
    "rfold (apply_change now m itemSeq)
       \<lparr>fs_db = db1, fs_touched = mu_touchedPaths m, fs_itemIDs = [], fs_created = [], fs_hardDeled = []\<rparr>
       changes = Inr st"
    "rfold (\<lambda>d u. sql (InsertRollupRow now u d)) (fs_db st) (fs_created st) = Inr db2"
    "recomputeRollups now (filter (\<lambda>u. u \<notin> set (fs_hardDeled st)) (dirtyAncestors (fs_touched st))) db2 = Inr db3"
    "rfold (\<lambda>d e. sql (InsertEvent now (event_row (mu_workspaceID m) e) d)) db3 (all_events changes) = Inr db'"
    "res = \<lparr>res_HighestSeq = highest, res_LowestSeq = highest - int (eventCount m) + 1,
            res_EventCount = eventCount m, res_ItemIDs = fs_itemIDs st\<rparr>"
proof -
  obtain highest db1 where alloc: "AllocateSeq (int (eventCount m)) (mu_workspaceID m) db = Inr (highest, db1)"
    using assms by (auto simp: flush_def Let_def result_simps)
  obtain changes itemSeq where num:
    "assign_seqs (highest - int (eventCount m) + 1) (\<lambda>_. 0) (mu_changes m) = (changes, itemSeq)"
    by (metis surj_pair)
  show thesis
    using assms alloc num that [OF alloc _ num]
    by (auto simp: flush_def Let_def result_simps all_events_def)
qed

lemma AllocateSeq_Inr:
  "AllocateSeq n ws db = Inr (v, db') \<longleftrightarrow>
   (\<exists>c. find (\<lambda>c. sq_WorkspaceID c = ws) (counters db) = Some c \<and> v = sq_Value c + n \<and> int8_ok v \<and>
     db' = db\<lparr>counters := map (\<lambda>x. if sq_WorkspaceID x = ws then x\<lparr>sq_Value := v\<rparr> else x) (counters db)\<rparr>)"
  by (auto simp: AllocateSeq_def Let_def result_simps)

definition stamped :: "int \<Rightarrow> uuid \<Rightarrow> event \<Rightarrow> ChangeEvent" where
  "stamped now ws e = (event_row ws e)\<lparr>ce_At := now\<rparr>"

lemma insert_events_Inr:
  "rfold (\<lambda>d e. sql (InsertEvent now (event_row ws e) d)) db es = Inr db' \<Longrightarrow>
   db' = db\<lparr>events := events db @ map (stamped now ws) es\<rparr>"
proof (induction es arbitrary: db)
  case (Cons e es)
  obtain d where "InsertEvent now (event_row ws e) db = Inr d"
    and rest: "rfold (\<lambda>d e. sql (InsertEvent now (event_row ws e) d)) d es = Inr db'"
    using Cons.prems by (auto simp: result_simps)
  then have "d = db\<lparr>events := events db @ [stamped now ws e]\<rparr>"
    by (auto simp: InsertEvent_def Let_def result_simps stamped_def)
  then show ?case using Cons.IH [OF rest] by simp
qed simp

text \<open>The effect of a successful flush on the log and the counters.\<close>

lemma flush_log:
  assumes "flush now m db = Inr (res, db')"
  obtains es c where
    "find (\<lambda>c. sq_WorkspaceID c = mu_workspaceID m) (counters db) = Some c"
    "events db' = events db @ map (stamped now (mu_workspaceID m)) es"
    "counters db' = map (\<lambda>x. if sq_WorkspaceID x = mu_workspaceID m then x\<lparr>sq_Value := res_HighestSeq res\<rparr> else x) (counters db)"
    "map unnumbered es = map unnumbered (all_events (mu_changes m))"
    "map ev_seq es = [res_LowestSeq res..res_HighestSeq res]"
    "res_LowestSeq res = sq_Value c + 1"
    "res_HighestSeq res = sq_Value c + int (length es)"
    "res_EventCount res = length es" "int8_ok (res_HighestSeq res)"
  using assms
proof (rule flushE)
  fix highest db1 changes itemSeq st db2 db3
  assume 1: "AllocateSeq (int (eventCount m)) (mu_workspaceID m) db = Inr (highest, db1)"
    and 3: "assign_seqs (highest - int (eventCount m) + 1) (\<lambda>_. 0) (mu_changes m) = (changes, itemSeq)"
    and 4: "rfold (apply_change now m itemSeq)
       \<lparr>fs_db = db1, fs_touched = mu_touchedPaths m, fs_itemIDs = [], fs_created = [], fs_hardDeled = []\<rparr>
       changes = Inr st"
    and 5: "rfold (\<lambda>d u. sql (InsertRollupRow now u d)) (fs_db st) (fs_created st) = Inr db2"
    and 6: "recomputeRollups now (filter (\<lambda>u. u \<notin> set (fs_hardDeled st)) (dirtyAncestors (fs_touched st))) db2 = Inr db3"
    and 7: "rfold (\<lambda>d e. sql (InsertEvent now (event_row (mu_workspaceID m) e) d)) db3 (all_events changes) = Inr db'"
    and res: "res = \<lparr>res_HighestSeq = highest, res_LowestSeq = highest - int (eventCount m) + 1,
            res_EventCount = eventCount m, res_ItemIDs = fs_itemIDs st\<rparr>"
  have "settled_part db3 = settled_part db1"
    using settled.apply_changes_frame [OF 4] settled.insert_rollups_frame [OF 5] settled.recompute_frame [OF 6] by simp
  then have frame: "events db3 = events db1" "counters db3 = counters db1" by (simp_all add: settled_part_def)
  note num = assign_seqs_numbers [OF 3]
  have len: "length (all_events changes) = eventCount m"
    using num by (metis eventCount_all_events length_map)
  obtain c where c: "find (\<lambda>c. sq_WorkspaceID c = mu_workspaceID m) (counters db) = Some c"
    "highest = sq_Value c + int (eventCount m)" "int8_ok highest"
    "db1 = db\<lparr>counters := map (\<lambda>x. if sq_WorkspaceID x = mu_workspaceID m then x\<lparr>sq_Value := highest\<rparr> else x) (counters db)\<rparr>"
    using 1 by (auto simp: AllocateSeq_Inr)
  show thesis
    by (rule that [of c "all_events changes"])
       (use c frame num len res insert_events_Inr [OF 7] in \<open>auto simp: eventCount_all_events [symmetric]\<close>)
qed

subsection \<open>The gap-free log\<close>

text \<open>
  The log of every workspace is numbered 1, 2, 3, ... up to its counter, in the order in which
  the rows were written.
\<close>

definition log_of :: "uuid \<Rightarrow> database \<Rightarrow> ChangeEvent list" where
  "log_of ws db = filter (\<lambda>e. ce_WorkspaceID e = ws) (events db)"

definition log_ok :: "database \<Rightarrow> bool" where
  "log_ok db = (distinct (map sq_WorkspaceID (counters db)) \<and>
     list_all (\<lambda>c. map ce_Seq (log_of (sq_WorkspaceID c) db) = [1..sq_Value c] \<and> 0 \<le> sq_Value c) (counters db) \<and>
     list_all (\<lambda>e. ce_WorkspaceID e \<in> sq_WorkspaceID ` set (counters db)) (events db))"

lemma find_distinct_map:
  assumes "distinct (map f xs)"
  shows "find (\<lambda>x. f x = u) xs = Some x \<longleftrightarrow> x \<in> set xs \<and> f x = u"
  using assms by (induction xs) auto

lemma find_Some_in: "find P xs = Some x \<Longrightarrow> x \<in> set xs \<and> P x"
  by (auto simp: find_Some_iff)

lemma log_ok_extend:
  assumes ok: "log_ok db" and c: "find (\<lambda>c. sq_WorkspaceID c = ws) (counters db) = Some c"
    and ev: "events db' = events db @ new" and ws: "list_all (\<lambda>e. ce_WorkspaceID e = ws) new"
    and seq: "map ce_Seq new = [sq_Value c + 1..h]" and h: "h = sq_Value c + int (length new)"
    and cnt: "counters db' = map (\<lambda>x. if sq_WorkspaceID x = ws then x\<lparr>sq_Value := h\<rparr> else x) (counters db)"
  shows "log_ok db'"
proof -
  have dist: "distinct (map sq_WorkspaceID (counters db))" using ok by (simp add: log_ok_def)
  have ids: "map sq_WorkspaceID (counters db') = map sq_WorkspaceID (counters db)" by (simp add: cnt)
  have c_in: "c \<in> set (counters db)" "sq_WorkspaceID c = ws" using c find_distinct_map [OF dist] by auto
  have "filter (\<lambda>e. ce_WorkspaceID e = w) new = (if w = ws then new else [])" for w
    using ws by (induction new) auto
  then have log: "log_of w db' = log_of w db @ (if w = ws then new else [])" for w
    by (simp add: log_of_def ev)
  have old: "map ce_Seq (log_of ws db) = [1..sq_Value c]" "0 \<le> sq_Value c"
    using ok c_in by (auto simp: log_ok_def list_all_iff)
  have "[1..sq_Value c] @ [sq_Value c + 1..h] = [1..h]"
    using upto_append [of 1 "nat (sq_Value c)" "length new"] old(2) h by (simp add: add.commute)
  then have mine: "map ce_Seq (log_of ws db') = [1..h]" by (simp add: log old seq)
  have "map ce_Seq (log_of (sq_WorkspaceID x) db') = [1..sq_Value x] \<and> 0 \<le> sq_Value x"
    if x: "x \<in> set (counters db')" for x
  proof (cases "sq_WorkspaceID x = ws")
    case True
    obtain y where "x = (if sq_WorkspaceID y = ws then y\<lparr>sq_Value := h\<rparr> else y)" using x unfolding cnt set_map by blast
    then have "sq_Value x = h" using True by (simp split: if_splits)
    moreover have "0 \<le> h" using h old(2) by linarith
    ultimately show ?thesis using True mine by metis
  next
    case False
    obtain y where "y \<in> set (counters db)" "x = (if sq_WorkspaceID y = ws then y\<lparr>sq_Value := h\<rparr> else y)"
      using x unfolding cnt set_map by blast
    then have "x \<in> set (counters db)" using False by (simp split: if_splits)
    then show ?thesis using False ok by (simp add: log log_ok_def list_all_iff)
  qed
  moreover have "ce_WorkspaceID e \<in> sq_WorkspaceID ` set (counters db')" if "e \<in> set (events db')" for e
  proof -
    have "sq_WorkspaceID ` set (counters db') = sq_WorkspaceID ` set (counters db)"
      using ids by (metis list.set_map)
    then show ?thesis using that ok ws c_in by (auto simp: ev log_ok_def list_all_iff)
  qed
  ultimately show ?thesis using dist ids by (simp add: log_ok_def list_all_iff)
qed

lemma stamped_simps [simp]:
  "ce_WorkspaceID (stamped now ws e) = ws" "ce_Seq (stamped now ws e) = ev_seq e" "ce_At (stamped now ws e) = now"
  by (simp_all add: stamped_def event_row_def)

lemma flush_log_ok:
  assumes "log_ok db" and "flush now m db = Inr (res, db')"
  shows "log_ok db'"
  using assms(2)
proof (rule flush_log)
  fix es c
  assume *: "find (\<lambda>c. sq_WorkspaceID c = mu_workspaceID m) (counters db) = Some c"
    "events db' = events db @ map (stamped now (mu_workspaceID m)) es"
    "counters db' = map (\<lambda>x. if sq_WorkspaceID x = mu_workspaceID m then x\<lparr>sq_Value := res_HighestSeq res\<rparr> else x) (counters db)"
    "map ev_seq es = [res_LowestSeq res..res_HighestSeq res]" "res_LowestSeq res = sq_Value c + 1"
    "res_HighestSeq res = sq_Value c + int (length es)"
  show ?thesis
    by (rule log_ok_extend [OF assms(1) *(1,2) _ _ _ *(3)])
       (use * in \<open>simp_all add: list_all_iff o_def\<close>)
qed

lemma Mutate_Inr:
  "Mutate now ws fn opts db = (Inr res, db') \<longleftrightarrow>
   (\<exists>m. prepare ws fn opts = Inr m \<and> flush now m db = Inr (res, db'))"
  by (auto simp: Mutate_def transaction_def split: sum.splits)

lemma Mutate_Inl: "Mutate now ws fn opts db = (Inl e, db') \<Longrightarrow> db' = db"
  by (auto simp: Mutate_def transaction_def split: sum.splits)

lemma prepare_Inr:
  "prepare ws fn opts = Inr m \<longleftrightarrow>
   fn (foldl apply_option (empty_mutation ws) opts) = Inr m \<and> mu_err m = None \<and> mu_changes m \<noteq> [] \<and>
   list_all (\<lambda>c. ch_events c \<noteq> []) (mu_changes m)"
  by (auto simp: prepare_def result_simps list_all_iff list_ex_iff split: option.splits if_splits)

text \<open>A callback that only calls builders, as every caller of \<open>Mutate\<close> does.\<close>

definition builder_callback :: "(Mutation \<Rightarrow> store_error + Mutation) \<Rightarrow> bool" where
  "builder_callback fn = (\<forall>m m'. fn m = Inr m' \<longrightarrow> builds m m')"

lemma build_step_header:
  "build_step m m' \<Longrightarrow> mu_workspaceID m' = mu_workspaceID m \<and> mu_expected m' = mu_expected m \<and>
     mu_touchedPaths m' = mu_touchedPaths m"
  by (cases rule: build_step.cases) (auto simp: builder_defs fieldEvent_def split: sum.splits if_splits)

lemma builds_header:
  "builds m m' \<Longrightarrow> mu_workspaceID m' = mu_workspaceID m \<and> mu_expected m' = mu_expected m \<and>
     mu_touchedPaths m' = mu_touchedPaths m"
  by (induction rule: rtranclp_induct) (auto dest: build_step_header)

lemma foldl_apply_option:
  "mu_workspaceID (foldl apply_option m opts) = mu_workspaceID m \<and>
   mu_touchedPaths (foldl apply_option m opts) = mu_touchedPaths m \<and>
   mu_changes (foldl apply_option m opts) = mu_changes m"
  by (induction opts arbitrary: m) (auto simp: apply_option_def split: MutateOption.splits)

lemma prepare_header:
  assumes "builder_callback fn" "prepare ws fn opts = Inr m"
  shows "mu_workspaceID m = ws" "mu_touchedPaths m = []"
    "mu_expected m = mu_expected (foldl apply_option (empty_mutation ws) opts)"
  using assms builds_header foldl_apply_option [of "empty_mutation ws" opts]
  by (fastforce simp: builder_callback_def prepare_Inr empty_mutation_def)+

subsection \<open>Properties\<close>

lemma demo_log_ok: "log_ok demo_db"
  by (simp add: log_ok_def log_of_def demo_db_def)

lemma demo_callback: "builder_callback demo_create"
  by (simp add: builder_callback_def demo_builds)

text \<open>
  C1.  The change log is gap-free and commit-ordered: when the log of every workspace is
  numbered 1, 2, 3, ... up to its counter, a successful \<open>Mutate\<close> appends exactly the events
  of its changes, in registration order, numbered consecutively from one above the counter,
  reports the ends of that block, and leaves every log numbered 1 up to its counter.
\<close>

theorem Mutate_gap_free:
  assumes "log_ok db" and "builder_callback fn" and "Mutate now ws fn opts db = (Inr res, db')"
  shows "log_ok db' \<and>
    (\<exists>m es. prepare ws fn opts = Inr m \<and> es \<noteq> [] \<and>
       log_of ws db' = log_of ws db @ map (stamped now ws) es \<and>
       map unnumbered es = map unnumbered (all_events (mu_changes m)) \<and>
       map ev_seq es = [res_LowestSeq res..res_HighestSeq res] \<and>
       res_LowestSeq res = int (length (log_of ws db)) + 1 \<and> res_EventCount res = length es)"
proof -
  obtain m where m: "prepare ws fn opts = Inr m" "flush now m db = Inr (res, db')"
    using assms(3) by (auto simp: Mutate_Inr)
  have ws: "mu_workspaceID m = ws" using prepare_header(1) [OF assms(2) m(1)] .
  obtain es c where log: "find (\<lambda>c. sq_WorkspaceID c = mu_workspaceID m) (counters db) = Some c"
    "events db' = events db @ map (stamped now (mu_workspaceID m)) es"
    "map unnumbered es = map unnumbered (all_events (mu_changes m))"
    "map ev_seq es = [res_LowestSeq res..res_HighestSeq res]"
    "res_LowestSeq res = sq_Value c + 1" "res_EventCount res = length es"
    using m(2) by (rule flush_log)
  have "c \<in> set (counters db)" "sq_WorkspaceID c = ws" using find_Some_in [OF log(1)] ws by auto
  then have "map ce_Seq (log_of ws db) = [1..sq_Value c]" "0 \<le> sq_Value c"
    using assms(1) by (auto simp: log_ok_def list_all_iff)
  then have "length (log_of ws db) = length [1..sq_Value c]" by (metis length_map)
  then have "int (length (log_of ws db)) = sq_Value c" using \<open>0 \<le> sq_Value c\<close> by simp
  moreover have "all_events (mu_changes m) \<noteq> []"
    using m(1) by (auto simp: prepare_Inr all_events_def list_all_iff neq_Nil_conv)
  then have "es \<noteq> []" using log(3) by auto
  moreover have "log_of ws db' = log_of ws db @ map (stamped now ws) es"
    using log(2) ws by (simp add: log_of_def filter_map o_def)
  ultimately show ?thesis using flush_log_ok [OF assms(1) m(2)] m(1) log by auto
qed

theorem Mutate_gap_free_witness:
  "\<exists>res db'. Mutate 100 1 demo_create [WithActor 9] demo_db = (Inr res, db') \<and> log_ok db' \<and> log_of 1 db' \<noteq> []"
proof -
  obtain res db' where "Mutate 100 1 demo_create [WithActor 9] demo_db = (Inr res, db')" by (rule demo_run)
  with Mutate_gap_free [OF demo_log_ok demo_callback this] show ?thesis by auto
qed

text \<open>
  C7.  Optimistic concurrency: if the caller expects a version of an item that is not the
  current version of a live item of the workspace, and the sequence can be allocated, the
  mutation fails with \<open>ErrVersionConflict\<close>.  Whatever the error of a mutation, the database
  is unchanged.
\<close>

theorem Mutate_version_conflict:
  assumes "builder_callback fn" and "prepare ws fn opts = Inr m"
    and "(u, v) \<in> set (mu_expected (foldl apply_option (empty_mutation ws) opts))"
    and "\<not> (\<exists>i \<in> set (items db). it_ID i = u \<and> it_WorkspaceID i = ws \<and> it_DeletedAt i = None \<and> it_Version i = v)"
    and "find (\<lambda>c. sq_WorkspaceID c = ws) (counters db) = Some c"
    and "int8_ok (sq_Value c + int (eventCount m))"
  shows "Mutate now ws fn opts db = (Inl ErrVersionConflict, db)"
proof -
  note h = prepare_header [OF assms(1,2)]
  obtain highest db1 where alloc: "AllocateSeq (int (eventCount m)) ws db = Inr (highest, db1)" "items db1 = items db"
    using assms(5,6) by (auto simp: AllocateSeq_Inr)
  have "\<not> expected_ok ws db1 (u, v)"
    using assms(4) alloc(2) by (auto simp: expected_ok_def find_Some_iff split: option.splits)
  then have "\<not> list_all (expected_ok ws db1) (mu_expected m)" using assms(3) h(3) by (auto simp: list_all_iff)
  then have "flush now m db = Inl ErrVersionConflict"
    using alloc h(1) by (simp add: flush_def sql_def guard_or_def)
  then show ?thesis using assms(2) by (simp add: Mutate_def transaction_def)
qed

theorem Mutate_version_conflict_witness:
  "Mutate 100 1 demo_create [WithExpectedVersion 20 3] demo_db = (Inl ErrVersionConflict, demo_db)"
  by (rule Mutate_version_conflict [OF demo_callback demo_mutation_simps(3), of 20 3 _ "\<lparr>sq_WorkspaceID = 1, sq_Value = 0\<rparr>"])
     (simp_all add: demo_mutation_simps empty_mutation_def apply_option_def demo_db_def int8_ok_def)

end
