(* ===== verification/Sx_Tree.thy ===== *)
theory Sx_Tree
  imports Sx_Flush
begin

text \<open>
  The item hierarchy.  Paths and parents describe the same forest: a root's path is its own
  id, a child's path is its parent's path followed by its own id, a parent lies in the same
  project, and no path has more than eight labels.  Every operation of the store keeps this,
  and the checks of \<open>applyReparent\<close> in Go already imply what the database trigger tests.
\<close>

subsection \<open>The invariant\<close>

definition placed :: "Item list \<Rightarrow> Item \<Rightarrow> bool" where
  "placed its i =
     (length (it_Path i) \<le> 8 \<and>
      (case it_ParentID i of
         None \<Rightarrow> it_Path i = [uuid_String (it_ID i)]
       | Some p \<Rightarrow> list_ex (\<lambda>q. it_ID q = p \<and> it_ProjectID q = it_ProjectID i \<and>
            it_Path i = it_Path q @ [uuid_String (it_ID i)]) its))"

definition tree_ok :: "Item list \<Rightarrow> bool" where
  "tree_ok its = (distinct (map it_ID its) \<and> list_all (placed its) its)"

lemma tree_ok_distinct: "tree_ok its \<Longrightarrow> distinct (map it_ID its)"
  by (simp add: tree_ok_def)

lemma tree_item_eq: "tree_ok its \<Longrightarrow> i \<in> set its \<Longrightarrow> j \<in> set its \<Longrightarrow> it_ID i = it_ID j \<Longrightarrow> i = j"
  by (metis tree_ok_distinct distinct_map inj_onD)

lemma find_item_iff:
  "tree_ok (items db) \<Longrightarrow> find_item db u = Some i \<longleftrightarrow> i \<in> set (items db) \<and> it_ID i = u"
  unfolding find_item_def by (rule find_distinct_map) (rule tree_ok_distinct)

lemma placedE:
  assumes "tree_ok its" "i \<in> set its"
  obtains (root) "it_ParentID i = None" "it_Path i = [uuid_String (it_ID i)]"
  | (child) q where "q \<in> set its" "it_ParentID i = Some (it_ID q)" "it_ProjectID q = it_ProjectID i"
      "it_Path i = it_Path q @ [uuid_String (it_ID i)]"
  using assms by (auto simp: tree_ok_def list_all_iff placed_def list_ex_iff split: option.splits)

lemma path_last: "tree_ok its \<Longrightarrow> i \<in> set its \<Longrightarrow> it_Path i \<noteq> [] \<and> last (it_Path i) = uuid_String (it_ID i)"
  by (erule placedE) auto

lemma path_length: "tree_ok its \<Longrightarrow> i \<in> set its \<Longrightarrow> length (it_Path i) \<le> 8"
  by (auto simp: tree_ok_def list_all_iff placed_def)

text \<open>Every nonempty prefix of a path is the path of an ancestor.\<close>

lemma path_prefix_item:
  assumes "tree_ok its" "i \<in> set its" "prefix p (it_Path i)" "p \<noteq> []"
  shows "\<exists>a \<in> set its. it_Path a = p"
  using assms(2-4)
proof (induction "length (it_Path i)" arbitrary: i rule: less_induct)
  case less
  from assms(1) less.prems(1) show ?case
  proof (cases rule: placedE)
    case root
    then have "p = it_Path i" using less.prems(2,3) by (auto simp: prefix_Cons)
    then show ?thesis using less.prems(1) by blast
  next
    case (child q)
    show ?thesis
    proof (cases "p = it_Path i")
      case False
      then have "prefix p (it_Path q)" using less.prems(2) child(4) by (simp add: prefix_snoc)
      then show ?thesis using less.hyps [of q] child less.prems(3) by simp
    qed (use less.prems in blast)
  qed
qed

lemma path_labels:
  assumes "tree_ok its" "i \<in> set its"
  shows "\<exists>us. it_Path i = map uuid_String us \<and> us \<noteq> []"
  using assms(2)
proof (induction "length (it_Path i)" arbitrary: i rule: less_induct)
  case less
  from assms(1) less.prems show ?case
  proof (cases rule: placedE)
    case root
    then show ?thesis by (intro exI [of _ "[it_ID i]"]) simp
  next
    case (child q)
    then obtain us where "it_Path q = map uuid_String us" using less.hyps [of q] by auto
    then show ?thesis using child by (intro exI [of _ "us @ [it_ID i]"]) simp
  qed
qed

text \<open>The text of a path reads back as the path.\<close>

lemma path_text_facts:
  assumes "tree_ok its" "i \<in> set its"
  shows "list_all label_ok (it_Path i)" "list_all dotless (it_Path i)" "it_Path i \<noteq> []"
    "ltree_of_text (join_dots (it_Path i)) = Some (it_Path i)" "split_dots (join_dots (it_Path i)) = it_Path i"
    "join_dots (it_Path i) \<noteq> []"
proof -
  obtain us where us: "it_Path i = map uuid_String us" "us \<noteq> []" using path_labels [OF assms] by blast
  show ok: "list_all label_ok (it_Path i)" and dl: "list_all dotless (it_Path i)" and ne: "it_Path i \<noteq> []"
    using us uuid_labels.enc_labels uuid_labels.enc_dotless by simp_all
  show tx: "ltree_of_text (join_dots (it_Path i)) = Some (it_Path i)" by (rule ltree_of_text_join [OF ok])
  show "split_dots (join_dots (it_Path i)) = it_Path i" by (rule split_join [OF dl ne])
  show "join_dots (it_Path i) \<noteq> []" using tx ne by (auto simp: ltree_of_text_def)
qed

text \<open>
  An item's id labels a proper ancestor position of a path exactly when its own path is a
  strict prefix of it.
\<close>

lemma ancestor_label_iff:
  assumes "tree_ok its" "y \<in> set its" "d \<in> set its"
  shows "uuid_String (it_ID y) \<in> set (butlast (it_Path d)) \<longleftrightarrow> strict_prefix (it_Path y) (it_Path d)"
proof
  assume "uuid_String (it_ID y) \<in> set (butlast (it_Path d))"
  then obtain a b where ab: "butlast (it_Path d) = a @ uuid_String (it_ID y) # b" by (auto dest: split_list)
  have "it_Path d = butlast (it_Path d) @ [last (it_Path d)]"
    using path_last [OF assms(1,3)] by (metis append_butlast_last_id)
  then have d: "it_Path d = (a @ [uuid_String (it_ID y)]) @ b @ [last (it_Path d)]" unfolding ab by simp
  have pre: "prefix (a @ [uuid_String (it_ID y)]) (it_Path d)" using d by (metis prefixI)
  moreover have ne: "a @ [uuid_String (it_ID y)] \<noteq> it_Path d"
    using d by (metis append_is_Nil_conv append_self_conv list.distinct(1))
  ultimately obtain z where z: "z \<in> set its" "it_Path z = a @ [uuid_String (it_ID y)]"
    using path_prefix_item [OF assms(1,3)] by blast
  then have "it_ID z = it_ID y" using path_last [OF assms(1) z(1)] uuid_labels.enc_inject by simp
  then have "z = y" using tree_item_eq [OF assms(1) z(1) assms(2)] by simp
  then show "strict_prefix (it_Path y) (it_Path d)" using z pre ne by (simp add: strict_prefix_def)
next
  assume "strict_prefix (it_Path y) (it_Path d)"
  then obtain r where r: "it_Path d = it_Path y @ r" "r \<noteq> []" by (auto simp: strict_prefix_def prefix_def)
  then have "butlast (it_Path d) = it_Path y @ butlast r" by (simp add: butlast_append)
  then show "uuid_String (it_ID y) \<in> set (butlast (it_Path d))"
    using path_last [OF assms(1,2)] by (metis Un_iff last_in_set set_append)
qed

subsection \<open>Statements that leave the hierarchy alone\<close>

definition keeps_place :: "(Item \<Rightarrow> Item) \<Rightarrow> bool" where
  "keeps_place f = (\<forall>i. it_ID (f i) = it_ID i \<and> it_ParentID (f i) = it_ParentID i \<and>
     it_Path (f i) = it_Path i \<and> it_ProjectID (f i) = it_ProjectID i)"

lemma keeps_place_if: "keeps_place f \<Longrightarrow> keeps_place (\<lambda>i. if sel i then f i else i)"
  by (simp add: keeps_place_def)

lemma tree_ok_map:
  assumes "keeps_place g" "tree_ok its"
  shows "tree_ok (map g its)"
proof -
  have "placed (map g its) (g i) = placed its i" for i
    using assms(1) by (auto simp: placed_def keeps_place_def list_ex_iff split: option.splits)
  moreover have ids: "map it_ID (map g its) = map it_ID its" using assms(1) by (simp add: keeps_place_def)
  ultimately show ?thesis using assms(2) unfolding tree_ok_def ids by (simp add: list_all_iff)
qed

lemma update_items_tree:
  "keeps_place f \<Longrightarrow> tree_ok (items db) \<Longrightarrow> update_items sel f db = Inr (rows, db') \<Longrightarrow> tree_ok (items db')"
  by (auto simp: update_items_Inr intro: tree_ok_map keeps_place_if)

text \<open>A respread changes ranks, and with them versions and time stamps, and nothing else.\<close>

definition rank_only :: "(Item \<Rightarrow> Item) \<Rightarrow> bool" where
  "rank_only g = (\<forall>i. \<exists>r v t. g i = i\<lparr>it_Rank := r, it_Version := v, it_UpdatedAt := t\<rparr>)"

lemma rank_only_place: "rank_only g \<Longrightarrow> keeps_place g"
  unfolding keeps_place_def
proof
  fix i
  assume "rank_only g"
  then obtain r v t where "g i = i\<lparr>it_Rank := r, it_Version := v, it_UpdatedAt := t\<rparr>" unfolding rank_only_def by blast
  then show "it_ID (g i) = it_ID i \<and> it_ParentID (g i) = it_ParentID i \<and> it_Path (g i) = it_Path i \<and>
    it_ProjectID (g i) = it_ProjectID i" by simp
qed

lemma rank_only_id: "rank_only (\<lambda>i. i)"
  unfolding rank_only_def
proof
  fix i :: Item
  have "i = i\<lparr>it_Rank := it_Rank i, it_Version := it_Version i, it_UpdatedAt := it_UpdatedAt i\<rparr>" by simp
  then show "\<exists>r v t. i = i\<lparr>it_Rank := r, it_Version := v, it_UpdatedAt := t\<rparr>" by blast
qed

lemma rank_only_if: "rank_only g \<Longrightarrow> rank_only (\<lambda>i. if sel i then g i else i)"
  using rank_only_id unfolding rank_only_def by simp

lemma rank_only_comp:
  assumes "rank_only f" "rank_only g"
  shows "rank_only (\<lambda>i. f (g i))"
  unfolding rank_only_def
proof
  fix i
  obtain r v t where g: "g i = i\<lparr>it_Rank := r, it_Version := v, it_UpdatedAt := t\<rparr>" using assms(2) unfolding rank_only_def by blast
  obtain r' v' t' where "f (g i) = (g i)\<lparr>it_Rank := r', it_Version := v', it_UpdatedAt := t'\<rparr>" using assms(1) unfolding rank_only_def by blast
  then show "\<exists>r v t. f (g i) = i\<lparr>it_Rank := r, it_Version := v, it_UpdatedAt := t\<rparr>" using g by auto
qed

definition reranked :: "database \<Rightarrow> database \<Rightarrow> bool" where
  "reranked db db' = (\<exists>g. rank_only g \<and> db' = db\<lparr>items := map g (items db)\<rparr>)"

lemma reranked_refl: "reranked db db"
  unfolding reranked_def by (rule exI [of _ "\<lambda>i. i"]) (simp add: rank_only_id)

lemma reranked_trans:
  assumes "reranked a b" "reranked b c"
  shows "reranked a c"
proof -
  obtain f g where f: "rank_only f" "b = a\<lparr>items := map f (items a)\<rparr>" and g: "rank_only g" "c = b\<lparr>items := map g (items b)\<rparr>"
    using assms unfolding reranked_def by blast
  then have "c = a\<lparr>items := map (\<lambda>i. g (f i)) (items a)\<rparr>" by (simp add: o_def)
  then show ?thesis using rank_only_comp [OF g(1) f(1)] unfolding reranked_def by blast
qed

lemma reranked_update:
  "update_items sel g db = Inr (rows, db') \<Longrightarrow> rank_only g \<Longrightarrow> reranked db db'"
  unfolding reranked_def update_items_Inr using rank_only_if by blast

lemma rebalance_reranked:
  assumes "rebalanceProjectRanks now p ranks db = Inr db'"
  shows "reranked db db'"
proof (cases "ranks = []")
  case False
  let ?old = "map snd ranks" and ?new = "RankSequence (int (length ranks))"
  obtain rows where "update_items (\<lambda>i. it_ProjectID i = p \<and> it_Rank i \<in> set ?old)
      (\<lambda>i. i\<lparr>it_Rank := the (map_of (zip ?old ?new) (it_Rank i)), it_Version := it_Version i + 1, it_UpdatedAt := now\<rparr>) db
      = Inr (rows, db')"
    using assms False by (auto simp: rebalanceProjectRanks_def SetProjectRanks_def result_simps)
  then show ?thesis by (rule reranked_update) (auto simp: rank_only_def)
qed (use assms reranked_refl in \<open>simp add: rebalanceProjectRanks_def\<close>)

lemma rankForNewItem_reranked: "rankForNewItem now p db = Inr (r, db') \<Longrightarrow> reranked db db'"
  by (auto simp: rankForNewItem_def Let_def result_simps reranked_refl split: if_splits dest: rebalance_reranked)

lemma rank_set_only: "rank_only (\<lambda>i. i\<lparr>it_Rank := r\<rparr>)"
  unfolding rank_only_def
proof
  fix i :: Item
  have "i\<lparr>it_Rank := r\<rparr> = i\<lparr>it_Rank := r, it_Version := it_Version i, it_UpdatedAt := it_UpdatedAt i\<rparr>" by simp
  then show "\<exists>r' v t. i\<lparr>it_Rank := r\<rparr> = i\<lparr>it_Rank := r', it_Version := v, it_UpdatedAt := t\<rparr>" by blast
qed

lemma reparent_rank_reranked: "reparent_rank n now it r db = Inr db' \<Longrightarrow> reranked db db'"
proof (induction n arbitrary: db)
  case (Suc n)
  then show ?case
    by (auto simp: Let_def result_simps rank_set_only split: if_splits prod.splits
        dest: rebalance_reranked reranked_update intro: reranked_trans)
qed simp

lemma reranked_tree: "reranked db db' \<Longrightarrow> tree_ok (items db) \<Longrightarrow> tree_ok (items db')"
  unfolding reranked_def by (auto intro: tree_ok_map [OF rank_only_place])

lemma find_map_keeps:
  "keeps_place g \<Longrightarrow> find (\<lambda>i. it_ID i = u) (map g its) = map_option g (find (\<lambda>i. it_ID i = u) its)"
  by (induction its) (simp_all add: keeps_place_def)

lemma reranked_insert_path: "reranked db db' \<Longrightarrow> insert_path ins db' = insert_path ins db"
  unfolding reranked_def
proof (elim exE conjE)
  fix g assume g: "rank_only g" "db' = db\<lparr>items := map g (items db)\<rparr>"
  have "keeps_place g" by (rule rank_only_place [OF g(1)])
  then have "find_item db' u = map_option g (find_item db u)" for u
    by (simp add: find_item_def g(2) find_map_keeps)
  then show ?thesis using \<open>keeps_place g\<close>
    by (auto simp: insert_path_def GetItem_def some_or_def sql_def keeps_place_def split: option.splits)
qed

lemma bump_item_tree: "tree_ok (items db) \<Longrightarrow> bump_item now u seq db = Inr db' \<Longrightarrow> tree_ok (items db')"
  by (auto simp: bump_item_def result_simps keeps_place_def intro: update_items_tree [rotated 2])

subsection \<open>Insert and hard delete\<close>

lemma placed_mono: "placed its i \<Longrightarrow> set its \<subseteq> set its' \<Longrightarrow> placed its' i"
  by (auto simp: placed_def list_ex_iff split: option.splits)

lemma insert_path_Inr:
  assumes "tree_ok (items db)" "insert_path ins db = Inr path"
  obtains (root) "in_ParentID ins = None" "path = uuid_String (in_ID ins)"
  | (child) q where "q \<in> set (items db)" "in_ParentID ins = Some (it_ID q)" "it_ProjectID q = in_ProjectID ins"
      "path = join_dots (it_Path q @ [uuid_String (in_ID ins)])"
proof (cases "in_ParentID ins")
  case None
  then show thesis using assms root by (simp add: insert_path_def)
next
  case (Some p)
  then obtain q where q: "find_item db p = Some q" "it_ProjectID q = in_ProjectID ins"
    "path = join_dots (it_Path q) @ ''.'' @ uuid_String (in_ID ins)"
    using assms by (auto simp: insert_path_def result_simps GetItem_def split: if_splits)
  have "q \<in> set (items db)" "it_ID q = p" using q(1) find_item_iff [OF assms(1)] by auto
  then show thesis using child [of q] q Some path_text_facts(3) [OF assms(1)] by (simp add: join_dots_snoc)
qed

lemma InsertItem_Inr:
  "InsertItem now arg path_text db = Inr (row, db') \<longleftrightarrow>
   (\<exists>path. ltree_of_text path_text = Some path \<and>
     row = arg\<lparr>it_Path := path, it_Version := 1, it_CreatedAt := now, it_UpdatedAt := now, it_DeletedAt := None\<rparr> \<and>
     db' = db\<lparr>items := items db @ [row]\<rparr> \<and> item_ranges_ok row \<and> item_path_check db None row \<and>
     item_title_ok row \<and> items_unique (items db') \<and> item_refs_ok db' row)"
  by (auto simp: InsertItem_def Let_def result_simps)

lemma insert_tree:
  assumes "tree_ok (items db)" "insert_path ins db = Inr path"
    and "InsertItem now (insert_row m ins key cfg rank seq) path db = Inr (row, db')"
  shows "tree_ok (items db')"
proof -
  obtain p where p: "ltree_of_text path = Some p" "it_Path row = p" "it_ID row = in_ID ins"
    "it_ParentID row = in_ParentID ins" "it_ProjectID row = in_ProjectID ins" "items db' = items db @ [row]"
    "items_unique (items db')" "length p \<le> 8"
    using assms(3) by (auto simp: InsertItem_Inr insert_row_def item_path_check_def Let_def)
  have "placed (items db') row"
    using assms(1,2)
  proof (cases rule: insert_path_Inr)
    case root
    then have "p = [uuid_String (in_ID ins)]"
      using p(1) ltree_of_text_join [of "[uuid_String (in_ID ins)]"] by (simp add: uuid_labels.enc_label)
    then show ?thesis using root p by (simp add: placed_def)
  next
    case (child q)
    have "list_all label_ok (it_Path q @ [uuid_String (in_ID ins)])"
      using path_text_facts(1) [OF assms(1) child(1)] by (simp add: uuid_labels.enc_label)
    then have "p = it_Path q @ [uuid_String (in_ID ins)]" using p(1) child(4) ltree_of_text_join by simp
    then show ?thesis using child p by (auto simp: placed_def list_ex_iff)
  qed
  moreover have "placed (items db') i" if "i \<in> set (items db)" for i
    using assms(1) that p(6) by (rule_tac placed_mono [of "items db"]) (auto simp: tree_ok_def list_all_iff)
  ultimately show ?thesis using p(6,7) by (auto simp: tree_ok_def list_all_iff items_unique_def)
qed

lemma hard_delete_tree:
  assumes "tree_ok (items db)" "find_item db u = Some row" "HardDeleteItem_sql u db = Inr (x, db')"
  shows "tree_ok (items db')"
proof -
  have items: "items db' = filter (\<lambda>i. it_ID i \<noteq> u) (items db)" using HardDelete_Inr [OF assms(3)] by simp
  have row: "row \<in> set (items db)" "it_ID row = u" using assms(1,2) find_item_iff by auto
  have no_child: "it_ParentID i \<noteq> Some u" if "i \<in> set (items db)" "it_ID i \<noteq> u" for i
    using assms(3) row that by (auto simp: HardDeleteItem_sql_def list_ex_iff split: if_splits)
  have "placed (items db') i" if "i \<in> set (items db)" "it_ID i \<noteq> u" for i
    using assms(1) that no_child [OF that]
    by (auto simp: tree_ok_def list_all_iff placed_def list_ex_iff items split: option.splits)
  moreover have "distinct (map it_ID (items db'))"
    using assms(1) by (simp add: items tree_ok_def distinct_map_filter)
  ultimately show ?thesis by (auto simp: tree_ok_def list_all_iff items)
qed

subsection \<open>Moving a subtree\<close>

text \<open>
  The rewrite of a move: the subtree at \<open>old\<close> hangs below \<open>base\<close> afterwards.
\<close>

definition moved_row :: "uuid \<Rightarrow> uuid option \<Rightarrow> ltree \<Rightarrow> ltree \<Rightarrow> int \<Rightarrow> int \<Rightarrow> Item \<Rightarrow> Item" where
  "moved_row u newParent base old seq now i =
     i\<lparr>it_ParentID := (if it_ID i = u then newParent else it_ParentID i),
       it_Path := base @ drop (length old - 1) (it_Path i),
       it_ChangeSeq := seq, it_Version := it_Version i + 1, it_UpdatedAt := now\<rparr>"

definition move_items :: "uuid \<Rightarrow> uuid option \<Rightarrow> ltree \<Rightarrow> ltree \<Rightarrow> int \<Rightarrow> int \<Rightarrow> Item list \<Rightarrow> Item list" where
  "move_items u newParent base old seq now its =
     map (\<lambda>i. if ltree_below (it_Path i) old then moved_row u newParent base old seq now i else i) its"

lemma ReparentSubtree_Inr:
  assumes "ReparentSubtree now u newParent baseText oldText seq db = Inr (rows, db')"
    and "ltree_of_text oldText = Some old" "ltree_of_text baseText = Some base"
  shows "items db' = move_items u newParent base old seq now (items db)"
    "rows = map (moved_row u newParent base old seq now) (filter (\<lambda>i. ltree_below (it_Path i) old) (items db))"
    "db' = db\<lparr>items := items db'\<rparr>" "items_unique (items db')"
    "list_all (\<lambda>i. item_path_check db (Some i) (moved_row u newParent base old seq now i))
       (filter (\<lambda>i. ltree_below (it_Path i) old) (items db))"
  using assms
  by (auto simp: ReparentSubtree_def Let_def result_simps update_items_Inr move_items_def moved_row_def)

text \<open>What the Go checks establish about the item, its target and the depth.\<close>

definition move_ready :: "Item list \<Rightarrow> Item \<Rightarrow> uuid option \<Rightarrow> ltree \<Rightarrow> bool" where
  "move_ready its it newParent base =
     ((case newParent of None \<Rightarrow> base = []
       | Some p \<Rightarrow> list_ex (\<lambda>q. it_ID q = p \<and> it_ProjectID q = it_ProjectID it \<and> it_Path q = base \<and>
           \<not> ltree_below base (it_Path it)) its) \<and>
      list_all (\<lambda>i. ltree_below (it_Path i) (it_Path it) \<longrightarrow>
        length base + length (it_Path i) + 1 \<le> 8 + length (it_Path it)) its)"

lemma below_split:
  assumes "tree_ok its" "it \<in> set its" "i \<in> set its" "ltree_below (it_Path i) (it_Path it)"
  obtains rest where "it_Path i = it_Path it @ rest"
    "drop (length (it_Path it) - 1) (it_Path i) = uuid_String (it_ID it) # rest"
proof -
  obtain rest where r: "it_Path i = it_Path it @ rest" using assms(4) by (auto simp: ltree_below_def prefix_def)
  obtain front where f: "it_Path it = front @ [uuid_String (it_ID it)]"
    using path_last [OF assms(1,2)] by (metis append_butlast_last_id)
  show thesis using that [of rest] r f by simp
qed

lemma moved_simps [simp]:
  "it_ID (moved_row u np base old seq now i) = it_ID i"
  "it_ProjectID (moved_row u np base old seq now i) = it_ProjectID i"
  "it_Path (moved_row u np base old seq now i) = base @ drop (length old - 1) (it_Path i)"
  "it_ParentID (moved_row u np base old seq now i) = (if it_ID i = u then np else it_ParentID i)"
  by (simp_all add: moved_row_def)

text \<open>A moved item other than the top of the move stays directly below its parent.\<close>

lemma moved_child:
  assumes "tree_ok its" "it \<in> set its" "i \<in> set its" "ltree_below (it_Path i) (it_Path it)" "i \<noteq> it"
  obtains q where "q \<in> set its" "ltree_below (it_Path q) (it_Path it)" "it_ParentID i = Some (it_ID q)"
    "it_ProjectID q = it_ProjectID i" "it_Path i = it_Path q @ [uuid_String (it_ID i)]"
proof -
  have ne: "it_ID i \<noteq> it_ID it" using tree_item_eq [OF assms(1,3,2)] assms(5) by blast
  have lasts: "last (it_Path it) = uuid_String (it_ID it)" "it_Path it \<noteq> []" using path_last [OF assms(1,2)] by auto
  from assms(1,3) show thesis
  proof (cases rule: placedE)
    case root
    then have "it_Path it = [uuid_String (it_ID i)]" using assms(4) lasts(2) by (auto simp: ltree_below_def prefix_Cons)
    then show thesis using lasts ne uuid_labels.enc_inject by simp
  next
    case (child q)
    have "it_Path it \<noteq> it_Path i" using lasts child(4) ne uuid_labels.enc_inject by auto
    then have "ltree_below (it_Path q) (it_Path it)"
      using assms(4) child(4) by (auto simp: ltree_below_def prefix_snoc)
    then show thesis using that child by blast
  qed
qed

lemma move_tree:
  assumes ok: "tree_ok its" and it: "it \<in> set its" and ready: "move_ready its it np base"
  shows "tree_ok (move_items (it_ID it) np base (it_Path it) seq now its)"
proof -
  define sel where "sel i = ltree_below (it_Path i) (it_Path it)" for i :: Item
  define g where "g i = (if sel i then moved_row (it_ID it) np base (it_Path it) seq now i else i)" for i
  have its': "move_items (it_ID it) np base (it_Path it) seq now its = map g its"
    by (simp add: move_items_def g_def sel_def)
  have ids: "it_ID (g i) = it_ID i" "it_ProjectID (g i) = it_ProjectID i" for i by (simp_all add: g_def)
  have unsel: "g i = i" if "\<not> sel i" for i using that by (simp add: g_def)
  have it_sel: "sel it" by (simp add: sel_def ltree_below_def)
  have "placed (map g its) (g i)" if i: "i \<in> set its" for i
  proof (cases "sel i")
    case False
    have len: "length (it_Path i) \<le> 8" by (rule path_length [OF ok i])
    from ok i show ?thesis
    proof (cases rule: placedE)
      case root
      then show ?thesis by (simp add: unsel [OF False] placed_def)
    next
      case (child q)
      then have "\<not> sel q" using False by (auto simp: sel_def ltree_below_def)
      then show ?thesis using child len by (auto simp: unsel [OF False] placed_def list_ex_iff unsel intro!: bexI [of _ q])
    qed
  next
    case True
    obtain rest where rest: "it_Path i = it_Path it @ rest"
      "drop (length (it_Path it) - 1) (it_Path i) = uuid_String (it_ID it) # rest"
      using below_split [OF ok it i] True sel_def by blast
    have path: "it_Path (g i) = base @ uuid_String (it_ID it) # rest" using True rest by (simp add: g_def)
    have len: "length (it_Path (g i)) \<le> 8"
      using ready True i rest by (auto simp: move_ready_def list_all_iff sel_def path)
    show ?thesis
    proof (cases "i = it")
      case True
      then have "rest = []" using rest by simp
      show ?thesis
      proof (cases np)
        case None
        then show ?thesis using len ready path \<open>rest = []\<close> True it_sel by (simp add: placed_def g_def move_ready_def)
      next
        case (Some p)
        then obtain q where q: "q \<in> set its" "it_ID q = p" "it_ProjectID q = it_ProjectID it" "it_Path q = base" "\<not> sel q"
          using ready by (auto simp: move_ready_def list_ex_iff sel_def)
        have "g q = q" by (rule unsel [OF q(5)])
        moreover have "it_ParentID (g i) = Some p" using True Some it_sel by (simp add: g_def)
        ultimately show ?thesis using len q path \<open>rest = []\<close> True
          by (auto simp: placed_def list_ex_iff ids intro!: bexI [of _ q])
      qed
    next
      case False
      obtain q where q: "q \<in> set its" "ltree_below (it_Path q) (it_Path it)" "it_ParentID i = Some (it_ID q)"
        "it_ProjectID q = it_ProjectID i" "it_Path i = it_Path q @ [uuid_String (it_ID i)]"
        using moved_child [OF ok it i] True False sel_def by blast
      have "it_ID i \<noteq> it_ID it" using tree_item_eq [OF ok i it] False by blast
      then have "it_ParentID (g i) = Some (it_ID q)" using q True by (simp add: g_def)
      moreover have "it_Path (g i) = it_Path (g q) @ [uuid_String (it_ID i)]"
        using q(2,5) True by (auto simp: g_def sel_def ltree_below_def prefix_def)
      ultimately show ?thesis using len q(1,4) by (auto simp: placed_def list_ex_iff ids)
    qed
  qed
  moreover have ids': "map it_ID (map g its) = map it_ID its" by (simp add: ids)
  ultimately show ?thesis using tree_ok_distinct [OF ok] unfolding its' tree_ok_def ids' by (simp add: list_all_iff)
qed

text \<open>The checks of \<open>applyReparent\<close> make a move ready.\<close>

lemma sql_max_None: "sql_max xs = None \<longleftrightarrow> set xs \<subseteq> {None}"
  by (induction xs rule: sql_max.induct) auto

lemma sql_max_ge: "sql_max xs = Some v \<Longrightarrow> Some x \<in> set xs \<Longrightarrow> x \<le> v"
proof (induction xs arbitrary: v rule: sql_max.induct)
  case (3 y xs)
  then show ?case by (cases "sql_max xs") (auto simp: sql_max_None le_max_iff_disj)
qed auto

lemma subtree_height_bound:
  assumes "subtree_height p db = Inr h" "i \<in> set (items db)" "ltree_below (it_Path i) p"
  shows "int (length (it_Path i)) - int (length p) + 1 \<le> h"
proof -
  obtain v where v: "sql_max (map (\<lambda>i. Some (int (length (it_Path i)))) (filter (\<lambda>i. ltree_below (it_Path i) p) (items db))) = Some v"
    "h = v - int (length p) + 1" using assms(1) by (auto simp: subtree_height_def split: option.splits)
  then have "int (length (it_Path i)) \<le> v" using sql_max_ge [OF v(1)] assms(2,3) by auto
  then show ?thesis using v(2) by simp
qed

lemma reparent_ready:
  assumes ok: "tree_ok (items db)" and it: "find_item db (rp_ID r) = Some it"
    and target: "reparent_target it r db = Inr target"
    and height: "subtree_height (it_Path it) db = Inr h"
    and depth: "(if target \<noteq> [] then int (count_dots target) + 1 else 0) + h \<le> 8"
  obtains base where "ltree_of_text target = Some base" "move_ready (items db) it (rp_NewParentID r) base"
    "it \<in> set (items db)" "it_ID it = rp_ID r"
proof -
  have i: "it \<in> set (items db)" "it_ID it = rp_ID r" using it find_item_iff [OF ok] by auto
  obtain base where base: "ltree_of_text target = Some base"
    "(if target \<noteq> [] then int (count_dots target) + 1 else 0) = int (length base)"
    "case rp_NewParentID r of None \<Rightarrow> base = []
     | Some p \<Rightarrow> list_ex (\<lambda>q. it_ID q = p \<and> it_ProjectID q = it_ProjectID it \<and> it_Path q = base \<and>
         \<not> ltree_below base (it_Path it)) (items db)"
  proof (cases "rp_NewParentID r")
    case None
    then show thesis using that [of "[]"] target by (simp add: reparent_target_def ltree_of_text_def)
  next
    case (Some p)
    then obtain q where q: "find_item db p = Some q" "it_ProjectID q = it_ProjectID it"
      "\<not> isDescendantOrSelf (join_dots (it_Path q)) (join_dots (it_Path it))" "target = join_dots (it_Path q)"
      using target by (auto simp: reparent_target_def result_simps GetItem_def split: if_splits)
    have q': "q \<in> set (items db)" "it_ID q = p" using q(1) find_item_iff [OF ok] by auto
    note tq = path_text_facts [OF ok q'(1)] and ti = path_text_facts [OF ok i(1)]
    have "\<not> ltree_below (it_Path q) (it_Path it)"
      using q(3) isDescendantOrSelf_prefix [OF ti(2) tq(2) ti(3) tq(3)] by (simp add: ltree_below_def)
    moreover have "int (count_dots target) + 1 = int (length (it_Path q))"
      using count_dots_join [OF tq(2,3)] q(4) by simp
    ultimately show thesis using that [of "it_Path q"] q q' tq Some by (auto simp: list_ex_iff)
  qed
  have "length base + length (it_Path i) + 1 \<le> 8 + length (it_Path it)"
    if "i \<in> set (items db)" "ltree_below (it_Path i) (it_Path it)" for i
    using subtree_height_bound [OF height that] depth base(2) by linarith
  then have "move_ready (items db) it (rp_NewParentID r) base" using base(3) by (auto simp: move_ready_def list_all_iff)
  then show thesis using that base(1) i by blast
qed

lemma reparent_tree:
  assumes "tree_ok (items db)" "applyReparent now r seq db = Inr (paths, db')"
  shows "tree_ok (items db')"
  using assms(2)
proof (rule applyReparentE)
  fix it target h rows db1
  assume 1: "find_item db (rp_ID r) = Some it" "reparent_target it r db = Inr target"
    "subtree_height (it_Path it) db = Inr h" "(if target \<noteq> [] then int (count_dots target) + 1 else 0) + h \<le> 8"
    and 2: "ReparentSubtree now (rp_ID r) (rp_NewParentID r) target (join_dots (it_Path it)) seq db = Inr (rows, db1)"
    and 3: "db' = db1 \<or> rp_SetRank r \<and> reparent_rank 2 now it r db1 = Inr db'"
  obtain base where b: "ltree_of_text target = Some base" "move_ready (items db) it (rp_NewParentID r) base"
    "it \<in> set (items db)" "it_ID it = rp_ID r" using reparent_ready [OF assms(1) 1] .
  have "items db1 = move_items (it_ID it) (rp_NewParentID r) base (it_Path it) seq now (items db)"
    using ReparentSubtree_Inr(1) [OF 2 path_text_facts(4) [OF assms(1) b(3)] b(1)] b(4) by simp
  then have "tree_ok (items db1)" using move_tree [OF assms(1) b(3,2)] by simp
  then show ?thesis using 3 reparent_rank_reranked reranked_tree by blast
qed

lemma NextItemKey_Inr:
  "NextItemKey p db = Inr ((key, num), db') \<longleftrightarrow>
   (\<exists>pj. find (\<lambda>x. pj_ID x = p) (projects db) = Some pj \<and> num = pj_NextKeyNum pj \<and> int4_ok (num + 1) \<and>
     key = pj_KeyPrefix pj @ ''-'' @ itoa num \<and>
     db' = db\<lparr>projects := map (\<lambda>x. if pj_ID x = p then x\<lparr>pj_NextKeyNum := num + 1\<rparr> else x) (projects db)\<rparr>)"
  by (auto simp: NextItemKey_def Let_def result_simps)

lemma applyInsert_reranked:
  assumes "applyInsert now m ins seq db = Inr (path, db')"
  obtains key num db1 cfg rank db2 row where
    "NextItemKey (in_ProjectID ins) db = Inr ((key, num), db1)" "items db1 = items db"
    "reranked db1 db2" "insert_path ins db2 = Inr path" "insert_path ins db = Inr path"
    "InsertItem now (insert_row m ins key cfg rank seq) path db2 = Inr (row, db')"
    "(if in_rank ins = [] then rankForNewItem now (in_ProjectID ins) db1 else Inr (in_rank ins, db1)) = Inr (rank, db2)"
  using assms
proof (rule applyInsertE)
  fix key num db1 cfg rank db2 row
  assume 1: "NextItemKey (in_ProjectID ins) db = Inr ((key, num), db1)" "insert_path ins db1 = Inr path"
    "(if in_rank ins = [] then rankForNewItem now (in_ProjectID ins) db1 else Inr (in_rank ins, db1)) = Inr (rank, db2)"
    "InsertItem now (insert_row m ins key cfg rank seq) path db2 = Inr (row, db')"
  have items: "items db1 = items db" using 1(1) by (auto simp: NextItemKey_Inr)
  have rr: "reranked db1 db2" using 1(3) rankForNewItem_reranked reranked_refl by (auto split: if_splits)
  have "insert_path ins db2 = Inr path" using 1(2) reranked_insert_path [OF rr] by simp
  moreover have "insert_path ins db = insert_path ins db1"
    by (auto simp: insert_path_def GetItem_def find_item_def items split: option.splits)
  ultimately show thesis using that [OF 1(1) items rr _ _ 1(4,3)] 1(2) by simp
qed

lemma insert_op_tree:
  assumes "tree_ok (items db)" "applyInsert now m ins seq db = Inr (path, db')"
  shows "tree_ok (items db')"
  using assms(2)
proof (rule applyInsert_reranked)
  fix key num db1 cfg rank db2 row
  assume "reranked db1 db2" "items db1 = items db" and ins: "insert_path ins db2 = Inr path"
    "InsertItem now (insert_row m ins key cfg rank seq) path db2 = Inr (row, db')"
  then have "tree_ok (items db2)" using assms(1) reranked_tree [of db1 db2] by simp
  then show ?thesis using insert_tree ins by blast
qed

lemma InsertLink_Inr:
  "InsertLink now u a b k by_user db = Inr (row, db') \<Longrightarrow> db' = db\<lparr>links := links db @ [row]\<rparr>"
  by (auto simp: InsertLink_def Let_def result_simps)

subsection \<open>Every change keeps the hierarchy\<close>

lemma apply_change_tree:
  assumes "tree_ok (items (fs_db st))" "apply_change now m itemSeq st c = Inr st'"
  shows "tree_ok (items (fs_db st'))"
  using assms(2)
proof (cases rule: apply_changeE)
  case insert then show ?thesis using insert_op_tree assms(1) by auto
next
  case update then show ?thesis using assms(1)
    by (auto simp: applyUpdate_def UpdateItemFields_def result_simps keeps_place_def intro: update_items_tree [rotated 2])
next
  case reparent then show ?thesis using reparent_tree assms(1) by auto
next
  case softDelete then show ?thesis using assms(1)
    by (auto simp: SoftDeleteItem_def result_simps keeps_place_def intro: update_items_tree [rotated 2])
next
  case hardDelete then show ?thesis using hard_delete_tree assms(1) by auto
next
  case (link l row db' db'')
  then show ?thesis using assms(1) bump_item_tree [OF _ link(3)] InsertLink_Inr [OF link(2)] by simp
next
  case (unlink l db')
  then show ?thesis using assms(1) bump_item_tree [OF _ unlink(2)] by (simp add: DeleteLink_def)
next
  case (comment cc db' db'')
  then have "items db' = items (fs_db st)"
    by (auto simp: applyComment_def Let_def result_simps split: if_splits)
  then show ?thesis using comment(4) assms(1) bump_item_tree [OF _ comment(3)] by simp
qed

text \<open>The later phases of a flush do not write items.\<close>

lemma insert_rollups_items:
  "rfold (\<lambda>d u. sql (InsertRollupRow now u d)) db us = Inr db' \<Longrightarrow> items db' = items db \<and> statuses db' = statuses db"
  by (rule rfold_invariant [where P = "\<lambda>d. items d = items db \<and> statuses d = statuses db"])
     (auto simp: InsertRollupRow_def result_simps split: if_splits)

lemma recompute_items: "recomputeRollups now us db = Inr db' \<Longrightarrow> items db' = items db \<and> statuses db' = statuses db"
  unfolding recomputeRollups_def
  by (rule rfold_invariant [where P = "\<lambda>d. items d = items db \<and> statuses d = statuses db"])
     (auto simp: RecomputeRollup_def Let_def result_simps)

lemma flush_tree:
  assumes "tree_ok (items db)" "flush now m db = Inr (res, db')"
  shows "tree_ok (items db')"
  using assms(2)
proof (rule flushE)
  fix highest db1 changes itemSeq st db2 db3
  assume 1: "AllocateSeq (int (eventCount m)) (mu_workspaceID m) db = Inr (highest, db1)"
    and 4: "rfold (apply_change now m itemSeq)
       \<lparr>fs_db = db1, fs_touched = mu_touchedPaths m, fs_itemIDs = [], fs_created = [], fs_hardDeled = []\<rparr>
       changes = Inr st"
    and 5: "rfold (\<lambda>d u. sql (InsertRollupRow now u d)) (fs_db st) (fs_created st) = Inr db2"
    and 6: "recomputeRollups now (filter (\<lambda>u. u \<notin> set (fs_hardDeled st)) (dirtyAncestors (fs_touched st))) db2 = Inr db3"
    and 7: "rfold (\<lambda>d e. sql (InsertEvent now (event_row (mu_workspaceID m) e) d)) db3 (all_events changes) = Inr db'"
  have "tree_ok (items (fs_db st))"
    by (rule rfold_invariant [OF 4, where P = "\<lambda>s. tree_ok (items (fs_db s))"])
       (use assms(1) 1 apply_change_tree in \<open>auto simp: AllocateSeq_Inr\<close>)
  moreover have "items db' = items (fs_db st)"
    using insert_events_Inr [OF 7] recompute_items [OF 6] insert_rollups_items [OF 5] by simp
  ultimately show ?thesis by simp
qed

subsection \<open>Properties\<close>

lemma demo_tree_ok: "tree_ok (items demo_tree)" "tree_ok (items demo_db)"
  by (simp_all add: tree_ok_def placed_def demo_items demo_db_def)

lemma placed_path_check:
  assumes "tree_ok its" "i \<in> set its"
    and "\<And>p. it_ParentID i = Some p \<Longrightarrow> old = None \<or> (\<exists>prev. old = Some prev \<and>
      (it_ParentID prev = Some p \<or> (\<forall>par. find_item db p = Some par \<longrightarrow> \<not> ltree_below (it_Path par) (it_Path prev))))"
  shows "item_path_check db old i"
  using assms(1,2)
proof (cases rule: placedE)
  case root
  then show ?thesis by (simp add: item_path_check_def)
next
  case (child q)
  have q: "it_Path q \<noteq> []" "last (it_Path q) = uuid_String (it_ID q)" using path_last [OF assms(1) child(1)] by auto
  then have "it_Path i ! (length (it_Path i) - 2) = uuid_String (it_ID q)"
    using child(4) by (simp add: nth_append last_conv_nth)
  moreover have "2 \<le> length (it_Path i)" using child(4) q(1) by (cases "it_Path q") auto
  ultimately show ?thesis using child assms(3) path_length [OF assms(1,2)]
    by (auto simp: item_path_check_def Let_def split: option.splits)
qed

text \<open>
  C3.  The hierarchy invariant: if paths and parents describe the same forest within projects
  and within eight levels, they do so after any mutation, whatever changes it makes (creates,
  field updates, subtree moves with or without a new rank, soft and hard deletes, links,
  comments) and whatever its callback and options are.
\<close>

theorem Mutate_keeps_tree:
  assumes "tree_ok (items db)" "Mutate now ws fn opts db = (res, db')"
  shows "tree_ok (items db')"
proof (cases res)
  case (Inl e)
  then show ?thesis using assms Mutate_Inl by blast
next
  case (Inr r)
  then show ?thesis using assms flush_tree by (auto simp: Mutate_Inr)
qed

theorem Mutate_keeps_tree_witness:
  "\<exists>res db'. Mutate 100 1 demo_create [WithActor 9] demo_db = (Inr res, db') \<and> tree_ok (items db')"
  using demo_run Mutate_keeps_tree [OF demo_tree_ok(2)] by metis

text \<open>Once the depth and the parent are checked, every row the subtree statement rewrites passes the trigger.\<close>

lemma ReparentSubtree_path_ok:
  assumes "tree_ok (items db)" and "find_item db (rp_ID r) = Some it"
    and "reparent_target it r db = Inr target" and "subtree_height (it_Path it) db = Inr h"
    and "(if target \<noteq> [] then int (count_dots target) + 1 else 0) + h \<le> 8"
  shows "ReparentSubtree now (rp_ID r) (rp_NewParentID r) target (join_dots (it_Path it)) seq db
           \<noteq> Inl (CheckViolation ''item_path_check'')"
proof -
  obtain base where b: "ltree_of_text target = Some base" "move_ready (items db) it (rp_NewParentID r) base"
    "it \<in> set (items db)" "it_ID it = rp_ID r" using reparent_ready [OF assms] .
  let ?f = "moved_row (rp_ID r) (rp_NewParentID r) base (it_Path it) seq now"
  have ok': "tree_ok (move_items (rp_ID r) (rp_NewParentID r) base (it_Path it) seq now (items db))"
    using move_tree [OF assms(1) b(3,2)] b(4) by simp
  have "item_path_check db (Some i) (?f i)" if i: "i \<in> set (items db)" "ltree_below (it_Path i) (it_Path it)" for i
  proof (rule placed_path_check [OF ok'])
    show "?f i \<in> set (move_items (rp_ID r) (rp_NewParentID r) base (it_Path it) seq now (items db))"
      using i by (auto simp: move_items_def)
  next
    fix p assume p: "it_ParentID (?f i) = Some p"
    have "\<not> ltree_below (it_Path par) (it_Path i)" if par: "it_ParentID i \<noteq> Some p" "find_item db p = Some par" for par
    proof -
      have top: "it_ID i = it_ID it" "rp_NewParentID r = Some p" using p par(1) b(4) by (auto split: if_splits)
      then have "i = it" using tree_item_eq [OF assms(1) i(1) b(3)] by simp
      obtain q where q: "q \<in> set (items db)" "it_ID q = p" "it_Path q = base" "\<not> ltree_below base (it_Path it)"
        using b(2) top(2) by (auto simp: move_ready_def list_ex_iff)
      have "par = q" using par(2) q tree_item_eq [OF assms(1)] find_item_iff [OF assms(1)] by metis
      then show ?thesis using q \<open>i = it\<close> by simp
    qed
    then show "Some i = None \<or> (\<exists>prev. Some i = Some prev \<and> (it_ParentID prev = Some p \<or>
      (\<forall>par. find_item db p = Some par \<longrightarrow> \<not> ltree_below (it_Path par) (it_Path prev))))" by blast
  qed
  then have "list_all (\<lambda>i. item_path_check db (Some i) (?f i)) (filter (\<lambda>i. ltree_below (it_Path i) (it_Path it)) (items db))"
    by (simp add: list_all_iff)
  then show ?thesis
    using b(1) path_text_facts(4) [OF assms(1) b(3)]
    by (auto simp: ReparentSubtree_def Let_def result_simps moved_row_def update_items_def)
qed

lemma rank_no_path_check:
  "reparent_rank n now it r db \<noteq> Inl (SqlError (CheckViolation ''item_path_check''))"
proof (induction n arbitrary: db)
  case (Suc n)
  have rank: "rank_result x \<noteq> Inl (SqlError e)" for x e by (auto simp: rank_result_def split: option.splits sum.splits rank_error.splits)
  have upd: "update_items sel f d \<noteq> Inl (CheckViolation ''item_path_check'')" for sel f d
    by (auto simp: update_items_def Let_def result_simps)
  have reb: "rebalanceProjectRanks now p ranks d \<noteq> Inl (SqlError (CheckViolation ''item_path_check''))" for p ranks d
    using upd by (auto simp: rebalanceProjectRanks_def SetProjectRanks_def result_simps sql_Inl)
  show ?case using Suc rank upd reb by (auto simp: Let_def result_simps sql_Inl split: prod.splits if_splits)
qed simp

text \<open>
  C9.  The checks in Go are enough for the trigger: on a well-formed hierarchy, \<open>applyReparent\<close>,
  whatever move it is asked for, never fails with \<open>item_path_check\<close> (depth, own id last,
  agreement with the parent, not below itself): a move that the trigger would refuse is refused by
  the guards on project, cycle and depth before the subtree statement.
\<close>

theorem reparent_passes_trigger:
  assumes "tree_ok (items db)"
  shows "applyReparent now r seq db \<noteq> Inl (SqlError (CheckViolation ''item_path_check''))"
proof -
  have "reparent_target it r db \<noteq> Inl (SqlError (CheckViolation ''item_path_check''))" for it
    by (auto simp: reparent_target_def result_simps sql_Inl GetItem_def split: option.splits)
  moreover have "subtree_height p db \<noteq> Inl (SqlError (CheckViolation ''item_path_check''))" for p
    by (auto simp: subtree_height_def split: option.splits)
  moreover have "ReparentSubtree now (rp_ID r) (rp_NewParentID r) target (join_dots (it_Path it)) seq db \<noteq> Inl (CheckViolation ''item_path_check'')"
    if "find_item db (rp_ID r) = Some it" "reparent_target it r db = Inr target" "subtree_height (it_Path it) db = Inr h"
      "\<not> (if target \<noteq> [] then int (count_dots target) + 1 else 0) + h > 8" for it target h
    using ReparentSubtree_path_ok [OF assms that(1-3)] that(4) by simp
  ultimately show ?thesis
    using rank_no_path_check unfolding applyReparent_def
    by (auto simp: Let_def result_simps sql_Inl GetItem_def split: if_split_asm)
qed

theorem reparent_passes_trigger_witness:
  "(\<exists>paths db'. applyReparent 100 demo_move 5 demo_tree = Inr (paths, db')) \<and>
   applyReparent 100 demo_move 5 demo_tree \<noteq> Inl (SqlError (CheckViolation ''item_path_check''))"
proof -
  have "\<not> isl (applyReparent 100 demo_move 5 demo_tree)" by code_simp
  then have "\<exists>paths db'. applyReparent 100 demo_move 5 demo_tree = Inr (paths, db')"
    by (cases "applyReparent 100 demo_move 5 demo_tree") auto
  with reparent_passes_trigger [OF demo_tree_ok(1)] show ?thesis by blast
qed

end
