(* ===== verification/Sx_Rollup.thy ===== *)
theory Sx_Rollup
  imports Sx_Tree
begin

text \<open>
  Rollup maintenance (\<open>src/internal/store/rollup.go\<close>, ADR-005, ADR-013).  The stored rollup
  row of every item equals the aggregate over its live descendants.  While changes are applied
  this holds for the items that are not dirty, the dirty set being the strict ancestors of the
  touched paths; the recomputation at the end of the flush restores it for the rest.
\<close>

subsection \<open>The dirty set\<close>

definition ancestor_labels :: "string list \<Rightarrow> string set" where
  "ancestor_labels paths = (\<Union>p \<in> set paths. set (butlast (split_dots p)))"

lemma ancestor_labels_simps [simp]:
  "ancestor_labels [] = {}"
  "ancestor_labels (p # ps) = set (butlast (split_dots p)) \<union> ancestor_labels ps"
  "ancestor_labels (ps @ qs) = ancestor_labels ps \<union> ancestor_labels qs"
  by (auto simp: ancestor_labels_def)

definition dirty_inv :: "string list \<times> uuid list \<Rightarrow> bool" where
  "dirty_inv acc = (\<forall>u. uuid_String u \<in> set (fst acc) \<longrightarrow> u \<in> set (snd acc))"

lemma dirty_label_step:
  "dirty_inv acc \<Longrightarrow> dirty_inv (dirty_label acc l) \<and> set (fst (dirty_label acc l)) = insert l (set (fst acc))"
  by (cases acc) (auto simp: dirty_inv_def dirty_label_def split: option.splits)

lemma dirty_label_fold:
  "dirty_inv acc \<Longrightarrow> dirty_inv (foldl dirty_label acc ls) \<and>
   set (fst (foldl dirty_label acc ls)) = set ls \<union> set (fst acc)"
proof (induction ls arbitrary: acc)
  case (Cons l ls)
  then show ?case using dirty_label_step [OF Cons.prems, of l] by simp
qed simp

lemma dirty_fold:
  "dirty_inv acc \<Longrightarrow>
   dirty_inv (foldl (\<lambda>acc p. foldl dirty_label acc (butlast (split_dots p))) acc ps) \<and>
   set (fst (foldl (\<lambda>acc p. foldl dirty_label acc (butlast (split_dots p))) acc ps)) =
     ancestor_labels ps \<union> set (fst acc)"
proof (induction ps arbitrary: acc)
  case (Cons p ps)
  then show ?case using dirty_label_fold [OF Cons.prems, of "butlast (split_dots p)"] by auto
qed simp

lemma dirtyAncestors_complete: "uuid_String u \<in> ancestor_labels ps \<Longrightarrow> u \<in> set (dirtyAncestors ps)"
  using dirty_fold [of "([], [])" ps] by (auto simp: dirtyAncestors_def dirty_inv_def)

definition canonical_inv :: "string list \<times> uuid list \<Rightarrow> bool" where
  "canonical_inv acc = (distinct (snd acc) \<and> uuid_String ` set (snd acc) = set (fst acc))"

lemma canonical_label_step:
  assumes "canonical_inv acc" "l = uuid_String u"
  shows "canonical_inv (dirty_label acc l)"
proof (cases acc)
  case (Pair seen out)
  have "u \<notin> set out" if "l \<notin> set seen" using that assms Pair by (auto simp: canonical_inv_def)
  then show ?thesis using assms Pair by (auto simp: canonical_inv_def dirty_label_def)
qed

lemma canonical_label_fold:
  "canonical_inv acc \<Longrightarrow> set ls \<subseteq> range uuid_String \<Longrightarrow> canonical_inv (foldl dirty_label acc ls)"
proof (induction ls arbitrary: acc)
  case (Cons l ls)
  obtain u where "l = uuid_String u" using Cons.prems(2) by auto
  then show ?case using Cons canonical_label_step [OF Cons.prems(1)] by simp
qed simp

lemma canonical_fold:
  "canonical_inv acc \<Longrightarrow> ancestor_labels ps \<subseteq> range uuid_String \<Longrightarrow>
   canonical_inv (foldl (\<lambda>acc p. foldl dirty_label acc (butlast (split_dots p))) acc ps)"
proof (induction ps arbitrary: acc)
  case (Cons p ps)
  then show ?case using canonical_label_fold [OF Cons.prems(1), of "butlast (split_dots p)"] by simp
qed simp

text \<open>
  \<open>dirtyAncestors\<close> on the texts of id paths lists each id that occurs in an ancestor
  position of some path, and lists it once.
\<close>

theorem dirtyAncestors_exact:
  "distinct (dirtyAncestors (map (\<lambda>us. join_dots (map uuid_String us)) uss)) \<and>
   set (dirtyAncestors (map (\<lambda>us. join_dots (map uuid_String us)) uss)) = (\<Union>us \<in> set uss. set (butlast us))"
proof -
  let ?ps = "map (\<lambda>us. join_dots (map uuid_String us)) uss"
  have split: "butlast (split_dots (join_dots (map uuid_String us))) = map uuid_String (butlast us)" for us
    by (cases "us = []") (simp_all add: split_join [OF uuid_labels.enc_dotless] map_butlast)
  have labels: "ancestor_labels ?ps = uuid_String ` (\<Union>us \<in> set uss. set (butlast us))"
    by (auto simp: ancestor_labels_def split)
  have "canonical_inv (foldl (\<lambda>acc p. foldl dirty_label acc (butlast (split_dots p))) ([], []) ?ps)"
    by (rule canonical_fold) (auto simp: canonical_inv_def labels)
  moreover have "set (fst (foldl (\<lambda>acc p. foldl dirty_label acc (butlast (split_dots p))) ([], []) ?ps)) = ancestor_labels ?ps"
    using dirty_fold [of "([], [])" ?ps] by (simp add: dirty_inv_def)
  ultimately have "distinct (dirtyAncestors ?ps)" "uuid_String ` set (dirtyAncestors ?ps) = ancestor_labels ?ps"
    by (simp_all add: canonical_inv_def dirtyAncestors_def)
  then show ?thesis using labels uuid_labels.enc_inject by (auto simp: inj_image_eq_iff inj_def)
qed

subsection \<open>Contributions\<close>

definition contrib_of :: "database \<Rightarrow> ltree \<Rightarrow> uuid \<Rightarrow> Item \<Rightarrow> contribution option" where
  "contrib_of db p u i =
     (if ltree_below (it_Path i) p \<and> it_ID i \<noteq> u \<and> it_DeletedAt i = None
      then map_option (\<lambda>c. \<lparr>co_points = it_Points i, co_start = it_StartDate i,
                             co_due = it_DueDate i, co_category = c\<rparr>)
             (status_category db (it_StatusID i))
      else None)"

lemma descendants_contrib:
  "find_item db u = Some a \<Longrightarrow> descendants db u = List.map_filter (contrib_of db (it_Path a) u) (items db)"
  by (simp add: descendants_def contrib_of_def [abs_def])

lemma contrib_of_statuses: "statuses db' = statuses db \<Longrightarrow> contrib_of db' = contrib_of db"
  by (simp add: contrib_of_def status_category_def fun_eq_iff)

lemma map_filter_map: "List.map_filter f (map g xs) = List.map_filter (\<lambda>x. f (g x)) xs"
  by (induction xs) (simp_all add: List.map_filter_simps split: option.splits)

lemma map_filter_cong': "(\<And>x. x \<in> set xs \<Longrightarrow> f x = g x) \<Longrightarrow> List.map_filter f xs = List.map_filter g xs"
  by (induction xs) (simp_all add: List.map_filter_simps split: option.splits)

lemma map_filter_none: "(\<And>x. x \<in> set xs \<Longrightarrow> f x = None) \<Longrightarrow> List.map_filter f xs = []"
  by (induction xs) (simp_all add: List.map_filter_simps split: option.splits)

text \<open>When every row keeps its contribution to \<open>u\<close>, the descendants of \<open>u\<close> are the same.\<close>

lemma descendants_map:
  assumes "items db' = map g (items db)" "statuses db' = statuses db" "\<And>i. it_ID (g i) = it_ID i"
    and "find_item db u = Some a"
    and "\<And>i. i \<in> set (items db) \<Longrightarrow> contrib_of db (it_Path (g a)) u (g i) = contrib_of db (it_Path a) u i"
  shows "descendants db' u = descendants db u"
proof -
  have "find (\<lambda>i. it_ID i = u) (map g its) = map_option g (find (\<lambda>i. it_ID i = u) its)" for its
    using assms(3) by (induction its) simp_all
  then have "find_item db' u = Some (g a)" using assms(1,4) by (simp add: find_item_def)
  then have "descendants db' u = List.map_filter (\<lambda>i. contrib_of db (it_Path (g a)) u (g i)) (items db)"
    by (simp add: descendants_contrib assms(1) contrib_of_statuses [OF assms(2)] map_filter_map)
  also have "\<dots> = List.map_filter (contrib_of db (it_Path a) u) (items db)"
    by (rule map_filter_cong') (rule assms(5))
  finally show ?thesis by (simp add: descendants_contrib [OF assms(4)])
qed

lemma path_inject:
  assumes "tree_ok its" "i \<in> set its" "j \<in> set its" "it_Path i = it_Path j"
  shows "i = j"
proof (rule tree_item_eq [OF assms(1-3)])
  have "uuid_String (it_ID i) = uuid_String (it_ID j)"
    using path_last [OF assms(1,2)] path_last [OF assms(1,3)] assms(4) by simp
  then show "it_ID i = it_ID j" by (simp add: uuid_labels.enc_inject)
qed

text \<open>An item contributes to \<open>y\<close> only if \<open>y\<close> labels an ancestor position of its path.\<close>

lemma below_label_iff:
  assumes "tree_ok its" "y \<in> set its" "d \<in> set its"
  shows "ltree_below (it_Path d) (it_Path y) \<and> it_ID d \<noteq> it_ID y \<longleftrightarrow>
    uuid_String (it_ID y) \<in> set (butlast (it_Path d))"
proof -
  have "it_Path d = it_Path y \<longleftrightarrow> it_ID d = it_ID y"
    using path_inject [OF assms(1,3,2)] tree_item_eq [OF assms(1,3,2)] by metis
  then show ?thesis unfolding ancestor_label_iff [OF assms] ltree_below_def strict_prefix_def by metis
qed

lemma contrib_none:
  assumes "tree_ok its" "y \<in> set its" "d \<in> set its" "uuid_String (it_ID y) \<notin> set (butlast (it_Path d))"
  shows "contrib_of db (it_Path y) (it_ID y) d = None"
  using below_label_iff [OF assms(1-3)] assms(4) by (auto simp: contrib_of_def)

text \<open>
  The frame condition of one change: for an item outside the dirty labels, the descendants are
  as before, and an item that is new has none.
\<close>

definition rollup_frame :: "string set \<Rightarrow> database \<Rightarrow> database \<Rightarrow> bool" where
  "rollup_frame dirty db db' =
     (\<forall>u \<in> it_ID ` set (items db'). uuid_String u \<notin> dirty \<longrightarrow>
        (if u \<in> it_ID ` set (items db) then descendants db' u = descendants db u else descendants db' u = []))"

lemma rollup_frame_trans:
  assumes "rollup_frame A x y" "rollup_frame B y z" "it_ID ` set (items z) \<inter> it_ID ` set (items x) \<subseteq> it_ID ` set (items y)"
    "A \<subseteq> C" "B \<subseteq> C"
  shows "rollup_frame C x z"
  unfolding rollup_frame_def
proof (intro ballI impI)
  fix u assume u: "u \<in> it_ID ` set (items z)" "uuid_String u \<notin> C"
  have yz: "if u \<in> it_ID ` set (items y) then descendants z u = descendants y u else descendants z u = []"
    using assms(2,5) u unfolding rollup_frame_def by blast
  have xy: "if u \<in> it_ID ` set (items x) then descendants y u = descendants x u else descendants y u = []"
    if "u \<in> it_ID ` set (items y)" using assms(1,4) u that unfolding rollup_frame_def by blast
  show "if u \<in> it_ID ` set (items x) then descendants z u = descendants x u else descendants z u = []"
  proof (cases "u \<in> it_ID ` set (items y)")
    case True
    then show ?thesis using xy yz by (simp split: if_splits)
  next
    case False
    then have "u \<notin> it_ID ` set (items x)" using assms(3) u by blast
    then show ?thesis using yz False by simp
  qed
qed

text \<open>An update that keeps the hierarchy changes only the rollups of the ancestors of its rows.\<close>

lemma update_rollup_frame:
  assumes ok: "tree_ok (items db)" and f: "keeps_place f" and up: "update_items sel f db = Inr (rows, db')"
    and dirty: "\<And>i. i \<in> set (items db) \<Longrightarrow> sel i \<Longrightarrow>
       set (butlast (it_Path i)) \<subseteq> dirty \<or> (\<forall>d p u. contrib_of d p u (f i) = contrib_of d p u i)"
  shows "rollup_frame dirty db db'"
  unfolding rollup_frame_def
proof (intro ballI impI)
  define g where "g i = (if sel i then f i else i)" for i
  have items: "items db' = map g (items db)" "statuses db' = statuses db"
    using up by (auto simp: update_items_Inr g_def)
  have g: "it_ID (g i) = it_ID i" "it_Path (g i) = it_Path i" for i using f by (auto simp: g_def keeps_place_def)
  fix u assume u: "u \<in> it_ID ` set (items db')" "uuid_String u \<notin> dirty"
  then obtain a where a: "a \<in> set (items db)" "it_ID a = u" by (auto simp: items g)
  have find: "find_item db u = Some a" using a find_item_iff [OF ok] by blast
  have "descendants db' u = descendants db u"
  proof (rule descendants_map [OF items g(1) find])
    fix i assume i: "i \<in> set (items db)"
    show "contrib_of db (it_Path (g a)) u (g i) = contrib_of db (it_Path a) u i"
    proof (cases "sel i \<and> set (butlast (it_Path i)) \<subseteq> dirty")
      case True
      have tree': "tree_ok (items db')" by (rule update_items_tree [OF f ok up])
      have "uuid_String (it_ID a) \<notin> set (butlast (it_Path i))" using u(2) a(2) True by blast
      then have "contrib_of db (it_Path a) (it_ID a) i = None" "contrib_of db (it_Path (g a)) (it_ID (g a)) (g i) = None"
        using contrib_none [OF ok a(1) i] contrib_none [OF tree', of "g a" "g i"] a(1) i by (auto simp: g items)
      then show ?thesis using a(2) by (simp add: g)
    next
      case False
      then show ?thesis using dirty [OF i] g(2) [of a] by (auto simp: g_def [of i])
    qed
  qed
  then show "if u \<in> it_ID ` set (items db) then descendants db' u = descendants db u else descendants db' u = []"
    using a by auto
qed

lemma map_filter_append: "List.map_filter f (xs @ ys) = List.map_filter f xs @ List.map_filter f ys"
  by (induction xs) (simp_all add: List.map_filter_simps split: option.splits)

lemma insert_rollup_frame:
  assumes ok: "tree_ok (items db)" and ok': "tree_ok (items db')"
    and items: "items db' = items db @ [row]" and st: "statuses db' = statuses db"
  shows "rollup_frame (set (butlast (it_Path row))) db db'"
  unfolding rollup_frame_def
proof (intro ballI impI)
  fix u assume u: "u \<in> it_ID ` set (items db')" "uuid_String u \<notin> set (butlast (it_Path row))"
  have fresh: "it_ID i \<noteq> it_ID row" if "i \<in> set (items db)" for i
    using tree_ok_distinct [OF ok'] imageI [OF that, of it_ID] unfolding items by auto
  obtain a where a: "a \<in> set (items db')" "it_ID a = u" using u by blast
  have d': "descendants db' u = List.map_filter (contrib_of db (it_Path a) u) (items db @ [row])"
    using find_item_iff [OF ok'] a by (simp add: descendants_contrib contrib_of_statuses [OF st] items)
  show "if u \<in> it_ID ` set (items db) then descendants db' u = descendants db u else descendants db' u = []"
  proof (cases "u \<in> it_ID ` set (items db)")
    case True
    then obtain x where "x \<in> set (items db)" "it_ID x = it_ID a" using a(2) by auto
    then have "a \<noteq> row" using fresh by metis
    then have adb: "a \<in> set (items db)" using a(1) by (simp add: items)
    have "contrib_of db (it_Path a) u row = None"
      using contrib_none [OF ok' a(1), of row] u(2) a(2) by (simp add: items)
    then show ?thesis using True d' adb a(2) find_item_iff [OF ok]
      by (simp add: descendants_contrib map_filter_append List.map_filter_simps)
  next
    case False
    then have "a = row" using a items by auto
    have "contrib_of db (it_Path row) u i = None" if i: "i \<in> set (items db)" for i
    proof -
      have "\<not> ltree_below (it_Path i) (it_Path row)"
      proof
        assume "ltree_below (it_Path i) (it_Path row)"
        moreover have "it_Path row \<noteq> []" using path_last [OF ok', of row] by (simp add: items)
        ultimately obtain b where b: "b \<in> set (items db)" "it_Path b = it_Path row"
          using path_prefix_item [OF ok i] by (auto simp: ltree_below_def)
        then have "b = row" using path_inject [OF ok', of b row] by (simp add: items)
        then show False using fresh [OF b(1)] by simp
      qed
      then show ?thesis by (simp add: contrib_of_def)
    qed
    moreover have "contrib_of db (it_Path row) u row = None" using a(2) \<open>a = row\<close> by (simp add: contrib_of_def)
    ultimately have "descendants db' u = []" using d' \<open>a = row\<close>
      by (simp add: map_filter_append map_filter_none List.map_filter_simps)
    then show ?thesis using False by simp
  qed
qed

lemma map_filter_filter:
  "(\<And>x. x \<in> set xs \<Longrightarrow> \<not> P x \<Longrightarrow> f x = None) \<Longrightarrow> List.map_filter f (filter P xs) = List.map_filter f xs"
  by (induction xs) (simp_all add: List.map_filter_simps split: option.splits)

lemma delete_rollup_frame:
  assumes ok: "tree_ok (items db)" and ok': "tree_ok (items db')" and row: "row \<in> set (items db)"
    and items: "items db' = filter (\<lambda>i. it_ID i \<noteq> it_ID row) (items db)" and st: "statuses db' = statuses db"
  shows "rollup_frame (set (butlast (it_Path row))) db db'"
  unfolding rollup_frame_def
proof (intro ballI impI)
  fix u assume u: "u \<in> it_ID ` set (items db')" "uuid_String u \<notin> set (butlast (it_Path row))"
  obtain a where a: "a \<in> set (items db')" "it_ID a = u" using u by blast
  then have adb: "a \<in> set (items db)" by (simp add: items)
  have "contrib_of db (it_Path a) u i = None" if "i \<in> set (items db)" "\<not> it_ID i \<noteq> it_ID row" for i
    using that contrib_none [OF ok adb row] u(2) a(2) tree_item_eq [OF ok that(1) row] by simp
  then have "List.map_filter (contrib_of db (it_Path a) u) (filter (\<lambda>i. it_ID i \<noteq> it_ID row) (items db)) =
      List.map_filter (contrib_of db (it_Path a) u) (items db)" by (rule map_filter_filter)
  then have "descendants db' u = descendants db u"
    using descendants_contrib [of db' u a] descendants_contrib [of db u a] find_item_iff [OF ok'] find_item_iff [OF ok] a adb
    by (simp add: contrib_of_statuses [OF st] items)
  then show "if u \<in> it_ID ` set (items db) then descendants db' u = descendants db u else descendants db' u = []"
    using adb a(2) by auto
qed

text \<open>
  A move.  The dirty labels are the ancestors of the old path of the moved item and of the
  new paths of all moved rows.
\<close>

lemma contrib_moved [simp]:
  "contrib_of db p u (moved_row v np base old seq now i) =
     contrib_of db p u (i\<lparr>it_Path := base @ drop (length old - 1) (it_Path i)\<rparr>)"
  by (simp add: contrib_of_def moved_row_def)

lemma move_rollup_frame:
  assumes ok: "tree_ok (items db)" and it: "it \<in> set (items db)"
    and ready: "move_ready (items db) it np base"
    and items: "items db' = move_items (it_ID it) np base (it_Path it) seq now (items db)"
    and st: "statuses db' = statuses db"
    and old: "set (butlast (it_Path it)) \<subseteq> dirty"
    and new: "\<And>i. i \<in> set (items db) \<Longrightarrow> ltree_below (it_Path i) (it_Path it) \<Longrightarrow>
      set (butlast (base @ drop (length (it_Path it) - 1) (it_Path i))) \<subseteq> dirty"
  shows "rollup_frame dirty db db'"
  unfolding rollup_frame_def
proof (intro ballI impI)
  define sel where "sel i = ltree_below (it_Path i) (it_Path it)" for i :: Item
  define g where "g i = (if sel i then moved_row (it_ID it) np base (it_Path it) seq now i else i)" for i
  have items': "items db' = map g (items db)" by (simp add: items move_items_def g_def sel_def)
  have ok': "tree_ok (items db')" unfolding items by (rule move_tree [OF ok it ready])
  have gid: "it_ID (g i) = it_ID i" for i by (simp add: g_def)
  fix u assume u: "u \<in> it_ID ` set (items db')" "uuid_String u \<notin> dirty"
  then obtain a where a: "a \<in> set (items db)" "it_ID a = u" by (auto simp: items' gid)
  have find: "find_item db u = Some a" using a find_item_iff [OF ok] by blast
  have moved_none: "contrib_of db (it_Path (g a)) u (g i) = None" if i: "i \<in> set (items db)" "sel i" for i
  proof -
    have "it_Path (g i) = base @ drop (length (it_Path it) - 1) (it_Path i)" using i by (simp add: g_def)
    then have "uuid_String (it_ID (g a)) \<notin> set (butlast (it_Path (g i)))"
      using new [OF i(1)] i(2) u(2) a(2) gid by (auto simp: sel_def)
    then show ?thesis using contrib_none [OF ok', of "g a" "g i"] a i gid by (simp add: items')
  qed
  have same: "contrib_of db (it_Path (g a)) u (g i) = contrib_of db (it_Path a) u i" if i: "i \<in> set (items db)" for i
  proof (cases "sel i")
    case True
    have "uuid_String u \<notin> set (butlast (it_Path i))"
    proof
      assume "uuid_String u \<in> set (butlast (it_Path i))"
      then have sp: "strict_prefix (it_Path a) (it_Path i)" using ancestor_label_iff [OF ok a(1) i] a(2) by simp
      show False
      proof (cases "sel a")
        case True
        then have "it_Path (g a) = base @ drop (length (it_Path it) - 1) (it_Path a)"
          "it_Path (g i) = base @ drop (length (it_Path it) - 1) (it_Path i)" using \<open>sel i\<close> by (simp_all add: g_def)
        moreover obtain rest where "it_Path i = it_Path a @ rest" using sp by (auto simp: strict_prefix_def prefix_def)
        moreover have "length (it_Path it) - 1 \<le> length (it_Path a)"
          using True by (auto simp: sel_def ltree_below_def prefix_def)
        ultimately have "ltree_below (it_Path (g i)) (it_Path (g a))" by (simp add: ltree_below_def)
        moreover have "it_ID (g i) \<noteq> it_ID (g a)" using sp gid tree_item_eq [OF ok i a(1)] by auto
        ultimately have "uuid_String (it_ID (g a)) \<in> set (butlast (it_Path (g i)))"
          using below_label_iff [OF ok', of "g a" "g i"] a i by (simp add: items')
        then show False using new [OF i] \<open>sel i\<close> u(2) a(2) gid by (auto simp: sel_def g_def)
      next
        case False
        have "prefix (it_Path it) (it_Path i)" using \<open>sel i\<close> by (simp add: sel_def ltree_below_def)
        then have "strict_prefix (it_Path a) (it_Path it)"
          using sp False prefix_same_cases [of "it_Path it" "it_Path i" "it_Path a"]
          by (auto simp: sel_def ltree_below_def strict_prefix_def)
        then have "uuid_String u \<in> set (butlast (it_Path it))" using ancestor_label_iff [OF ok a(1) it] a(2) by simp
        then show False using old u(2) by blast
      qed
    qed
    then show ?thesis using moved_none [OF i True] contrib_none [OF ok a(1) i] a(2) by simp
  next
    case False
    then have gi: "g i = i" by (simp add: g_def)
    show ?thesis
    proof (cases "sel a")
      case True
      then have "\<not> ltree_below (it_Path i) (it_Path a)"
        using False by (auto simp: sel_def ltree_below_def)
      moreover have "\<not> ltree_below (it_Path i) (it_Path (g a))"
      proof
        assume "ltree_below (it_Path i) (it_Path (g a))"
        moreover have "uuid_String (it_ID it) \<in> set (it_Path (g a))"
          using True below_split [OF ok it a(1)] by (fastforce simp: g_def sel_def)
        ultimately have "uuid_String (it_ID it) \<in> set (it_Path i)" by (auto simp: ltree_below_def prefix_def)
        moreover have "it_Path i = butlast (it_Path i) @ [uuid_String (it_ID i)]"
          using path_last [OF ok i] by (metis append_butlast_last_id)
        ultimately have "uuid_String (it_ID it) \<in> set (butlast (it_Path i)) \<or> it_ID i = it_ID it"
          using uuid_labels.enc_inject by (metis Un_iff empty_iff empty_set set_ConsD set_append)
        then have "sel i"
          using ancestor_label_iff [OF ok it i] tree_item_eq [OF ok i it]
          by (auto simp: sel_def ltree_below_def strict_prefix_def)
        then show False using False by blast
      qed
      ultimately show ?thesis using gi by (simp add: contrib_of_def)
    next
      case a': False
      then have "g a = a" by (simp add: g_def)
      then show ?thesis using gi by simp
    qed
  qed
  have "descendants db' u = descendants db u"
    by (rule descendants_map [OF items' st gid find same])
  then show "if u \<in> it_ID ` set (items db) then descendants db' u = descendants db u else descendants db' u = []"
    using a by auto
qed

subsection \<open>The effect of one change\<close>

definition item_ids :: "database \<Rightarrow> uuid set" where
  "item_ids db = it_ID ` set (items db)"

definition rollup_ids :: "database \<Rightarrow> uuid set" where
  "rollup_ids db = ru_ItemID ` set (rollups db)"

lemma rollup_frame_subset: "rollup_frame A db db' \<Longrightarrow> A \<subseteq> B \<Longrightarrow> rollup_frame B db db'"
  unfolding rollup_frame_def by blast

lemma descendants_same:
  assumes "items db' = items db" "statuses db' = statuses db"
  shows "descendants db' u = descendants db u"
  unfolding descendants_def find_item_def status_category_def assms ..

lemma same_items_frame:
  assumes "items db' = items db" "statuses db' = statuses db"
  shows "rollup_frame A db db'"
  unfolding rollup_frame_def descendants_same [OF assms] assms by simp

lemma reranked_frame:
  assumes "tree_ok (items db)" "reranked db db'"
  shows "rollup_frame A db db'" "item_ids db' = item_ids db" "rollups db' = rollups db" "statuses db' = statuses db"
proof -
  obtain g where g: "rank_only g" "db' = db\<lparr>items := map g (items db)\<rparr>" using assms(2) unfolding reranked_def by blast
  have same: "it_ID (g i) = it_ID i \<and> it_Path (g i) = it_Path i \<and> contrib_of d p u (g i) = contrib_of d p u i" for i d p u
  proof -
    obtain r v t where "g i = i\<lparr>it_Rank := r, it_Version := v, it_UpdatedAt := t\<rparr>" using g(1) unfolding rank_only_def by blast
    then show ?thesis by (simp add: contrib_of_def)
  qed
  have "descendants db' u = descendants db u" if u: "u \<in> it_ID ` set (items db)" for u
  proof -
    obtain a where "a \<in> set (items db)" "it_ID a = u" using u by auto
    then have "find_item db u = Some a" using find_item_iff [OF assms(1)] by simp
    then show ?thesis by (rule descendants_map [of db' g, rotated 3]) (simp_all add: g(2) same)
  qed
  moreover have ids: "it_ID ` set (items db') = it_ID ` set (items db)" using same by (auto simp: g(2) image_image)
  ultimately show "rollup_frame A db db'" unfolding rollup_frame_def by simp
  show "item_ids db' = item_ids db" using ids by (simp add: item_ids_def)
  show "rollups db' = rollups db" "statuses db' = statuses db" by (simp_all add: g(2))
qed

lemma update_effect:
  assumes "tree_ok (items db)" "keeps_place f" "update_items sel f db = Inr (rows, db')"
    and "\<And>i. i \<in> set (items db) \<Longrightarrow> sel i \<Longrightarrow>
       set (butlast (it_Path i)) \<subseteq> dirty \<or> (\<forall>d p u. contrib_of d p u (f i) = contrib_of d p u i)"
  shows "rollup_frame dirty db db'" "item_ids db' = item_ids db" "rollups db' = rollups db" "statuses db' = statuses db"
proof -
  show "rollup_frame dirty db db'" by (rule update_rollup_frame [OF assms])
  have ids: "map it_ID (map (\<lambda>i. if sel i then f i else i) (items db)) = map it_ID (items db)"
    using assms(2) by (simp add: keeps_place_def)
  have items: "items db' = map (\<lambda>i. if sel i then f i else i) (items db)" using assms(3) by (simp add: update_items_Inr)
  show "item_ids db' = item_ids db" using arg_cong [OF ids, of set] unfolding items item_ids_def set_map .
  show "rollups db' = rollups db" "statuses db' = statuses db" using assms(3) by (auto simp: update_items_Inr)
qed

lemma bump_effect:
  assumes "tree_ok (items db)" "bump_item now u seq db = Inr db'"
  shows "rollup_frame A db db'" "item_ids db' = item_ids db" "rollups db' = rollups db" "statuses db' = statuses db"
proof -
  obtain rows where up: "update_items (\<lambda>i. it_ID i = u)
       (\<lambda>i. i\<lparr>it_Version := it_Version i + 1, it_ChangeSeq := seq, it_UpdatedAt := now\<rparr>) db = Inr (rows, db')"
    using assms(2) by (auto simp: bump_item_def result_simps)
  have "keeps_place (\<lambda>i. i\<lparr>it_Version := it_Version i + 1, it_ChangeSeq := seq, it_UpdatedAt := now\<rparr>)"
    by (simp add: keeps_place_def)
  note eff = update_effect [OF assms(1) this up, of A]
  show "rollup_frame A db db'" "item_ids db' = item_ids db" "rollups db' = rollups db" "statuses db' = statuses db"
    by (rule eff, simp add: contrib_of_def)+
qed

text \<open>A single-row update that reports the path of its row.\<close>

lemma row_update_effect:
  assumes ok: "tree_ok (items db)" and f: "keeps_place f"
    and up: "update_items sel f db = Inr (row # rows, db')" and one: "\<And>i. sel i \<Longrightarrow> it_ID i = u"
  shows "rollup_frame (ancestor_labels [join_dots (it_Path row)]) db db'" "item_ids db' = item_ids db"
    "rollups db' = rollups db" "statuses db' = statuses db"
proof -
  have "row # rows = map f (filter sel (items db))" using up by (simp add: update_items_Inr)
  then have "row \<in> set (map f (filter sel (items db)))" by (metis list.set_intros(1))
  then obtain x where x: "x \<in> set (items db)" "it_ID x = u" "row = f x" using one by auto
  have labels: "ancestor_labels [join_dots (it_Path row)] = set (butlast (it_Path x))"
    using x f path_text_facts(5) [OF ok x(1)] by (simp add: keeps_place_def)
  note eff = update_effect [OF ok f up, of "set (butlast (it_Path x))"]
  have *: "set (butlast (it_Path i)) \<subseteq> set (butlast (it_Path x)) \<or> Q" if "i \<in> set (items db)" "sel i" for i Q
    using that one [OF that(2)] tree_item_eq [OF ok that(1) x(1)] x(2) by simp
  show "rollup_frame (ancestor_labels [join_dots (it_Path row)]) db db'" unfolding labels by (rule eff) (rule *)
  show "item_ids db' = item_ids db" by (rule eff(2)) (rule *)
  show "rollups db' = rollups db" "statuses db' = statuses db" using up by (auto simp: update_items_Inr)
qed

lemma update_op_effect:
  assumes "tree_ok (items db)" "applyUpdate now up seq db = Inr (path, db')"
  shows "rollup_frame (ancestor_labels [path]) db db'" "item_ids db' = item_ids db" "rollups db' = rollups db"
proof -
  obtain f row rows where up: "update_items (\<lambda>i. it_ID i = iu_ID up) f db = Inr (row # rows, db')"
    "path = join_dots (it_Path row)" "keeps_place f"
    using assms(2) by (auto simp: applyUpdate_def UpdateItemFields_def result_simps update_params_def keeps_place_def)
  note eff = row_update_effect [OF assms(1) up(3,1), of "iu_ID up"]
  show "rollup_frame (ancestor_labels [path]) db db'" "item_ids db' = item_ids db" "rollups db' = rollups db"
    using eff up(2) by simp_all
qed

lemma soft_delete_effect:
  assumes "tree_ok (items db)" "SoftDeleteItem now seq u db = Inr (row, db')"
  shows "rollup_frame (ancestor_labels [join_dots (it_Path row)]) db db'" "item_ids db' = item_ids db"
    "rollups db' = rollups db"
proof -
  obtain rows where up: "update_items (\<lambda>i. it_ID i = u \<and> it_DeletedAt i = None)
      (\<lambda>i. i\<lparr>it_DeletedAt := Some now, it_ChangeSeq := seq, it_Version := it_Version i + 1, it_UpdatedAt := now\<rparr>) db
      = Inr (row # rows, db')"
    using assms(2) by (auto simp: SoftDeleteItem_def result_simps)
  have "keeps_place (\<lambda>i. i\<lparr>it_DeletedAt := Some now, it_ChangeSeq := seq, it_Version := it_Version i + 1, it_UpdatedAt := now\<rparr>)"
    by (simp add: keeps_place_def)
  note eff = row_update_effect [OF assms(1) this up, of u]
  show "rollup_frame (ancestor_labels [join_dots (it_Path row)]) db db'" "item_ids db' = item_ids db"
    "rollups db' = rollups db"
    using eff by simp_all
qed

text \<open>
  What one change does to the touched paths, the item ids and the rollup rows: an insert adds
  one id without a rollup row, a hard delete removes one id with its row, everything else keeps
  both; and the rollups outside the newly touched ancestors stay right.
\<close>

inductive change_effect :: "flush_state \<Rightarrow> flush_state \<Rightarrow> change \<Rightarrow> bool" where
  insert: "ch_op c = changeInsert ins \<Longrightarrow> fs_touched st' = fs_touched st @ ps \<Longrightarrow>
    rollup_frame (ancestor_labels ps) (fs_db st) (fs_db st') \<Longrightarrow>
    item_ids (fs_db st') = insert (in_ID ins) (item_ids (fs_db st)) \<Longrightarrow> in_ID ins \<notin> item_ids (fs_db st) \<Longrightarrow>
    rollups (fs_db st') = rollups (fs_db st) \<Longrightarrow> fs_created st' = fs_created st @ [in_ID ins] \<Longrightarrow>
    fs_hardDeled st' = fs_hardDeled st \<Longrightarrow> change_effect st st' c"
| delete: "ch_op c = changeHardDelete \<Longrightarrow> fs_touched st' = fs_touched st @ ps \<Longrightarrow>
    rollup_frame (ancestor_labels ps) (fs_db st) (fs_db st') \<Longrightarrow>
    item_ids (fs_db st') = item_ids (fs_db st) - {ch_itemID c} \<Longrightarrow>
    rollups (fs_db st') = filter (\<lambda>r. ru_ItemID r \<noteq> ch_itemID c) (rollups (fs_db st)) \<Longrightarrow>
    fs_created st' = fs_created st \<Longrightarrow> fs_hardDeled st' = fs_hardDeled st @ [ch_itemID c] \<Longrightarrow> change_effect st st' c"
| other: "fs_touched st' = fs_touched st @ ps \<Longrightarrow>
    rollup_frame (ancestor_labels ps) (fs_db st) (fs_db st') \<Longrightarrow> item_ids (fs_db st') = item_ids (fs_db st) \<Longrightarrow>
    rollups (fs_db st') = rollups (fs_db st) \<Longrightarrow> fs_created st' = fs_created st \<Longrightarrow>
    fs_hardDeled st' = fs_hardDeled st \<Longrightarrow> change_effect st st' c"

lemma insert_op_effect:
  assumes ok: "tree_ok (items db)" and op: "applyInsert now m ins seq db = Inr (path, db')"
  shows "rollup_frame (ancestor_labels [path]) db db'" "item_ids db' = insert (in_ID ins) (item_ids db)"
    "in_ID ins \<notin> item_ids db" "rollups db' = rollups db" "statuses db' = statuses db"
proof -
  have ok': "tree_ok (items db')" by (rule insert_op_tree [OF ok op])
  obtain key num db1 cfg rank db2 row where
    1: "NextItemKey (in_ProjectID ins) db = Inr ((key, num), db1)" "items db1 = items db"
    and rr: "reranked db1 db2"
    and 2: "InsertItem now (insert_row m ins key cfg rank seq) path db2 = Inr (row, db')"
    using op by (rule applyInsert_reranked)
  have db1: "statuses db1 = statuses db" "rollups db1 = rollups db" using 1(1) by (auto simp: NextItemKey_Inr)
  have ok1: "tree_ok (items db1)" using ok 1(2) by simp
  note r = reranked_frame [OF ok1 rr]
  have ok2: "tree_ok (items db2)" by (rule reranked_tree [OF rr ok1])
  have ins: "items db' = items db2 @ [row]" "it_ID row = in_ID ins" "ltree_of_text path = Some (it_Path row)"
    "statuses db' = statuses db2" "rollups db' = rollups db2"
    using 2 by (auto simp: InsertItem_Inr insert_row_def)
  have fresh: "in_ID ins \<notin> item_ids db2"
    using tree_ok_distinct [OF ok'] ins by (simp add: item_ids_def)
  have ids: "item_ids db2 = item_ids db" using r(2) 1(2) by (simp add: item_ids_def)
  have "path \<noteq> []" using ins(3) path_text_facts(3) [OF ok', of row] by (auto simp: ins(1) ltree_of_text_def)
  then have "split_dots path = it_Path row" using ins(3) by (auto simp: ltree_of_text_def Let_def split: if_splits)
  then have frame2: "rollup_frame (ancestor_labels [path]) db2 db'"
    using insert_rollup_frame [OF ok2 ok' ins(1,4)] by simp
  have "rollup_frame (ancestor_labels [path]) db db2"
    by (rule rollup_frame_trans [OF same_items_frame [OF 1(2) db1(1), of "{}"] r(1) [of "{}"]])
       (use r(2) 1(2) in \<open>auto simp: item_ids_def\<close>)
  then show "rollup_frame (ancestor_labels [path]) db db'"
    by (rule rollup_frame_trans [OF _ frame2]) (use ids in \<open>auto simp: item_ids_def ins(1)\<close>)
  show "item_ids db' = insert (in_ID ins) (item_ids db)" unfolding ids [symmetric] by (auto simp: item_ids_def ins)
  show "in_ID ins \<notin> item_ids db" using fresh ids by simp
  show "rollups db' = rollups db" "statuses db' = statuses db" using ins r db1 by simp_all
qed

lemma reparent_op_effect:
  assumes ok: "tree_ok (items db)" and op: "applyReparent now r seq db = Inr (paths, db')"
  shows "rollup_frame (ancestor_labels paths) db db'" "item_ids db' = item_ids db" "rollups db' = rollups db"
proof -
  obtain it target h rows db1 where
    1: "find_item db (rp_ID r) = Some it" "reparent_target it r db = Inr target"
    "subtree_height (it_Path it) db = Inr h" "(if target \<noteq> [] then int (count_dots target) + 1 else 0) + h \<le> 8"
    and 2: "ReparentSubtree now (rp_ID r) (rp_NewParentID r) target (join_dots (it_Path it)) seq db = Inr (rows, db1)"
    and paths: "paths = join_dots (it_Path it) # map (\<lambda>row. join_dots (it_Path row)) rows"
    and 3: "db' = db1 \<or> rp_SetRank r \<and> reparent_rank 2 now it r db1 = Inr db'"
    using op by (rule applyReparentE)
  obtain base where b: "ltree_of_text target = Some base" "move_ready (items db) it (rp_NewParentID r) base"
    "it \<in> set (items db)" "it_ID it = rp_ID r" using reparent_ready [OF ok 1] .
  note R = ReparentSubtree_Inr [OF 2 path_text_facts(4) [OF ok b(3)] b(1)]
  have items1: "items db1 = move_items (it_ID it) (rp_NewParentID r) base (it_Path it) seq now (items db)"
    using R(1) b(4) by simp
  have ok1: "tree_ok (items db1)" unfolding items1 by (rule move_tree [OF ok b(3,2)])
  have st1: "statuses db1 = statuses db" "rollups db1 = rollups db" by (subst R(3), simp)+
  have f1: "rollup_frame (ancestor_labels paths) db db1"
  proof (rule move_rollup_frame [OF ok b(3,2) items1 st1(1)])
    show "set (butlast (it_Path it)) \<subseteq> ancestor_labels paths"
      using path_text_facts(5) [OF ok b(3)] by (simp add: paths)
    fix i assume i: "i \<in> set (items db)" "ltree_below (it_Path i) (it_Path it)"
    let ?row = "moved_row (rp_ID r) (rp_NewParentID r) base (it_Path it) seq now i"
    have "?row \<in> set rows" using i R(2) by simp
    moreover have "?row \<in> set (items db1)" using i b(4) by (auto simp: items1 move_items_def)
    ultimately show "set (butlast (base @ drop (length (it_Path it) - 1) (it_Path i))) \<subseteq> ancestor_labels paths"
      using path_text_facts(5) [OF ok1, of ?row] by (auto simp: paths ancestor_labels_def)
  qed
  have "map it_ID (items db1) = map it_ID (items db)" by (simp add: items1 move_items_def)
  then have ids1: "item_ids db1 = item_ids db" unfolding item_ids_def by (metis list.set_map)
  have rr: "reranked db1 db'" using 3 reparent_rank_reranked reranked_refl by blast
  note r2 = reranked_frame [OF ok1 rr]
  show "rollup_frame (ancestor_labels paths) db db'"
    by (rule rollup_frame_trans [OF f1 r2(1) [of "{}"]]) (use ids1 in \<open>auto simp: item_ids_def\<close>)
  show "item_ids db' = item_ids db" "rollups db' = rollups db" using r2 ids1 st1 by simp_all
qed

lemma apply_change_effect:
  assumes ok: "tree_ok (items (fs_db st))" and ap: "apply_change now m itemSeq st c = Inr st'"
  shows "change_effect st st' c"
  using ap
proof (cases rule: apply_changeE)
  case (insert ins path db')
  note e = insert_op_effect [OF ok insert(2)]
  show ?thesis by (rule change_effect.insert [of c ins st' st "[path]"]) (use insert e in auto)
next
  case (update up path db')
  note e = update_op_effect [OF ok update(2)]
  show ?thesis by (rule change_effect.other [of st' st "[path]"]) (use update e in auto)
next
  case (reparent r paths db')
  note e = reparent_op_effect [OF ok reparent(2)]
  show ?thesis by (rule change_effect.other [of st' st paths]) (use reparent e in auto)
next
  case (softDelete row db')
  note e = soft_delete_effect [OF ok softDelete(2)]
  show ?thesis by (rule change_effect.other [of st' st "[join_dots (it_Path row)]"]) (use softDelete e in auto)
next
  case (hardDelete row db')
  have row: "row \<in> set (items (fs_db st))" "it_ID row = ch_itemID c" using hardDelete(2) find_item_iff [OF ok] by auto
  note d = HardDelete_Inr [OF hardDelete(3)]
  have "rollup_frame (ancestor_labels [join_dots (it_Path row)]) (fs_db st) db'"
    using delete_rollup_frame [OF ok hard_delete_tree [OF ok hardDelete(2,3)] row(1)] d row path_text_facts(5) [OF ok row(1)] by simp
  moreover have "item_ids db' = item_ids (fs_db st) - {ch_itemID c}" by (auto simp: item_ids_def d)
  ultimately show ?thesis
    by (intro change_effect.delete [of c st' st "[join_dots (it_Path row)]"]) (use hardDelete d in auto)
next
  case (link l row db' db'')
  note l = InsertLink_Inr [OF link(2)]
  have ok': "tree_ok (items db')" using ok l by simp
  note b = bump_effect [OF ok' link(3)]
  have "rollup_frame {} (fs_db st) db''"
    by (rule rollup_frame_trans [OF same_items_frame [of db' "fs_db st" "{}"] b(1) [of "{}"]]) (use l b in \<open>auto simp: item_ids_def\<close>)
  then show ?thesis using link l b
    by (intro change_effect.other [of st' st "[]"]) (simp_all add: item_ids_def)
next
  case (unlink l db')
  have ok': "tree_ok (items (DeleteLink (lc_ID l) (fs_db st)))" using ok by (simp add: DeleteLink_def)
  note b = bump_effect [OF ok' unlink(2)]
  have "rollup_frame {} (fs_db st) db'"
    by (rule rollup_frame_trans [OF same_items_frame [of "DeleteLink (lc_ID l) (fs_db st)" "fs_db st" "{}"] b(1) [of "{}"]])
       (use b in \<open>auto simp: item_ids_def DeleteLink_def\<close>)
  then show ?thesis using unlink b
    by (intro change_effect.other [of st' st "[]"]) (simp_all add: item_ids_def DeleteLink_def)
next
  case (comment cc db' db'')
  have c: "items db' = items (fs_db st)" "statuses db' = statuses (fs_db st)" "rollups db' = rollups (fs_db st)"
    using comment(2) by (auto simp: applyComment_def Let_def result_simps split: if_splits)
  have ok': "tree_ok (items db')" using ok c by simp
  note b = bump_effect [OF ok' comment(3)]
  have "rollup_frame {} (fs_db st) db''"
    by (rule rollup_frame_trans [OF same_items_frame [of db' "fs_db st" "{}"] b(1) [of "{}"]]) (use c b in \<open>auto simp: item_ids_def\<close>)
  then show ?thesis using comment c b
    by (intro change_effect.other [of st' st "[]"]) (simp_all add: item_ids_def)
qed

subsection \<open>The rollup invariant\<close>

definition rollup_current :: "database \<Rightarrow> ItemRollup \<Rightarrow> bool" where
  "rollup_current db r = (r = aggregate (ru_ComputedAt r) (ru_ItemID r) (descendants db (ru_ItemID r)))"

text \<open>One row per item, each row the aggregate over the item's live descendants.\<close>

definition rollups_ok :: "database \<Rightarrow> bool" where
  "rollups_ok db = (distinct (map ru_ItemID (rollups db)) \<and> rollup_ids db = item_ids db \<and>
     list_all (rollup_current db) (rollups db))"

text \<open>The invariant while changes are applied.\<close>

definition flush_inv :: "uuid set \<Rightarrow> flush_state \<Rightarrow> bool" where
  "flush_inv gone st =
     (let db = fs_db st; dirty = ancestor_labels (fs_touched st) in
      tree_ok (items db) \<and> distinct (map ru_ItemID (rollups db)) \<and> rollup_ids db \<subseteq> item_ids db \<and>
      item_ids db \<subseteq> rollup_ids db \<union> set (fs_created st) \<and>
      (\<forall>r \<in> set (rollups db). uuid_String (ru_ItemID r) \<notin> dirty \<longrightarrow> rollup_current db r) \<and>
      (\<forall>u \<in> item_ids db - rollup_ids db. uuid_String u \<notin> dirty \<longrightarrow> descendants db u = []) \<and>
      set (fs_hardDeled st) \<subseteq> gone \<and> set (fs_hardDeled st) \<inter> item_ids db = {})"

definition kinds :: "change list \<Rightarrow> (change_op \<times> uuid) list" where
  "kinds cs = map (\<lambda>c. (ch_op c, ch_itemID c)) cs"

definition inserted_ids :: "change list \<Rightarrow> uuid set" where
  "inserted_ids cs = {u. \<exists>ins v. (changeInsert ins, v) \<in> set (kinds cs) \<and> u = in_ID ins}"

definition hard_deleted_ids :: "change list \<Rightarrow> uuid set" where
  "hard_deleted_ids cs = {u. (changeHardDelete, u) \<in> set (kinds cs)}"

lemma frame_current:
  assumes "rollup_frame A db db'" "ru_ItemID r \<in> item_ids db" "ru_ItemID r \<in> item_ids db'"
    "uuid_String (ru_ItemID r) \<notin> A" "rollup_current db r"
  shows "rollup_current db' r"
proof -
  have "descendants db' (ru_ItemID r) = descendants db (ru_ItemID r)"
    using assms(1) [unfolded rollup_frame_def, rule_format, of "ru_ItemID r"] assms(2-4) by (simp add: item_ids_def)
  then show ?thesis using assms(5) by (simp add: rollup_current_def)
qed

lemma frame_empty:
  assumes "rollup_frame A db db'" "u \<in> item_ids db'" "uuid_String u \<notin> A"
    "u \<in> item_ids db \<Longrightarrow> descendants db u = []"
  shows "descendants db' u = []"
  using assms unfolding rollup_frame_def item_ids_def by (cases "u \<in> it_ID ` set (items db)") auto

lemma change_effect_inv:
  assumes "change_effect st st' c" "flush_inv gone st" "tree_ok (items (fs_db st'))"
    and ins: "\<And>ins. ch_op c = changeInsert ins \<Longrightarrow> in_ID ins \<notin> gone"
    and del: "ch_op c = changeHardDelete \<Longrightarrow> ch_itemID c \<in> gone"
  shows "flush_inv gone st'"
  using assms(1)
proof cases
  case (insert ins ps)
  have inv: "rollup_ids (fs_db st) \<subseteq> item_ids (fs_db st)" using assms(2) by (simp add: flush_inv_def Let_def)
  have ids: "rollup_ids (fs_db st') = rollup_ids (fs_db st)" using insert by (simp add: rollup_ids_def)
  have "rollup_current (fs_db st') r"
    if "r \<in> set (rollups (fs_db st))" "uuid_String (ru_ItemID r) \<notin> ancestor_labels (fs_touched st) \<union> ancestor_labels ps" for r
    by (rule frame_current [OF insert(3)]) (use that inv insert assms(2) in \<open>auto simp: rollup_ids_def flush_inv_def Let_def\<close>)
  moreover have "descendants (fs_db st') u = []"
    if "u \<in> item_ids (fs_db st') - rollup_ids (fs_db st)" "uuid_String u \<notin> ancestor_labels (fs_touched st) \<union> ancestor_labels ps" for u
    by (rule frame_empty [OF insert(3)]) (use that assms(2) in \<open>auto simp: flush_inv_def Let_def\<close>)
  ultimately show ?thesis using assms(2,3) insert ins [OF insert(1)] ids by (auto simp: flush_inv_def Let_def)
next
  case (delete ps)
  have ids: "rollup_ids (fs_db st') = rollup_ids (fs_db st) - {ch_itemID c}" using delete by (auto simp: rollup_ids_def)
  have inv: "rollup_ids (fs_db st) \<subseteq> item_ids (fs_db st)" using assms(2) by (simp add: flush_inv_def Let_def)
  have "rollup_current (fs_db st') r"
    if "r \<in> set (rollups (fs_db st'))" "uuid_String (ru_ItemID r) \<notin> ancestor_labels (fs_touched st) \<union> ancestor_labels ps" for r
    by (rule frame_current [OF delete(3)]) (use that inv delete assms(2) in \<open>auto simp: rollup_ids_def flush_inv_def Let_def\<close>)
  moreover have "descendants (fs_db st') u = []"
    if "u \<in> item_ids (fs_db st') - rollup_ids (fs_db st')" "uuid_String u \<notin> ancestor_labels (fs_touched st) \<union> ancestor_labels ps" for u
    by (rule frame_empty [OF delete(3)]) (use that assms(2) ids delete(4) in \<open>auto simp: flush_inv_def Let_def\<close>)
  moreover have "distinct (map ru_ItemID (rollups (fs_db st')))"
    using assms(2) delete(5) by (simp add: flush_inv_def Let_def distinct_map_filter)
  ultimately show ?thesis using assms(2,3) delete(2,4,6,7) del [OF delete(1)] ids by (auto simp: flush_inv_def Let_def)
next
  case (other ps)
  have ids: "rollup_ids (fs_db st') = rollup_ids (fs_db st)" using other by (simp add: rollup_ids_def)
  have inv: "rollup_ids (fs_db st) \<subseteq> item_ids (fs_db st)" using assms(2) by (simp add: flush_inv_def Let_def)
  have "rollup_current (fs_db st') r"
    if "r \<in> set (rollups (fs_db st))" "uuid_String (ru_ItemID r) \<notin> ancestor_labels (fs_touched st) \<union> ancestor_labels ps" for r
    by (rule frame_current [OF other(2)]) (use that inv other assms(2) in \<open>auto simp: rollup_ids_def flush_inv_def Let_def\<close>)
  moreover have "descendants (fs_db st') u = []"
    if "u \<in> item_ids (fs_db st') - rollup_ids (fs_db st)" "uuid_String u \<notin> ancestor_labels (fs_touched st) \<union> ancestor_labels ps" for u
    by (rule frame_empty [OF other(2)]) (use that assms(2) in \<open>auto simp: flush_inv_def Let_def\<close>)
  ultimately show ?thesis using assms(2,3) other ids by (auto simp: flush_inv_def Let_def)
qed

subsection \<open>Completing the rows and recomputing\<close>

lemma empty_rollup_aggregate: "empty_rollup now u = aggregate now u []"
  by (simp add: empty_rollup_def aggregate_def done_only_def)

definition rows_inv :: "string set \<Rightarrow> database \<Rightarrow> bool" where
  "rows_inv dirty db =
     (distinct (map ru_ItemID (rollups db)) \<and> rollup_ids db \<subseteq> item_ids db \<and>
      (\<forall>r \<in> set (rollups db). uuid_String (ru_ItemID r) \<notin> dirty \<longrightarrow> rollup_current db r) \<and>
      (\<forall>u \<in> item_ids db - rollup_ids db. uuid_String u \<notin> dirty \<longrightarrow> descendants db u = []))"

lemma aggregate_simps [simp]:
  "ru_ItemID (aggregate now u d) = u" "ru_ComputedAt (aggregate now u d) = now"
  by (simp_all add: aggregate_def)

lemma insert_row_inv:
  assumes "rows_inv dirty db" "InsertRollupRow now u db = Inr db'"
  shows "rows_inv dirty db'" "rollup_ids db' = insert u (rollup_ids db)" "item_ids db' = item_ids db"
proof -
  consider (old) "u \<in> rollup_ids db" "db' = db"
    | (new) "u \<notin> rollup_ids db" "u \<in> item_ids db" "db' = db\<lparr>rollups := rollups db @ [aggregate now u []]\<rparr>"
  proof (cases "u \<in> rollup_ids db")
    case True
    then have "list_ex (\<lambda>r. ru_ItemID r = u) (rollups db)" by (auto simp: list_ex_iff rollup_ids_def)
    then show thesis using old True assms(2) by (simp add: InsertRollupRow_def)
  next
    case False
    then have "\<not> list_ex (\<lambda>r. ru_ItemID r = u) (rollups db)" by (auto simp: list_ex_iff rollup_ids_def)
    then show thesis using new False assms(2)
      by (simp add: InsertRollupRow_def result_simps item_ids_def empty_rollup_aggregate)
  qed
  then have "rows_inv dirty db' \<and> rollup_ids db' = insert u (rollup_ids db) \<and> item_ids db' = item_ids db"
  proof cases
    case old
    then show ?thesis using assms(1) by auto
  next
    case new
    have desc: "descendants db' v = descendants db v" for v by (rule descendants_same) (simp_all add: new)
    have ids: "item_ids db' = item_ids db" "rollup_ids db' = insert u (rollup_ids db)"
      by (simp_all add: new item_ids_def rollup_ids_def)
    have cur: "rollup_current db' r = rollup_current db r" for r by (simp add: rollup_current_def desc)
    have "rollup_current db (aggregate now u [])" if "uuid_String u \<notin> dirty"
      using assms(1) new that by (simp add: rows_inv_def rollup_current_def)
    then have "\<forall>r \<in> set (rollups db'). uuid_String (ru_ItemID r) \<notin> dirty \<longrightarrow> rollup_current db' r"
      using assms(1) by (auto simp: new(3) rows_inv_def cur [unfolded new(3)])
    moreover have "distinct (map ru_ItemID (rollups db'))"
      using assms(1) new by (auto simp: rows_inv_def rollup_ids_def)
    ultimately show ?thesis using assms(1) new(2) ids desc by (auto simp: rows_inv_def)
  qed
  then show "rows_inv dirty db'" "rollup_ids db' = insert u (rollup_ids db)" "item_ids db' = item_ids db" by auto
qed

lemma insert_rows_inv:
  assumes "rows_inv dirty db" "rfold (\<lambda>d u. sql (InsertRollupRow now u d)) db us = Inr db'"
  shows "rows_inv dirty db' \<and> rollup_ids db' = rollup_ids db \<union> set us \<and> item_ids db' = item_ids db"
  using assms
proof (induction us arbitrary: db)
  case (Cons u us)
  obtain d where d: "InsertRollupRow now u db = Inr d" "rfold (\<lambda>d u. sql (InsertRollupRow now u d)) d us = Inr db'"
    using Cons.prems(2) by (auto simp: result_simps)
  note i = insert_row_inv [OF Cons.prems(1) d(1)]
  show ?case using Cons.IH [OF i(1) d(2)] i by auto
qed simp

lemma upsert_ids: "ru_ItemID r \<in> ru_ItemID ` set rs \<Longrightarrow> map ru_ItemID (upsert_rollup r rs) = map ru_ItemID rs"
  by (auto simp: upsert_rollup_def list_ex_iff)

lemma recompute_ok:
  assumes "distinct (map ru_ItemID (rollups db))" "rollup_ids db = item_ids db"
    and "\<forall>r \<in> set (rollups db). ru_ItemID r \<notin> set us \<longrightarrow> rollup_current db r"
    and "recomputeRollups now us db = Inr db'"
  shows "rollups_ok db'"
  using assms
proof (induction us arbitrary: db)
  case Nil
  then show ?case by (simp add: recomputeRollups_def rollups_ok_def list_all_iff)
next
  case (Cons u us)
  let ?r = "aggregate now u (descendants db u)"
  obtain d where "RecomputeRollup now u db = Inr d" and rest: "recomputeRollups now us d = Inr db'"
    using Cons.prems(4) by (auto simp: recomputeRollups_def result_simps)
  then have d: "d = db\<lparr>rollups := upsert_rollup ?r (rollups db)\<rparr>" and u: "u \<in> item_ids db"
    by (auto simp: RecomputeRollup_def Let_def result_simps item_ids_def)
  have in_ids: "ru_ItemID ?r \<in> ru_ItemID ` set (rollups db)" using u Cons.prems(2) by (simp add: rollup_ids_def)
  have desc: "descendants d v = descendants db v" for v by (rule descendants_same) (simp_all add: d)
  have cur: "rollup_current d r = rollup_current db r" for r by (simp add: rollup_current_def desc)
  have ids: "map ru_ItemID (rollups d) = map ru_ItemID (rollups db)" using upsert_ids [OF in_ids] by (simp add: d)
  have rows: "r = ?r \<or> r \<in> set (rollups db) \<and> ru_ItemID r \<noteq> u" if "r \<in> set (rollups d)" for r
    using that in_ids by (auto simp: d upsert_rollup_def list_ex_iff split: if_splits)
  have "rollup_current db ?r" by (simp add: rollup_current_def)
  then have "\<forall>r \<in> set (rollups d). ru_ItemID r \<notin> set us \<longrightarrow> rollup_current d r"
    using rows Cons.prems(3) cur by (metis set_ConsD)
  moreover have "rollup_ids d = item_ids d"
    using Cons.prems(2) arg_cong [OF ids, of set] by (simp add: rollup_ids_def item_ids_def d)
  ultimately show ?case using Cons.IH [OF _ _ _ rest] Cons.prems(1) ids by simp
qed

lemma flush_rollups:
  assumes tree: "tree_ok (items db)" and ok: "rollups_ok db" and paths: "mu_touchedPaths m = []"
    and flush: "flush now m db = Inr (res, db')"
    and disj: "inserted_ids (mu_changes m) \<inter> hard_deleted_ids (mu_changes m) = {}"
  shows "rollups_ok db'"
  using flush
proof (rule flushE)
  fix highest db1 changes itemSeq st db2 db3
  assume 1: "AllocateSeq (int (eventCount m)) (mu_workspaceID m) db = Inr (highest, db1)"
    and 3: "assign_seqs (highest - int (eventCount m) + 1) (\<lambda>_. 0) (mu_changes m) = (changes, itemSeq)"
    and 4: "rfold (apply_change now m itemSeq)
       \<lparr>fs_db = db1, fs_touched = mu_touchedPaths m, fs_itemIDs = [], fs_created = [], fs_hardDeled = []\<rparr>
       changes = Inr st"
    and 5: "rfold (\<lambda>d u. sql (InsertRollupRow now u d)) (fs_db st) (fs_created st) = Inr db2"
    and 6: "recomputeRollups now (filter (\<lambda>u. u \<notin> set (fs_hardDeled st)) (dirtyAncestors (fs_touched st))) db2 = Inr db3"
    and 7: "rfold (\<lambda>d e. sql (InsertEvent now (event_row (mu_workspaceID m) e) d)) db3 (all_events changes) = Inr db'"
  let ?gone = "hard_deleted_ids changes"
  have "kinds changes = kinds (mu_changes m)" using assign_seqs_numbers [OF 3] by (simp add: kinds_def)
  then have disj': "inserted_ids changes \<inter> ?gone = {}" using disj by (simp add: inserted_ids_def hard_deleted_ids_def)
  have alloc: "items db1 = items db" "rollups db1 = rollups db" "statuses db1 = statuses db"
    using 1 by (auto simp: AllocateSeq_Inr)
  have desc1: "descendants db1 u = descendants db u" for u by (rule descendants_same [OF alloc(1,3)])
  have inv: "flush_inv ?gone st"
  proof (rule rfold_invariant [OF 4, where P = "flush_inv ?gone"])
    show "flush_inv ?gone \<lparr>fs_db = db1, fs_touched = mu_touchedPaths m, fs_itemIDs = [], fs_created = [], fs_hardDeled = []\<rparr>"
      using tree ok alloc desc1 paths
      by (simp add: flush_inv_def rollups_ok_def rollup_current_def list_all_iff item_ids_def rollup_ids_def)
  next
    fix s c s' assume c: "c \<in> set changes" and s: "flush_inv ?gone s" "apply_change now m itemSeq s c = Inr s'"
    have ts: "tree_ok (items (fs_db s))" using s(1) by (simp add: flush_inv_def Let_def)
    show "flush_inv ?gone s'"
    proof (rule change_effect_inv [OF apply_change_effect [OF ts s(2)] s(1) apply_change_tree [OF ts s(2)]])
      show "in_ID ins \<notin> ?gone" if "ch_op c = changeInsert ins" for ins
      proof -
        have "(changeInsert ins, ch_itemID c) \<in> set (kinds changes)" using that c by (force simp: kinds_def)
        then have "in_ID ins \<in> inserted_ids changes" unfolding inserted_ids_def by blast
        then show ?thesis using disj' by blast
      qed
      show "ch_itemID c \<in> ?gone" if "ch_op c = changeHardDelete"
        using that c by (force simp: hard_deleted_ids_def kinds_def)
    qed
  qed
  let ?dirty = "ancestor_labels (fs_touched st)"
  have rows: "rows_inv ?dirty (fs_db st)" using inv by (auto simp: flush_inv_def rows_inv_def Let_def)
  note r2 = insert_rows_inv [OF rows 5]
  have all2: "rollup_ids db2 = item_ids db2" using r2 inv by (auto simp: flush_inv_def rows_inv_def Let_def)
  have "rollups_ok db3"
  proof (rule recompute_ok [OF _ all2 _ 6])
    show "distinct (map ru_ItemID (rollups db2))" using r2 by (simp add: rows_inv_def)
    show "\<forall>r \<in> set (rollups db2). ru_ItemID r \<notin> set (filter (\<lambda>u. u \<notin> set (fs_hardDeled st)) (dirtyAncestors (fs_touched st))) \<longrightarrow>
      rollup_current db2 r"
    proof (intro ballI impI)
      fix r assume r: "r \<in> set (rollups db2)"
        "ru_ItemID r \<notin> set (filter (\<lambda>u. u \<notin> set (fs_hardDeled st)) (dirtyAncestors (fs_touched st)))"
      have "ru_ItemID r \<in> item_ids (fs_db st)" using r(1) all2 r2 by (auto simp: rollup_ids_def)
      then have "ru_ItemID r \<notin> set (fs_hardDeled st)" using inv by (auto simp: flush_inv_def Let_def)
      then have "uuid_String (ru_ItemID r) \<notin> ?dirty" using r(2) dirtyAncestors_complete by auto
      then show "rollup_current db2 r" using r(1) r2 by (simp add: rows_inv_def)
    qed
  qed
  moreover have "items db' = items db3" "rollups db' = rollups db3" "statuses db' = statuses db3"
    using insert_events_Inr [OF 7] by simp_all
  ultimately show ?thesis
    using descendants_same [of db' db3] by (simp add: rollups_ok_def rollup_current_def rollup_ids_def item_ids_def list_all_iff)
qed

subsection \<open>Properties\<close>

lemma demo_rollups_ok: "rollups_ok demo_db"
  by (simp add: rollups_ok_def demo_db_def rollup_ids_def item_ids_def)

text \<open>
  C2.  Rollups are right after every mutation (ADR-005, ADR-013): if every item has exactly one
  rollup row and each row is the aggregate (descendants, done descendants, points, dates) over
  the item's live descendants, then so it is after any mutation made of builder calls that does
  not create an item under an id it also hard-deletes; in particular the two counts of
  \<open>CountItemsAndRollups\<close> are equal.
\<close>

theorem Mutate_keeps_rollups:
  assumes "tree_ok (items db)" "rollups_ok db" "builder_callback fn"
    and "\<And>m. prepare ws fn opts = Inr m \<Longrightarrow> inserted_ids (mu_changes m) \<inter> hard_deleted_ids (mu_changes m) = {}"
    and "Mutate now ws fn opts db = (res, db')"
  shows "rollups_ok db' \<and> fst (CountItemsAndRollups db') = snd (CountItemsAndRollups db')"
proof -
  have tree': "tree_ok (items db')"
  proof (cases res)
    case (Inl e) then show ?thesis using assms(1,5) Mutate_Inl by blast
  next
    case (Inr r) then show ?thesis using assms(1,5) flush_tree by (auto simp: Mutate_Inr)
  qed
  have "rollups_ok db'"
  proof (cases res)
    case (Inl e)
    then show ?thesis using assms(2,5) Mutate_Inl by blast
  next
    case (Inr r)
    then obtain m where m: "prepare ws fn opts = Inr m" "flush now m db = Inr (r, db')"
      using assms(5) by (auto simp: Mutate_Inr)
    show ?thesis
      by (rule flush_rollups [OF assms(1,2) prepare_header(2) [OF assms(3) m(1)] m(2) assms(4) [OF m(1)]])
  qed
  moreover have "length (items db') = length (rollups db')"
  proof -
    have "set (map it_ID (items db')) = set (map ru_ItemID (rollups db'))"
      using calculation by (simp add: rollups_ok_def rollup_ids_def item_ids_def)
    then show ?thesis
      using calculation tree_ok_distinct [OF tree'] by (metis distinct_card length_map rollups_ok_def)
  qed
  ultimately show ?thesis by (simp add: CountItemsAndRollups_def CountItemsAndRollups_sql_def)
qed

theorem Mutate_keeps_rollups_witness:
  "\<exists>res db'. Mutate 100 1 demo_create [WithActor 9] demo_db = (Inr res, db') \<and> rollups_ok db'"
proof -
  obtain res db' where run: "Mutate 100 1 demo_create [WithActor 9] demo_db = (Inr res, db')" by (rule demo_run)
  have "inserted_ids (mu_changes m) \<inter> hard_deleted_ids (mu_changes m) = {}"
    if "prepare 1 demo_create [WithActor 9] = Inr m" for m
  proof -
    have "mu_changes m = mu_changes (demo_mutation [WithActor 9])"
      using that by (simp add: prepare_Inr demo_create_def demo_mutation_def)
    then show ?thesis
      by (simp add: demo_mutation_def demo_changes empty_mutation_def apply_option_def inserted_ids_def hard_deleted_ids_def kinds_def)
  qed
  with Mutate_keeps_rollups [OF demo_tree_ok(2) demo_rollups_ok demo_callback _ run] run show ?thesis by blast
qed

subsection \<open>Verification\<close>

text \<open>The hierarchy as the parents give it: the live items from which \<open>u\<close> is reached over one or more parents\<close>

inductive child_of :: "Item list \<Rightarrow> Item \<Rightarrow> Item \<Rightarrow> bool" for its where
  "i \<in> set its \<Longrightarrow> a \<in> set its \<Longrightarrow> it_ParentID i = Some (it_ID a) \<Longrightarrow> child_of its i a"

inductive_cases child_ofE: "child_of its i a"

definition offspring :: "database \<Rightarrow> uuid \<Rightarrow> Item set" where
  "offspring db u = {i \<in> set (items db). it_DeletedAt i = None \<and> (\<exists>a \<in> set (items db). it_ID a = u \<and> (child_of (items db))\<^sup>+\<^sup>+ i a)}"

lemma child_path:
  assumes "tree_ok its" "child_of its i a"
  shows "it_Path i = it_Path a @ [uuid_String (it_ID i)]"
  using assms(2)
proof (rule child_ofE)
  assume c: "i \<in> set its" "a \<in> set its" "it_ParentID i = Some (it_ID a)"
  from assms(1) c(1) show ?thesis
  proof (cases rule: placedE)
    case (child q)
    have "it_ID q = it_ID a" using child(2) c(3) by simp
    then have "q = a" by (rule tree_item_eq [OF assms(1) child(1) c(2)])
    then show ?thesis using child(4) by simp
  qed (use c(3) in simp)
qed

lemma ancestors_path:
  assumes "tree_ok its" "(child_of its)\<^sup>+\<^sup>+ i a"
  shows "strict_prefix (it_Path a) (it_Path i)"
  using assms(2)
proof (induction rule: tranclp_induct)
  case (base a)
  then show ?case using child_path [OF assms(1)] by (simp add: strict_prefix_def)
next
  case (step b a)
  then have "strict_prefix (it_Path a) (it_Path b)" using child_path [OF assms(1)] by (simp add: strict_prefix_def)
  then show ?case using step.IH by (rule prefix_order.less_trans)
qed

lemma path_ancestors:
  assumes "tree_ok its" "a \<in> set its" "i \<in> set its" "prefix (it_Path a) (it_Path i)" "it_ID i \<noteq> it_ID a"
  shows "(child_of its)\<^sup>+\<^sup>+ i a"
  using assms(3-5)
proof (induction "length (it_Path i)" arbitrary: i rule: less_induct)
  case less
  have ne: "it_Path a \<noteq> it_Path i" using path_inject [OF assms(1,2) less.prems(1)] less.prems(3) by auto
  from assms(1) less.prems(1) show ?case
  proof (cases rule: placedE)
    case root
    then show ?thesis using ne less.prems(2) path_last [OF assms(1,2)] by (auto simp: prefix_Cons)
  next
    case (child q)
    then have up: "child_of its i q" using less.prems(1) by (intro child_of.intros)
    have pre: "prefix (it_Path a) (it_Path q)" using less.prems(2) ne unfolding child(4) by (auto simp: prefix_snoc)
    show ?thesis
    proof (cases "it_ID q = it_ID a")
      case True
      then show ?thesis using tree_item_eq [OF assms(1) child(1) assms(2)] up by blast
    next
      case False
      then have "(child_of its)\<^sup>+\<^sup>+ q a" using less.hyps [OF _ child(1) pre] child(4) by simp
      with up show ?thesis by (rule tranclp_into_tranclp2)
    qed
  qed
qed

text \<open>The two descriptions of the items below an item agree.\<close>

lemma offspring_below:
  assumes "tree_ok (items db)" "a \<in> set (items db)"
  shows "offspring db (it_ID a) = set (filter (\<lambda>d. ltree_below (it_Path d) (it_Path a) \<and> it_ID d \<noteq> it_ID a \<and> it_DeletedAt d = None) (items db))"
proof -
  have "(\<exists>b \<in> set (items db). it_ID b = it_ID a \<and> (child_of (items db))\<^sup>+\<^sup>+ i b) \<longleftrightarrow> ltree_below (it_Path i) (it_Path a) \<and> it_ID i \<noteq> it_ID a"
    if i: "i \<in> set (items db)" for i
  proof
    assume "\<exists>b \<in> set (items db). it_ID b = it_ID a \<and> (child_of (items db))\<^sup>+\<^sup>+ i b"
    then have "(child_of (items db))\<^sup>+\<^sup>+ i a" using tree_item_eq [OF assms(1) _ assms(2)] by blast
    from ancestors_path [OF assms(1) this] show "ltree_below (it_Path i) (it_Path a) \<and> it_ID i \<noteq> it_ID a"
      using tree_item_eq [OF assms(1) i assms(2)] by (auto simp: ltree_below_def strict_prefix_def)
  next
    assume "ltree_below (it_Path i) (it_Path a) \<and> it_ID i \<noteq> it_ID a"
    then show "\<exists>b \<in> set (items db). it_ID b = it_ID a \<and> (child_of (items db))\<^sup>+\<^sup>+ i b"
      using path_ancestors [OF assms(1,2) i] assms(2) by (auto simp: ltree_below_def)
  qed
  then show ?thesis by (auto simp: offspring_def)
qed

definition statuses_ok :: "database \<Rightarrow> bool" where
  "statuses_ok db = (distinct (map st_ID (statuses db)) \<and> list_all (\<lambda>i. it_StatusID i \<in> st_ID ` set (statuses db)) (items db))"

lemma one_status:
  assumes "statuses_ok db" "d \<in> set (items db)"
  obtains s where "filter (\<lambda>s. st_ID s = it_StatusID d) (statuses db) = [s]" "status_category db (it_StatusID d) = Some (st_Category s)"
proof -
  from assms obtain s where s: "s \<in> set (statuses db)" "st_ID s = it_StatusID d" by (auto simp: statuses_ok_def list_all_iff)
  have d: "distinct (map st_ID (statuses db))" using assms(1) by (simp add: statuses_ok_def)
  have "find (\<lambda>r. st_ID r = it_StatusID d) (statuses db) = Some s" using find_distinct_map [OF d] s by simp
  moreover have "filter (\<lambda>r. st_ID r = it_StatusID d) (statuses db) = [s]" using filter_unique [OF d s(1)] s(2) by simp
  ultimately show thesis using that by (simp add: status_category_def)
qed

text \<open>What the lateral subquery counts\<close>

abbreviation below_live :: "database \<Rightarrow> Item \<Rightarrow> Item list" where
  "below_live db i \<equiv> filter (\<lambda>d. ltree_below (it_Path d) (it_Path i) \<and> it_ID d \<noteq> it_ID i \<and> it_DeletedAt d = None) (items db)"

lemma lateral_rows_items:
  assumes "statuses_ok db"
  shows "map fst (lateral_rows db i) = below_live db i"
    "map fst (filter (\<lambda>(d, s). st_Category s = ''done'') (lateral_rows db i)) = filter (\<lambda>d. status_category db (it_StatusID d) = Some ''done'') (below_live db i)"
proof -
  have "map fst (concat (map (\<lambda>d. map (Pair d) (filter (\<lambda>s. st_ID s = it_StatusID d) (statuses db))) ds)) = ds \<and>
    map fst (filter (\<lambda>(d, s). st_Category s = ''done'') (concat (map (\<lambda>d. map (Pair d) (filter (\<lambda>s. st_ID s = it_StatusID d) (statuses db))) ds))) =
      filter (\<lambda>d. status_category db (it_StatusID d) = Some ''done'') ds" if "set ds \<subseteq> set (items db)" for ds
    using that
  proof (induction ds)
    case (Cons d ds)
    then have "d \<in> set (items db)" by simp
    with assms obtain s where "filter (\<lambda>s. st_ID s = it_StatusID d) (statuses db) = [s]" "status_category db (it_StatusID d) = Some (st_Category s)" by (rule one_status)
    then show ?case using Cons by simp
  qed simp
  from this [of "below_live db i"]
  show "map fst (lateral_rows db i) = below_live db i"
    "map fst (filter (\<lambda>(d, s). st_Category s = ''done'') (lateral_rows db i)) = filter (\<lambda>d. status_category db (it_StatusID d) = Some ''done'') (below_live db i)"
    by (simp_all only: lateral_rows_def, auto)
qed

lemma sql_sum_total: "coalesce (sql_sum (map f xs)) 0 = (\<Sum>x\<leftarrow>xs. coalesce (f x) 0)"
proof (induction xs)
  case (Cons x xs)
  then show ?case by (cases "f x") (simp_all add: coalesce_def)
qed (simp add: coalesce_def)

lemma lateral_counts_offspring:
  assumes "tree_ok (items db)" "statuses_ok db" "i \<in> set (items db)"
  shows "la_descendants (lateral_counts db i) = int (card (offspring db (it_ID i)))"
    "la_done (lateral_counts db i) = int (card {d \<in> offspring db (it_ID i). status_category db (it_StatusID d) = Some ''done''})"
    "coalesce (la_points (lateral_counts db i)) 0 = (\<Sum>d \<in> offspring db (it_ID i). coalesce (it_Points d) 0)"
proof -
  note r = lateral_rows_items [OF assms(2), of i]
  have off: "offspring db (it_ID i) = set (below_live db i)" by (rule offspring_below [OF assms(1,3)])
  have d: "distinct (below_live db i)" using tree_ok_distinct [OF assms(1)] by (simp add: distinct_map)
  have "length (lateral_rows db i) = length (below_live db i)" using arg_cong [OF r(1), of length] by simp
  then show "la_descendants (lateral_counts db i) = int (card (offspring db (it_ID i)))"
    unfolding off by (simp only: lateral_counts_def Let_def lateral.simps distinct_card [OF d])
  have "length (filter (\<lambda>(d, s). st_Category s = ''done'') (lateral_rows db i)) = length (filter (\<lambda>d. status_category db (it_StatusID d) = Some ''done'') (below_live db i))"
    using arg_cong [OF r(2), of length] by (simp only: length_map)
  moreover have "{d \<in> set (below_live db i). status_category db (it_StatusID d) = Some ''done''} = set (filter (\<lambda>d. status_category db (it_StatusID d) = Some ''done'') (below_live db i))" by auto
  ultimately show "la_done (lateral_counts db i) = int (card {d \<in> offspring db (it_ID i). status_category db (it_StatusID d) = Some ''done''})"
    unfolding off by (simp only: lateral_counts_def Let_def lateral.simps distinct_card [OF distinct_filter [OF d]])
  have "map (\<lambda>(d, s). it_Points d) (lateral_rows db i) = map it_Points (below_live db i)"
    unfolding r(1) [symmetric] by (simp add: case_prod_unfold)
  then show "coalesce (la_points (lateral_counts db i)) 0 = (\<Sum>d \<in> offspring db (it_ID i). coalesce (it_Points d) 0)"
    unfolding off sum.distinct_set_conv_list [OF d] by (simp only: lateral_counts_def Let_def lateral.simps sql_sum_total)
qed

lemma differing_rollups_set:
  "set (differing_rollups db sel) =
     {(i, r). i \<in> set (items db) \<and> sel i \<and> r \<in> set (rollups db) \<and> ru_ItemID r = it_ID i \<and> rollup_differs db (i, r)}"
  by (auto simp: differing_rollups_def)

lemma rmap_Inr_Nil: "rmap f xs = Inr [] \<longleftrightarrow> xs = []"
  by (simp add: rmap_Inr)

lemma VerifyRollups_clean: "VerifyRollups db = Inr [] \<longleftrightarrow> differing_rollups db (\<lambda>_. True) = []"
  by (auto simp: VerifyRollups_def VerifyRollups_sql_def result_simps rmap_Inr_Nil)

text \<open>What a row should hold, by the hierarchy\<close>

definition rollup_right :: "database \<Rightarrow> ItemRollup \<Rightarrow> bool" where
  "rollup_right db r =
     (ru_DescendantCount r = int (card (offspring db (ru_ItemID r))) \<and>
      ru_DoneCount r = int (card {d \<in> offspring db (ru_ItemID r). status_category db (it_StatusID d) = Some ''done''}) \<and>
      coalesce (ru_PointsTotal r) 0 = (\<Sum>d \<in> offspring db (ru_ItemID r). coalesce (it_Points d) 0))"

lemma VerifyRollups_right:
  assumes "tree_ok (items db)" "statuses_ok db"
  shows "VerifyRollups db = Inr [] \<longleftrightarrow> (\<forall>r \<in> set (rollups db). ru_ItemID r \<in> item_ids db \<longrightarrow> rollup_right db r)"
proof -
  have "rollup_differs db (i, r) \<longleftrightarrow> \<not> rollup_right db r" if "i \<in> set (items db)" "ru_ItemID r = it_ID i" for i r
    using that lateral_counts_offspring [OF assms that(1)] by (auto simp: rollup_differs_def rollup_right_def Let_def)
  then show ?thesis
    unfolding VerifyRollups_clean set_empty [symmetric] differing_rollups_set by (auto simp: item_ids_def)
qed

text \<open>The rows that \<open>recomputeRollup\<close> writes hold it.\<close>

lemma descendants_lateral:
  assumes "tree_ok (items db)" "statuses_ok db" "i \<in> set (items db)"
  shows "descendants db (it_ID i) = map (\<lambda>(d, s). \<lparr>co_points = it_Points d, co_start = it_StartDate d, co_due = it_DueDate d, co_category = st_Category s\<rparr>) (lateral_rows db i)"
proof -
  have find: "find_item db (it_ID i) = Some i" using assms(3) by (simp add: find_item_iff [OF assms(1)])
  have "List.map_filter (contrib_of db (it_Path i) (it_ID i)) its =
    map (\<lambda>(d, s). \<lparr>co_points = it_Points d, co_start = it_StartDate d, co_due = it_DueDate d, co_category = st_Category s\<rparr>)
      (concat (map (\<lambda>d. map (Pair d) (filter (\<lambda>s. st_ID s = it_StatusID d) (statuses db)))
        (filter (\<lambda>d. ltree_below (it_Path d) (it_Path i) \<and> it_ID d \<noteq> it_ID i \<and> it_DeletedAt d = None) its)))" if "set its \<subseteq> set (items db)" for its
    using that
  proof (induction its)
    case (Cons d its)
    then have "d \<in> set (items db)" by simp
    with assms(2) obtain s where "filter (\<lambda>s. st_ID s = it_StatusID d) (statuses db) = [s]" "status_category db (it_StatusID d) = Some (st_Category s)" by (rule one_status)
    then show ?case using Cons by (simp add: List.map_filter_simps contrib_of_def)
  qed (simp add: List.map_filter_simps)
  then show ?thesis unfolding descendants_contrib [OF find] lateral_rows_def by simp
qed

lemma rollup_current_right:
  assumes "tree_ok (items db)" "statuses_ok db" "rollup_current db r" "ru_ItemID r \<in> item_ids db"
  shows "rollup_right db r"
proof -
  obtain i where i: "i \<in> set (items db)" "ru_ItemID r = it_ID i" using assms(4) by (auto simp: item_ids_def)
  let ?rows = "lateral_rows db i"
  have "r = aggregate (ru_ComputedAt r) (it_ID i) (descendants db (it_ID i))" using assms(3) i(2) by (simp add: rollup_current_def)
  then have "ru_DescendantCount r = int (length (descendants db (it_ID i)))"
    "ru_DoneCount r = int (length (done_only (descendants db (it_ID i))))"
    "ru_PointsTotal r = sql_sum (map co_points (descendants db (it_ID i)))"
    by (metis ItemRollup.select_convs(2-4) aggregate_def)+
  then have "ru_DescendantCount r = la_descendants (lateral_counts db i)" "ru_DoneCount r = la_done (lateral_counts db i)"
    "ru_PointsTotal r = la_points (lateral_counts db i)"
    unfolding descendants_lateral [OF assms(1,2) i(1)] lateral_counts_def Let_def done_only_def
    by (simp_all add: case_prod_unfold filter_map comp_def)
  with lateral_counts_offspring [OF assms(1,2) i(1)] show ?thesis by (simp add: rollup_right_def i(2))
qed

text \<open>
  C12.  What \<open>VerifyRollups\<close> checks: over a well-formed hierarchy whose items have statuses, it reports a clean
  database exactly when every rollup row of an existing item holds the number of live items that reach the item over
  their parents, the number of these in a status of category done, and the sum of their points (a missing total
  counting as zero).  The points done and the two dates are not compared.  The rows that \<open>RecomputeRollup\<close> and the
  write path maintain are reported clean.
\<close>

theorem VerifyRollups_iff:
  assumes "tree_ok (items db)" "statuses_ok db"
  shows "(VerifyRollups db = Inr [] \<longleftrightarrow>
     (\<forall>r \<in> set (rollups db). ru_ItemID r \<in> item_ids db \<longrightarrow>
        ru_DescendantCount r = int (card (offspring db (ru_ItemID r))) \<and>
        ru_DoneCount r = int (card {d \<in> offspring db (ru_ItemID r). status_category db (it_StatusID d) = Some ''done''}) \<and>
        coalesce (ru_PointsTotal r) 0 = (\<Sum>d \<in> offspring db (ru_ItemID r). coalesce (it_Points d) 0))) \<and>
   (rollups_ok db \<longrightarrow> VerifyRollups db = Inr [])"
  using VerifyRollups_right [OF assms] rollup_current_right [OF assms]
  by (simp add: rollup_right_def rollups_ok_def list_all_iff)

text \<open>Two items with right rows, and the same with the points of the root forgotten\<close>

definition demo_counted :: database where
  "demo_counted = demo_tree\<lparr>rollups := [aggregate 0 20 (descendants demo_tree 20), aggregate 0 21 (descendants demo_tree 21)]\<rparr>"

definition demo_forgotten :: database where
  "demo_forgotten = demo_tree\<lparr>rollups := [aggregate 0 20 (descendants demo_tree 20)\<lparr>ru_PointsTotal := None\<rparr>, aggregate 0 21 (descendants demo_tree 21)]\<rparr>"

lemma demo_counted_ok: "tree_ok (items demo_counted)" "statuses_ok demo_counted"
proof -
  show "tree_ok (items demo_counted)" using demo_tree_ok(1) by (simp add: demo_counted_def)
  show "statuses_ok demo_counted" by code_simp
qed

theorem VerifyRollups_iff_witness:
  "VerifyRollups demo_counted = Inr [] \<and> card (offspring demo_counted 20) = 1 \<and> (\<Sum>d \<in> offspring demo_counted 20. coalesce (it_Points d) 0) = 200 \<and>
   VerifyRollups demo_forgotten \<noteq> Inr []"
proof -
  have clean: "VerifyRollups demo_counted = Inr []" by code_simp
  let ?r = "aggregate 0 20 (descendants demo_tree 20)"
  have r: "?r \<in> set (rollups demo_counted)" by (simp add: demo_counted_def)
  have v: "ru_ItemID ?r = 20" "ru_DescendantCount ?r = 1" "ru_PointsTotal ?r = Some 200" by code_simp+
  have id: "ru_ItemID ?r \<in> item_ids demo_counted" by (simp add: v(1) item_ids_def demo_counted_def demo_items)
  from VerifyRollups_iff [OF demo_counted_ok] clean r id
  have "ru_DescendantCount ?r = int (card (offspring demo_counted (ru_ItemID ?r)))"
    "coalesce (ru_PointsTotal ?r) 0 = (\<Sum>d \<in> offspring demo_counted (ru_ItemID ?r). coalesce (it_Points d) 0)" by blast+
  then have "card (offspring demo_counted 20) = 1" "(\<Sum>d \<in> offspring demo_counted 20. coalesce (it_Points d) 0) = 200"
    unfolding v by (simp_all add: coalesce_def)
  moreover have "VerifyRollups demo_forgotten \<noteq> Inr []" by code_simp
  ultimately show ?thesis using clean by blast
qed

text \<open>
  \<open>VerifyRollups\<close> cannot report some mismatches: the generated row scans the fresh points
  sum, a nullable decimal, into an integer.  If a mismatching row belongs to an item whose live
  descendants have no points, or points that do not sum to a whole number, the call returns an
  error and no mismatch at all.
\<close>

theorem VerifyRollups_scan_error:
  assumes "i \<in> set (items db)" "r \<in> set (rollups db)" "ru_ItemID r = it_ID i" "rollup_differs db (i, r)"
    and "(case la_points (lateral_counts db i) of None \<Rightarrow> True | Some h \<Rightarrow> h mod 100 \<noteq> 0)"
  shows "\<exists>e. VerifyRollups db = Inl e"
proof -
  have r: "(i, r) \<in> set (differing_rollups db (\<lambda>_. True))"
    unfolding differing_rollups_set using assms(1-4) by simp
  have "verify_row db (i, r) = Inl ScanError"
    using assms(5) by (auto simp: verify_row_def scan_points_def Let_def split: option.splits)
  then have "\<exists>e. rmap (verify_row db) (differing_rollups db (\<lambda>_. True)) = Inl e"
    unfolding rmap_Inl_iff using r by blast
  then show ?thesis by (auto simp: VerifyRollups_def VerifyRollups_sql_def sql_def)
qed

theorem VerifyRollups_scan_error_witness: "\<exists>e. VerifyRollups demo_stale = Inl e"
proof (rule VerifyRollups_scan_error)
  let ?i = "demo_item 21 (Some 20) [20, 21] ''SRX-2'' ''r''" and ?r = "aggregate 0 21 []\<lparr>ru_DescendantCount := 3\<rparr>"
  have none: "lateral_counts demo_stale ?i = \<lparr>la_descendants = 0, la_done = 0, la_points = None\<rparr>" by code_simp
  have id: "ru_ItemID ?r = 21" by (simp add: aggregate_def)
  show "?i \<in> set (items demo_stale)" "?r \<in> set (rollups demo_stale)" "ru_ItemID ?r = it_ID ?i"
    by (simp_all add: demo_stale_def demo_items id)
  show "rollup_differs demo_stale (?i, ?r)" by (simp add: rollup_differs_def none)
  show "case la_points (lateral_counts demo_stale ?i) of None \<Rightarrow> True | Some h \<Rightarrow> h mod 100 \<noteq> 0" by (simp add: none)
qed

end
