(* ===== verification/Sx_Ranking.thy ===== *)
theory Sx_Ranking
  imports Sx_Tree "HOL-Library.Multiset"
begin

text \<open>
  Ranks in the store.  The ranks of a project's items are pairwise different as fractions, not
  only as strings, so the search of \<open>RankBetween\<close> always ends; appending, placing and
  respreading keep it so.
\<close>

subsection \<open>Separated ranks\<close>

definition separated :: "string set \<Rightarrow> bool" where
  "separated S = ((\<forall>r \<in> S. rank_valid r \<and> rank_lt [] r) \<and> (\<forall>r \<in> S. \<forall>s \<in> S. r < s \<longrightarrow> rank_lt r s))"

definition ranks_of :: "uuid \<Rightarrow> Item list \<Rightarrow> string set" where
  "ranks_of p its = it_Rank ` {i \<in> set its. it_ProjectID i = p}"

definition rank_ok :: "Item list \<Rightarrow> bool" where
  "rank_ok its = (distinct (map (\<lambda>i. (it_ProjectID i, it_Rank i)) its) \<and> (\<forall>p. separated (ranks_of p its)))"

lemma separated_subset: "separated S \<Longrightarrow> T \<subseteq> S \<Longrightarrow> separated T"
  unfolding separated_def by blast

lemma separated_ordered: "ranks_ordered rs \<Longrightarrow> separated (set rs)"
proof -
  assume rs: "ranks_ordered rs"
  have "rank_lt r s" if "r \<in> set rs" "s \<in> set rs" "r < s" for r s
  proof -
    obtain i j where ij: "i < length rs" "rs ! i = r" "j < length rs" "rs ! j = s" using \<open>r \<in> set rs\<close> \<open>s \<in> set rs\<close> by (metis in_set_conv_nth)
    have sorted: "sorted_wrt rank_lt rs" "list_all rank_valid rs" using rs by (auto simp: ranks_ordered_def)
    have "j < i \<Longrightarrow> rank_lt s r" using sorted ij sorted_wrt_nth_less by metis
    then have "j < i \<Longrightarrow> s < r" using rank_lt_less sorted(2) that by (auto simp: list_all_iff)
    then have "i < j" using ij \<open>r < s\<close> by (metis less_asym linorder_neqE_nat order_less_irrefl)
    then show ?thesis using sorted ij sorted_wrt_nth_less by metis
  qed
  then show ?thesis using rs by (auto simp: separated_def ranks_ordered_def list_all_iff)
qed

text \<open>A rank placed between two neighbours keeps the ranks separated.\<close>

lemma separated_insert:
  assumes "separated S" "rank_valid r" "rank_lt [] r"
    and "lo = [] \<or> lo \<in> S" "hi = [] \<or> hi \<in> S" "rank_lt lo r" "hi \<noteq> [] \<Longrightarrow> rank_lt r hi"
    and near: "\<And>s. s \<in> S \<Longrightarrow> s \<le> lo \<or> hi \<noteq> [] \<and> hi \<le> s"
  shows "separated (insert r S)"
proof -
  have lo: "rank_valid lo" and hi: "hi \<noteq> [] \<Longrightarrow> rank_valid hi" using assms(1,4,5) by (auto simp: separated_def)
  have side: "rank_lt s r \<or> rank_lt r s" if s: "s \<in> S" for s
  proof -
    have vs: "rank_valid s" "s \<noteq> []" using assms(1) s by (auto simp: separated_def)
    from near [OF s] show ?thesis
    proof
      assume "s \<le> lo"
      then have "s = lo \<or> rank_lt s lo" using assms(1,4) s vs(2) by (auto simp: separated_def le_less)
      then show ?thesis using assms(6) rank_lt_trans [OF vs(1) lo assms(2)] by blast
    next
      assume h: "hi \<noteq> [] \<and> hi \<le> s"
      then have "s = hi \<or> rank_lt hi s" using assms(1,5) s by (auto simp: separated_def le_less)
      then show ?thesis using h assms(7) hi rank_lt_trans [OF assms(2) _ vs(1)] by blast
    qed
  qed
  have "rank_lt s r" if "s \<in> S" "s < r" for s
    using side [OF that(1)] that rank_lt_less [OF assms(2), of s] assms(1) by (auto simp: separated_def)
  moreover have "rank_lt r s" if "s \<in> S" "r < s" for s
    using side [OF that(1)] that rank_lt_less [of s r] assms(1,2) by (auto simp: separated_def)
  ultimately show ?thesis using assms(1,2,3) unfolding separated_def by auto
qed

subsection \<open>The listed ranks\<close>

lemma ListProjectRanks_mset:
  "mset (map snd (ListProjectRanks p db)) = mset (map it_Rank (filter (\<lambda>i. it_ProjectID i = p) (items db)))"
  by (simp add: ListProjectRanks_def mset_map image_mset.compositionality o_def)

lemma ListProjectRanks_set: "set (map snd (ListProjectRanks p db)) = ranks_of p (items db)"
proof -
  have "set (map snd (ListProjectRanks p db)) = set (map it_Rank (filter (\<lambda>i. it_ProjectID i = p) (items db)))"
    by (rule mset_eq_setD [OF ListProjectRanks_mset])
  then show ?thesis by (auto simp: ranks_of_def)
qed

lemma ListProjectRanks_sorted: "sorted (map snd (ListProjectRanks p db))"
  by (simp add: ListProjectRanks_def)

lemma project_ranks_distinct:
  assumes "rank_ok its"
  shows "distinct (map it_Rank (filter (\<lambda>i. it_ProjectID i = p) its))"
proof -
  have d: "distinct (map (\<lambda>i. (it_ProjectID i, it_Rank i)) (filter (\<lambda>i. it_ProjectID i = p) its))"
    using assms by (simp add: rank_ok_def distinct_map_filter)
  then show ?thesis by (auto simp: distinct_map inj_on_def)
qed

lemma ListProjectRanks_strict:
  assumes "rank_ok (items db)"
  shows "sorted_wrt (<) (map snd (ListProjectRanks p db))"
proof -
  have "distinct (map snd (ListProjectRanks p db))"
    using project_ranks_distinct [OF assms, of p] ListProjectRanks_mset [of p db] by (metis mset_eq_imp_distinct_iff)
  then show ?thesis using ListProjectRanks_sorted by (simp add: strict_sorted_iff)
qed

lemma sorted_le_last: "sorted xs \<Longrightarrow> x \<in> set xs \<Longrightarrow> x \<le> last xs"
  by (induction xs) auto

lemma last_rank_max:
  assumes "rank_ok (items db)"
  shows "last_rank (ListProjectRanks p db) = [] \<or> last_rank (ListProjectRanks p db) \<in> ranks_of p (items db)"
    and "s \<in> ranks_of p (items db) \<Longrightarrow> s \<le> last_rank (ListProjectRanks p db)"
proof -
  let ?L = "ListProjectRanks p db"
  show "last_rank ?L = [] \<or> last_rank ?L \<in> ranks_of p (items db)"
    unfolding ListProjectRanks_set [symmetric] by (auto simp: last_rank_def)
  assume "s \<in> ranks_of p (items db)"
  then have s: "s \<in> set (map snd ?L)" by (simp only: ListProjectRanks_set)
  then have "?L \<noteq> []" by auto
  have "s \<le> last (map snd ?L)" by (rule sorted_le_last [OF ListProjectRanks_sorted s])
  then show "s \<le> last_rank ?L" using \<open>?L \<noteq> []\<close> by (simp add: last_rank_def last_map)
qed

subsection \<open>Respreading\<close>

lemma rank_width_le: "n + 2 \<le> 36 ^ W \<Longrightarrow> w \<le> W \<Longrightarrow> rank_width n (36 ^ w) w \<le> W"
proof (induction "W - w" arbitrary: w)
  case 0
  then show ?case by (simp add: rank_width.simps)
next
  case (Suc k)
  have "rank_width n (36 ^ Suc w) (Suc w) \<le> W" by (rule Suc.hyps(1)) (use Suc.hyps(2) Suc.prems in simp_all)
  then show ?case using Suc.prems by (subst rank_width.simps) (simp add: mult.commute)
qed

lemma RankSequence_length_le:
  assumes "r \<in> set (RankSequence n)" "nat n + 2 \<le> 36 ^ W" "1 \<le> W"
  shows "length r \<le> W"
proof -
  have "length r = rank_width (nat n) 36 1" using assms(1) by (auto simp: RankSequence_def Let_def split: if_splits)
  then show ?thesis using rank_width_le [OF assms(2,3)] by simp
qed

lemma map_of_zip_in:
  assumes "length xs = length ys" "x \<in> set xs"
  shows "the (map_of (zip xs ys) x) \<in> set ys"
proof -
  obtain y where y: "map_of (zip xs ys) x = Some y" using assms(2) map_of_zip_is_Some [OF assms(1)] by blast
  then have "y \<in> set ys" by (rule set_zip_rightD [OF map_of_SomeD])
  then show ?thesis using y by simp
qed

lemma rebalance_Inr:
  assumes "rebalanceProjectRanks now p ranks db = Inr db'" "ranks \<noteq> []"
  defines "old \<equiv> map snd ranks" and "new \<equiv> RankSequence (int (length ranks))"
  shows "items db' = map (\<lambda>i. if it_ProjectID i = p then i\<lparr>it_Rank := the (map_of (zip old new) (it_Rank i)),
           it_Version := it_Version i + 1, it_UpdatedAt := now\<rparr> else i) (items db)"
    and "items_unique (items db')" and "\<And>i. i \<in> set (items db) \<Longrightarrow> it_ProjectID i = p \<Longrightarrow> it_Rank i \<in> set old"
    and "length old = length new"
proof -
  obtain rows where up: "update_items (\<lambda>i. it_ProjectID i = p \<and> it_Rank i \<in> set old)
      (\<lambda>i. i\<lparr>it_Rank := the (map_of (zip old new) (it_Rank i)), it_Version := it_Version i + 1, it_UpdatedAt := now\<rparr>) db
      = Inr (rows, db')" and g: "length old = length new" "list_all (\<lambda>i. it_ProjectID i = p \<longrightarrow> it_Rank i \<in> set old) (items db)"
    using assms(1,2) by (auto simp: rebalanceProjectRanks_def SetProjectRanks_def result_simps old_def new_def)
  show all: "\<And>i. i \<in> set (items db) \<Longrightarrow> it_ProjectID i = p \<Longrightarrow> it_Rank i \<in> set old" using g(2) by (auto simp: list_all_iff)
  show "items db' = map (\<lambda>i. if it_ProjectID i = p then i\<lparr>it_Rank := the (map_of (zip old new) (it_Rank i)),
           it_Version := it_Version i + 1, it_UpdatedAt := now\<rparr> else i) (items db)"
    using up all by (auto simp: update_items_Inr)
  show "items_unique (items db')" using up by (auto simp: update_items_Inr)
  show "length old = length new" by (rule g(1))
qed

lemma ranks_of_filter: "ranks_of q its = set (map it_Rank (filter (\<lambda>i. it_ProjectID i = q) its))"
  by (auto simp: ranks_of_def)

lemma ranks_of_map_other:
  assumes "\<And>i. it_ProjectID (g i) = it_ProjectID i" "\<And>i. it_ProjectID i = q \<Longrightarrow> it_Rank (g i) = it_Rank i"
  shows "ranks_of q (map g its) = ranks_of q its"
proof -
  have "map it_Rank (filter (\<lambda>i. it_ProjectID i = q) (map g its)) = map it_Rank (filter (\<lambda>i. it_ProjectID i = q) its)"
    using assms by (induction its) simp_all
  then show ?thesis unfolding ranks_of_filter by simp
qed

lemma rebalance_rank_ok:
  assumes ok: "rank_ok (items db)" and rb: "rebalanceProjectRanks now p ranks db = Inr db'"
    and ne: "ranks \<noteq> []"
  shows "rank_ok (items db')" "ranks_of p (items db') \<subseteq> set (RankSequence (int (length ranks)))"
proof -
  note R = rebalance_Inr [OF rb ne]
  define g where "g i = (if it_ProjectID i = p then i\<lparr>it_Rank := the (map_of (zip (map snd ranks) (RankSequence (int (length ranks)))) (it_Rank i)),
           it_Version := it_Version i + 1, it_UpdatedAt := now\<rparr> else i)" for i :: Item
  have items: "items db' = map g (items db)" using R(1) by (simp add: g_def)
  have pid: "it_ProjectID (g i) = it_ProjectID i" for i by (simp add: g_def)
  show sub: "ranks_of p (items db') \<subseteq> set (RankSequence (int (length ranks)))"
  proof
    fix x assume "x \<in> ranks_of p (items db')"
    then obtain i where i: "i \<in> set (items db)" "it_ProjectID i = p" "x = it_Rank (g i)"
      by (auto simp: ranks_of_def items pid)
    then show "x \<in> set (RankSequence (int (length ranks)))"
      using map_of_zip_in [OF R(4)] R(3) by (simp add: g_def)
  qed
  have "separated (ranks_of q (items db'))" for q
  proof (cases "q = p")
    case True
    then show ?thesis using sub separated_subset separated_ordered [OF RankSequence_ordered] by blast
  next
    case False
    then have "ranks_of q (items db') = ranks_of q (items db)"
      unfolding items by (intro ranks_of_map_other) (auto simp: g_def)
    then show ?thesis using ok by (simp add: rank_ok_def)
  qed
  then show "rank_ok (items db')" using R(2) by (simp add: rank_ok_def items_unique_def)
qed

subsection \<open>Appending\<close>

lemma append_rank:
  assumes ok: "rank_ok (items db)"
  obtains r where "RankBetween (last_rank (ListProjectRanks p db)) [] = Some (Inr r)" "rank_valid r" "rank_lt [] r"
    "length r \<le> Suc (length (last_rank (ListProjectRanks p db)))"
    "separated (insert r (ranks_of p (items db)))" "r \<notin> ranks_of p (items db)"
proof -
  let ?last = "last_rank (ListProjectRanks p db)"
  have sep: "separated (ranks_of p (items db))" using ok by (simp add: rank_ok_def)
  have valid: "rank_valid ?last" using last_rank_max(1) [OF ok, of p] sep by (auto simp: separated_def)
  obtain r where r: "RankBetween ?last [] = Some (Inr r)" "rank_valid r" "rank_lt ?last r" "length r \<le> Suc (length ?last)"
    using RankBetween_after [OF valid] by blast
  have pos: "rank_lt [] r"
    using last_rank_max(1) [OF ok, of p] r sep valid rank_lt_trans [of "[]" ?last r] by (auto simp: separated_def)
  have "separated (insert r (ranks_of p (items db)))"
    by (rule separated_insert [OF sep r(2) pos last_rank_max(1) [OF ok] _ r(3), of "[]"])
       (use last_rank_max(2) [OF ok] in auto)
  moreover have "r \<notin> ranks_of p (items db)"
    using last_rank_max(2) [OF ok] rank_lt_less [OF valid r(2,3)] by (meson leD)
  ultimately show thesis using that r pos by blast
qed

lemma rank_result_Some [simp]: "rank_result (Some (Inr r)) = Inr r"
  by (simp add: rank_result_def)

lemma rebalance_Inl: "rebalanceProjectRanks now p ranks db = Inl e \<Longrightarrow> \<exists>s. e = SqlError s"
  by (auto simp: rebalanceProjectRanks_def result_simps split: if_splits)

lemma RankNeedsRebalance_nonempty:
  "RankNeedsRebalance r \<Longrightarrow> length r \<le> Suc (length (last_rank ranks)) \<Longrightarrow> ranks \<noteq> []"
  by (auto simp: RankNeedsRebalance_def RankRebalanceThreshold_def last_rank_def)

lemma rankForNewItem_spec:
  assumes ok: "rank_ok (items db)" and fn: "rankForNewItem now p db = Inr (r, db')"
  shows "rank_ok (items db') \<and> separated (insert r (ranks_of p (items db'))) \<and> r \<notin> ranks_of p (items db')"
proof -
  obtain r0 where r0: "RankBetween (last_rank (ListProjectRanks p db)) [] = Some (Inr r0)"
    "length r0 \<le> Suc (length (last_rank (ListProjectRanks p db)))"
    "separated (insert r0 (ranks_of p (items db)))" "r0 \<notin> ranks_of p (items db)"
    by (rule append_rank [OF ok])
  show ?thesis
  proof (cases "RankNeedsRebalance r0")
    case True
    have ne: "ListProjectRanks p db \<noteq> []" by (rule RankNeedsRebalance_nonempty [OF True r0(2)])
    obtain rb: "rebalanceProjectRanks now p (ListProjectRanks p db) db = Inr db'"
      and r: "rank_result (RankBetween (last_rank (ListProjectRanks p db')) []) = Inr r"
      using fn r0(1) True by (auto simp: rankForNewItem_def Let_def result_simps)
    have ok': "rank_ok (items db')" by (rule rebalance_rank_ok(1) [OF ok rb ne])
    obtain r1 where r1: "RankBetween (last_rank (ListProjectRanks p db')) [] = Some (Inr r1)"
      "separated (insert r1 (ranks_of p (items db')))" "r1 \<notin> ranks_of p (items db')"
      by (rule append_rank [OF ok'])
    then show ?thesis using ok' r by simp
  next
    case False
    then show ?thesis using fn r0 ok by (simp add: rankForNewItem_def)
  qed
qed

lemma rankForNewItem_Inl:
  assumes ok: "rank_ok (items db)" and fn: "rankForNewItem now p db = Inl e"
  shows "\<exists>s. e = SqlError s"
proof -
  obtain r0 where r0: "RankBetween (last_rank (ListProjectRanks p db)) [] = Some (Inr r0)"
    "length r0 \<le> Suc (length (last_rank (ListProjectRanks p db)))" by (rule append_rank [OF ok])
  show ?thesis
  proof (cases "RankNeedsRebalance r0")
    case True
    have ne: "ListProjectRanks p db \<noteq> []" by (rule RankNeedsRebalance_nonempty [OF True r0(2)])
    show ?thesis
    proof (cases "rebalanceProjectRanks now p (ListProjectRanks p db) db")
      case (Inl e')
      then show ?thesis using fn r0(1) True rebalance_Inl by (auto simp: rankForNewItem_def Let_def)
    next
      case (Inr db')
      have "rank_ok (items db')" by (rule rebalance_rank_ok(1) [OF ok Inr ne])
      then obtain r1 where "RankBetween (last_rank (ListProjectRanks p db')) [] = Some (Inr r1)"
        by (rule append_rank)
      then show ?thesis using fn r0(1) True Inr by (simp add: rankForNewItem_def Let_def)
    qed
  qed (use fn r0(1) in \<open>simp add: rankForNewItem_def\<close>)
qed

subsection \<open>Placing\<close>

text \<open>
  The scan yields the neighbours of a position: the listed ranks other than the moved item's
  own are at or below \<open>lo\<close>, or at or above \<open>hi\<close>.
\<close>

lemma rank_scan_found:
  assumes "rank_scan self after True lo L = (f, lo', hi)" "sorted_wrt (<) (map snd L)"
  shows "f \<and> lo' = lo \<and> (hi = [] \<or> hi \<in> snd ` set L) \<and>
    ([] \<notin> snd ` set L \<longrightarrow> (\<forall>(c, s) \<in> set L. c \<noteq> Some self \<longrightarrow> hi \<noteq> [] \<and> hi \<le> s))"
  using assms
proof (induction L)
  case (Cons e L)
  obtain c r where e: "e = (c, r)" by (cases e)
  show ?case
  proof (cases "c = Some self")
    case True
    then show ?thesis using Cons e by auto
  next
    case False
    then have "f" "lo' = lo" "hi = r" using Cons.prems(1) e by auto
    moreover have "r \<le> s" if "(d, s) \<in> set (e # L)" for d s
      using Cons.prems(2) that e by (auto simp: less_imp_le)
    ultimately show ?thesis using e by auto
  qed
qed simp

lemma rank_scan_search:
  assumes "rank_scan self after False lo0 L = (True, lo, hi)" "sorted_wrt (<) (map snd L)" "[] \<notin> snd ` set L"
  shows "lo \<in> snd ` set L \<and> (hi = [] \<or> hi \<in> snd ` set L \<and> lo < hi) \<and>
    (\<forall>(c, s) \<in> set L. c \<noteq> Some self \<longrightarrow> s \<le> lo \<or> hi \<noteq> [] \<and> hi \<le> s)"
  using assms
proof (induction L)
  case (Cons e L)
  obtain c r where e: "e = (c, r)" by (cases e)
  have tail: "sorted_wrt (<) (map snd L)" "[] \<notin> snd ` set L" and head: "\<And>d s. (d, s) \<in> set L \<Longrightarrow> r < s"
    using Cons.prems(2,3) e by auto
  show ?case
  proof (cases "c \<noteq> Some self \<and> after = Some (coalesce c 0)")
    case True
    then have "rank_scan self after True r L = (True, lo, hi)" using Cons.prems(1) e by simp
    note f = rank_scan_found [OF this tail(1)]
    then show ?thesis using head tail(2) e by fastforce
  next
    case False
    then have IH: "lo \<in> snd ` set L \<and> (hi = [] \<or> hi \<in> snd ` set L \<and> lo < hi) \<and>
        (\<forall>(c, s) \<in> set L. c \<noteq> Some self \<longrightarrow> s \<le> lo \<or> hi \<noteq> [] \<and> hi \<le> s)"
      using Cons.IH [OF _ tail] Cons.prems(1) e by (auto split: if_splits)
    have "r \<le> lo" using IH head by fastforce
    then show ?thesis using IH e by auto
  qed
qed simp

definition other_ranks :: "uuid \<Rightarrow> uuid \<Rightarrow> Item list \<Rightarrow> string set" where
  "other_ranks self p its = it_Rank ` {i \<in> set its. it_ProjectID i = p \<and> it_ID i \<noteq> self}"

lemma other_ranks_listed:
  "s \<in> other_ranks self p (items db) \<Longrightarrow> \<exists>c. (c, s) \<in> set (ListProjectRanks p db) \<and> c \<noteq> Some self"
proof -
  assume "s \<in> other_ranks self p (items db)"
  then obtain i where i: "i \<in> set (items db)" "it_ProjectID i = p" "it_ID i \<noteq> self" "s = it_Rank i"
    by (auto simp: other_ranks_def)
  let ?e = "\<lambda>i. (if rank_hidden db i then None else Some (it_ID i), it_Rank i)"
  have "i \<in> set (filter (\<lambda>i. it_ProjectID i = p) (items db))" using i(1,2) by simp
  then have "?e i \<in> set (map ?e (filter (\<lambda>i. it_ProjectID i = p) (items db)))" unfolding set_map by (rule imageI)
  then have "?e i \<in> set (ListProjectRanks p db)" unfolding ListProjectRanks_def set_sort .
  moreover have "fst (?e i) \<noteq> Some self" using i(3) by simp
  ultimately show ?thesis unfolding i(4) by (metis fst_conv)
qed

lemma place_rank:
  assumes ok: "rank_ok (items db)"
    and scan: "rank_scan self after (after = None) [] (ListProjectRanks p db) = (True, lo, hi)"
  obtains r where "RankBetween lo hi = Some (Inr r)" "separated (insert r (other_ranks self p (items db)))"
    "lo = [] \<or> lo \<in> ranks_of p (items db)" "hi = [] \<or> hi \<in> ranks_of p (items db)"
    "length r \<le> Suc (max (length lo) (length hi))"
proof -
  let ?L = "ListProjectRanks p db"
  have S: "snd ` set ?L = ranks_of p (items db)" using ListProjectRanks_set [of p db] by simp
  have sep: "separated (ranks_of p (items db))" using ok by (simp add: rank_ok_def)
  have ne: "[] \<notin> snd ` set ?L" using sep unfolding S by (auto simp: separated_def)
  note strict = ListProjectRanks_strict [OF ok, of p]
  have res: "(lo = [] \<or> lo \<in> snd ` set ?L) \<and> (hi = [] \<or> hi \<in> snd ` set ?L \<and> lo < hi) \<and>
      (\<forall>(c, s) \<in> set ?L. c \<noteq> Some self \<longrightarrow> s \<le> lo \<or> hi \<noteq> [] \<and> hi \<le> s)"
  proof (cases "after = None")
    case True
    have "hi \<noteq> [] \<Longrightarrow> [] < hi" by (cases hi) auto
    then show ?thesis using rank_scan_found [OF scan [unfolded True, simplified] strict] ne by auto
  next
    case False
    then show ?thesis using rank_scan_search [OF _ strict ne, of self after "[]" lo hi] scan by auto
  qed
  have vlo: "rank_valid lo" and lo_mem: "lo = [] \<or> lo \<in> ranks_of p (items db)" using res sep S by (auto simp: separated_def)
  have hi_mem: "hi = [] \<or> hi \<in> ranks_of p (items db)" using res S by auto
  obtain r where r: "RankBetween lo hi = Some (Inr r)" "rank_valid r" "rank_lt lo r" "hi \<noteq> [] \<Longrightarrow> rank_lt r hi"
    "length r \<le> Suc (max (length lo) (length hi))"
  proof (cases "hi = []")
    case True
    then show thesis using that RankBetween_after [OF vlo] by auto
  next
    case False
    then have "rank_valid hi" "rank_lt lo hi" using res sep S lo_mem hi_mem by (auto simp: separated_def)
    then show thesis using that RankBetween_rank_lt [OF vlo] by blast
  qed
  have pos: "rank_lt [] r" using lo_mem r(2,3) sep vlo rank_lt_trans [of "[]" lo r] by (auto simp: separated_def)
  let ?T = "{s. (s = lo \<or> s = hi) \<and> s \<noteq> []} \<union> other_ranks self p (items db)"
  have T: "?T \<subseteq> ranks_of p (items db)" using lo_mem hi_mem by (auto simp: other_ranks_def ranks_of_def)
  have "separated (insert r ?T)"
  proof (rule separated_insert [OF separated_subset [OF sep T] r(2) pos, of lo hi])
    show "s \<le> lo \<or> hi \<noteq> [] \<and> hi \<le> s" if "s \<in> ?T" for s
      using that res other_ranks_listed [of s self p db] by fastforce
  qed (use r in auto)
  then have "separated (insert r (other_ranks self p (items db)))" by (rule separated_subset) auto
  then show thesis using that r lo_mem hi_mem by blast
qed

text \<open>Writing the placed rank to the moved item.\<close>

lemma write_rank_ok:
  assumes ok: "rank_ok (items db)" and sep: "separated (insert r (other_ranks self p (items db)))"
    and mine: "\<And>i. i \<in> set (items db) \<Longrightarrow> it_ID i = self \<Longrightarrow> it_ProjectID i = p"
    and up: "update_items (\<lambda>i. it_ID i = self) (\<lambda>i. i\<lparr>it_Rank := r\<rparr>) db = Inr (rows, db')"
  shows "rank_ok (items db')"
proof -
  define g where "g i = (if it_ID i = self then i\<lparr>it_Rank := r\<rparr> else i)" for i :: Item
  have items: "items db' = map g (items db)" "items_unique (items db')" using up by (auto simp: update_items_Inr g_def)
  have pid: "it_ProjectID (g i) = it_ProjectID i" "it_ID (g i) = it_ID i" for i by (simp_all add: g_def)
  have "separated (ranks_of q (items db'))" for q
  proof (cases "q = p")
    case True
    have "ranks_of p (items db') \<subseteq> insert r (other_ranks self p (items db))"
    proof
      fix x assume "x \<in> ranks_of p (items db')"
      then obtain i where i: "i \<in> set (items db)" "it_ProjectID i = p" "x = it_Rank (g i)" by (auto simp: ranks_of_def items pid)
      then show "x \<in> insert r (other_ranks self p (items db))" by (auto simp: g_def other_ranks_def)
    qed
    then show ?thesis using True sep separated_subset by blast
  next
    case False
    have "ranks_of q (items db') \<subseteq> ranks_of q (items db)"
    proof
      fix x assume "x \<in> ranks_of q (items db')"
      then obtain i where i: "i \<in> set (items db)" "it_ProjectID i = q" "x = it_Rank (g i)" by (auto simp: ranks_of_def items pid)
      then have "it_ID i \<noteq> self" using mine False by auto
      then show "x \<in> ranks_of q (items db)" using i by (auto simp: g_def ranks_of_def)
    qed
    then show ?thesis using ok separated_subset by (auto simp: rank_ok_def)
  qed
  then show ?thesis using items(2) by (simp add: rank_ok_def items_unique_def)
qed

lemma reparent_rank_Suc:
  assumes scan: "rank_scan (it_ID it) (rp_RankAfter r) (rp_RankAfter r = None) [] (ListProjectRanks (it_ProjectID it) db) = (True, lo, hi)"
    and x: "RankBetween lo hi = Some (Inr x)"
  shows "reparent_rank (Suc n) now it r db =
    (if RankNeedsRebalance x
     then rbind (rebalanceProjectRanks now (it_ProjectID it) (ListProjectRanks (it_ProjectID it) db) db) (reparent_rank n now it r)
     else rbind (sql (update_items (\<lambda>i. it_ID i = rp_ID r) (\<lambda>i. i\<lparr>it_Rank := x\<rparr>) db)) (\<lambda>(_, db'). Inr db'))"
  unfolding reparent_rank.simps Let_def scan prod.case x by simp

lemma reranked_project:
  assumes "reranked db db'" "\<And>i. i \<in> set (items db) \<Longrightarrow> it_ID i = u \<Longrightarrow> it_ProjectID i = p"
    "i \<in> set (items db')" "it_ID i = u"
  shows "it_ProjectID i = p"
proof -
  obtain g where g: "keeps_place g" "items db' = map g (items db)"
  proof -
    obtain g where "rank_only g" "db' = db\<lparr>items := map g (items db)\<rparr>" using assms(1) unfolding reranked_def by blast
    then show thesis using that [OF rank_only_place] by simp
  qed
  then obtain j where "j \<in> set (items db)" "i = g j" using assms(3) by auto
  then show ?thesis using assms(2) [of j] assms(4) g(1) by (simp add: keeps_place_def)
qed

lemma long_rank_listed:
  assumes "RankNeedsRebalance x" "length x \<le> Suc (max (length lo) (length hi))"
    "lo = [] \<or> lo \<in> ranks_of p (items db)" "hi = [] \<or> hi \<in> ranks_of p (items db)"
  shows "ListProjectRanks p db \<noteq> []"
proof
  assume "ListProjectRanks p db = []"
  then have "ranks_of p (items db) = {}" using ListProjectRanks_set [of p db] by simp
  then show False using assms by (simp add: RankNeedsRebalance_def RankRebalanceThreshold_def)
qed

lemma reparent_rank_ok:
  assumes "rank_ok (items db)" "reparent_rank n now it r db = Inr db'" "it_ID it = rp_ID r"
    and "\<And>i. i \<in> set (items db) \<Longrightarrow> it_ID i = it_ID it \<Longrightarrow> it_ProjectID i = it_ProjectID it"
  shows "rank_ok (items db')"
  using assms(1,2,4)
proof (induction n arbitrary: db)
  case (Suc n)
  let ?p = "it_ProjectID it"
  obtain f lo hi where scan: "rank_scan (it_ID it) (rp_RankAfter r) (rp_RankAfter r = None) [] (ListProjectRanks ?p db) = (f, lo, hi)"
    by (metis prod_cases3)
  then have f: "f" using Suc.prems(2) by (cases f) simp_all
  note scan = scan [unfolded iffD2 [OF eq_True f]]
  obtain x where x: "RankBetween lo hi = Some (Inr x)" "separated (insert x (other_ranks (it_ID it) ?p (items db)))"
    "lo = [] \<or> lo \<in> ranks_of ?p (items db)" "hi = [] \<or> hi \<in> ranks_of ?p (items db)"
    "length x \<le> Suc (max (length lo) (length hi))"
    by (rule place_rank [OF Suc.prems(1) scan])
  note step = reparent_rank_Suc [OF scan x(1), of n now]
  show ?case
  proof (cases "RankNeedsRebalance x")
    case True
    then obtain db1 where rb: "rebalanceProjectRanks now ?p (ListProjectRanks ?p db) db = Inr db1"
      "reparent_rank n now it r db1 = Inr db'"
      using Suc.prems(2) unfolding step by (auto simp: result_simps)
    have ok1: "rank_ok (items db1)"
      by (rule rebalance_rank_ok(1) [OF Suc.prems(1) rb(1) long_rank_listed [OF True x(5,3,4)]])
    show ?thesis
      by (rule Suc.IH [OF ok1 rb(2)]) (rule reranked_project [OF rebalance_reranked [OF rb(1)] Suc.prems(3)])
  next
    case False
    then obtain rows where "update_items (\<lambda>i. it_ID i = rp_ID r) (\<lambda>i. i\<lparr>it_Rank := x\<rparr>) db = Inr (rows, db')"
      using Suc.prems(2) unfolding step by (auto simp: result_simps)
    then show ?thesis using write_rank_ok [OF Suc.prems(1) x(2)] Suc.prems(3) assms(3) by simp
  qed
qed simp

subsection \<open>Order after a respread\<close>

lemma map_of_zip_mono:
  assumes "length xs = length ys" "sorted_wrt (<) xs" "sorted_wrt (<) ys" "x \<in> set xs" "y \<in> set xs" "x < (y :: 'a :: linorder)"
  shows "the (map_of (zip xs ys) x) < (the (map_of (zip xs ys) y) :: 'b :: linorder)"
proof -
  have d: "distinct xs" using assms(2) by (simp add: strict_sorted_iff)
  obtain i j where ij: "i < length xs" "x = xs ! i" "j < length xs" "y = xs ! j" using assms(4,5) by (metis in_set_conv_nth)
  have "j < i \<Longrightarrow> y < x" using sorted_wrt_nth_less [OF assms(2), of j i] ij by simp
  moreover have "i \<noteq> j" using ij assms(6) by auto
  ultimately have "i < j" using assms(6) by force
  then show ?thesis using assms(1,3) ij d by (simp add: map_of_zip_nth sorted_wrt_nth_less)
qed

lemma map_of_zip_map: "length xs = length ys \<Longrightarrow> distinct xs \<Longrightarrow> map (\<lambda>x. the (map_of (zip xs ys) x)) xs = ys"
  by (rule nth_equalityI) (simp_all add: map_of_zip_nth)

lemma RankSequence_strict: "sorted_wrt (<) (RankSequence n)"
proof -
  have "ranks_ordered (RankSequence n)" by (rule RankSequence_ordered)
  then have "sorted_wrt rank_lt (RankSequence n)" "list_all rank_valid (RankSequence n)" by (auto simp: ranks_ordered_def)
  then show ?thesis by (auto simp: list_all_iff intro: sorted_wrt_mono_rel [of _ rank_lt] rank_lt_less)
qed

lemma sort_key_map_mono:
  assumes "distinct (map snd L)" "\<And>x y. x \<in> snd ` set L \<Longrightarrow> y \<in> snd ` set L \<Longrightarrow> x < y \<Longrightarrow> h x < h y"
  shows "sort_key snd (map (map_prod id h) L) = map (map_prod id h) (sort_key snd (L :: ('a \<times> 'b :: linorder) list))"
    (is "?l = map ?g ?s")
proof (rule sort_key_inj_key_eq)
  have h: "inj_on h (snd ` set L)" using assms(2) by (metis inj_onI linorder_neqE order_less_irrefl)
  show "inj_on snd (set (map ?g L))"
  proof (rule inj_onI)
    fix a b assume "a \<in> set (map ?g L)" "b \<in> set (map ?g L)" and eq: "snd a = snd b"
    then obtain c d where cd: "c \<in> set L" "a = ?g c" "d \<in> set L" "b = ?g d" by auto
    then have "snd c = snd d" using eq h by (auto simp: inj_on_def)
    then show "a = b" using cd assms(1) by (auto simp: distinct_map inj_on_def)
  qed
  show "mset (map ?g L) = mset (map ?g ?s)" by simp
  have "sorted (map snd ?s)" by simp
  then have "sorted_wrt (\<lambda>x y. snd x \<le> snd y) ?s" by (simp add: sorted_map)
  then have "sorted_wrt (\<lambda>x y. h (snd x) \<le> h (snd y)) ?s"
    by (rule sorted_wrt_mono_rel [rotated]) (use assms(2) in \<open>force simp: le_less\<close>)
  then show "sorted (map snd (map ?g ?s))" by (simp add: sorted_map sorted_wrt_map)
qed

lemma rebalance_order:
  assumes ok: "rank_ok (items db)" and rb: "rebalanceProjectRanks now p (ListProjectRanks p db) db = Inr db'"
  shows "ListProjectRanks p db' = zip (map fst (ListProjectRanks p db)) (RankSequence (int (length (ListProjectRanks p db))))"
proof (cases "ListProjectRanks p db = []")
  case True
  then show ?thesis using rb by (simp add: rebalanceProjectRanks_def)
next
  case False
  let ?L = "ListProjectRanks p db" and ?new = "RankSequence (int (length (ListProjectRanks p db)))"
  define h where "h = (\<lambda>r. the (map_of (zip (map snd ?L) ?new) r))"
  note R = rebalance_Inr [OF rb False]
  note strict = ListProjectRanks_strict [OF ok, of p]
  let ?row = "\<lambda>d i. (if rank_hidden d i then None else Some (it_ID i), it_Rank i)"
  let ?mine = "filter (\<lambda>i. it_ProjectID i = p) (items db)"
  have hidden: "rank_hidden db' (i\<lparr>it_Rank := r, it_Version := v, it_UpdatedAt := t\<rparr>) = rank_hidden db i" for i r v t
    using settled.rebalance_frame [OF rb] by (simp add: settled_part_def rank_hidden_def option.case_eq_if)
  have "map (?row db') (filter (\<lambda>i. it_ProjectID i = p) (map (\<lambda>i. if it_ProjectID i = p then i\<lparr>it_Rank := h (it_Rank i),
      it_Version := it_Version i + 1, it_UpdatedAt := now\<rparr> else i) its)) =
    map (map_prod id h) (map (?row db) (filter (\<lambda>i. it_ProjectID i = p) its))" for its
    by (induction its) (simp_all add: hidden)
  then have "map (?row db') (filter (\<lambda>i. it_ProjectID i = p) (items db')) = map (map_prod id h) (map (?row db) ?mine)"
    unfolding R(1) h_def .
  then have "ListProjectRanks p db' = sort_key snd (map (map_prod id h) (map (?row db) ?mine))"
    unfolding ListProjectRanks_def by simp
  also have "\<dots> = map (map_prod id h) ?L"
    unfolding ListProjectRanks_def
  proof (rule sort_key_map_mono)
    show "distinct (map snd (map (?row db) ?mine))" using project_ranks_distinct [OF ok, of p] by (simp add: o_def)
    fix x y assume xy: "x \<in> snd ` set (map (?row db) ?mine)" "y \<in> snd ` set (map (?row db) ?mine)" "x < y"
    have "snd ` set (map (?row db) ?mine) = set (map snd ?L)" unfolding ListProjectRanks_set by (auto simp: ranks_of_def image_def)
    then show "h x < h y" unfolding h_def
      using map_of_zip_mono [OF R(4) strict RankSequence_strict _ _ xy(3)] xy by blast
  qed
  also have "\<dots> = zip (map fst ?L) (map h (map snd ?L))"
    by (simp add: zip_map_map zip_same_conv_map map_prod_def split_beta id_def)
  also have "map h (map snd ?L) = ?new"
    unfolding h_def using map_of_zip_map [OF R(4)] strict strict_sorted_iff by blast
  finally show ?thesis .
qed

subsection \<open>Every change keeps the ranks\<close>

definition keeps_rank :: "(Item \<Rightarrow> Item) \<Rightarrow> bool" where
  "keeps_rank g = (\<forall>i. it_ID (g i) = it_ID i \<and> it_ProjectID (g i) = it_ProjectID i \<and> it_Rank (g i) = it_Rank i)"

lemma keeps_rank_if: "keeps_rank g \<Longrightarrow> keeps_rank (\<lambda>i. if sel i then g i else i)"
  by (simp add: keeps_rank_def)

lemma rank_ok_map: "keeps_rank g \<Longrightarrow> rank_ok its \<Longrightarrow> rank_ok (map g its)"
  unfolding keeps_rank_def rank_ok_def by (simp add: ranks_of_map_other o_def)

lemma update_items_rank:
  "keeps_rank f \<Longrightarrow> rank_ok (items db) \<Longrightarrow> update_items sel f db = Inr (rows, db') \<Longrightarrow> rank_ok (items db')"
  by (auto simp: update_items_Inr intro: rank_ok_map keeps_rank_if)

lemma bump_item_rank: "rank_ok (items db) \<Longrightarrow> bump_item now u seq db = Inr db' \<Longrightarrow> rank_ok (items db')"
  unfolding bump_item_def by (auto simp: result_simps keeps_rank_def intro: update_items_rank [rotated 2])

lemma rank_ok_filter: "rank_ok its \<Longrightarrow> rank_ok (filter P its)"
  unfolding rank_ok_def by (auto simp: distinct_map_filter ranks_of_def intro: separated_subset)

lemma ReparentSubtree_keeps:
  assumes "ReparentSubtree now u np base old seq db = Inr (rows, db')"
  obtains g where "keeps_rank g" "items db' = map g (items db)" "items_unique (items db')"
proof -
  obtain o' b' where ob: "ltree_of_text old = Some o'" "ltree_of_text base = Some b'"
    using assms by (auto simp: ReparentSubtree_def Let_def result_simps)
  note R = ReparentSubtree_Inr [OF assms ob]
  have "keeps_rank (moved_row u np b' o' seq now)" by (simp add: keeps_rank_def moved_row_def)
  then show thesis using that [OF keeps_rank_if R(1) [unfolded move_items_def] R(4)] by blast
qed

lemma reparent_op_rank:
  assumes ok: "rank_ok (items db)" and r: "applyReparent now r seq db = Inr (paths, db')"
  shows "rank_ok (items db')"
  using r
proof (rule applyReparentE)
  fix it target height rows db1
  assume it: "find_item db (rp_ID r) = Some it"
    and mv: "ReparentSubtree now (rp_ID r) (rp_NewParentID r) target (join_dots (it_Path it)) seq db = Inr (rows, db1)"
    and place: "db' = db1 \<or> rp_SetRank r \<and> reparent_rank 2 now it r db1 = Inr db'"
  obtain g where g: "keeps_rank g" "items db1 = map g (items db)" "items_unique (items db1)"
    by (rule ReparentSubtree_keeps [OF mv])
  have ok1: "rank_ok (items db1)" using rank_ok_map [OF g(1) ok] g(2) by simp
  have ids: "distinct (map it_ID (items db))"
    using g by (simp add: items_unique_def keeps_rank_def o_def)
  have mem: "it \<in> set (items db)" "it_ID it = rp_ID r" using it find_Some_in by (fastforce simp: find_item_def)+
  have "it_ProjectID i = it_ProjectID it" if i: "i \<in> set (items db1)" "it_ID i = it_ID it" for i
  proof -
    obtain j where j: "j \<in> set (items db)" "i = g j" using i(1) g(2) by auto
    then have "j = it" using i(2) g(1) ids mem(1) by (auto simp: keeps_rank_def distinct_map inj_on_def)
    then show ?thesis using j g(1) by (simp add: keeps_rank_def)
  qed
  then show ?thesis using place ok1 reparent_rank_ok [OF ok1 _ mem(2)] by blast
qed

lemma rank_ok_append:
  assumes "rank_ok its" "separated (insert (it_Rank i) (ranks_of (it_ProjectID i) its))"
    "it_Rank i \<notin> ranks_of (it_ProjectID i) its"
  shows "rank_ok (its @ [i])"
proof -
  have "ranks_of p (its @ [i]) = (if p = it_ProjectID i then insert (it_Rank i) (ranks_of p its) else ranks_of p its)" for p
    by (auto simp: ranks_of_def)
  then show ?thesis using assms unfolding rank_ok_def by (auto simp: ranks_of_def)
qed

lemma insert_op_rank:
  assumes ok: "rank_ok (items db)" and new: "in_rank ins = []" and r: "applyInsert now m ins seq db = Inr (path, db')"
  shows "rank_ok (items db')"
  using r
proof (rule applyInsert_reranked)
  fix key num db1 cfg rank db2 row
  assume 1: "items db1 = items db" "InsertItem now (insert_row m ins key cfg rank seq) path db2 = Inr (row, db')"
    "(if in_rank ins = [] then rankForNewItem now (in_ProjectID ins) db1 else Inr (in_rank ins, db1)) = Inr (rank, db2)"
  have rk: "rank_ok (items db2) \<and> separated (insert rank (ranks_of (in_ProjectID ins) (items db2))) \<and>
      rank \<notin> ranks_of (in_ProjectID ins) (items db2)"
    using rankForNewItem_spec [of db1 now "in_ProjectID ins"] 1(1,3) new ok by simp
  have row: "items db' = items db2 @ [row]" "it_Rank row = rank" "it_ProjectID row = in_ProjectID ins"
    using 1(2) by (auto simp: InsertItem_Inr insert_row_def)
  show ?thesis using rk rank_ok_append [of "items db2" row] unfolding row by simp
qed

text \<open>No caller sets a rank of its own: creates and updates leave it to the store.\<close>

fun unranked :: "change_op \<Rightarrow> bool" where
  "unranked (changeInsert ins) = (in_rank ins = [])"
| "unranked (changeUpdate up) = (iu_Rank up = None)"
| "unranked _ = True"

lemma apply_change_rank:
  assumes "rank_ok (items (fs_db st))" "unranked (ch_op c)" "apply_change now m itemSeq st c = Inr st'"
  shows "rank_ok (items (fs_db st'))"
  using assms(3)
proof (cases rule: apply_changeE)
  case insert then show ?thesis using insert_op_rank assms(1,2) by auto
next
  case update then show ?thesis using assms(1,2)
    by (auto simp: applyUpdate_def UpdateItemFields_def update_params_def coalesce_def result_simps keeps_rank_def
        intro: update_items_rank [rotated 2])
next
  case reparent then show ?thesis using reparent_op_rank assms(1) by auto
next
  case softDelete then show ?thesis using assms(1)
    by (auto simp: SoftDeleteItem_def result_simps keeps_rank_def intro: update_items_rank [rotated 2])
next
  case (hardDelete row db')
  then show ?thesis using assms(1) rank_ok_filter HardDelete_Inr [OF hardDelete(3)] by simp
next
  case (link l row db' db'')
  then show ?thesis using assms(1) bump_item_rank [OF _ link(3)] InsertLink_Inr [OF link(2)] by simp
next
  case (unlink l db')
  then show ?thesis using assms(1) bump_item_rank [OF _ unlink(2)] by (simp add: DeleteLink_def)
next
  case (comment cc db' db'')
  then have "items db' = items (fs_db st)" by (auto simp: applyComment_def Let_def result_simps split: if_splits)
  then show ?thesis using comment(4) assms(1) bump_item_rank [OF _ comment(3)] by simp
qed

subsection \<open>The rank search always ends\<close>

definition rank_failure :: "store_error \<Rightarrow> bool" where
  "rank_failure e = (e \<in> {Diverges, Panics, ErrRank})"

lemma ListProjectRanks_length: "length (ListProjectRanks p db) \<le> length (items db)"
  by (simp add: ListProjectRanks_def)

lemma reparent_rank_Inl_short:
  assumes ok: "rank_ok (items db)" and short: "\<And>s. s \<in> ranks_of (it_ProjectID it) (items db) \<Longrightarrow> length s \<le> 39"
    and r: "reparent_rank (Suc n) now it r db = Inl e"
  shows "e = ErrInvalidMove \<or> (\<exists>s. e = SqlError s)"
proof -
  let ?p = "it_ProjectID it"
  obtain f lo hi where scan: "rank_scan (it_ID it) (rp_RankAfter r) (rp_RankAfter r = None) [] (ListProjectRanks ?p db) = (f, lo, hi)"
    by (metis prod_cases3)
  show ?thesis
  proof (cases f)
    case True
    note scan = scan [unfolded iffD2 [OF eq_True True]]
    obtain x where x: "RankBetween lo hi = Some (Inr x)" "lo = [] \<or> lo \<in> ranks_of ?p (items db)"
      "hi = [] \<or> hi \<in> ranks_of ?p (items db)" "length x \<le> Suc (max (length lo) (length hi))"
      by (rule place_rank [OF ok scan])
    have "length lo \<le> 39" "length hi \<le> 39" using x(2,3) short by auto
    then have "\<not> RankNeedsRebalance x" using x(4) by (simp add: RankNeedsRebalance_def RankRebalanceThreshold_def)
    then show ?thesis using r unfolding reparent_rank_Suc [OF scan x(1)] by (auto simp: result_simps)
  qed (use r scan in simp)
qed

lemma reparent_rank_Inl:
  assumes ok: "rank_ok (items db)" and few: "length (items db) + 2 \<le> 36 ^ 39"
    and r: "reparent_rank 2 now it r db = Inl e"
  shows "e = ErrInvalidMove \<or> (\<exists>s. e = SqlError s)"
proof -
  let ?p = "it_ProjectID it"
  let ?L = "ListProjectRanks ?p db"
  obtain f lo hi where scan: "rank_scan (it_ID it) (rp_RankAfter r) (rp_RankAfter r = None) [] ?L = (f, lo, hi)"
    by (metis prod_cases3)
  have r: "reparent_rank (Suc (Suc 0)) now it r db = Inl e" using r by (simp only: numeral_2_eq_2)
  show ?thesis
  proof (cases f)
    case True
    note scan = scan [unfolded iffD2 [OF eq_True True]]
    obtain x where x: "RankBetween lo hi = Some (Inr x)" "lo = [] \<or> lo \<in> ranks_of ?p (items db)"
      "hi = [] \<or> hi \<in> ranks_of ?p (items db)" "length x \<le> Suc (max (length lo) (length hi))"
      by (rule place_rank [OF ok scan])
    note r = r [unfolded reparent_rank_Suc [OF scan x(1)]]
    show ?thesis
    proof (cases "RankNeedsRebalance x")
      case True
      have ne: "?L \<noteq> []" by (rule long_rank_listed [OF True x(4,2,3)])
      consider (sql) "rebalanceProjectRanks now ?p ?L db = Inl e"
        | (again) db1 where "rebalanceProjectRanks now ?p ?L db = Inr db1" "reparent_rank (Suc 0) now it r db1 = Inl e"
        using r True by (auto simp: result_simps)
      then show ?thesis
      proof cases
        case sql
        then show ?thesis using rebalance_Inl by blast
      next
        case again
        note rb = rebalance_rank_ok [OF ok again(1) ne]
        have "length s \<le> 39" if "s \<in> ranks_of ?p (items db1)" for s
          by (rule RankSequence_length_le [of _ "int (length ?L)"])
             (use that rb(2) few ListProjectRanks_length [of ?p db] in auto)
        then show ?thesis using reparent_rank_Inl_short [OF rb(1) _ again(2)] by blast
      qed
    qed (use r in \<open>auto simp: result_simps\<close>)
  qed (use r scan in simp)
qed

lemma insert_op_Inl:
  assumes "rank_ok (items db)" "in_rank ins = []" "applyInsert now m ins seq db = Inl e"
  shows "\<not> rank_failure e"
proof -
  have "items db1 = items db" if "NextItemKey (in_ProjectID ins) db = Inr ((key, num), db1)" for key num db1
    using that by (auto simp: NextItemKey_Inr)
  then have "\<not> rank_failure e" if "NextItemKey (in_ProjectID ins) db = Inr ((key, num), db1)"
      "rankForNewItem now (in_ProjectID ins) db1 = Inl e" for key num db1
    using rankForNewItem_Inl [OF _ that(2)] assms(1) that(1) by (auto simp: rank_failure_def)
  moreover have "\<not> rank_failure e" if "insert_path ins db1 = Inl e" for db1
    using that by (auto simp: insert_path_def result_simps rank_failure_def split: option.splits if_splits)
  ultimately show ?thesis using assms(2,3)
    by (auto simp: applyInsert_def Let_def result_simps rank_failure_def)
qed

lemma reparent_op_Inl:
  assumes ok: "rank_ok (items db)" and few: "length (items db) + 2 \<le> 36 ^ 39"
    and r: "applyReparent now r seq db = Inl e"
  shows "\<not> rank_failure e"
proof -
  have "\<not> rank_failure e" if "ReparentSubtree now (rp_ID r) np target old seq db = Inr (rows, db1)"
      "reparent_rank 2 now it r db1 = Inl e" for np target old rows db1 it
  proof (rule ReparentSubtree_keeps [OF that(1)])
    fix g assume "keeps_rank g" "items db1 = map g (items db)"
    then have "rank_ok (items db1)" "length (items db1) + 2 \<le> 36 ^ 39" using rank_ok_map ok few by auto
    from reparent_rank_Inl [OF this that(2)] show ?thesis by (auto simp: rank_failure_def)
  qed
  moreover have "\<not> rank_failure e" if "reparent_target it r db = Inl e" for it
    using that by (auto simp: reparent_target_def result_simps rank_failure_def split: option.splits if_splits)
  moreover have "\<not> rank_failure e" if "subtree_height p db = Inl e" for p
    using that by (auto simp: subtree_height_def rank_failure_def split: option.splits)
  ultimately show ?thesis using r
    by (auto simp: applyReparent_def Let_def result_simps rank_failure_def split: if_splits)
qed

lemma apply_change_Inl:
  assumes "rank_ok (items (fs_db st))" "length (items (fs_db st)) + 2 \<le> 36 ^ 39" "unranked (ch_op c)"
    and e: "apply_change now m itemSeq st c = Inl e"
  shows "\<not> rank_failure e"
proof -
  have op: "apply_op now m c (itemSeq (ch_itemID c)) st = Inl e" using e by (auto simp: apply_change_def result_simps)
  show ?thesis
  proof (cases "ch_op c")
    case (changeInsert ins)
    then have "applyInsert now m ins (itemSeq (ch_itemID c)) (fs_db st) = Inl e"
      using op by (auto simp: apply_op_def Let_def result_simps)
    then show ?thesis using insert_op_Inl assms(1,3) changeInsert by auto
  next
    case (changeReparent r)
    then have "applyReparent now r (itemSeq (ch_itemID c)) (fs_db st) = Inl e"
      using op by (auto simp: apply_op_def Let_def result_simps)
    then show ?thesis by (rule reparent_op_Inl [OF assms(1,2)])
  next
    case (changeComment cc)
    then show ?thesis using op
      by (auto simp: apply_op_def Let_def result_simps applyComment_def bump_item_def rank_failure_def split: if_splits)
  qed (use op in \<open>auto simp: apply_op_def Let_def result_simps applyUpdate_def bump_item_def rank_failure_def\<close>)
qed

lemma bump_item_length: "bump_item now u seq db = Inr db' \<Longrightarrow> length (items db') = length (items db)"
  by (auto simp: bump_item_def result_simps update_items_Inr)

lemma apply_change_grows:
  assumes "apply_change now m itemSeq st c = Inr st'"
  shows "length (items (fs_db st')) \<le> Suc (length (items (fs_db st)))"
  using assms
proof (cases rule: apply_changeE)
  case (insert ins path db')
  from insert(2) show ?thesis
    by (rule applyInsert_reranked) (auto simp: InsertItem_Inr reranked_def insert(3))
next
  case update then show ?thesis by (auto simp: applyUpdate_def UpdateItemFields_def result_simps update_items_Inr)
next
  case (reparent r paths db')
  from reparent(2) show ?thesis
  proof (rule applyReparentE)
    fix it target height rows db1
    assume mv: "ReparentSubtree now (rp_ID r) (rp_NewParentID r) target (join_dots (it_Path it)) (itemSeq (ch_itemID c)) (fs_db st) = Inr (rows, db1)"
      and place: "db' = db1 \<or> rp_SetRank r \<and> reparent_rank 2 now it r db1 = Inr db'"
    have "length (items db1) = length (items (fs_db st))" by (rule ReparentSubtree_keeps [OF mv]) simp
    moreover have "length (items db') = length (items db1)"
      using place reparent_rank_reranked [of 2 now it r db1 db'] by (auto simp: reranked_def)
    ultimately show ?thesis by (simp add: reparent(3))
  qed
next
  case softDelete then show ?thesis by (auto simp: SoftDeleteItem_def result_simps update_items_Inr)
next
  case (hardDelete row db')
  then show ?thesis using HardDelete_Inr [OF hardDelete(3)] by (simp add: le_Suc_eq)
next
  case (link l row db' db'')
  then show ?thesis using InsertLink_Inr [OF link(2)] bump_item_length [OF link(3)] by simp
next
  case (unlink l db')
  then show ?thesis using bump_item_length [OF unlink(2)] by (simp add: DeleteLink_def)
next
  case (comment cc db' db'')
  then have "items db' = items (fs_db st)" by (auto simp: applyComment_def Let_def result_simps split: if_splits)
  then show ?thesis using comment(4) bump_item_length [OF comment(3)] by simp
qed

subsection \<open>Flush\<close>

abbreviation flush_start :: "Mutation \<Rightarrow> database \<Rightarrow> flush_state" where
  "flush_start m db \<equiv> \<lparr>fs_db = db, fs_touched = mu_touchedPaths m, fs_itemIDs = [], fs_created = [], fs_hardDeled = []\<rparr>"

lemma assign_seqs_ops: "assign_seqs k s cs = (cs', s') \<Longrightarrow> map ch_op cs' = map ch_op cs"
  using assign_seqs_numbers [of k s cs cs' s'] by (metis (no_types, lifting) comp_eq_dest_lhs fst_conv map_map map_eq_conv)

lemma changes_rank_ok:
  assumes "rank_ok (items (fs_db st0))" "list_all (\<lambda>c. unranked (ch_op c)) changes"
    "rfold (apply_change now m itemSeq) st0 changes = Inr st"
  shows "rank_ok (items (fs_db st))"
  by (rule rfold_invariant [OF assms(3), where P = "\<lambda>s. rank_ok (items (fs_db s))"])
     (use assms(1,2) apply_change_rank in \<open>auto simp: list_all_iff\<close>)

lemma flush_rank:
  assumes "rank_ok (items db)" "list_all (\<lambda>c. unranked (ch_op c)) (mu_changes m)" "flush now m db = Inr (res, db')"
  shows "rank_ok (items db')"
  using assms(3)
proof (rule flushE)
  fix highest db1 changes itemSeq st db2 db3
  assume 1: "AllocateSeq (int (eventCount m)) (mu_workspaceID m) db = Inr (highest, db1)"
    and 3: "assign_seqs (highest - int (eventCount m) + 1) (\<lambda>_. 0) (mu_changes m) = (changes, itemSeq)"
    and 4: "rfold (apply_change now m itemSeq) (flush_start m db1) changes = Inr st"
    and 5: "rfold (\<lambda>d u. sql (InsertRollupRow now u d)) (fs_db st) (fs_created st) = Inr db2"
    and 6: "recomputeRollups now (filter (\<lambda>u. u \<notin> set (fs_hardDeled st)) (dirtyAncestors (fs_touched st))) db2 = Inr db3"
    and 7: "rfold (\<lambda>d e. sql (InsertEvent now (event_row (mu_workspaceID m) e) d)) db3 (all_events changes) = Inr db'"
  have "list_all (\<lambda>c. unranked (ch_op c)) changes"
    using assms(2) assign_seqs_ops [OF 3] by (metis (no_types, lifting) list.pred_map comp_def list.pred_cong)
  then have "rank_ok (items (fs_db st))" using changes_rank_ok [OF _ _ 4] 1 assms(1) by (auto simp: AllocateSeq_Inr)
  moreover have "items db' = items (fs_db st)"
    using insert_events_Inr [OF 7] recompute_items [OF 6] insert_rollups_items [OF 5] by simp
  ultimately show ?thesis by simp
qed

lemma sql_no_rank_failure: "rfold (\<lambda>d x. sql (f x d)) db xs = Inl e \<Longrightarrow> \<not> rank_failure e"
  by (auto simp: result_simps rank_failure_def dest!: rfold_error)

lemma flush_Inl:
  assumes ok: "rank_ok (items db)" and un: "list_all (\<lambda>c. unranked (ch_op c)) (mu_changes m)"
    and few: "length (items db) + length (mu_changes m) + 2 \<le> 36 ^ 39" and e: "flush now m db = Inl e"
  shows "\<not> rank_failure e"
proof (cases "AllocateSeq (int (eventCount m)) (mu_workspaceID m) db")
  case (Inl s)
  then show ?thesis using e by (auto simp: flush_def Let_def sql_def rank_failure_def)
next
  case (Inr hd)
  obtain highest db1 where hd: "hd = (highest, db1)" by (cases hd)
  obtain changes itemSeq where num: "assign_seqs (highest - int (eventCount m) + 1) (\<lambda>_. 0) (mu_changes m) = (changes, itemSeq)"
    by (metis surj_pair)
  have un': "list_all (\<lambda>c. unranked (ch_op c)) changes" and len: "length changes = length (mu_changes m)"
    using un assign_seqs_ops [OF num] by (metis (no_types, lifting) list.pred_map comp_def list.pred_cong) (metis assign_seqs_ops num length_map)
  have db1: "items db1 = items db" using Inr hd by (auto simp: AllocateSeq_Inr)
  have step: "\<not> rank_failure e" if err: "rfold (apply_change now m itemSeq) (flush_start m db1) changes = Inl e"
  proof -
    obtain ys x zs t where t: "changes = ys @ x # zs" "rfold (apply_change now m itemSeq) (flush_start m db1) ys = Inr t"
      "apply_change now m itemSeq t x = Inl e" using rfold_error [OF err] by blast
    have "rank_ok (items (fs_db t))" using changes_rank_ok [OF _ _ t(2)] un' t(1) ok db1 by simp
    moreover have "length (items (fs_db t)) \<le> length (items (fs_db (flush_start m db1))) + length ys"
      by (rule rfold_growth [OF t(2)]) (rule apply_change_grows)
    ultimately show ?thesis using apply_change_Inl [OF _ _ _ t(3)] un' t(1) len few db1 by simp
  qed
  note later = sql_no_rank_failure [of "InsertRollupRow now"] sql_no_rank_failure [of "RecomputeRollup now"]
    sql_no_rank_failure [of "\<lambda>e. InsertEvent now (event_row (mu_workspaceID m) e)"]
  have conflict: "\<not> rank_failure ErrVersionConflict" by (simp add: rank_failure_def)
  show ?thesis
    using e Inr hd num
    by (auto simp: flush_def Let_def result_simps recomputeRollups_def conflict split: prod.splits dest: later step)
qed

lemma RebalanceProject_Inr:
  assumes "RebalanceProject now ws p db = (Inr n, db')"
  obtains db1 db2 where "items db1 = items db" "restrictions db1 = restrictions db"
    "rebalanceProjectRanks now p (ListProjectRanks p db) db1 = Inr db2" "items db' = items db2"
    "restrictions db' = restrictions db2" "n = length (ListProjectRanks p db)"
proof -
  let ?L = "ListProjectRanks p db"
  obtain seq db1 db2 where 1: "AllocateSeq 1 ws db = Inr (seq, db1)"
    "rebalanceProjectRanks now p ?L db1 = Inr db2" "n = length ?L"
    and ev: "\<exists>ev. InsertEvent now ev db2 = Inr db'"
    using assms by (auto simp: RebalanceProject_def transaction_def Let_def result_simps split: sum.splits)
  have "items db' = items db2" "restrictions db' = restrictions db2"
    using ev by (auto simp: InsertEvent_def Let_def result_simps)
  then show thesis using that [OF _ _ 1(2)] 1(1,3) by (auto simp: AllocateSeq_Inr)
qed

subsection \<open>Properties\<close>

definition unranked_callback :: "(Mutation \<Rightarrow> store_error + Mutation) \<Rightarrow> bool" where
  "unranked_callback fn = (\<forall>m m'. list_all (\<lambda>c. unranked (ch_op c)) (mu_changes m) \<longrightarrow> fn m = Inr m' \<longrightarrow>
     list_all (\<lambda>c. unranked (ch_op c)) (mu_changes m'))"

lemma prepare_unranked:
  "unranked_callback fn \<Longrightarrow> prepare ws fn opts = Inr m \<Longrightarrow> list_all (\<lambda>c. unranked (ch_op c)) (mu_changes m)"
proof -
  assume fn: "unranked_callback fn" "prepare ws fn opts = Inr m"
  let ?m0 = "foldl apply_option (empty_mutation ws) opts"
  have "mu_changes ?m0 = []" using foldl_apply_option [of "empty_mutation ws" opts] by (simp add: empty_mutation_def)
  moreover have "fn ?m0 = Inr m" using fn(2) by (simp add: prepare_Inr)
  ultimately show ?thesis using fn(1) unfolding unranked_callback_def by (metis list.pred_inject(1))
qed

text \<open>
  C4.  The ranks of a project stay pairwise distinct as fractions (so that there is always room
  between two of them) under every mutation that leaves ranks to the store: creation at the
  end, moves to a chosen position with up to one respread, and every other change.
\<close>

theorem Mutate_keeps_ranks:
  assumes "rank_ok (items db)" "unranked_callback fn" "Mutate now ws fn opts db = (res, db')"
  shows "rank_ok (items db')"
proof (cases res)
  case (Inl e)
  then show ?thesis using assms Mutate_Inl by blast
next
  case (Inr r)
  then obtain m where m: "prepare ws fn opts = Inr m" "flush now m db = Inr (r, db')" using assms(3) by (auto simp: Mutate_Inr)
  show ?thesis by (rule flush_rank [OF assms(1) prepare_unranked [OF assms(2) m(1)] m(2)])
qed

lemma demo_rank_ok: "rank_ok (items demo_tree)" "rank_ok (items demo_db)"
  by (auto simp: rank_ok_def separated_def ranks_of_def demo_items demo_db_def rankAlphabet_def rankIndex_def)

lemma demo_unranked: "unranked_callback demo_create"
  by (auto simp: unranked_callback_def demo_create_def demo_changes)
     (simp_all add: demo_insert_def)

theorem Mutate_keeps_ranks_witness:
  "\<exists>res db'. Mutate 100 1 demo_create [WithActor 9] demo_db = (Inr res, db') \<and> rank_ok (items db')"
  using demo_run Mutate_keeps_ranks [OF demo_rank_ok(2) demo_unranked] by metis

text \<open>
  C5.  The rank search is total in the store: although \<open>RankBetween\<close> can loop forever or panic on
  arbitrary arguments, a flush on a store with separated ranks never does either, and it never
  runs out of its two attempts: after the one respread every rank is short enough.
\<close>

theorem flush_ranks_total:
  assumes "rank_ok (items db)" "prepare ws fn opts = Inr m" "unranked_callback fn"
    and "length (items db) + length (mu_changes m) + 2 \<le> 36 ^ 39"
  shows "flush now m db \<notin> {Inl Diverges, Inl Panics, Inl ErrRank}"
  using flush_Inl [OF assms(1) prepare_unranked [OF assms(3,2)] assms(4)] by (auto simp: rank_failure_def)

theorem flush_ranks_total_witness:
  "\<exists>m res db'. prepare 1 demo_create [WithActor 9] = Inr m \<and> flush 100 m demo_db = Inr (res, db') \<and> length (items db') = 2 \<and>
     flush 100 m demo_db \<notin> {Inl Diverges, Inl Panics, Inl ErrRank}"
proof -
  have two: "length (items (snd demo_result)) = 2" by code_simp
  obtain res db' where run: "Mutate 100 1 demo_create [WithActor 9] demo_db = (Inr res, db')" by (rule demo_run)
  then obtain m where m: "prepare 1 demo_create [WithActor 9] = Inr m" "flush 100 m demo_db = Inr (res, db')" by (auto simp: Mutate_Inr)
  have "length (items db') = 2" using two run by (simp add: demo_result_def)
  moreover have "length (mu_changes m) = 2"
    using m(1) by (auto simp: prepare_Inr demo_create_def demo_changes empty_mutation_def apply_option_def)
  then have "flush 100 m demo_db \<notin> {Inl Diverges, Inl Panics, Inl ErrRank}"
    by (intro flush_ranks_total [OF demo_rank_ok(2) m(1) demo_unranked]) (simp add: demo_db_def)
  ultimately show ?thesis using m by blast
qed

text \<open>
  C8.  A respread keeps the order of the project: the items are listed in the same order as
  before and their new ranks are exactly the evenly spread sequence; the ranks stay separated.
\<close>

theorem RebalanceProject_keeps_order:
  assumes "rank_ok (items db)" "RebalanceProject now ws p db = (Inr n, db')"
  shows "ListProjectRanks p db' = zip (map fst (ListProjectRanks p db)) (RankSequence (int n)) \<and>
    n = length (ListProjectRanks p db) \<and> rank_ok (items db')"
  using assms(2)
proof (rule RebalanceProject_Inr)
  fix db1 db2
  assume 1: "items db1 = items db" "restrictions db1 = restrictions db" "items db' = items db2" "restrictions db' = restrictions db2"
    "n = length (ListProjectRanks p db)" and rb: "rebalanceProjectRanks now p (ListProjectRanks p db) db1 = Inr db2"
  have same: "ListProjectRanks p d = ListProjectRanks p d'"
    if "items d = items d'" "restrictions d = restrictions d'" for d d'
    using that by (simp add: ListProjectRanks_def rank_hidden_def)
  have "rank_ok (items db2)"
  proof (cases "ListProjectRanks p db = []")
    case True
    then show ?thesis using rb 1 assms(1) by (simp add: rebalanceProjectRanks_def)
  qed (use rebalance_rank_ok(1) [OF _ rb] 1 assms(1) in simp)
  moreover have "ListProjectRanks p db2 = zip (map fst (ListProjectRanks p db)) (RankSequence (int n))"
    using rebalance_order [of db1 now p db2] rb same [OF 1(1,2)] 1 assms(1) by simp
  ultimately show ?thesis using 1 same [of db' db2] by simp
qed

theorem RebalanceProject_keeps_order_witness:
  "\<exists>n db'. RebalanceProject 100 1 2 demo_tree = (Inr n, db') \<and> rank_ok (items db')"
  using demo_rebalance RebalanceProject_keeps_order [OF demo_rank_ok(1)] by metis

end
