(* ===== verification/Sx_Lexer.thy ===== *)
theory Sx_Lexer
  imports Sx_Prelude
begin

text \<open>
  The lexer of the query language: \<open>src/internal/sxq/lexer.go\<close> and \<open>aliases.go\<close>.  A Go string
  is a byte sequence; the index of the Go loops is carried as the position \<open>i\<close> beside the
  remaining bytes.
\<close>

declare rbind_cong [fundef_cong]

subsection \<open>Errors of the package\<close>

text \<open>One constructor per message; the arguments are what the message interpolates.\<close>

datatype sxq_error =
    QueryTooLong
  | InvalidUTF8
  | InvalidEscape nat
  | UnterminatedString nat
  | UseNotEqual nat
  | UnexpectedCharacter nat
  | TooManyTerms
  | Expected string nat
  | NotUntilPhase nat string
  | UnknownOperator string
  | ListTooLong
  | InvalidDuration
  | CannotOrderBy string
  | MixedCustomTypes string
  | UnsupportedFieldType
  | UnknownField string string
  | NeedsValue
  | TextNeedsField
  | TextNeedsString
  | TextNeedsMatch
  | IsNeedsNull
  | NullNeedsIs
  | ArrayComparison
  | UnsupportedOperator
  | MeNeedsUserField
  | MeNeedsUser
  | NowNeedsDate
  | ExpectedKind string
  | InField string sxq_error
  | PartialTooLong
  | OutOfFuel

subsection \<open>UTF-8\<close>

text \<open>
  \<open>utf8.ValidString\<close>.  The first byte of a sequence determines its size and the range of its
  second byte; the others are continuation bytes.
\<close>

definition utf8_first :: "nat \<Rightarrow> (nat \<times> nat \<times> nat) option" where
  "utf8_first b =
     (if b < 128 then Some (1, 128, 191)
      else if b < 194 then None
      else if b < 224 then Some (2, 128, 191)
      else if b = 224 then Some (3, 160, 191)
      else if b = 237 then Some (3, 128, 159)
      else if b < 240 then Some (3, 128, 191)
      else if b = 240 then Some (4, 144, 191)
      else if b < 244 then Some (4, 128, 191)
      else if b = 244 then Some (4, 128, 143)
      else None)"

function (sequential) ValidString :: "string \<Rightarrow> bool" where
  "ValidString [] = True"
| "ValidString (c # cs) =
     (case utf8_first (of_char c) of
        None \<Rightarrow> False
      | Some (n, lo, hi) \<Rightarrow>
          n \<le> length (c # cs) \<and>
          (n = 1 \<or> lo \<le> of_char (hd cs) \<and> (of_char (hd cs) :: nat) \<le> hi) \<and>
          list_all (\<lambda>d. 128 \<le> (of_char d :: nat) \<and> (of_char d :: nat) \<le> 191) (take (n - 1) cs) \<and>
          ValidString (drop (n - 1) cs))"
  by pat_completeness auto
termination by (relation "measure length") auto

subsection \<open>Tokens\<close>

record token =
  tk_text :: string
  tk_quoted :: bool
  tk_pos :: nat

definition is_space :: "char \<Rightarrow> bool" where
  "is_space c = (c \<in> {CHR '' '', CHR 0x09, CHR 0x0D, CHR 0x0A})"

definition is_quote :: "char \<Rightarrow> bool" where
  "is_quote c = (c \<in> {CHR 0x27, CHR 0x22})"

definition is_operator :: "char \<Rightarrow> bool" where
  "is_operator c = (c \<in> set ''()~,+:=<>!-'')"

definition word_char :: "char \<Rightarrow> bool" where
  "word_char c = (char_between CHR ''a'' CHR ''z'' c \<or> char_between CHR ''A'' CHR ''Z'' c \<or>
     char_between CHR ''0'' CHR ''9'' c \<or> c \<in> set ''_.-'')"

text \<open>The escapes of a quoted string.\<close>

definition unescape :: "char \<Rightarrow> char option" where
  "unescape c =
     (if c = CHR ''n'' then Some (CHR 0x0A)
      else if c = CHR ''r'' then Some (CHR 0x0D)
      else if c = CHR ''t'' then Some (CHR 0x09)
      else if c = CHR 0x5C \<or> c = CHR 0x27 \<or> c = CHR 0x22 then Some c
      else None)"

text \<open>The inner loop over a quoted string; \<open>i\<close> is the position of the first remaining byte.\<close>

fun lex_string :: "char \<Rightarrow> nat \<Rightarrow> nat \<Rightarrow> string \<Rightarrow> sxq_error + string \<times> nat \<times> string" where
  "lex_string quote start i [] = Inl (UnterminatedString start)"
| "lex_string quote start i (c # cs) =
     (if c = quote then Inr ([], i + 1, cs)
      else if c = CHR 0x5C then
        (case cs of
           [] \<Rightarrow> Inl (UnterminatedString start)
         | e # es \<Rightarrow> (case unescape e of
             None \<Rightarrow> Inl (InvalidEscape (i + 2))
           | Some d \<Rightarrow> rbind (lex_string quote start (i + 2) es) (\<lambda>(v, j, rest). Inr (d # v, j, rest))))
      else rbind (lex_string quote start (i + 1) cs) (\<lambda>(v, j, rest). Inr (c # v, j, rest)))"

text \<open>A closed string ends inside the input, right after its closing quote.\<close>

lemma lex_string_rest:
  "lex_string q start i cs = Inr (v, j, rest) \<Longrightarrow> \<exists>k. 0 < k \<and> k \<le> length cs \<and> rest = drop k cs \<and> j = i + k"
proof (induction q start i cs arbitrary: v j rest rule: lex_string.induct)
  case (2 q start i c cs)
  consider (close) "c = q" | (escape) e es d where "c \<noteq> q" "c = CHR 0x5C" "cs = e # es" "unescape e = Some d"
    | (plain) "c \<noteq> q" "c \<noteq> CHR 0x5C"
    using 2(3) by (auto split: if_splits list.splits option.splits)
  then show ?case
  proof cases
    case close
    then show ?thesis using 2(3) by (intro exI [of _ 1]) auto
  next
    case escape
    then obtain w where "lex_string q start (i + 2) es = Inr (w, j, rest)" using 2(3) by (auto simp: result_simps)
    then obtain k where "0 < k" "k \<le> length es" "rest = drop k es" "j = i + 2 + k" using 2(1) [OF escape(1-4)] by blast
    then show ?thesis using escape(3) by (intro exI [of _ "k + 2"]) auto
  next
    case plain
    then obtain w where "lex_string q start (i + 1) cs = Inr (w, j, rest)" using 2(3) by (auto simp: result_simps)
    then obtain k where "0 < k" "k \<le> length cs" "rest = drop k cs" "j = i + 1 + k" using 2(2) [OF plain] by blast
    then show ?thesis by (intro exI [of _ "k + 1"]) auto
  qed
qed simp

text \<open>The outer loop; \<open>n\<close> is the number of tokens so far.\<close>

function (sequential) lex_loop :: "nat \<Rightarrow> nat \<Rightarrow> string \<Rightarrow> sxq_error + token list" where
  "lex_loop n i [] = Inr []"
| "lex_loop n i (c # cs) =
     (if is_space c then lex_loop n (i + 1) cs
      else if is_quote c then
        rbind (lex_string c i (i + 1) cs) (\<lambda>(v, j, rest).
        rbind (lex_loop (n + 1) j rest) (\<lambda>ts. Inr (\<lparr>tk_text = v, tk_quoted = True, tk_pos = i\<rparr> # ts)))
      else if is_operator c then
        (let two = (cs \<noteq> [] \<and> hd cs = CHR ''='' \<and> c \<in> set ''<>!'');
             w = (if two then [c, CHR ''=''] else [c]) in
         if c = CHR ''!'' \<and> \<not> two then Inl (UseNotEqual i)
         else rbind (lex_loop (n + 1) (i + length w) (drop (length w - 1) cs)) (\<lambda>ts.
                Inr (\<lparr>tk_text = w, tk_quoted = False, tk_pos = i\<rparr> # ts)))
      else
        (let w = takeWhile word_char (c # cs) in
         if w = [] then Inl (UnexpectedCharacter i)
         else if n + 1 > 1024 then Inl TooManyTerms
         else rbind (lex_loop (n + 1) (i + length w) (drop (length w - 1) cs)) (\<lambda>ts.
                Inr (\<lparr>tk_text = w, tk_quoted = False, tk_pos = i\<rparr> # ts))))"
  by pat_completeness auto
termination by (relation "measure (\<lambda>(n, i, s). length s)") (auto dest!: lex_string_rest simp: Let_def)

definition lex :: "string \<Rightarrow> sxq_error + token list" where
  "lex input =
     (if length input > 4096 then Inl QueryTooLong
      else if \<not> ValidString input then Inl InvalidUTF8
      else rbind (lex_loop 0 0 input) (\<lambda>ts. Inr (ts @ [\<lparr>tk_text = [], tk_quoted = False, tk_pos = length input\<rparr>])))"

subsection \<open>Canonical words\<close>

text \<open>
  \<open>strings.ToLower\<close>.  Two characters outside ASCII have an ASCII lower case, the Kelvin sign and
  the dotted capital I; every other sequence outside ASCII stays outside ASCII and is left as it
  is here, which no comparison of this package can tell from Go's result.
\<close>

definition lower_char :: "char \<Rightarrow> char" where
  "lower_char c = (if char_between CHR ''A'' CHR ''Z'' c then char_of ((of_char c :: nat) + 32) else c)"

function (sequential) ToLower :: "string \<Rightarrow> string" where
  "ToLower [] = []"
| "ToLower (c # cs) =
     (if c = CHR 0xE2 \<and> take 2 cs = [CHR 0x84, CHR 0xAA] then CHR ''k'' # ToLower (drop 2 cs)
      else if c = CHR 0xC4 \<and> take 1 cs = [CHR 0xB0] then CHR ''i'' # ToLower (drop 1 cs)
      else lower_char c # ToLower cs)"
  by pat_completeness auto
termination by (relation "measure length") auto

definition aliases :: "(string \<times> string) list" where
  "aliases = [(''currentuser'', ''me''), (''empty'', ''null'')]"

definition canonical :: "string \<Rightarrow> string" where
  "canonical value = (let v = ToLower value in case map_of aliases v of Some r \<Rightarrow> r | None \<Rightarrow> v)"

subsection \<open>What a token list is\<close>

text \<open>The unquoted texts: an operator, or a word that an operator character does not start.\<close>

definition operators :: "string list" where
  "operators = [''('', '')'', ''~'', '','', ''+'', '':'', ''='', ''<'', ''>'', ''-'', ''<='', ''>='', ''!='']"

definition word_text :: "string \<Rightarrow> bool" where
  "word_text w = (w \<noteq> [] \<and> list_all word_char w \<and> \<not> is_operator (hd w))"

definition lexable :: "token \<Rightarrow> bool" where
  "lexable t = (tk_quoted t \<or> tk_text t \<in> set operators \<or> word_text (tk_text t))"

lemma char_classes:
  "is_space c \<Longrightarrow> \<not> is_quote c" "is_space c \<Longrightarrow> \<not> is_operator c" "is_space c \<Longrightarrow> \<not> word_char c"
  "is_quote c \<Longrightarrow> \<not> is_operator c" "is_quote c \<Longrightarrow> \<not> word_char c"
  by (auto simp: is_space_def is_quote_def is_operator_def word_char_def char_between_def)

definition token_in :: "nat \<Rightarrow> string \<Rightarrow> token \<Rightarrow> bool" where
  "token_in i s t = (i \<le> tk_pos t \<and> tk_pos t < i + length s \<and> lexable t \<and>
     (\<not> tk_quoted t \<longrightarrow> prefix (tk_text t) (drop (tk_pos t - i) s)))"

lemma token_in_drop:
  assumes "token_in (i + k) (drop k s) t"
  shows "token_in i s t"
proof -
  have "drop (tk_pos t - (i + k)) (drop k s) = drop (tk_pos t - i) s"
    using assms by (auto simp: token_in_def drop_drop)
  then show ?thesis using assms by (auto simp: token_in_def)
qed

lemma operator_texts:
  assumes "is_operator c" "c \<noteq> CHR ''!''"
  shows "[c] \<in> set operators"
  using assms by (auto simp: is_operator_def operators_def)

lemma tokens_Cons:
  assumes "list_all (token_in (i + k) (drop k s)) us \<and> sorted_wrt (<) (map tk_pos us)" "0 < k"
    and "token_in i s t" "tk_pos t = i"
  shows "list_all (token_in i s) (t # us) \<and> sorted_wrt (<) (map tk_pos (t # us))"
proof -
  have "token_in i s u \<and> i < tk_pos u" if "u \<in> set us" for u
    using assms(1,2) that token_in_drop [of i k s u] by (auto simp: list_all_iff token_in_def)
  then show ?thesis using assms by (auto simp: list_all_iff)
qed

lemma lex_loop_tokens:
  "lex_loop n i s = Inr ts \<Longrightarrow> list_all (token_in i s) ts \<and> sorted_wrt (<) (map tk_pos ts)"
proof (induction n i s arbitrary: ts rule: lex_loop.induct)
  case (2 n i c cs)
  consider (space) "is_space c" | (quote) "\<not> is_space c" "is_quote c"
    | (op) "\<not> is_space c" "\<not> is_quote c" "is_operator c" | (word) "\<not> is_space c" "\<not> is_quote c" "\<not> is_operator c" by blast
  then show ?case
  proof cases
    case space
    then have "list_all (token_in (i + 1) cs) ts \<and> sorted_wrt (<) (map tk_pos ts)" using 2(1,5) by simp
    then show ?thesis using token_in_drop [of i 1 "c # cs"] by (auto simp: list_all_iff)
  next
    case quote
    then obtain v j rest us where v: "lex_string c i (i + 1) cs = Inr (v, j, rest)" "lex_loop (n + 1) j rest = Inr us"
      "ts = \<lparr>tk_text = v, tk_quoted = True, tk_pos = i\<rparr> # us"
      using 2(5) by (auto simp: result_simps)
    obtain k where k: "0 < k" "k \<le> length cs" "rest = drop k cs" "j = i + 1 + k" using lex_string_rest [OF v(1)] by blast
    have "list_all (token_in (i + Suc k) (drop (Suc k) (c # cs))) us \<and> sorted_wrt (<) (map tk_pos us)"
      using 2(2) [OF quote v(1) refl refl v(2)] k by simp
    then show ?thesis unfolding v(3) by (rule tokens_Cons) (simp_all add: token_in_def lexable_def)
  next
    case op
    define two where "two = (cs \<noteq> [] \<and> hd cs = CHR ''='' \<and> c \<in> set ''<>!'')"
    define w where "w = (if two then [c, CHR ''=''] else [c])"
    have ok: "\<not> (c = CHR ''!'' \<and> \<not> two)" using 2(5) op by (auto simp: two_def Let_def split: if_splits)
    then obtain us where us: "lex_loop (n + 1) (i + length w) (drop (length w - 1) cs) = Inr us"
      "ts = \<lparr>tk_text = w, tk_quoted = False, tk_pos = i\<rparr> # us"
      using 2(5) op by (auto simp: two_def w_def Let_def result_simps split: if_splits)
    have "w \<in> set operators"
    proof (cases two)
      case True
      then have "c \<in> set ''<>!''" by (simp add: two_def)
      then show ?thesis using True by (auto simp: w_def operators_def)
    qed (use ok op(3) operator_texts in \<open>simp add: w_def\<close>)
    moreover have "prefix w (c # cs)" by (cases cs) (auto simp: w_def two_def)
    moreover have "list_all (token_in (i + length w) (drop (length w) (c # cs))) us \<and> sorted_wrt (<) (map tk_pos us)"
      using 2(3) [OF op two_def w_def ok us(1)] by (auto simp: w_def)
    moreover have "w \<noteq> []" by (simp add: w_def)
    ultimately show ?thesis unfolding us(2)
      by (intro tokens_Cons) (auto simp: token_in_def lexable_def)
  next
    case word
    define w where "w = takeWhile word_char (c # cs)"
    obtain us where us: "w \<noteq> []" "lex_loop (n + 1) (i + length w) (drop (length w - 1) cs) = Inr us"
      "ts = \<lparr>tk_text = w, tk_quoted = False, tk_pos = i\<rparr> # us" "\<not> n + 1 > 1024"
      using 2(5) word unfolding w_def by (auto simp: Let_def result_simps split: if_splits)
    have "word_text w" using us(1) word(3) by (auto simp: word_text_def w_def list_all_iff dest: set_takeWhileD split: if_splits)
    moreover have "prefix w (c # cs)" unfolding w_def by (rule takeWhile_is_prefix)
    moreover have "list_all (token_in (i + length w) (drop (length w) (c # cs))) us \<and> sorted_wrt (<) (map tk_pos us)"
      using 2(4) [OF word w_def us(1,4,2)] us(1) by (simp add: drop_Cons')
    ultimately show ?thesis unfolding us(3)
      by (intro tokens_Cons) (use us(1) in \<open>auto simp: token_in_def lexable_def\<close>)
  qed
qed simp

subsection \<open>Writing tokens\<close>

text \<open>
  How a client writes a token: a text in double quotes with its quotes and backslashes escaped,
  an operator or a word as it is.  Tokens are separated by spaces.
\<close>

definition escape_char :: "char \<Rightarrow> string" where
  "escape_char c = (if c = CHR 0x5C \<or> c = CHR 0x22 then [CHR 0x5C, c] else [c])"

definition quote_text :: "string \<Rightarrow> string" where
  "quote_text s = CHR 0x22 # concat (map escape_char s) @ [CHR 0x22]"

definition show_token :: "token \<Rightarrow> string" where
  "show_token t = (if tk_quoted t then quote_text (tk_text t) else tk_text t)"

definition show_tokens :: "token list \<Rightarrow> string" where
  "show_tokens ts = concat (map (\<lambda>t. show_token t @ '' '') ts)"

definition bare :: "token \<Rightarrow> string \<times> bool" where
  "bare t = (tk_text t, tk_quoted t)"

lemma lex_string_quoted:
  "\<exists>j. lex_string (CHR 0x22) start i (concat (map escape_char s) @ CHR 0x22 # rest) = Inr (s, j, rest)"
proof (induction s arbitrary: i)
  case (Cons c s)
  obtain j where "lex_string (CHR 0x22) start (i + length (escape_char c)) (concat (map escape_char s) @ CHR 0x22 # rest) = Inr (s, j, rest)"
    using Cons by blast
  then show ?case by (auto simp: escape_char_def [of c] unescape_def)
qed auto

lemma lex_loop_space: "lex_loop n i (CHR '' '' # s) = lex_loop n (i + 1) s"
  by (simp add: is_space_def)

lemma lex_loop_quoted:
  "\<exists>j. lex_loop n i (quote_text v @ s) = rbind (lex_loop (n + 1) j s) (\<lambda>ts. Inr (\<lparr>tk_text = v, tk_quoted = True, tk_pos = i\<rparr> # ts))"
proof -
  obtain j where "lex_string (CHR 0x22) i (i + 1) (concat (map escape_char v) @ CHR 0x22 # s) = Inr (v, j, s)"
    using lex_string_quoted by blast
  then show ?thesis by (auto simp: quote_text_def is_space_def is_quote_def intro!: exI [of _ j])
qed

lemma lex_loop_word:
  assumes "word_text w" "n < 1024" "s = [] \<or> \<not> word_char (hd s)"
  shows "lex_loop n i (w @ s) = rbind (lex_loop (n + 1) (i + length w) s) (\<lambda>ts. Inr (\<lparr>tk_text = w, tk_quoted = False, tk_pos = i\<rparr> # ts))"
proof -
  obtain c cs where w: "w = c # cs" using assms(1) by (cases w) (auto simp: word_text_def)
  have c: "word_char c" "\<not> is_operator c" "list_all word_char w" using assms(1) w by (auto simp: word_text_def)
  then have "\<not> is_space c" "\<not> is_quote c" using char_classes by blast+
  moreover have "takeWhile word_char (w @ s) = w"
    using c(3) assms(3) by (cases s) (auto simp: takeWhile_append list_all_iff)
  ultimately show ?thesis using assms(2) c(2) unfolding w by (simp add: Let_def)
qed

lemma lex_loop_operator:
  assumes "w \<in> set operators" "s = [] \<or> hd s \<noteq> CHR ''=''"
  shows "lex_loop n i (w @ s) = rbind (lex_loop (n + 1) (i + length w) s) (\<lambda>ts. Inr (\<lparr>tk_text = w, tk_quoted = False, tk_pos = i\<rparr> # ts))"
proof -
  have alone: "(s \<noteq> [] \<and> hd s = CHR ''='' \<and> x) = False" for x using assms(2) by auto
  consider (two) c where "w = [c, CHR ''='']" "c \<in> set ''<>!''" | (one) c where "w = [c]" "c \<in> set ''()~,+:=<>-''"
    using assms(1) by (auto simp: operators_def)
  then show ?thesis
  proof cases
    case two
    then have "\<not> is_space c" "\<not> is_quote c" "is_operator c" by (auto simp: is_space_def is_quote_def is_operator_def)
    then show ?thesis using two by (simp add: Let_def)
  next
    case one
    then have "\<not> is_space c" "\<not> is_quote c" "is_operator c" "c \<noteq> CHR ''!''" by (auto simp: is_space_def is_quote_def is_operator_def)
    then show ?thesis unfolding one(1) by (simp add: Let_def alone)
  qed
qed

lemma lex_loop_show:
  assumes "list_all lexable ts" "n + length ts \<le> 1024"
  shows "\<exists>us. lex_loop n i (show_tokens ts) = Inr us \<and> map bare us = map bare ts"
  using assms
proof (induction ts arbitrary: n i)
  case (Cons t ts)
  let ?s = "CHR '' '' # show_tokens ts"
  have sh: "show_tokens (t # ts) = show_token t @ ?s" by (simp add: show_tokens_def)
  have "\<exists>j. lex_loop n i (show_token t @ ?s) =
      rbind (lex_loop (n + 1) j ?s) (\<lambda>us. Inr (\<lparr>tk_text = tk_text t, tk_quoted = tk_quoted t, tk_pos = i\<rparr> # us))"
    using Cons.prems lex_loop_quoted [of n i "tk_text t" ?s] lex_loop_word [of "tk_text t" n ?s i]
      lex_loop_operator [of "tk_text t" ?s n i]
    by (auto simp: show_token_def lexable_def word_char_def char_between_def)
  moreover have "\<exists>us. lex_loop (n + 1) j ?s = Inr us \<and> map bare us = map bare ts" for j
    unfolding lex_loop_space using Cons.IH [of "n + 1" "j + 1"] Cons.prems by simp
  ultimately obtain us where "lex_loop n i (show_token t @ ?s) = Inr (\<lparr>tk_text = tk_text t, tk_quoted = tk_quoted t, tk_pos = i\<rparr> # us)"
    "map bare us = map bare ts" by (metis rbind_simps(2))
  moreover have "bare \<lparr>tk_text = tk_text t, tk_quoted = tk_quoted t, tk_pos = i\<rparr> = bare t" by (simp add: bare_def)
  ultimately show ?case unfolding sh by simp
qed (simp add: show_tokens_def)

text \<open>Writing tokens keeps valid UTF-8 valid.\<close>

definition ascii :: "char \<Rightarrow> bool" where
  "ascii c = ((of_char c :: nat) < 128)"

lemma ValidString_ascii: "list_all ascii w \<Longrightarrow> ValidString (w @ s) = ValidString s"
  by (induction w) (simp_all add: ascii_def utf8_first_def)

lemma utf8_first_size: "utf8_first b = Some (n, lo, hi) \<Longrightarrow> 1 \<le> n \<and> (n = 1 \<longleftrightarrow> b < 128)"
  by (auto simp: utf8_first_def split: if_splits)

lemma ValidString_escape:
  "ValidString s \<Longrightarrow> ValidString (concat (map escape_char s) @ r) = ValidString r"
proof (induction s rule: ValidString.induct)
  case (2 c cs)
  obtain n lo hi where f: "utf8_first (of_char c) = Some (n, lo, hi)" using 2(2) by (auto split: option.splits)
  have v: "n \<le> length (c # cs)" "n = 1 \<or> lo \<le> of_char (hd cs) \<and> (of_char (hd cs) :: nat) \<le> hi"
    "list_all (\<lambda>d. 128 \<le> (of_char d :: nat) \<and> (of_char d :: nat) \<le> 191) (take (n - 1) cs)" "ValidString (drop (n - 1) cs)"
    using 2(2) f by auto
  note IH = 2(1) [OF f refl refl v(4)]
  show ?case
  proof (cases "n = 1")
    case True
    then have "list_all ascii (escape_char c)" using utf8_first_size [OF f] by (simp add: ascii_def escape_char_def)
    then show ?thesis using IH True ValidString_ascii [of "escape_char c"] by simp
  next
    case False
    have high: "escape_char d = [d]" if "128 \<le> (of_char d :: nat)" for d using that by (auto simp: escape_char_def)
    have "128 \<le> (of_char c :: nat)" using utf8_first_size [OF f] False by simp
    moreover have "concat (map escape_char ds) = ds" if "list_all (\<lambda>d. 128 \<le> (of_char d :: nat) \<and> (of_char d :: nat) \<le> 191) ds" for ds
      using that high by (induction ds) auto
    note this [OF v(3)]
    ultimately have e: "concat (map escape_char (c # cs)) = c # take (n - 1) cs @ concat (map escape_char (drop (n - 1) cs))"
      using high [of c] by (metis append_Cons append_Nil append_take_drop_id concat_append list.simps(9) map_append concat.simps(2))
    have len: "length (take (n - 1) cs) = n - 1" "hd (take (n - 1) cs @ x) = hd cs" for x
      using v(1) False utf8_first_size [OF f] by (auto simp: hd_append)
    show ?thesis unfolding e using IH v f len False utf8_first_size [OF f] by simp
  qed
qed simp

lemma lexable_ascii: "lexable t \<Longrightarrow> \<not> tk_quoted t \<Longrightarrow> list_all ascii (tk_text t)"
proof -
  have op: "list_all (list_all ascii) operators" by code_simp
  have "ascii c" if "word_char c" for c
    using that by (auto simp: word_char_def char_between_def ascii_def less_eq_char_def)
  then show "lexable t \<Longrightarrow> \<not> tk_quoted t \<Longrightarrow> list_all ascii (tk_text t)"
    using op by (auto simp: lexable_def word_text_def list_all_iff)
qed

lemma ValidString_show:
  assumes "list_all (\<lambda>t. lexable t \<and> (tk_quoted t \<longrightarrow> ValidString (tk_text t))) ts"
  shows "ValidString (show_tokens ts)"
  using assms
proof (induction ts)
  case (Cons t ts)
  have sp: "ValidString (CHR '' '' # r) = ValidString r" "ValidString (CHR 0x22 # r) = ValidString r" for r
    using ValidString_ascii [of "[CHR '' '']" r] ValidString_ascii [of "[CHR 0x22]" r] by (simp_all add: ascii_def)
  have "ValidString (show_token t @ r) = ValidString r" for r
  proof (cases "tk_quoted t")
    case True
    then show ?thesis using Cons.prems ValidString_escape [of "tk_text t"] by (simp del: ValidString.simps add: show_token_def quote_text_def sp)
  next
    case False
    then show ?thesis using Cons.prems lexable_ascii ValidString_ascii by (simp del: ValidString.simps add: show_token_def)
  qed
  then show ?case using Cons by (simp del: ValidString.simps add: show_tokens_def sp)
qed (simp add: show_tokens_def)

subsection \<open>Properties\<close>

text \<open>
  Lexing inverts writing: a list of operators, words and quoted texts, written with each
  text in double quotes (its quotes and backslashes escaped) and a space after each token, lexes
  back to the same tokens followed by the end marker.  In particular every valid UTF-8 text
  can be written as a quoted value.
\<close>

theorem lex_show_tokens:
  assumes "list_all (\<lambda>t. lexable t \<and> (tk_quoted t \<longrightarrow> ValidString (tk_text t))) ts"
    and "length ts \<le> 1024" "length (show_tokens ts) \<le> 4096"
  shows "\<exists>us. lex (show_tokens ts) = Inr us \<and> map bare us = map bare ts @ [([], False)]"
proof -
  have "list_all lexable ts" using assms(1) by (simp add: list_all_iff)
  then obtain us where "lex_loop 0 0 (show_tokens ts) = Inr us" "map bare us = map bare ts"
    using lex_loop_show [of ts 0 0] assms(2) by auto
  then show ?thesis using assms(3) ValidString_show [OF assms(1)]
    by (simp add: lex_def) (simp add: bare_def)
qed

definition demo_tokens :: "token list" where
  "demo_tokens = [\<lparr>tk_text = ''title'', tk_quoted = False, tk_pos = 0\<rparr>, \<lparr>tk_text = ''='', tk_quoted = False, tk_pos = 0\<rparr>,
     \<lparr>tk_text = ''x or 1 = 1'', tk_quoted = True, tk_pos = 0\<rparr>]"

theorem lex_show_tokens_witness:
  "\<exists>us. lex (show_tokens demo_tokens) = Inr us \<and> map bare us = map bare demo_tokens @ [([], False)]"
  by (rule lex_show_tokens) code_simp+

text \<open>
   Tokens point into the input: the positions of the tokens are strictly ascending, the last
  token is the unquoted end marker at the end of the input, and every other token is a quoted
  text or the operator or word that stands in the input at its position.
\<close>

theorem lex_positions:
  assumes "lex input = Inr ts"
  shows "\<exists>us. ts = us @ [\<lparr>tk_text = [], tk_quoted = False, tk_pos = length input\<rparr>] \<and>
    sorted_wrt (<) (map tk_pos ts) \<and>
    (\<forall>t \<in> set us. tk_quoted t \<or> (tk_text t \<in> set operators \<or> word_text (tk_text t)) \<and> prefix (tk_text t) (drop (tk_pos t) input))"
proof -
  obtain us where us: "lex_loop 0 0 input = Inr us" "ts = us @ [\<lparr>tk_text = [], tk_quoted = False, tk_pos = length input\<rparr>]"
    using assms by (auto simp: lex_def result_simps split: if_splits)
  have "list_all (token_in 0 input) us" "sorted_wrt (<) (map tk_pos us)" using lex_loop_tokens [OF us(1)] by auto
  then show ?thesis using us(2) by (auto simp: list_all_iff token_in_def lexable_def sorted_wrt_append)
qed

theorem lex_positions_witness:
  "\<exists>ts. lex (show_tokens demo_tokens) = Inr ts \<and> sorted_wrt (<) (map tk_pos ts)"
proof -
  have "\<not> isl (lex (show_tokens demo_tokens))" by code_simp
  then obtain ts where "lex (show_tokens demo_tokens) = Inr ts" by (cases "lex (show_tokens demo_tokens)") auto
  with lex_positions [OF this] show ?thesis by blast
qed

end
