(* ===== verification/Sx_Parser.thy ===== *)
theory Sx_Parser
  imports Sx_Lexer Sx_Values
begin

text \<open>
  The parser of the query language: \<open>src/internal/sxq/parser.go\<close>.  The parser's fields become
  arguments: the tokens, the index \<open>at\<close>, which every function returns, and the depth, of which
  \<open>unary\<close> carries what is left.
\<close>

subsection \<open>Numbers\<close>

text \<open>
  \<open>strconv.ParseFloat(s, 64)\<close> returning a finite number: decimal or hexadecimal digits with at
  most one point, an exponent (required after hexadecimal digits), underscores between digits,
  and a value that does not round to infinity.  The names of infinities and of NaN have no
  digits.
\<close>

definition lower_hex :: "char \<Rightarrow> nat option" where
  "lower_hex c = (if char_between CHR ''a'' CHR ''f'' (lower_char c) then Some (of_char (lower_char c) - 87) else None)"

fun scan_mantissa :: "bool \<Rightarrow> bool \<Rightarrow> int \<Rightarrow> nat \<Rightarrow> bool \<Rightarrow> string \<Rightarrow> int \<times> nat \<times> bool \<times> string" where
  "scan_mantissa hex sawdot mant fr sawdigits [] = (mant, fr, sawdigits, [])"
| "scan_mantissa hex sawdot mant fr sawdigits (c # cs) =
     (if c = CHR ''_'' then scan_mantissa hex sawdot mant fr sawdigits cs
      else if c = CHR ''.'' then
        (if sawdot then (mant, fr, sawdigits, c # cs) else scan_mantissa hex True mant fr sawdigits cs)
      else if is_digit c then
        scan_mantissa hex sawdot ((if hex then 16 else 10) * mant + int (digit_val c)) (if sawdot then fr + 1 else fr) True cs
      else (case if hex then lower_hex c else None of
          Some d \<Rightarrow> scan_mantissa hex sawdot (16 * mant + int d) (if sawdot then fr + 1 else fr) True cs
        | None \<Rightarrow> (mant, fr, sawdigits, c # cs)))"

fun scan_exponent :: "int \<Rightarrow> string \<Rightarrow> int \<times> string" where
  "scan_exponent e [] = (e, [])"
| "scan_exponent e (c # cs) =
     (if c = CHR ''_'' then scan_exponent e cs
      else if is_digit c then scan_exponent (if e < 10000 then 10 * e + int (digit_val c) else e) cs
      else (e, c # cs))"

definition read_exponent :: "bool \<Rightarrow> string \<Rightarrow> (int \<times> string) option" where
  "read_exponent hex s =
     (case s of
        c # cs \<Rightarrow>
          if lower_char c = (if hex then CHR ''p'' else CHR ''e'') then
            (let neg = (cs \<noteq> [] \<and> hd cs = CHR ''-'');
                 ds = (if cs \<noteq> [] \<and> (hd cs = CHR ''+'' \<or> hd cs = CHR ''-'') then tl cs else cs) in
             if ds = [] \<or> \<not> is_digit (hd ds) then None
             else (case scan_exponent 0 ds of (e, rest) \<Rightarrow> Some (if neg then - e else e, rest)))
          else if hex then None else Some (0, s)
      | [] \<Rightarrow> if hex then None else Some (0, s))"

text \<open>\<open>underscoreOK\<close>: the last character seen is a digit, an underscore or another one.\<close>

fun underscore_scan :: "bool \<Rightarrow> char \<Rightarrow> string \<Rightarrow> bool" where
  "underscore_scan hex saw [] = (saw \<noteq> CHR ''_'')"
| "underscore_scan hex saw (c # cs) =
     (if is_digit c \<or> hex \<and> lower_hex c \<noteq> None then underscore_scan hex CHR ''0'' cs
      else if c = CHR ''_'' then saw = CHR ''0'' \<and> underscore_scan hex CHR ''_'' cs
      else saw \<noteq> CHR ''_'' \<and> underscore_scan hex CHR ''!'' cs)"

definition underscoreOK :: "string \<Rightarrow> bool" where
  "underscoreOK s =
     (let t = (if s \<noteq> [] \<and> hd s \<in> {CHR ''-'', CHR ''+''} then tl s else s);
          based = (2 \<le> length t \<and> t ! 0 = CHR ''0'' \<and> lower_char (t ! 1) \<in> {CHR ''b'', CHR ''o'', CHR ''x''});
          hex = (based \<and> lower_char (t ! 1) = CHR ''x'') in
      if based then underscore_scan hex CHR ''0'' (drop 2 t) else underscore_scan False CHR ''^'' t)"

definition finite_float :: "int \<Rightarrow> int \<Rightarrow> int \<Rightarrow> bool" where
  "finite_float base mant e =
     (if 0 \<le> e then mant * base ^ nat e < 2 ^ 1024 - 2 ^ 970 else mant < (2 ^ 1024 - 2 ^ 970) * base ^ nat (- e))"

definition ParseFloat_ok :: "string \<Rightarrow> bool" where
  "ParseFloat_ok s =
     (let t = (if s \<noteq> [] \<and> hd s \<in> {CHR ''-'', CHR ''+''} then tl s else s);
          hex = (2 < length t \<and> t ! 0 = CHR ''0'' \<and> lower_char (t ! 1) = CHR ''x'') in
      case scan_mantissa hex False 0 0 False (if hex then drop 2 t else t) of (mant, fr, sawdigits, rest) \<Rightarrow>
      sawdigits \<and>
      (case read_exponent hex rest of
         None \<Rightarrow> False
       | Some (e, rest') \<Rightarrow> rest' = [] \<and> (CHR ''_'' \<in> set s \<longrightarrow> underscoreOK s) \<and>
           (if hex then finite_float 2 mant (e - 4 * int fr) else finite_float 10 mant (e - int fr))))"

text \<open>\<open>strconv.ParseInt(s, 10, 64)\<close>, as far as the bound of the caller.\<close>

definition ParseInt_dec :: "string \<Rightarrow> int option" where
  "ParseInt_dec s =
     (if s \<noteq> [] \<and> hd s = CHR ''-'' then map_option (\<lambda>n. - int n) (atoi_digits (tl s))
      else if s \<noteq> [] \<and> hd s = CHR ''+'' then map_option int (atoi_digits (tl s))
      else map_option int (atoi_digits s))"

subsection \<open>Queries\<close>

datatype literal = LNil | LString string | LBool bool | LNumber string

record Value =
  va_Literal :: literal
  va_Function :: string
  va_Offset :: int

datatype Expr = Expr (ex_Op: string) (ex_Field: string) (ex_Values: "Value list")
    (ex_Left: "Expr option") (ex_Right: "Expr option")

record Query =
  qu_Expr :: "Expr option"
  qu_Order :: string
  qu_Desc :: bool

subsection \<open>Peeking and taking\<close>

definition peek :: "token list \<Rightarrow> nat \<Rightarrow> token" where
  "peek ts p = (if p \<ge> length ts then last ts else ts ! p)"

definition is_tok :: "token list \<Rightarrow> nat \<Rightarrow> string \<Rightarrow> bool" where
  "is_tok ts p s = (\<not> tk_quoted (peek ts p) \<and> canonical (tk_text (peek ts p)) = s)"

definition expected :: "token list \<Rightarrow> nat \<Rightarrow> string \<Rightarrow> sxq_error" where
  "expected ts p s = Expected s (tk_pos (peek ts p))"

text \<open>\<open>take\<close>: the index after the token, or the same index.\<close>

definition take_tok :: "token list \<Rightarrow> nat \<Rightarrow> string \<Rightarrow> nat" where
  "take_tok ts p s = (if is_tok ts p s then p + 1 else p)"

definition require :: "token list \<Rightarrow> nat \<Rightarrow> string \<Rightarrow> string \<Rightarrow> sxq_error + nat" where
  "require ts p s what = (if is_tok ts p s then Inr (p + 1) else Inl (expected ts p what))"

subsection \<open>Values\<close>

definition unit_of :: "char \<Rightarrow> int option" where
  "unit_of c = map_of [(CHR ''d'', 24 * 3600000000000), (CHR ''w'', 7 * 24 * 3600000000000),
     (CHR ''h'', 3600000000000), (CHR ''m'', 60000000000)] c"

definition duration :: "string \<Rightarrow> int option" where
  "duration s =
     (case (ParseInt_dec (butlast s), unit_of (last s)) of
        (Some n, Some u) \<Rightarrow> if n < 0 \<or> n > 1000000 \<or> n > (2 ^ 63 - 1) div u then None else Some (n * u)
      | _ \<Rightarrow> None)"

abbreviation lit :: "literal \<Rightarrow> Value" where
  "lit l \<equiv> \<lparr>va_Literal = l, va_Function = [], va_Offset = 0\<rparr>"

definition parse_function :: "token list \<Rightarrow> nat \<Rightarrow> string \<Rightarrow> sxq_error + Value \<times> nat" where
  "parse_function ts p name =
     rbind (require ts p ''('' ''empty function parentheses'') (\<lambda>p1.
     rbind (require ts p1 '')'' ''empty function parentheses'') (\<lambda>p2.
     if name = ''now'' \<and> (is_tok ts p2 ''+'' \<or> is_tok ts p2 ''-'') then
       (let negative = is_tok ts p2 ''-'';
            d = peek ts (p2 + 1) in
        if tk_quoted d \<or> length (tk_text d) < 2 then Inl (expected ts (p2 + 2) ''a duration such as 7d'')
        else (case duration (tk_text d) of
            None \<Rightarrow> Inl InvalidDuration
          | Some o' \<Rightarrow> Inr (\<lparr>va_Literal = LNil, va_Function = name, va_Offset = (if negative then - o' else o')\<rparr>, p2 + 2)))
     else Inr (\<lparr>va_Literal = LNil, va_Function = name, va_Offset = 0\<rparr>, p2)))"

definition parse_value :: "token list \<Rightarrow> nat \<Rightarrow> sxq_error + Value \<times> nat" where
  "parse_value ts p =
     (let t = peek ts p; name = canonical (tk_text t) in
      if tk_text t = [] then Inl (expected ts p ''a value'')
      else if tk_quoted t then Inr (lit (LString (tk_text t)), p + 1)
      else if name = ''startofsprint'' \<or> name = ''endofsprint'' then Inl (NotUntilPhase 4 (tk_text t))
      else if name = ''me'' \<or> name = ''now'' then parse_function ts (p + 1) name
      else if name = ''null'' then Inr (lit LNil, p + 1)
      else if name = ''true'' \<or> name = ''false'' then Inr (lit (LBool (name = ''true'')), p + 1)
      else if is_tok ts p ''-'' then
        (let n = ''-'' @ tk_text (peek ts (p + 1)) in
         if ParseFloat_ok n then Inr (lit (LNumber n), p + 2) else Inl (expected ts (p + 1) ''a number after -''))
      else if ParseFloat_ok (tk_text t) then Inr (lit (LNumber (tk_text t)), p + 1)
      else if list_ex (\<lambda>c. c \<in> set ''()~,+:=<>!'') (tk_text t) \<or> name = ''and'' \<or> name = ''or'' \<or> name = ''order''
        then Inl (expected ts p ''a literal value'')
      else Inr (lit (LString (tk_text t)), p + 1))"

text \<open>The list of \<open>in\<close>; the number is how many more values are allowed.\<close>

fun parse_list :: "nat \<Rightarrow> token list \<Rightarrow> nat \<Rightarrow> sxq_error + Value list \<times> nat" where
  "parse_list 0 ts p = rbind (parse_value ts p) (\<lambda>_. Inl ListTooLong)"
| "parse_list (Suc k) ts p =
     rbind (parse_value ts p) (\<lambda>(v, p1).
     if is_tok ts p1 '','' then rbind (parse_list k ts (p1 + 1)) (\<lambda>(vs, p2). Inr (v # vs, p2))
     else Inr ([v], p1))"

subsection \<open>Expressions\<close>

definition parse_operator :: "token list \<Rightarrow> nat \<Rightarrow> string \<Rightarrow> sxq_error + string \<times> nat" where
  "parse_operator ts p op =
     (if op = ''not'' then rbind (require ts p ''in'' ''in after not'') (\<lambda>p1. Inr (''not in'', p1))
      else if op = ''is'' then Inr (if is_tok ts p ''not'' then ''is not'' else ''is'', take_tok ts p ''not'')
      else if op \<in> set [''='', ''!='', ''>'', ''>='', ''<'', ''<='', ''in'', ''~'', '':''] then Inr (op, p)
      else Inl (UnknownOperator op))"

definition comparison :: "token list \<Rightarrow> nat \<Rightarrow> sxq_error + Expr \<times> nat" where
  "comparison ts p =
     (let field = canonical (tk_text (peek ts p)) in
      if field = ''descendants'' \<or> field = ''ancestors'' then Inl (NotUntilPhase 5 field)
      else if tk_quoted (peek ts p) \<or> field = [] then Inl (expected ts p ''a field name'')
      else if tk_quoted (peek ts (p + 1)) then Inl (expected ts (p + 1) ''a comparison operator'')
      else rbind (parse_operator ts (p + 2) (canonical (tk_text (peek ts (p + 1))))) (\<lambda>(op, p1).
        if op = ''in'' \<or> op = ''not in'' then
          rbind (require ts p1 ''('' ''a parenthesized list'') (\<lambda>p2.
          rbind (parse_list 200 ts p2) (\<lambda>(vs, p3).
          rbind (require ts p3 '')'' ''a closing list parenthesis'') (\<lambda>p4.
          Inr (Expr op field vs None None, p4))))
        else rbind (parse_value ts p1) (\<lambda>(v, p2). Inr (Expr op field [v] None None, p2))))"

text \<open>
  The loops of \<open>or\<close> and \<open>and\<close>: operands joined to the left.  The first argument bounds the
  number of turns.
\<close>

fun chain :: "nat \<Rightarrow> string \<Rightarrow> (nat \<Rightarrow> sxq_error + Expr \<times> nat) \<Rightarrow> token list \<Rightarrow> Expr \<Rightarrow> nat \<Rightarrow> sxq_error + Expr \<times> nat" where
  "chain 0 word operand ts left p = Inl OutOfFuel"
| "chain (Suc k) word operand ts left p =
     (if is_tok ts p word
      then rbind (operand (p + 1)) (\<lambda>(right, p1). chain k word operand ts (Expr word [] [] (Some left) (Some right)) p1)
      else Inr (left, p))"

definition operands :: "string \<Rightarrow> (nat \<Rightarrow> sxq_error + Expr \<times> nat) \<Rightarrow> token list \<Rightarrow> nat \<Rightarrow> sxq_error + Expr \<times> nat" where
  "operands word operand ts p =
     rbind (operand p) (\<lambda>(left, p1). chain (Suc (length ts)) word operand ts left p1)"

definition parse_or :: "(nat \<Rightarrow> sxq_error + Expr \<times> nat) \<Rightarrow> token list \<Rightarrow> nat \<Rightarrow> sxq_error + Expr \<times> nat" where
  "parse_or un ts p = operands ''or'' (operands ''and'' un ts) ts p"

fun unary :: "nat \<Rightarrow> token list \<Rightarrow> nat \<Rightarrow> sxq_error + Expr \<times> nat" where
  "unary 0 ts p = Inl (expected ts p ''less than 64 levels of nesting'')"
| "unary (Suc d) ts p =
     (if is_tok ts p ''not'' then
        rbind (unary d ts (p + 1)) (\<lambda>(e, p1). Inr (Expr ''not'' [] [] (Some e) None, p1))
      else if is_tok ts p ''('' then
        rbind (parse_or (unary d ts) ts (p + 1)) (\<lambda>(e, p1).
        rbind (require ts p1 '')'' ''a closing parenthesis'') (\<lambda>p2. Inr (e, p2)))
      else comparison ts p)"

subsection \<open>Queries\<close>

definition parse_order :: "token list \<Rightarrow> nat \<Rightarrow> sxq_error + (string \<times> bool) \<times> nat" where
  "parse_order ts p =
     (if is_tok ts p ''order'' then
        rbind (require ts (p + 1) ''by'' ''by after order'') (\<lambda>p1.
        let field = canonical (tk_text (peek ts p1)) in
        if tk_quoted (peek ts p1) \<or> field = [] then Inl (expected ts p1 ''an order field'')
        else if is_tok ts (p1 + 1) ''desc'' then Inr ((field, True), p1 + 2)
        else Inr ((field, False), take_tok ts (p1 + 1) ''asc''))
      else Inr ((''id'', False), p))"

definition parse_filter :: "token list \<Rightarrow> sxq_error + Expr option \<times> nat" where
  "parse_filter ts =
     (if tk_text (peek ts 0) \<noteq> [] \<and> \<not> is_tok ts 0 ''order''
      then rbind (parse_or (unary 64 ts) ts 0) (\<lambda>(e, p). Inr (Some e, p))
      else Inr (None, 0))"

definition parse_tokens :: "token list \<Rightarrow> sxq_error + Query" where
  "parse_tokens ts =
     rbind (parse_filter ts) (\<lambda>(e, p).
     rbind (parse_order ts p) (\<lambda>((order, desc), p1).
     if tk_text (peek ts p1) \<noteq> [] then Inl (expected ts p1 ''and, or, or order by'')
     else Inr \<lparr>qu_Expr = e, qu_Order = order, qu_Desc = desc\<rparr>))"

definition Parse :: "string \<Rightarrow> sxq_error + Query" where
  "Parse input = rbind (lex input) parse_tokens"

subsection \<open>Narrowing to projects\<close>

function (sequential) projectKeys :: "Expr option \<Rightarrow> string list" where
  "projectKeys None = []"
| "projectKeys (Some (Expr op field vals l r)) =
     (if op = ''and'' then (let a = projectKeys l; b = projectKeys r in if a \<noteq> [] then a else b)
      else if op = ''or'' then
        (let a = projectKeys l; b = projectKeys r in if a = [] \<or> b = [] then [] else a @ b)
      else if field = ''project'' \<and> (op = ''='' \<or> op = ''in'') then
        (if list_all (\<lambda>v. case va_Literal v of LString s \<Rightarrow> True | _ \<Rightarrow> False) vals
         then map (\<lambda>v. case va_Literal v of LString s \<Rightarrow> s | _ \<Rightarrow> []) vals else [])
      else [])"
  by pat_completeness auto
termination
  by (relation "measure (\<lambda>e. case e of None \<Rightarrow> 0 | Some x \<Rightarrow> size x)") (auto split: option.splits)

definition ProjectKeys :: "Query \<Rightarrow> string list" where
  "ProjectKeys q = projectKeys (qu_Expr q)"

subsection \<open>Well-formed queries\<close>

definition comparison_ops :: "string list" where
  "comparison_ops = [''='', ''!='', ''>'', ''>='', ''<'', ''<='', ''in'', ''~'', '':'', ''not in'', ''is'', ''is not'']"

definition wf_value :: "Value \<Rightarrow> bool" where
  "wf_value v =
     ((case va_Literal v of LString t \<Rightarrow> t \<noteq> [] | LNumber n \<Rightarrow> ParseFloat_ok n | _ \<Rightarrow> True) \<and>
      va_Function v \<in> {[], ''me'', ''now''} \<and> (va_Function v \<noteq> [] \<longrightarrow> va_Literal v = LNil) \<and>
      (va_Offset v \<noteq> 0 \<longrightarrow> va_Function v = ''now'') \<and> \<bar>va_Offset v\<bar> < 2 ^ 63)"

text \<open>
  What the parser builds: \<open>and\<close> and \<open>or\<close> with two operands, \<open>not\<close> with one, and comparisons of
  a named field with one value, or with one to 200 values in a list.
\<close>

fun wf_expr :: "Expr \<Rightarrow> bool" where
  "wf_expr (Expr op field vals l r) =
     (if op = ''and'' \<or> op = ''or'' then field = [] \<and> vals = [] \<and>
        (case l of None \<Rightarrow> False | Some a \<Rightarrow> wf_expr a) \<and> (case r of None \<Rightarrow> False | Some b \<Rightarrow> wf_expr b)
      else if op = ''not'' then field = [] \<and> vals = [] \<and> r = None \<and> (case l of None \<Rightarrow> False | Some a \<Rightarrow> wf_expr a)
      else op \<in> set comparison_ops \<and> field \<noteq> [] \<and> l = None \<and> r = None \<and> list_all wf_value vals \<and>
        1 \<le> length vals \<and> length vals \<le> (if op = ''in'' \<or> op = ''not in'' then 200 else 1))"

definition eof_ended :: "token list \<Rightarrow> bool" where
  "eof_ended ts = (ts \<noteq> [] \<and> tk_text (last ts) = [] \<and> \<not> tk_quoted (last ts))"

lemma canonical_Nil [simp]: "canonical [] = []"
  by (simp add: canonical_def aliases_def)

lemma is_tok_bound: "eof_ended ts \<Longrightarrow> is_tok ts p s \<Longrightarrow> s \<noteq> [] \<Longrightarrow> p < length ts"
  by (rule ccontr) (auto simp: eof_ended_def is_tok_def peek_def)

text \<open>
  The contract of an operand parser: it does not run out of turns, it consumes a token and it
  builds a well-formed expression.  The loops turn one such parser into another.
\<close>

locale operand_parser =
  fixes ts :: "token list" and operand :: "nat \<Rightarrow> sxq_error + Expr \<times> nat"
  assumes never_stuck: "operand p \<noteq> Inl OutOfFuel"
    and advances: "operand p = Inr (e, p') \<Longrightarrow> p < p'"
    and builds_wf: "operand p = Inr (e, p') \<Longrightarrow> wf_expr e"
    and ended: "eof_ended ts"
begin

lemma chain_ok:
  assumes "word = ''and'' \<or> word = ''or''" "wf_expr left" "length ts - p < k"
  shows "chain k word operand ts left p \<noteq> Inl OutOfFuel \<and>
    (\<forall>e p'. chain k word operand ts left p = Inr (e, p') \<longrightarrow> p \<le> p' \<and> wf_expr e)"
  using assms(2,3)
proof (induction k arbitrary: left p)
  case (Suc k)
  show ?case
  proof (cases "is_tok ts p word")
    case True
    have p: "p < length ts" using is_tok_bound [OF ended True] assms(1) by auto
    show ?thesis
    proof (cases "operand (p + 1)")
      case (Inl err)
      then show ?thesis using True never_stuck [of "p + 1"] by auto
    next
      case (Inr ep)
      obtain right p1 where r: "ep = (right, p1)" by (cases ep)
      have "p + 1 < p1" "wf_expr right" using Inr r advances builds_wf by auto
      moreover have "wf_expr (Expr word [] [] (Some left) (Some right))" using assms(1) Suc.prems(1) calculation(2) by auto
      ultimately show ?thesis
        using Suc.IH [of "Expr word [] [] (Some left) (Some right)" p1] Suc.prems(2) True Inr r p by fastforce
    qed
  qed (use Suc.prems in auto)
qed simp

lemma operands_ok:
  assumes "word = ''and'' \<or> word = ''or''"
  shows "operands word operand ts p \<noteq> Inl OutOfFuel"
    "operands word operand ts p = Inr (e, p') \<Longrightarrow> p < p'"
    "operands word operand ts p = Inr (e, p') \<Longrightarrow> wf_expr e"
proof -
  have "operands word operand ts p \<noteq> Inl OutOfFuel \<and> (\<forall>e p'. operands word operand ts p = Inr (e, p') \<longrightarrow> p < p' \<and> wf_expr e)"
  proof (cases "operand p")
    case (Inl err)
    then show ?thesis using never_stuck [of p] by (auto simp: operands_def)
  next
    case (Inr ep)
    obtain left p1 where l: "ep = (left, p1)" by (cases ep)
    have "p < p1" "wf_expr left" using Inr l advances builds_wf by auto
    moreover have "length ts - p1 < Suc (length ts)" by simp
    ultimately show ?thesis using chain_ok [OF assms, of left p1 "Suc (length ts)"] Inr l
      unfolding operands_def by (fastforce simp del: chain.simps)
  qed
  then show "operands word operand ts p \<noteq> Inl OutOfFuel"
    "operands word operand ts p = Inr (e, p') \<Longrightarrow> p < p'"
    "operands word operand ts p = Inr (e, p') \<Longrightarrow> wf_expr e" by blast+
qed

lemma operands_parser: "word = ''and'' \<or> word = ''or'' \<Longrightarrow> operand_parser ts (operands word operand ts)"
  by unfold_locales (rule operands_ok ended; assumption)+

lemma or_ok:
  shows "parse_or operand ts p \<noteq> Inl OutOfFuel" "parse_or operand ts p = Inr (e, p') \<Longrightarrow> p < p' \<and> wf_expr e"
proof -
  have a: "operand_parser ts (operands ''and'' operand ts)" by (rule operands_parser) simp
  show "parse_or operand ts p \<noteq> Inl OutOfFuel" unfolding parse_or_def
    by (rule operand_parser.operands_ok(1) [OF a]) simp
  show "parse_or operand ts p = Inr (e, p') \<Longrightarrow> p < p' \<and> wf_expr e" unfolding parse_or_def
    using operand_parser.operands_ok(2,3) [OF a, of "''or''"] by blast
qed

end

lemma require_Inr [result_simps]: "require ts p s what = Inr p' \<longleftrightarrow> is_tok ts p s \<and> p' = p + 1"
  by (auto simp: require_def)

lemma require_Inl [result_simps]: "require ts p s what = Inl err \<longleftrightarrow> \<not> is_tok ts p s \<and> err = expected ts p what"
  by (auto simp: require_def)

lemma duration_Some:
  "duration s = Some o' \<longleftrightarrow> (\<exists>n u. ParseInt_dec (butlast s) = Some n \<and> unit_of (last s) = Some u \<and>
     0 \<le> n \<and> n \<le> 1000000 \<and> n \<le> (2 ^ 63 - 1) div u \<and> o' = n * u)"
  by (auto simp: duration_def not_less split: option.splits)

lemma duration_bound:
  assumes "duration s = Some o'"
  shows "0 \<le> o' \<and> o' < 2 ^ 63"
proof -
  obtain n u where nu: "o' = n * u" "0 \<le> n" "n \<le> (2 ^ 63 - 1) div u" "unit_of (last s) = Some u"
    using assms unfolding duration_Some by blast
  have u: "0 < u" using nu(4) by (auto simp: unit_of_def split: if_splits)
  have "n * u \<le> (2 ^ 63 - 1) div u * u" by (rule mult_right_mono [OF nu(3)]) (use u in simp)
  also have "\<dots> \<le> 2 ^ 63 - 1" using u minus_mod_eq_div_mult [of "2 ^ 63 - 1" u] pos_mod_sign [OF u, of "2 ^ 63 - 1"] by linarith
  finally show ?thesis using nu u by simp
qed

lemma parse_value_ok:
  "parse_value ts p \<noteq> Inl OutOfFuel" "parse_value ts p = Inr (v, p') \<Longrightarrow> p < p' \<and> wf_value v"
  by (auto simp: parse_value_def parse_function_def Let_def result_simps expected_def wf_value_def
      split: if_splits option.splits dest: duration_bound)

lemma parse_list_ok:
  "parse_list k ts p \<noteq> Inl OutOfFuel"
  "parse_list k ts p = Inr (vs, p') \<Longrightarrow> p < p' \<and> list_all wf_value vs \<and> 1 \<le> length vs \<and> length vs \<le> k"
proof (induction k arbitrary: p vs p')
  case (Suc k)
  {
    case 1
    show ?case using Suc(1) parse_value_ok(1) by (auto simp: result_simps split: if_splits)
  next
    case 2
    then obtain v p1 where v: "parse_value ts p = Inr (v, p1)" by (auto simp: result_simps)
    note ok = parse_value_ok(2) [OF v]
    show ?case
    proof (cases "is_tok ts p1 '',''")
      case True
      then obtain vs' where "parse_list k ts (p1 + 1) = Inr (vs', p')" "vs = v # vs'" using 2 v by (auto simp: result_simps)
      then show ?thesis using Suc(2) [of "p1 + 1" vs' p'] ok by auto
    qed (use 2 v ok in auto)
  }
qed (auto simp: result_simps parse_value_ok)

lemma parse_operator_ok:
  "parse_operator ts p s \<noteq> Inl OutOfFuel" "parse_operator ts p s = Inr (op, p') \<Longrightarrow> p \<le> p' \<and> op \<in> set comparison_ops"
  by (auto simp: parse_operator_def result_simps comparison_ops_def take_tok_def expected_def split: if_splits)

lemma comparison_ok:
  "comparison ts p \<noteq> Inl OutOfFuel" "comparison ts p = Inr (e, p') \<Longrightarrow> p < p' \<and> wf_expr e"
proof -
  show "comparison ts p \<noteq> Inl OutOfFuel"
    using parse_operator_ok(1) parse_list_ok(1) parse_value_ok(1)
    by (auto simp: comparison_def Let_def result_simps expected_def split: if_splits)
  assume e: "comparison ts p = Inr (e, p')"
  define field where "field = canonical (tk_text (peek ts p))"
  obtain op p1 where op: "parse_operator ts (p + 2) (canonical (tk_text (peek ts (p + 1)))) = Inr (op, p1)" "field \<noteq> []"
    using e by (auto simp: comparison_def Let_def result_simps field_def split: if_splits)
  have ops: "p + 2 \<le> p1" "op \<in> set comparison_ops" using parse_operator_ok(2) [OF op(1)] by auto
  then have leaf: "op \<notin> {''and'', ''or'', ''not''}" by (auto simp: comparison_ops_def)
  show "p < p' \<and> wf_expr e"
  proof (cases "op = ''in'' \<or> op = ''not in''")
    case True
    then obtain vs p3 where "parse_list 200 ts (p1 + 1) = Inr (vs, p3)" "e = Expr op field vs None None" "p' = p3 + 1"
      using e op by (auto simp: comparison_def Let_def result_simps field_def split: if_splits)
    then show ?thesis using parse_list_ok(2) [of 200 ts "p1 + 1" vs p3] ops op(2) leaf True by auto
  next
    case False
    then obtain v p3 where "parse_value ts p1 = Inr (v, p3)" "e = Expr op field [v] None None" "p' = p3"
      using e op by (auto simp: comparison_def Let_def result_simps field_def split: if_splits)
    then show ?thesis using parse_value_ok(2) [of ts p1 v p3] ops op(2) leaf by auto
  qed
qed

lemma unary_parser: "eof_ended ts \<Longrightarrow> operand_parser ts (unary d ts)"
proof (induction d)
  case 0
  then show ?case by unfold_locales (auto simp: expected_def)
next
  case (Suc d)
  then have IH: "operand_parser ts (unary d ts)" by blast
  note un = operand_parser.never_stuck [OF IH] operand_parser.advances [OF IH] operand_parser.builds_wf [OF IH]
    operand_parser.or_ok [OF IH]
  have 1: "unary (Suc d) ts p \<noteq> Inl OutOfFuel" for p
    using un(1,4) comparison_ok(1) by (auto simp: result_simps expected_def)
  have 2: "p < p' \<and> wf_expr e" if "unary (Suc d) ts p = Inr (e, p')" for p e p'
    using that comparison_ok(2) un(2,3,5) by (auto simp: result_simps split: if_splits) (fastforce dest: un(2) un(5))+
  show ?case by unfold_locales (use 1 2 Suc.prems in blast)+
qed

text \<open>The tokens of an input end with the end marker, so the contract holds for them.\<close>

definition tokens_of :: "string \<Rightarrow> token list" where
  "tokens_of input = (case lex input of Inr ts \<Rightarrow> ts | Inl _ \<Rightarrow> [\<lparr>tk_text = [], tk_quoted = False, tk_pos = 0\<rparr>])"

lemma tokens_of_ended: "eof_ended (tokens_of input)"
  by (auto simp: tokens_of_def eof_ended_def lex_def result_simps split: sum.splits if_splits)

interpretation query_parser: operand_parser "tokens_of input" "unary d (tokens_of input)" for input d
  by (rule unary_parser [OF tokens_of_ended])

lemma parse_tokens_ok:
  assumes "ts = tokens_of input"
  shows "parse_tokens ts \<noteq> Inl OutOfFuel"
    "parse_tokens ts = Inr q \<Longrightarrow> qu_Order q \<noteq> [] \<and> (case qu_Expr q of None \<Rightarrow> True | Some e \<Rightarrow> wf_expr e)"
proof -
  note ok = query_parser.or_ok [of 64 input, folded assms]
  have order: "parse_order ts p \<noteq> Inl OutOfFuel" "parse_order ts p = Inr ((f, d), p') \<Longrightarrow> f \<noteq> []" for p f d p'
    by (auto simp: parse_order_def Let_def result_simps expected_def split: if_splits)
  show "parse_tokens ts \<noteq> Inl OutOfFuel"
    using ok(1) order(1) by (auto simp: parse_tokens_def parse_filter_def result_simps expected_def split: if_splits prod.splits)
  assume "parse_tokens ts = Inr q"
  then obtain e p f d p1 where e: "parse_filter ts = Inr (e, p)"
    and f: "parse_order ts p = Inr ((f, d), p1)" and eq: "q = \<lparr>qu_Expr = e, qu_Order = f, qu_Desc = d\<rparr>"
    by (auto simp: parse_tokens_def result_simps split: if_splits)
  have "case e of None \<Rightarrow> True | Some e \<Rightarrow> wf_expr e"
    using e ok(2) by (auto simp: parse_filter_def result_simps split: if_splits)
  then show "qu_Order q \<noteq> [] \<and> (case qu_Expr q of None \<Rightarrow> True | Some e \<Rightarrow> wf_expr e)"
    using order(2) [OF f] eq by simp
qed

subsection \<open>Properties\<close>

text \<open>
  C27.  The parser is total and builds well-formed queries: its loops end on every input, and a
  query it returns has an order field and, if it has an expression, one in which \<open>and\<close>, \<open>or\<close> and
  \<open>not\<close> have their operands and every comparison has a field, a known operator and its values
  (one, or one to 200 for a list), with finite numbers, non-empty texts and offsets that fit
  64 bits.
\<close>

theorem Parse_well_formed:
  "Parse input \<noteq> Inl OutOfFuel \<and>
   (\<forall>q. Parse input = Inr q \<longrightarrow> qu_Order q \<noteq> [] \<and> (case qu_Expr q of None \<Rightarrow> True | Some e \<Rightarrow> wf_expr e))"
proof (cases "lex input")
  case (Inl err)
  have "lex_loop n i s \<noteq> Inl OutOfFuel" for n i s
  proof (induction n i s rule: lex_loop.induct)
    case (2 n i c cs)
    have "lex_string q b j w \<noteq> Inl OutOfFuel" for q b j w
      by (induction q b j w rule: lex_string.induct) (auto simp: result_simps split: list.splits option.splits)
    then show ?case using 2 by (auto simp: Let_def result_simps)
  qed simp
  then show ?thesis using Inl by (auto simp: Parse_def lex_def result_simps split: if_splits)
next
  case (Inr ts)
  then have "ts = tokens_of input" by (simp add: tokens_of_def)
  then show ?thesis using parse_tokens_ok Inr by (auto simp: Parse_def)
qed

theorem Parse_well_formed_witness:
  "\<exists>q e. Parse ''status in (todo, doing) or not points >= 3'' = Inr q \<and> qu_Expr q = Some e \<and> wf_expr e"
proof -
  have "(case Parse ''status in (todo, doing) or not points >= 3'' of Inl _ \<Rightarrow> False | Inr q \<Rightarrow> qu_Expr q \<noteq> None)"
    by code_simp
  then obtain q e where "Parse ''status in (todo, doing) or not points >= 3'' = Inr q" "qu_Expr q = Some e"
    by (auto split: sum.splits)
  with Parse_well_formed [of "''status in (todo, doing) or not points >= 3''"] show ?thesis by auto
qed

text \<open>
  The truth of an expression on a row, in the three-valued logic of SQL.  A missing operand is
  \<open>TRUE\<close>; \<open>cmp\<close> is the truth of a comparison.
\<close>

definition and3 :: "bool option \<Rightarrow> bool option \<Rightarrow> bool option" where
  "and3 a b = (if a = Some False \<or> b = Some False then Some False else if a = None \<or> b = None then None else Some True)"

definition or3 :: "bool option \<Rightarrow> bool option \<Rightarrow> bool option" where
  "or3 a b = (if a = Some True \<or> b = Some True then Some True else if a = None \<or> b = None then None else Some False)"

lemma text_literal: "(case l of LString s \<Rightarrow> True | _ \<Rightarrow> False) \<longleftrightarrow> (\<exists>s. l = LString s)"
  by (cases l) simp_all

lemma and3_True: "and3 a b = Some True \<longleftrightarrow> a = Some True \<and> b = Some True"
  by (cases a; cases b) (auto simp: and3_def)

lemma or3_True: "or3 a b = Some True \<longleftrightarrow> a = Some True \<or> b = Some True"
  by (auto simp: or3_def)

fun holds :: "(Expr \<Rightarrow> bool option) \<Rightarrow> Expr \<Rightarrow> bool option" where
  "holds cmp (Expr op field vals l r) =
     (let a = (case l of None \<Rightarrow> Some True | Some x \<Rightarrow> holds cmp x);
          b = (case r of None \<Rightarrow> Some True | Some x \<Rightarrow> holds cmp x) in
      if op = ''and'' then and3 a b
      else if op = ''or'' then or3 a b
      else if op = ''not'' then map_option Not a
      else cmp (Expr op field vals l r))"

text \<open>
  C28.  \<open>ProjectKeys\<close> is a safe narrowing: if the expression is true for a row whose project has
  the given key, then either the result is empty, which means no narrowing, or it contains that
  key.  Of the database it uses that \<open>=\<close> and \<open>IN\<close> are true only for an equal text.
\<close>

theorem ProjectKeys_safe:
  assumes "qu_Expr q = Some e" "wf_expr e" "holds cmp e = Some True"
    and eq_law: "\<And>s v. va_Literal v = LString s \<Longrightarrow> cmp (Expr ''='' ''project'' [v] None None) = Some True \<Longrightarrow> key = s"
    and in_law: "\<And>vs. cmp (Expr ''in'' ''project'' vs None None) = Some True \<Longrightarrow> list_all (\<lambda>v. \<exists>s. va_Literal v = LString s) vs \<Longrightarrow>
      \<exists>v \<in> set vs. va_Literal v = LString key"
  shows "ProjectKeys q = [] \<or> key \<in> set (ProjectKeys q)"
proof -
  have "projectKeys (Some e) = [] \<or> key \<in> set (projectKeys (Some e))"
    using assms(2,3)
  proof (induction e)
    case (Expr op field vals l r)
    consider (bin) a b where "op = ''and'' \<or> op = ''or''" "l = Some a" "r = Some b" | (neg) "op = ''not''"
      | (cmp) "op \<noteq> ''and''" "op \<noteq> ''or''" "op \<noteq> ''not''" "l = None" "r = None"
      using Expr.prems(1) by (auto split: if_splits option.splits)
    then show ?case
    proof cases
      case bin
      then have "wf_expr a" "wf_expr b" using Expr.prems(1) by auto
      then have IH: "holds cmp a = Some True \<Longrightarrow> projectKeys (Some a) = [] \<or> key \<in> set (projectKeys (Some a))"
        "holds cmp b = Some True \<Longrightarrow> projectKeys (Some b) = [] \<or> key \<in> set (projectKeys (Some b))"
        using Expr.IH(1) [of a] Expr.IH(2) [of b] bin(2,3) by auto
      show ?thesis
      proof (cases "op = ''and''")
        case True
        then have "holds cmp a = Some True" "holds cmp b = Some True"
          using Expr.prems(2) bin by (auto simp: and3_True Let_def)
        then show ?thesis using IH True bin by (auto simp: Let_def)
      next
        case False
        then have "op = ''or''" "holds cmp a = Some True \<or> holds cmp b = Some True"
          using Expr.prems(2) bin by (auto simp: or3_True Let_def)
        then show ?thesis using IH bin by (auto simp: Let_def)
      qed
    next
      case neg
      then show ?thesis using Expr.prems(1) by auto
    next
      case cmp
      then have c: "cmp (Expr op field vals None None) = Some True" using Expr.prems(2) by (auto simp: Let_def)
      show ?thesis
      proof (cases "field = ''project'' \<and> (op = ''='' \<or> op = ''in'') \<and>
          list_all (\<lambda>v. case va_Literal v of LString s \<Rightarrow> True | _ \<Rightarrow> False) vals")
        case True
        have strs: "list_all (\<lambda>v. \<exists>s. va_Literal v = LString s) vals"
          using True unfolding text_literal by blast
        have "\<exists>v \<in> set vals. va_Literal v = LString key"
        proof (cases "op = ''in''")
          case True
          then show ?thesis using in_law [OF _ strs] c \<open>field = ''project'' \<and> _\<close> by auto
        next
          case False
          then have "length vals = 1" using Expr.prems(1) cmp True by auto
          then obtain v s where "vals = [v]" "va_Literal v = LString s" using strs by (cases vals) auto
          then show ?thesis using eq_law [of v s] c True False by auto
        qed
        then have "key \<in> set (map (\<lambda>v. case va_Literal v of LString s \<Rightarrow> s | _ \<Rightarrow> []) vals)"
          by (force simp: image_iff)
        then show ?thesis using True cmp by auto
      next
        case False
        then show ?thesis using cmp by auto
      qed
    qed
  qed
  then show ?thesis using assms(1) by (simp add: ProjectKeys_def)
qed

definition demo_cmp :: "Expr \<Rightarrow> bool option" where
  "demo_cmp e = (if ex_Field e = ''project'' then Some (list_ex (\<lambda>v. va_Literal v = LString ''SRX'') (ex_Values e)) else None)"

theorem ProjectKeys_safe_witness:
  "''SRX'' \<in> set (ProjectKeys \<lparr>qu_Expr = Some (Expr ''='' ''project'' [lit (LString ''SRX'')] None None), qu_Order = ''id'', qu_Desc = False\<rparr>)"
proof -
  let ?e = "Expr ''='' ''project'' [lit (LString ''SRX'')] None None"
  have "holds demo_cmp ?e = Some True" by (simp add: demo_cmp_def)
  moreover have "wf_expr ?e" by (simp add: wf_value_def comparison_ops_def)
  ultimately have "ProjectKeys \<lparr>qu_Expr = Some ?e, qu_Order = ''id'', qu_Desc = False\<rparr> = [] \<or>
      ''SRX'' \<in> set (ProjectKeys \<lparr>qu_Expr = Some ?e, qu_Order = ''id'', qu_Desc = False\<rparr>)"
    by (intro ProjectKeys_safe [of _ ?e demo_cmp]) (auto simp: demo_cmp_def list_ex_iff)
  then show ?thesis by (simp add: ProjectKeys_def)
qed

text \<open>
   An empty quoted text ends the query: the parser takes a token without text for the end of
  the input, so whatever follows \<open>''\<close> is ignored instead of rejected, and a query that is only
  \<open>''\<close> selects everything.
\<close>

theorem Parse_empty_text:
  "Parse (''status = open '' @ [CHR 0x27, CHR 0x27] @ '' order garbage ('') = Parse ''status = open'' \<and>
   Parse ([CHR 0x27, CHR 0x27] @ '' order by nothing ('') = Parse [] \<and> \<not> isl (Parse [])"
  by code_simp

end
