(* ===== verification/Sx_Compile.thy ===== *)
theory Sx_Compile
  imports Sx_Parser
begin

text \<open>
  The compiler of the query language: \<open>src/internal/sxq/compile.go\<close>.  The compiler's argument
  list is threaded through every function.  Two things are arguments of the model: whether
  \<open>uuid.Parse\<close> accepts a text, and the clock that stands in for a missing \<open>Now\<close>.
\<close>

subsection \<open>Dates and times\<close>

text \<open>
  An instant is a number of nanoseconds since 1970-01-01 UTC; \<open>civil\<close> is the proleptic
  Gregorian date of a day, as \<open>time.Time\<close> reckons it.
\<close>

definition civil :: "int \<Rightarrow> int \<times> int \<times> int" where
  "civil days =
     (let z = days + 719468;
          era = z div 146097;
          doe = z mod 146097;
          yoe = (doe - doe div 1460 + doe div 36524 - doe div 146096) div 365;
          doy = doe - (365 * yoe + yoe div 4 - yoe div 100);
          mp = (5 * doy + 2) div 153;
          d = doy - (153 * mp + 2) div 5 + 1;
          m = (if mp < 10 then mp + 3 else mp - 9) in
      (yoe + era * 400 + (if m \<le> 2 then 1 else 0), m, d))"

definition fmt_year :: "int \<Rightarrow> string" where
  "fmt_year y = (if y < 0 then ''-'' else []) @ (if \<bar>y\<bar> < 10000 then pad_digits 4 (nat \<bar>y\<bar>) else utoa (nat \<bar>y\<bar>))"

definition format_DateOnly :: "int \<Rightarrow> string" where
  "format_DateOnly t =
     (case civil (t div (86400 * 1000000000)) of (y, m, d) \<Rightarrow>
      fmt_year y @ ''-'' @ pad_digits 2 (nat m) @ ''-'' @ pad_digits 2 (nat d))"

definition format_fraction :: "nat \<Rightarrow> string" where
  "format_fraction ns = (if ns = 0 then [] else ''.'' @ rev (dropWhile (\<lambda>c. c = CHR ''0'') (rev (pad_digits 9 ns))))"

definition format_RFC3339Nano :: "int \<Rightarrow> string" where
  "format_RFC3339Nano t =
     (let s = (t div 1000000000) mod 86400 in
      format_DateOnly t @ ''T'' @ pad_digits 2 (nat (s div 3600)) @ '':'' @ pad_digits 2 (nat (s div 60 mod 60)) @
      '':'' @ pad_digits 2 (nat (s mod 60)) @ format_fraction (nat (t mod 1000000000)) @ ''Z'')"

text \<open>
  \<open>time.Parse(time.RFC3339Nano, s)\<close> accepting: a date, the letter T, an hour of one or two
  digits, minutes, seconds, an optional fraction after a point or comma, and Z or an offset.
\<close>

definition two_digits :: "string \<Rightarrow> nat option" where
  "two_digits s = (if 2 \<le> length s then atoi_digits (take 2 s) else None)"

definition number_at_most :: "nat \<Rightarrow> nat option \<Rightarrow> bool" where
  "number_at_most k n = (case n of None \<Rightarrow> False | Some v \<Rightarrow> v \<le> k)"

definition zone_ok :: "string \<Rightarrow> bool" where
  "zone_ok s = (s = ''Z'' \<or>
     length s = 6 \<and> (s ! 0 = CHR ''+'' \<or> s ! 0 = CHR ''-'') \<and> s ! 3 = CHR '':'' \<and>
     number_at_most 24 (two_digits (drop 1 s)) \<and> number_at_most 60 (two_digits (drop 4 s)))"

definition skip_fraction :: "string \<Rightarrow> string" where
  "skip_fraction s =
     (if 2 \<le> length s \<and> s ! 0 \<in> {CHR ''.'', CHR '',''} \<and> is_digit (s ! 1) then dropWhile is_digit (tl s) else s)"

definition clock_ok :: "string \<Rightarrow> bool" where
  "clock_ok s =
     (6 \<le> length s \<and> s ! 0 = CHR '':'' \<and> s ! 3 = CHR '':'' \<and>
      number_at_most 59 (two_digits (drop 1 s)) \<and> number_at_most 59 (two_digits (drop 4 s)) \<and>
      zone_ok (skip_fraction (drop 6 s)))"

definition parses_RFC3339Nano :: "string \<Rightarrow> bool" where
  "parses_RFC3339Nano s =
     (13 \<le> length s \<and> parse_DateOnly (take 10 s) \<noteq> None \<and> s ! 10 = CHR ''T'' \<and> is_digit (s ! 11) \<and>
      (if is_digit (s ! 12) then number_at_most 23 (two_digits (drop 11 s)) \<and> clock_ok (drop 13 s)
       else clock_ok (drop 12 s)))"

subsection \<open>Fields\<close>

record Field =
  fd_SQL :: string
  fd_Kind :: string

definition Fields :: "(string \<times> string \<times> string) list" where
  "Fields =
    [(''id'', ''i.id'', ''uuid''), (''key'', ''i.key'', ''text''), (''title'', ''i.title'', ''text''),
     (''body'', ''i.body'', ''text''), (''rank'', ''i.rank'', ''text''),
     (''project'', ''p.key_prefix'', ''text''), (''type'', ''t.key'', ''text''), (''type.level'', ''t.level'', ''number''),
     (''status'', ''s.key'', ''text''), (''status.category'', ''s.category'', ''text''),
     (''assignee'', ''i.assignee_id'', ''uuid''), (''parent'', ''par.key'', ''text''),
     (''points'', ''i.points'', ''number''), (''version'', ''i.version'', ''number''),
     (''change_seq'', ''i.change_seq'', ''number''), (''config_version'', ''i.config_version'', ''number''),
     (''start_date'', ''i.start_date'', ''date''), (''due_date'', ''i.due_date'', ''date''),
     (''created_at'', ''i.created_at'', ''timestamp''), (''updated_at'', ''i.updated_at'', ''timestamp''),
     (''deleted_at'', ''i.deleted_at'', ''timestamp''),
     (''rollup.descendant_count'', ''r.descendant_count'', ''number''), (''rollup.done_count'', ''r.done_count'', ''number''),
     (''rollup.points_total'', ''r.points_total'', ''number''), (''rollup.points_done'', ''r.points_done'', ''number''),
     (''rollup.earliest_start'', ''r.earliest_start'', ''date''), (''rollup.latest_due'', ''r.latest_due'', ''date''),
     (''text'', ''i.search_tsv'', ''search'')]"

record CustomField =
  cf_ProjectID :: string
  cf_Kind :: string

type_synonym custom_fields = "(string \<times> CustomField list) list"

record Options =
  op_UserID :: string
  op_Now :: "int option"
  op_Start :: int
  op_Custom :: custom_fields

datatype arg = AText string | ABool bool

record Plan =
  pl_Where :: string
  pl_OrderExpr :: string
  pl_OrderKind :: string
  pl_Desc :: bool
  pl_Args :: "arg list"

subsection \<open>Suggestions\<close>

text \<open>One row of the table of \<open>distance\<close>: \<open>left\<close> is \<open>next[j-1]\<close>, the list starts with \<open>prev[j-1]\<close>.\<close>

fun distance_row :: "char \<Rightarrow> nat \<Rightarrow> nat list \<Rightarrow> string \<Rightarrow> nat list" where
  "distance_row a left (p # q # prev) (b # bs) =
     (let v = min (left + 1) (min (q + 1) (p + (if a = b then 0 else 1))) in v # distance_row a v (q # prev) bs)"
| "distance_row a left prev bs = []"

fun distance_rows :: "nat \<Rightarrow> nat list \<Rightarrow> string \<Rightarrow> string \<Rightarrow> nat list" where
  "distance_rows i prev [] b = prev"
| "distance_rows i prev (a # as) b = distance_rows (i + 1) (i # distance_row a i prev b) as b"

definition distance :: "string \<Rightarrow> string \<Rightarrow> nat" where
  "distance a b = last (distance_rows 1 [0..<length b + 1] a b)"

definition FieldNames :: "custom_fields \<Rightarrow> string list" where
  "FieldNames custom = sort (map fst Fields @ map (\<lambda>(k, _). ''fields.'' @ k) custom)"

fun nearest_loop :: "string \<Rightarrow> string \<Rightarrow> nat \<Rightarrow> string list \<Rightarrow> string" where
  "nearest_loop input best score [] = best"
| "nearest_loop input best score (name # names) =
     (let d = distance input name in
      if d < score then nearest_loop input name d names else nearest_loop input best score names)"

definition nearest :: "string \<Rightarrow> custom_fields \<Rightarrow> string" where
  "nearest input custom = nearest_loop input ''key'' 10000 (FieldNames custom)"

subsection \<open>Parameters and fields\<close>

definition param :: "Options \<Rightarrow> arg list \<Rightarrow> arg \<Rightarrow> string \<times> arg list" where
  "param opts args v = (''$'' @ itoa (op_Start opts + int (length args)), args @ [v])"

definition custom_cast :: "string \<Rightarrow> (string \<times> string) option" where
  "custom_cast kind = map_of [(''text'', ''text'', ''text''), (''number'', ''numeric'', ''number''),
     (''bool'', ''boolean'', ''bool''), (''date'', ''date'', ''date''), (''url'', ''text'', ''text''),
     (''user'', ''uuid'', ''uuid''), (''select'', ''text'', ''text''), (''multiselect'', ''jsonb'', ''array'')] kind"

definition comma_join :: "string list \<Rightarrow> string" where
  "comma_join ps = concat (case ps of [] \<Rightarrow> [] | q # qs \<Rightarrow> q # map (\<lambda>s. CHR '','' # s) qs)"

fun uuid_params :: "Options \<Rightarrow> arg list \<Rightarrow> string list \<Rightarrow> string list \<times> arg list" where
  "uuid_params opts args [] = ([], args)"
| "uuid_params opts args (x # xs) =
     (case param opts args (AText x) of (t, args1) \<Rightarrow>
      case uuid_params opts args1 xs of (ts, args2) \<Rightarrow> ((t @ ''::uuid'') # ts, args2))"

definition custom_field :: "Options \<Rightarrow> arg list \<Rightarrow> string \<Rightarrow> CustomField list \<Rightarrow> sxq_error + Field \<times> arg list" where
  "custom_field opts args key defs =
     (let kind = cf_Kind (hd defs) in
      if list_ex (\<lambda>d. cf_Kind d \<noteq> kind) defs then Inl (MixedCustomTypes key)
      else
        case uuid_params opts args (sort (map cf_ProjectID defs)) of (params, args1) \<Rightarrow>
        case param opts args1 (AText key) of (k, args2) \<Rightarrow>
        case custom_cast kind of
          None \<Rightarrow> Inl UnsupportedFieldType
        | Some (cast, typ) \<Rightarrow>
            (let extract = (if kind = ''multiselect'' then ''(i.fields -> '' @ k @ ''::text)''
                            else ''(i.fields ->> '' @ k @ ''::text)::'' @ cast) in
             Inr (\<lparr>fd_SQL = ''CASE WHEN i.project_id IN ('' @ comma_join params @ '') THEN '' @ extract @ '' ELSE NULL END'',
                   fd_Kind = typ\<rparr>, args2)))"

definition compile_field :: "Options \<Rightarrow> arg list \<Rightarrow> string \<Rightarrow> sxq_error + Field \<times> arg list" where
  "compile_field opts args name =
     (case map_of Fields name of
        Some (sqlx, kind) \<Rightarrow> Inr (\<lparr>fd_SQL = sqlx, fd_Kind = kind\<rparr>, args)
      | None \<Rightarrow>
          let key = drop 7 name;
              defs = (case map_of (op_Custom opts) key of None \<Rightarrow> [] | Some ds \<Rightarrow> ds) in
          if take 7 name = ''fields.'' \<and> defs \<noteq> [] then custom_field opts args key defs
          else Inl (UnknownField name (nearest name (op_Custom opts))))"

subsection \<open>Values\<close>

definition text_value :: "string \<Rightarrow> literal \<Rightarrow> (string \<Rightarrow> bool) \<Rightarrow> sxq_error + arg" where
  "text_value kind l ok =
     (case l of LString t \<Rightarrow> if ok t then Inr (AText t) else Inl (ExpectedKind kind) | _ \<Rightarrow> Inl (ExpectedKind kind))"

definition compile_value :: "(string \<Rightarrow> bool) \<Rightarrow> int \<Rightarrow> Options \<Rightarrow> Value \<Rightarrow> string \<Rightarrow> sxq_error + arg" where
  "compile_value uuid_ok now opts v kind =
     (if va_Function v = ''me'' then
        (if kind \<noteq> ''uuid'' then Inl MeNeedsUserField
         else if \<not> uuid_ok (op_UserID opts) then Inl MeNeedsUser
         else Inr (AText (op_UserID opts)))
      else if va_Function v = ''now'' then
        (if kind \<noteq> ''date'' \<and> kind \<noteq> ''timestamp'' then Inl NowNeedsDate
         else if kind = ''date'' then Inr (AText (format_DateOnly (now + va_Offset v)))
         else Inr (AText (format_RFC3339Nano (now + va_Offset v))))
      else if kind = ''number'' then
        (case va_Literal v of LNumber n \<Rightarrow> Inr (AText n) | _ \<Rightarrow> Inl (ExpectedKind kind))
      else if kind = ''bool'' then
        (case va_Literal v of LBool b \<Rightarrow> Inr (ABool b) | _ \<Rightarrow> Inl (ExpectedKind kind))
      else if kind = ''uuid'' then text_value kind (va_Literal v) uuid_ok
      else if kind = ''text'' then text_value kind (va_Literal v) (\<lambda>_. True)
      else if kind = ''date'' then text_value kind (va_Literal v) (\<lambda>t. parse_DateOnly t \<noteq> None)
      else if kind = ''timestamp'' then text_value kind (va_Literal v) parses_RFC3339Nano
      else Inl (ExpectedKind kind))"

definition param_cast :: "string \<Rightarrow> string" where
  "param_cast kind =
     (if kind = ''number'' then ''::text::numeric'' else if kind = ''date'' then ''::text::date''
      else if kind = ''timestamp'' then ''::text::timestamptz'' else if kind = ''uuid'' then ''::text::uuid'' else [])"

fun compile_values ::
  "(string \<Rightarrow> bool) \<Rightarrow> int \<Rightarrow> Options \<Rightarrow> string \<Rightarrow> string \<Rightarrow> arg list \<Rightarrow> Value list \<Rightarrow> sxq_error + string list \<times> arg list" where
  "compile_values uuid_ok now opts field kind args [] = Inr ([], args)"
| "compile_values uuid_ok now opts field kind args (v # vs) =
     (case compile_value uuid_ok now opts v kind of
        Inl err \<Rightarrow> Inl (InField field err)
      | Inr a \<Rightarrow>
          case param opts args a of (t, args1) \<Rightarrow>
          rbind (compile_values uuid_ok now opts field kind args1 vs) (\<lambda>(ts, args2). Inr ((t @ param_cast kind) # ts, args2)))"

subsection \<open>Expressions\<close>

definition sql_op :: "string \<Rightarrow> string option" where
  "sql_op op = map_of [(''='', ''=''), (''!='', ''<>''), (''>'', ''>''), (''>='', ''>=''), (''<'', ''<''), (''<='', ''<=''),
     (''in'', ''IN''), (''not in'', ''NOT IN'')] op"

definition compile_match :: "Options \<Rightarrow> arg list \<Rightarrow> Field \<Rightarrow> string \<Rightarrow> Value \<Rightarrow> sxq_error + string \<times> arg list" where
  "compile_match opts args field name v =
     (if name \<noteq> ''text'' \<and> name \<noteq> ''title'' \<and> name \<noteq> ''body'' then Inl TextNeedsField
      else case va_Literal v of
          LString value \<Rightarrow>
            (let sqlx = (if name \<noteq> ''text'' then ''to_tsvector('' @ [CHR 0x27] @ ''english'' @ [CHR 0x27] @ '',coalesce('' @ fd_SQL field @
                                  '','' @ [CHR 0x27, CHR 0x27] @ ''))'' else fd_SQL field) in
             case param opts args (AText value) of (t, args1) \<Rightarrow>
             Inr (''('' @ sqlx @ '' @@ plainto_tsquery('' @ [CHR 0x27] @ ''english'' @ [CHR 0x27] @ '','' @ t @ ''))'', args1))
        | _ \<Rightarrow> Inl TextNeedsString)"

definition is_null :: "Value \<Rightarrow> bool" where
  "is_null v = (va_Literal v = LNil \<and> va_Function v = [])"

text \<open>A comparison once its field is known.\<close>

definition compile_test ::
  "(string \<Rightarrow> bool) \<Rightarrow> int \<Rightarrow> Options \<Rightarrow> arg list \<Rightarrow> Field \<Rightarrow> string \<Rightarrow> string \<Rightarrow> Value list \<Rightarrow> sxq_error + string \<times> arg list" where
  "compile_test uuid_ok now opts args field op name vals =
    (if vals = [] then Inl NeedsValue
     else if op = ''~'' \<or> op = '':'' then compile_match opts args field name (hd vals)
     else if fd_Kind field = ''search'' then Inl TextNeedsMatch
     else let isnull = is_null (hd vals) in
       if op = ''is'' \<or> op = ''is not'' \<or> (op = ''='' \<or> op = ''!='') \<and> isnull then
         (if \<not> isnull then Inl IsNeedsNull
          else if op = ''is not'' \<or> op = ''!='' then Inr (''('' @ fd_SQL field @ '' IS NOT NULL)'', args)
          else Inr (''('' @ fd_SQL field @ '' IS NULL)'', args))
       else if isnull then Inl NullNeedsIs
       else if fd_Kind field = ''array'' then Inl ArrayComparison
       else case sql_op op of
           None \<Rightarrow> Inl UnsupportedOperator
         | Some o' \<Rightarrow>
             rbind (compile_values uuid_ok now opts name (fd_Kind field) args vals) (\<lambda>(params, args1).
             if o' = ''IN'' \<or> o' = ''NOT IN''
             then Inr (''('' @ fd_SQL field @ '' '' @ o' @ '' ('' @ comma_join params @ ''))'', args1)
             else Inr (''('' @ fd_SQL field @ '' '' @ o' @ '' '' @ hd params @ '')'', args1)))"

definition compile_comparison ::
  "(string \<Rightarrow> bool) \<Rightarrow> int \<Rightarrow> Options \<Rightarrow> arg list \<Rightarrow> string \<Rightarrow> string \<Rightarrow> Value list \<Rightarrow> sxq_error + string \<times> arg list" where
  "compile_comparison uuid_ok now opts args op name vals =
     rbind (compile_field opts args name) (\<lambda>(field, args1). compile_test uuid_ok now opts args1 field op name vals)"

fun compile_expr ::
  "(string \<Rightarrow> bool) \<Rightarrow> int \<Rightarrow> Options \<Rightarrow> arg list \<Rightarrow> Expr \<Rightarrow> sxq_error + string \<times> arg list" where
  "compile_expr uuid_ok now opts args (Expr op field vals l r) =
     (if op = ''and'' \<or> op = ''or'' then
        rbind (case l of None \<Rightarrow> Inr (''TRUE'', args) | Some x \<Rightarrow> compile_expr uuid_ok now opts args x) (\<lambda>(a, args1).
        rbind (case r of None \<Rightarrow> Inr (''TRUE'', args1) | Some x \<Rightarrow> compile_expr uuid_ok now opts args1 x) (\<lambda>(b, args2).
        Inr (''('' @ a @ (if op = ''and'' then '' AND '' else '' OR '') @ b @ '')'', args2)))
      else if op = ''not'' then
        rbind (case l of None \<Rightarrow> Inr (''TRUE'', args) | Some x \<Rightarrow> compile_expr uuid_ok now opts args x) (\<lambda>(a, args1).
        Inr (''(NOT '' @ a @ '')'', args1))
      else compile_comparison uuid_ok now opts args op field vals)"

definition Compile :: "(string \<Rightarrow> bool) \<Rightarrow> int \<Rightarrow> Query \<Rightarrow> Options \<Rightarrow> sxq_error + Plan" where
  "Compile uuid_ok clock q options =
     (let opts = (if op_Start options < 1 then options\<lparr>op_Start := 1\<rparr> else options);
          now = (case op_Now options of None \<Rightarrow> clock | Some t \<Rightarrow> t) in
      rbind (case qu_Expr q of None \<Rightarrow> Inr (''TRUE'', []) | Some e \<Rightarrow> compile_expr uuid_ok now opts [] e) (\<lambda>(where', args).
      rbind (compile_field opts args (qu_Order q)) (\<lambda>(order, args1).
      if fd_Kind order = ''search'' \<or> fd_Kind order = ''array'' then Inl (CannotOrderBy (qu_Order q))
      else Inr \<lparr>pl_Where = where', pl_OrderExpr = fd_SQL order, pl_OrderKind = fd_Kind order,
                pl_Desc = qu_Desc q, pl_Args = args1\<rparr>)))"

subsection \<open>Completion\<close>

definition completions :: "string list" where
  "completions = [''and'', ''or'', ''not'', ''in'', ''is null'', ''is not null'', ''order by'', ''asc'', ''desc'', ''me()'', ''now()'']"

definition Complete :: "string \<Rightarrow> custom_fields \<Rightarrow> sxq_error + string list" where
  "Complete partial custom =
     (if length partial > 4096 then Inl PartialTooLong
      else rbind (lex partial) (\<lambda>ts.
        let pre = (if length ts > 1 \<and> \<not> (partial \<noteq> [] \<and> last partial = CHR '' '') then canonical (tk_text (ts ! (length ts - 2))) else []) in
        Inr (sort (filter (\<lambda>c. prefix pre c) (FieldNames custom @ completions)))))"

end
