(* ===== verification/Sx_Roundtrip.thy ===== *)
theory Sx_Roundtrip
  imports Sx_Parser
begin

text \<open>
  A printer for queries and the proof that the parser inverts it on every query the parser can
  return: parsing, printing and parsing again gives the same query.  The printer writes the
  fewest parentheses that the grammar allows, so its output fits the parser's nesting limit
  whenever the parsed text did.
\<close>

subsection \<open>Printing\<close>

text \<open>A token without its position: its text and whether it is quoted.\<close>

type_synonym btok = "string \<times> bool"

abbreviation word :: "string \<Rightarrow> btok" where
  "word w \<equiv> (w, False)"

text \<open>A duration in the largest unit that measures it.\<close>

definition duration_unit :: "int \<Rightarrow> int \<times> char" where
  "duration_unit n =
     (if n mod (7 * 24 * 3600000000000) = 0 then (7 * 24 * 3600000000000, CHR ''w'')
      else if n mod (24 * 3600000000000) = 0 then (24 * 3600000000000, CHR ''d'')
      else if n mod 3600000000000 = 0 then (3600000000000, CHR ''h'')
      else (60000000000, CHR ''m''))"

definition print_duration :: "int \<Rightarrow> string" where
  "print_duration n = (case duration_unit n of (u, c) \<Rightarrow> itoa (n div u) @ [c])"

definition print_value :: "Value \<Rightarrow> btok list" where
  "print_value v =
     (if va_Function v \<noteq> [] then
        [word (va_Function v), word ''('', word '')''] @
        (if va_Offset v = 0 then []
         else [word (if va_Offset v < 0 then ''-'' else ''+''), word (print_duration \<bar>va_Offset v\<bar>)])
      else case va_Literal v of
          LNil \<Rightarrow> [word ''null'']
        | LBool b \<Rightarrow> [word (if b then ''true'' else ''false'')]
        | LString s \<Rightarrow> [(s, True)]
        | LNumber n \<Rightarrow> if n \<noteq> [] \<and> hd n = CHR ''-'' then [word ''-'', (tl n, True)] else [word n])"

fun print_list :: "Value list \<Rightarrow> btok list" where
  "print_list [] = []"
| "print_list [v] = print_value v"
| "print_list (v # vs) = print_value v @ word '','' # print_list vs"

definition print_op :: "string \<Rightarrow> btok list" where
  "print_op op = (if op = ''not in'' then [word ''not'', word ''in''] else if op = ''is not'' then [word ''is'', word ''not''] else [word op])"

definition print_cmp :: "string \<Rightarrow> string \<Rightarrow> Value list \<Rightarrow> btok list" where
  "print_cmp op field vals = word field # print_op op @
     (if op = ''in'' \<or> op = ''not in'' then word ''('' # print_list vals @ [word '')''] else print_value (hd vals))"

text \<open>
  The level says what the context accepts: 0 an \<open>or\<close>, 1 an \<open>and\<close>, 2 only an operand of \<open>and\<close>.
  The flag marks the first word of a query, which must not be \<open>order\<close>.
\<close>

fun print_expr :: "bool \<Rightarrow> nat \<Rightarrow> Expr \<Rightarrow> btok list" where
  "print_expr b lvl (Expr op field vals l r) =
     (if op = ''or'' then
        (let inner = (\<lambda>c. (case l of None \<Rightarrow> [] | Some x \<Rightarrow> print_expr c 0 x) @ word ''or'' #
                          (case r of None \<Rightarrow> [] | Some x \<Rightarrow> print_expr False 1 x)) in
         if lvl = 0 then inner b else word ''('' # inner False @ [word '')''])
      else if op = ''and'' then
        (let inner = (\<lambda>c. (case l of None \<Rightarrow> [] | Some x \<Rightarrow> print_expr c 1 x) @ word ''and'' #
                          (case r of None \<Rightarrow> [] | Some x \<Rightarrow> print_expr False 2 x)) in
         if lvl \<le> 1 then inner b else word ''('' # inner False @ [word '')''])
      else if op = ''not'' then word ''not'' # (case l of None \<Rightarrow> [] | Some x \<Rightarrow> print_expr False 2 x)
      else if b \<and> field = ''order'' then word ''('' # print_cmp op field vals @ [word '')'']
      else print_cmp op field vals)"

definition print_query :: "Query \<Rightarrow> btok list" where
  "print_query q =
     (case qu_Expr q of None \<Rightarrow> [] | Some e \<Rightarrow> print_expr True 0 e) @
     [word ''order'', word ''by'', word (qu_Order q)] @ (if qu_Desc q then [word ''desc''] else [])"

definition print_token :: "btok \<Rightarrow> token" where
  "print_token t = \<lparr>tk_text = fst t, tk_quoted = snd t, tk_pos = 0\<rparr>"

definition Print :: "Query \<Rightarrow> string" where
  "Print q = show_tokens (map print_token (print_query q))"

subsection \<open>What the parser returns can be printed\<close>

definition bare_ok :: "string \<Rightarrow> bool" where
  "bare_ok w = ((w \<in> set operators \<or> word_text w) \<and> canonical w = w)"

definition print_ok :: "Value \<Rightarrow> bool" where
  "print_ok v =
     (if va_Function v \<noteq> [] then
        va_Literal v = LNil \<and> va_Function v \<in> {''me'', ''now''} \<and> (va_Function v = ''me'' \<longrightarrow> va_Offset v = 0) \<and>
        (\<exists>s. duration s = Some \<bar>va_Offset v\<bar>)
      else va_Offset v = 0 \<and>
        (case va_Literal v of
           LString s \<Rightarrow> s \<noteq> [] \<and> ValidString s
         | LNumber n \<Rightarrow> ParseFloat_ok n \<and>
             (if n \<noteq> [] \<and> hd n = CHR ''-'' then ValidString (tl n)
              else word_text n \<and> canonical n \<notin> {''startofsprint'', ''endofsprint'', ''me'', ''now'', ''null'', ''true'', ''false''})
         | _ \<Rightarrow> True))"

definition cmp_ok :: "string \<Rightarrow> string \<Rightarrow> Value list \<Rightarrow> bool" where
  "cmp_ok op field vals =
     (op \<in> set comparison_ops \<and> bare_ok field \<and> field \<notin> {''not'', ''('', ''descendants'', ''ancestors''} \<and>
      list_all print_ok vals \<and> vals \<noteq> [] \<and> length vals \<le> (if op = ''in'' \<or> op = ''not in'' then 200 else 1))"

abbreviation Or :: "Expr \<Rightarrow> Expr \<Rightarrow> Expr" where
  "Or l r \<equiv> Expr ''or'' [] [] (Some l) (Some r)"

abbreviation And :: "Expr \<Rightarrow> Expr \<Rightarrow> Expr" where
  "And l r \<equiv> Expr ''and'' [] [] (Some l) (Some r)"

abbreviation Neg :: "Expr \<Rightarrow> Expr" where
  "Neg l \<equiv> Expr ''not'' [] [] (Some l) None"

abbreviation Cmp :: "string \<Rightarrow> string \<Rightarrow> Value list \<Rightarrow> Expr" where
  "Cmp op field vals \<equiv> Expr op field vals None None"

text \<open>\<open>fits d lvl e\<close>: the text of \<open>e\<close> in a context of that level needs at most \<open>d\<close> nested operands.\<close>

inductive fits :: "nat \<Rightarrow> nat \<Rightarrow> Expr \<Rightarrow> bool" where
  disj: "fits d 0 l \<Longrightarrow> fits d 1 r \<Longrightarrow> fits d 0 (Or l r)"
| conj: "fits d 1 l \<Longrightarrow> fits d 2 r \<Longrightarrow> lvl \<le> 1 \<Longrightarrow> fits d lvl (And l r)"
| or_paren: "fits d 0 (Or l r) \<Longrightarrow> 0 < lvl \<Longrightarrow> fits (Suc d) lvl (Or l r)"
| and_paren: "fits d 0 (And l r) \<Longrightarrow> 1 < lvl \<Longrightarrow> fits (Suc d) lvl (And l r)"
| neg: "fits d 2 l \<Longrightarrow> fits (Suc d) lvl (Neg l)"
| cmp: "cmp_ok op field vals \<Longrightarrow> fits (Suc d) lvl (Cmp op field vals)"

lemma fits_Suc: "fits d lvl e \<Longrightarrow> fits (Suc d) lvl e"
  by (induction rule: fits.induct) (auto intro: fits.intros)

lemma fits_paren: "fits d 0 e \<Longrightarrow> fits (Suc d) lvl e"
proof (induction d "0 :: nat" e rule: fits.induct)
  case (disj d l r)
  then show ?case using fits.disj [of d l r] fits_Suc fits.or_paren [of d l r lvl] by (cases "lvl = 0") auto
next
  case (conj d l r)
  then show ?case using fits.conj [of d l r] fits_Suc fits.and_paren [of d l r lvl] by (cases "lvl \<le> 1") auto
next
  case (neg d l)
  then show ?case using fits_Suc fits.neg by blast
qed (auto intro: fits.cmp)

lemma print_Or:
  "print_expr b 0 (Or l r) = print_expr b 0 l @ word ''or'' # print_expr False 1 r"
  "0 < lvl \<Longrightarrow> print_expr b lvl (Or l r) = word ''('' # print_expr False 0 (Or l r) @ [word '')'']"
  by simp_all

lemma print_And:
  "lvl \<le> 1 \<Longrightarrow> print_expr b lvl (And l r) = print_expr b 1 l @ word ''and'' # print_expr False 2 r"
  "1 < lvl \<Longrightarrow> print_expr b lvl (And l r) = word ''('' # print_expr False 0 (And l r) @ [word '')'']"
  by simp_all

lemma print_Neg: "print_expr b lvl (Neg l) = word ''not'' # print_expr False 2 l"
  by simp

lemma cmp_op: "cmp_ok op field vals \<Longrightarrow> op \<noteq> ''or'' \<and> op \<noteq> ''and'' \<and> op \<noteq> ''not''"
  by (auto simp: cmp_ok_def comparison_ops_def)

lemma print_Cmp: "cmp_ok op field vals \<Longrightarrow> print_expr b lvl (Cmp op field vals) =
  (if b \<and> field = ''order'' then word ''('' # print_cmp op field vals @ [word '')''] else print_cmp op field vals)"
  by (drule cmp_op) simp

subsection \<open>Reading printed tokens\<close>

definition follows :: "token list \<Rightarrow> nat \<Rightarrow> btok list \<Rightarrow> bool" where
  "follows ts p bs = (map bare (drop p ts) = bs)"

lemma follows_Cons:
  assumes "follows ts p ((w, q) # bs)"
  shows "tk_text (peek ts p) = w" "tk_quoted (peek ts p) = q" "follows ts (p + 1) bs" "p < length ts"
proof -
  show p: "p < length ts" using assms by (cases "p < length ts") (auto simp: follows_def)
  have "drop p ts = ts ! p # drop (Suc p) ts" using p by (simp add: Cons_nth_drop_Suc)
  then show "tk_text (peek ts p) = w" "tk_quoted (peek ts p) = q" "follows ts (p + 1) bs"
    using assms p by (auto simp: follows_def bare_def peek_def)
qed

lemma follows_append: "follows ts p (as @ bs) \<Longrightarrow> follows ts (p + length as) bs"
proof (induction as arbitrary: p)
  case (Cons a as)
  then show ?case using follows_Cons(3) [of ts p "fst a" "snd a"] by fastforce
qed simp

lemma is_tok_follows: "follows ts p ((w, q) # bs) \<Longrightarrow> is_tok ts p s \<longleftrightarrow> \<not> q \<and> canonical w = s"
  by (simp add: is_tok_def follows_Cons)

lemma keywords_canonical:
  "list_all (\<lambda>w. canonical w = w)
     ([''and'', ''or'', ''not'', ''order'', ''by'', ''desc'', ''in'', ''is'', ''me'', ''now'', ''null'', ''true'', ''false'', [], '',''] @ operators)"
  by code_simp

text \<open>What may stand after a value or a comparison.\<close>

definition stops :: "btok list \<Rightarrow> bool" where
  "stops rest = (\<exists>w rs. rest = word w # rs \<and> w \<in> {'')'', '','', ''and'', ''or'', ''order'', []})"

lemma stops_is_tok:
  assumes "stops rest" "follows ts p rest" "s \<notin> {'')'', '','', ''and'', ''or'', ''order'', []}"
  shows "\<not> is_tok ts p s"
proof -
  obtain w rs where w: "rest = word w # rs" "w \<in> {'')'', '','', ''and'', ''or'', ''order'', []}" using assms(1) by (auto simp: stops_def)
  have "canonical w = w" using w(2) keywords_canonical by (auto simp: operators_def)
  then show ?thesis using is_tok_follows [of ts p w False rs s] assms(2,3) w by metis
qed

lemma utoa_word: "list_all word_char (utoa n)" "utoa n \<noteq> []" "\<not> is_operator (hd (utoa n))"
proof -
  have d: "list_all is_digit (utoa n)" "utoa n \<noteq> []" using atoi_utoa [of n] by (auto simp: atoi_digits_def split: if_splits)
  then show "utoa n \<noteq> []" by simp
  have "word_char c \<and> \<not> is_operator c" if "is_digit c" for c
    using that by (auto simp: is_digit_def word_char_def is_operator_def char_between_def)
  then show "list_all word_char (utoa n)" "\<not> is_operator (hd (utoa n))" using d by (auto simp: list_all_iff)
qed

lemma duration_unit:
  assumes "duration s = Some n" "duration_unit n = (u, c)"
  shows "unit_of c = Some u \<and> n mod u = 0 \<and> 0 \<le> n div u \<and> n div u \<le> 1000000 \<and> n div u \<le> (2 ^ 63 - 1) div u \<and> word_char c"
proof -
  obtain m v where m: "unit_of (last s) = Some v" "0 \<le> m" "m \<le> 1000000" "n = m * v"
    using assms(1) unfolding duration_Some by blast
  have n: "0 \<le> n" "n \<le> 2 ^ 63 - 1" using duration_bound [OF assms(1)] by auto
  have v: "v \<in> {7 * 24 * 3600000000000, 24 * 3600000000000, 3600000000000, 60000000000}"
    using m(1) by (auto simp: unit_of_def split: if_splits)
  define W D H M :: int where "W = 7 * 24 * 3600000000000" and "D = 24 * 3600000000000" and "H = 3600000000000" and "M = 60000000000"
  have vs: "v = W \<or> v = D \<or> v = H \<or> v = M" using v by (simp add: W_def D_def H_def M_def)
  have du: "duration_unit n = (if n mod W = 0 then (W, CHR ''w'') else if n mod D = 0 then (D, CHR ''d'') else if n mod H = 0 then (H, CHR ''h'') else (M, CHR ''m''))"
    by (simp only: duration_unit_def W_def D_def H_def M_def)
  have sizes: "M \<le> H" "H \<le> D" "D \<le> W" "0 < M" by (simp_all add: W_def D_def H_def M_def)
  have uc: "u = W \<and> c = CHR ''w'' \<or> u = D \<and> c = CHR ''d'' \<or> u = H \<and> c = CHR ''h'' \<or> u = M \<and> c = CHR ''m''"
    using assms(2) unfolding du by (metis prod.inject)
  have u: "unit_of c = Some u" using uc by (elim disjE conjE; simp add: unit_of_def W_def D_def H_def M_def)
  have c: "word_char c" using uc by (elim disjE conjE; simp add: word_char_def char_between_def)
  have "n mod v = 0" using m(4) by simp
  then have vu: "v \<le> u \<and> n mod u = 0" using assms(2) vs sizes unfolding du by (auto split: if_splits)
  have "0 < u" using uc sizes by auto
  have "n div u \<le> m"
  proof -
    have "n \<le> m * u" using m vu by (simp add: mult_left_mono)
    then show ?thesis using zdiv_mono1 [of n "m * u" u] \<open>0 < u\<close> by simp
  qed
  then show ?thesis using u c vu m n zdiv_mono1 [OF n(2) \<open>0 < u\<close>] pos_imp_zdiv_nonneg_iff [OF \<open>0 < u\<close>, of n] by linarith
qed

lemma duration_print:
  assumes "duration s = Some n"
  shows "duration (print_duration n) = Some n" "word_text (print_duration n)" "2 \<le> length (print_duration n)"
proof -
  obtain u c where u: "duration_unit n = (u, c)" by (cases "duration_unit n")
  note du = duration_unit [OF assms u]
  define m where "m = n div u"
  have m: "0 \<le> m" "print_duration n = utoa (nat m) @ [c]" using du u by (auto simp: print_duration_def itoa_def m_def)
  have hd: "hd (utoa (nat m)) \<noteq> CHR ''-''" "hd (utoa (nat m)) \<noteq> CHR ''+''" using utoa_word(3) [of "nat m"] by (auto simp: is_operator_def)
  have "ParseInt_dec (utoa (nat m)) = Some m" using m(1) hd by (simp add: ParseInt_dec_def atoi_utoa)
  moreover have "m * u = n" using du by (simp add: m_def mod_0_imp_dvd)
  ultimately show "duration (print_duration n) = Some n"
    unfolding m(2) duration_Some using du m(1) by (auto simp: m_def)
  show "word_text (print_duration n)" unfolding m(2) using utoa_word du by (auto simp: word_text_def hd_append)
  show "2 \<le> length (print_duration n)" unfolding m(2) using utoa_word(2) [of "nat m"] by (cases "utoa (nat m)") auto
qed

lemma canonical_keyword:
  "w \<in> set [''and'', ''or'', ''not'', ''order'', ''by'', ''desc'', ''in'', ''is'', ''me'', ''now'', ''null'', ''true'', ''false'', [], ''('', '')'', '','', ''+'', ''-''] \<Longrightarrow> canonical w = w"
  using keywords_canonical by (auto simp: operators_def)

lemma take_keyword:
  assumes "follows ts p (word w # bs)" "canonical w = w"
  shows "is_tok ts p s \<longleftrightarrow> w = s" "require ts p w what = Inr (p + 1)"
  using is_tok_follows [OF assms(1), of s] is_tok_follows [OF assms(1), of w] assms(2) by (auto simp: require_def)

lemma parse_function_print:
  assumes "name = ''me'' \<or> name = ''now''" "name = ''me'' \<longrightarrow> n = 0" "duration s = Some \<bar>n\<bar>" "stops rest"
    and "follows ts p ([word ''('', word '')''] @ (if n = 0 then [] else [word (if n < 0 then ''-'' else ''+''), word (print_duration \<bar>n\<bar>)]) @ rest)"
  shows "parse_function ts p name = Inr (\<lparr>va_Literal = LNil, va_Function = name, va_Offset = n\<rparr>, p + (if n = 0 then 2 else 4))"
proof -
  have f1: "follows ts p (word ''('' # word '')'' # (if n = 0 then [] else [word (if n < 0 then ''-'' else ''+''), word (print_duration \<bar>n\<bar>)]) @ rest)"
    using assms(5) by simp
  note f2 = follows_Cons(3) [OF f1]
  note f3 = follows_Cons(3) [OF f2]
  have r: "require ts p ''('' what = Inr (p + 1)" "require ts (p + 1) '')'' what = Inr (p + 1 + 1)" for what
    using take_keyword(2) [OF f1] take_keyword(2) [OF f2] canonical_keyword by simp_all
  show ?thesis
  proof (cases "n = 0")
    case True
    then have "\<not> is_tok ts (p + 1 + 1) ''+''" "\<not> is_tok ts (p + 1 + 1) ''-''"
      using stops_is_tok [OF assms(4), of ts "p + 1 + 1"] f3 by auto
    then show ?thesis using True r by (simp add: parse_function_def)
  next
    case False
    let ?s = "if n < 0 then ''-'' else ''+''"
    have f3': "follows ts (p + 1 + 1) (word ?s # word (print_duration \<bar>n\<bar>) # rest)" using f3 False by simp
    note f4 = follows_Cons [OF follows_Cons(3) [OF f3']]
    have sign: "is_tok ts (p + 1 + 1) x \<longleftrightarrow> ?s = x" for x using take_keyword(1) [OF f3'] canonical_keyword by simp
    have "name = ''now''" using assms(1,2) False by auto
    then show ?thesis using False r f4 sign duration_print [OF assms(3)] by (simp add: parse_function_def Let_def)
  qed
qed

lemma lower_char_minus:
  assumes "lower_char c = CHR ''-''"
  shows "c = CHR ''-''"
proof (cases "char_between CHR ''A'' CHR ''Z'' c")
  case True
  define k where "k = (of_char c :: nat)"
  have k: "65 \<le> k" "k \<le> 90" using True by (simp_all add: char_between_def less_eq_char_def k_def)
  have "char_of (k + 32) = CHR ''-''" using assms True by (simp only: lower_char_def if_True k_def)
  then have "of_char (char_of (k + 32) :: char) = (of_char CHR ''-'' :: nat)" by (simp only:)
  then have "(k + 32) mod 256 = 45" unfolding of_char_of by simp
  then show ?thesis using k by simp
next
  case False
  then show ?thesis using assms by (simp only: lower_char_def if_False)
qed

lemma canonical_cases: "canonical w = ToLower w \<or> canonical w \<in> {''me'', ''null''}"
  by (auto simp: canonical_def aliases_def Let_def)

lemma ToLower_word:
  assumes "list_all word_char w"
  shows "ToLower w = map lower_char w"
  using assms
proof (induction w)
  case (Cons c w)
  have "c \<noteq> CHR 0xE2" "c \<noteq> CHR 0xC4" using Cons.prems by (auto simp: word_char_def char_between_def less_eq_char_def)
  then show ?case using Cons by simp
qed simp

lemma number_not_minus:
  assumes "word_text n"
  shows "canonical n \<noteq> ''-''"
proof
  assume "canonical n = ''-''"
  then have "ToLower n = ''-''" using canonical_cases [of n] by auto
  then have "map lower_char n = ''-''" using ToLower_word assms by (simp add: word_text_def)
  then have "n = ''-''" using lower_char_minus by (auto simp: map_eq_Cons_conv)
  then show False using assms by (simp add: word_text_def is_operator_def)
qed

lemma parse_value_print:
  assumes "print_ok v" "follows ts p (print_value v @ rest)" "stops rest"
  shows "parse_value ts p = Inr (v, p + length (print_value v))"
proof (cases "va_Function v = []")
  case False
  then have fn: "va_Function v = ''me'' \<or> va_Function v = ''now''" "va_Literal v = LNil" "va_Function v = ''me'' \<longrightarrow> va_Offset v = 0"
    using assms(1) by (auto simp: print_ok_def)
  obtain s where s: "duration s = Some \<bar>va_Offset v\<bar>" using assms(1) False by (auto simp: print_ok_def)
  have f: "follows ts p (word (va_Function v) # [word ''('', word '')''] @
      (if va_Offset v = 0 then [] else [word (if va_Offset v < 0 then ''-'' else ''+''), word (print_duration \<bar>va_Offset v\<bar>)]) @ rest)"
    using assms(2) False by (simp add: print_value_def)
  have c: "canonical (va_Function v) = va_Function v" using canonical_keyword fn(1) by auto
  have v: "v = \<lparr>va_Literal = LNil, va_Function = va_Function v, va_Offset = va_Offset v\<rparr>" using fn(2) by simp
  have "parse_value ts p = parse_function ts (p + 1) (va_Function v)"
    using follows_Cons [OF f] c fn(1) False by (auto simp: parse_value_def Let_def)
  also have "\<dots> = Inr (\<lparr>va_Literal = LNil, va_Function = va_Function v, va_Offset = va_Offset v\<rparr>, p + 1 + (if va_Offset v = 0 then 2 else 4))"
    by (rule parse_function_print [OF fn(1,3) s assms(3) follows_Cons(3) [OF f]])
  finally show ?thesis using v False by (simp add: print_value_def)
next
  case True
  note off = assms(1)
  have o0: "va_Offset v = 0" using assms(1) True by (simp add: print_ok_def)
  then have v: "v = lit (va_Literal v)" using True by simp
  show ?thesis
  proof (cases "va_Literal v")
    case LNil
    then have f: "follows ts p (word ''null'' # rest)" using assms(2) True by (simp add: print_value_def)
    show ?thesis using follows_Cons [OF f] canonical_keyword [of "''null''"] True LNil v by (simp add: parse_value_def Let_def print_value_def)
  next
    case (LString t)
    then have f: "follows ts p ((t, True) # rest)" "t \<noteq> []" using assms(1,2) True by (simp_all add: print_value_def print_ok_def)
    show ?thesis using follows_Cons [OF f(1)] f(2) True LString v by (simp add: parse_value_def Let_def print_value_def)
  next
    case (LBool b)
    then have f: "follows ts p (word (if b then ''true'' else ''false'') # rest)" using assms(2) True by (simp add: print_value_def)
    show ?thesis using follows_Cons [OF f] canonical_keyword [of "''true''"] canonical_keyword [of "''false''"] True LBool v
      by (cases b) (simp_all add: parse_value_def Let_def print_value_def)
  next
    case (LNumber n)
    have ok: "ParseFloat_ok n" using assms(1) True LNumber by (simp add: print_ok_def)
    have ne: "n \<noteq> []" using ok by (auto simp: ParseFloat_ok_def)
    show ?thesis
    proof (cases "hd n = CHR ''-''")
      case True
      then have f: "follows ts p (word ''-'' # (tl n, True) # rest)" using assms(2) \<open>va_Function v = []\<close> LNumber ne by (simp add: print_value_def)
      note f' = follows_Cons [OF follows_Cons(3) [OF f]]
      have n: "''-'' @ tl n = n" using True ne by (cases n) auto
      have t: "is_tok ts p ''-''" using take_keyword(1) [OF f] canonical_keyword [of "''-''"] by simp
      show ?thesis using follows_Cons [OF f] f' canonical_keyword [of "''-''"] t ok n \<open>va_Function v = []\<close> LNumber v True ne
        by (simp add: parse_value_def Let_def print_value_def)
    next
      case False
      then have f: "follows ts p (word n # rest)" using assms(2) \<open>va_Function v = []\<close> LNumber by (simp add: print_value_def)
      have w: "word_text n" "canonical n \<notin> {''startofsprint'', ''endofsprint'', ''me'', ''now'', ''null'', ''true'', ''false''}"
        using assms(1) \<open>va_Function v = []\<close> LNumber False by (auto simp: print_ok_def)
      have t: "\<not> is_tok ts p ''-''" using is_tok_follows [OF f] number_not_minus [OF w(1)] by simp
      show ?thesis using follows_Cons [OF f] t ok w(2) \<open>va_Function v = []\<close> LNumber v False ne
        by (simp add: parse_value_def Let_def print_value_def)
    qed
  qed
qed

lemma number_not_not:
  assumes "word_text n" "ParseFloat_ok n"
  shows "canonical n \<noteq> ''not''"
proof
  assume "canonical n = ''not''"
  then have "ToLower n = ''not''" using canonical_cases [of n] by auto
  then have m: "map lower_char n = ''not''" using ToLower_word assms(1) by (simp add: word_text_def)
  then obtain c cs where n: "n = c # cs" "lower_char c = CHR ''n''" by (cases n) auto
  have "\<not> is_digit c"
  proof
    assume "is_digit c"
    then have "\<not> char_between CHR ''A'' CHR ''Z'' c" by (auto simp: is_digit_def char_between_def less_eq_char_def)
    then have "c = CHR ''n''" using n(2) by (simp only: lower_char_def if_False)
    then show False using \<open>is_digit c\<close> by (simp add: is_digit_def char_between_def)
  qed
  moreover have "c \<noteq> d" if "lower_char d = d" "d \<noteq> CHR ''n''" for d using that n(2) by auto
  then have "c \<noteq> CHR ''_''" "c \<noteq> CHR ''.''" "c \<noteq> CHR ''-''" "c \<noteq> CHR ''+''" "c \<noteq> CHR ''0''"
    by (simp_all add: lower_char_def char_between_def)
  ultimately show False using assms(2) unfolding n(1) by (simp add: ParseFloat_ok_def Let_def)
qed

lemma value_first:
  assumes "print_ok v"
  shows "print_value v \<noteq> [] \<and> (\<not> snd (hd (print_value v)) \<longrightarrow> canonical (fst (hd (print_value v))) \<noteq> ''not'')"
proof (cases "va_Function v = []")
  case False
  then have "va_Function v = ''me'' \<or> va_Function v = ''now''" using assms by (simp add: print_ok_def)
  then show ?thesis using False canonical_keyword [of "''me''"] canonical_keyword [of "''now''"] by (elim disjE) (simp_all add: print_value_def)
next
  case True
  show ?thesis
  proof (cases "va_Literal v")
    case LNil
    then show ?thesis using True canonical_keyword [of "''null''"] by (simp add: print_value_def)
  next
    case (LBool b)
    then show ?thesis using True canonical_keyword [of "''true''"] canonical_keyword [of "''false''"] by (cases b) (simp_all add: print_value_def)
  next
    case (LString t)
    then show ?thesis using True by (simp add: print_value_def)
  next
    case (LNumber n)
    show ?thesis
    proof (cases "n \<noteq> [] \<and> hd n = CHR ''-''")
      case True
      then show ?thesis using \<open>va_Function v = []\<close> LNumber canonical_keyword [of "''-''"] by (simp add: print_value_def)
    next
      case False
      then have "word_text n" "ParseFloat_ok n" using assms \<open>va_Function v = []\<close> LNumber by (simp_all only: print_ok_def literal.case if_False if_True not_False_eq_True)
      then show ?thesis using False \<open>va_Function v = []\<close> LNumber number_not_not [of n] by (simp only: print_value_def literal.case if_False simp_thms) simp
    qed
  qed
qed

lemma value_not_not:
  assumes "print_ok v" "follows ts p (print_value v @ rest)"
  shows "\<not> is_tok ts p ''not''"
proof -
  obtain w q bs where w: "print_value v = (w, q) # bs" "\<not> q \<longrightarrow> canonical w \<noteq> ''not''" 
    using value_first [OF assms(1)] by (cases "print_value v") fastforce+
  have "follows ts p ((w, q) # bs @ rest)" using assms(2) w(1) by simp
  then show ?thesis using is_tok_follows w(2) by blast
qed

lemma parse_list_print:
  assumes "list_all print_ok vs" "vs \<noteq> []" "length vs \<le> k" "follows ts p (print_list vs @ word '')'' # rest)"
  shows "parse_list k ts p = Inr (vs, p + length (print_list vs))"
  using assms
proof (induction vs arbitrary: k p rule: print_list.induct)
  case (2 v)
  obtain k' where k: "k = Suc k'" using 2 by (cases k) auto
  have st: "stops (word '')'' # rest)" by (auto simp: stops_def)
  have v: "parse_value ts p = Inr (v, p + length (print_value v))" using parse_value_print [OF _ _ st] 2 by simp
  have "follows ts (p + length (print_value v)) (word '')'' # rest)" using 2 follows_append [of ts p "print_value v"] by simp
  then have "\<not> is_tok ts (p + length (print_value v)) '',''" using take_keyword(1) canonical_keyword [of "'')''"] by fastforce
  then show ?case unfolding k using v by simp
next
  case (3 v w vs)
  obtain k' where k: "k = Suc k'" using 3 by (cases k) auto
  let ?q = "p + length (print_value v)"
  have f: "follows ts p (print_value v @ word '','' # print_list (w # vs) @ word '')'' # rest)" using 3 by simp
  have st: "stops (word '','' # print_list (w # vs) @ word '')'' # rest)" by (auto simp: stops_def)
  have v: "parse_value ts p = Inr (v, ?q)" using parse_value_print [OF _ f st] 3 by simp
  note f' = follows_append [OF f]
  have c: "is_tok ts ?q '',''" using take_keyword(1) [OF f'] canonical_keyword [of "'',''"] by simp
  have "parse_list k' ts (?q + 1) = Inr (w # vs, ?q + 1 + length (print_list (w # vs)))"
    by (rule 3(1)) (use 3 k follows_Cons(3) [OF f'] in auto)
  then show ?case unfolding k using v c by simp
qed simp

lemma parse_operator_print:
  assumes "op \<in> set comparison_ops" "print_op op = word w # ws" "follows ts p (ws @ bs)"
    and "op = ''is'' \<Longrightarrow> \<not> is_tok ts p ''not''"
  shows "parse_operator ts p (canonical w) = Inr (op, p + length ws)"
proof -
  define single where "single = [''='', ''!='', ''>'', ''>='', ''<'', ''<='', ''in'', ''~'', '':'']"
  have single: "list_all (\<lambda>w. canonical w = w \<and> w \<noteq> ''not'' \<and> w \<noteq> ''is'' \<and> w \<noteq> ''not in'' \<and> w \<noteq> ''is not'') single"
    unfolding single_def by code_simp
  have "set comparison_ops = set single \<union> {''not in'', ''is not'', ''is''}" unfolding single_def comparison_ops_def by auto
  then have "op = ''not in'' \<or> op = ''is not'' \<or> op = ''is'' \<or> op \<in> set single" using assms(1) by blast
  then show ?thesis
  proof (elim disjE)
    assume op: "op = ''not in''"
    then have "w = ''not''" "ws = [word ''in'']" using assms(2) by (simp_all add: print_op_def)
    then show ?thesis using op take_keyword(2) [of ts p "''in''" bs] assms(3) canonical_keyword [of "''in''"] canonical_keyword [of "''not''"]
      by (simp add: parse_operator_def)
  next
    assume op: "op = ''is not''"
    then have "w = ''is''" "ws = [word ''not'']" using assms(2) by (simp_all add: print_op_def)
    then show ?thesis using op take_keyword(1) [of ts p "''not''" bs "''not''"] assms(3) canonical_keyword [of "''not''"] canonical_keyword [of "''is''"]
      by (simp add: parse_operator_def take_tok_def)
  next
    assume op: "op = ''is''"
    then have "w = ''is''" "ws = []" using assms(2) by (simp_all add: print_op_def)
    then show ?thesis using op assms(4) canonical_keyword [of "''is''"] by (simp add: parse_operator_def take_tok_def)
  next
    assume op: "op \<in> set single"
    then have c: "canonical op = op" "op \<noteq> ''not''" "op \<noteq> ''is''" "op \<noteq> ''not in''" "op \<noteq> ''is not''"
      using single unfolding list_all_iff by blast+
    then have w: "w = op" "ws = []" using assms(2) by (simp_all only: print_op_def if_False list.inject prod.inject)
    show ?thesis unfolding w parse_operator_def c(1) using c(2,3) op unfolding single_def by (simp only: if_False if_True) simp
  qed
qed

lemma comparison_print:
  assumes "cmp_ok op field vals" "follows ts p (print_cmp op field vals @ rest)" "stops rest"
  shows "comparison ts p = Inr (Cmp op field vals, p + length (print_cmp op field vals))"
proof -
  have c: "op \<in> set comparison_ops" "bare_ok field" "field \<noteq> ''descendants''" "field \<noteq> ''ancestors''" "list_all print_ok vals" "vals \<noteq> []"
    using assms(1) by (simp_all add: cmp_ok_def)
  have field: "canonical field = field" "field \<noteq> []" using c(2) by (auto simp: bare_ok_def word_text_def operators_def)
  obtain w ws where w: "print_op op = word w # ws"
    by (cases "op = ''not in''"; cases "op = ''is not''") (simp_all add: print_op_def)
  let ?args = "if op = ''in'' \<or> op = ''not in'' then word ''('' # print_list vals @ [word '')''] else print_value (hd vals)"
  have f: "follows ts p (word field # word w # ws @ ?args @ rest)" using assms(2) w by (simp only: print_cmp_def append_Cons append_assoc)
  note f1 = follows_Cons [OF f]
  note f2 = follows_Cons [OF f1(3)]
  have hv: "print_ok (hd vals)" using c(5,6) by (cases vals) auto
  have op: "parse_operator ts (p + 1 + 1) (canonical w) = Inr (op, p + 1 + 1 + length ws)"
  proof (rule parse_operator_print [OF c(1) w f2(3)])
    assume is': "op = ''is''"
    then have "ws = []" using w by (simp add: print_op_def)
    then show "\<not> is_tok ts (p + 1 + 1) ''not''" using value_not_not [OF hv] f2(3) is' by simp
  qed
  let ?q = "p + 1 + 1 + length ws"
  note f3 = follows_append [OF f2(3)]
  show ?thesis
  proof (cases "op = ''in'' \<or> op = ''not in''")
    case True
    have f4: "follows ts ?q (word ''('' # print_list vals @ word '')'' # rest)" using f3 True by simp
    note f5 = follows_Cons(3) [OF f4]
    have len: "length vals \<le> 200" using assms(1) True by (simp only: cmp_ok_def if_True)
    have l: "parse_list 200 ts (?q + 1) = Inr (vals, ?q + 1 + length (print_list vals))"
      by (rule parse_list_print [OF c(5,6) len f5])
    have "follows ts (?q + 1 + length (print_list vals)) (word '')'' # rest)" using follows_append [OF f5] by simp
    then have r: "require ts (?q + 1 + length (print_list vals)) '')'' what = Inr (?q + 1 + length (print_list vals) + 1)" for what
      using take_keyword(2) canonical_keyword [of "'')''"] by simp
    have o1: "require ts ?q ''('' what = Inr (?q + 1)" for what using take_keyword(2) [OF f4] canonical_keyword [of "''(''"] by simp
    have e: "comparison ts p = Inr (Cmp op field vals, ?q + 1 + length (print_list vals) + 1)"
      using f1(1,2) f2(1,2) field c(3,4) op l r o1 True unfolding comparison_def Let_def
      by (simp only: rbind_simps prod.case if_False if_True simp_thms) simp
    then show ?thesis using True w by (simp add: print_cmp_def)
  next
    case False
    then obtain v where v: "vals = [v]" using assms(1) c(6) by (cases vals) (auto simp: cmp_ok_def)
    have f4: "follows ts ?q (print_value v @ rest)" using f3 False v by simp
    have pv: "parse_value ts ?q = Inr (v, ?q + length (print_value v))" using parse_value_print [OF _ f4 assms(3)] hv v by simp
    have e: "comparison ts p = Inr (Cmp op field vals, ?q + length (print_value v))"
      using f1(1,2) f2(1,2) field c(3,4) op pv False v unfolding comparison_def Let_def
      by (simp only: rbind_simps prod.case if_False if_True simp_thms) simp
    then show ?thesis using False w v by (simp add: print_cmp_def)
  qed
qed

subsection \<open>Reading printed expressions\<close>

lemma chain_stop:
  assumes "follows ts p (word w # rs)" "canonical w = w" "w \<noteq> joint" "0 < n"
  shows "chain n joint operand ts e p = Inr (e, p)"
  using assms(4) take_keyword(1) [OF assms(1,2), of joint] assms(3) by (cases n) auto

text \<open>
  The parser has read \<open>e\<close> between \<open>p\<close> and \<open>p'\<close>: at levels 0 and 1 its loop is about to look for
  another operand and has turns left for all remaining tokens.
\<close>

definition reads :: "nat \<Rightarrow> nat \<Rightarrow> token list \<Rightarrow> nat \<Rightarrow> Expr \<Rightarrow> nat \<Rightarrow> bool" where
  "reads d lvl ts p e p' =
     (if lvl = 0 then \<exists>n. parse_or (unary d ts) ts p = chain n ''or'' (operands ''and'' (unary d ts) ts) ts e p' \<and> length ts < n + p'
      else if lvl = 1 then \<exists>n. operands ''and'' (unary d ts) ts p = chain n ''and'' (unary d ts) ts e p' \<and> length ts < n + p'
      else unary d ts p = Inr (e, p'))"

definition ends :: "nat \<Rightarrow> btok list \<Rightarrow> bool" where
  "ends lvl rest = (stops rest \<and> (lvl = 0 \<longrightarrow> hd rest \<noteq> word ''and''))"

lemma ends_word: "w \<in> {'')'', '','', ''or'', ''order'', []} \<Longrightarrow> ends lvl (word w # rs)"
  unfolding ends_def stops_def by auto

lemma ends_and: "0 < lvl \<Longrightarrow> ends lvl (word ''and'' # rs)"
  unfolding ends_def stops_def by auto

lemma stops_Cons:
  assumes "stops rest"
  obtains w rs where "rest = word w # rs" "canonical w = w"
proof -
  obtain w rs where w: "rest = word w # rs" "w \<in> {'')'', '','', ''and'', ''or'', ''order'', []}" using assms by (auto simp: stops_def)
  have "canonical w = w" by (rule canonical_keyword) (use w(2) in auto)
  then show ?thesis using that w(1) by blast
qed

lemma operands_done:
  assumes "reads d 1 ts p e p'" "follows ts p' rest" "ends 0 rest"
  shows "operands ''and'' (unary d ts) ts p = Inr (e, p')"
proof -
  obtain n where n: "operands ''and'' (unary d ts) ts p = chain n ''and'' (unary d ts) ts e p'" "length ts < n + p'"
    using assms(1) by (auto simp: reads_def)
  obtain w rs where w: "rest = word w # rs" "canonical w = w" using assms(3) stops_Cons by (auto simp: ends_def)
  have f: "follows ts p' (word w # rs)" "w \<noteq> ''and''" using assms(2,3) w(1) by (auto simp: ends_def)
  then have "p' < length ts" using follows_Cons(4) by blast
  then show ?thesis unfolding n(1) by (intro chain_stop [OF f(1) w(2) f(2)]) (use n(2) in simp)
qed

lemma or_done:
  assumes "reads d 0 ts p e p'" "follows ts p' (word w # rs)" "canonical w = w" "w \<noteq> ''or''"
  shows "parse_or (unary d ts) ts p = Inr (e, p')"
proof -
  obtain n where n: "parse_or (unary d ts) ts p = chain n ''or'' (operands ''and'' (unary d ts) ts) ts e p'" "length ts < n + p'"
    using assms(1) by (auto simp: reads_def)
  have "p' < length ts" using assms(2) follows_Cons(4) by blast
  then show ?thesis unfolding n(1) by (intro chain_stop [OF assms(2-4)]) (use n(2) in simp)
qed

lemma reads_up:
  assumes "reads d lvl ts p e p'" "lvl' \<le> lvl" "lvl \<le> 2" "follows ts p' rest" "ends lvl' rest"
  shows "reads d lvl' ts p e p'"
proof -
  have one: "reads d 1 ts p e p'" if "reads d 2 ts p e p'"
    using that by (auto simp: reads_def operands_def simp del: chain.simps intro!: exI [of _ "Suc (length ts)"])
  have zero: "reads d 0 ts p e p'" if "reads d 1 ts p e p'" "ends 0 rest"
    using operands_done [OF that(1) assms(4) that(2)]
    by (auto simp: reads_def parse_or_def operands_def [of "''or''"] simp del: chain.simps intro!: exI [of _ "Suc (length ts)"])
  have "lvl = 0 \<or> lvl = 1 \<or> lvl = 2" "lvl' = 0 \<or> lvl' = 1 \<or> lvl' = 2" using assms(2,3) by auto
  then show ?thesis using assms one zero by auto
qed

lemma reads_paren:
  assumes "follows ts p (word ''('' # bs)" "reads d 0 ts (p + 1) e p'" "follows ts p' (word '')'' # rs)"
  shows "unary (Suc d) ts p = Inr (e, p' + 1)"
proof -
  have o1: "is_tok ts p ''(''" "\<not> is_tok ts p ''not''" using take_keyword(1) [OF assms(1)] canonical_keyword [of "''(''"] by auto
  have "parse_or (unary d ts) ts (p + 1) = Inr (e, p')"
    by (rule or_done [OF assms(2,3)]) (use canonical_keyword [of "'')''"] in simp_all)
  moreover have "require ts p' '')'' what = Inr (p' + 1)" for what using take_keyword(2) [OF assms(3)] canonical_keyword [of "'')''"] by simp
  ultimately show ?thesis using o1 by simp
qed

lemma reads_cmp:
  assumes "cmp_ok op field vals" "follows ts p (print_cmp op field vals @ rest)" "stops rest"
  shows "unary (Suc d) ts p = Inr (Cmp op field vals, p + length (print_cmp op field vals))"
proof -
  have f: "follows ts p (word field # tl (print_cmp op field vals) @ rest)" using assms(2) by (simp add: print_cmp_def)
  have c: "canonical field = field" "field \<noteq> ''not''" "field \<noteq> ''(''" using assms(1) by (simp_all add: cmp_ok_def bare_ok_def)
  then have "\<not> is_tok ts p ''not''" "\<not> is_tok ts p ''(''" using take_keyword(1) [OF f] by auto
  then show ?thesis using comparison_print [OF assms] by simp
qed

lemma reads_And:
  assumes "reads d 1 ts p l p1" "follows ts p1 (word ''and'' # bs)" "reads d 2 ts (p1 + 1) r p2" "p1 < p2"
  shows "reads d 1 ts p (And l r) p2"
proof -
  obtain n where n: "operands ''and'' (unary d ts) ts p = chain n ''and'' (unary d ts) ts l p1" "length ts < n + p1"
    using assms(1) by (auto simp: reads_def)
  have "p1 < length ts" "is_tok ts p1 ''and''" using follows_Cons(4) [OF assms(2)] take_keyword(1) [OF assms(2)] canonical_keyword [of "''and''"] by auto
  moreover from this obtain k where k: "n = Suc k" using n(2) by (cases n) auto
  ultimately have "operands ''and'' (unary d ts) ts p = chain k ''and'' (unary d ts) ts (And l r) p2"
    using n(1) assms(3) by (simp add: reads_def)
  then show ?thesis using n(2) k assms(4) by (auto simp: reads_def intro!: exI [of _ k])
qed

lemma reads_Or:
  assumes "reads d 0 ts p l p1" "follows ts p1 (word ''or'' # bs)" "reads d 1 ts (p1 + 1) r p2" "p1 < p2" "follows ts p2 rest" "ends 0 rest"
  shows "reads d 0 ts p (Or l r) p2"
proof -
  obtain n where n: "parse_or (unary d ts) ts p = chain n ''or'' (operands ''and'' (unary d ts) ts) ts l p1" "length ts < n + p1"
    using assms(1) by (auto simp: reads_def)
  have "p1 < length ts" "is_tok ts p1 ''or''" using follows_Cons(4) [OF assms(2)] take_keyword(1) [OF assms(2)] canonical_keyword [of "''or''"] by auto
  moreover from this obtain k where k: "n = Suc k" using n(2) by (cases n) auto
  ultimately have "parse_or (unary d ts) ts p = chain k ''or'' (operands ''and'' (unary d ts) ts) ts (Or l r) p2"
    using n(1) operands_done [OF assms(3,5,6)] by simp
  then show ?thesis using n(2) k assms(4) by (auto simp: reads_def intro!: exI [of _ k])
qed

lemma reads_print:
  assumes "fits d lvl e" "lvl \<le> 2" "follows ts p (print_expr b lvl e @ rest)" "ends lvl rest" "b \<longrightarrow> 1 < d"
  shows "reads d lvl ts p e (p + length (print_expr b lvl e))"
  using assms
proof (induction arbitrary: p b rest rule: fits.induct)
  case (disj d l r)
  let ?p1 = "p + length (print_expr b 0 l)"
  let ?p2 = "?p1 + 1 + length (print_expr False 1 r)"
  have f: "follows ts p (print_expr b 0 l @ word ''or'' # print_expr False 1 r @ rest)" using disj.prems(2) unfolding print_Or(1) by simp
  note f1 = follows_append [OF f]
  note f2 = follows_append [OF follows_Cons(3) [OF f1]]
  have l: "reads d 0 ts p l ?p1" using disj.IH(1) [OF _ f _ disj.prems(4)] ends_word by simp
  have r: "reads d 1 ts (?p1 + 1) r ?p2"
    by (rule disj.IH(2) [OF _ follows_Cons(3) [OF f1]]) (use disj.prems(3) in \<open>simp_all add: ends_def\<close>)
  have "reads d 0 ts p (Or l r) ?p2" by (rule reads_Or [OF l f1 r _ f2 disj.prems(3)]) simp
  then show ?case unfolding print_Or(1) by (simp add: add.assoc)
next
  case (conj d l r lvl)
  let ?p1 = "p + length (print_expr b 1 l)"
  let ?p2 = "?p1 + 1 + length (print_expr False 2 r)"
  have f: "follows ts p (print_expr b 1 l @ word ''and'' # print_expr False 2 r @ rest)" using conj.prems(2) unfolding print_And(1) [OF conj.hyps(3)] by simp
  note f1 = follows_append [OF f]
  note f2 = follows_append [OF follows_Cons(3) [OF f1]]
  have l: "reads d 1 ts p l ?p1" using conj.IH(1) [OF _ f _ conj.prems(4)] ends_and by simp
  have r: "reads d 2 ts (?p1 + 1) r ?p2"
    by (rule conj.IH(2) [OF _ follows_Cons(3) [OF f1]]) (use conj.prems(3) in \<open>simp_all add: ends_def\<close>)
  have "reads d 1 ts p (And l r) ?p2" by (rule reads_And [OF l f1 r]) simp
  then have "reads d lvl ts p (And l r) ?p2" using reads_up [OF _ conj.hyps(3) _ f2 conj.prems(3)] by simp
  then show ?case unfolding print_And(1) [OF conj.hyps(3)] by (simp add: add.assoc)
next
  case (or_paren d l r lvl)
  have f: "follows ts p (word ''('' # print_expr False 0 (Or l r) @ word '')'' # rest)"
    using or_paren.prems(2) unfolding print_Or(2) [OF or_paren.hyps(2)] by simp
  note f1 = follows_Cons(3) [OF f]
  note f2 = follows_append [OF f1]
  have i: "reads d 0 ts (p + 1) (Or l r) (p + 1 + length (print_expr False 0 (Or l r)))"
    by (rule or_paren.IH [OF _ f1]) (simp_all add: ends_word)
  have "reads (Suc d) 2 ts p (Or l r) (p + 1 + length (print_expr False 0 (Or l r)) + 1)"
    using reads_paren [OF f i f2] by (simp add: reads_def)
  then show ?case using reads_up [OF _ or_paren.prems(1) _ follows_Cons(3) [OF f2] or_paren.prems(3)]
    unfolding print_Or(2) [OF or_paren.hyps(2)] by (simp add: add.assoc)
next
  case (and_paren d l r lvl)
  have f: "follows ts p (word ''('' # print_expr False 0 (And l r) @ word '')'' # rest)"
    using and_paren.prems(2) unfolding print_And(2) [OF and_paren.hyps(2)] by simp
  note f1 = follows_Cons(3) [OF f]
  note f2 = follows_append [OF f1]
  have i: "reads d 0 ts (p + 1) (And l r) (p + 1 + length (print_expr False 0 (And l r)))"
    by (rule and_paren.IH [OF _ f1]) (simp_all add: ends_word)
  have "reads (Suc d) 2 ts p (And l r) (p + 1 + length (print_expr False 0 (And l r)) + 1)"
    using reads_paren [OF f i f2] by (simp add: reads_def)
  then show ?case using reads_up [OF _ and_paren.prems(1) _ follows_Cons(3) [OF f2] and_paren.prems(3)]
    unfolding print_And(2) [OF and_paren.hyps(2)] by (simp add: add.assoc)
next
  case (neg d l lvl)
  have f: "follows ts p (word ''not'' # print_expr False 2 l @ rest)" using neg.prems(2) unfolding print_Neg by simp
  note f1 = follows_Cons(3) [OF f]
  have "reads d 2 ts (p + 1) l (p + 1 + length (print_expr False 2 l))"
    by (rule neg.IH [OF _ f1]) (use neg.prems(3) in \<open>simp_all add: ends_def\<close>)
  moreover have "is_tok ts p ''not''" using take_keyword(1) [OF f] canonical_keyword [of "''not''"] by simp
  ultimately have "reads (Suc d) 2 ts p (Neg l) (p + 1 + length (print_expr False 2 l))" by (simp add: reads_def)
  then show ?case using reads_up [OF _ neg.prems(1) _ follows_append [OF f1] neg.prems(3)] unfolding print_Neg by simp
next
  case (cmp op field vals d lvl)
  show ?case
  proof (cases "b \<and> field = ''order''")
    case True
    obtain d' where d': "d = Suc d'" using cmp.prems(4) True by (cases d) auto
    have p: "print_expr b lvl (Cmp op field vals) = word ''('' # print_cmp op field vals @ [word '')'']" using print_Cmp [OF cmp.hyps] True by simp
    have f: "follows ts p (word ''('' # print_cmp op field vals @ word '')'' # rest)" using cmp.prems(2) unfolding p by simp
    note f1 = follows_Cons(3) [OF f]
    note f2 = follows_append [OF f1]
    have "reads d 2 ts (p + 1) (Cmp op field vals) (p + 1 + length (print_cmp op field vals))"
      unfolding d' using reads_cmp [OF cmp.hyps f1] by (simp add: reads_def stops_def)
    then have "reads d 0 ts (p + 1) (Cmp op field vals) (p + 1 + length (print_cmp op field vals))"
      by (rule reads_up [OF _ _ _ f2]) (simp_all add: ends_word)
    then have "reads (Suc d) 2 ts p (Cmp op field vals) (p + 1 + length (print_cmp op field vals) + 1)"
      using reads_paren [OF f _ f2] by (simp add: reads_def)
    then show ?thesis using reads_up [OF _ cmp.prems(1) _ follows_Cons(3) [OF f2] cmp.prems(3)] unfolding p by (simp add: add.assoc)
  next
    case False
    have p: "print_expr b lvl (Cmp op field vals) = print_cmp op field vals" using print_Cmp [OF cmp.hyps] False by simp
    have f: "follows ts p (print_cmp op field vals @ rest)" using cmp.prems(2) unfolding p .
    have "reads (Suc d) 2 ts p (Cmp op field vals) (p + length (print_cmp op field vals))"
      using reads_cmp [OF cmp.hyps f] cmp.prems(3) by (simp add: reads_def ends_def)
    then show ?thesis using reads_up [OF _ cmp.prems(1) _ follows_append [OF f] cmp.prems(3)] unfolding p by simp
  qed
qed

subsection \<open>Reading printed queries\<close>

definition query_ok :: "Query \<Rightarrow> bool" where
  "query_ok q = (bare_ok (qu_Order q) \<and> (case qu_Expr q of None \<Rightarrow> True | Some e \<Rightarrow> fits 64 0 e))"

lemma print_first:
  "fits d lvl e \<Longrightarrow> \<exists>w bs. print_expr True lvl e = word w # bs \<and> w \<noteq> [] \<and> canonical w \<noteq> ''order''"
proof (induction rule: fits.induct)
  case (disj d l r)
  then show ?case unfolding print_Or(1) by auto
next
  case (conj d l r lvl)
  then show ?case unfolding print_And(1) [OF conj.hyps(3)] by auto
next
  case (or_paren d l r lvl)
  then show ?case unfolding print_Or(2) [OF or_paren.hyps(2)] using canonical_keyword [of "''(''"] by simp
next
  case (and_paren d l r lvl)
  then show ?case unfolding print_And(2) [OF and_paren.hyps(2)] using canonical_keyword [of "''(''"] by simp
next
  case (neg d l lvl)
  then show ?case unfolding print_Neg using canonical_keyword [of "''not''"] by simp
next
  case (cmp op field vals d lvl)
  have "canonical field = field" "field \<noteq> []" using cmp by (auto simp: cmp_ok_def bare_ok_def word_text_def operators_def)
  then show ?case using print_Cmp [OF cmp, of True lvl] canonical_keyword [of "''(''"] by (simp add: print_cmp_def)
qed

lemma parse_order_print:
  assumes "follows ts p ([word ''order'', word ''by'', word f] @ (if desc then [word ''desc''] else []) @ [word []])" "bare_ok f"
  shows "\<exists>p'. parse_order ts p = Inr ((f, desc), p') \<and> tk_text (peek ts p') = []"
proof -
  have f0: "follows ts p (word ''order'' # word ''by'' # word f # (if desc then [word ''desc''] else []) @ [word []])" using assms(1) by simp
  note f1 = follows_Cons(3) [OF f0]
  note f2 = follows_Cons [OF f1]
  note f3 = follows_Cons [OF f2(3)]
  have f: "canonical f = f" "f \<noteq> []" using assms(2) by (auto simp: bare_ok_def word_text_def operators_def)
  have o: "is_tok ts p ''order''" "require ts (p + 1) ''by'' what = Inr (p + 1 + 1)" for what
    using take_keyword(1) [OF f0] take_keyword(2) [OF f1] canonical_keyword [of "''order''"] canonical_keyword [of "''by''"] by auto
  show ?thesis
  proof (cases desc)
    case True
    then have f4: "follows ts (p + 1 + 1 + 1) (word ''desc'' # [word []])" using f3(3) by simp
    have "is_tok ts (p + 1 + 1 + 1) ''desc''" using take_keyword(1) [OF f4] canonical_keyword [of "''desc''"] by simp
    then show ?thesis using o f f3(1,2) True follows_Cons(1) [OF follows_Cons(3) [OF f4]] by (simp add: parse_order_def Let_def)
  next
    case False
    then have f4: "follows ts (p + 1 + 1 + 1) (word [] # [])" using f3(3) by simp
    have "\<not> is_tok ts (p + 1 + 1 + 1) ''desc''" "\<not> is_tok ts (p + 1 + 1 + 1) ''asc''" using take_keyword(1) [OF f4] canonical_keyword [of "[]"] by auto
    then show ?thesis using o f f3(1,2) False follows_Cons(1) [OF f4] by (simp add: parse_order_def Let_def take_tok_def)
  qed
qed

lemma parse_tokens_print:
  assumes "query_ok q" "follows ts 0 (print_query q @ [word []])"
  shows "parse_tokens ts = Inr q"
proof -
  let ?rest = "[word ''order'', word ''by'', word (qu_Order q)] @ (if qu_Desc q then [word ''desc''] else []) @ [word []]"
  have ord: "bare_ok (qu_Order q)" using assms(1) by (simp add: query_ok_def)
  have "\<exists>p. parse_filter ts = Inr (qu_Expr q, p) \<and> follows ts p ?rest"
  proof (cases "qu_Expr q")
    case None
    then have f: "follows ts 0 ?rest" using assms(2) by (simp add: print_query_def)
    then have "is_tok ts 0 ''order''" using take_keyword(1) canonical_keyword [of "''order''"] by simp
    then show ?thesis using f None by (auto simp: parse_filter_def)
  next
    case (Some e)
    have e: "fits 64 0 e" using assms(1) Some by (simp add: query_ok_def)
    have f: "follows ts 0 (print_expr True 0 e @ ?rest)" using assms(2) Some by (simp add: print_query_def)
    note f1 = follows_append [OF f]
    obtain w bs where w: "print_expr True 0 e = word w # bs" "w \<noteq> []" "canonical w \<noteq> ''order''" using print_first [OF e] by blast
    have f0: "follows ts 0 (word w # bs @ ?rest)" using f unfolding w(1) by simp
    have first: "tk_text (peek ts 0) \<noteq> []" "\<not> is_tok ts 0 ''order''" using follows_Cons(1) [OF f0] is_tok_follows [OF f0] w by auto
    have "reads 64 0 ts 0 e (0 + length (print_expr True 0 e))"
      by (rule reads_print [OF e _ f]) (simp_all add: ends_word)
    then have "parse_or (unary 64 ts) ts 0 = Inr (e, 0 + length (print_expr True 0 e))"
      using or_done [of 64 ts 0 e _ "''order''"] f1 canonical_keyword [of "''order''"] by simp
    then show ?thesis using first f1 Some by (auto simp: parse_filter_def)
  qed
  then obtain p where p: "parse_filter ts = Inr (qu_Expr q, p)" "follows ts p ?rest" by blast
  obtain p' where "parse_order ts p = Inr ((qu_Order q, qu_Desc q), p')" "tk_text (peek ts p') = []"
    using parse_order_print [OF p(2) ord] by blast
  then show ?thesis using p(1) by (simp add: parse_tokens_def)
qed

subsection \<open>The parser returns printable queries\<close>

definition token_ok :: "token \<Rightarrow> bool" where
  "token_ok t = (if tk_quoted t then ValidString (tk_text t) else tk_text t \<in> set operators \<or> word_text (tk_text t) \<or> tk_text t = [])"

lemma ascii_valid: "list_all ascii w \<Longrightarrow> ValidString w"
  using ValidString_ascii [of w "[]"] by simp

lemma token_valid: "token_ok t \<Longrightarrow> ValidString (tk_text t)"
  using lexable_ascii [of t] ascii_valid [of "tk_text t"] by (cases "tk_quoted t"; cases "tk_text t = []") (auto simp: token_ok_def lexable_def)

lemma lower_word: "word_char c \<Longrightarrow> word_char (lower_char c) \<and> lower_char (lower_char c) = lower_char c \<and> (is_operator (lower_char c) \<longrightarrow> is_operator c)"
proof (cases "char_between CHR ''A'' CHR ''Z'' c")
  case True
  define k where "k = (of_char c :: nat)"
  have k: "65 \<le> k" "k \<le> 90" using True by (simp_all add: char_between_def less_eq_char_def k_def)
  have low: "lower_char c = char_of (k + 32)" using True by (simp only: lower_char_def if_True k_def)
  have "of_char (char_of (k + 32) :: char) = k + 32" unfolding of_char_of using k by simp
  then have o: "(of_char (lower_char c) :: nat) = k + 32" unfolding low .
  have b: "char_between CHR ''a'' CHR ''z'' (lower_char c)" "\<not> char_between CHR ''A'' CHR ''Z'' (lower_char c)"
    unfolding char_between_def less_eq_char_def o using k by simp_all
  have "lower_char c \<noteq> d" if "(of_char d :: nat) < 97" for d using o k that by auto
  then have "\<not> is_operator (lower_char c)" using o k by (auto simp: is_operator_def)
  then show ?thesis using b by (auto simp: word_char_def lower_char_def [of "lower_char c"])
next
  case False
  assume "word_char c"
  then show ?thesis using False by (simp only: lower_char_def if_False) simp
qed

lemma canonical_ok:
  assumes "w \<in> set operators \<or> word_text w"
  shows "bare_ok (canonical w)"
proof (cases "w \<in> set operators")
  case True
  then show ?thesis using keywords_canonical by (auto simp: bare_ok_def list_all_iff)
next
  case False
  then have w: "word_text w" "list_all word_char w" using assms by (auto simp: word_text_def)
  note tl = ToLower_word [OF w(2)]
  have m: "list_all word_char (map lower_char w)" "map lower_char (map lower_char w) = map lower_char w"
    using w(2) lower_word by (auto simp: list_all_iff)
  have ne: "w \<noteq> []" "\<not> is_operator (hd w)" "word_char (hd w)" using w by (auto simp: word_text_def list_all_iff)
  have "\<not> is_operator (hd (map lower_char w))" unfolding hd_map [OF ne(1)] using lower_word [OF ne(3)] ne(2) by blast
  then have "word_text (map lower_char w)" using m(1) ne(1) unfolding word_text_def by simp
  then have low: "word_text (ToLower w)" unfolding tl .
  have "ToLower (ToLower w) = ToLower w" unfolding tl ToLower_word [OF m(1)] by (rule m(2))
  then have idem: "canonical (ToLower w) = canonical w" by (simp only: canonical_def)
  have kw: "word_text ''me''" "word_text ''null''" "canonical ''me'' = ''me''" "canonical ''null'' = ''null''" by code_simp+
  show ?thesis using canonical_cases [of w]
  proof
    assume "canonical w = ToLower w"
    then show ?thesis using low idem by (simp add: bare_ok_def)
  next
    assume "canonical w \<in> {''me'', ''null''}"
    then consider "canonical w = ''me''" | "canonical w = ''null''" by blast
    then show ?thesis by cases (simp_all only: bare_ok_def kw simp_thms)
  qed
qed

lemma peek_ok: "list_all token_ok ts \<Longrightarrow> ts \<noteq> [] \<Longrightarrow> token_ok (peek ts p)"
  by (auto simp: peek_def list_all_iff)

lemma number_operator: "w \<in> set operators \<Longrightarrow> \<not> ParseFloat_ok w"
proof -
  have "list_all (\<lambda>w. \<not> ParseFloat_ok w) operators" by code_simp
  then show "w \<in> set operators \<Longrightarrow> \<not> ParseFloat_ok w" by (simp add: list_all_iff)
qed

lemma parse_function_ok:
  assumes "parse_function ts p name = Inr (v, p')" "name = ''me'' \<or> name = ''now''"
  shows "print_ok v"
proof -
  have zero: "duration ''0d'' = Some 0" by code_simp
  consider (plain) "v = \<lparr>va_Literal = LNil, va_Function = name, va_Offset = 0\<rparr>"
    | (offset) s o' x where "name = ''now''" "duration s = Some o'" "v = \<lparr>va_Literal = LNil, va_Function = name, va_Offset = x\<rparr>" "x = o' \<or> x = - o'"
    using assms(1) by (auto simp: parse_function_def Let_def result_simps split: if_splits option.splits)
  then show ?thesis
  proof cases
    case plain
    then show ?thesis using assms(2) zero by (auto simp: print_ok_def)
  next
    case offset
    then show ?thesis using duration_bound [OF offset(2)] by (auto simp: print_ok_def)
  qed
qed

lemma parse_value_print_ok:
  assumes "parse_value ts p = Inr (v, p')" "list_all token_ok ts" "ts \<noteq> []"
  shows "print_ok v"
proof -
  define t where "t = peek ts p"
  note tok = peek_ok [OF assms(2,3)]
  have valid: "ValidString (tk_text (peek ts k))" for k using token_valid tok by blast
  note def = assms(1) [unfolded parse_value_def Let_def]
  have ne: "tk_text t \<noteq> []" using def unfolding t_def by (auto split: if_splits)
  show ?thesis
  proof (cases "tk_quoted t")
    case True
    then show ?thesis using def ne valid unfolding t_def by (auto simp: print_ok_def)
  next
    case False
    then have w: "tk_text t \<in> set operators \<or> word_text (tk_text t)" using tok [of p] ne by (auto simp: token_ok_def t_def)
    consider (fn) "canonical (tk_text t) = ''me'' \<or> canonical (tk_text t) = ''now''" "parse_function ts (p + 1) (canonical (tk_text t)) = Inr (v, p')"
      | (simple) b where "v = lit LNil \<or> v = lit (LBool b)" | (str) "v = lit (LString (tk_text t))"
      | (neg) "v = lit (LNumber (''-'' @ tk_text (peek ts (p + 1))))" "ParseFloat_ok (''-'' @ tk_text (peek ts (p + 1)))"
      | (num) "v = lit (LNumber (tk_text t))" "ParseFloat_ok (tk_text t)"
          "canonical (tk_text t) \<notin> {''startofsprint'', ''endofsprint'', ''me'', ''now'', ''null'', ''true'', ''false''}"
      using def ne False unfolding t_def by (simp split: if_splits) blast+
    then show ?thesis
    proof cases
      case fn
      then show ?thesis using parse_function_ok by blast
    next
      case neg
      then show ?thesis using valid by (simp add: print_ok_def)
    next
      case num
      have "word_text (tk_text t)" using w num(2) number_operator by blast
      moreover from this have "hd (tk_text t) \<noteq> CHR ''-''" by (auto simp: word_text_def is_operator_def)
      ultimately show ?thesis using num by (simp add: print_ok_def)
    qed (use valid [of p] ne t_def in \<open>auto simp: print_ok_def\<close>)
  qed
qed

lemma parse_list_print_ok:
  "parse_list k ts p = Inr (vs, p') \<Longrightarrow> list_all token_ok ts \<Longrightarrow> ts \<noteq> [] \<Longrightarrow> list_all print_ok vs"
proof (induction k arbitrary: p vs)
  case (Suc k)
  then show ?case by (auto simp: result_simps split: if_splits dest: parse_value_print_ok)
qed (auto simp: result_simps)

lemma comparison_print_ok:
  assumes "comparison ts p = Inr (e, p')" "list_all token_ok ts" "ts \<noteq> []" "\<not> is_tok ts p ''not''" "\<not> is_tok ts p ''(''"
  shows "\<exists>op field vals. e = Cmp op field vals \<and> cmp_ok op field vals"
proof -
  define field where "field = canonical (tk_text (peek ts p))"
  obtain op p1 where op: "parse_operator ts (p + 2) (canonical (tk_text (peek ts (p + 1)))) = Inr (op, p1)"
    and f: "field \<noteq> []" "\<not> tk_quoted (peek ts p)" "field \<noteq> ''descendants''" "field \<noteq> ''ancestors''"
    using assms(1) by (auto simp: comparison_def Let_def result_simps field_def split: if_splits)
  have "tk_text (peek ts p) \<in> set operators \<or> word_text (tk_text (peek ts p))"
    using peek_ok [OF assms(2,3), of p] f(1,2) by (auto simp: token_ok_def field_def)
  then have b: "bare_ok field" unfolding field_def by (rule canonical_ok)
  have ops: "op \<in> set comparison_ops" using parse_operator_ok(2) [OF op] by auto
  have nf: "field \<noteq> ''not''" "field \<noteq> ''(''" using assms(4,5) f(2) by (auto simp: is_tok_def field_def)
  show ?thesis
  proof (cases "op = ''in'' \<or> op = ''not in''")
    case True
    then obtain vs p3 where vs: "parse_list 200 ts (p1 + 1) = Inr (vs, p3)" "e = Cmp op field vs"
      using assms(1) op f by (auto simp: comparison_def Let_def result_simps field_def split: if_splits)
    then show ?thesis using parse_list_ok(2) [OF vs(1)] parse_list_print_ok [OF vs(1) assms(2,3)] ops b f nf True
      by (auto simp: cmp_ok_def)
  next
    case False
    then obtain v p3 where v: "parse_value ts p1 = Inr (v, p3)" "e = Cmp op field [v]"
      using assms(1) op f by (auto simp: comparison_def Let_def result_simps field_def split: if_splits)
    then show ?thesis using parse_value_print_ok [OF v(1) assms(2,3)] ops b f nf False by (auto simp: cmp_ok_def)
  qed
qed

text \<open>
  The loops keep printability: joining operands of one level gives an expression of that level.
\<close>

lemma chain_keeps:
  assumes "\<And>p e p'. operand p = Inr (e, p') \<Longrightarrow> Q e" "\<And>l r. P l \<Longrightarrow> Q r \<Longrightarrow> P (Expr joint [] [] (Some l) (Some r))"
  shows "chain n joint operand ts left p = Inr (e, p') \<Longrightarrow> P left \<Longrightarrow> P e"
proof (induction n arbitrary: left p)
  case (Suc n)
  then show ?case using assms by (auto simp: result_simps split: if_splits)
qed simp

lemma operands_keep:
  assumes "\<And>p e p'. operand p = Inr (e, p') \<Longrightarrow> Q e" "\<And>e. Q e \<Longrightarrow> P e"
    "\<And>l r. P l \<Longrightarrow> Q r \<Longrightarrow> P (Expr joint [] [] (Some l) (Some r))" "operands joint operand ts p = Inr (e, p')"
  shows "P e"
proof -
  obtain left p1 where l: "operand p = Inr (left, p1)" "chain (Suc (length ts)) joint operand ts left p1 = Inr (e, p')"
    using assms(4) by (auto simp: operands_def result_simps simp del: chain.simps)
  show ?thesis by (rule chain_keeps [of operand Q P, OF assms(1,3) l(2)]) (use assms(1,2) l(1) in blast)+
qed

lemma fits_down:
  assumes "fits d lvl e" "lvl' \<le> lvl"
  shows "fits d lvl' e"
  using assms
proof cases
  case (disj l r)
  then show ?thesis using assms by simp
next
  case (conj l r)
  then show ?thesis using assms(2) fits.conj by simp
next
  case (or_paren d l r)
  then show ?thesis using fits_paren by blast
next
  case (and_paren d l r)
  then show ?thesis using fits_paren by blast
qed (auto intro: fits.neg fits.cmp)

lemma parse_or_fits:
  assumes "\<And>p e p'. unary d ts p = Inr (e, p') \<Longrightarrow> fits d 2 e" "parse_or (unary d ts) ts p = Inr (e, p')"
  shows "fits d 0 e"
proof -
  have "fits d 1 e" if "operands ''and'' (unary d ts) ts p = Inr (e, p')" for p e p'
    by (rule operands_keep [of "unary d ts" "fits d 2" "fits d 1", OF assms(1) fits_down fits.conj that]) auto
  then show ?thesis
    by (rule operands_keep [of "operands ''and'' (unary d ts) ts" "fits d 1" "fits d 0", OF _ fits_down fits.disj assms(2) [unfolded parse_or_def]]) auto
qed

lemma unary_fits:
  assumes "list_all token_ok ts" "ts \<noteq> []" "unary d ts p = Inr (e, p')"
  shows "fits d 2 e"
  using assms(3)
proof (induction d arbitrary: p e p')
  case (Suc d)
  consider (neg) x where "unary d ts (p + 1) = Inr (x, p')" "e = Neg x"
    | (paren) p1 where "parse_or (unary d ts) ts (p + 1) = Inr (e, p1)"
    | (cmp) "comparison ts p = Inr (e, p')" "\<not> is_tok ts p ''not''" "\<not> is_tok ts p ''(''"
    using Suc.prems by (auto simp: result_simps split: if_splits)
  then show ?case
  proof cases
    case neg
    then show ?thesis using Suc.IH fits.neg by blast
  next
    case paren
    have "fits d 0 e" by (rule parse_or_fits [OF _ paren]) (rule Suc.IH)
    then show ?thesis by (rule fits_paren)
  next
    case cmp
    then show ?thesis using comparison_print_ok [OF cmp(1) assms(1,2) cmp(2,3)] fits.cmp by blast
  qed
qed simp

lemma parse_tokens_query_ok:
  assumes "parse_tokens ts = Inr q" "list_all token_ok ts" "ts \<noteq> []"
  shows "query_ok q"
proof -
  obtain x p f desc p1 where f: "parse_filter ts = Inr (x, p)" "parse_order ts p = Inr ((f, desc), p1)" "q = \<lparr>qu_Expr = x, qu_Order = f, qu_Desc = desc\<rparr>"
    using assms(1) by (auto simp: parse_tokens_def result_simps split: if_splits)
  have x: "case x of None \<Rightarrow> True | Some e \<Rightarrow> fits 64 0 e"
    using f(1) parse_or_fits [OF unary_fits [OF assms(2,3)]] by (auto simp: parse_filter_def result_simps split: if_splits)
  have "bare_ok f"
  proof (cases "is_tok ts p ''order''")
    case True
    then have "f = canonical (tk_text (peek ts (p + 2)))" "f \<noteq> []" "\<not> tk_quoted (peek ts (p + 2))"
      using f(2) by (auto simp: parse_order_def Let_def result_simps split: if_splits)
    then show ?thesis using canonical_ok peek_ok [OF assms(2,3), of "p + 2"] by (auto simp: token_ok_def)
  next
    case False
    have "bare_ok ''id''" by code_simp
    then show ?thesis using False f(2) by (auto simp: parse_order_def)
  qed
  then show ?thesis using x f(3) by (simp add: query_ok_def)
qed

subsection \<open>The lexer returns valid texts\<close>

lemma lex_string_high:
  "list_all (\<lambda>c. 128 \<le> (of_char c :: nat)) us \<Longrightarrow> ascii q \<Longrightarrow>
   lex_string q start i (us @ cs) = rbind (lex_string q start (i + length us) cs) (\<lambda>(v, j, rest). Inr (us @ v, j, rest))"
proof (induction us arbitrary: i)
  case Nil
  then show ?case by (cases "lex_string q start i cs") auto
next
  case (Cons u us)
  have "u \<noteq> q" "u \<noteq> CHR 0x5C" using Cons.prems by (auto simp: ascii_def)
  then show ?case using Cons by (cases "lex_string q start (i + 1 + length us) cs") (auto simp: ac_simps)
qed

lemma ValidString_Cons:
  assumes "ValidString (c # cs)"
  obtains "ascii c" "ValidString cs"
  | us vs where "cs = us @ vs" "list_all (\<lambda>d. 128 \<le> (of_char d :: nat)) (c # us)" "ValidString vs" "\<And>r. ValidString r \<Longrightarrow> ValidString (c # us @ r)"
proof -
  obtain n lo hi where f: "utf8_first (of_char c) = Some (n, lo, hi)" using assms by (auto split: option.splits)
  have v: "n \<le> length (c # cs)" "n = 1 \<or> lo \<le> of_char (hd cs) \<and> (of_char (hd cs) :: nat) \<le> hi"
    "list_all (\<lambda>d. 128 \<le> (of_char d :: nat) \<and> (of_char d :: nat) \<le> 191) (take (n - 1) cs)" "ValidString (drop (n - 1) cs)"
    using assms f by auto
  show ?thesis
  proof (cases "n = 1")
    case True
    then show ?thesis using that(1) v(4) utf8_first_size [OF f] by (simp add: ascii_def)
  next
    case False
    have len: "length (take (n - 1) cs) = n - 1" "hd (take (n - 1) cs @ x) = hd cs" for x
      using v(1) False utf8_first_size [OF f] by (auto simp: hd_append)
    have "ValidString (c # take (n - 1) cs @ r)" if "ValidString r" for r
      using that v f len False utf8_first_size [OF f] by simp
    moreover have "128 \<le> (of_char c :: nat)" using utf8_first_size [OF f] False by simp
    ultimately show ?thesis using that(2) [of "take (n - 1) cs" "drop (n - 1) cs"] v(3,4) by (auto simp: list_all_iff)
  qed
qed

lemma ValidString_ascii_Cons: "ascii c \<Longrightarrow> ValidString (c # cs) = ValidString cs"
  using ValidString_ascii [of "[c]" cs] by simp

declare ValidString.simps(2) [simp del]

lemma unescape_ascii: "unescape e = Some d \<Longrightarrow> ascii e \<and> ascii d"
  by (auto simp: unescape_def ascii_def split: if_splits)

lemma lex_string_Inr:
  assumes "lex_string q start i (c # ds) = Inr (v, j, rest)"
  obtains (close) "c = q" "v = []" "rest = ds"
  | (escape) e es d w where "ds = e # es" "unescape e = Some d" "lex_string q start (i + 2) es = Inr (w, j, rest)" "v = d # w"
  | (plain) w where "lex_string q start (i + 1) ds = Inr (w, j, rest)" "v = c # w"
proof -
  note step = assms [unfolded lex_string.simps(2)]
  show ?thesis
  proof (cases "c = q")
    case True
    then show ?thesis using step close by simp
  next
    case cq: False
    show ?thesis
    proof (cases "c = CHR 0x5C")
      case True
      then obtain e es where e: "ds = e # es" using step cq by (cases ds) auto
      then obtain d where d: "unescape e = Some d" using step cq True by (cases "unescape e") auto
      then show ?thesis using step cq True e escape [OF e d] by (auto simp: result_simps simp del: lex_string.simps)
    next
      case False
      then show ?thesis using step cq plain by (auto simp: result_simps simp del: lex_string.simps)
    qed
  qed
qed

lemma lex_string_valid:
  "lex_string q start i cs = Inr (v, j, rest) \<Longrightarrow> ValidString cs \<Longrightarrow> ascii q \<Longrightarrow> ValidString v \<and> ValidString rest"
proof (induction cs arbitrary: i v rule: length_induct)
  case (1 cs)
  have IH: "ValidString w \<and> ValidString rest" if "length ys < length cs" "lex_string q start k ys = Inr (w, j, rest)" "ValidString ys" for ys k w
    using 1(1,4) that by blast
  show ?case
  proof (cases cs)
    case Nil
    then show ?thesis using 1(2) by simp
  next
    case (Cons c ds)
    from 1(3) [unfolded Cons] show ?thesis
    proof (rule ValidString_Cons)
      assume c: "ascii c" "ValidString ds"
      from 1(2) [unfolded Cons] show ?thesis
      proof (cases rule: lex_string_Inr)
        case close
        then show ?thesis using c by simp
      next
        case (escape e es d w)
        note e = unescape_ascii [OF escape(2)]
        have "ValidString es" using c(2) e unfolding escape(1) by (simp add: ValidString_ascii_Cons)
        then have "ValidString w \<and> ValidString rest" using IH [of es "i + 2" w] escape(1,3) Cons by simp
        then show ?thesis using e escape(4) by (simp only: ValidString_ascii_Cons)
      next
        case (plain w)
        then have "ValidString w \<and> ValidString rest" using IH [of ds "i + 1" w] c(2) Cons by simp
        then show ?thesis using c(1) plain(2) by (simp only: ValidString_ascii_Cons)
      qed
    next
      fix us vs
      assume u: "ds = us @ vs" "list_all (\<lambda>d. 128 \<le> (of_char d :: nat)) (c # us)" "ValidString vs" "\<And>r. ValidString r \<Longrightarrow> ValidString (c # us @ r)"
      obtain w where w: "lex_string q start (i + length (c # us)) vs = Inr (w, j, rest)" "v = (c # us) @ w"
        using trans [OF lex_string_high [OF u(2) 1(4), of start i vs, symmetric] 1(2) [unfolded Cons u(1) append_Cons [symmetric]]]
        by (auto simp: result_simps simp del: lex_string.simps)
      have "ValidString w \<and> ValidString rest" using IH [OF _ w(1) u(3)] u(1) Cons by simp
      then show ?thesis using u(4) w(2) by simp
    qed
  qed
qed

lemma lex_loop_valid:
  "lex_loop n i s = Inr ts \<Longrightarrow> ValidString s \<Longrightarrow> list_all (\<lambda>t. tk_quoted t \<longrightarrow> ValidString (tk_text t)) ts"
proof (induction n i s arbitrary: ts rule: lex_loop.induct)
  case (2 n i c cs)
  note step = 2(5) [unfolded lex_loop.simps(2)]
  consider (space) "is_space c" | (quote) "\<not> is_space c" "is_quote c"
    | (op) "\<not> is_space c" "\<not> is_quote c" "is_operator c" | (word) "\<not> is_space c" "\<not> is_quote c" "\<not> is_operator c" by blast
  then show ?case
  proof cases
    case space
    then have "ascii c" by (auto simp: is_space_def ascii_def)
    then show ?thesis using 2(1) [OF space] step space 2(6) by (simp add: ValidString_ascii_Cons del: lex_loop.simps)
  next
    case quote
    then have c: "ascii c" by (auto simp: is_quote_def ascii_def)
    obtain v j rest us where v: "lex_string c i (i + 1) cs = Inr (v, j, rest)" "lex_loop (n + 1) j rest = Inr us"
      "ts = \<lparr>tk_text = v, tk_quoted = True, tk_pos = i\<rparr> # us"
      using step quote by (auto simp: result_simps simp del: lex_loop.simps)
    have "ValidString v \<and> ValidString rest" using lex_string_valid [OF v(1) _ c] 2(6) c by (simp add: ValidString_ascii_Cons)
    then show ?thesis using 2(2) [OF quote v(1) refl refl v(2)] v(3) by simp
  next
    case op
    define k where "k = (if cs \<noteq> [] \<and> hd cs = CHR ''='' \<and> c \<in> set ''<>!'' then 1 else 0 :: nat)"
    have asc: "ascii c" using op by (auto simp: is_operator_def ascii_def)
    obtain t us where us: "lex_loop (n + 1) (i + (k + 1)) (drop k cs) = Inr us" "ts = t # us" "\<not> tk_quoted t"
      using step op by (auto simp: Let_def result_simps k_def simp del: lex_loop.simps split: if_splits)
    have "ValidString cs" using 2(6) asc by (simp add: ValidString_ascii_Cons)
    then have "ValidString (drop k cs)"
      by (cases cs) (auto simp: k_def ValidString_ascii_Cons ascii_def)
    then show ?thesis using 2(3) [OF op refl refl] us op step by (auto simp: Let_def result_simps k_def simp del: lex_loop.simps split: if_splits)
  next
    case word
    define w where "w = takeWhile word_char (c # cs)"
    obtain us where us: "lex_loop (n + 1) (i + length w) (drop (length w - 1) cs) = Inr us" "ts = \<lparr>tk_text = w, tk_quoted = False, tk_pos = i\<rparr> # us" "w \<noteq> []" "\<not> 1024 < n + 1"
      using step word by (auto simp: Let_def result_simps w_def simp del: lex_loop.simps takeWhile.simps split: if_splits)
    have "list_all ascii w" using lexable_ascii [of "\<lparr>tk_text = w, tk_quoted = False, tk_pos = 0\<rparr>"] word us(3)
      by (auto simp: lexable_def word_text_def w_def list_all_iff dest: set_takeWhileD split: if_splits)
    moreover have "c # cs = w @ drop (length w - 1) cs"
      using us(3) takeWhile_dropWhile_id [of word_char "c # cs"] dropWhile_eq_drop [of word_char "c # cs"] unfolding w_def
      by (cases "takeWhile word_char (c # cs)") (auto split: if_splits)
    ultimately have "ValidString (drop (length w - 1) cs)" using 2(6) ValidString_ascii by metis
    then show ?thesis using 2(4) [OF word w_def us(3,4) us(1)] us(2) by simp
  qed
qed simp

lemma lex_tokens_ok:
  assumes "lex input = Inr ts"
  shows "list_all token_ok ts" "ts \<noteq> []"
proof -
  obtain us where us: "lex_loop 0 0 input = Inr us" "ValidString input" "ts = us @ [\<lparr>tk_text = [], tk_quoted = False, tk_pos = length input\<rparr>]"
    using assms by (auto simp: lex_def result_simps split: if_splits)
  show "ts \<noteq> []" using us(3) by simp
  show "list_all token_ok ts" using lex_loop_tokens [OF us(1)] lex_loop_valid [OF us(1,2)] us(3)
    by (auto simp: list_all_iff token_ok_def token_in_def lexable_def)
qed

subsection \<open>Printed tokens can be lexed\<close>

lemma bare_lexable: "bare_ok w \<Longrightarrow> lexable (print_token (word w))"
  by (simp add: bare_ok_def lexable_def print_token_def)

definition lex_word :: "string \<Rightarrow> bool" where
  "lex_word w = (w \<in> set operators \<or> word_text w)"

definition written :: "btok list \<Rightarrow> bool" where
  "written bs = list_all (\<lambda>b. lexable (print_token b) \<and> (snd b \<longrightarrow> ValidString (fst b))) bs"

lemma written_simps [simp]:
  "written []" "written ((w, True) # bs) \<longleftrightarrow> ValidString w \<and> written bs"
  "written (word w # bs) \<longleftrightarrow> lex_word w \<and> written bs" "written (as @ bs) \<longleftrightarrow> written as \<and> written bs"
  by (auto simp: written_def lexable_def lex_word_def print_token_def)

lemma keyword_written [simp]:
  "lex_word ''and''" "lex_word ''or''" "lex_word ''not''" "lex_word ''order''" "lex_word ''by''" "lex_word ''desc''"
  "lex_word ''null''" "lex_word ''true''" "lex_word ''false''" "lex_word ''me''" "lex_word ''now''"
  "lex_word ''(''" "lex_word '')''" "lex_word '',''" "lex_word ''+''" "lex_word ''-''"
  by code_simp+

lemma lex_word_word: "word_text w \<Longrightarrow> lex_word w"
  by (simp add: lex_word_def)

lemma print_value_written:
  assumes "print_ok v"
  shows "written (print_value v)"
proof (cases "va_Function v = []")
  case False
  then obtain s where "va_Function v = ''me'' \<or> va_Function v = ''now''" "duration s = Some \<bar>va_Offset v\<bar>" using assms by (auto simp: print_ok_def)
  then show ?thesis using False duration_print(2) by (elim disjE) (simp_all add: print_value_def lex_word_def [of "print_duration _"])
next
  case True
  then show ?thesis using assms 
    by (auto simp: print_value_def print_ok_def lex_word_word split: literal.splits if_splits)
qed

lemma print_list_written: "list_all print_ok vs \<Longrightarrow> written (print_list vs)"
  by (induction vs rule: print_list.induct) (simp_all add: print_value_written)

lemma print_cmp_written:
  assumes "cmp_ok op field vals"
  shows "written (print_cmp op field vals)"
proof -
  have "list_all (\<lambda>op. written (print_op op)) comparison_ops" by code_simp
  then have "written (print_op op)" using assms by (simp add: cmp_ok_def list_all_iff)
  moreover have "print_ok (hd vals)" using assms by (cases vals) (auto simp: cmp_ok_def)
  moreover have "lex_word field" "list_all print_ok vals" using assms by (auto simp: cmp_ok_def bare_ok_def lex_word_def)
  ultimately show ?thesis by (simp add: print_cmp_def print_value_written print_list_written)
qed

lemma print_expr_written: "fits d lvl e \<Longrightarrow> written (print_expr b lvl e)"
proof (induction arbitrary: b rule: fits.induct)
  case (disj d l r)
  then show ?case unfolding print_Or(1) by simp
next
  case (conj d l r lvl)
  then show ?case unfolding print_And(1) [OF conj.hyps(3)] by simp
next
  case (or_paren d l r lvl)
  then show ?case unfolding print_Or(2) [OF or_paren.hyps(2)] by (simp del: print_expr.simps)
next
  case (and_paren d l r lvl)
  then show ?case unfolding print_And(2) [OF and_paren.hyps(2)] by (simp del: print_expr.simps)
next
  case (neg d l lvl)
  then show ?case unfolding print_Neg by simp
next
  case (cmp op field vals d lvl)
  then show ?case unfolding print_Cmp [OF cmp] using print_cmp_written [OF cmp]
    by (cases "b \<and> field = ''order''") (simp_all only: if_True if_False written_simps keyword_written simp_thms)
qed

lemma print_query_written: "query_ok q \<Longrightarrow> written (print_query q)"
  by (auto simp: query_ok_def print_query_def bare_ok_def lex_word_def [of "qu_Order q"] print_expr_written split: option.splits simp del: print_expr.simps)

lemma lex_show_written:
  assumes "written bs" "length bs \<le> 1024" "length (show_tokens (map print_token bs)) \<le> 4096"
  shows "\<exists>us. lex (show_tokens (map print_token bs)) = Inr us \<and> follows us 0 (bs @ [word []])"
proof -
  have l: "list_all lexable (map print_token bs)" "list_all (\<lambda>t. lexable t \<and> (tk_quoted t \<longrightarrow> ValidString (tk_text t))) (map print_token bs)"
    using assms(1) by (auto simp: written_def list_all_iff print_token_def)
  then obtain us where us: "lex_loop 0 0 (show_tokens (map print_token bs)) = Inr us" "map bare us = map bare (map print_token bs)"
    using lex_loop_show [of "map print_token bs" 0 0] assms(2) by auto
  have "map bare (map print_token bs) = bs" by (simp add: bare_def print_token_def comp_def)
  then show ?thesis using us assms(3) ValidString_show [OF l(2)] by (simp add: lex_def follows_def) (simp add: bare_def)
qed

subsection \<open>Properties\<close>

text \<open>
  C30.  Parsing inverts printing: every query that the parser returns, printed with the fewest
  parentheses the grammar allows, parses back to exactly that query, as long as the printed text
  keeps within the lexer's limits.  So the parser loses nothing of a query, its precedences and
  its left association are those of the printer, and the nesting limit never refuses the printed
  form of a query it accepted.
\<close>

theorem Parse_Print:
  assumes "Parse input = Inr q" "length (Print q) \<le> 4096" "length (print_query q) \<le> 1024"
  shows "Parse (Print q) = Inr q"
proof -
  obtain ts where ts: "lex input = Inr ts" "parse_tokens ts = Inr q" using assms(1) by (auto simp: Parse_def result_simps)
  have q: "query_ok q" by (rule parse_tokens_query_ok [OF ts(2) lex_tokens_ok [OF ts(1)]])
  obtain us where us: "lex (Print q) = Inr us" "follows us 0 (print_query q @ [word []])"
    using lex_show_written [OF print_query_written [OF q] assms(3)] assms(2) unfolding Print_def by blast
  then show ?thesis using parse_tokens_print [OF q us(2)] by (simp add: Parse_def)
qed

definition demo_text :: string where
  "demo_text = ''(a = 1 or B in (x, -2)) and not due <= now() - 36h order by Rank desc''"

definition demo_printed :: string where
  "demo_printed = ''( a = 1 or b in ( '' @ quote_text ''x'' @ '' , - '' @ quote_text ''2'' @ '' ) ) and not due <= now ( ) - 36h order by rank desc ''"

theorem Parse_Print_witness:
  "\<exists>q. Parse demo_text = Inr q \<and> Parse (Print q) = Inr q \<and>
     Print q = demo_printed"
proof -
  have e: "(case Parse demo_text of Inl _ \<Rightarrow> False | Inr q \<Rightarrow> length (Print q) \<le> 4096 \<and> length (print_query q) \<le> 1024 \<and>
      Print q = demo_printed)"
    by code_simp
  show ?thesis
  proof (cases "Parse demo_text")
    case (Inl err)
    then show ?thesis using e by (simp only: sum.case)
  next
    case (Inr q)
    have q: "length (Print q) \<le> 4096 \<and> length (print_query q) \<le> 1024 \<and> Print q = demo_printed" using e unfolding Inr sum.case .
    show ?thesis using Parse_Print [OF Inr] q Inr by blast
  qed
qed

end
