(* ===== verification/Sx_Sql.thy ===== *)
theory Sx_Sql
  imports Sx_Values
begin

text \<open>
  SQL texts that are put together from fixed fragments and numbered parameters: what it means
  that no input is concatenated into a statement.
\<close>

text \<open>The parameters are numbered from \<open>lo\<close> up to, not including, \<open>hi\<close>.\<close>

inductive spliced :: "string list \<Rightarrow> int \<Rightarrow> int \<Rightarrow> string \<Rightarrow> bool" for frags lo hi where
  empty: "spliced frags lo hi []"
| fragment: "f \<in> set frags \<Longrightarrow> spliced frags lo hi s \<Longrightarrow> spliced frags lo hi (f @ s)"
| parameter: "lo \<le> n \<Longrightarrow> n < hi \<Longrightarrow> spliced frags lo hi s \<Longrightarrow> spliced frags lo hi (CHR ''$'' # itoa n @ s)"

lemma spliced_append: "spliced frags lo hi s \<Longrightarrow> spliced frags lo hi t \<Longrightarrow> spliced frags lo hi (s @ t)"
  by (induction rule: spliced.induct) (auto intro: spliced.intros)

lemma spliced_mono: "spliced frags lo hi s \<Longrightarrow> hi \<le> hi' \<Longrightarrow> spliced frags lo hi' s"
  by (induction rule: spliced.induct) (auto intro: spliced.intros)

lemma spliced_fragment: "f \<in> set frags \<Longrightarrow> spliced frags lo hi f"
  using spliced.fragment [OF _ spliced.empty] by fastforce

lemma spliced_parameter: "lo \<le> n \<Longrightarrow> n < hi \<Longrightarrow> spliced frags lo hi (CHR ''$'' # itoa n)"
  using spliced.parameter [OF _ _ spliced.empty] by fastforce

text \<open>\<open>strings.Join\<close>\<close>

definition join_with :: "string \<Rightarrow> string list \<Rightarrow> string" where
  "join_with sep ps = concat (case ps of [] \<Rightarrow> [] | q # qs \<Rightarrow> q # map (\<lambda>s. sep @ s) qs)"

lemma spliced_join:
  assumes "sep \<in> set frags" "list_all (spliced frags lo hi) ps"
  shows "spliced frags lo hi (join_with sep ps)"
proof -
  have tl: "spliced frags lo hi (concat (map (\<lambda>s. sep @ s) qs))" if "list_all (spliced frags lo hi) qs" for qs
    using that
  proof (induction qs)
    case (Cons q qs)
    then show ?case using spliced_append [OF spliced_append [OF spliced_fragment [OF assms(1)], of lo hi q]] by simp
  qed (simp add: spliced.empty)
  show ?thesis
    using assms(2) tl by (cases ps) (auto simp: join_with_def spliced.empty intro: spliced_append)
qed

end
