(* ===== verification/Sx_Distance.thy ===== *)
theory Sx_Distance
  imports Main
begin

text \<open>
  The edit distance, as the specification of the two routines that suggest a field name, and the
  table whose rows they compute.
\<close>

text \<open>
  The reference: \<open>edits n a b\<close> turns \<open>a\<close> into \<open>b\<close> with \<open>n\<close> deletions, insertions and
  replacements of single elements.
\<close>

inductive edits :: "nat \<Rightarrow> 'a list \<Rightarrow> 'a list \<Rightarrow> bool" where
  start: "edits 0 [] []"
| delete: "edits n xs ys \<Longrightarrow> edits (n + 1) (xs @ [x]) ys"
| insert: "edits n xs ys \<Longrightarrow> edits (n + 1) xs (ys @ [y])"
| keep: "edits n xs ys \<Longrightarrow> edits (n + (if x = y then 0 else 1)) (xs @ [x]) (ys @ [y])"

text \<open>The table the loops fill, by its recurrence.\<close>

fun table :: "'a list \<Rightarrow> 'a list \<Rightarrow> nat \<Rightarrow> nat \<Rightarrow> nat" where
  "table a b 0 j = j"
| "table a b (Suc i) 0 = Suc i"
| "table a b (Suc i) (Suc j) =
     min (table a b (Suc i) j + 1) (min (table a b i (Suc j) + 1) (table a b i j + (if a ! i = b ! j then 0 else 1)))"

lemma upt_Cons: "j < n \<Longrightarrow> [j..<n] = j # [Suc j..<n]"
  by (rule upt_conv_Cons)

lemma table_steps:
  "table a b (Suc i) j \<le> table a b i j + 1" "table a b i (Suc j) \<le> table a b i j + 1"
  "table a b (Suc i) (Suc j) \<le> table a b i j + (if a ! i = b ! j then 0 else 1)"
proof -
  show "table a b (Suc i) j \<le> table a b i j + 1" by (cases j; cases i) auto
  show "table a b i (Suc j) \<le> table a b i j + 1" by (cases i) auto
  show "table a b (Suc i) (Suc j) \<le> table a b i j + (if a ! i = b ! j then 0 else 1)" by simp
qed

lemma table_append: "i \<le> length a \<Longrightarrow> j \<le> length b \<Longrightarrow> table (a @ xs) (b @ ys) i j = table a b i j"
  by (induction a b i j rule: table.induct) (auto simp: nth_append)

lemma table_edits: "i \<le> length a \<Longrightarrow> j \<le> length b \<Longrightarrow> edits (table a b i j) (take i a) (take j b)"
proof (induction a b i j rule: table.induct)
  case (1 a b j)
  have "j \<le> length b \<Longrightarrow> edits j [] (take j b)" for j
  proof (induction j)
    case (Suc j)
    then show ?case using edits.insert [of j "[]" "take j b" "b ! j"] by (simp add: take_Suc_conv_app_nth)
  qed (simp add: edits.start)
  then show ?case using 1 by simp
next
  case (2 a b i)
  have "i \<le> length a \<Longrightarrow> edits i (take i a) []" for i
  proof (induction i)
    case (Suc i)
    then show ?case using edits.delete [of i "take i a" "[]" "a ! i"] by (simp add: take_Suc_conv_app_nth)
  qed (simp add: edits.start)
  then show ?case using 2 by simp
next
  case (3 a b i j)
  have s: "take (Suc i) a = take i a @ [a ! i]" "take (Suc j) b = take j b @ [b ! j]" using 3 by (simp_all add: take_Suc_conv_app_nth)
  have e: "edits (table a b (Suc i) j + 1) (take (Suc i) a) (take (Suc j) b)"
    "edits (table a b i (Suc j) + 1) (take (Suc i) a) (take (Suc j) b)"
    "edits (table a b i j + (if a ! i = b ! j then 0 else 1)) (take (Suc i) a) (take (Suc j) b)"
    using 3 edits.insert [of "table a b (Suc i) j" "take (Suc i) a" "take j b" "b ! j"]
      edits.delete [of "table a b i (Suc j)" "take i a" "take (Suc j) b" "a ! i"]
      edits.keep [of "table a b i j" "take i a" "take j b" "a ! i" "b ! j"] s by simp_all
  have "table a b (Suc i) (Suc j) = table a b (Suc i) j + 1 \<or> table a b (Suc i) (Suc j) = table a b i (Suc j) + 1 \<or>
      table a b (Suc i) (Suc j) = table a b i j + (if a ! i = b ! j then 0 else 1)" by (simp add: min_def)
  then show ?case using e by metis
qed

lemma table_minimal: "edits n xs ys \<Longrightarrow> table xs ys (length xs) (length ys) \<le> n"
proof (induction rule: edits.induct)
  case (delete n xs ys x)
  then show ?case using table_steps(1) [of "xs @ [x]" ys "length xs" "length ys"] table_append [of "length xs" xs "length ys" ys "[x]" "[]"] by simp
next
  case (insert n xs ys y)
  then show ?case using table_steps(2) [of xs "ys @ [y]" "length xs" "length ys"] table_append [of "length xs" xs "length ys" ys "[]" "[y]"] by simp
next
  case (keep n xs ys x y)
  then show ?case using table_steps(3) [of "xs @ [x]" "ys @ [y]" "length xs" "length ys"]
      table_append [of "length xs" xs "length ys" ys "[x]" "[y]"] by simp
qed simp

end
