(* ===== verification/Sx_Query.thy ===== *)
theory Sx_Query
  imports Sx_Compile Sx_Roundtrip Sx_Sql Sx_Distance
begin

text \<open>
  What the compiler of the query language guarantees: its SQL is put together from a fixed list
  of fragments and numbered parameters, the texts of a query reach the database only as
  arguments, and the suggestions for a misspelt field are nearest ones.
\<close>

subsection \<open>SQL made of fragments and parameters\<close>

definition sql_fragments :: "string list" where
  "sql_fragments =
     [''TRUE'', ''('', '')'', '' AND '', '' OR '', ''(NOT '', ''CASE WHEN i.project_id IN ('', '') THEN '', '' ELSE NULL END'',
      ''(i.fields -> '', ''(i.fields ->> '', ''::text)'', ''::text)::'', ''text'', ''numeric'', ''boolean'', ''date'', ''uuid'', ''jsonb'',
      ''::uuid'', '','', '' IS NULL)'', '' IS NOT NULL)'', '' '', ''='', ''<>'', ''>'', ''>='', ''<'', ''<='', ''IN'', ''NOT IN'', '' ('', ''))'',
      ''::text::numeric'', ''::text::date'', ''::text::timestamptz'', ''::text::uuid'',
      ''to_tsvector('' @ [CHR 0x27] @ ''english'' @ [CHR 0x27] @ '',coalesce('',
      '','' @ [CHR 0x27, CHR 0x27] @ ''))'',
      '' @@ plainto_tsquery('' @ [CHR 0x27] @ ''english'' @ [CHR 0x27] @ '','']
     @ map (\<lambda>(name, sqlx, kind). sqlx) Fields"

lemma sql_frag:
  "''TRUE'' \<in> set sql_fragments"
  "''('' \<in> set sql_fragments"
  "'')'' \<in> set sql_fragments"
  "'' AND '' \<in> set sql_fragments"
  "'' OR '' \<in> set sql_fragments"
  "''(NOT '' \<in> set sql_fragments"
  "''CASE WHEN i.project_id IN ('' \<in> set sql_fragments"
  "'') THEN '' \<in> set sql_fragments"
  "'' ELSE NULL END'' \<in> set sql_fragments"
  "''(i.fields -> '' \<in> set sql_fragments"
  "''(i.fields ->> '' \<in> set sql_fragments"
  "''::text)'' \<in> set sql_fragments"
  "''::text)::'' \<in> set sql_fragments"
  "''::uuid'' \<in> set sql_fragments"
  "'','' \<in> set sql_fragments"
  "'' IS NULL)'' \<in> set sql_fragments"
  "'' IS NOT NULL)'' \<in> set sql_fragments"
  "'' '' \<in> set sql_fragments"
  "'' ('' \<in> set sql_fragments"
  "''))'' \<in> set sql_fragments"
  by (simp_all add: sql_fragments_def)

abbreviation safe_sql :: "int \<Rightarrow> int \<Rightarrow> string \<Rightarrow> bool" where
  "safe_sql \<equiv> spliced sql_fragments"

lemmas safe_append = spliced_append [of sql_fragments]
lemmas safe_mono = spliced_mono [of sql_fragments]
lemmas safe_fragment = spliced_fragment [of _ sql_fragments]

text \<open>A compilation step: it extends the arguments and emits SQL over the parameters so far.\<close>

definition emits :: "Options \<Rightarrow> arg list \<Rightarrow> string \<Rightarrow> arg list \<Rightarrow> bool" where
  "emits opts args t args' = (prefix args args' \<and> safe_sql (op_Start opts) (op_Start opts + int (length args')) t)"

lemma emits_fragment: "f \<in> set sql_fragments \<Longrightarrow> emits opts args f args"
  by (simp add: emits_def safe_fragment)

lemma emits_empty: "emits opts args [] args"
  by (simp add: emits_def spliced.empty)

lemma emits_append:
  assumes "emits opts args t args1" "emits opts args1 u args2"
  shows "emits opts args (t @ u) args2"
proof -
  have "length args1 \<le> length args2" using assms(2) by (simp add: emits_def prefix_length_le)
  then have "safe_sql (op_Start opts) (op_Start opts + int (length args2)) t"
    using assms(1) by (auto simp: emits_def intro: safe_mono)
  then show ?thesis using assms by (auto simp: emits_def intro: safe_append prefix_order.trans)
qed

lemma emits_param: "param opts args v = (t, args') \<Longrightarrow> emits opts args t args'"
proof -
  assume "param opts args v = (t, args')"
  then have t: "t = CHR ''$'' # itoa (op_Start opts + int (length args)) @ []" "args' = args @ [v]" by (auto simp: param_def)
  have "safe_sql (op_Start opts) (op_Start opts + int (length args')) t"
    unfolding t by (rule spliced.parameter) (auto simp: spliced.empty)
  then show ?thesis by (simp add: emits_def t)
qed


lemma emits_prefix: "emits opts args t args' \<Longrightarrow> prefix args args'"
  by (simp add: emits_def)

text \<open>A list of texts joined with commas.\<close>

definition emits_all :: "Options \<Rightarrow> arg list \<Rightarrow> string list \<Rightarrow> arg list \<Rightarrow> bool" where
  "emits_all opts args ts args' = (prefix args args' \<and>
     list_all (safe_sql (op_Start opts) (op_Start opts + int (length args'))) ts)"

lemma emits_extend:
  assumes "emits opts args t args1" "prefix args1 args2"
  shows "prefix args args2" "safe_sql (op_Start opts) (op_Start opts + int (length args2)) t"
proof -
  have "int (length args1) \<le> int (length args2)" using assms(2) prefix_length_le by force
  then show "safe_sql (op_Start opts) (op_Start opts + int (length args2)) t"
    using assms(1) safe_mono [of "op_Start opts" "op_Start opts + int (length args1)" t] by (simp add: emits_def)
  show "prefix args args2" using assms prefix_order.trans unfolding emits_def by blast
qed

lemma emits_all_Cons:
  "emits opts args t args1 \<Longrightarrow> emits_all opts args1 ts args2 \<Longrightarrow> emits_all opts args (t # ts) args2"
  using emits_extend [of opts args t args1 args2] by (auto simp: emits_all_def)

lemma emits_join:
  assumes "emits_all opts args ts args'"
  shows "emits opts args (comma_join ts) args'"
proof -
  let ?safe = "safe_sql (op_Start opts) (op_Start opts + int (length args'))"
  have comma: "?safe (CHR '','' # u)" if "?safe u" for u
    using safe_append [OF safe_fragment that, of "'',''"] by (simp add: sql_fragments_def)
  have tl: "?safe (concat (map (\<lambda>u. CHR '','' # u) us))" if "list_all ?safe us" for us
    using that
  proof (induction us)
    case (Cons u us)
    then show ?case using safe_append [OF comma [of u]] by simp
  qed (simp add: spliced.empty)
  show ?thesis
  proof (cases ts)
    case Nil
    then show ?thesis using assms by (simp add: comma_join_def emits_def emits_all_def spliced.empty)
  next
    case (Cons u us)
    then have "?safe (u @ concat (map (\<lambda>u. CHR '','' # u) us))" using assms safe_append tl by (simp add: emits_all_def)
    then show ?thesis using assms Cons by (simp add: comma_join_def emits_def emits_all_def)
  qed
qed

lemma emits_then_fragment: "f \<in> set sql_fragments \<Longrightarrow> emits opts args u args' \<Longrightarrow> emits opts args (f @ u) args'"
  by (rule emits_append [OF emits_fragment])

lemma emits_then: "emits opts args t args1 \<Longrightarrow> emits opts args1 u args' \<Longrightarrow> emits opts args (t @ u) args'"
  by (rule emits_append)

lemma uuid_params_emits: "uuid_params opts args xs = (ts, args') \<Longrightarrow> emits_all opts args ts args'"
proof (induction xs arbitrary: args ts)
  case (Cons x xs)
  obtain t args1 us where t: "param opts args (AText x) = (t, args1)" "uuid_params opts args1 xs = (us, args')"
    "ts = (t @ ''::uuid'') # us" using Cons.prems by (auto split: prod.splits)
  have "emits opts args (t @ ''::uuid'') args1"
    by (rule emits_append [OF emits_param [OF t(1)] emits_fragment]) (simp add: sql_fragments_def)
  then show ?case unfolding t(3) by (rule emits_all_Cons) (rule Cons.IH [OF t(2)])
qed (simp add: emits_all_def)

lemma Fields_fragment: "map_of Fields name = Some (sqlx, kind) \<Longrightarrow> sqlx \<in> set sql_fragments"
  by (force simp: sql_fragments_def dest: map_of_SomeD)

lemma custom_cast_fragment: "custom_cast kind = Some (cast, typ) \<Longrightarrow> cast \<in> set sql_fragments"
  by (auto simp: custom_cast_def sql_fragments_def split: if_splits)

lemma custom_field_emits:
  assumes "custom_field opts args key defs = Inr (f, args')"
  shows "emits opts args (fd_SQL f) args'"
proof -
  obtain params args1 k cast ty where c: "uuid_params opts args (sort (map cf_ProjectID defs)) = (params, args1)"
    "param opts args1 (AText key) = (k, args')" "custom_cast (cf_Kind (hd defs)) = Some (cast, ty)"
    and f: "fd_SQL f = ''CASE WHEN i.project_id IN ('' @ comma_join params @ '') THEN '' @
      (if cf_Kind (hd defs) = ''multiselect'' then ''(i.fields -> '' @ k @ ''::text)''
       else ''(i.fields ->> '' @ k @ ''::text)::'' @ cast) @ '' ELSE NULL END''"
    using assms by (auto simp: custom_field_def Let_def split: if_splits prod.splits option.splits)
  have params: "emits opts args (comma_join params) args1" by (rule emits_join [OF uuid_params_emits [OF c(1)]])
  have k: "emits opts args1 k args'" by (rule emits_param [OF c(2)])
  have "emits opts args1 (if cf_Kind (hd defs) = ''multiselect'' then ''(i.fields -> '' @ k @ ''::text)''
       else ''(i.fields ->> '' @ k @ ''::text)::'' @ cast) args'" (is "emits _ _ ?x _")
  proof (cases "cf_Kind (hd defs) = ''multiselect''")
    case True
    have "emits opts args1 (''(i.fields -> '' @ k @ ''::text)'') args'"
      by (rule emits_then_fragment, rule sql_frag, rule emits_then [OF k], rule emits_fragment, rule sql_frag)
    then show ?thesis using True by simp
  next
    case False
    have "emits opts args1 (''(i.fields ->> '' @ k @ ''::text)::'' @ cast) args'"
      by (rule emits_then_fragment, rule sql_frag, rule emits_then [OF k], rule emits_then_fragment, rule sql_frag,
          rule emits_fragment, rule custom_cast_fragment [OF c(3)])
    then show ?thesis using False by simp
  qed
  note x = emits_then [OF this]
  show ?thesis unfolding f
    by (rule emits_then_fragment, rule sql_frag, rule emits_then [OF params], rule emits_then_fragment, rule sql_frag,
        rule x, rule emits_fragment, rule sql_frag)
qed

lemma compile_field_emits:
  assumes "compile_field opts args name = Inr (f, args')"
  shows "emits opts args (fd_SQL f) args'"
proof (cases "map_of Fields name")
  case None
  then show ?thesis using assms custom_field_emits by (auto simp: compile_field_def Let_def split: if_splits)
next
  case (Some sk)
  then show ?thesis using assms Fields_fragment [of name] emits_fragment
    by (cases sk) (auto simp: compile_field_def)
qed

lemma param_cast_emits: "emits opts args (param_cast kind) args"
proof (cases "param_cast kind = []")
  case False
  then show ?thesis by (intro emits_fragment) (auto simp: param_cast_def sql_fragments_def split: if_splits)
qed (simp add: emits_empty)

lemma compile_values_emits:
  "compile_values uuid_ok now opts name kind args vs = Inr (ts, args') \<Longrightarrow> emits_all opts args ts args' \<and> length ts = length vs"
proof (induction vs arbitrary: args ts)
  case (Cons v vs)
  obtain a t args1 us where t: "compile_value uuid_ok now opts v kind = Inr a" "param opts args a = (t, args1)"
    "compile_values uuid_ok now opts name kind args1 vs = Inr (us, args')" "ts = (t @ param_cast kind) # us"
    using Cons.prems by (auto simp: result_simps split: sum.splits prod.splits)
  have "emits opts args (t @ param_cast kind) args1" by (rule emits_then [OF emits_param [OF t(2)] param_cast_emits])
  then show ?case using emits_all_Cons Cons.IH [OF t(3)] unfolding t(4) by auto
qed (simp add: emits_all_def)

lemma compile_match_emits:
  assumes "compile_match opts args field name v = Inr (t, args')" "emits opts args0 (fd_SQL field) args"
  shows "emits opts args0 t args'"
proof -
  let ?pre = "''to_tsvector('' @ [CHR 0x27] @ ''english'' @ [CHR 0x27] @ '',coalesce(''"
    and ?post = "'','' @ [CHR 0x27, CHR 0x27] @ ''))''" and ?query = "'' @@ plainto_tsquery('' @ [CHR 0x27] @ ''english'' @ [CHR 0x27] @ '',''"
  obtain va p where p: "param opts args (AText va) = (p, args')"
    and t: "t = ''('' @ (if name \<noteq> ''text'' then ?pre @ fd_SQL field @ ?post else fd_SQL field) @ ?query @ p @ ''))''"
    using assms(1) by (auto simp: compile_match_def Let_def split: if_splits literal.splits prod.splits)
  have frag: "?pre \<in> set sql_fragments" "?post \<in> set sql_fragments" "?query \<in> set sql_fragments"
    by (simp_all add: sql_fragments_def)
  have "emits opts args0 (?pre @ fd_SQL field @ ?post) args"
    by (rule emits_then_fragment [OF frag(1)], rule emits_then [OF assms(2)], rule emits_fragment [OF frag(2)])
  then have "emits opts args0 (if name \<noteq> ''text'' then ?pre @ fd_SQL field @ ?post else fd_SQL field) args"
    using assms(2) by (cases "name \<noteq> ''text''") simp_all
  note x = emits_then [OF this]
  show ?thesis unfolding t
    by (rule emits_then_fragment, rule sql_frag, rule x, rule emits_then_fragment [OF frag(3)],
        rule emits_then [OF emits_param [OF p]], rule emits_fragment, rule sql_frag)
qed

lemma sql_op_fragment: "sql_op op = Some o' \<Longrightarrow> o' \<in> set sql_fragments"
  by (auto simp: sql_op_def sql_fragments_def split: if_splits)

lemma compile_comparison_emits:
  assumes "compile_comparison uuid_ok now opts args op name vals = Inr (t, args')"
  shows "emits opts args t args'"
proof -
  obtain field args1 where f: "compile_field opts args name = Inr (field, args1)"
    using assms by (auto simp: compile_comparison_def result_simps)
  note fe = compile_field_emits [OF f]
  note fx = emits_then [OF fe]
  consider (matching) "compile_match opts args1 field name (hd vals) = Inr (t, args')"
    | (isnull) "t = ''('' @ fd_SQL field @ '' IS NULL)'' \<or> t = ''('' @ fd_SQL field @ '' IS NOT NULL)''" "args' = args1"
    | (compare) o' params where "sql_op op = Some o'" "vals \<noteq> []"
      "compile_values uuid_ok now opts name (fd_Kind field) args1 vals = Inr (params, args')"
      "t = ''('' @ fd_SQL field @ '' '' @ o' @ '' ('' @ comma_join params @ ''))'' \<or> t = ''('' @ fd_SQL field @ '' '' @ o' @ '' '' @ hd params @ '')''"
    using assms f by (auto simp: compile_comparison_def compile_test_def Let_def result_simps split: if_splits option.splits)
  then show ?thesis
  proof cases
    case matching
    then show ?thesis by (rule compile_match_emits [OF _ fe])
  next
    case isnull
    have "emits opts args (''('' @ fd_SQL field @ '' IS NULL)'') args1"
      by (rule emits_then_fragment, rule sql_frag, rule fx, rule emits_fragment, rule sql_frag)
    moreover have "emits opts args (''('' @ fd_SQL field @ '' IS NOT NULL)'') args1"
      by (rule emits_then_fragment, rule sql_frag, rule fx, rule emits_fragment, rule sql_frag)
    ultimately show ?thesis using isnull by metis
  next
    case compare
    have vs: "emits_all opts args1 params args'" "length params = length vals" using compile_values_emits [OF compare(3)] by auto
    have hd: "emits opts args1 (hd params) args'" using vs compare(2) by (cases params) (auto simp: emits_all_def emits_def)
    note o' = sql_op_fragment [OF compare(1)]
    have "emits opts args (''('' @ fd_SQL field @ '' '' @ o' @ '' ('' @ comma_join params @ ''))'') args'"
      by (rule emits_then_fragment, rule sql_frag, rule fx, rule emits_then_fragment, rule sql_frag,
          rule emits_then_fragment [OF o'], rule emits_then_fragment, rule sql_frag,
          rule emits_then [OF emits_join [OF vs(1)]], rule emits_fragment, rule sql_frag)
    moreover have "emits opts args (''('' @ fd_SQL field @ '' '' @ o' @ '' '' @ hd params @ '')'') args'"
      by (rule emits_then_fragment, rule sql_frag, rule fx, rule emits_then_fragment, rule sql_frag,
          rule emits_then_fragment [OF o'], rule emits_then_fragment, rule sql_frag,
          rule emits_then [OF hd], rule emits_fragment, rule sql_frag)
    ultimately show ?thesis using compare(4) by metis
  qed
qed

lemma compile_expr_emits:
  "compile_expr uuid_ok now opts args e = Inr (t, args') \<Longrightarrow> emits opts args t args'"
proof (induction e arbitrary: args t args')
  case (Expr op field vals l r)
  have opt: "emits opts as u bs" if "(case x of None \<Rightarrow> Inr (''TRUE'', as) | Some y \<Rightarrow> compile_expr uuid_ok now opts as y) = Inr (u, bs)"
      "x = l \<or> x = r" for x as u bs
    using that Expr.IH emits_fragment [OF sql_frag(1)] by (cases x) auto
  consider (bin) a args1 b where "(case l of None \<Rightarrow> Inr (''TRUE'', args) | Some y \<Rightarrow> compile_expr uuid_ok now opts args y) = Inr (a, args1)"
      "(case r of None \<Rightarrow> Inr (''TRUE'', args1) | Some y \<Rightarrow> compile_expr uuid_ok now opts args1 y) = Inr (b, args')"
      "t = ''('' @ a @ '' AND '' @ b @ '')'' \<or> t = ''('' @ a @ '' OR '' @ b @ '')''"
    | (neg) a where "(case l of None \<Rightarrow> Inr (''TRUE'', args) | Some y \<Rightarrow> compile_expr uuid_ok now opts args y) = Inr (a, args')"
      "t = ''(NOT '' @ a @ '')''"
    | (cmp) "compile_comparison uuid_ok now opts args op field vals = Inr (t, args')"
    using Expr.prems by (auto simp: result_simps split: if_splits)
  then show ?case
  proof cases
    case bin
    note a = emits_then [OF opt [OF bin(1)]] and b = emits_then [OF opt [OF bin(2)]]
    have "emits opts args (''('' @ a @ '' AND '' @ b @ '')'') args'"
      by (rule emits_then_fragment, rule sql_frag, rule a, simp, rule emits_then_fragment, rule sql_frag, rule b, simp,
          rule emits_fragment, rule sql_frag)
    moreover have "emits opts args (''('' @ a @ '' OR '' @ b @ '')'') args'"
      by (rule emits_then_fragment, rule sql_frag, rule a, simp, rule emits_then_fragment, rule sql_frag, rule b, simp,
          rule emits_fragment, rule sql_frag)
    ultimately show ?thesis using bin(3) by metis
  next
    case neg
    note a = emits_then [OF opt [OF neg(1)]]
    show ?thesis unfolding neg(2)
      by (rule emits_then_fragment, rule sql_frag, rule a, simp, rule emits_fragment, rule sql_frag)
  next
    case cmp
    then show ?thesis by (rule compile_comparison_emits)
  qed
qed

subsection \<open>Queries that differ in their texts only\<close>

fun same_shape :: "Expr \<Rightarrow> Expr \<Rightarrow> bool" where
  "same_shape (Expr op f vs l r) (Expr op' f' vs' l' r') =
     (op = op' \<and> f = f' \<and> map is_null vs = map is_null vs' \<and>
      (case (l, l') of (None, None) \<Rightarrow> True | (Some a, Some b) \<Rightarrow> same_shape a b | _ \<Rightarrow> False) \<and>
      (case (r, r') of (None, None) \<Rightarrow> True | (Some a, Some b) \<Rightarrow> same_shape a b | _ \<Rightarrow> False))"

text \<open>Two compilations in step: the same SQL and equally many arguments.\<close>

definition in_step :: "sxq_error + 'a \<times> arg list \<Rightarrow> sxq_error + 'a \<times> arg list \<Rightarrow> bool" where
  "in_step x y = (case (x, y) of (Inr (t, as), Inr (u, bs)) \<Rightarrow> t = u \<and> length as = length bs | _ \<Rightarrow> True)"

lemma in_step_Inr: "in_step (Inr (t, as)) (Inr (u, bs)) \<longleftrightarrow> t = u \<and> length as = length bs"
  by (simp add: in_step_def)

lemma in_step_errors [simp]: "in_step (Inl x) z" "in_step z (Inl x)"
  by (simp_all add: in_step_def split: sum.splits prod.splits)

lemma in_step_bind:
  assumes "in_step x y" "\<And>t as bs. length as = length bs \<Longrightarrow> in_step (f (t, as)) (g (t, bs))"
  shows "in_step (rbind x f) (rbind y g)"
proof (cases x; cases y)
  fix a b assume xy: "x = Inr a" "y = Inr b"
  obtain t as u bs where ab: "a = (t, as)" "b = (u, bs)" by (cases a; cases b)
  then have "t = u" "length as = length bs" using assms(1) xy by (simp_all add: in_step_Inr)
  then show ?thesis using assms(2) xy ab by simp
qed simp_all

text \<open>Only the first parameter number and the custom fields of the options reach the SQL.\<close>

definition same_options :: "Options \<Rightarrow> Options \<Rightarrow> bool" where
  "same_options o1 o2 = (op_Start o1 = op_Start o2 \<and> op_Custom o1 = op_Custom o2)"

lemma param_step:
  "same_options o1 o2 \<Longrightarrow> length as = length bs \<Longrightarrow> param o1 as v = (t, as') \<Longrightarrow> param o2 bs w = (u, bs') \<Longrightarrow>
   t = u \<and> length as' = length bs'"
  by (auto simp: param_def same_options_def)

lemma uuid_params_step:
  "same_options o1 o2 \<Longrightarrow> length as = length bs \<Longrightarrow> in_step (Inr (uuid_params o1 as xs)) (Inr (uuid_params o2 bs xs))"
proof (induction xs arbitrary: as bs)
  case (Cons x xs)
  obtain t as1 u bs1 where p: "param o1 as (AText x) = (t, as1)" "param o2 bs (AText x) = (u, bs1)" by (metis surj_pair)
  note q = param_step [OF Cons.prems p]
  then have "in_step (Inr (uuid_params o1 as1 xs)) (Inr (uuid_params o2 bs1 xs))" using Cons by blast
  then show ?case using p q by (auto simp: in_step_Inr split: prod.splits)
qed (simp add: in_step_Inr)

lemma custom_field_step:
  assumes "same_options o1 o2" "length as = length bs"
  shows "in_step (custom_field o1 as key defs) (custom_field o2 bs key defs)"
proof -
  obtain ps as1 qs bs1 where u: "uuid_params o1 as (sort (map cf_ProjectID defs)) = (ps, as1)"
    "uuid_params o2 bs (sort (map cf_ProjectID defs)) = (qs, bs1)" by (metis surj_pair)
  then have ps: "ps = qs" "length as1 = length bs1" using uuid_params_step [OF assms, of "sort (map cf_ProjectID defs)"] by (simp_all add: in_step_Inr)
  obtain k as2 k' bs2 where k: "param o1 as1 (AText key) = (k, as2)" "param o2 bs1 (AText key) = (k', bs2)" by (metis surj_pair)
  have "k = k'" "length as2 = length bs2" using param_step [OF assms(1) ps(2) k] by auto
  then show ?thesis using u ps k by (auto simp: custom_field_def Let_def in_step_Inr split: option.splits)
qed

lemma compile_field_step:
  "same_options o1 o2 \<Longrightarrow> length as = length bs \<Longrightarrow> in_step (compile_field o1 as name) (compile_field o2 bs name)"
  by (auto simp: compile_field_def Let_def same_options_def in_step_Inr custom_field_step split: option.splits)

lemma compile_values_step:
  "same_options o1 o2 \<Longrightarrow> length as = length bs \<Longrightarrow> length vs = length ws \<Longrightarrow>
   in_step (compile_values u1 n1 o1 name kind as vs) (compile_values u2 n2 o2 name kind bs ws)"
proof (induction vs arbitrary: ws as bs)
  case (Cons v vs)
  then obtain w ws' where ws: "ws = w # ws'" by (cases ws) auto
  show ?case
  proof (cases "compile_value u1 n1 o1 v kind"; cases "compile_value u2 n2 o2 w kind")
    fix a b assume ab: "compile_value u1 n1 o1 v kind = Inr a" "compile_value u2 n2 o2 w kind = Inr b"
    obtain t as1 u bs1 where p: "param o1 as a = (t, as1)" "param o2 bs b = (u, bs1)" by (metis surj_pair)
    note q = param_step [OF Cons.prems(1,2) p]
    have "in_step (compile_values u1 n1 o1 name kind as1 vs) (compile_values u2 n2 o2 name kind bs1 ws')"
      using Cons q ws by simp
    then show ?thesis using ab p q ws by (auto intro!: in_step_bind simp: in_step_Inr)
  qed (simp_all add: ws)
qed (simp add: in_step_Inr)

lemma compile_match_step:
  "same_options o1 o2 \<Longrightarrow> length as = length bs \<Longrightarrow> in_step (compile_match o1 as f name v) (compile_match o2 bs f name w)"
  by (auto simp: compile_match_def Let_def in_step_Inr split: literal.splits prod.splits dest: param_step)

lemma compile_test_step:
  assumes "same_options o1 o2" "length as = length bs" "map is_null vs = map is_null ws"
  shows "in_step (compile_test u1 n1 o1 as f op name vs) (compile_test u2 n2 o2 bs f op name ws)"
proof (cases vs)
  case Nil
  then show ?thesis using assms(3) by (simp add: compile_test_def)
next
  case (Cons v vs')
  then obtain w ws' where ws: "ws = w # ws'" "is_null v = is_null w" using assms(3) by (cases ws) auto
  have len: "length vs = length ws" using assms(3) by (rule map_eq_imp_length_eq)
  have "vs \<noteq> []" "ws \<noteq> []" "is_null (hd vs) = is_null (hd ws)" using Cons ws by simp_all
  then show ?thesis
    using compile_match_step [OF assms(1,2)] assms(2)
    by (auto simp: compile_test_def Let_def in_step_Inr split: option.splits
        intro!: in_step_bind [OF compile_values_step [OF assms(1,2) len]])
qed

lemma compile_expr_step:
  "same_options o1 o2 \<Longrightarrow> length as = length bs \<Longrightarrow> same_shape e e' \<Longrightarrow>
   in_step (compile_expr u1 n1 o1 as e) (compile_expr u2 n2 o2 bs e')"
proof (induction e arbitrary: e' as bs)
  case (Expr op f vs l r)
  obtain vs' l' r' where e': "e' = Expr op f vs' l' r'" "map is_null vs = map is_null vs'"
    "(case (l, l') of (None, None) \<Rightarrow> True | (Some a, Some b) \<Rightarrow> same_shape a b | _ \<Rightarrow> False)"
    "(case (r, r') of (None, None) \<Rightarrow> True | (Some a, Some b) \<Rightarrow> same_shape a b | _ \<Rightarrow> False)"
    using Expr.prems(3) by (cases e') auto
  have sub: "in_step (case x of None \<Rightarrow> Inr (''TRUE'', as) | Some y \<Rightarrow> compile_expr u1 n1 o1 as y)
      (case x' of None \<Rightarrow> Inr (''TRUE'', bs) | Some y \<Rightarrow> compile_expr u2 n2 o2 bs y)"
    if "x = l \<and> x' = l' \<or> x = r \<and> x' = r'" "length as = length bs" for x x' as bs
    using that Expr.IH Expr.prems(1) e'(3,4) by (cases x; cases x') (auto simp: in_step_Inr)
  have cmp: "in_step (compile_comparison u1 n1 o1 as op f vs) (compile_comparison u2 n2 o2 bs op f vs')"
    unfolding compile_comparison_def
    by (rule in_step_bind [OF compile_field_step [OF Expr.prems(1,2)]])
       (use compile_test_step [OF Expr.prems(1)] e'(2) in simp)
  consider "op = ''and'' \<or> op = ''or''" | "op = ''not''" | "op \<noteq> ''and''" "op \<noteq> ''or''" "op \<noteq> ''not''" by blast
  then show ?case
  proof cases
    case 1
    then show ?thesis unfolding e'(1) compile_expr.simps
      by (simp del: append.simps) (intro conjI impI in_step_bind [OF sub]; auto simp: in_step_Inr Expr.prems(2) intro!: in_step_bind [OF sub])
  next
    case 2
    then show ?thesis unfolding e'(1) compile_expr.simps
      by (auto simp: in_step_Inr Expr.prems(2) intro!: in_step_bind [OF sub])
  next
    case 3
    then show ?thesis using cmp unfolding e'(1) by simp
  qed
qed

subsection \<open>The table of distances\<close>

lemma distance_row_table:
  assumes "i < length a" "j \<le> length b"
  shows "distance_row (a ! i) (table a b (Suc i) j) (map (table a b i) [j..<length b + 1]) (drop j b) =
    map (table a b (Suc i)) [j + 1..<length b + 1]"
  using assms(2)
proof (induction "length b - j" arbitrary: j)
  case 0
  then have "j = length b" by simp
  then show ?case by (simp add: upt_Cons)
next
  case (Suc k)
  then have j: "j < length b" by simp
  have d: "drop j b = b ! j # drop (Suc j) b" using j by (simp add: Cons_nth_drop_Suc)
  have u: "[j..<length b + 1] = j # Suc j # [Suc (Suc j)..<length b + 1]" "[Suc j..<length b + 1] = Suc j # [Suc (Suc j)..<length b + 1]"
    using j by (simp_all del: upt_Suc add: upt_Cons)
  have IH: "distance_row (a ! i) (table a b (Suc i) (Suc j)) (map (table a b i) [Suc j..<length b + 1]) (drop (Suc j) b) =
    map (table a b (Suc i)) [Suc j + 1..<length b + 1]"
    by (rule Suc.hyps(1)) (use Suc.hyps(2) j in auto)
  have v: "[Suc j..<Suc (length b)] = Suc j # [Suc (Suc j)..<Suc (length b)]" using j by (intro upt_Cons) simp
  show ?case using IH unfolding d u by (simp del: upt_Suc add: v Let_def)
qed

lemma distance_rows_table:
  assumes "i \<le> length a"
  shows "distance_rows (Suc i) (map (table a b i) [0..<length b + 1]) (drop i a) b = map (table a b (length a)) [0..<length b + 1]"
  using assms
proof (induction "length a - i" arbitrary: i)
  case (Suc k)
  then have i: "i < length a" by simp
  have d: "drop i a = a ! i # drop (Suc i) a" using i by (simp add: Cons_nth_drop_Suc)
  have row: "Suc i # distance_row (a ! i) (Suc i) (map (table a b i) [0..<length b + 1]) b = map (table a b (Suc i)) [0..<length b + 1]"
    using distance_row_table [OF i, of 0 b] upt_Cons [of 0 "length b + 1"] by (simp del: upt_Suc)
  have IH: "distance_rows (Suc (Suc i)) (map (table a b (Suc i)) [0..<length b + 1]) (drop (Suc i) a) b =
      map (table a b (length a)) [0..<length b + 1]"
    by (rule Suc.hyps(1)) (use Suc.hyps(2) i in auto)
  show ?case unfolding d distance_rows.simps using IH row by (simp del: upt_Suc)
qed simp

lemma distance_table: "distance a b = table a b (length a) (length b)"
proof -
  have "map (table a b 0) [0..<length b + 1] = [0..<length b + 1]" by (simp add: map_idI)
  then show ?thesis using distance_rows_table [of 0 a b] by (simp add: distance_def)
qed

subsection \<open>Properties\<close>

lemma Compile_Inr:
  assumes "Compile uuid_ok clock q options = Inr plan"
  obtains opts now order args where "opts = (if op_Start options < 1 then options\<lparr>op_Start := 1\<rparr> else options)"
    "now = (case op_Now options of None \<Rightarrow> clock | Some t \<Rightarrow> t)"
    "(case qu_Expr q of None \<Rightarrow> Inr (''TRUE'', []) | Some e \<Rightarrow> compile_expr uuid_ok now opts [] e) = Inr (pl_Where plan, args)"
    "compile_field opts args (qu_Order q) = Inr (order, pl_Args plan)" "pl_OrderExpr plan = fd_SQL order"
  using assms by (auto simp: Compile_def Let_def result_simps split: if_splits)

text \<open>
  C25.  User input is never concatenated into SQL (SPEC 7.3): the condition and the order
  expression of a compiled plan are sequences of fragments from the compiler's own fixed list and
  of references to parameters, and every reference is to one of the plan's arguments.
\<close>

theorem Compile_parameterised:
  assumes "Compile uuid_ok clock q options = Inr plan"
  shows "safe_sql (max 1 (op_Start options)) (max 1 (op_Start options) + int (length (pl_Args plan))) (pl_Where plan) \<and>
    safe_sql (max 1 (op_Start options)) (max 1 (op_Start options) + int (length (pl_Args plan))) (pl_OrderExpr plan)"
  using assms
proof (rule Compile_Inr)
  fix opts now order args
  assume c: "opts = (if op_Start options < 1 then options\<lparr>op_Start := 1\<rparr> else options)"
    "(case qu_Expr q of None \<Rightarrow> Inr (''TRUE'', []) | Some e \<Rightarrow> compile_expr uuid_ok now opts [] e) = Inr (pl_Where plan, args)"
    "compile_field opts args (qu_Order q) = Inr (order, pl_Args plan)" "pl_OrderExpr plan = fd_SQL order"
  have start: "op_Start opts = max 1 (op_Start options)" using c(1) by simp
  have w: "emits opts [] (pl_Where plan) args"
    using c(2) compile_expr_emits emits_fragment [OF sql_frag(1)] by (cases "qu_Expr q") auto
  have order: "emits opts args (fd_SQL order) (pl_Args plan)" by (rule compile_field_emits [OF c(3)])
  have "safe_sql (op_Start opts) (op_Start opts + int (length (pl_Args plan))) (fd_SQL order)"
    using order by (simp add: emits_def)
  then show ?thesis using emits_extend(2) [OF w emits_prefix [OF order]] unfolding start c(4) by blast
qed

definition demo_query :: Query where
  "demo_query = \<lparr>qu_Expr = Some (Expr ''and'' [] [] (Some (Expr ''='' ''title'' [lit (LString ''x or 1 = 1'')] None None))
       (Some (Expr ''>='' ''fields.impact'' [lit (LNumber ''4'')] None None))), qu_Order = ''rank'', qu_Desc = False\<rparr>"

definition demo_options :: Options where
  "demo_options = \<lparr>op_UserID = [], op_Now = None, op_Start = 3,
     op_Custom = [(''impact'', [\<lparr>cf_ProjectID = ''p'', cf_Kind = ''number''\<rparr>])]\<rparr>"

lemma demo_compiles: "\<not> isl (Compile (\<lambda>_. True) 0 demo_query demo_options)"
  by code_simp

theorem Compile_parameterised_witness:
  "\<exists>plan. Compile (\<lambda>_. True) 0 demo_query demo_options = Inr plan \<and> safe_sql 3 (3 + int (length (pl_Args plan))) (pl_Where plan)"
proof -
  obtain plan where p: "Compile (\<lambda>_. True) 0 demo_query demo_options = Inr plan"
    using demo_compiles by (cases "Compile (\<lambda>_. True) 0 demo_query demo_options") auto
  with Compile_parameterised [OF p] show ?thesis by (auto simp: demo_options_def)
qed

text \<open>
  C26.  Values do not influence the SQL: two queries of the same shape (the same connectives,
  fields, operators and numbers of values, null in the same places) and the same order field
  that both compile give the same condition, the same order expression and equally many
  arguments, whatever their values, the user, the time and the checks on identifiers are.
\<close>

theorem Compile_ignores_values:
  assumes "Compile u1 c1 q1 o1 = Inr p1" "Compile u2 c2 q2 o2 = Inr p2"
    and "op_Start o1 = op_Start o2" "op_Custom o1 = op_Custom o2" "qu_Order q1 = qu_Order q2"
    and "(case (qu_Expr q1, qu_Expr q2) of (None, None) \<Rightarrow> True | (Some e1, Some e2) \<Rightarrow> same_shape e1 e2 | _ \<Rightarrow> False)"
  shows "pl_Where p1 = pl_Where p2 \<and> pl_OrderExpr p1 = pl_OrderExpr p2 \<and> length (pl_Args p1) = length (pl_Args p2)"
  using assms(1)
proof (rule Compile_Inr)
  fix os1 now1 order1 args1
  assume a: "os1 = (if op_Start o1 < 1 then o1\<lparr>op_Start := 1\<rparr> else o1)"
    "(case qu_Expr q1 of None \<Rightarrow> Inr (''TRUE'', []) | Some e \<Rightarrow> compile_expr u1 now1 os1 [] e) = Inr (pl_Where p1, args1)"
    "compile_field os1 args1 (qu_Order q1) = Inr (order1, pl_Args p1)" "pl_OrderExpr p1 = fd_SQL order1"
  show ?thesis
    using assms(2)
  proof (rule Compile_Inr)
    fix os2 now2 order2 args2
    assume b: "os2 = (if op_Start o2 < 1 then o2\<lparr>op_Start := 1\<rparr> else o2)"
      "(case qu_Expr q2 of None \<Rightarrow> Inr (''TRUE'', []) | Some e \<Rightarrow> compile_expr u2 now2 os2 [] e) = Inr (pl_Where p2, args2)"
      "compile_field os2 args2 (qu_Order q2) = Inr (order2, pl_Args p2)" "pl_OrderExpr p2 = fd_SQL order2"
    have so: "same_options os1 os2" using a(1) b(1) assms(3,4) by (simp add: same_options_def)
    have w: "pl_Where p1 = pl_Where p2 \<and> length args1 = length args2"
    proof (cases "qu_Expr q1")
      case None
      then show ?thesis using a(2) b(2) assms(6) by (cases "qu_Expr q2") auto
    next
      case (Some e1)
      then obtain e2 where e2: "qu_Expr q2 = Some e2" "same_shape e1 e2" using assms(6) by (cases "qu_Expr q2") auto
      have "in_step (compile_expr u1 now1 os1 [] e1) (compile_expr u2 now2 os2 [] e2)"
        by (rule compile_expr_step [OF so refl e2(2)])
      then show ?thesis using a(2) b(2) Some e2(1) by (simp add: in_step_Inr)
    qed
    have "in_step (compile_field os1 args1 (qu_Order q1)) (compile_field os2 args2 (qu_Order q1))"
      by (rule compile_field_step [OF so]) (use w in simp)
    then show ?thesis using w a(3,4) b(3,4) assms(5) by (simp add: in_step_Inr)
  qed
qed

definition demo_query2 :: Query where
  "demo_query2 = \<lparr>qu_Expr = Some (Expr ''and'' [] [] (Some (Expr ''='' ''title'' [lit (LString ''y'')] None None))
       (Some (Expr ''>='' ''fields.impact'' [lit (LNumber ''77'')] None None))), qu_Order = ''rank'', qu_Desc = False\<rparr>"

theorem Compile_ignores_values_witness:
  "\<exists>p1 p2. Compile (\<lambda>_. True) 0 demo_query demo_options = Inr p1 \<and> Compile (\<lambda>_. False) 9 demo_query2 demo_options = Inr p2 \<and>
     pl_Where p1 = pl_Where p2"
proof -
  obtain p1 where p1: "Compile (\<lambda>_. True) 0 demo_query demo_options = Inr p1"
    using demo_compiles by (cases "Compile (\<lambda>_. True) 0 demo_query demo_options") auto
  have "\<not> isl (Compile (\<lambda>_. False) 9 demo_query2 demo_options)" by code_simp
  then obtain p2 where p2: "Compile (\<lambda>_. False) 9 demo_query2 demo_options = Inr p2"
    by (cases "Compile (\<lambda>_. False) 9 demo_query2 demo_options") auto
  show ?thesis using Compile_ignores_values [OF p1 p2] p1 p2 by (simp add: demo_query_def demo_query2_def is_null_def)
qed

text \<open>
  C29.  \<open>distance\<close> is the edit distance: there is a way to turn one text into the other with that
  many insertions, deletions and replacements of single bytes, and none with fewer.
\<close>

theorem distance_is_edit_distance:
  "edits (distance a b) a b \<and> (\<forall>n. edits n a b \<longrightarrow> distance a b \<le> n)"
  using table_edits [of "length a" a "length b" b] table_minimal by (auto simp: distance_table)

theorem distance_is_edit_distance_witness: "distance ''stats'' ''status'' \<le> 1"
proof -
  have s: "edits n xs ys \<Longrightarrow> edits n (xs @ [x]) (ys @ [x])" for n xs ys x using edits.keep [of n xs ys x x] by simp
  have "edits 1 ''stats'' ''status''"
    using s [OF edits.insert [OF s [OF s [OF s [OF s [OF edits.start, of "CHR ''s''"], of "CHR ''t''"], of "CHR ''a''"], of "CHR ''t''"],
        of "CHR ''u''"], of "CHR ''s''"] by simp
  then show ?thesis using distance_is_edit_distance [of "''stats''" "''status''"] by blast
qed

lemma nearest_loop_nearest:
  "let r = nearest_loop input best score names in
   (r = best \<and> (\<forall>n \<in> set names. score \<le> distance input n) \<or>
    r \<in> set names \<and> distance input r < score \<and> (\<forall>n \<in> set names. distance input r \<le> distance input n))"
proof (induction names arbitrary: best score)
  case (Cons name names)
  show ?case
  proof (cases "distance input name < score")
    case True
    then show ?thesis using Cons [of name "distance input name"] by (auto simp: Let_def)
  next
    case False
    then show ?thesis using Cons [of best score] by (auto simp: Let_def)
  qed
qed simp

text \<open>
   The suggestion for an unknown field is an existing field name, and none is nearer: no
  field name that is less than 10000 edits away has a smaller edit distance to the input.
\<close>

theorem suggestion_is_nearest:
  assumes "compile_field opts args name = Inl (UnknownField name' s)"
  shows "name' = name \<and> s \<in> set (FieldNames (op_Custom opts)) \<and>
    (\<forall>n \<in> set (FieldNames (op_Custom opts)). distance name n < 10000 \<longrightarrow> distance name s \<le> distance name n)"
proof -
  have s: "name' = name" "s = nearest name (op_Custom opts)"
    using assms by (auto simp: compile_field_def custom_field_def Let_def split: option.splits if_splits prod.splits)
  have key: "''key'' \<in> set (FieldNames (op_Custom opts))" 
    unfolding FieldNames_def set_sort set_append by (rule UnI1) (simp add: Fields_def)
  show ?thesis using s key nearest_loop_nearest [of name "''key''" 10000 "FieldNames (op_Custom opts)"]
    by (auto simp: nearest_def Let_def)
qed

theorem suggestion_is_nearest_witness:
  "compile_field demo_options [] ''statsu'' = Inl (UnknownField ''statsu'' ''status'') \<and> ''status'' \<in> set (FieldNames (op_Custom demo_options))"
proof -
  have e: "compile_field demo_options [] ''statsu'' = Inl (UnknownField ''statsu'' ''status'')" by code_simp
  show ?thesis using suggestion_is_nearest [OF e] e by blast
qed

text \<open>The query that compares the title with a text, and what it compiles to.\<close>

definition title_query :: "string \<Rightarrow> string" where
  "title_query t = show_tokens (map print_token [word ''title'', word ''='', (t, True)])"

lemma Parse_title_query:
  assumes "ValidString t" "t \<noteq> []" "length t \<le> 2000"
  shows "Parse (title_query t) = Inr \<lparr>qu_Expr = Some (Cmp ''='' ''title'' [lit (LString t)]), qu_Order = ''id'', qu_Desc = False\<rparr>"
proof -
  let ?bs = "[word ''title'', word ''='', (t, True)]"
  let ?cmp = "Cmp ''='' ''title'' [lit (LString t)]"
  have len: "length (concat (map escape_char t)) \<le> 2 * length t" for t by (induction t) (auto simp: escape_char_def)
  have words: "lex_word ''title''" "lex_word ''=''" "bare_ok ''title''" by code_simp+
  have "written ?bs" using words assms(1) by simp
  moreover have "length (title_query t) \<le> 4096"
    using len [of t] assms(3) by (simp add: title_query_def show_tokens_def show_token_def print_token_def quote_text_def)
  ultimately obtain us where us: "lex (title_query t) = Inr us" "follows us 0 (?bs @ [word []])"
    using lex_show_written [of ?bs] unfolding title_query_def by auto
  have p: "print_expr False 0 ?cmp = ?bs" by (simp add: print_cmp_def print_op_def print_value_def)
  have c: "cmp_ok ''='' ''title'' [lit (LString t)]" using words(3) assms(1,2) by (simp add: cmp_ok_def comparison_ops_def print_ok_def)
  have r: "reads 64 0 us 0 ?cmp (0 + length ?bs)"
    using reads_print [of 64 0 ?cmp us 0 False "[word []]"] fits.cmp [OF c, of 63 0] us(2) unfolding p by (simp add: ends_word)
  have f: "follows us (0 + length ?bs) (word [] # [])" using follows_append [OF us(2)] by simp
  have "parse_or (unary 64 us) us 0 = Inr (?cmp, 0 + length ?bs)" by (rule or_done [OF r f canonical_Nil]) simp
  moreover have "tk_text (peek us 0) \<noteq> []" "\<not> is_tok us 0 ''order''"
    using follows_Cons(1) [of us 0 "''title''" False "word ''='' # [(t, True), word []]"]
      is_tok_follows [of us 0 "''title''" False "word ''='' # [(t, True), word []]"] us(2) words(3) by (auto simp: bare_ok_def)
  ultimately have "parse_filter us = Inr (Some ?cmp, 0 + length ?bs)" by (simp add: parse_filter_def)
  moreover have "parse_order us (0 + length ?bs) = Inr ((''id'', False), 0 + length ?bs)"
    using take_keyword(1) [OF f canonical_Nil, of "''order''"] by (simp add: parse_order_def)
  ultimately show ?thesis using us(1) follows_Cons(1) [OF f] by (simp add: Parse_def parse_tokens_def)
qed

text \<open>
  Hostile text stays data: whatever a non-empty valid UTF-8 text contains (quotes,
  backslashes, keywords, SQL), the query that compares the title with it, written as a quoted
  text, compiles to the same condition with exactly that text as its one argument.
\<close>

theorem quoted_text_is_bound:
  assumes "ValidString t" "t \<noteq> []" "length t \<le> 2000" "1 \<le> op_Start options"
  shows "\<exists>q. Parse (title_query t) = Inr q \<and>
    Compile uuid_ok clock q options = Inr \<lparr>pl_Where = ''(i.title = $'' @ itoa (op_Start options) @ '')'', pl_OrderExpr = ''i.id'',
      pl_OrderKind = ''uuid'', pl_Desc = False, pl_Args = [AText t]\<rparr>"
proof -
  have f: "map_of Fields ''title'' = Some (''i.title'', ''text'')" "map_of Fields ''id'' = Some (''i.id'', ''uuid'')" by (simp_all add: Fields_def)
  show ?thesis using Parse_title_query [OF assms(1-3)] assms(4)
    by (simp add: Compile_def Let_def compile_comparison_def compile_field_def f compile_test_def is_null_def sql_op_def
        compile_value_def text_value_def param_def param_cast_def)
qed

theorem quoted_text_is_bound_witness:
  "\<exists>q. Parse (title_query (CHR 0x22 # '' or 1 = 1 --'')) = Inr q \<and> \<not> isl (Compile (\<lambda>_. False) 0 q demo_options)"
proof -
  have "ValidString (CHR 0x22 # '' or 1 = 1 --'')" by code_simp
  then obtain q where "Parse (title_query (CHR 0x22 # '' or 1 = 1 --'')) = Inr q" "\<not> isl (Compile (\<lambda>_. False) 0 q demo_options)"
    using quoted_text_is_bound [of "CHR 0x22 # '' or 1 = 1 --''" demo_options "\<lambda>_. False" 0] by (auto simp: demo_options_def)
  then show ?thesis by blast
qed

end
