(* ===== verification/Sx_Encoding.thy ===== *)
theory Sx_Encoding
  imports Sx_Prelude
begin

text \<open>
  The encodings of bytes as text that the journal, the page cursors and the request scope use:
  \<open>encoding/hex\<close>, \<open>encoding/base64\<close> without padding in its URL alphabet, and the escaping of
  \<open>net/url\<close>.
\<close>

text \<open>\<open>hex.EncodeToString\<close>\<close>

definition hex_digit :: "nat \<Rightarrow> char" where
  "hex_digit d = ''0123456789abcdef'' ! d"

definition hex_encode :: "string \<Rightarrow> string" where
  "hex_encode s = concat (map (\<lambda>c. [hex_digit (of_char c div 16), hex_digit (of_char c mod 16)]) s)"

lemma hex_encode_length: "length (hex_encode s) = 2 * length s"
  by (induction s) (simp_all add: hex_encode_def)

subsection \<open>Base 64\<close>

text \<open>The alphabets of \<open>base64.RawURLEncoding\<close> and \<open>base64.RawStdEncoding\<close>\<close>

definition b64_alphabet :: string where
  "b64_alphabet = ''ABCDEFGHIJKLMNOPQRSTUVWXYZabcdefghijklmnopqrstuvwxyz0123456789-_''"

definition b64_std_alphabet :: string where
  "b64_std_alphabet = ''ABCDEFGHIJKLMNOPQRSTUVWXYZabcdefghijklmnopqrstuvwxyz0123456789+/''"

text \<open>Three bytes are four groups of six bits; a rest of one or two bytes is two or three groups.\<close>

fun sextets :: "string \<Rightarrow> nat list" where
  "sextets [] = []"
| "sextets [a] = [of_char a div 4, of_char a mod 4 * 16]"
| "sextets [a, b] = [of_char a div 4, of_char a mod 4 * 16 + of_char b div 16, of_char b mod 16 * 4]"
| "sextets (a # b # c # s) =
     [of_char a div 4, of_char a mod 4 * 16 + of_char b div 16, of_char b mod 16 * 4 + of_char c div 64, of_char c mod 64] @ sextets s"

text \<open>\<open>EncodeToString\<close> without padding\<close>

definition encode_with :: "string \<Rightarrow> string \<Rightarrow> string" where
  "encode_with alphabet s = map (\<lambda>v. alphabet ! v) (sextets s)"

definition b64_encode :: "string \<Rightarrow> string" where
  "b64_encode s = encode_with b64_alphabet s"

definition b64_std_encode :: "string \<Rightarrow> string" where
  "b64_std_encode s = encode_with b64_std_alphabet s"

fun octets_of :: "nat list \<Rightarrow> string option" where
  "octets_of [] = Some []"
| "octets_of [x] = None"
| "octets_of [x, y] = Some [char_of (x * 4 + y div 16)]"
| "octets_of [x, y, z] = Some [char_of (x * 4 + y div 16), char_of (y mod 16 * 16 + z div 4)]"
| "octets_of (x # y # z # w # r) =
     map_option (\<lambda>s. [char_of (x * 4 + y div 16), char_of (y mod 16 * 16 + z div 4), char_of (z mod 4 * 64 + w)] @ s) (octets_of r)"

text \<open>\<open>DecodeString\<close>: line breaks are skipped, and spare bits at the end ignored.\<close>

definition decode_with :: "string \<Rightarrow> string \<Rightarrow> string option" where
  "decode_with alphabet s =
     (case those (map (map_of (zip alphabet [0..<64])) (filter (\<lambda>c. c \<noteq> CHR 0x0A \<and> c \<noteq> CHR 0x0D) s)) of
        None \<Rightarrow> None | Some vs \<Rightarrow> octets_of vs)"

definition b64_decode :: "string \<Rightarrow> string option" where
  "b64_decode s = decode_with b64_alphabet s"

definition b64_std_decode :: "string \<Rightarrow> string option" where
  "b64_std_decode s = decode_with b64_std_alphabet s"

lemma char_quotients: "(of_char c :: nat) div 4 < 64" "(of_char c :: nat) div 16 < 16" "(of_char c :: nat) div 64 < 4"
proof -
  have "(of_char c :: nat) < 256" using nat_of_char_less_256 by simp
  then show "(of_char c :: nat) div 4 < 64" "(of_char c :: nat) div 16 < 16" "(of_char c :: nat) div 64 < 4"
    by (auto intro!: less_mult_imp_div_less)
qed

lemma sextets_less: "v \<in> set (sextets s) \<Longrightarrow> v < 64"
proof (induction s rule: sextets.induct)
  case (2 a)
  then show ?case using char_quotients(1) [of a] by auto
next
  case (3 a b)
  have "(of_char a :: nat) mod 4 * 16 + of_char b div 16 < 64"
    using char_quotients(2) [of b] mod_less_divisor [of 4 "of_char a :: nat"] by linarith
  then show ?case using 3 char_quotients(1) [of a] by auto
next
  case (4 a b c s)
  have "(of_char a :: nat) mod 4 * 16 + of_char b div 16 < 64" "(of_char b :: nat) mod 16 * 4 + of_char c div 64 < 64"
    using char_quotients(2) [of b] char_quotients(3) [of c] mod_less_divisor [of 4 "of_char a :: nat"] mod_less_divisor [of 16 "of_char b :: nat"] by linarith+
  then show ?case using 4 char_quotients(1) [of a] by auto
qed simp

lemma octets_of_sextets: "octets_of (sextets s) = Some s"
proof (induction s rule: sextets.induct)
  case (2 a)
  define k where "k = (of_char a :: nat)"
  have "k div 4 * 4 + k mod 4 * 16 div 16 = k" by simp
  then show ?case by (simp add: k_def)
next
  case (3 a b)
  define k l where "k = (of_char a :: nat)" and "l = (of_char b :: nat)"
  have l: "l div 16 < 16" using char_quotients(2) [of b] by (simp add: l_def)
  have "k div 4 * 4 + (k mod 4 * 16 + l div 16) div 16 = k" using l by simp
  moreover have "(k mod 4 * 16 + l div 16) mod 16 * 16 + l mod 16 * 4 div 4 = l" using l by simp
  ultimately show ?case by (simp add: k_def l_def)
next
  case (4 a b c s)
  define k l m where "k = (of_char a :: nat)" and "l = (of_char b :: nat)" and "m = (of_char c :: nat)"
  have l: "l div 16 < 16" "m div 64 < 4" using char_quotients by (simp_all add: l_def m_def)
  have "k div 4 * 4 + (k mod 4 * 16 + l div 16) div 16 = k" using l by simp
  moreover have "(k mod 4 * 16 + l div 16) mod 16 * 16 + (l mod 16 * 4 + m div 64) div 4 = l" using l by simp
  moreover have "(l mod 16 * 4 + m div 64) mod 4 * 64 + m mod 64 = m" using l by simp
  ultimately show ?case using 4 by (simp add: k_def l_def m_def)
qed simp

definition alphabet_ok :: "string \<Rightarrow> bool" where
  "alphabet_ok alphabet = list_all (\<lambda>v. map_of (zip alphabet [0..<64]) (alphabet ! v) = Some v \<and>
     alphabet ! v \<noteq> CHR 0x0A \<and> alphabet ! v \<noteq> CHR 0x0D \<and> alphabet ! v \<noteq> CHR ''$'') [0..<64]"

lemma alphabets: "alphabet_ok b64_alphabet" "alphabet_ok b64_std_alphabet"
  by code_simp+

lemma alphabet_facts:
  assumes "alphabet_ok alphabet" "v < 64"
  shows "map_of (zip alphabet [0..<64]) (alphabet ! v) = Some v" "alphabet ! v \<noteq> CHR 0x0A \<and> alphabet ! v \<noteq> CHR 0x0D" "alphabet ! v \<noteq> CHR ''$''"
  using assms unfolding alphabet_ok_def list_all_iff set_upt atLeastLessThan_iff by simp_all

lemma those_Some: "those (map Some xs) = Some xs"
  by (induction xs) simp_all

lemma decode_encode:
  assumes "alphabet_ok alphabet"
  shows "decode_with alphabet (encode_with alphabet s) = Some s"
proof -
  have keep: "filter (\<lambda>c. c \<noteq> CHR 0x0A \<and> c \<noteq> CHR 0x0D) (encode_with alphabet s) = encode_with alphabet s"
    using alphabet_facts(2) [OF assms] sextets_less by (intro filter_True ballI) (auto simp: encode_with_def)
  have "map (map_of (zip alphabet [0..<64])) (encode_with alphabet s) = map Some (sextets s)"
    using alphabet_facts(1) [OF assms] sextets_less by (simp add: encode_with_def)
  then show ?thesis unfolding decode_with_def keep by (simp add: those_Some octets_of_sextets)
qed

lemmas b64_decode_encode = decode_encode [OF alphabets(1), folded b64_decode_def b64_encode_def]
lemmas b64_std_decode_encode = decode_encode [OF alphabets(2), folded b64_std_decode_def b64_std_encode_def]

lemma encode_no_dollar: "alphabet_ok alphabet \<Longrightarrow> CHR ''$'' \<notin> set (encode_with alphabet s)"
  using alphabet_facts(3) sextets_less by (fastforce simp: encode_with_def)

lemma b64_encode_length: "3 * length (b64_encode s) \<le> 4 * length s + 2"
proof -
  have "3 * length (sextets s) \<le> 4 * length s + 2" by (induction s rule: sextets.induct) simp_all
  then show ?thesis by (simp add: b64_encode_def encode_with_def)
qed

lemma b64_length_32: "length s = 32 \<Longrightarrow> length (b64_encode s) = 43"
proof -
  have "length (sextets s) = (4 * length s + 2) div 3" by (induction s rule: sextets.induct) simp_all
  then show "length s = 32 \<Longrightarrow> length (b64_encode s) = 43" by (simp add: b64_encode_def encode_with_def)
qed

subsection \<open>Query values\<close>

text \<open>\<open>url.QueryEscape\<close>\<close>

definition unreserved :: "char \<Rightarrow> bool" where
  "unreserved c = (c \<in> set ''ABCDEFGHIJKLMNOPQRSTUVWXYZabcdefghijklmnopqrstuvwxyz0123456789-_.~'')"

definition upper_hex :: "nat \<Rightarrow> char" where
  "upper_hex d = ''0123456789ABCDEF'' ! d"

definition QueryEscape :: "string \<Rightarrow> string" where
  "QueryEscape s = concat (map (\<lambda>c. if unreserved c then [c] else if c = CHR '' '' then ''+''
     else [CHR ''%'', upper_hex (of_char c div 16), upper_hex (of_char c mod 16)]) s)"

text \<open>\<open>url.PathEscape\<close>\<close>

definition PathEscape :: "string \<Rightarrow> string" where
  "PathEscape s = concat (map (\<lambda>c. if unreserved c \<or> c \<in> set ''$&+:=@'' then [c]
     else [CHR ''%'', upper_hex (of_char c div 16), upper_hex (of_char c mod 16)]) s)"

text \<open>
  \<open>url.Values\<close>, as the list of its keys with their values: \<open>Get\<close>, \<open>Has\<close>, \<open>Del\<close>, and \<open>Encode\<close>,
  which orders the keys.
\<close>

type_synonym Values = "(string \<times> string list) list"

definition q_Get :: "Values \<Rightarrow> string \<Rightarrow> string" where
  "q_Get q k = (case map_of q k of Some (v # vs) \<Rightarrow> v | _ \<Rightarrow> [])"

definition q_Has :: "Values \<Rightarrow> string \<Rightarrow> bool" where
  "q_Has q k = (map_of q k \<noteq> None)"

definition q_All :: "Values \<Rightarrow> string \<Rightarrow> string list" where
  "q_All q k = (case map_of q k of Some vs \<Rightarrow> vs | None \<Rightarrow> [])"

definition q_Del :: "string \<Rightarrow> Values \<Rightarrow> Values" where
  "q_Del k q = filter (\<lambda>(k', vs). k' \<noteq> k) q"

definition q_Encode :: "Values \<Rightarrow> string" where
  "q_Encode q =
     (let pairs = concat (map (\<lambda>(k, vs). map (\<lambda>v. QueryEscape k @ ''='' @ QueryEscape v) vs) (sort_key fst q)) in
      case pairs of [] \<Rightarrow> [] | p # ps \<Rightarrow> p @ concat (map (\<lambda>p. CHR ''&'' # p) ps))"

end
