(* ===== verification/Sx_Journal.thy ===== *)
theory Sx_Journal
  imports Sx_Encoding
begin

text \<open>
  The operator's journal of lifecycle decisions: \<open>src/internal/lifecycle/journal.go\<close> and the
  comparison of a database with it in \<open>src/internal/lifecycle/database.go\<close>.  The journal is a
  file of encrypted lines, each bound to the hash of the line before it, and a checkpoint file
  holds the authenticated head.

  \<open>encoding/json\<close>, AES-GCM, HMAC-SHA-256 and SHA-256 are the record \<open>prims\<close> of functions; what
  the code relies on is stated where it is used.  The file system is a map of regular files with
  their permissions, on an operating system other than Windows.  Random bytes are arguments.
\<close>

subsection \<open>Types\<close>

record Action =
  ac_Kind :: string
  ac_CaseRef :: string
  ac_WorkspaceID :: string
  ac_TargetID :: string
  ac_ReplacementID :: string
  ac_AuthorityRef :: string
  ac_ReviewAt :: string
  ac_Cutoff :: string
  ac_Correction :: string
  ac_EventSeq :: int
  ac_At :: string
  ac_InstanceID :: string
  ac_WorkspaceOrigin :: string
  ac_ItemIDs :: "string list"
  ac_CommentIDs :: "string list"
  ac_ViewIDs :: "string list"

record Head =
  he_InstanceID :: string
  he_Sequence :: int
  he_Hash :: string
  he_MAC :: string

record Record =
  re_InstanceID :: string
  re_Sequence :: int
  re_Previous :: string
  re_Action :: Action
  re_Hash :: string

record envelope =
  en_Nonce :: string
  en_Ciphertext :: string

record Journal =
  jo_Path :: string
  jo_Checkpoint :: string
  jo_Key :: string
  jo_Head :: Head
  jo_Records :: "Record list"

datatype journal_error =
    FileUnavailable | FilePermissions | FileLimit | KeyLength | InvalidData | CheckpointAuthentication
  | InvalidNonce | ChainAuthentication | SequenceMismatch | RecordLimit | PartialRecord | Truncated
  | JournalLocked | PathsRequired | NeverOverwrites | OtherInstance | CapacityReached | OSFailure | HeadNotSaved

text \<open>The primitives: JSON of the three structures (\<open>read_\<close> is \<open>strictJSON\<close>), sealing and hashing.\<close>

record prims =
  json_head :: "Head \<Rightarrow> string"
  read_head :: "string \<Rightarrow> Head option"
  json_record :: "Record \<Rightarrow> string"
  read_record :: "string \<Rightarrow> Record option"
  json_envelope :: "envelope \<Rightarrow> string"
  read_envelope :: "string \<Rightarrow> envelope option"
  gcm_seal :: "string \<Rightarrow> string \<Rightarrow> string \<Rightarrow> string \<Rightarrow> string"
  gcm_open :: "string \<Rightarrow> string \<Rightarrow> string \<Rightarrow> string \<Rightarrow> string option"
  hmac_sha256 :: "string \<Rightarrow> string \<Rightarrow> string"
  sha256 :: "string \<Rightarrow> string"

record stored_file =
  fi_regular :: bool
  fi_perm :: nat
  fi_data :: string

type_synonym files = "string \<Rightarrow> stored_file option"

abbreviation newline :: char where
  "newline \<equiv> CHR 0x0A"

subsection \<open>Protected files\<close>

definition privateFile :: "files \<Rightarrow> string \<Rightarrow> journal_error + string" where
  "privateFile fs path =
     (case fs path of
        None \<Rightarrow> Inl FileUnavailable
      | Some f \<Rightarrow>
          if \<not> fi_regular f then Inl FileUnavailable
          else if fi_perm f mod 64 \<noteq> 0 then Inl FilePermissions
          else if int (length (fi_data f)) > 2 ^ 27 then Inl FileLimit
          else Inr (fi_data f))"

definition keyFile :: "files \<Rightarrow> string \<Rightarrow> journal_error + string" where
  "keyFile fs path = rbind (privateFile fs path) (\<lambda>b. if length b \<noteq> 32 then Inl KeyLength else Inr b)"

definition guardKey :: "prims \<Rightarrow> string \<Rightarrow> string" where
  "guardKey pr key = hmac_sha256 pr key ''sierx-lifecycle-checkpoint-v1''"

definition authenticate :: "prims \<Rightarrow> Head \<Rightarrow> string \<Rightarrow> string" where
  "authenticate pr h key = hex_encode (hmac_sha256 pr key (json_head pr (h\<lparr>he_MAC := []\<rparr>)))"

subsection \<open>Loading\<close>

text \<open>
  \<open>bufio.Scanner\<close> with lines: a line ends before a newline or at the end of the data, a
  carriage return at its end is dropped, and a line of \<open>2 << 20\<close> bytes or extra does not fit its
  buffer together with its newline.
\<close>

function scan_lines :: "string \<Rightarrow> string list" where
  "scan_lines s = (if s = [] then [] else
     let l = takeWhile (\<lambda>c. c \<noteq> newline) s in l # scan_lines (drop (Suc (length l)) s))"
  by pat_completeness auto
termination by (relation "measure length") (auto simp: Let_def)

declare scan_lines.simps [simp del]

definition dropCR :: "string \<Rightarrow> string" where
  "dropCR l = (if l \<noteq> [] \<and> last l = CHR 0x0D then butlast l else l)"

text \<open>One line: opened with the head so far, checked against it, and with its own hash.\<close>

definition open_line :: "prims \<Rightarrow> string \<Rightarrow> Journal \<Rightarrow> string \<Rightarrow> journal_error + Record" where
  "open_line pr instance j line =
     (if int (length line) \<ge> 2 ^ 21 then Inl RecordLimit
      else let b = dropCR line in
      rbind (some_or (read_envelope pr b) InvalidData) (\<lambda>e.
      if length (en_Nonce e) \<noteq> 12 then Inl InvalidNonce
      else rbind (some_or (gcm_open pr (jo_Key j) (en_Nonce e) (en_Ciphertext e)
          (he_InstanceID (jo_Head j) @ '':'' @ he_Hash (jo_Head j))) ChainAuthentication) (\<lambda>plain.
      rbind (some_or (read_record pr plain) InvalidData) (\<lambda>r.
      if re_InstanceID r \<noteq> instance \<or> re_Sequence r \<noteq> he_Sequence (jo_Head j) + 1 \<or>
         re_Previous r \<noteq> he_Hash (jo_Head j) \<or> ac_InstanceID (re_Action r) \<noteq> instance then Inl SequenceMismatch
      else Inr (r\<lparr>re_Hash := hex_encode (sha256 pr b)\<rparr>)))))"

definition add_record :: "Journal \<Rightarrow> Record \<Rightarrow> Journal" where
  "add_record j r = j\<lparr>jo_Records := jo_Records j @ [r],
     jo_Head := (jo_Head j)\<lparr>he_Sequence := re_Sequence r, he_Hash := re_Hash r\<rparr>\<rparr>"

definition read_line :: "prims \<Rightarrow> Head \<Rightarrow> Journal \<times> bool \<Rightarrow> string \<Rightarrow> journal_error + Journal \<times> bool" where
  "read_line pr saved st line =
     (case st of (j, matched) \<Rightarrow>
      rbind (open_line pr (he_InstanceID saved) j line) (\<lambda>r.
      Inr (add_record j r, matched \<or> re_Sequence r = he_Sequence saved \<and> re_Hash r = he_Hash saved)))"

text \<open>The checkpoint, once its authentication has been checked.\<close>

definition load_head :: "prims \<Rightarrow> files \<Rightarrow> string \<Rightarrow> string \<Rightarrow> journal_error + Head" where
  "load_head pr fs key checkpoint =
     rbind (privateFile fs checkpoint) (\<lambda>hb.
     rbind (some_or (read_head pr hb) InvalidData) (\<lambda>saved.
     if he_MAC saved \<noteq> authenticate pr saved (guardKey pr key) \<or> he_InstanceID saved = [] \<or> he_Sequence saved < 0
     then Inl CheckpointAuthentication else Inr saved))"

definition load_data :: "prims \<Rightarrow> string \<Rightarrow> string \<Rightarrow> string \<Rightarrow> Head \<Rightarrow> bool \<Rightarrow> string \<Rightarrow> journal_error + Journal" where
  "load_data pr path checkpoint key saved allowTail data =
     (let j0 = \<lparr>jo_Path = path, jo_Checkpoint = checkpoint, jo_Key = key,
                jo_Head = \<lparr>he_InstanceID = he_InstanceID saved, he_Sequence = 0, he_Hash = [], he_MAC = []\<rparr>, jo_Records = []\<rparr> in
      rbind (rfold (read_line pr saved) (j0, he_Sequence saved = 0 \<and> he_Hash saved = []) (scan_lines data)) (\<lambda>(j, matched).
      if data \<noteq> [] \<and> last data \<noteq> newline then Inl PartialRecord
      else if \<not> matched \<or> \<not> allowTail \<and> (he_Sequence (jo_Head j) \<noteq> he_Sequence saved \<or> he_Hash (jo_Head j) \<noteq> he_Hash saved) then Inl Truncated
      else Inr j))"

definition load :: "prims \<Rightarrow> files \<Rightarrow> string \<Rightarrow> string \<Rightarrow> string \<Rightarrow> bool \<Rightarrow> journal_error + Journal" where
  "load pr fs path keyPath checkpoint allowTail =
     rbind (keyFile fs keyPath) (\<lambda>key.
     rbind (load_head pr fs key checkpoint) (\<lambda>saved.
     rbind (privateFile fs path) (\<lambda>data.
     load_data pr path checkpoint key saved allowTail data)))"

definition Load :: "prims \<Rightarrow> files \<Rightarrow> string \<Rightarrow> string \<Rightarrow> string \<Rightarrow> journal_error + Journal" where
  "Load pr fs path keyPath checkpoint = load pr fs path keyPath checkpoint False"

subsection \<open>Writing\<close>

text \<open>
  What the operating system does: everything succeeds, the append stops after some bytes, the
  synchronisation or closing of the journal fails, the new checkpoint cannot be put in place, or
  the directory cannot be synchronised after it was.
\<close>

datatype fault = NoFault | WriteFault nat | SyncFault | HeadFault | DirFault

definition owner_only :: "string \<Rightarrow> stored_file" where
  "owner_only data = \<lparr>fi_regular = True, fi_perm = 384, fi_data = data\<rparr>"

definition writeHead :: "prims \<Rightarrow> fault \<Rightarrow> Journal \<Rightarrow> files \<Rightarrow> (journal_error + unit) \<times> files" where
  "writeHead pr fault j fs =
     (let h = (jo_Head j)\<lparr>he_MAC := authenticate pr (jo_Head j) (guardKey pr (jo_Key j))\<rparr>;
          fs' = fs(jo_Checkpoint j \<mapsto> owner_only (json_head pr h @ [newline])) in
      case fault of HeadFault \<Rightarrow> (Inl OSFailure, fs) | DirFault \<Rightarrow> (Inl OSFailure, fs') | _ \<Rightarrow> (Inr (), fs'))"

definition RecoverCheckpoint :: "prims \<Rightarrow> fault \<Rightarrow> files \<Rightarrow> string \<Rightarrow> string \<Rightarrow> string \<Rightarrow> (journal_error + Journal) \<times> files" where
  "RecoverCheckpoint pr fault fs path keyPath checkpoint =
     (case load pr fs path keyPath checkpoint True of
        Inl e \<Rightarrow> (Inl e, fs)
      | Inr j \<Rightarrow> (case writeHead pr fault j fs of (Inl e, fs') \<Rightarrow> (Inl e, fs') | (Inr _, fs') \<Rightarrow> (Inr j, fs')))"

text \<open>\<open>Lock\<close> makes a directory; the set holds the directories that exist, and unlocking removes it again.\<close>

definition Lock :: "string set \<Rightarrow> string \<Rightarrow> journal_error + string set" where
  "Lock dirs path = (if path @ ''.lock'' \<in> dirs then Inl JournalLocked else Inr (insert (path @ ''.lock'') dirs))"

text \<open>
  \<open>Init\<close> creates the key, the journal, the verification key beside the checkpoint, whose path is
  the argument \<open>verification\<close>, and the checkpoint.  \<open>O_EXCL\<close> refuses an existing file.
\<close>

definition create_excl :: "files \<Rightarrow> string \<Rightarrow> string \<Rightarrow> journal_error + files" where
  "create_excl fs path data = (if fs path \<noteq> None then Inl OSFailure else Inr (fs(path \<mapsto> owner_only data)))"

definition Init :: "prims \<Rightarrow> string \<Rightarrow> fault \<Rightarrow> files \<Rightarrow> string \<Rightarrow> string \<Rightarrow> string \<Rightarrow> string \<Rightarrow> string \<Rightarrow> journal_error + Journal \<times> files" where
  "Init pr key fault fs path keyPath checkpoint verification instance =
     (if path = keyPath \<or> path = checkpoint \<or> keyPath = checkpoint \<or> instance = [] then Inl PathsRequired
      else if list_ex (\<lambda>p. fs p \<noteq> None) [path, keyPath, checkpoint, verification] then Inl NeverOverwrites
      else rbind (create_excl fs keyPath key) (\<lambda>fs1.
        rbind (create_excl fs1 path []) (\<lambda>fs2.
        rbind (create_excl fs2 verification (guardKey pr key)) (\<lambda>fs3.
        let j = \<lparr>jo_Path = path, jo_Checkpoint = checkpoint, jo_Key = key,
                 jo_Head = \<lparr>he_InstanceID = instance, he_Sequence = 0, he_Hash = [], he_MAC = []\<rparr>, jo_Records = []\<rparr> in
        case writeHead pr fault j fs3 of (Inl e, fs4) \<Rightarrow> Inl e | (Inr _, fs4) \<Rightarrow> Inr (j, fs4)))))"

definition next_record :: "Journal \<Rightarrow> Action \<Rightarrow> Record" where
  "next_record j a = \<lparr>re_InstanceID = he_InstanceID (jo_Head j), re_Sequence = he_Sequence (jo_Head j) + 1,
     re_Previous = he_Hash (jo_Head j), re_Action = a, re_Hash = []\<rparr>"

definition sealed :: "prims \<Rightarrow> string \<Rightarrow> Journal \<Rightarrow> Record \<Rightarrow> envelope" where
  "sealed pr nonce j r = \<lparr>en_Nonce = nonce,
     en_Ciphertext = gcm_seal pr (jo_Key j) nonce (json_record pr r) (re_InstanceID r @ '':'' @ re_Previous r)\<rparr>"

definition append_file :: "files \<Rightarrow> string \<Rightarrow> string \<Rightarrow> files" where
  "append_file fs path b = (case fs path of None \<Rightarrow> fs | Some f \<Rightarrow> fs(path \<mapsto> f\<lparr>fi_data := fi_data f @ b\<rparr>))"

definition Append :: "prims \<Rightarrow> string \<Rightarrow> fault \<Rightarrow> Journal \<Rightarrow> Action \<Rightarrow> files \<Rightarrow> (journal_error + Record) \<times> Journal \<times> files" where
  "Append pr nonce fault j a fs =
     (if ac_InstanceID a \<noteq> he_InstanceID (jo_Head j) then (Inl OtherInstance, j, fs)
      else
        let r = next_record j a; b = json_envelope pr (sealed pr nonce j r) in
        if int (length b) > 2 ^ 21 then (Inl RecordLimit, j, fs)
        else case privateFile fs (jo_Path j) of
            Inl e \<Rightarrow> (Inl e, j, fs)
          | Inr data \<Rightarrow>
              if int (length data) + int (length b) + 1 > 2 ^ 27 then (Inl CapacityReached, j, fs)
              else (case fault of
                  WriteFault n \<Rightarrow> (Inl OSFailure, j, append_file fs (jo_Path j) (take n (b @ [newline])))
                | SyncFault \<Rightarrow> (Inl OSFailure, j, append_file fs (jo_Path j) (b @ [newline]))
                | _ \<Rightarrow>
                    let j' = add_record j (r\<lparr>re_Hash := hex_encode (sha256 pr b)\<rparr>) in
                    case writeHead pr fault j' (append_file fs (jo_Path j) (b @ [newline])) of
                      (Inl e, fs') \<Rightarrow> (Inl HeadNotSaved, j', fs')
                    | (Inr _, fs') \<Rightarrow> (Inr (last (jo_Records j')), j', fs')))"

subsection \<open>Comparing with a database\<close>

definition Matches :: "Journal \<Rightarrow> Head \<Rightarrow> bool" where
  "Matches j h = (he_InstanceID (jo_Head j) = he_InstanceID h \<and> he_Sequence (jo_Head j) = he_Sequence h \<and> he_Hash (jo_Head j) = he_Hash h)"

text \<open>\<open>Prefix\<close>; \<open>None\<close> is the panic of an index out of range.\<close>

definition Prefix :: "Journal \<Rightarrow> Head \<Rightarrow> bool option" where
  "Prefix j h =
     (if he_InstanceID h \<noteq> he_InstanceID (jo_Head j) \<or> he_Sequence h < 0 \<or> he_Sequence h > he_Sequence (jo_Head j) then Some False
      else if he_Sequence h = 0 then Some (he_Hash h = [])
      else if he_Sequence h - 1 < int (length (jo_Records j)) then Some (re_Hash (jo_Records j ! nat (he_Sequence h - 1)) = he_Hash h)
      else None)"

subsection \<open>Lines\<close>

definition whole :: "string \<Rightarrow> bool" where
  "whole data = (data = [] \<or> last data = newline)"

lemma scan_lines_Nil [simp]: "scan_lines [] = []"
  by (simp add: scan_lines.simps)

lemma scan_lines_line: "newline \<notin> set l \<Longrightarrow> scan_lines (l @ newline # rest) = l # scan_lines rest"
proof -
  assume l: "newline \<notin> set l"
  then have "takeWhile (\<lambda>c. c \<noteq> newline) (l @ newline # rest) = l" by (simp add: takeWhile_append)
  then show ?thesis using scan_lines.simps [of "l @ newline # rest"] by (simp add: Let_def)
qed

lemma whole_line:
  assumes "whole data" "data \<noteq> []"
  obtains l rest where "newline \<notin> set l" "data = l @ newline # rest" "whole rest"
proof -
  have "newline \<in> set data" using assms last_in_set [of data] by (auto simp: whole_def)
  then obtain l rest where l: "data = l @ newline # rest" "newline \<notin> set l" by (meson split_list_first)
  then have "whole rest" using assms by (cases "rest = []") (auto simp: whole_def)
  then show ?thesis using that l by blast
qed

lemma scan_lines_append: "whole data \<Longrightarrow> scan_lines (data @ extra) = scan_lines data @ scan_lines extra"
proof (induction data rule: length_induct)
  case (1 data)
  show ?case
  proof (cases "data = []")
    case False
    obtain l rest where l: "newline \<notin> set l" "data = l @ newline # rest" "whole rest" using whole_line [OF 1(2) False] .
    then have "scan_lines (rest @ extra) = scan_lines rest @ scan_lines extra" using 1(1) by simp
    then show ?thesis using l scan_lines_line [OF l(1)] by simp
  qed simp
qed

lemma scan_lines_pos: "data \<noteq> [] \<Longrightarrow> scan_lines data \<noteq> []"
  by (subst scan_lines.simps) (simp add: Let_def)

subsection \<open>What a loaded journal is\<close>

text \<open>The hash a record has to name as its predecessor, and the chain of records.\<close>

definition previous_hash :: "Record list \<Rightarrow> string" where
  "previous_hash rs = (if rs = [] then [] else re_Hash (last rs))"

definition chained :: "string \<Rightarrow> Record list \<Rightarrow> bool" where
  "chained instance rs = (\<forall>i < length rs. re_InstanceID (rs ! i) = instance \<and> ac_InstanceID (re_Action (rs ! i)) = instance \<and>
     re_Sequence (rs ! i) = int i + 1 \<and> re_Previous (rs ! i) = previous_hash (take i rs))"

definition journal_ok :: "Journal \<Rightarrow> bool" where
  "journal_ok j = (chained (he_InstanceID (jo_Head j)) (jo_Records j) \<and>
     he_Sequence (jo_Head j) = int (length (jo_Records j)) \<and> he_Hash (jo_Head j) = previous_hash (jo_Records j))"

lemma chained_snoc:
  "chained inst (rs @ [r]) \<longleftrightarrow> chained inst rs \<and> re_InstanceID r = inst \<and> ac_InstanceID (re_Action r) = inst \<and>
     re_Sequence r = int (length rs) + 1 \<and> re_Previous r = previous_hash rs"
  by (auto simp: chained_def nth_append less_Suc_eq)

lemma open_line_Inr:
  assumes "open_line pr inst j line = Inr r"
  shows "re_InstanceID r = inst \<and> re_Sequence r = he_Sequence (jo_Head j) + 1 \<and> re_Previous r = he_Hash (jo_Head j) \<and> ac_InstanceID (re_Action r) = inst"
  using assms by (auto simp: open_line_def Let_def result_simps split: if_splits)

lemma read_line_Inr:
  "read_line pr saved (j, m) line = Inr (j', m') \<longleftrightarrow>
     (\<exists>r. open_line pr (he_InstanceID saved) j line = Inr r \<and> j' = add_record j r \<and>
        (m' \<longleftrightarrow> m \<or> re_Sequence r = he_Sequence saved \<and> re_Hash r = he_Hash saved))"
  by (auto simp: read_line_def result_simps)

definition marks :: "Head \<Rightarrow> Record list \<Rightarrow> bool" where
  "marks saved rs = (he_Sequence saved = 0 \<and> he_Hash saved = [] \<or> (\<exists>r \<in> set rs. re_Sequence r = he_Sequence saved \<and> re_Hash r = he_Hash saved))"

definition same_place :: "Journal \<Rightarrow> Journal \<Rightarrow> bool" where
  "same_place j j' = (jo_Path j' = jo_Path j \<and> jo_Checkpoint j' = jo_Checkpoint j \<and> jo_Key j' = jo_Key j \<and>
     he_InstanceID (jo_Head j') = he_InstanceID (jo_Head j) \<and> he_MAC (jo_Head j') = he_MAC (jo_Head j))"

lemma read_line_keeps:
  assumes "read_line pr saved (j, m) line = Inr (j', m')" "journal_ok j" "he_InstanceID saved = he_InstanceID (jo_Head j)" "m \<longleftrightarrow> marks saved (jo_Records j)"
  shows "journal_ok j' \<and> same_place j j' \<and> (m' \<longleftrightarrow> marks saved (jo_Records j')) \<and> length (jo_Records j') = Suc (length (jo_Records j))"
proof -
  obtain r where r: "open_line pr (he_InstanceID saved) j line = Inr r" "j' = add_record j r" "m' \<longleftrightarrow> m \<or> re_Sequence r = he_Sequence saved \<and> re_Hash r = he_Hash saved"
    using assms(1) by (auto simp: read_line_Inr)
  show ?thesis using open_line_Inr [OF r(1)] r(2,3) assms(2-4)
    by (auto simp: add_record_def journal_ok_def chained_snoc same_place_def marks_def previous_hash_def [of "_ @ [_]"])
qed

lemma read_lines_keep:
  assumes "rfold (read_line pr saved) (j, m) ls = Inr (j', m')" "journal_ok j" "he_InstanceID saved = he_InstanceID (jo_Head j)" "m \<longleftrightarrow> marks saved (jo_Records j)"
  shows "journal_ok j' \<and> same_place j j' \<and> (m' \<longleftrightarrow> marks saved (jo_Records j')) \<and> length (jo_Records j') = length (jo_Records j) + length ls"
  using assms
proof (induction ls arbitrary: j m)
  case (Cons l ls)
  then obtain j1 m1 where l: "read_line pr saved (j, m) l = Inr (j1, m1)" "rfold (read_line pr saved) (j1, m1) ls = Inr (j', m')"
    by (auto simp: result_simps)
  note k = read_line_keeps [OF l(1) Cons.prems(2-4)]
  then have "he_InstanceID saved = he_InstanceID (jo_Head j1)" using Cons.prems(3) by (simp add: same_place_def)
  then show ?case using Cons.IH [OF l(2)] k by (auto simp: same_place_def)
qed (auto simp: same_place_def)

lemma read_lines_other:
  assumes "rfold (read_line pr saved) (j, m) ls = Inr (j', m')" "he_InstanceID saved' = he_InstanceID saved"
  shows "\<exists>n'. rfold (read_line pr saved') (j, n) ls = Inr (j', n')"
  using assms(1)
proof (induction ls arbitrary: j m n)
  case (Cons l ls)
  then obtain j1 m1 where l: "read_line pr saved (j, m) l = Inr (j1, m1)" "rfold (read_line pr saved) (j1, m1) ls = Inr (j', m')"
    by (auto simp: result_simps)
  then have "\<exists>n1. read_line pr saved' (j, n) l = Inr (j1, n1)" using assms(2) by (auto simp: read_line_Inr)
  then show ?case using Cons.IH [OF l(2)] by fastforce
qed simp

definition fresh :: "string \<Rightarrow> string \<Rightarrow> string \<Rightarrow> string \<Rightarrow> Journal" where
  "fresh path checkpoint key instance = \<lparr>jo_Path = path, jo_Checkpoint = checkpoint, jo_Key = key,
     jo_Head = \<lparr>he_InstanceID = instance, he_Sequence = 0, he_Hash = [], he_MAC = []\<rparr>, jo_Records = []\<rparr>"

lemma fresh_ok [simp]: "journal_ok (fresh path checkpoint key inst)" "jo_Records (fresh path checkpoint key inst) = []"
  "he_InstanceID (jo_Head (fresh path checkpoint key inst)) = inst"
  by (simp_all add: fresh_def journal_ok_def chained_def previous_hash_def)

text \<open>Loading succeeds exactly when the lines can be read, are complete and reach the checkpoint.\<close>

lemma load_data_unfold:
  "load_data pr path checkpoint key saved tail data =
     rbind (rfold (read_line pr saved) (fresh path checkpoint key (he_InstanceID saved), he_Sequence saved = 0 \<and> he_Hash saved = []) (scan_lines data))
     (\<lambda>(j, matched).
      if \<not> whole data then Inl PartialRecord
      else if \<not> matched \<or> \<not> tail \<and> (he_Sequence (jo_Head j) \<noteq> he_Sequence saved \<or> he_Hash (jo_Head j) \<noteq> he_Hash saved) then Inl Truncated
      else Inr j)"
  by (simp add: load_data_def fresh_def Let_def whole_def)

lemma load_data_iff:
  "load_data pr path checkpoint key saved tail data = Inr j \<longleftrightarrow>
     (\<exists>m. rfold (read_line pr saved) (fresh path checkpoint key (he_InstanceID saved), he_Sequence saved = 0 \<and> he_Hash saved = []) (scan_lines data) = Inr (j, m)) \<and>
     whole data \<and> marks saved (jo_Records j) \<and> (tail \<or> he_Sequence (jo_Head j) = he_Sequence saved \<and> he_Hash (jo_Head j) = he_Hash saved)"
  (is "_ \<longleftrightarrow> (\<exists>m. ?run m) \<and> _")
proof -
  have m: "m \<longleftrightarrow> marks saved (jo_Records j)" if "?run m" for m
    using read_lines_keep [OF that] by (simp add: marks_def)
  let ?r = "rfold (read_line pr saved) (fresh path checkpoint key (he_InstanceID saved), he_Sequence saved = 0 \<and> he_Hash saved = []) (scan_lines data)"
  note d = load_data_unfold [of pr path checkpoint key saved tail data]
  show ?thesis
  proof (cases ?r)
    case (Inl e)
    then show ?thesis unfolding d by simp
  next
    case (Inr jm)
    then show ?thesis using m unfolding d by (cases jm) auto
  qed
qed

lemma load_data_tail:
  assumes "load_data pr path checkpoint key saved True data = Inr j" "he_Sequence (jo_Head j) \<noteq> he_Sequence saved"
  shows "load_data pr path checkpoint key saved False data = Inl Truncated"
proof -
  obtain m where m: "rfold (read_line pr saved) (fresh path checkpoint key (he_InstanceID saved), he_Sequence saved = 0 \<and> he_Hash saved = []) (scan_lines data) = Inr (j, m)"
    "whole data" using assms(1) unfolding load_data_iff by blast
  show ?thesis unfolding load_data_unfold m(1) rbind_simps prod.case using m(2) assms(2) by (simp only: if_False if_True simp_thms)
qed

lemma load_data_facts:
  assumes "load_data pr path checkpoint key saved tail data = Inr j"
  shows "journal_ok j" "jo_Path j = path" "jo_Checkpoint j = checkpoint" "jo_Key j = key" "he_InstanceID (jo_Head j) = he_InstanceID saved"
    "he_MAC (jo_Head j) = []" "int (length (scan_lines data)) = he_Sequence (jo_Head j)"
proof -
  obtain m where "rfold (read_line pr saved) (fresh path checkpoint key (he_InstanceID saved), he_Sequence saved = 0 \<and> he_Hash saved = []) (scan_lines data) = Inr (j, m)"
    using assms unfolding load_data_iff by blast
  from read_lines_keep [OF this] have k: "journal_ok j" "same_place (fresh path checkpoint key (he_InstanceID saved)) j" "length (jo_Records j) = length (scan_lines data)"
    by (auto simp: marks_def)
  then show "journal_ok j" "jo_Path j = path" "jo_Checkpoint j = checkpoint" "jo_Key j = key" "he_InstanceID (jo_Head j) = he_InstanceID saved"
    "he_MAC (jo_Head j) = []" "int (length (scan_lines data)) = he_Sequence (jo_Head j)"
    by (auto simp: same_place_def fresh_def journal_ok_def)
qed

lemma load_Inr:
  assumes "load pr fs path keyPath checkpoint tail = Inr j"
  obtains key saved data where "keyFile fs keyPath = Inr key" "load_head pr fs key checkpoint = Inr saved" "privateFile fs path = Inr data"
    "load_data pr path checkpoint key saved tail data = Inr j"
  using assms by (auto simp: load_def result_simps)

lemma Prefix_total: "journal_ok j \<Longrightarrow> Prefix j h \<noteq> None"
  by (auto simp: Prefix_def journal_ok_def)

lemma marks_Prefix:
  assumes "journal_ok j" "marks saved (jo_Records j)" "he_InstanceID (jo_Head j) = he_InstanceID saved" "0 \<le> he_Sequence saved"
  shows "Prefix j saved = Some True"
proof (cases "he_Sequence saved = 0 \<and> he_Hash saved = []")
  case True
  then show ?thesis using assms(1,3) by (simp add: Prefix_def journal_ok_def)
next
  case False
  then obtain r where r: "r \<in> set (jo_Records j)" "re_Sequence r = he_Sequence saved" "re_Hash r = he_Hash saved" using assms(2) by (auto simp: marks_def)
  then obtain i where i: "i < length (jo_Records j)" "jo_Records j ! i = r" by (auto simp: in_set_conv_nth)
  then have "he_Sequence saved = int i + 1" using assms(1) r(2) by (auto simp: journal_ok_def chained_def)
  then show ?thesis using i r(3) assms(1,3) by (simp add: Prefix_def journal_ok_def)
qed

lemma load_head_Inr:
  assumes "load_head pr fs key checkpoint = Inr saved"
  shows "he_InstanceID saved \<noteq> []" "0 \<le> he_Sequence saved" "he_MAC saved = authenticate pr saved (guardKey pr key)"
  using assms by (auto simp: load_head_def result_simps split: if_splits)

lemma privateFile_Inr: "privateFile fs path = Inr d \<longleftrightarrow>
    (\<exists>f. fs path = Some f \<and> fi_regular f \<and> fi_perm f mod 64 = 0 \<and> int (length (fi_data f)) \<le> 2 ^ 27 \<and> d = fi_data f)"
  by (auto simp: privateFile_def split: option.splits)

lemma privateFile_other: "p \<noteq> q \<Longrightarrow> privateFile (fs(p := x)) q = privateFile fs q"
  by (simp add: privateFile_def)

lemma files_other:
  assumes "p \<noteq> q"
  shows "keyFile (fs(p := x)) q = keyFile fs q" "load_head pr (fs(p := x)) key q = load_head pr fs key q"
  using assms by (simp_all add: keyFile_def load_head_def privateFile_other)

subsection \<open>Appending\<close>

text \<open>
  What appending relies on, at the values it writes: JSON of these structures decodes to them and
  has no control characters, sealed text opens with the same key, nonce and binding, and the
  nonce has the cipher's size.
\<close>

definition line_of :: "prims \<Rightarrow> string \<Rightarrow> Journal \<Rightarrow> Action \<Rightarrow> string" where
  "line_of pr nonce j a = json_envelope pr (sealed pr nonce j (next_record j a))"

definition survives :: "prims \<Rightarrow> string \<Rightarrow> Journal \<Rightarrow> Action \<Rightarrow> bool" where
  "survives pr nonce j a =
     (let r = next_record j a; e = sealed pr nonce j r; b = json_envelope pr e in
      read_envelope pr b = Some e \<and> list_all (\<lambda>c. 32 \<le> (of_char c :: nat)) b \<and> length nonce = 12 \<and>
      (\<forall>binding. gcm_open pr (jo_Key j) nonce (gcm_seal pr (jo_Key j) nonce (json_record pr r) binding) binding = Some (json_record pr r)) \<and>
      read_record pr (json_record pr r) = Some r)"

definition signed_head :: "prims \<Rightarrow> Journal \<Rightarrow> Head" where
  "signed_head pr j = (jo_Head j)\<lparr>he_MAC := authenticate pr (jo_Head j) (guardKey pr (jo_Key j))\<rparr>"

definition head_survives :: "prims \<Rightarrow> Journal \<Rightarrow> bool" where
  "head_survives pr j = (read_head pr (json_head pr (signed_head pr j) @ [newline]) = Some (signed_head pr j) \<and>
     int (length (json_head pr (signed_head pr j))) < 2 ^ 27)"

definition appended :: "prims \<Rightarrow> string \<Rightarrow> Journal \<Rightarrow> Action \<Rightarrow> Journal" where
  "appended pr nonce j a = add_record j ((next_record j a)\<lparr>re_Hash := hex_encode (sha256 pr (line_of pr nonce j a))\<rparr>)"

lemma open_line_appended:
  assumes "survives pr nonce j a" "ac_InstanceID a = he_InstanceID (jo_Head j)" "int (length (line_of pr nonce j a)) < 2 ^ 21"
  shows "open_line pr (he_InstanceID (jo_Head j)) j (line_of pr nonce j a) = Inr ((next_record j a)\<lparr>re_Hash := hex_encode (sha256 pr (line_of pr nonce j a))\<rparr>)"
proof -
  let ?b = "line_of pr nonce j a"
  have s: "read_envelope pr ?b = Some (sealed pr nonce j (next_record j a))" "list_all (\<lambda>c. 32 \<le> (of_char c :: nat)) ?b" "length nonce = 12"
    "gcm_open pr (jo_Key j) nonce (en_Ciphertext (sealed pr nonce j (next_record j a))) (he_InstanceID (jo_Head j) @ '':'' @ he_Hash (jo_Head j)) = Some (json_record pr (next_record j a))"
    "read_record pr (json_record pr (next_record j a)) = Some (next_record j a)"
    using assms(1) by (simp_all add: survives_def Let_def line_of_def sealed_def next_record_def)
  have "32 \<le> (of_char (last ?b) :: nat)" if "?b \<noteq> []" using s(2) last_in_set [OF that] by (simp add: list_all_iff)
  then have "?b \<noteq> [] \<longrightarrow> last ?b \<noteq> CHR 0x0D" by auto
  then have cr: "dropCR ?b = ?b" unfolding dropCR_def by argo
  have n: "en_Nonce (sealed pr nonce j (next_record j a)) = nonce" by (simp add: sealed_def)
  show ?thesis using assms(2,3) s cr n by (simp add: open_line_def some_or_def next_record_def)
qed

lemma line_no_newline: "survives pr nonce j a \<Longrightarrow> newline \<notin> set (line_of pr nonce j a)"
  by (auto simp: survives_def Let_def line_of_def list_all_iff)

text \<open>The journal file with the new line, read with any checkpoint of the instance that it reaches.\<close>

lemma load_data_appended:
  assumes "load_data pr path checkpoint key saved tail data = Inr j" "survives pr nonce j a"
    and "ac_InstanceID a = he_InstanceID (jo_Head j)" "int (length (line_of pr nonce j a)) < 2 ^ 21"
    and "he_InstanceID saved' = he_InstanceID saved" "marks saved' (jo_Records (appended pr nonce j a))"
    and "tail' \<or> he_Sequence (jo_Head (appended pr nonce j a)) = he_Sequence saved' \<and> he_Hash (jo_Head (appended pr nonce j a)) = he_Hash saved'"
  shows "load_data pr path checkpoint key saved' tail' (data @ line_of pr nonce j a @ [newline]) = Inr (appended pr nonce j a)"
proof -
  let ?b = "line_of pr nonce j a" and ?m = "he_Sequence saved' = 0 \<and> he_Hash saved' = []"
  obtain m where m: "rfold (read_line pr saved) (fresh path checkpoint key (he_InstanceID saved), he_Sequence saved = 0 \<and> he_Hash saved = []) (scan_lines data) = Inr (j, m)"
    and w: "whole data" using assms(1) unfolding load_data_iff by blast
  obtain n where n: "rfold (read_line pr saved') (fresh path checkpoint key (he_InstanceID saved'), ?m) (scan_lines data) = Inr (j, n)"
    using read_lines_other [OF m assms(5), of ?m] assms(5) by auto
  have "scan_lines (data @ ?b @ [newline]) = scan_lines data @ [?b]"
    using scan_lines_append [OF w, of "?b @ [newline]"] scan_lines_line [OF line_no_newline [OF assms(2)], of "[]"] by simp
  moreover have "he_InstanceID saved' = he_InstanceID (jo_Head j)" using load_data_facts(5) [OF assms(1)] assms(5) by simp
  then have "\<exists>k. read_line pr saved' (j, n) ?b = Inr (appended pr nonce j a, k)"
    using open_line_appended [OF assms(2-4)] by (simp add: read_line_def appended_def)
  ultimately have "\<exists>k. rfold (read_line pr saved') (fresh path checkpoint key (he_InstanceID saved'), ?m) (scan_lines (data @ ?b @ [newline])) = Inr (appended pr nonce j a, k)"
    using n by (auto simp: rfold_append)
  moreover have "whole (data @ ?b @ [newline])" by (simp add: whole_def)
  ultimately show ?thesis unfolding load_data_iff using assms(6,7) by blast
qed

lemma load_head_written:
  assumes "head_survives pr j" "he_InstanceID (jo_Head j) \<noteq> []" "0 \<le> he_Sequence (jo_Head j)" "fs checkpoint = Some (owner_only (json_head pr (signed_head pr j) @ [newline]))"
  shows "load_head pr fs (jo_Key j) checkpoint = Inr (signed_head pr j)"
proof -
  have "privateFile fs checkpoint = Inr (json_head pr (signed_head pr j) @ [newline])"
    using assms(1,4) by (simp add: privateFile_def owner_only_def head_survives_def)
  moreover have "authenticate pr (signed_head pr j) (guardKey pr (jo_Key j)) = he_MAC (signed_head pr j)"
    by (simp add: signed_head_def authenticate_def)
  ultimately show ?thesis using assms(1-3) by (simp add: load_head_def head_survives_def some_or_def) (simp add: signed_head_def)
qed

lemma signed_head_simps [simp]:
  "he_InstanceID (signed_head pr j) = he_InstanceID (jo_Head j)" "he_Sequence (signed_head pr j) = he_Sequence (jo_Head j)" "he_Hash (signed_head pr j) = he_Hash (jo_Head j)"
  by (simp_all add: signed_head_def)

lemma writeHead_signed:
  "writeHead pr fault j fs = (case fault of HeadFault \<Rightarrow> (Inl OSFailure, fs)
     | DirFault \<Rightarrow> (Inl OSFailure, fs(jo_Checkpoint j \<mapsto> owner_only (json_head pr (signed_head pr j) @ [newline])))
     | _ \<Rightarrow> (Inr (), fs(jo_Checkpoint j \<mapsto> owner_only (json_head pr (signed_head pr j) @ [newline]))))"
  by (cases fault) (simp_all add: writeHead_def signed_head_def Let_def)

lemma appended_simps:
  assumes "journal_ok j"
  shows "he_InstanceID (jo_Head (appended pr nonce j a)) = he_InstanceID (jo_Head j)" "jo_Key (appended pr nonce j a) = jo_Key j"
    "jo_Checkpoint (appended pr nonce j a) = jo_Checkpoint j" "0 \<le> he_Sequence (jo_Head (appended pr nonce j a))"
    "he_Sequence (jo_Head (appended pr nonce j a)) = he_Sequence (jo_Head j) + 1"
    "marks (signed_head pr (appended pr nonce j a)) (jo_Records (appended pr nonce j a))"
  using assms by (simp_all add: appended_def add_record_def next_record_def journal_ok_def marks_def)

lemma Append_NoFault:
  assumes "Append pr nonce NoFault j a fs = (Inr r, j', fs')" "journal_ok j" "privateFile fs path = Inr data" "jo_Path j = path" "jo_Checkpoint j = checkpoint"
  shows "ac_InstanceID a = he_InstanceID (jo_Head j)" "int (length data) + int (length (line_of pr nonce j a)) + 1 \<le> 2 ^ 27" "j' = appended pr nonce j a"
    "r = last (jo_Records j')"
    "fs' = (append_file fs path (line_of pr nonce j a @ [newline]))(checkpoint \<mapsto> owner_only (json_head pr (signed_head pr j') @ [newline]))"
    "privateFile (append_file fs path (line_of pr nonce j a @ [newline])) path = Inr (data @ line_of pr nonce j a @ [newline])"
proof -
  obtain g where g: "fs path = Some g" "fi_regular g" "fi_perm g mod 64 = 0" "data = fi_data g" using assms(3) by (auto simp: privateFile_Inr)
  show a: "ac_InstanceID a = he_InstanceID (jo_Head j)" "int (length data) + int (length (line_of pr nonce j a)) + 1 \<le> 2 ^ 27" "j' = appended pr nonce j a"
    "r = last (jo_Records j')"
    "fs' = (append_file fs path (line_of pr nonce j a @ [newline]))(checkpoint \<mapsto> owner_only (json_head pr (signed_head pr j') @ [newline]))"
    using assms(1,3-5) appended_simps(3) [OF assms(2), of pr nonce a]
    by (auto simp: Append_def Let_def line_of_def [symmetric] appended_def [symmetric] writeHead_signed split: if_splits)
  show "privateFile (append_file fs path (line_of pr nonce j a @ [newline])) path = Inr (data @ line_of pr nonce j a @ [newline])"
    using g a(2) by (simp add: privateFile_def append_file_def)
qed

lemma files_append:
  assumes "p \<noteq> q"
  shows "keyFile (append_file fs p x) q = keyFile fs q" "load_head pr (append_file fs p x) key q = load_head pr fs key q"
  using assms by (simp_all add: append_file_def files_other split: option.split)

subsection \<open>An example\<close>

text \<open>A concrete journal with stand-ins for the primitives; \<open>b\<close> is the text of its one line.\<close>

definition demo_action :: Action where
  "demo_action = \<lparr>ac_Kind = ''hold-create'', ac_CaseRef = [], ac_WorkspaceID = [], ac_TargetID = [], ac_ReplacementID = [], ac_AuthorityRef = [],
     ac_ReviewAt = [], ac_Cutoff = [], ac_Correction = [], ac_EventSeq = 0, ac_At = [], ac_InstanceID = ''i'', ac_WorkspaceOrigin = [],
     ac_ItemIDs = [], ac_CommentIDs = [], ac_ViewIDs = []\<rparr>"

definition demo_key :: string where
  "demo_key = replicate 32 (CHR ''k'')"

definition demo_nonce :: string where
  "demo_nonce = replicate 12 (CHR ''n'')"

definition demo_journal :: Journal where
  "demo_journal = fresh ''j'' ''c'' demo_key ''i''"

definition demo_prims :: "string \<Rightarrow> prims" where
  "demo_prims b = \<lparr>json_head = (\<lambda>h. if he_Sequence h = 0 then ''0'' else ''1''),
     read_head = (\<lambda>s. if s = ''0'' @ [newline] then Some \<lparr>he_InstanceID = ''i'', he_Sequence = 0, he_Hash = [], he_MAC = ''30''\<rparr>
                      else if s = ''1'' @ [newline] then Some \<lparr>he_InstanceID = ''i'', he_Sequence = 1, he_Hash = ''68'', he_MAC = ''31''\<rparr> else None),
     json_record = (\<lambda>r. ''r''), read_record = (\<lambda>s. Some (next_record demo_journal demo_action)),
     json_envelope = (\<lambda>e. b), read_envelope = (\<lambda>s. Some \<lparr>en_Nonce = demo_nonce, en_Ciphertext = ''r''\<rparr>),
     gcm_seal = (\<lambda>k n p a. p), gcm_open = (\<lambda>k n c a. Some c), hmac_sha256 = (\<lambda>k d. d), sha256 = (\<lambda>d. ''h'')\<rparr>"

definition demo_files :: files where
  "demo_files = [''j'' \<mapsto> owner_only [], ''k'' \<mapsto> owner_only demo_key, ''c'' \<mapsto> owner_only (''0'' @ [newline])]"

text \<open>The files after one record\<close>

definition demo_grown :: files where
  "demo_grown = [''j'' \<mapsto> owner_only (''x'' @ [newline]), ''k'' \<mapsto> owner_only demo_key, ''c'' \<mapsto> owner_only (''1'' @ [newline])]"

lemma demo_load: "Load (demo_prims b) demo_files ''j'' ''k'' ''c'' = Inr demo_journal"
proof -
  have k: "keyFile demo_files ''k'' = Inr demo_key" by code_simp
  have h: "load_head (demo_prims b) demo_files demo_key ''c'' = Inr \<lparr>he_InstanceID = ''i'', he_Sequence = 0, he_Hash = [], he_MAC = ''30''\<rparr>"
    by (simp add: load_head_def privateFile_def demo_files_def owner_only_def demo_prims_def some_or_def authenticate_def hex_encode_def hex_digit_def guardKey_def)
  have j: "privateFile demo_files ''j'' = Inr []" by code_simp
  show ?thesis using k h j by (simp add: Load_def load_def load_data_unfold whole_def demo_journal_def) (simp add: fresh_def)
qed

lemma demo_survives: "list_all (\<lambda>c. 32 \<le> (of_char c :: nat)) b \<Longrightarrow> survives (demo_prims b) demo_nonce demo_journal demo_action"
  by (simp add: survives_def Let_def demo_prims_def sealed_def demo_nonce_def)

lemma demo_head_survives: "head_survives (demo_prims b) (appended (demo_prims b) demo_nonce demo_journal demo_action)"
  by (simp add: head_survives_def signed_head_def demo_prims_def authenticate_def appended_def add_record_def next_record_def demo_journal_def fresh_def
      hex_encode_def hex_digit_def guardKey_def)

lemma demo_append:
  assumes "length b \<le> 2 ^ 21"
  shows "\<exists>r fs. Append (demo_prims b) demo_nonce NoFault demo_journal demo_action demo_files = (Inr r, appended (demo_prims b) demo_nonce demo_journal demo_action, fs)"
    "\<exists>fs. Append (demo_prims b) demo_nonce HeadFault demo_journal demo_action demo_files = (Inl HeadNotSaved, appended (demo_prims b) demo_nonce demo_journal demo_action, fs)"
proof -
  have "int (length b) \<le> 2 ^ 21" using assms by simp
  moreover have "line_of (demo_prims b) demo_nonce demo_journal demo_action = b" by (simp add: line_of_def demo_prims_def)
  moreover have "privateFile demo_files ''j'' = Inr []" by code_simp
  moreover have "ac_InstanceID demo_action = he_InstanceID (jo_Head demo_journal)" "jo_Path demo_journal = ''j''" by (simp_all add: demo_action_def demo_journal_def fresh_def)
  ultimately show "\<exists>r fs. Append (demo_prims b) demo_nonce NoFault demo_journal demo_action demo_files = (Inr r, appended (demo_prims b) demo_nonce demo_journal demo_action, fs)"
    "\<exists>fs. Append (demo_prims b) demo_nonce HeadFault demo_journal demo_action demo_files = (Inl HeadNotSaved, appended (demo_prims b) demo_nonce demo_journal demo_action, fs)"
    by (auto simp: Append_def Let_def line_of_def [symmetric] writeHead_signed appended_def)
qed

lemma demo_line: "line_of (demo_prims b) demo_nonce demo_journal demo_action = b"
  by (simp add: line_of_def demo_prims_def)

subsection \<open>Properties\<close>

text \<open>
  C31.  A loaded journal is a chain that contains the trusted checkpoint: its records carry the
  instance, the sequence numbers from one and the hash of their predecessor, its head is the last
  of them, the checkpoint is one of its prefixes, with \<open>Load\<close> the whole of it, and \<open>Prefix\<close>
  never indexes outside the records.
\<close>

theorem load_verified:
  assumes "load pr fs path keyPath checkpoint allowTail = Inr j"
  shows "\<exists>key saved. keyFile fs keyPath = Inr key \<and> load_head pr fs key checkpoint = Inr saved \<and>
    journal_ok j \<and> Prefix j saved = Some True \<and> (allowTail \<or> Matches j saved) \<and> (\<forall>h. Prefix j h \<noteq> None)"
  using assms
proof (rule load_Inr)
  fix key saved data
  assume l: "keyFile fs keyPath = Inr key" "load_head pr fs key checkpoint = Inr saved" "load_data pr path checkpoint key saved allowTail data = Inr j"
  note f = load_data_facts [OF l(3)]
  have "marks saved (jo_Records j)" "allowTail \<or> he_Sequence (jo_Head j) = he_Sequence saved \<and> he_Hash (jo_Head j) = he_Hash saved"
    using l(3) unfolding load_data_iff by auto
  then show ?thesis using l(1,2) f marks_Prefix [OF f(1) _ f(5)] load_head_Inr(2) [OF l(2)] Prefix_total [OF f(1)]
    by (auto simp: Matches_def)
qed

theorem load_verified_witness:
  "\<exists>fs j. load (demo_prims ''x'') fs ''j'' ''k'' ''c'' False = Inr j \<and> length (jo_Records j) = 1 \<and> journal_ok j \<and> (\<forall>h. Prefix j h \<noteq> None)"
proof -
  let ?load = "load (demo_prims ''x'') demo_grown ''j'' ''k'' ''c'' False"
  have "case ?load of Inl e \<Rightarrow> False | Inr j \<Rightarrow> length (jo_Records j) = 1" by code_simp
  then obtain j where "?load = Inr j" "length (jo_Records j) = 1" by (cases ?load) auto
  then show ?thesis using load_verified [of "demo_prims ''x''" demo_grown] by blast
qed

text \<open>
  C32.  Truncation is detected: when a journal loads, it no longer loads after any bytes were cut
  off its end, whether whole records or a part of one.
\<close>

theorem Load_rejects_truncation:
  assumes "Load pr fs path keyPath checkpoint = Inr j" "path \<noteq> keyPath" "path \<noteq> checkpoint"
    and "fs path = Some f" "strict_prefix kept (fi_data f)"
  shows "\<exists>e. Load pr (fs(path \<mapsto> f\<lparr>fi_data := kept\<rparr>)) path keyPath checkpoint = Inl e"
proof (rule ccontr)
  let ?fs = "fs(path \<mapsto> f\<lparr>fi_data := kept\<rparr>)"
  assume "\<nexists>e. Load pr ?fs path keyPath checkpoint = Inl e"
  then obtain j' where j': "load pr ?fs path keyPath checkpoint False = Inr j'"
    unfolding Load_def by (cases "load pr ?fs path keyPath checkpoint False") auto
  obtain key saved data where l: "keyFile fs keyPath = Inr key" "load_head pr fs key checkpoint = Inr saved" "privateFile fs path = Inr data"
    "load_data pr path checkpoint key saved False data = Inr j" using assms(1) unfolding Load_def by (rule load_Inr)
  obtain key' saved' data' where l': "keyFile ?fs keyPath = Inr key'" "load_head pr ?fs key' checkpoint = Inr saved'" "privateFile ?fs path = Inr data'"
    "load_data pr path checkpoint key' saved' False data' = Inr j'" using j' by (rule load_Inr)
  have same: "key' = key" "saved' = saved" using l(1,2) l'(1,2) assms(2,3) by (simp_all add: files_other)
  have d: "data = fi_data f" "data' = kept" using l(3) l'(3) assms(4) by (auto simp: privateFile_Inr)
  have w: "whole kept" using l'(4) d unfolding load_data_iff by simp
  obtain cut where cut: "fi_data f = kept @ cut" "cut \<noteq> []" using assms(5) by (auto simp: strict_prefix_def prefix_def)
  have "length (scan_lines data) = length (scan_lines kept) + length (scan_lines cut)"
    unfolding d(1) cut(1) scan_lines_append [OF w] by simp
  moreover have "int (length (scan_lines data)) = he_Sequence saved" "int (length (scan_lines kept)) = he_Sequence saved"
    using load_data_facts(7) [OF l(4)] load_data_facts(7) [OF l'(4)] l(4) l'(4) same d unfolding load_data_iff by auto
  ultimately show False using scan_lines_pos [OF cut(2)] by simp
qed

theorem Load_rejects_truncation_witness:
  "\<exists>fs j e. Load (demo_prims ''x'') fs ''j'' ''k'' ''c'' = Inr j \<and> Load (demo_prims ''x'') (fs(''j'' \<mapsto> owner_only [])) ''j'' ''k'' ''c'' = Inl e"
proof -
  define fs where "fs = demo_grown"
  have "\<not> isl (Load (demo_prims ''x'') fs ''j'' ''k'' ''c'')" unfolding fs_def by code_simp
  then obtain j where j: "Load (demo_prims ''x'') fs ''j'' ''k'' ''c'' = Inr j" by (cases "Load (demo_prims ''x'') fs ''j'' ''k'' ''c''") auto
  have "\<exists>e. Load (demo_prims ''x'') (fs(''j'' \<mapsto> (owner_only (''x'' @ [newline]))\<lparr>fi_data := []\<rparr>)) ''j'' ''k'' ''c'' = Inl e"
    by (rule Load_rejects_truncation [OF j]) (simp_all add: fs_def demo_grown_def owner_only_def)
  moreover have "(owner_only (''x'' @ [newline]))\<lparr>fi_data := []\<rparr> = owner_only []" by (simp add: owner_only_def)
  ultimately show ?thesis using j by auto
qed

text \<open>
  C33.  Appending is durable: after a successful append the journal loads again and has exactly
  the old records followed by the new one, which holds the action.
\<close>

theorem Append_Load:
  assumes "Load pr fs path keyPath checkpoint = Inr j" "distinct [path, keyPath, checkpoint]"
    and "Append pr nonce NoFault j a fs = (Inr r, j', fs')"
    and "survives pr nonce j a" "head_survives pr j'" "int (length (line_of pr nonce j a)) < 2 ^ 21"
  shows "Load pr fs' path keyPath checkpoint = Inr j' \<and> jo_Records j' = jo_Records j @ [r] \<and> re_Action r = a"
proof -
  obtain key saved data where l: "keyFile fs keyPath = Inr key" "load_head pr fs key checkpoint = Inr saved" "privateFile fs path = Inr data"
    "load_data pr path checkpoint key saved False data = Inr j" using assms(1) unfolding Load_def by (rule load_Inr)
  note f = load_data_facts [OF l(4)]
  note ap = Append_NoFault [OF assms(3) f(1) l(3) f(2,3)]
  let ?b = "line_of pr nonce j a"
  note s = appended_simps [OF f(1), of pr nonce a]
  have ne: "path \<noteq> keyPath" "checkpoint \<noteq> keyPath" "path \<noteq> checkpoint" "checkpoint \<noteq> path" using assms(2) by auto
  have stored: "privateFile fs' path = Inr (data @ ?b @ [newline])" using ap(5,6) ne(4) by (simp add: privateFile_other)
  have key: "keyFile fs' keyPath = Inr key" using l(1) ap(5) ne by (simp add: files_other files_append)
  have head: "load_head pr fs' key checkpoint = Inr (signed_head pr j')"
    using load_head_written [OF assms(5), of fs' checkpoint] s(1,2,4) f(4,5) load_head_Inr(1) [OF l(2)] ap(3,5) by simp
  have "load_data pr path checkpoint key (signed_head pr j') False (data @ ?b @ [newline]) = Inr j'" unfolding ap(3)
    by (rule load_data_appended [OF l(4) assms(4) ap(1) assms(6)]) (use s f(5) in auto)
  then have "Load pr fs' path keyPath checkpoint = Inr j'" using key head stored by (simp add: Load_def load_def)
  then show ?thesis using ap(3,4) by (simp add: appended_def add_record_def next_record_def)
qed

theorem Append_Load_witness:
  "\<exists>r j fs. Append (demo_prims ''x'') demo_nonce NoFault demo_journal demo_action demo_files = (Inr r, j, fs) \<and>
     Load (demo_prims ''x'') fs ''j'' ''k'' ''c'' = Inr j \<and> re_Action r = demo_action"
proof -
  obtain r fs where a: "Append (demo_prims ''x'') demo_nonce NoFault demo_journal demo_action demo_files =
      (Inr r, appended (demo_prims ''x'') demo_nonce demo_journal demo_action, fs)" using demo_append(1) [of "''x''"] by auto
  show ?thesis using Append_Load [OF demo_load _ a demo_survives demo_head_survives] a by (auto simp: demo_line)
qed

text \<open>
  C34.  A crash between the two files loses nothing: if the line was appended but the checkpoint
  could not be replaced, \<open>Append\<close> reports that, \<open>Load\<close> refuses the journal, and
  \<open>RecoverCheckpoint\<close> moves the checkpoint forward so that \<open>Load\<close> gives the journal with the
  new record.
\<close>

theorem RecoverCheckpoint_recovers:
  assumes "Load pr fs path keyPath checkpoint = Inr j" "distinct [path, keyPath, checkpoint]"
    and "Append pr nonce HeadFault j a fs = (Inl HeadNotSaved, j', fs')"
    and "survives pr nonce j a" "head_survives pr j'" "int (length (line_of pr nonce j a)) < 2 ^ 21"
  shows "Load pr fs' path keyPath checkpoint = Inl Truncated \<and>
    (\<exists>fs''. RecoverCheckpoint pr NoFault fs' path keyPath checkpoint = (Inr j', fs'') \<and> Load pr fs'' path keyPath checkpoint = Inr j')"
proof -
  obtain key saved data where l: "keyFile fs keyPath = Inr key" "load_head pr fs key checkpoint = Inr saved" "privateFile fs path = Inr data"
    "load_data pr path checkpoint key saved False data = Inr j" using assms(1) unfolding Load_def by (rule load_Inr)
  note f = load_data_facts [OF l(4)]
  obtain g where g: "fs path = Some g" "fi_regular g" "fi_perm g mod 64 = 0" "data = fi_data g" using l(3) by (auto simp: privateFile_Inr)
  let ?b = "line_of pr nonce j a"
  have ap: "ac_InstanceID a = he_InstanceID (jo_Head j)" "int (length data) + int (length ?b) + 1 \<le> 2 ^ 27" "j' = appended pr nonce j a"
    "fs' = fs(path \<mapsto> g\<lparr>fi_data := data @ ?b @ [newline]\<rparr>)"
    using assms(3) l(3) f(2,3) g
    by (auto simp: Append_def Let_def line_of_def [symmetric] appended_def [symmetric] writeHead_signed append_file_def split: if_splits)
  note s = appended_simps [OF f(1), of pr nonce a]
  have stored: "privateFile fs' path = Inr (data @ ?b @ [newline])" using ap(2,4) g by (simp add: privateFile_def)
  have ne: "path \<noteq> keyPath" "checkpoint \<noteq> keyPath" "path \<noteq> checkpoint" "checkpoint \<noteq> path" using assms(2) by auto
  have key: "keyFile fs' keyPath = Inr key" and head: "load_head pr fs' key checkpoint = Inr saved"
    using l(1,2) ap(4) ne by (simp_all add: files_other)
  have old: "marks saved (jo_Records j)" "he_Sequence (jo_Head j) = he_Sequence saved" using l(4) unfolding load_data_iff by auto
  have "load_data pr path checkpoint key saved True (data @ ?b @ [newline]) = Inr j'" unfolding ap(3)
    by (rule load_data_appended [OF l(4) assms(4) ap(1) assms(6)]) (use old(1) in \<open>auto simp: marks_def appended_def add_record_def\<close>)
  then have tail: "load pr fs' path keyPath checkpoint True = Inr j'" using key head stored by (simp add: load_def)
  have "load_data pr path checkpoint key saved False (data @ ?b @ [newline]) = Inl Truncated"
    by (rule load_data_tail [OF \<open>load_data pr path checkpoint key saved True _ = Inr j'\<close>]) (use s(5) old(2) ap(3) in simp)
  then have refused: "Load pr fs' path keyPath checkpoint = Inl Truncated" using key head stored by (simp add: Load_def load_def)
  let ?fs = "fs'(checkpoint \<mapsto> owner_only (json_head pr (signed_head pr j') @ [newline]))"
  have cp: "jo_Checkpoint j' = checkpoint" using s(3) f(3) ap(3) by simp
  have "load_data pr path checkpoint key (signed_head pr j') False (data @ ?b @ [newline]) = Inr j'" unfolding ap(3)
    by (rule load_data_appended [OF l(4) assms(4) ap(1) assms(6)]) (use s f(5) in auto)
  moreover have "load_head pr ?fs key checkpoint = Inr (signed_head pr j')"
    using load_head_written [OF assms(5), of ?fs checkpoint] s(1,2,4) f(4,5) load_head_Inr(1) [OF l(2)] ap(3) by simp
  moreover have "keyFile ?fs keyPath = Inr key" "privateFile ?fs path = Inr (data @ ?b @ [newline])"
    using key stored ne by (simp_all add: files_other privateFile_other)
  ultimately have "Load pr ?fs path keyPath checkpoint = Inr j'" by (simp add: Load_def load_def)
  then show ?thesis using refused tail cp by (simp add: RecoverCheckpoint_def writeHead_signed)
qed

theorem RecoverCheckpoint_recovers_witness:
  "\<exists>j fs fs'. Append (demo_prims ''x'') demo_nonce HeadFault demo_journal demo_action demo_files = (Inl HeadNotSaved, j, fs) \<and>
     RecoverCheckpoint (demo_prims ''x'') NoFault fs ''j'' ''k'' ''c'' = (Inr j, fs') \<and> Load (demo_prims ''x'') fs' ''j'' ''k'' ''c'' = Inr j"
proof -
  obtain fs where a: "Append (demo_prims ''x'') demo_nonce HeadFault demo_journal demo_action demo_files =
      (Inl HeadNotSaved, appended (demo_prims ''x'') demo_nonce demo_journal demo_action, fs)" using demo_append(2) [of "''x''"] by auto
  show ?thesis using RecoverCheckpoint_recovers [OF demo_load _ a demo_survives demo_head_survives] a by (auto simp: demo_line)
qed

text \<open>
  C35.  The largest record that \<open>Append\<close> accepts cannot be read back: it allows a line of
  exactly \<open>2 << 20\<close> bytes, which with its newline exceeds the buffer of the scanner in \<open>load\<close>,
  so after appending such a record the journal does not load any more.
\<close>

theorem Append_limit_unreadable:
  assumes "Load pr fs path keyPath checkpoint = Inr j" "distinct [path, keyPath, checkpoint]"
    and "Append pr nonce NoFault j a fs = (Inr r, j', fs')"
    and "survives pr nonce j a" "head_survives pr j'" "int (length (line_of pr nonce j a)) = 2 ^ 21"
  shows "Load pr fs' path keyPath checkpoint = Inl RecordLimit"
proof -
  obtain key saved data where l: "keyFile fs keyPath = Inr key" "load_head pr fs key checkpoint = Inr saved" "privateFile fs path = Inr data"
    "load_data pr path checkpoint key saved False data = Inr j" using assms(1) unfolding Load_def by (rule load_Inr)
  note f = load_data_facts [OF l(4)]
  note ap = Append_NoFault [OF assms(3) f(1) l(3) f(2,3)]
  let ?b = "line_of pr nonce j a" and ?s = "signed_head pr j'"
  note s = appended_simps [OF f(1), of pr nonce a]
  have ne: "path \<noteq> keyPath" "checkpoint \<noteq> keyPath" "path \<noteq> checkpoint" "checkpoint \<noteq> path" using assms(2) by auto
  have stored: "privateFile fs' path = Inr (data @ ?b @ [newline])" using ap(5,6) ne(4) by (simp add: privateFile_other)
  have key: "keyFile fs' keyPath = Inr key" using l(1) ap(5) ne by (simp add: files_other files_append)
  have head: "load_head pr fs' key checkpoint = Inr ?s"
    using load_head_written [OF assms(5), of fs' checkpoint] s(1,2,4) f(4,5) load_head_Inr(1) [OF l(2)] ap(3,5) by simp
  have inst: "he_InstanceID ?s = he_InstanceID saved" using s(1) f(5) ap(3) by simp
  obtain m where m: "rfold (read_line pr saved) (fresh path checkpoint key (he_InstanceID saved), he_Sequence saved = 0 \<and> he_Hash saved = []) (scan_lines data) = Inr (j, m)"
    and w: "whole data" using l(4) unfolding load_data_iff by blast
  obtain n where n: "rfold (read_line pr ?s) (fresh path checkpoint key (he_InstanceID ?s), he_Sequence ?s = 0 \<and> he_Hash ?s = []) (scan_lines data) = Inr (j, n)"
    using read_lines_other [OF m inst, of "he_Sequence ?s = 0 \<and> he_Hash ?s = []"] inst by auto
  have lines: "scan_lines (data @ ?b @ [newline]) = scan_lines data @ [?b]"
    using scan_lines_append [OF w, of "?b @ [newline]"] scan_lines_line [OF line_no_newline [OF assms(4)], of "[]"] by simp
  have "read_line pr ?s (j, n) ?b = Inl RecordLimit" using assms(6) by (simp add: read_line_def open_line_def)
  then have "load_data pr path checkpoint key ?s False (data @ ?b @ [newline]) = Inl RecordLimit"
    unfolding load_data_unfold lines rfold_append n by simp
  then show ?thesis using key head stored by (simp add: Load_def load_def)
qed

theorem Append_limit_unreadable_witness:
  "\<exists>b r j fs. Append (demo_prims b) demo_nonce NoFault demo_journal demo_action demo_files = (Inr r, j, fs) \<and>
     Load (demo_prims b) fs ''j'' ''k'' ''c'' = Inl RecordLimit"
proof -
  define b where "b = replicate (2 ^ 21) (CHR ''x'')"
  have b: "length b = 2 ^ 21" "list_all (\<lambda>c. 32 \<le> (of_char c :: nat)) b" by (simp_all add: b_def list_all_iff)
  obtain r fs where a: "Append (demo_prims b) demo_nonce NoFault demo_journal demo_action demo_files =
      (Inr r, appended (demo_prims b) demo_nonce demo_journal demo_action, fs)" using demo_append(1) [of b] b by auto
  have "Load (demo_prims b) fs ''j'' ''k'' ''c'' = Inl RecordLimit"
    by (rule Append_limit_unreadable [OF demo_load _ a demo_survives demo_head_survives]) (use b in \<open>simp_all add: demo_line\<close>)
  then show ?thesis using a by blast
qed

end
