(* ===== verification/Sx_Projection.thy ===== *)
theory Sx_Projection
  imports Sx_Sql Sx_Distance Sx_Lexer
begin

text \<open>
  The field projection of the API, \<open>src/internal/api/projection/registry.go\<close>: which fields a
  client may ask for, the SQL that selects them, and the trimming of the selected document.
\<close>

subsection \<open>JSON values\<close>

text \<open>A decoded JSON object is the list of its entries; an entry is looked up by its first key.\<close>

definition get :: "(string \<times> json) list \<Rightarrow> string \<Rightarrow> json" where
  "get m k = (case map_of m k of None \<Rightarrow> JNull | Some v \<Rightarrow> v)"

fun put :: "string \<Rightarrow> json \<Rightarrow> (string \<times> json) list \<Rightarrow> (string \<times> json) list" where
  "put k v [] = [(k, v)]"
| "put k v ((k', v') # m) = (if k' = k then (k, v) # m else (k', v') # put k v m)"

lemma map_of_put [simp]: "map_of (put k v m) = (map_of m)(k \<mapsto> v)"
  by (induction m) auto

subsection \<open>Text\<close>

text \<open>\<open>strings.TrimSpace\<close>: the bytes of the characters with the property White_Space.\<close>

definition space_sequences :: "string list" where
  "space_sequences =
     map (\<lambda>c. [c]) [CHR 0x09, CHR 0x0A, CHR 0x0B, CHR 0x0C, CHR 0x0D, CHR '' ''] @
     [[CHR 0xC2, CHR 0x85], [CHR 0xC2, CHR 0xA0], [CHR 0xE1, CHR 0x9A, CHR 0x80]] @
     map (\<lambda>c. [CHR 0xE2, CHR 0x80, c])
       [CHR 0x80, CHR 0x81, CHR 0x82, CHR 0x83, CHR 0x84, CHR 0x85, CHR 0x86, CHR 0x87, CHR 0x88, CHR 0x89, CHR 0x8A, CHR 0xA8, CHR 0xA9, CHR 0xAF] @
     [[CHR 0xE2, CHR 0x81, CHR 0x9F], [CHR 0xE3, CHR 0x80, CHR 0x80]]"

function strip_front :: "string list \<Rightarrow> string \<Rightarrow> string" where
  "strip_front ws s =
     (case find (\<lambda>w. w \<noteq> [] \<and> prefix w s) ws of None \<Rightarrow> s | Some w \<Rightarrow> strip_front ws (drop (length w) s))"
  by pat_completeness auto
termination
proof (relation "measure (\<lambda>(ws, s). length s)", goal_cases)
  case (2 ws s w)
  then have "w \<noteq> []" "prefix w s" by (auto simp: find_Some_iff)
  then show ?case by (auto simp: prefix_def)
qed simp

declare strip_front.simps [simp del]

definition TrimSpace :: "string \<Rightarrow> string" where
  "TrimSpace s = rev (strip_front (map rev space_sequences) (rev (strip_front space_sequences s)))"

text \<open>\<open>strings.Split(s, ",")\<close> and \<open>strings.Cut(s, ".")\<close>\<close>

fun split_commas :: "string \<Rightarrow> string list" where
  "split_commas [] = [[]]"
| "split_commas (c # cs) =
     (if c = CHR '','' then [] # split_commas cs
      else case split_commas cs of [] \<Rightarrow> [[c]] | w # ws \<Rightarrow> (c # w) # ws)"

definition cut_dot :: "string \<Rightarrow> string \<times> string \<times> bool" where
  "cut_dot s = (let r = takeWhile (\<lambda>c. c \<noteq> CHR ''.'') s in (r, drop (Suc (length r)) s, CHR ''.'' \<in> set s))"

text \<open>The conversion to \<open>[]rune\<close>; a byte that starts no character becomes U+FFFD.\<close>

definition rune_size :: "string \<Rightarrow> nat option" where
  "rune_size s =
     (case s of [] \<Rightarrow> None
      | c # cs \<Rightarrow> (case utf8_first (of_char c) of
          None \<Rightarrow> None
        | Some (n, lo, hi) \<Rightarrow>
            if n \<le> length s \<and> (n = 1 \<or> lo \<le> of_char (hd cs) \<and> (of_char (hd cs) :: nat) \<le> hi) \<and>
               list_all (\<lambda>d. 128 \<le> (of_char d :: nat) \<and> (of_char d :: nat) \<le> 191) (take (n - 1) cs)
            then Some n else None))"

definition rune_value :: "string \<Rightarrow> nat" where
  "rune_value w =
     (case w of [] \<Rightarrow> 0
      | c # cs \<Rightarrow> foldl (\<lambda>v d. v * 64 + of_char d mod 64)
          (if cs = [] then of_char c else of_char c mod 2 ^ (6 - length cs)) cs)"

function runes :: "string \<Rightarrow> nat list" where
  "runes s = (if s = [] then [] else
     case rune_size s of None \<Rightarrow> 65533 # runes (tl s) | Some n \<Rightarrow> rune_value (take n s) # runes (drop (max 1 n) s))"
  by pat_completeness auto
termination by (relation "measure length") (auto simp: length_greater_0_conv)

declare runes.simps [simp del]

subsection \<open>The registry\<close>

abbreviation quoted :: "string \<Rightarrow> string" where
  "quoted s \<equiv> CHR 0x27 # s @ [CHR 0x27]"

definition pairs_sql :: "(string \<times> string) list \<Rightarrow> string" where
  "pairs_sql ps = ''jsonb_build_object('' @ join_with '','' (map (\<lambda>(k, v). quoted k @ '','' @ v) ps) @ '')''"

text \<open>\<open>Field\<close>; the third component is the type in the generated TypeScript.\<close>

record ProjectionField =
  pf_Name :: string
  pf_SQL :: string
  pf_Type :: string

definition field :: "string \<Rightarrow> string \<Rightarrow> string \<Rightarrow> ProjectionField" where
  "field name sql typescript = \<lparr>pf_Name = name, pf_SQL = sql, pf_Type = typescript\<rparr>"

definition Registry :: "ProjectionField list" where
  "Registry =
     [field ''id'' ''i.id::text'' ''string'',
      field ''key'' ''i.key'' ''string'',
      field ''title'' ''i.title'' ''string'',
      field ''body'' ''i.body'' ''string | null'',
      field ''version'' ''i.version'' ''number'',
      field ''change_seq'' ''i.change_seq'' ''number'',
      field ''config_version'' ''i.config_version'' ''number'',
      field ''rank'' ''i.rank'' ''string'',
      field ''points'' ''i.points'' ''number | null'',
      field ''start_date'' ''i.start_date'' ''string | null'',
      field ''due_date'' ''i.due_date'' ''string | null'',
      field ''created_at'' ''i.created_at'' ''string'',
      field ''updated_at'' ''i.updated_at'' ''string'',
      field ''deleted_at'' ''i.deleted_at'' ''string | null'',
      field ''status'' (pairs_sql [(''key'', ''s.key''), (''name'', ''s.name''), (''category'', ''s.category'')])
        ''{ key: string; name: string; category: string }'',
      field ''assignee'' (''CASE WHEN u.id IS NULL THEN NULL ELSE '' @ pairs_sql [(''id'', ''u.id''), (''display_name'', ''u.display_name'')] @ '' END'')
        ''{ id: string; display_name: string } | null'',
      field ''type'' (pairs_sql [(''key'', ''t.key''), (''name'', ''t.name''), (''level'', ''t.level'')])
        ''{ key: string; name: string; level: number }'',
      field ''parent'' (''CASE WHEN par.id IS NULL THEN NULL ELSE '' @ pairs_sql [(''key'', ''par.key'')] @ '' END'')
        ''{ key: string } | null'',
      field ''project'' (pairs_sql [(''key_prefix'', ''p.key_prefix''), (''name'', ''p.name'')])
        ''{ key_prefix: string; name: string }'',
      field ''fields'' ''i.fields'' ''Record<string, unknown>'',
      field ''rollup'' (pairs_sql [(''descendant_count'', ''r.descendant_count''), (''done_count'', ''r.done_count''), (''points_total'', ''r.points_total''),
         (''points_done'', ''r.points_done''), (''earliest_start'', ''r.earliest_start''), (''latest_due'', ''r.latest_due'')])
        ''{ descendant_count: number; done_count: number; points_total: number | null; points_done: number | null; earliest_start: string | null; latest_due: string | null }'']"

definition registry :: "(string \<times> string) list" where
  "registry = map (\<lambda>f. (pf_Name f, pf_SQL f)) Registry"

definition leaves :: "(string \<times> string list) list" where
  "leaves = [(''status'', [''key'', ''name'', ''category'']), (''assignee'', [''id'', ''display_name'']), (''type'', [''key'', ''name'', ''level'']),
     (''parent'', [''key'']), (''project'', [''key_prefix'', ''name'']),
     (''rollup'', [''descendant_count'', ''done_count'', ''points_total'', ''points_done'', ''earliest_start'', ''latest_due''])]"

text \<open>The generated TypeScript; \<open>%q\<close> of these names only adds the quotes.\<close>

abbreviation newline_text :: string where
  "newline_text \<equiv> [CHR 0x0A]"

definition leaf_names :: "string list" where
  "leaf_names = concat (map (\<lambda>(r, ns). map (\<lambda>n. r @ ''.'' @ n) ns) leaves)"

definition TypeScript :: string where
  "TypeScript =
     ''// Generated by make gen-fields. Do not edit.'' @ newline_text @ ''export interface ItemFields {'' @ newline_text @
     concat (map (\<lambda>f. ''  '' @ pf_Name f @ '': '' @ pf_Type f @ '';'' @ newline_text) Registry) @
     ''}'' @ newline_text @ ''export type FieldName ='' @ newline_text @
     concat (map (\<lambda>n. ''  | '' @ [CHR 0x22] @ n @ [CHR 0x22] @ newline_text) (sort (map pf_Name Registry @ leaf_names))) @
     ''  | '' @ [CHR 0x60] @ ''fields.${string}'' @ [CHR 0x60] @ '';'' @ newline_text"

datatype Policy = Required | Optional | Rejected

datatype fields_error = FieldsNotSupported | FieldsRequired | FieldsEmpty | UnknownName string string

subsection \<open>Suggestions\<close>

text \<open>The loop over one row; \<open>row\<close> starts with the old \<open>row[j+1]\<close>, \<open>left\<close> is the new \<open>row[j]\<close>, \<open>prev\<close> the old one.\<close>

fun row_loop :: "nat \<Rightarrow> nat \<Rightarrow> nat \<Rightarrow> nat list \<Rightarrow> nat list \<Rightarrow> nat list" where
  "row_loop r prev left (old # row) (s # y) =
     (let v = min (old + 1) (min (left + 1) (prev + (if r = s then 0 else 1))) in v # row_loop r old v row y)"
| "row_loop r prev left row y = []"

fun rows_loop :: "nat \<Rightarrow> nat list \<Rightarrow> nat list \<Rightarrow> nat list \<Rightarrow> nat list" where
  "rows_loop i row [] y = row"
| "rows_loop i row (r # x) y = rows_loop (i + 1) ((i + 1) # row_loop r (hd row) (i + 1) (tl row) y) x y"

definition rune_distance :: "string \<Rightarrow> string \<Rightarrow> nat" where
  "rune_distance a b = last (rows_loop 0 [0..<length (runes b) + 1] (runes a) (runes b))"

text \<open>\<open>nearest\<close> over the sorted names; the score starts at the largest \<open>int\<close>.\<close>

definition nearest_name :: "string \<Rightarrow> string list \<Rightarrow> string" where
  "nearest_name value names =
     fst (foldl (\<lambda>(best, score) name. let d = int (rune_distance value name) in if d < score then (name, d) else (best, score))
       ([], 2 ^ 63 - 1) (sort names))"

subsection \<open>The requested fields\<close>

definition valid_names :: "string list \<Rightarrow> string list" where
  "valid_names custom =
     map fst registry @ leaf_names @ map (\<lambda>k. ''fields.'' @ k) custom"

fun collect_names :: "string list \<Rightarrow> string list \<Rightarrow> string list \<Rightarrow> fields_error + string list" where
  "collect_names valid out [] = Inr out"
| "collect_names valid out (w # ws) =
     (let name = TrimSpace w in
      if name \<notin> set valid then Inl (UnknownName name (nearest_name name (remdups valid)))
      else collect_names valid (if name \<in> set out then out else out @ [name]) ws)"

definition compact_names :: "string list \<Rightarrow> string list" where
  "compact_names out = filter (\<lambda>name. case cut_dot name of (r, leaf, dotted) \<Rightarrow> \<not> (dotted \<and> r \<in> set out)) out"

definition parse_fields :: "string \<Rightarrow> bool \<Rightarrow> Policy \<Rightarrow> string list \<Rightarrow> fields_error + string list" where
  "parse_fields raw present policy custom =
     (if policy = Rejected then (if present then Inl FieldsNotSupported else Inr [])
      else if \<not> present \<or> TrimSpace raw = [] then
        (if policy = Required then Inl FieldsRequired
         else if present then Inl FieldsEmpty
         else Inr (map fst registry))
      else rbind (collect_names (valid_names custom) [] (split_commas raw)) (\<lambda>out. Inr (compact_names out)))"

subsection \<open>The SQL\<close>

definition object_prefix :: string where
  "object_prefix = ''jsonb_build_object('' @ quoted ''fields'' @ '',''"

definition custom_prefix :: string where
  "custom_prefix = object_prefix @ ''jsonb_build_object(''"

definition custom_part :: "string \<Rightarrow> string" where
  "custom_part parameter = object_prefix @ ''jsonb_build_object('' @ parameter @ ''::text,i.fields -> '' @ parameter @ ''::text))''"

definition object_part :: "string \<Rightarrow> string \<Rightarrow> string" where
  "object_part r f = ''jsonb_build_object('' @ quoted r @ '','' @ f @ '')''"

text \<open>The loop over the names; \<open>None\<close> is the panic on a name that is not in the registry.\<close>

fun sql_parts :: "int \<Rightarrow> string list \<Rightarrow> string list \<Rightarrow> string list \<Rightarrow> string list \<Rightarrow> (string list \<times> string list) option" where
  "sql_parts start seen parts args [] = Some (parts, args)"
| "sql_parts start seen parts args (name # names) =
     (case cut_dot name of (r, leaf, dotted) \<Rightarrow>
      if r = ''fields'' \<and> dotted then
        (let args' = args @ [leaf]; parameter = ''$'' @ itoa (start + int (length args') - 1) in
         sql_parts start seen (parts @ [custom_part parameter]) args' names)
      else if r \<in> set seen then sql_parts start seen parts args names
      else case map_of registry r of
          None \<Rightarrow> None
        | Some f \<Rightarrow> sql_parts start (r # seen) (parts @ [object_part r f]) args names)"

text \<open>\<open>strings.TrimSuffix(strings.TrimPrefix(part, ...), ")")\<close> of a custom part.\<close>

definition inner_part :: "string \<Rightarrow> string" where
  "inner_part part =
     (let s = (if prefix object_prefix part then drop (length object_prefix) part else part) in
      if s \<noteq> [] \<and> last s = CHR '')'' then butlast s else s)"

definition fields_SQL :: "string list \<Rightarrow> int \<Rightarrow> (string \<times> string list) option" where
  "fields_SQL names start =
     (case sql_parts start [] [] [] names of
        None \<Rightarrow> None
      | Some (parts, args) \<Rightarrow>
          (let customs = map inner_part (filter (prefix custom_prefix) parts);
               normal = filter (\<lambda>p. \<not> prefix custom_prefix p) parts;
               normal' = (if customs = [] then normal else normal @ [object_prefix @ join_with '' || '' customs @ '')'']) in
           if normal' = [] then Some (quoted ''{}'' @ ''::jsonb'', args)
           else Some (join_with '' || '' normal', args)))"

subsection \<open>The document\<close>

definition apply_name :: "(string \<times> json) list \<Rightarrow> (string \<times> json) list \<Rightarrow> string \<Rightarrow> (string \<times> json) list" where
  "apply_name source out name =
     (case cut_dot name of (r, leaf, dotted) \<Rightarrow>
      let v = get source r in
      if \<not> dotted then put r v out
      else if v = JNull then put r JNull out
      else case v of
          JObj obj \<Rightarrow> put r (JObj (put leaf (get obj leaf) (case get out r of JObj t \<Rightarrow> t | _ \<Rightarrow> []))) out
        | _ \<Rightarrow> out)"

definition Apply :: "(string \<times> json) list \<Rightarrow> string list \<Rightarrow> (string \<times> json) list" where
  "Apply source names = foldl (apply_name source) [] names"

subsection \<open>Names\<close>

lemma cut_dot_plain: "CHR ''.'' \<notin> set r \<Longrightarrow> cut_dot r = (r, [], False)"
proof -
  assume "CHR ''.'' \<notin> set r"
  moreover from this have "takeWhile (\<lambda>c. c \<noteq> CHR ''.'') r = r" by (auto simp: takeWhile_eq_all_conv)
  ultimately show ?thesis unfolding cut_dot_def Let_def by (simp only: less_irrefl drop_all le_refl)
qed

lemma cut_dot_dotted: "CHR ''.'' \<notin> set r \<Longrightarrow> cut_dot (r @ CHR ''.'' # leaf) = (r, leaf, True)"
proof -
  assume "CHR ''.'' \<notin> set r"
  then have "takeWhile (\<lambda>c. c \<noteq> CHR ''.'') (r @ CHR ''.'' # leaf) = r" by (simp add: takeWhile_append)
  then show ?thesis by (simp add: cut_dot_def Let_def)
qed

lemma name_cases:
  obtains (plain) "CHR ''.'' \<notin> set name" "cut_dot name = (name, [], False)"
  | (dotted) r leaf where "name = r @ CHR ''.'' # leaf" "CHR ''.'' \<notin> set r" "cut_dot name = (r, leaf, True)"
proof (cases "CHR ''.'' \<in> set name")
  case True
  then obtain r leaf where "name = r @ CHR ''.'' # leaf" "CHR ''.'' \<notin> set r" by (meson split_list_first)
  then show ?thesis using dotted cut_dot_dotted by blast
qed (use plain cut_dot_plain in blast)

text \<open>What the parser of the list returns: known names, each once, none below another.\<close>

definition names_ok :: "string list \<Rightarrow> string list \<Rightarrow> bool" where
  "names_ok custom names = (set names \<subseteq> set (valid_names custom) \<and> distinct names \<and>
     (\<forall>r leaf. CHR ''.'' \<notin> set r \<longrightarrow> r @ CHR ''.'' # leaf \<in> set names \<longrightarrow> r \<notin> set names))"

lemma collect_names_ok:
  "collect_names valid out ws = Inr names \<Longrightarrow> distinct out \<Longrightarrow> set out \<subseteq> set valid \<Longrightarrow> distinct names \<and> set names \<subseteq> set valid"
  by (induction ws arbitrary: out) (auto simp: Let_def split: if_splits)

lemma registry_plain: "list_all (\<lambda>r. CHR ''.'' \<notin> set r) (map fst registry)"
  by code_simp

lemma parse_fields_ok:
  assumes "parse_fields raw present policy custom = Inr names"
  shows "names_ok custom names"
proof -
  consider "names = []" | "names = map fst registry"
    | out where "collect_names (valid_names custom) [] (split_commas raw) = Inr out" "names = compact_names out"
    using assms by (auto simp: parse_fields_def result_simps split: if_splits)
  then show ?thesis
  proof cases
    case 1
    then show ?thesis by (simp add: names_ok_def)
  next
    case 2
    have "distinct (map fst registry)" by code_simp
    moreover have "r @ CHR ''.'' # leaf \<notin> set names" for r leaf using registry_plain 2 by (force simp: list_all_iff)
    ultimately show ?thesis using 2 by (auto simp: names_ok_def valid_names_def)
  next
    case 3
    have out: "distinct out" "set out \<subseteq> set (valid_names custom)" using collect_names_ok [OF 3(1)] by auto
    have "r \<notin> set out" if "CHR ''.'' \<notin> set r" "r @ CHR ''.'' # leaf \<in> set names" for r leaf
      using that 3(2) by (auto simp: compact_names_def cut_dot_dotted)
    moreover have "set names \<subseteq> set out" "distinct names" using 3(2) out(1) by (auto simp: compact_names_def)
    ultimately show ?thesis using out(2) by (auto simp: names_ok_def)
  qed
qed

lemma valid_name_cases:
  assumes "name \<in> set (valid_names custom)"
  obtains (plain) f where "CHR ''.'' \<notin> set name" "cut_dot name = (name, [], False)" "map_of registry name = Some f"
  | (leaf) r l f where "cut_dot name = (r, l, True)" "r \<noteq> ''fields''" "map_of registry r = Some f"
  | (custom) k where "cut_dot name = (''fields'', k, True)" "k \<in> set custom"
proof -
  have reg: "\<exists>f. map_of registry r = Some f" if "r \<in> fst ` set registry" for r using that by (metis map_of_eq_None_iff not_None_eq)
  have lv: "list_all (\<lambda>(r, ns). r \<in> fst ` set registry \<and> r \<noteq> ''fields'' \<and> CHR ''.'' \<notin> set r) leaves" by code_simp
  from assms consider "name \<in> fst ` set registry" | r ns l where "(r, ns) \<in> set leaves" "l \<in> set ns" "name = r @ ''.'' @ l"
    | k where "k \<in> set custom" "name = ''fields'' @ CHR ''.'' # k" by (auto simp: valid_names_def leaf_names_def)
  then show ?thesis
  proof cases
    case 1
    then have "CHR ''.'' \<notin> set name" using registry_plain by (auto simp: list_all_iff)
    then show ?thesis using plain cut_dot_plain reg [OF 1] by blast
  next
    case 2
    then have r: "r \<in> fst ` set registry" "r \<noteq> ''fields''" "CHR ''.'' \<notin> set r" using lv by (auto simp: list_all_iff)
    then show ?thesis using leaf [of r l] cut_dot_dotted [OF r(3), of l] reg [OF r(1)] 2(3) by auto
  next
    case 3
    have "cut_dot name = (''fields'', k, True)" unfolding 3(2) by (rule cut_dot_dotted) simp
    then show ?thesis using custom 3(1) by blast
  qed
qed

subsection \<open>The pieces of the SQL\<close>

definition projection_fragments :: "string list" where
  "projection_fragments = map (\<lambda>(r, f). object_part r f) registry @
     [object_prefix, ''jsonb_build_object('', ''::text,i.fields -> '', ''::text)'', '' || '', '')'', quoted ''{}'' @ ''::jsonb'']"

definition custom_inner :: "string \<Rightarrow> string" where
  "custom_inner parameter = ''jsonb_build_object('' @ parameter @ ''::text,i.fields -> '' @ parameter @ ''::text)''"

lemma custom_part_facts: "prefix custom_prefix (custom_part t)" "inner_part (custom_part t) = custom_inner t"
proof -
  have p: "custom_part t = object_prefix @ custom_inner t @ '')''" by (simp add: custom_part_def custom_inner_def)
  show "prefix custom_prefix (custom_part t)" unfolding custom_part_def custom_prefix_def by (simp only: prefix_def append_assoc) blast
  have "inner_part (custom_part t) = (let s = custom_inner t @ '')'' in if s \<noteq> [] \<and> last s = CHR '')'' then butlast s else s)"
    unfolding inner_part_def p by (simp add: prefix_def)
  then show "inner_part (custom_part t) = custom_inner t" by (simp add: Let_def butlast_append)
qed

lemma object_part_facts: "(r, f) \<in> set registry \<Longrightarrow> \<not> prefix custom_prefix (object_part r f)"
proof -
  have "list_all (\<lambda>(r, f). \<not> prefix custom_prefix (object_part r f)) registry" by code_simp
  then show "(r, f) \<in> set registry \<Longrightarrow> \<not> prefix custom_prefix (object_part r f)" by (auto simp: list_all_iff)
qed

definition part_ok :: "int \<Rightarrow> int \<Rightarrow> string \<Rightarrow> bool" where
  "part_ok lo hi p = ((\<exists>r f. (r, f) \<in> set registry \<and> p = object_part r f) \<or> (\<exists>n. lo \<le> n \<and> n < hi \<and> p = custom_part (CHR ''$'' # itoa n)))"

lemma part_ok_mono: "part_ok lo hi p \<Longrightarrow> hi \<le> hi' \<Longrightarrow> part_ok lo hi' p"
  unfolding part_ok_def by force

lemma sql_parts_ok:
  assumes "set names \<subseteq> set (valid_names custom)" "list_all (part_ok start (start + int (length args))) parts" "set args \<subseteq> set custom"
  shows "\<exists>parts' args'. sql_parts start seen parts args names = Some (parts', args') \<and>
    list_all (part_ok start (start + int (length args'))) parts' \<and> set args' \<subseteq> set custom"
  using assms
proof (induction names arbitrary: seen parts args)
  case (Cons name names)
  have "name \<in> set (valid_names custom)" using Cons.prems(1) by simp
  then show ?case
  proof (cases rule: valid_name_cases)
    case (plain f)
    have "part_ok start (start + int (length args)) (object_part name f)" using plain(3) by (auto simp: part_ok_def dest: map_of_SomeD)
    then show ?thesis using Cons plain by (auto simp: Let_def)
  next
    case (leaf r l f)
    have "part_ok start (start + int (length args)) (object_part r f)" using leaf(3) by (auto simp: part_ok_def dest: map_of_SomeD)
    then show ?thesis using Cons leaf by (auto simp: Let_def)
  next
    case (custom k)
    let ?p = "custom_part (''$'' @ itoa (start + int (length (args @ [k])) - 1))"
    have "part_ok start (start + int (length (args @ [k]))) ?p"
      unfolding part_ok_def by (rule disjI2, rule exI [of _ "start + int (length (args @ [k])) - 1"]) simp
    moreover have "list_all (part_ok start (start + int (length (args @ [k])))) parts"
      using Cons.prems(2) part_ok_mono by (auto simp: list_all_iff)
    ultimately have "list_all (part_ok start (start + int (length (args @ [k])))) (parts @ [?p])" by simp
    then show ?thesis using Cons.IH [of "args @ [k]" "parts @ [?p]" seen] Cons.prems custom by (simp add: Let_def)
  qed
qed simp

lemma custom_inner_spliced:
  "lo \<le> n \<Longrightarrow> n < hi \<Longrightarrow> spliced projection_fragments lo hi (custom_inner (CHR ''$'' # itoa n))"
proof -
  assume n: "lo \<le> n" "n < hi"
  have frag: "''jsonb_build_object('' \<in> set projection_fragments" "''::text,i.fields -> '' \<in> set projection_fragments" "''::text)'' \<in> set projection_fragments"
    by (simp_all add: projection_fragments_def)
  show ?thesis unfolding custom_inner_def
    by (rule spliced_append [OF spliced_fragment [OF frag(1)]], rule spliced_append [OF spliced_parameter [OF n]],
        rule spliced_append [OF spliced_fragment [OF frag(2)]], rule spliced_append [OF spliced_parameter [OF n]], rule spliced_fragment [OF frag(3)])
qed

lemma parts_spliced:
  assumes "list_all (part_ok lo hi) parts"
  shows "list_all (spliced projection_fragments lo hi) (filter (\<lambda>p. \<not> prefix custom_prefix p) parts)"
    "list_all (spliced projection_fragments lo hi) (map inner_part (filter (prefix custom_prefix) parts))"
proof -
  have obj: "object_part r f \<in> set projection_fragments" if "(r, f) \<in> set registry" for r f
    using that by (force simp: projection_fragments_def)
  have ok: "part_ok lo hi p" if "p \<in> set parts" for p using assms that by (simp add: list_all_iff)
  have "spliced projection_fragments lo hi p" if "p \<in> set parts" "\<not> prefix custom_prefix p" for p
    using ok [OF that(1)] unfolding part_ok_def
  proof (elim disjE exE conjE)
    fix r f
    assume "(r, f) \<in> set registry" "p = object_part r f"
    then show ?thesis using obj spliced_fragment by simp
  qed (use that(2) custom_part_facts(1) in simp)
  then show "list_all (spliced projection_fragments lo hi) (filter (\<lambda>p. \<not> prefix custom_prefix p) parts)" by (simp add: list_all_iff)
  have "spliced projection_fragments lo hi (inner_part p)" if "p \<in> set parts" "prefix custom_prefix p" for p
    using ok [OF that(1)] unfolding part_ok_def
  proof (elim disjE exE conjE)
    fix r f
    assume "(r, f) \<in> set registry" "p = object_part r f"
    then show ?thesis using that(2) object_part_facts by simp
  next
    fix n
    assume "lo \<le> n" "n < hi" "p = custom_part (CHR ''$'' # itoa n)"
    then show ?thesis using custom_part_facts(2) custom_inner_spliced by simp
  qed
  then show "list_all (spliced projection_fragments lo hi) (map inner_part (filter (prefix custom_prefix) parts))" by (simp add: list_all_iff)
qed

subsection \<open>The trimmed document\<close>

definition asked :: "string list \<Rightarrow> string \<Rightarrow> string \<Rightarrow> bool" where
  "asked names r leaf = (r @ CHR ''.'' # leaf \<in> set names)"

lemma asked_plain: "CHR ''.'' \<notin> set name \<Longrightarrow> asked (names @ [name]) r = asked names r"
  by (rule ext) (auto simp: asked_def)

lemma asked_dotted:
  assumes "CHR ''.'' \<notin> set q" "CHR ''.'' \<notin> set r"
  shows "asked (names @ [q @ CHR ''.'' # leaf]) r l \<longleftrightarrow> asked names r l \<or> r = q \<and> l = leaf"
proof -
  have "r @ CHR ''.'' # l = q @ CHR ''.'' # leaf \<longleftrightarrow> r = q \<and> l = leaf"
    using cut_dot_dotted [OF assms(1), of leaf] cut_dot_dotted [OF assms(2), of l] by (auto simp del: append_eq_append_conv2)
  then show ?thesis by (simp add: asked_def) blast
qed

text \<open>What a root has in the output: the source's value, or of an object the leaves asked for.\<close>

definition trimmed :: "(string \<times> json) list \<Rightarrow> string list \<Rightarrow> string \<Rightarrow> json option \<Rightarrow> bool" where
  "trimmed source names r v =
     (if r \<in> set names then v = Some (get source r)
      else if \<forall>leaf. \<not> asked names r leaf then v = None
      else case get source r of
          JNull \<Rightarrow> v = Some JNull
        | JObj obj \<Rightarrow> (\<exists>m. v = Some (JObj m) \<and> (\<forall>leaf. map_of m leaf = (if asked names r leaf then Some (get obj leaf) else None)))
        | _ \<Rightarrow> v = None)"

lemma trimmed_cong: "(r \<in> set names \<longleftrightarrow> r \<in> set names') \<Longrightarrow> asked names r = asked names' r \<Longrightarrow> trimmed source names r v = trimmed source names' r v"
  by (simp only: trimmed_def)

definition leaves_of :: "(string \<times> json) list \<Rightarrow> string \<Rightarrow> (string \<times> json) list" where
  "leaves_of out r = (case get out r of JObj t \<Rightarrow> t | _ \<Rightarrow> [])"

lemma leaves_of_trimmed:
  assumes "trimmed source names q (map_of out q)" "q \<notin> set names" "get source q = JObj obj"
  shows "map_of (leaves_of out q) l = (if asked names q l then Some (get obj l) else None)"
proof (cases "\<forall>leaf. \<not> asked names q leaf")
  case True
  then have "map_of out q = None" using assms by (simp add: trimmed_def)
  then show ?thesis using True by (simp add: leaves_of_def get_def)
next
  case False
  then obtain m where "map_of out q = Some (JObj m)" "map_of m l = (if asked names q l then Some (get obj l) else None)"
    using assms unfolding trimmed_def by (simp only: if_False json.case) blast
  then show ?thesis by (simp add: leaves_of_def get_def)
qed

lemma trimmed_other:
  assumes "trimmed source names q v" "q \<notin> set names" "\<forall>obj. get source q \<noteq> JObj obj" "get source q \<noteq> JNull"
  shows "v = None"
  using assms by (cases "get source q") (simp_all add: trimmed_def split: if_splits)

lemma apply_name_dotted:
  "cut_dot name = (q, leaf, True) \<Longrightarrow> apply_name source out name =
     (case get source q of JNull \<Rightarrow> put q JNull out
      | JObj obj \<Rightarrow> put q (JObj (put leaf (get obj leaf) (leaves_of out q))) out | _ \<Rightarrow> out)"
  by (simp add: apply_name_def leaves_of_def Let_def split: json.split)

lemma apply_name_trimmed:
  assumes "\<And>r. CHR ''.'' \<notin> set r \<Longrightarrow> trimmed source names r (map_of out r)"
    and "\<And>r leaf. CHR ''.'' \<notin> set r \<Longrightarrow> asked (names @ [name]) r leaf \<Longrightarrow> r \<notin> set (names @ [name])"
    and r: "CHR ''.'' \<notin> set r"
  shows "trimmed source (names @ [name]) r (map_of (apply_name source out name) r)"
proof (cases rule: name_cases [of name])
  case plain
  then have step: "apply_name source out name = put name (get source name) out" by (simp add: apply_name_def)
  show ?thesis
  proof (cases "r = name")
    case True
    then show ?thesis by (simp add: trimmed_def step)
  next
    case False
    then have "trimmed source (names @ [name]) r = trimmed source names r"
      using asked_plain [OF plain(1)] by (intro ext trimmed_cong) simp_all
    then show ?thesis using assms(1) [OF r] False by (simp add: step)
  qed
next
  case (dotted q leaf)
  note step = apply_name_dotted [OF dotted(3), of source out]
  have rn: "r \<noteq> name" using r dotted(1) by auto
  note asked = asked_dotted [OF dotted(2) r, of names leaf, folded dotted(1)]
  show ?thesis
  proof (cases "r = q")
    case False
    then have "trimmed source (names @ [name]) r = trimmed source names r"
      using rn asked by (intro ext trimmed_cong) auto
    moreover have "map_of (apply_name source out name) r = map_of out r"
      unfolding step using False by (simp split: json.split)
    ultimately show ?thesis using assms(1) [OF r] by simp
  next
    case True
    have new: "asked (names @ [name]) q leaf" using asked True by simp
    then have q: "q \<notin> set names" "q \<notin> set (names @ [name])" using assms(2) [OF dotted(2)] by auto
    have t: "trimmed source names q (map_of out q)" by (rule assms(1) [OF dotted(2)])
    show ?thesis
    proof (cases "get source q = JNull")
      case True
      then show ?thesis using \<open>r = q\<close> q new unfolding step trimmed_def by auto
    next
      case notnull: False
      show ?thesis
      proof (cases "\<exists>obj. get source q = JObj obj")
        case True
        then obtain obj where obj: "get source q = JObj obj" by blast
        have "map_of (apply_name source out name) q = Some (JObj (put leaf (get obj leaf) (leaves_of out q)))"
          unfolding step by (simp add: obj)
        moreover have "map_of (put leaf (get obj leaf) (leaves_of out q)) l = (if asked (names @ [name]) q l then Some (get obj l) else None)" for l
          using leaves_of_trimmed [OF t q(1) obj] asked \<open>r = q\<close> by simp
        ultimately show ?thesis using \<open>r = q\<close> q(2) new obj by (auto simp: trimmed_def)
      next
        case False
        have "map_of out q = None" using trimmed_other [OF t q(1)] False notnull by blast
        moreover have "apply_name source out name = out" unfolding step using False notnull by (simp split: json.split)
        moreover have "trimmed source (names @ [name]) q None"
          using False notnull q(2) by (cases "get source q") (simp_all add: trimmed_def)
        ultimately show ?thesis using \<open>r = q\<close> by simp
      qed
    qed
  qed
qed

lemma Apply_trimmed:
  assumes "\<And>r leaf. CHR ''.'' \<notin> set r \<Longrightarrow> asked names r leaf \<Longrightarrow> r \<notin> set names" "CHR ''.'' \<notin> set r"
  shows "trimmed source names r (map_of (Apply source names) r)"
  using assms
proof (induction names arbitrary: r rule: rev_induct)
  case Nil
  then show ?case by (simp add: trimmed_def asked_def Apply_def)
next
  case (snoc name names)
  have "trimmed source names q (map_of (Apply source names) q)" if "CHR ''.'' \<notin> set q" for q
  proof (rule snoc.IH [OF _ that])
    show "CHR ''.'' \<notin> set p \<Longrightarrow> asked names p leaf \<Longrightarrow> p \<notin> set names" for p leaf
      using snoc.prems(1) [of p leaf] by (simp add: asked_def)
  qed
  then show ?case using apply_name_trimmed [of source names "Apply source names" name r] snoc.prems by (simp add: Apply_def)
qed

lemma apply_name_roots: "map_of (apply_name source out name) r \<noteq> None \<Longrightarrow> CHR ''.'' \<notin> set r \<or> map_of out r \<noteq> None"
proof (cases rule: name_cases [of name])
  case plain
  assume "map_of (apply_name source out name) r \<noteq> None"
  moreover have "apply_name source out name = put name (get source name) out" using plain by (simp add: apply_name_def)
  ultimately show ?thesis using plain(1) by (auto split: if_splits)
next
  case (dotted q leaf)
  assume "map_of (apply_name source out name) r \<noteq> None"
  then show ?thesis using dotted(2) unfolding apply_name_dotted [OF dotted(3)]
    by (cases "get source q") (auto split: if_splits)
qed

lemma Apply_roots: "map_of (Apply source names) r \<noteq> None \<Longrightarrow> CHR ''.'' \<notin> set r"
proof (induction names rule: rev_induct)
  case (snoc name names)
  then show ?case using apply_name_roots [of source "Apply source names" name r] by (auto simp: Apply_def)
qed (simp add: Apply_def)

subsection \<open>Suggestions are nearest names\<close>

lemma row_loop_table:
  assumes "i < length a" "j \<le> length b"
  shows "row_loop (a ! i) (table a b i j) (table a b (Suc i) j) (map (table a b i) [Suc j..<length b + 1]) (drop j b) =
    map (table a b (Suc i)) [Suc j..<length b + 1]"
  using assms(2)
proof (induction rule: inc_induct)
  case (step j)
  have d: "drop j b = b ! j # drop (Suc j) b" using step(2) by (simp add: Cons_nth_drop_Suc)
  have u: "[Suc j..<length b + 1] = Suc j # [Suc (Suc j)..<length b + 1]" using step(2) upt_Cons by simp
  have v: "min (table a b i (Suc j) + 1) (min (table a b (Suc i) j + 1) (table a b i j + (if a ! i = b ! j then 0 else 1))) = table a b (Suc i) (Suc j)"
    by (simp add: min.left_commute)
  show ?case unfolding d u list.map row_loop.simps Let_def v using step.IH by simp
qed simp

lemma rows_loop_table:
  assumes "i \<le> length a"
  shows "rows_loop i (map (table a b i) [0..<length b + 1]) (drop i a) b = map (table a b (length a)) [0..<length b + 1]"
  using assms
proof (induction rule: inc_induct)
  case (step i)
  have d: "drop i a = a ! i # drop (Suc i) a" using step(2) by (simp add: Cons_nth_drop_Suc)
  have u: "[0..<length b + 1] = 0 # [Suc 0..<length b + 1]" using upt_Cons [of 0 "length b + 1"] by simp
  have "(i + 1) # row_loop (a ! i) (hd (map (table a b i) [0..<length b + 1])) (i + 1) (tl (map (table a b i) [0..<length b + 1])) b =
      map (table a b (Suc i)) [0..<length b + 1]"
    unfolding u using row_loop_table [OF step(2), of 0 b] by (simp del: upt_Suc)
  then show ?case unfolding d rows_loop.simps using step.IH by (simp del: upt_Suc)
qed simp

lemma rune_distance_table: "rune_distance a b = table (runes a) (runes b) (length (runes a)) (length (runes b))"
proof -
  have "map (table (runes a) (runes b) 0) [0..<length (runes b) + 1] = [0..<length (runes b) + 1]" by (rule map_idI) simp
  then show ?thesis using rows_loop_table [of 0 "runes a" "runes b"] by (simp add: rune_distance_def)
qed

lemma rune_distance_edits:
  "edits (rune_distance a b) (runes a) (runes b)" "edits n (runes a) (runes b) \<Longrightarrow> rune_distance a b \<le> n"
  using table_edits [of "length (runes a)" "runes a" "length (runes b)" "runes b"] table_minimal [of n "runes a" "runes b"]
  by (simp_all add: rune_distance_table)

lemma nearest_name_nearest:
  assumes "names \<noteq> []" "\<forall>n \<in> set names. int (rune_distance text n) < 2 ^ 63 - 1"
  shows "nearest_name text names \<in> set names \<and> (\<forall>n \<in> set names. rune_distance text (nearest_name text names) \<le> rune_distance text n)"
proof -
  define go where "go = (\<lambda>(best, score) name. let d = int (rune_distance text name) in if d < score then (name, d) else (best, score))"
  have loop: "case foldl go (best, score) ns of (best', score') \<Rightarrow>
      (best', score') = (best, score) \<and> (\<forall>n \<in> set ns. score \<le> int (rune_distance text n)) \<or>
      best' \<in> set ns \<and> score' = int (rune_distance text best') \<and> score' < score \<and> (\<forall>n \<in> set ns. score' \<le> int (rune_distance text n))"
    for best score and ns :: "string list"
  proof (induction ns arbitrary: best score)
    case (Cons n ns)
    show ?case
    proof (cases "int (rune_distance text n) < score")
      case True
      then have "go (best, score) n = (n, int (rune_distance text n))" by (simp add: go_def Let_def)
      then show ?thesis using Cons [of n "int (rune_distance text n)"] True by (auto split: prod.splits)
    next
      case False
      then have "go (best, score) n = (best, score)" by (simp add: go_def Let_def)
      then show ?thesis using Cons [of best score] False by (auto split: prod.splits)
    qed
  qed simp
  define m where "m = (2 ^ 63 - 1 :: int)"
  obtain best score where f: "foldl go ([], m) (sort names) = (best, score)" by (cases "foldl go ([], m) (sort names)")
  have small: "\<forall>n \<in> set names. int (rune_distance text n) < m" using assms(2) by (simp add: m_def)
  obtain n where n: "n \<in> set names" using assms(1) by (cases names) auto
  have "best \<in> set names \<and> score = int (rune_distance text best) \<and> (\<forall>n \<in> set names. score \<le> int (rune_distance text n))"
    using loop [of "[]" m "sort names"] small n unfolding f by force
  moreover have "nearest_name text names = best" unfolding nearest_name_def go_def [symmetric] m_def [symmetric] f by simp
  ultimately show ?thesis by auto
qed

lemma fields_SQL_spliced:
  assumes "set names \<subseteq> set (valid_names custom)"
  shows "\<exists>t args. fields_SQL names start = Some (t, args) \<and> set args \<subseteq> set custom \<and>
    spliced projection_fragments start (start + int (length args)) t"
proof -
  obtain parts args where p: "sql_parts start [] [] [] names = Some (parts, args)"
    "list_all (part_ok start (start + int (length args))) parts" "set args \<subseteq> set custom"
    using sql_parts_ok [OF assms, of start "[]" "[]" "[]"] by auto
  define hi where "hi = start + int (length args)"
  define customs normal where "customs = map inner_part (filter (prefix custom_prefix) parts)"
    and "normal = filter (\<lambda>p. \<not> prefix custom_prefix p) parts"
  have frag: "'' || '' \<in> set projection_fragments" "object_prefix \<in> set projection_fragments" "'')'' \<in> set projection_fragments"
    "quoted ''{}'' @ ''::jsonb'' \<in> set projection_fragments" by (simp_all add: projection_fragments_def)
  have parts: "list_all (spliced projection_fragments start hi) normal" "list_all (spliced projection_fragments start hi) customs"
    using parts_spliced [OF p(2)] by (simp_all add: customs_def normal_def hi_def)
  have merged: "spliced projection_fragments start hi (object_prefix @ join_with '' || '' customs @ '')'')"
    by (rule spliced_append [OF spliced_fragment [OF frag(2)]], rule spliced_append [OF spliced_join [OF frag(1) parts(2)]], rule spliced_fragment [OF frag(3)])
  define normal' where "normal' = (if customs = [] then normal else normal @ [object_prefix @ join_with '' || '' customs @ '')''])"
  have "list_all (spliced projection_fragments start hi) normal'" using parts(1) merged by (simp add: normal'_def)
  then have "spliced projection_fragments start hi (join_with '' || '' normal')" by (rule spliced_join [OF frag(1)])
  moreover define none joined where "none = quoted ''{}'' @ ''::jsonb''" and "joined = join_with '' || '' normal'"
  moreover have "spliced projection_fragments start hi none" unfolding none_def by (rule spliced_fragment [OF frag(4)])
  moreover have "fields_SQL names start = Some (if normal' = [] then none else joined, args)"
    unfolding fields_SQL_def p(1) normal'_def customs_def normal_def none_def joined_def
    by (simp only: option.case prod.case Let_def if_distrib [of Some] if_distrib [of "\<lambda>t. (t, args)"])
  ultimately show ?thesis using p(3) unfolding hi_def by (cases "normal' = []") simp_all
qed

text \<open>
  C39.  For every list of fields that \<open>Parse\<close> accepts, \<open>SQL\<close> does not panic; its text is made of
  its own fragments and of references to its arguments, numbered from \<open>start\<close>; and the arguments
  are names of custom fields.
\<close>

theorem fields_SQL_safe:
  assumes "parse_fields raw present policy custom = Inr names"
  shows "\<exists>t args. fields_SQL names start = Some (t, args) \<and> set args \<subseteq> set custom \<and>
    spliced projection_fragments start (start + int (length args)) t"
  using parse_fields_ok [OF assms] fields_SQL_spliced by (simp add: names_ok_def)

theorem fields_SQL_safe_witness:
  "\<exists>t args. fields_SQL [''title'', ''fields.cost''] 3 = Some (t, args) \<and> set args \<subseteq> {''cost''} \<and>
    spliced projection_fragments 3 (3 + int (length args)) t"
proof -
  have "parse_fields ''title, fields.cost,title'' True Required [''cost''] = Inr [''title'', ''fields.cost'']" by code_simp
  from fields_SQL_safe [OF this, of 3] show ?thesis by simp
qed

text \<open>
  C40.  For every list of fields that \<open>Parse\<close> accepts, \<open>Apply\<close> returns exactly what was asked for:
  a root that was named with the source's value, a root of which leaves were named with those
  leaves only (\<open>null\<close> when the source has \<open>null\<close>), and nothing else.
\<close>

theorem Apply_exact:
  assumes "parse_fields raw present policy custom = Inr names"
  shows "if CHR ''.'' \<in> set r then map_of (Apply source names) r = None else trimmed source names r (map_of (Apply source names) r)"
proof -
  have "r' \<notin> set names" if "CHR ''.'' \<notin> set r'" "asked names r' leaf" for r' leaf
    using parse_fields_ok [OF assms] that unfolding names_ok_def asked_def by blast
  then have "CHR ''.'' \<notin> set r \<Longrightarrow> trimmed source names r (map_of (Apply source names) r)" using Apply_trimmed [of names r source] by blast
  moreover have "CHR ''.'' \<in> set r \<Longrightarrow> map_of (Apply source names) r = None" using Apply_roots [of source names r] by blast
  ultimately show ?thesis by simp
qed

theorem Apply_exact_witness:
  "let doc = [(''id'', JStr ''1''), (''status'', JObj [(''key'', JStr ''todo''), (''name'', JStr ''To do'')])];
       names = [''status.key'', ''title''] in
   trimmed doc names ''status'' (map_of (Apply doc names) ''status'') \<and> map_of (Apply doc names) ''status.key'' = None"
proof -
  have p: "parse_fields ''status.key,title'' True Required [] = Inr [''status.key'', ''title'']" by code_simp
  show ?thesis using Apply_exact [OF p, of "''status''"] Apply_exact [OF p, of "''status.key''"] by simp
qed

end
