(* ===== verification/Sx_Request.thy ===== *)
theory Sx_Request
  imports Sx_Encoding Sx_Parser Sx_Database
begin

text \<open>
  What the handlers of the API share: the problem documents of \<open>src/internal/api/problem.go\<close>, the
  mapping of errors to them in \<open>src/internal/api/projects.go\<close>, and the page cursors of
  \<open>src/internal/api/cursor.go\<close>.  JSON, HMAC and SHA-256 are parameters.
\<close>

subsection \<open>Problems\<close>

record Problem =
  pb_Type :: string
  pb_Title :: string
  pb_Status :: int
  pb_Detail :: string
  pb_Current :: "json option"
  pb_Submitted :: "json option"

definition problem :: "int \<Rightarrow> string \<Rightarrow> string \<Rightarrow> Problem" where
  "problem status title detail = \<lparr>pb_Type = ''about:blank'', pb_Title = title, pb_Status = status, pb_Detail = detail, pb_Current = None, pb_Submitted = None\<rparr>"

definition BadRequest :: Problem where
  "BadRequest = problem 400 ''Bad Request'' ''The request is invalid. Check the fields and try again.''"

definition Unauthorized :: Problem where
  "Unauthorized = problem 401 ''Unauthorized'' ''Sign in to continue.''"

definition Forbidden :: Problem where
  "Forbidden = problem 403 ''Forbidden'' ''Your account cannot perform this action. Contact a workspace administrator.''"

definition NotFound :: Problem where
  "NotFound = problem 404 ''Not Found'' ''This resource was not found. Check its identifier and try again.''"

definition MethodNotAllowed :: Problem where
  "MethodNotAllowed = problem 405 ''Method Not Allowed'' ''This method is not supported for this resource. Check the API method.''"

definition NotAcceptable :: Problem where
  "NotAcceptable = problem 406 ''Not Acceptable'' ''Accept br, gzip or identity encoding for this response.''"

definition Conflict :: "json \<Rightarrow> Problem" where
  "Conflict current = (problem 409 ''Conflict''
     ''This item changed. Compare the current version with your edits and retry using its version.'')\<lparr>pb_Current := Some current\<rparr>"

definition TooLarge :: Problem where
  "TooLarge = problem 413 ''Content Too Large'' ''The request is too large. Reduce its size and try again.''"

definition UnsupportedMediaType :: Problem where
  "UnsupportedMediaType = problem 415 ''Unsupported Media Type'' ''Send a JSON request with Content-Type: application/json.''"

definition Unprocessable :: Problem where
  "Unprocessable = problem 422 ''Unprocessable Content'' ''This change is not valid for the resource. Review its configuration and try again.''"

definition PreconditionRequired :: Problem where
  "PreconditionRequired = problem 428 ''Precondition Required'' ''Send If-Match with the current item version before changing this item.''"

definition RateLimited :: Problem where
  "RateLimited = problem 429 ''Too Many Requests'' ''Too many attempts. Wait before trying again.''"

definition InternalError :: Problem where
  "InternalError = problem 500 ''Internal Server Error'' ''The request could not be completed. Try again.''"

definition Unavailable :: Problem where
  "Unavailable = problem 503 ''Service Unavailable'' ''The service is temporarily unavailable. Try again shortly.''"

definition requestProblem :: "string \<Rightarrow> Problem" where
  "requestProblem detail = BadRequest\<lparr>pb_Detail := detail\<rparr>"

text \<open>
  The codes of the errors: a unique violation is 23505; 22P02, 22007 or 22008, 23514 and 23503 are an
  invalid text representation, an invalid date, a check and a foreign key violation.
\<close>

definition databaseProblem :: "sql_error \<Rightarrow> Problem" where
  "databaseProblem e =
     (case e of
        NoRows \<Rightarrow> NotFound
      | UniqueViolation c \<Rightarrow> problem 409 ''Conflict'' ''This identifier already exists. Choose a different identifier.''
      | InvalidText \<Rightarrow> Unprocessable
      | InvalidDatetime \<Rightarrow> Unprocessable
      | CheckViolation c \<Rightarrow> Unprocessable
      | ForeignKeyViolation c \<Rightarrow> Unprocessable
      | _ \<Rightarrow> Unavailable)"

subsection \<open>Requests\<close>

text \<open>The parsed query, the path, the identity of the session and the parameter \<open>key\<close> of the route.\<close>

record request =
  rq_Query :: Values
  rq_Path :: string
  rq_WorkspaceID :: uuid
  rq_UserID :: uuid
  rq_Role :: string
  rq_Key :: string

definition rejectFields :: "request \<Rightarrow> Problem + unit" where
  "rejectFields r =
     (if q_Has (rq_Query r) ''fields'' then Inl (BadRequest\<lparr>pb_Detail := ''fields is not supported for this endpoint; remove it.''\<rparr>) else Inr ())"

definition PageLimit :: "Values \<Rightarrow> string + nat" where
  "PageLimit q =
     (if q_Has q ''offset'' then Inl ''offset is not supported; use cursor pagination''
      else if length (q_All q ''limit'') > 1 \<or> length (q_All q ''cursor'') > 1 then Inl ''send one limit and one cursor''
      else if \<not> q_Has q ''limit'' then Inr 50
      else case ParseInt_dec (q_Get q ''limit'') of
          None \<Rightarrow> Inl ''limit must be between 1 and 200''
        | Some n \<Rightarrow> if n < 1 \<or> n > 200 then Inl ''limit must be between 1 and 200'' else Inr (nat n))"

lemma PageLimit_bounds: "PageLimit q = Inr limit \<Longrightarrow> 1 \<le> limit \<and> limit \<le> 200"
  by (auto simp: PageLimit_def split: if_splits option.splits)

subsection \<open>Cursors\<close>

record Cursor =
  cu_Version :: int
  cu_After :: string
  cu_Sort :: "json list"
  cu_Upper :: string
  cu_Scope :: string
  cu_At :: string

record cursor_prims =
  json_cursor :: "Cursor \<Rightarrow> string"
  read_cursor :: "string \<Rightarrow> Cursor option"
  cu_hmac :: "string \<Rightarrow> string \<Rightarrow> string"
  cu_sha256 :: "string \<Rightarrow> string"

definition EncodeCursor :: "cursor_prims \<Rightarrow> Cursor \<Rightarrow> string \<Rightarrow> string" where
  "EncodeCursor pr c key = (let raw = json_cursor pr (c\<lparr>cu_Version := 1\<rparr>) in b64_encode (raw @ cu_hmac pr key raw))"

definition invalid_cursor :: string where
  "invalid_cursor = ''cursor is invalid for this request; restart from the first page''"

definition DecodeCursor :: "cursor_prims \<Rightarrow> string \<Rightarrow> string \<Rightarrow> string \<Rightarrow> string + Cursor" where
  "DecodeCursor pr token key scope =
     (if length token > 8192 then Inl invalid_cursor
      else rbind (some_or (b64_decode token) invalid_cursor) (\<lambda>raw.
      if length raw \<le> 32 then Inl invalid_cursor
      else let d = take (length raw - 32) raw; signature = drop (length raw - 32) raw in
      if signature \<noteq> cu_hmac pr key d then Inl invalid_cursor
      else rbind (some_or (read_cursor pr d) invalid_cursor) (\<lambda>c.
      if cu_Version c \<noteq> 1 \<or> cu_Scope c \<noteq> scope \<or> cu_After c = [] \<or> cu_Upper c = [] then Inl invalid_cursor
      else Inr c)))"

definition cursorScope :: "cursor_prims \<Rightarrow> request \<Rightarrow> string" where
  "cursorScope pr r =
     hex_encode (cu_sha256 pr (uuid_String (rq_WorkspaceID r) @ [CHR 0x0A] @ uuid_String (rq_UserID r) @ [CHR 0x0A] @
       rq_Path r @ [CHR 0x0A] @ q_Encode (q_Del ''limit'' (q_Del ''cursor'' (rq_Query r)))))"

subsection \<open>Round trip\<close>

text \<open>
  The texts in the cursors of the handlers: identifiers, numbers and hashes.  Of JSON the code
  relies on reading back what it wrote for such a cursor, which takes less than 1000 bytes; of
  HMAC-SHA-256 and SHA-256 on the 32 bytes of their results.
\<close>

definition plain_chars :: "char set" where
  "plain_chars = set ''0123456789abcdef-''"

definition plain :: "string \<Rightarrow> bool" where
  "plain s = (list_all (\<lambda>c. c \<in> plain_chars) s \<and> length s \<le> 64)"

definition cursor_ok :: "Cursor \<Rightarrow> bool" where
  "cursor_ok c = (cu_Sort c = [] \<and> cu_At c = [] \<and> plain (cu_After c) \<and> plain (cu_Upper c) \<and> plain (cu_Scope c))"

definition prims_ok :: "cursor_prims \<Rightarrow> bool" where
  "prims_ok pr = ((\<forall>c. cursor_ok c \<longrightarrow> cu_Version c = 1 \<longrightarrow> read_cursor pr (json_cursor pr c) = Some c \<and>
       0 < length (json_cursor pr c) \<and> length (json_cursor pr c) < 1000) \<and>
     (\<forall>k d. length (cu_hmac pr k d) = 32) \<and> (\<forall>d. length (cu_sha256 pr d) = 32))"

lemma DecodeCursor_EncodeCursor:
  assumes "prims_ok pr" "cursor_ok c" "cu_After c \<noteq> []" "cu_Upper c \<noteq> []"
  shows "DecodeCursor pr (EncodeCursor pr c key) key (cu_Scope c) = Inr (c\<lparr>cu_Version := 1\<rparr>)"
    "EncodeCursor pr c key \<noteq> []"
proof -
  define c1 where "c1 = c\<lparr>cu_Version := 1\<rparr>"
  define raw where "raw = json_cursor pr c1"
  have "cursor_ok c1" "cu_Version c1 = 1" using assms(2) by (simp_all add: c1_def cursor_ok_def)
  then have raw: "read_cursor pr raw = Some c1" "raw \<noteq> []" "length raw < 1000" "length (cu_hmac pr key raw) = 32"
    using assms(1) by (simp_all add: prims_ok_def raw_def)
  have token: "EncodeCursor pr c key = b64_encode (raw @ cu_hmac pr key raw)"
    by (simp add: EncodeCursor_def raw_def c1_def Let_def)
  have len: "length (EncodeCursor pr c key) \<le> 8192"
    using b64_encode_length [of "raw @ cu_hmac pr key raw"] raw(3,4) unfolding token by simp
  show "DecodeCursor pr (EncodeCursor pr c key) key (cu_Scope c) = Inr (c\<lparr>cu_Version := 1\<rparr>)"
    unfolding DecodeCursor_def token b64_decode_encode some_or_def
    using len raw assms(3,4) by (simp add: token Let_def c1_def)
  show "EncodeCursor pr c key \<noteq> []"
    using b64_decode_encode [of "raw @ cu_hmac pr key raw"] raw(2) unfolding token by (auto simp: b64_decode_def decode_with_def)
qed

lemma plain_uuid: "plain (uuid_String u)" "uuid_String u \<noteq> []"
proof -
  have "set hexAlphabet \<subseteq> plain_chars" and dash: "set ''-'' \<subseteq> plain_chars" by (simp_all add: hexAlphabet_def plain_chars_def)
  then have h: "set (hexEncode (unat u) 32) \<subseteq> plain_chars" using set_hexEncode [of "unat u" 32] by blast
  obtain a b c d e where abc: "hexEncode (unat u) 32 = a @ b @ c @ d @ e" "uuid_String u = a @ ''-'' @ b @ ''-'' @ c @ ''-'' @ d @ ''-'' @ e"
    by (rule uuid_String_split)
  have "length (a @ b @ c @ d @ e) = 32" using length_hexEncode [of "unat u" 32] abc(1) by simp
  then have len: "length (uuid_String u) = 36" by (simp add: abc(2))
  have "set (uuid_String u) \<subseteq> plain_chars" using h dash unfolding abc set_append by (intro Un_least) simp_all
  then show "plain (uuid_String u)" using len by (simp add: plain_def list_all_iff subset_iff)
  show "uuid_String u \<noteq> []" using len by auto
qed

lemma plain_scope:
  assumes "prims_ok pr"
  shows "plain (cursorScope pr r)"
proof -
  have digit: "list_all (\<lambda>d. hex_digit d \<in> plain_chars) [0..<16]" unfolding plain_chars_def by code_simp
  have d: "hex_digit d \<in> plain_chars" if "d < 16" for d
    using digit that by (simp only: list_all_iff set_upt atLeastLessThan_iff le0 simp_thms)
  have "set (hex_encode s) \<subseteq> plain_chars" for s
    by (induction s) (simp_all add: hex_encode_def d char_quotients(2))
  then show ?thesis using assms unfolding plain_def cursorScope_def list_all_iff prims_ok_def hex_encode_length by auto
qed

lemma scope_without_cursor: "cursorScope pr (r\<lparr>rq_Query := x # q_Del ''cursor'' (rq_Query r)\<rparr>) = cursorScope pr r" if "fst x = ''cursor''"
  using that by (simp add: cursorScope_def q_Del_def split_beta)

end
