(* ===== verification/Sx_Keyset.thy ===== *)
theory Sx_Keyset
  imports Main
begin

text \<open>
  Keyset pagination as a contract: a statement that lists, in the order of a key, the rows behind
  a position; and what a client reads that asks for page after page while the rows may change
  between its requests.
\<close>

text \<open>
  One request per entry of \<open>views\<close>, on the rows of that moment.  The client goes on while more
  than \<open>limit\<close> rows are left; the second component says whether it reached the last page.
\<close>

fun walk :: "('k \<Rightarrow> 'row list \<Rightarrow> 'row list) \<Rightarrow> ('row \<Rightarrow> 'k) \<Rightarrow> nat \<Rightarrow> 'k \<Rightarrow> 'row list list \<Rightarrow> 'row list list \<times> bool" where
  "walk select key limit after [] = ([], False)"
| "walk select key limit after (rows # views) =
     (let s = select after rows; p = take limit s in
      if length s \<le> limit then ([p], True)
      else case walk select key limit (key (last p)) views of (ps, ended) \<Rightarrow> (p # ps, ended))"

locale keyset =
  fixes before :: "'k \<Rightarrow> 'k \<Rightarrow> bool"
    and key :: "'row \<Rightarrow> 'k"
    and allowed :: "'row \<Rightarrow> bool"
    and select :: "'k \<Rightarrow> 'row list \<Rightarrow> 'row list"
  assumes before_trans: "before a b \<Longrightarrow> before b c \<Longrightarrow> before a c"
    and before_irrefl: "\<not> before a a"
    and before_total: "a \<noteq> b \<Longrightarrow> before a b \<or> before b a"
    and select_set: "set (select after rows) = {r \<in> set rows. allowed r \<and> before after (key r)}"
    and select_sorted: "distinct (map key rows) \<Longrightarrow> sorted_wrt before (map key (select after rows))"
begin

lemma sorted_unique:
  "sorted_wrt before (map key xs) \<Longrightarrow> sorted_wrt before (map key ys) \<Longrightarrow> set xs = set ys \<Longrightarrow> xs = ys"
proof (induction xs arbitrary: ys)
  case (Cons x xs)
  then obtain y zs where ys: "ys = y # zs" by (cases ys) auto
  have x: "\<forall>r \<in> set xs. before (key x) (key r)" and y: "\<forall>r \<in> set zs. before (key y) (key r)"
    using Cons.prems ys by auto
  have "x = y"
  proof (rule ccontr)
    assume "x \<noteq> y"
    then have "before (key x) (key y)" "before (key y) (key x)" using x y Cons.prems(3) ys by auto
    then show False using before_trans before_irrefl by blast
  qed
  moreover have "x \<notin> set xs" "y \<notin> set zs" using x y before_irrefl by auto
  ultimately have "set xs = set zs" using Cons.prems(3) ys by (metis insert_ident list.simps(15))
  then show ?case using Cons.IH [of zs] Cons.prems ys \<open>x = y\<close> by simp
qed simp

lemma before_last:
  "sorted_wrt before (map key p) \<Longrightarrow> x \<in> set p \<Longrightarrow> x = last p \<or> before (key x) (key (last p))"
  by (induction p rule: rev_induct) (auto simp: sorted_wrt_append)

lemma select_later:
  assumes "distinct (map key rows)" "select after rows = p @ rest" "p \<noteq> []"
  shows "select (key (last p)) rows = rest"
proof (rule sorted_unique)
  have s: "sorted_wrt before (map key (p @ rest))" using select_sorted [OF assms(1), of after] assms(2) by simp
  then show "sorted_wrt before (map key rest)" by (simp add: sorted_wrt_append)
  show "sorted_wrt before (map key (select (key (last p)) rows))" by (rule select_sorted [OF assms(1)])
  have set: "set p \<union> set rest = {r \<in> set rows. allowed r \<and> before after (key r)}"
    using select_set [of after rows] assms(2) by simp
  have last: "before after (key (last p))" using set last_in_set [OF assms(3)] by blast
  have rest: "before (key (last p)) (key r)" if "r \<in> set rest" for r
    using s that last_in_set [OF assms(3)] by (simp add: sorted_wrt_append)
  have front: "\<not> before (key (last p)) (key r)" if "r \<in> set p" for r
    using before_last [of p r] s that before_trans before_irrefl by (auto simp: sorted_wrt_append)
  show "set (select (key (last p)) rows) = set rest"
    unfolding select_set using set rest front last before_trans by blast
qed

lemma walk_ascending:
  assumes "\<forall>rows \<in> set views. distinct (map key rows)" "0 < limit"
  shows "sorted_wrt before (map key (concat (fst (walk select key limit after views)))) \<and>
    (\<forall>r \<in> set (concat (fst (walk select key limit after views))). before after (key r))"
  using assms(1)
proof (induction views arbitrary: after)
  case (Cons rows views)
  define s p where "s = select after rows" and "p = take limit s"
  have sp: "sorted_wrt before (map key p)" "\<forall>r \<in> set p. before after (key r)"
    using select_sorted [of rows after] select_set [of after rows] Cons.prems
    by (auto simp: s_def p_def take_map [symmetric] sorted_wrt_take dest: in_set_takeD)
  show ?case
  proof (cases "length s \<le> limit")
    case True
    then show ?thesis using sp by (simp add: s_def p_def Let_def)
  next
    case False
    have "p \<noteq> []" using False assms(2) by (auto simp: p_def)
    then have last: "before after (key (last p))" using sp(2) by simp
    obtain ps e where w: "walk select key limit (key (last p)) views = (ps, e)" by fastforce
    have IH: "sorted_wrt before (map key (concat ps))" "\<forall>r \<in> set (concat ps). before (key (last p)) (key r)"
      using Cons.IH [of "key (last p)"] Cons.prems w by auto
    have "before (key x) (key r)" if "x \<in> set p" "r \<in> set (concat ps)" for x r
      using before_last [OF sp(1) that(1)] IH(2) that(2) before_trans by blast
    moreover have "walk select key limit after (rows # views) = (p # ps, e)"
      using False w by (simp add: s_def p_def Let_def)
    ultimately show ?thesis using sp IH last before_trans by (fastforce simp: sorted_wrt_append)
  qed
qed simp

lemma walk_complete:
  assumes "\<forall>rows \<in> set views. distinct (map key rows)" "0 < limit" "snd (walk select key limit after views)"
    and "\<forall>rows \<in> set views. r \<in> set rows" "allowed r" "before after (key r)"
  shows "r \<in> set (concat (fst (walk select key limit after views)))"
  using assms(1,3,4,6)
proof (induction views arbitrary: after)
  case (Cons rows views)
  define s p where "s = select after rows" and "p = take limit s"
  have r: "r \<in> set s" using select_set [of after rows] Cons.prems assms(5) by (simp add: s_def)
  show ?case
  proof (cases "length s \<le> limit")
    case True
    then show ?thesis using r by (simp add: s_def Let_def)
  next
    case False
    have p: "p \<noteq> []" "s = p @ drop limit s" using False assms(2) by (auto simp: p_def)
    obtain ps e where w: "walk select key limit (key (last p)) views = (ps, e)" by fastforce
    have step: "walk select key limit after (rows # views) = (p # ps, e)" using False w by (simp add: s_def p_def Let_def)
    have "r \<in> set p \<or> r \<in> set (concat ps)"
    proof (cases "r \<in> set p")
      case False
      then have "r \<in> set (select (key (last p)) rows)"
        using select_later [of rows after p "drop limit s"] p r Cons.prems(1) by (metis Un_iff list.set_intros(1) s_def set_append)
      then have "before (key (last p)) (key r)" by (simp add: select_set)
      then show ?thesis using Cons.IH [of "key (last p)"] Cons.prems step w by simp
    qed simp
    then show ?thesis unfolding step by simp
  qed
qed simp

text \<open>Each page that is not the last has \<open>limit\<close> rows, and rows only come from their own view.\<close>

lemma walk_pages:
  "list_all2 (\<lambda>p rows. set p \<subseteq> set rows \<and> length p \<le> limit) (fst (walk select key limit after views))
     (take (length (fst (walk select key limit after views))) views)"
proof (induction views arbitrary: after)
  case (Cons rows views)
  have "set (take limit (select after rows)) \<subseteq> set rows" using select_set [of after rows] by (auto dest: in_set_takeD)
  then show ?case using Cons [of "key (last (take limit (select after rows)))"]
    by (cases "walk select key limit (key (last (take limit (select after rows)))) views") (auto simp: Let_def)
qed simp

lemma walk_unchanged:
  assumes "distinct (map key rows)" "0 < limit" "length (select after rows) < n * limit"
  shows "snd (walk select key limit after (replicate n rows)) \<and>
    concat (fst (walk select key limit after (replicate n rows))) = select after rows"
  using assms(3)
proof (induction n arbitrary: after)
  case (Suc n)
  define s p where "s = select after rows" and "p = take limit s"
  show ?case
  proof (cases "length s \<le> limit")
    case True
    then show ?thesis by (simp add: s_def Let_def)
  next
    case False
    have p: "p \<noteq> []" "select after rows = p @ drop limit s" using False assms(2) by (auto simp: p_def s_def)
    have later: "select (key (last p)) rows = drop limit s" by (rule select_later [OF assms(1) p(2,1)])
    have "length (drop limit s) < n * limit" using Suc.prems False by (simp add: s_def)
    then have IH: "snd (walk select key limit (key (last p)) (replicate n rows))"
      "concat (fst (walk select key limit (key (last p)) (replicate n rows))) = drop limit s"
      using Suc.IH [of "key (last p)"] by (simp_all add: later)
    have "walk select key limit after (replicate (Suc n) rows) =
        (case walk select key limit (key (last p)) (replicate n rows) of (ps, ended) \<Rightarrow> (p # ps, ended))"
      using False by (simp add: s_def p_def Let_def)
    then show ?thesis using IH p(2) by (simp split: prod.splits)
  qed
qed simp

end

end
