(* ===== verification/Sx_Pages.thy ===== *)
theory Sx_Pages
  imports Sx_Request Sx_Keyset Sx_Projection Sx_Flush
begin

text \<open>
  The paged listings of the API: \<open>projectedPage\<close> of \<open>src/internal/api/pages.go\<close>, \<open>itemHistory\<close> of
  \<open>src/internal/api/history.go\<close> and \<open>changes\<close> of \<open>src/internal/api/changes.go\<close>.

  A statement that the handler only passes on is represented by the rows it returns.  The
  statements of one request may see different states of the database: the first argument of a
  handler is what the earlier statements see, the second what the last one sees.
\<close>

subsection \<open>The loop over the rows\<close>

text \<open>A page, and the cursor for the next one if a row was left over.\<close>

fun page_loop :: "('row \<Rightarrow> Problem + json) \<Rightarrow> ('row \<Rightarrow> string) \<Rightarrow> nat \<Rightarrow> Cursor \<Rightarrow> json list \<Rightarrow> 'row list \<Rightarrow> Problem + json list \<times> Cursor option" where
  "page_loop doc key limit c data [] = Inr (data, None)"
| "page_loop doc key limit c data (row # rows) =
     (if length data = limit then Inr (data, Some c)
      else rbind (doc row) (\<lambda>d. page_loop doc key limit (c\<lparr>cu_After := key row\<rparr>) (data @ [d]) rows))"

definition tokens :: "cursor_prims \<Rightarrow> string \<Rightarrow> json list \<times> Cursor option \<Rightarrow> json list \<times> string option" where
  "tokens pr skey page = (case page of (data, nxt) \<Rightarrow> (data, map_option (\<lambda>c. EncodeCursor pr c skey) nxt))"

subsection \<open>Listings by identifier\<close>

definition zeroID :: string where
  "zeroID = ''00000000-0000-0000-0000-000000000000''"

text \<open>\<open>SELECT id FROM (base) ORDER BY id DESC LIMIT 1\<close>, with the zero identifier when there is no row.\<close>

definition upper_id :: "(uuid \<times> json) list \<Rightarrow> string" where
  "upper_id rows = (case sort_key fst rows of [] \<Rightarrow> zeroID | row # more_rows \<Rightarrow> uuid_String (fst (last (row # more_rows))))"

text \<open>\<open>SELECT id, doc FROM (base) WHERE id > after AND id <= upper ORDER BY id\<close>, before its \<open>LIMIT\<close>\<close>

definition page_query :: "uuid \<Rightarrow> uuid \<Rightarrow> (uuid \<times> json) list \<Rightarrow> (uuid \<times> json) list" where
  "page_query upper after rows = sort_key fst (filter (\<lambda>row. after < fst row \<and> fst row \<le> upper) rows)"

text \<open>A document is passed on as it is, or decoded as an object and trimmed to the fields.\<close>

definition render_doc :: "string list option \<Rightarrow> json \<Rightarrow> Problem + json" where
  "render_doc names doc =
     (case names of
        None \<Rightarrow> Inr doc
      | Some ns \<Rightarrow> (case doc of JObj m \<Rightarrow> Inr (JObj (Apply m ns)) | JNull \<Rightarrow> Inr (JObj (Apply [] ns)) | _ \<Rightarrow> Inl InternalError))"

definition start_cursor :: "cursor_prims \<Rightarrow> string \<Rightarrow> request \<Rightarrow> Cursor \<Rightarrow> Problem + Cursor" where
  "start_cursor pr skey r c =
     (let token = q_Get (rq_Query r) ''cursor'' in
      if token \<noteq> [] then (case DecodeCursor pr token skey (cu_Scope c) of Inl d \<Rightarrow> Inl (requestProblem d) | Inr c' \<Rightarrow> Inr c')
      else Inr c)"

definition projectedPage ::
  "cursor_prims \<Rightarrow> string \<Rightarrow> request \<Rightarrow> string list option \<Rightarrow> (uuid \<times> json) list \<Rightarrow> (uuid \<times> json) list \<Rightarrow> Problem + json list \<times> string option" where
  "projectedPage pr skey r names first rows =
     (case PageLimit (rq_Query r) of
        Inl d \<Rightarrow> Inl (requestProblem d)
      | Inr limit \<Rightarrow>
          rbind (start_cursor pr skey r \<lparr>cu_Version = 0, cu_After = zeroID, cu_Sort = [], cu_Upper = upper_id first, cu_Scope = cursorScope pr r, cu_At = []\<rparr>) (\<lambda>c.
          case (uuid_Parse (cu_After c), uuid_Parse (cu_Upper c)) of
            (Some after, Some upper) \<Rightarrow>
              rbind (page_loop (\<lambda>row. render_doc names (snd row)) (\<lambda>row. uuid_String (fst row)) limit c []
                (take (limit + 1) (page_query upper after rows))) (\<lambda>page. Inr (tokens pr skey page))
          | _ \<Rightarrow> Inl (databaseProblem InvalidText)))"

definition jsonPage :: "cursor_prims \<Rightarrow> string \<Rightarrow> request \<Rightarrow> (uuid \<times> json) list \<Rightarrow> (uuid \<times> json) list \<Rightarrow> Problem + json list \<times> string option" where
  "jsonPage pr skey r first rows = projectedPage pr skey r None first rows"

subsection \<open>The history of an item\<close>

text \<open>Columns as JSON: a null column is \<open>null\<close>; \<open>ts\<close> writes a timestamp.\<close>

definition json_opt :: "('a \<Rightarrow> json) \<Rightarrow> 'a option \<Rightarrow> json" where
  "json_opt f x = (case x of None \<Rightarrow> JNull | Some v \<Rightarrow> f v)"

definition history_doc :: "(int \<Rightarrow> string) \<Rightarrow> database \<Rightarrow> ChangeEvent \<Rightarrow> json" where
  "history_doc ts db e =
     JObj [(''seq'', JNum (of_int (ce_Seq e))), (''kind'', JStr (ce_Kind e)), (''at'', JStr (ts (ce_At e))),
       (''actor'', case find (\<lambda>u. Some (ua_ID u) = ce_ActorID e) (users db) of
          None \<Rightarrow> JNull
        | Some u \<Rightarrow> JObj [(''id'', JStr (uuid_String (ua_ID u))), (''display_name'', JStr (ua_DisplayName u))]),
       (''field'', json_opt JStr (ce_Field e)), (''old_value'', json_opt id (ce_OldValue e)), (''new_value'', json_opt id (ce_NewValue e))]"

definition historySQL :: "uuid \<Rightarrow> uuid \<Rightarrow> int \<Rightarrow> int \<Rightarrow> ChangeEvent list \<Rightarrow> ChangeEvent list" where
  "historySQL ws item upper after es =
     sort_key (\<lambda>e. - ce_Seq e) (filter (\<lambda>e. ce_WorkspaceID e = ws \<and> ce_ItemID e = Some item \<and> ce_Seq e \<le> upper \<and> ce_Seq e < after) es)"

definition ParseInt64 :: "string \<Rightarrow> int option" where
  "ParseInt64 s = (case ParseInt_dec s of None \<Rightarrow> None | Some n \<Rightarrow> if - (2 ^ 63) \<le> n \<and> n < 2 ^ 63 then Some n else None)"

definition itemHistory :: "(int \<Rightarrow> string) \<Rightarrow> cursor_prims \<Rightarrow> string \<Rightarrow> request \<Rightarrow> database \<Rightarrow> database \<Rightarrow> Problem + json list \<times> string option" where
  "itemHistory ts pr skey r first db =
     rbind (rejectFields r) (\<lambda>_.
     case PageLimit (rq_Query r) of
       Inl d \<Rightarrow> Inl (requestProblem d)
     | Inr limit \<Rightarrow>
         (case find (\<lambda>i. it_WorkspaceID i = rq_WorkspaceID r \<and> it_Key i = rq_Key r) (items first) of
            None \<Rightarrow> Inl (databaseProblem NoRows)
          | Some i \<Rightarrow>
              let seqs = map (\<lambda>e. Some (ce_Seq e)) (filter (\<lambda>e. ce_WorkspaceID e = rq_WorkspaceID r \<and> ce_ItemID e = Some (it_ID i)) (events first)) in
              rbind (start_cursor pr skey r \<lparr>cu_Version = 0, cu_After = ''9223372036854775807'', cu_Sort = [],
                cu_Upper = itoa (coalesce (sql_max seqs) 0), cu_Scope = cursorScope pr r, cu_At = []\<rparr>) (\<lambda>c.
              case (ParseInt64 (cu_Upper c), ParseInt64 (cu_After c)) of
                (Some upper, Some after) \<Rightarrow>
                  rbind (page_loop (\<lambda>e. Inr (history_doc ts db e)) (\<lambda>e. itoa (ce_Seq e)) limit c []
                    (take (limit + 1) (historySQL (rq_WorkspaceID r) (it_ID i) upper after (events db)))) (\<lambda>page. Inr (tokens pr skey page))
              | _ \<Rightarrow> Inl (requestProblem ''Invalid history cursor.''))))"

subsection \<open>The feed of changes\<close>

definition change_doc :: "(int \<Rightarrow> string) \<Rightarrow> ChangeEvent \<Rightarrow> json" where
  "change_doc ts e =
     JObj [(''seq'', JNum (of_int (ce_Seq e))), (''at'', JStr (ts (ce_At e))), (''item_id'', json_opt (\<lambda>u. JStr (uuid_String u)) (ce_ItemID e)),
       (''actor_id'', json_opt (\<lambda>u. JStr (uuid_String u)) (ce_ActorID e)), (''kind'', JStr (ce_Kind e)), (''field'', json_opt JStr (ce_Field e))]"

definition changes :: "(int \<Rightarrow> string) \<Rightarrow> request \<Rightarrow> database \<Rightarrow> Problem + json list \<times> int" where
  "changes ts r db =
     rbind (rejectFields r) (\<lambda>_.
     let q = rq_Query r in
     if q_Has q ''cursor'' \<or> length (q_All q ''since_seq'') > 1 then Inl (requestProblem ''Send one since_seq value; cursor is not supported on changes.'')
     else case PageLimit q of
       Inl d \<Rightarrow> Inl (requestProblem d)
     | Inr limit \<Rightarrow>
         (case (if q_Has q ''since_seq'' then ParseInt64 (q_Get q ''since_seq'') else Some 0) of
            None \<Rightarrow> Inl (requestProblem ''since_seq must be a nonnegative sequence number returned by this workspace.'')
          | Some since \<Rightarrow>
              if since < 0 then Inl (requestProblem ''since_seq must be a nonnegative sequence number returned by this workspace.'')
              else let es = ListEventsSince (rq_WorkspaceID r) since limit db in
                Inr (map (change_doc ts) es, if es = [] then since else ce_Seq (last es))))"

subsection \<open>Pages\<close>

lemma page_loop_result:
  assumes "\<And>row. row \<in> set rows \<Longrightarrow> doc row = Inr (f row)" "length data \<le> limit"
  shows "page_loop doc key limit c data rows =
    Inr (data @ map f (take (limit - length data) rows),
      if length rows \<le> limit - length data then None
      else Some (if limit = length data then c else c\<lparr>cu_After := key (last (take (limit - length data) rows))\<rparr>))"
  using assms
proof (induction rows arbitrary: data c)
  case (Cons row rows)
  show ?case
  proof (cases "length data = limit")
    case False
    then obtain k where k: "limit - length data = Suc k" using Cons.prems(2) by (metis Suc_diff_Suc le_neq_implies_less)
    then have "limit - length (data @ [f row]) = k" "length (data @ [f row]) \<le> limit" by simp_all
    moreover have "c\<lparr>cu_After := key row, cu_After := x\<rparr> = c\<lparr>cu_After := x\<rparr>" for x by simp
    moreover have "take k rows = [] \<longleftrightarrow> k = 0" if "\<not> length rows \<le> k" using that by (cases rows) auto
    ultimately show ?thesis using Cons.IH [of "data @ [f row]" "c\<lparr>cu_After := key row\<rparr>"] Cons.prems(1) k False by auto
  qed simp
qed simp

lemma page_loop_page:
  assumes "\<And>row. row \<in> set s \<Longrightarrow> doc row = Inr (f row)" "0 < limit"
  shows "page_loop doc key limit c [] (take (limit + 1) s) =
    Inr (map f (take limit s), if length s \<le> limit then None else Some (c\<lparr>cu_After := key (last (take limit s))\<rparr>))"
proof -
  have "doc row = Inr (f row)" if "row \<in> set (take (limit + 1) s)" for row using assms(1) in_set_takeD [OF that] by blast
  note loop = page_loop_result [where data = "[]" and limit = limit and key = key and c = c, OF this]
  show ?thesis
  proof (cases "length s \<le> limit")
    case True
    then show ?thesis using loop by simp
  next
    case False
    then show ?thesis using loop assms(2) by (simp add: min_def)
  qed
qed

subsection \<open>Following the cursors\<close>

text \<open>
  A client that asks for the first page and then for the page of every cursor it is given, one
  request per entry of \<open>views\<close>; the flag says whether it came to a page without a cursor.
\<close>

fun follow :: "(string option \<Rightarrow> 'view \<Rightarrow> Problem + json list \<times> string option) \<Rightarrow> string option \<Rightarrow> 'view list \<Rightarrow> Problem + json list list \<times> bool" where
  "follow get_page token [] = Inr ([], False)"
| "follow get_page token (v # views) =
     rbind (get_page token v) (\<lambda>(data, nxt).
     case nxt of None \<Rightarrow> Inr ([data], True)
     | Some t \<Rightarrow> rbind (follow get_page (Some t) views) (\<lambda>(ps, ended). Inr (data # ps, ended)))"

text \<open>It implements the abstract walk whenever each request answers for the position its token stands for.\<close>

lemma follow_refines_walk:
  assumes step: "\<And>tok after v. v \<in> set views \<Longrightarrow> position tok after v \<Longrightarrow>
      get_page tok v = Inr (map (f v) (take limit (select after (rows_of v))),
        if length (select after (rows_of v)) \<le> limit then None else Some (token_of (key (last (take limit (select after (rows_of v)))))))"
    and nxt: "\<And>v row w. v \<in> set views \<Longrightarrow> row \<in> set (rows_of v) \<Longrightarrow> position (Some (token_of (key row))) (key row) w"
    and sub: "\<And>after rows. set (select after rows) \<subseteq> set rows" and limit: "0 < limit"
    and start: "\<And>v vs. views = v # vs \<Longrightarrow> position tok after v"
  shows "follow get_page tok views =
    (case walk select key limit after (map rows_of views) of (ps, ended) \<Rightarrow> Inr (map2 (\<lambda>v p. map (f v) p) views ps, ended))"
  using step nxt start
proof (induction views arbitrary: tok after)
  case (Cons v views)
  have page: "get_page tok v = Inr (map (f v) (take limit (select after (rows_of v))),
      if length (select after (rows_of v)) \<le> limit then None else Some (token_of (key (last (take limit (select after (rows_of v)))))))"
    by (rule Cons.prems(1)) (simp_all add: Cons.prems(3))
  show ?case
  proof (cases "length (select after (rows_of v)) \<le> limit")
    case True
    then show ?thesis by (simp add: page Let_def)
  next
    case False
    define k where "k = key (last (take limit (select after (rows_of v))))"
    have "take limit (select after (rows_of v)) \<noteq> []" using False limit by auto
    then have "last (take limit (select after (rows_of v))) \<in> set (select after (rows_of v))" by (rule in_set_takeD [OF last_in_set])
    then have "last (take limit (select after (rows_of v))) \<in> set (rows_of v)" using sub by (rule set_mp [rotated])
    then have later: "position (Some (token_of k)) k w" for w unfolding k_def by (rule Cons.prems(2) [rotated]) simp
    have "follow get_page (Some (token_of k)) views =
        (case walk select key limit k (map rows_of views) of (ps, ended) \<Rightarrow> Inr (map2 (\<lambda>v p. map (f v) p) views ps, ended))"
    proof (rule Cons.IH)
      show "position (Some (token_of k)) k w" for w by (rule later)
      show "position (Some (token_of (key row))) (key row) w" if "v' \<in> set views" "row \<in> set (rows_of v')" for v' row w
        by (rule Cons.prems(2) [OF _ that(2)]) (simp add: that(1))
    qed (rule Cons.prems(1), simp_all)
    then show ?thesis using False by (simp add: page Let_def k_def split: prod.split)
  qed
qed simp

definition with_cursor :: "string option \<Rightarrow> request \<Rightarrow> request" where
  "with_cursor token r = (case token of None \<Rightarrow> r | Some t \<Rightarrow> r\<lparr>rq_Query := (''cursor'', [t]) # rq_Query r\<rparr>)"

lemma with_cursor_request:
  assumes "\<not> q_Has (rq_Query r) ''cursor''"
  shows "PageLimit (rq_Query (with_cursor tok r)) = PageLimit (rq_Query r)"
    "cursorScope pr (with_cursor tok r) = cursorScope pr r"
    "q_Get (rq_Query (with_cursor tok r)) ''cursor'' = (case tok of None \<Rightarrow> [] | Some t \<Rightarrow> t)"
    "rejectFields (with_cursor tok r) = rejectFields r"
    "rq_WorkspaceID (with_cursor tok r) = rq_WorkspaceID r" "rq_Key (with_cursor tok r) = rq_Key r"
proof -
  have none: "map_of (rq_Query r) ''cursor'' = None" using assms by (simp add: q_Has_def)
  show "PageLimit (rq_Query (with_cursor tok r)) = PageLimit (rq_Query r)"
    using none by (cases tok) (simp_all add: with_cursor_def PageLimit_def q_Has_def q_All_def q_Get_def)
  show "cursorScope pr (with_cursor tok r) = cursorScope pr r"
    by (cases tok) (simp_all add: with_cursor_def cursorScope_def q_Del_def)
  show "q_Get (rq_Query (with_cursor tok r)) ''cursor'' = (case tok of None \<Rightarrow> [] | Some t \<Rightarrow> t)"
    using none by (cases tok) (simp_all add: with_cursor_def q_Get_def)
  show "rejectFields (with_cursor tok r) = rejectFields r"
    by (cases tok) (simp_all add: with_cursor_def rejectFields_def q_Has_def)
  show "rq_WorkspaceID (with_cursor tok r) = rq_WorkspaceID r" "rq_Key (with_cursor tok r) = rq_Key r"
    by (cases tok; simp add: with_cursor_def)+
qed

text \<open>The cursor of a listing: its token stands for it, and its start without a token.\<close>

lemma start_cursor_with_cursor:
  assumes "\<not> q_Has (rq_Query r) ''cursor''" "prims_ok pr" "cursor_ok c'" "cu_After c' \<noteq> []" "cu_Upper c' \<noteq> []" "cu_Scope c' = cu_Scope c"
  shows "start_cursor pr skey (with_cursor (Some (EncodeCursor pr c' skey)) r) c = Inr (c'\<lparr>cu_Version := 1\<rparr>)"
    "start_cursor pr skey (with_cursor None r) c = Inr c"
  using DecodeCursor_EncodeCursor [OF assms(2-5)] assms(6)
  by (simp_all add: start_cursor_def with_cursor_request [OF assms(1)] Let_def)

subsection \<open>Listings by identifier\<close>

lemma sort_key_strict: "distinct (map f xs) \<Longrightarrow> sorted_wrt (<) (map f (sort_key f xs))"
  using sorted_sort_key [of f xs] distinct_map [of f "sort_key f xs"] distinct_map [of f xs]
  by (simp add: strict_sorted_iff)

interpretation id_pages: keyset "(<)" fst "\<lambda>row. fst row \<le> upper" "page_query upper" for upper
proof
  show "set (page_query upper after rows) = {r \<in> set rows. fst r \<le> upper \<and> after < fst r}" for after rows
    by (auto simp: page_query_def)
  show "sorted_wrt (<) (map fst (page_query upper after rows))" if "distinct (map fst rows)" for after and rows :: "(uuid \<times> json) list"
    unfolding page_query_def by (rule sort_key_strict) (rule distinct_map_filter [OF that])
qed auto

lemma upper_id_uuid: obtains u where "upper_id rows = uuid_String u" "\<And>row. row \<in> set rows \<Longrightarrow> fst row \<le> u"
proof (cases "sort_key fst rows")
  case Nil
  then have "rows = []" by (metis length_0_conv length_sort)
  moreover have "zeroID = uuid_String 0" by code_simp
  ultimately show thesis using that [of 0] by (simp add: upper_id_def)
next
  case (Cons row more_rows)
  have "fst x \<le> fst (last (row # more_rows))" if "x \<in> set rows" for x
  proof -
    have x: "x \<in> set (row # more_rows)" using that Cons by (metis set_sort)
    have "sorted (map fst (row # more_rows))" using sorted_sort_key [of fst rows] Cons by simp
    then have "sorted_wrt (\<lambda>a b. fst a \<le> fst b) (butlast (row # more_rows) @ [last (row # more_rows)])"
      by (simp add: sorted_map)
    moreover have "x \<in> set (butlast (row # more_rows)) \<or> x = last (row # more_rows)"
      using x append_butlast_last_id [of "row # more_rows"] by (metis Un_iff list.distinct(1) list.set(1) set_ConsD set_append empty_iff)
    ultimately show ?thesis by (auto simp: sorted_wrt_append)
  qed
  then show thesis using that [of "fst (last (row # more_rows))"] Cons by (simp add: upper_id_def)
qed

definition request_page :: "cursor_prims \<Rightarrow> string \<Rightarrow> request \<Rightarrow> string list option \<Rightarrow> string option \<Rightarrow> (uuid \<times> json) list \<times> (uuid \<times> json) list \<Rightarrow> Problem + json list \<times> string option" where
  "request_page pr skey r names token view = projectedPage pr skey (with_cursor token r) names (fst view) (snd view)"

lemma projectedPage_page:
  assumes "PageLimit (rq_Query r) = Inr limit"
    and "start_cursor pr skey r \<lparr>cu_Version = 0, cu_After = zeroID, cu_Sort = [], cu_Upper = upper_id first, cu_Scope = cursorScope pr r, cu_At = []\<rparr> = Inr c"
    and "cu_After c = uuid_String after" "cu_Upper c = uuid_String upper"
    and "\<And>row. row \<in> set rows \<Longrightarrow> render_doc names (snd row) = Inr (f row)"
  shows "projectedPage pr skey r names first rows =
    Inr (map f (take limit (page_query upper after rows)), if length (page_query upper after rows) \<le> limit then None
      else Some (EncodeCursor pr (c\<lparr>cu_After := uuid_String (fst (last (take limit (page_query upper after rows))))\<rparr>) skey))"
proof -
  have limit: "0 < limit" using PageLimit_bounds [OF assms(1)] by simp
  have rows: "render_doc names (snd row) = Inr (f row)" if "row \<in> set (page_query upper after rows)" for row
    using that assms(5) by (simp add: id_pages.select_set)
  have "projectedPage pr skey r names first rows =
      rbind (page_loop (\<lambda>row. render_doc names (snd row)) (\<lambda>row. uuid_String (fst row)) limit c []
        (take (limit + 1) (page_query upper after rows))) (\<lambda>page. Inr (tokens pr skey page))"
    unfolding projectedPage_def assms(1,2) sum.case rbind_simps assms(3,4) uuid_Parse_String option.case prod.case ..
  also have "page_loop (\<lambda>row. render_doc names (snd row)) (\<lambda>row. uuid_String (fst row)) limit c []
        (take (limit + 1) (page_query upper after rows)) =
      Inr (map f (take limit (page_query upper after rows)), if length (page_query upper after rows) \<le> limit then None
        else Some (c\<lparr>cu_After := uuid_String (fst (last (take limit (page_query upper after rows))))\<rparr>))"
    by (rule page_loop_page [OF rows limit])
  finally show ?thesis by (simp add: tokens_def)
qed

lemma follow_pages:
  assumes pr: "prims_ok pr" and r: "\<not> q_Has (rq_Query r) ''cursor''" "PageLimit (rq_Query r) = Inr limit"
    and docs: "\<And>v row. v \<in> set (view # views) \<Longrightarrow> row \<in> set (snd v) \<Longrightarrow> render_doc names (snd row) = Inr (f row)"
    and upper: "upper_id (fst view) = uuid_String upper"
  shows "follow (request_page pr skey r names) None (view # views) =
    (case walk (page_query upper) fst limit 0 (map snd (view # views)) of (ps, ended) \<Rightarrow> Inr (map (map f) ps, ended))"
proof -
  define c where "c k = \<lparr>cu_Version = 0, cu_After = uuid_String k, cu_Sort = [], cu_Upper = uuid_String upper, cu_Scope = cursorScope pr r, cu_At = []\<rparr>" for k
  define token_of where "token_of k = EncodeCursor pr (c k) skey" for k
  have zero: "zeroID = uuid_String 0" by code_simp
  have c_ok: "cursor_ok (c k)" "cu_After (c k) \<noteq> []" "cu_Upper (c k) \<noteq> []" for k
    using plain_uuid plain_scope [OF pr] by (simp_all add: c_def cursor_ok_def)
  have encode: "EncodeCursor pr ((c k)\<lparr>cu_Version := v, cu_After := uuid_String l\<rparr>) skey = token_of l" for k l v
    by (simp add: token_of_def EncodeCursor_def c_def)
  have encode0: "EncodeCursor pr ((c k)\<lparr>cu_After := uuid_String l\<rparr>) skey = token_of l" for k l
    by (simp add: token_of_def EncodeCursor_def c_def)
  have c_fields: "cu_After (c k) = uuid_String k" "cu_Upper (c k) = uuid_String upper" for k by (simp_all add: c_def)
  have start0: "start_cursor pr skey (with_cursor None r) \<lparr>cu_Version = 0, cu_After = zeroID, cu_Sort = [], cu_Upper = upper_id (fst view),
      cu_Scope = cursorScope pr r, cu_At = []\<rparr> = Inr (c 0)"
    using start_cursor_with_cursor(2) [OF r(1) pr c_ok [of 0] refl] unfolding zero upper c_def .
  have start1: "start_cursor pr skey (with_cursor (Some (token_of k)) r) \<lparr>cu_Version = 0, cu_After = zeroID, cu_Sort = [], cu_Upper = up,
      cu_Scope = cursorScope pr r, cu_At = []\<rparr> = Inr ((c k)\<lparr>cu_Version := 1\<rparr>)" for k up
    unfolding token_of_def by (rule start_cursor_with_cursor(1) [OF r(1) pr c_ok]) (simp add: c_def)
  have w: "follow (request_page pr skey r names) None (view # views) =
    (case walk (page_query upper) fst limit 0 (map snd (view # views)) of (ps, ended) \<Rightarrow> Inr (map2 (\<lambda>v p. map f p) (view # views) ps, ended))"
  proof (rule follow_refines_walk [where position = "\<lambda>tok after v. tok = None \<and> after = 0 \<and> v = view \<or> tok = Some (token_of after)" and token_of = token_of])
    fix tok after v
    assume v: "v \<in> set (view # views)" and pos: "tok = None \<and> after = 0 \<and> v = view \<or> tok = Some (token_of after)"
    have rows: "render_doc names (snd row) = Inr (f row)" if "row \<in> set (snd v)" for row by (rule docs [OF v that])
    note page = projectedPage_page [of "with_cursor tok r" limit pr skey "fst v" _ _ _ "snd v" names f, OF _ _ _ _ rows, unfolded with_cursor_request [OF r(1)], OF r(2)]
    show "request_page pr skey r names tok v = Inr (map f (take limit (page_query upper after (snd v))),
        if length (page_query upper after (snd v)) \<le> limit then None
        else Some (token_of (fst (last (take limit (page_query upper after (snd v)))))))"
      using pos
    proof (elim disjE conjE)
      assume "tok = None" "after = 0" "v = view"
      then show ?thesis unfolding request_page_def
        using page [of "c 0" 0 upper] start0 by (simp add: encode0 c_fields)
    next
      assume "tok = Some (token_of after)"
      then show ?thesis unfolding request_page_def
        using page [of "(c after)\<lparr>cu_Version := 1\<rparr>" after upper] start1 by (simp add: encode c_fields)
    qed
  qed (use PageLimit_bounds [OF r(2)] in \<open>auto simp: id_pages.select_set\<close>)
  have len: "length ps \<le> length views'" if "walk (page_query upper) fst limit k (map snd views') = (ps, e)"
    for k ps e and views' :: "((uuid \<times> json) list \<times> (uuid \<times> json) list) list"
    using that by (induction views' arbitrary: k ps e) (auto simp: Let_def split: if_splits prod.splits)
  have map: "map2 (\<lambda>v p. map f p) vs ps = map (map f) ps" if "length ps \<le> length vs" for vs :: "((uuid \<times> json) list \<times> (uuid \<times> json) list) list" and ps
    using that by (induction vs ps rule: list_induct2') auto
  obtain ps ended where walk: "walk (page_query upper) fst limit 0 (map snd (view # views)) = (ps, ended)" by fastforce
  show ?thesis unfolding w walk prod.case map [OF len [OF walk]] ..
qed

lemma walk_cong:
  assumes "list_all2 (\<lambda>v w. \<forall>after. select after v = select after w) vs ws"
  shows "walk select key limit after vs = walk select key limit after ws"
  using assms by (induction vs ws arbitrary: after rule: list_all2_induct) (simp_all add: Let_def)

subsection \<open>Properties\<close>

text \<open>A concrete codec with the laws the cursors rely on.\<close>

definition demo_cursor_prims :: cursor_prims where
  "demo_cursor_prims = \<lparr>
     json_cursor = (\<lambda>c. cu_After c @ '','' @ cu_Upper c @ '','' @ cu_Scope c),
     read_cursor = (\<lambda>s. case split_commas s of
        [a, u, sc] \<Rightarrow> Some \<lparr>cu_Version = 1, cu_After = a, cu_Sort = [], cu_Upper = u, cu_Scope = sc, cu_At = []\<rparr> | _ \<Rightarrow> None),
     cu_hmac = (\<lambda>k d. replicate 32 (CHR ''m'')), cu_sha256 = (\<lambda>d. replicate 32 (CHR ''s''))\<rparr>"

lemma split_commas_plain:
  "plain a \<Longrightarrow> split_commas (a @ CHR '','' # s) = a # split_commas s" "plain a \<Longrightarrow> split_commas a = [a]"
proof -
  have "CHR '','' \<notin> plain_chars" by (simp add: plain_chars_def)
  then have "CHR '','' \<notin> set a" if "plain a" using that by (auto simp: plain_def list_all_iff)
  moreover have "CHR '','' \<notin> set a \<Longrightarrow> split_commas (a @ CHR '','' # s) = a # split_commas s" by (induction a) auto
  moreover have "CHR '','' \<notin> set a \<Longrightarrow> split_commas a = [a]" by (induction a) auto
  ultimately show "plain a \<Longrightarrow> split_commas (a @ CHR '','' # s) = a # split_commas s" "plain a \<Longrightarrow> split_commas a = [a]" by blast+
qed

lemma demo_prims_ok: "prims_ok demo_cursor_prims"
proof -
  have "split_commas (a @ '','' @ u @ '','' @ sc) = [a, u, sc]" if "plain a" "plain u" "plain sc" for a u sc
    using that split_commas_plain by simp
  moreover have "length (a @ '','' @ u @ '','' @ sc) < 1000" if "plain a" "plain u" "plain sc" for a u sc
    using that by (simp add: plain_def)
  ultimately show ?thesis unfolding prims_ok_def demo_cursor_prims_def by (simp add: cursor_ok_def)
qed

text \<open>
  C36.  Following the cursors of a listing, whatever happens to its rows between the requests,
  never yields a row twice or out of order, yields only rows that exist at the time of their page,
  at most \<open>limit\<close> per page; and once the last page is reached it has yielded every row that was
  there at every request.
\<close>

theorem follow_complete:
  assumes "prims_ok pr" "\<not> q_Has (rq_Query r) ''cursor''" "PageLimit (rq_Query r) = Inr limit"
    and "\<forall>v \<in> set (view # views). \<forall>row \<in> set (snd v). render_doc names (snd row) = Inr (f row)"
    and "\<forall>v \<in> set (view # views). distinct (map fst (snd v))"
  shows "\<exists>ps ended. follow (request_page pr skey r names) None (view # views) = Inr (map (map f) ps, ended) \<and>
    sorted_wrt (<) (map fst (concat ps)) \<and>
    list_all2 (\<lambda>p v. set p \<subseteq> set (snd v) \<and> length p \<le> limit) ps (take (length ps) (view # views)) \<and>
    (ended \<longrightarrow> (\<forall>row. row \<in> set (fst view) \<longrightarrow> fst row \<noteq> 0 \<longrightarrow> (\<forall>v \<in> set (view # views). row \<in> set (snd v)) \<longrightarrow> row \<in> set (concat ps)))"
proof -
  obtain upper where upper: "upper_id (fst view) = uuid_String upper" "\<And>row. row \<in> set (fst view) \<Longrightarrow> fst row \<le> upper"
    using upper_id_uuid [of "fst view"] by metis
  obtain ps ended where w: "walk (page_query upper) fst limit 0 (map snd (view # views)) = (ps, ended)" by fastforce
  have limit: "0 < limit" using PageLimit_bounds [OF assms(3)] by simp
  have dist: "\<forall>rows \<in> set (map snd (view # views)). distinct (map fst rows)" using assms(5) by auto
  have "follow (request_page pr skey r names) None (view # views) = Inr (map (map f) ps, ended)"
    using follow_pages [where view = view and views = views and names = names and f = f, OF assms(1-3) _ upper(1)] assms(4) w by auto
  moreover have "sorted_wrt (<) (map fst (concat ps))"
    using id_pages.walk_ascending [OF dist limit, where upper = upper and after = 0] unfolding w by simp
  moreover have "list_all2 (\<lambda>p v. set p \<subseteq> set (snd v) \<and> length p \<le> limit) ps (take (length ps) (view # views))"
    using id_pages.walk_pages [of limit upper 0 "map snd (view # views)"] unfolding w take_map by (simp only: fst_conv list_all2_map2)
  moreover have "row \<in> set (concat ps)"
    if "ended" "row \<in> set (fst view)" "fst row \<noteq> 0" "\<forall>v \<in> set (view # views). row \<in> set (snd v)" for row
  proof -
    have ended: "snd (walk (page_query upper) fst limit 0 (map snd (view # views)))" using that(1) unfolding w by simp
    have there: "\<forall>rows \<in> set (map snd (view # views)). row \<in> set rows" using that(4) by auto
    show ?thesis
      using id_pages.walk_complete [OF dist limit ended there upper(2) [OF that(2)]] that(3) unfolding w by (simp add: word_neq_0_conv)
  qed
  ultimately show ?thesis by blast
qed

definition demo_request :: request where
  "demo_request = \<lparr>rq_Query = [(''limit'', [''1''])], rq_Path = ''/items'', rq_WorkspaceID = 1, rq_UserID = 9, rq_Role = ''member'', rq_Key = []\<rparr>"

theorem follow_complete_witness:
  "let rows = [(7, JStr ''b''), (3, JStr ''a'')]; later = [(5, JStr ''c''), (3, JStr ''a''), (7, JStr ''b'')] in
   \<exists>(ps :: (uuid \<times> json) list list) ended. follow (request_page demo_cursor_prims ''k'' demo_request None) None [(rows, rows), (later, later), (later, later), (later, later)] =
     Inr (map (map snd) ps, ended) \<and> sorted_wrt (<) (map fst (concat ps))"
proof -
  have limit: "PageLimit (rq_Query demo_request) = Inr 1" by code_simp
  have cursor: "\<not> q_Has (rq_Query demo_request) ''cursor''" by code_simp
  define rows later where "rows = [(7 :: uuid, JStr ''b''), (3, JStr ''a'')]" and "later = [(5 :: uuid, JStr ''c''), (3, JStr ''a''), (7, JStr ''b'')]"
  have "distinct (map fst rows)" "distinct (map fst later)" by (simp_all add: rows_def later_def)
  then have dist: "\<forall>v \<in> set [(rows, rows), (later, later), (later, later), (later, later)]. distinct (map fst (snd v))" by simp
  have doc: "\<forall>v \<in> set [(rows, rows), (later, later), (later, later), (later, later)]. \<forall>row \<in> set (snd v). render_doc None (snd row) = Inr (snd row)"
    by (simp add: render_doc_def)
  show ?thesis unfolding rows_def [symmetric] later_def [symmetric] Let_def
    using follow_complete [where skey = "''k''", OF demo_prims_ok cursor limit doc dist] by blast
qed

text \<open>
  Following the cursors of a listing whose rows do not change reaches the last page: after
  enough requests it has yielded exactly the rows, in the order of their identifiers.
\<close>

theorem follow_ends:
  assumes "prims_ok pr" "\<not> q_Has (rq_Query r) ''cursor''" "PageLimit (rq_Query r) = Inr limit"
    and "\<And>row. row \<in> set rows \<Longrightarrow> render_doc names (snd row) = Inr (f row) \<and> fst row \<noteq> 0"
    and "distinct (map fst rows)" "length rows < n * limit"
  shows "\<exists>pages. follow (request_page pr skey r names) None (replicate n (rows, rows)) = Inr (pages, True) \<and>
    concat pages = map f (sort_key fst rows)"
proof -
  obtain m where n: "n = Suc m" using assms(6) by (cases n) auto
  obtain upper where upper: "upper_id rows = uuid_String upper" "\<And>row. row \<in> set rows \<Longrightarrow> fst row \<le> upper"
    using upper_id_uuid [of rows] by metis
  have all: "page_query upper 0 rows = sort_key fst rows"
    using upper(2) assms(4) by (simp add: page_query_def word_neq_0_conv filter_True)
  obtain ps ended where w: "walk (page_query upper) fst limit 0 (replicate n rows) = (ps, ended)" by fastforce
  have "ended \<and> concat ps = sort_key fst rows"
    using id_pages.walk_unchanged [OF assms(5), of limit upper 0 n] PageLimit_bounds [OF assms(3)] assms(6) unfolding w all by simp
  moreover have "follow (request_page pr skey r names) None (replicate n (rows, rows)) = Inr (map (map f) ps, ended)"
  proof -
    have "map snd (replicate n (rows, rows)) = replicate n rows" by simp
    moreover have "follow (request_page pr skey r names) None ((rows, rows) # replicate m (rows, rows)) =
        (case walk (page_query upper) fst limit 0 (map snd ((rows, rows) # replicate m (rows, rows))) of (ps, ended) \<Rightarrow> Inr (map (map f) ps, ended))"
      by (rule follow_pages [OF assms(1-3)]) (use assms(4) upper(1) in auto)
    ultimately show ?thesis using w n by simp
  qed
  ultimately show ?thesis using map_concat [of f ps] by auto
qed

theorem follow_ends_witness:
  "\<exists>pages. follow (request_page demo_cursor_prims ''k'' demo_request None) None (replicate 3 ([(7, JStr ''b''), (3, JStr ''a'')], [(7, JStr ''b''), (3, JStr ''a'')])) =
     Inr (pages, True) \<and> concat pages = [JStr ''a'', JStr ''b'']"
proof -
  have limit: "PageLimit (rq_Query demo_request) = Inr 1" by code_simp
  have cursor: "\<not> q_Has (rq_Query demo_request) ''cursor''" by code_simp
  have "row \<in> set [(7 :: uuid, JStr ''b''), (3, JStr ''a'')] \<Longrightarrow> render_doc None (snd row) = Inr (snd row) \<and> fst row \<noteq> 0" for row
    by (auto simp: render_doc_def)
  from follow_ends [where rows = "[(7, JStr ''b''), (3, JStr ''a'')]" and n = 3 and skey = "''k''", OF demo_prims_ok cursor limit this] show ?thesis by simp
qed

end
