(* ===== verification/Sx_Feed.thy ===== *)
theory Sx_Feed
  imports Sx_Pages Sx_Ranking
begin

text \<open>
  What a client learns of the store's log through the API: the paged history of an item and the
  polled feed of changes, while the store goes on working between the requests.
\<close>

subsection \<open>The history of an item\<close>

interpretation history_pages: keyset "\<lambda>a b. b < a" ce_Seq "\<lambda>e. ce_Seq e \<le> upper \<and> ce_WorkspaceID e = ws \<and> ce_ItemID e = Some item"
  "historySQL ws item upper" for ws item upper
proof
  show "set (historySQL ws item upper after rows) =
      {e \<in> set rows. (ce_Seq e \<le> upper \<and> ce_WorkspaceID e = ws \<and> ce_ItemID e = Some item) \<and> ce_Seq e < after}" for after rows
    by (auto simp: historySQL_def)
  show "sorted_wrt (\<lambda>a b. b < a) (map ce_Seq (historySQL ws item upper after rows))" if "distinct (map ce_Seq rows)" for after rows
  proof -
    define f where "f e = - ce_Seq e" for e :: ChangeEvent
    have "map f rows = map uminus (map ce_Seq rows)" by (simp add: f_def)
    then have "distinct (map f rows)" using that by (simp add: distinct_map inj_on_def)
    then have "sorted_wrt (<) (map f (historySQL ws item upper after rows))"
      unfolding historySQL_def f_def [symmetric] by (intro sort_key_strict distinct_map_filter)
    then show ?thesis by (simp add: sorted_wrt_map f_def)
  qed
qed auto

definition item_events :: "uuid \<Rightarrow> uuid \<Rightarrow> database \<Rightarrow> ChangeEvent list" where
  "item_events ws item db = filter (\<lambda>e. ce_ItemID e = Some item) (log_of ws db)"

lemma historySQL_item_events: "historySQL ws item upper after (item_events ws item db) = historySQL ws item upper after (events db)"
  by (simp add: historySQL_def item_events_def log_of_def conj_ac)

lemma ParseInt64_itoa: "- (2 ^ 63) \<le> n \<Longrightarrow> n < 2 ^ 63 \<Longrightarrow> ParseInt64 (itoa n) = Some n"
proof -
  have ne: "utoa m \<noteq> []" "hd (utoa m) \<noteq> CHR ''-''" "hd (utoa m) \<noteq> CHR ''+''" for m
    using atoi_utoa [of m] by (cases "utoa m"; force simp: atoi_digits_def is_digit_def split: if_splits)+
  have "ParseInt_dec (itoa n) = Some n"
    using ne atoi_utoa by (cases "n < 0") (simp_all add: ParseInt_dec_def itoa_def)
  then show "- (2 ^ 63) \<le> n \<Longrightarrow> n < 2 ^ 63 \<Longrightarrow> ParseInt64 (itoa n) = Some n" by (simp add: ParseInt64_def)
qed


subsection \<open>The store between two requests\<close>

text \<open>Whatever the store's operations do, succeed or fail; \<open>HardDeleteItem\<close> is a \<open>Mutate\<close>.\<close>

inductive store_step :: "database \<Rightarrow> database \<Rightarrow> bool" where
  mutate: "store_step db (snd (Mutate now ws fn opts db))"
| rebalance: "store_step db (snd (RebalanceProject now ws p db))"

abbreviation evolves :: "database \<Rightarrow> database \<Rightarrow> bool" where
  "evolves \<equiv> store_step\<^sup>*\<^sup>*"

lemma RebalanceProject_log:
  assumes "RebalanceProject now ws p db = (Inr n, db')"
  obtains c e where "find (\<lambda>c. sq_WorkspaceID c = ws) (counters db) = Some c"
    "events db' = events db @ [e]" "ce_WorkspaceID e = ws" "ce_Seq e = sq_Value c + 1"
    "counters db' = map (\<lambda>x. if sq_WorkspaceID x = ws then x\<lparr>sq_Value := sq_Value c + 1\<rparr> else x) (counters db)"
proof -
  obtain seq db1 db2 e where *: "AllocateSeq 1 ws db = Inr (seq, db1)" "rebalanceProjectRanks now p (ListProjectRanks p db) db1 = Inr db2"
    "InsertEvent now e db2 = Inr db'" "ce_WorkspaceID e = ws" "ce_Seq e = seq"
    using assms by (auto simp: RebalanceProject_def transaction_def Let_def result_simps split: sum.splits prod.splits)
  have "settled_part db2 = settled_part db1" by (rule settled.rebalance_frame [OF *(2)])
  then have frame: "events db2 = events db1" "counters db2 = counters db1" by (simp_all add: settled_part_def)
  obtain c where c: "find (\<lambda>c. sq_WorkspaceID c = ws) (counters db) = Some c" "seq = sq_Value c + 1"
    "db1 = db\<lparr>counters := map (\<lambda>x. if sq_WorkspaceID x = ws then x\<lparr>sq_Value := seq\<rparr> else x) (counters db)\<rparr>"
    using *(1) by (auto simp: AllocateSeq_Inr)
  have "events db' = events db2 @ [e\<lparr>ce_At := now\<rparr>]" "counters db' = counters db2"
    using *(3) by (auto simp: InsertEvent_def Let_def result_simps)
  then show thesis using that [of c "e\<lparr>ce_At := now\<rparr>"] c frame * by simp
qed

lemma store_step_log:
  assumes "store_step db db'" "log_ok db"
  shows "log_ok db' \<and> (\<exists>new. events db' = events db @ new)"
  using assms(1)
proof cases
  case (mutate now ws fn opts)
  show ?thesis
  proof (cases "Mutate now ws fn opts db")
    case (Pair res db1)
    show ?thesis
    proof (cases res)
      case (Inl e)
      then show ?thesis using Mutate_Inl Pair mutate assms(2) by fastforce
    next
      case (Inr x)
      then obtain m where m: "flush now m db = Inr (x, db')" using Pair mutate by (auto simp: Mutate_Inr)
      obtain es where "events db' = events db @ map (stamped now (mu_workspaceID m)) es" using flush_log [OF m] by metis
      then show ?thesis using flush_log_ok [OF assms(2) m] by blast
    qed
  qed
next
  case (rebalance now ws p)
  show ?thesis
  proof (cases "RebalanceProject now ws p db")
    case (Pair res db1)
    show ?thesis
    proof (cases res)
      case (Inl e)
      then show ?thesis using Pair rebalance assms(2) by (auto simp: RebalanceProject_def transaction_def split: sum.splits)
    next
      case (Inr n)
      then have "RebalanceProject now ws p db = (Inr n, db')" using Pair rebalance by simp
      then show ?thesis
      proof (rule RebalanceProject_log)
        fix c e
        assume *: "find (\<lambda>c. sq_WorkspaceID c = ws) (counters db) = Some c" "events db' = events db @ [e]" "ce_WorkspaceID e = ws" "ce_Seq e = sq_Value c + 1"
          "counters db' = map (\<lambda>x. if sq_WorkspaceID x = ws then x\<lparr>sq_Value := sq_Value c + 1\<rparr> else x) (counters db)"
        have "log_ok db'" by (rule log_ok_extend [OF assms(2) *(1,2) _ _ _ *(5)]) (use * in simp_all)
        then show ?thesis using *(2) by blast
      qed
    qed
  qed
qed

lemma evolves_log:
  "evolves db db' \<Longrightarrow> log_ok db \<Longrightarrow> log_ok db' \<and> (\<exists>new. log_of ws db' = log_of ws db @ new)"
proof (induction rule: rtranclp_induct)
  case (step db1 db2)
  then obtain new where "log_of ws db1 = log_of ws db @ new" "log_ok db1" by blast
  moreover have "log_ok db2" "\<exists>new. events db2 = events db1 @ new" using store_step_log [OF step(2)] calculation(2) by auto
  ultimately show ?case by (auto simp: log_of_def)
qed simp

text \<open>The numbers of a workspace's log are its positions.\<close>

lemma log_seqs: "log_ok db \<Longrightarrow> map ce_Seq (log_of ws db) = [1..int (length (log_of ws db))]"
proof (cases "ws \<in> sq_WorkspaceID ` set (counters db)")
  case True
  assume "log_ok db"
  then obtain c where "c \<in> set (counters db)" "sq_WorkspaceID c = ws" "map ce_Seq (log_of ws db) = [1..sq_Value c]" "0 \<le> sq_Value c"
    using True by (auto simp: log_ok_def list_all_iff)
  moreover from this have "length (log_of ws db) = length [1..sq_Value c]" by (metis length_map)
  ultimately show ?thesis by simp
next
  case False
  assume "log_ok db"
  then have "log_of ws db = []" using False by (auto simp: log_ok_def list_all_iff log_of_def filter_empty_conv)
  then show ?thesis by simp
qed

lemma log_nth:
  assumes "log_ok db" "i < length (log_of ws db)"
  shows "ce_Seq (log_of ws db ! i) = int i + 1"
proof -
  have "ce_Seq (log_of ws db ! i) = [1..int (length (log_of ws db))] ! i"
    using log_seqs [OF assms(1), of ws] assms(2) by (metis nth_map)
  then show ?thesis using assms(2) by simp
qed

subsection \<open>Numbers in cursors\<close>

lemma utoa_chars: "set (utoa n) \<subseteq> set ''0123456789''"
proof (induction n rule: utoa.induct)
  case (1 n)
  have "''0123456789'' ! k \<in> set ''0123456789''" if "k < 10" for k by (rule nth_mem) (use that in simp)
  then show ?case using 1 by (subst utoa.simps) simp
qed

lemma utoa_length: "0 < w \<Longrightarrow> n < 10 ^ w \<Longrightarrow> length (utoa n) \<le> w"
proof (induction w arbitrary: n)
  case (Suc w)
  show ?case
  proof (cases "n < 10")
    case True
    then show ?thesis by (subst utoa.simps) simp
  next
    case False
    then have "0 < w" using Suc.prems(2) by (cases w) auto
    moreover have "n div 10 < 10 ^ w" using Suc.prems(2) by (simp add: div_less_iff_less_mult mult.commute)
    ultimately show ?thesis using Suc.IH False by (subst utoa.simps) simp
  qed
qed simp

lemma plain_itoa:
  assumes "0 \<le> n" "n < 2 ^ 63"
  shows "plain (itoa n)" "itoa n \<noteq> []"
proof -
  have "set ''0123456789'' \<subseteq> plain_chars" by (simp add: plain_chars_def)
  then have "set (utoa (nat n)) \<subseteq> plain_chars" using utoa_chars by blast
  moreover have "length (utoa (nat n)) \<le> 19" by (rule utoa_length) (use assms in \<open>simp_all add: nat_less_iff\<close>)
  ultimately show "plain (itoa n)" using assms(1) by (simp add: plain_def itoa_def list_all_iff subset_iff)
  show "itoa n \<noteq> []" using assms(1) utoa_digits by (simp add: itoa_def)
qed

subsection \<open>The rows of a history do not change\<close>

lemma sql_max_Max: "sql_max (map (\<lambda>x. Some (f x)) xs) = (if xs = [] then None else Some (Max (f ` set xs)))"
  by (induction xs) auto

definition newest :: "ChangeEvent list \<Rightarrow> int" where
  "newest es = coalesce (sql_max (map (\<lambda>e. Some (ce_Seq e)) es)) 0"

lemma newest_bounds:
  assumes "\<forall>e \<in> set es. 1 \<le> ce_Seq e \<and> ce_Seq e \<le> n" "0 \<le> n"
  shows "\<forall>e \<in> set es. ce_Seq e \<le> newest es" "0 \<le> newest es" "newest es \<le> n"
proof -
  have "es \<noteq> [] \<Longrightarrow> newest es = Max (ce_Seq ` set es)" and "es = [] \<Longrightarrow> newest es = 0"
    by (simp_all add: newest_def sql_max_Max coalesce_def)
  then have e: "es \<noteq> [] \<Longrightarrow> newest es \<in> ce_Seq ` set es \<and> (\<forall>e \<in> set es. ce_Seq e \<le> newest es)" and n: "es = [] \<Longrightarrow> newest es = 0"
    by simp_all
  show "\<forall>e \<in> set es. ce_Seq e \<le> newest es" using e by (cases "es = []") auto
  show "0 \<le> newest es" "newest es \<le> n" using e n assms by (cases "es = []"; force)+
qed

lemma log_bounds: "log_ok db \<Longrightarrow> e \<in> set (log_of ws db) \<Longrightarrow> 1 \<le> ce_Seq e \<and> ce_Seq e \<le> int (length (log_of ws db))"
  using log_nth [of db _ ws] by (auto simp: in_set_conv_nth)

lemma log_distinct: "log_ok db \<Longrightarrow> distinct (map ce_Seq (log_of ws db))"
  using log_seqs [of db ws] by simp

lemma history_settled:
  assumes "log_ok db0" "evolves db0 db"
  shows "historySQL ws item (newest (item_events ws item db0)) after (item_events ws item db) =
    historySQL ws item (newest (item_events ws item db0)) after (item_events ws item db0)"
proof -
  obtain new where new: "log_of ws db = log_of ws db0 @ new" and ok: "log_ok db" using evolves_log [OF assms(2,1)] by blast
  have le: "newest (item_events ws item db0) \<le> int (length (log_of ws db0))"
    by (rule newest_bounds(3)) (use log_bounds [OF assms(1)] in \<open>auto simp: item_events_def\<close>)
  have "int (length (log_of ws db0)) < ce_Seq e" if e: "e \<in> set new" for e
  proof -
    obtain i where i: "i < length new" "e = new ! i" using e by (auto simp: in_set_conv_nth)
    then show ?thesis using log_nth [OF ok, of "length (log_of ws db0) + i" ws] new by (simp add: nth_append)
  qed
  then have "filter (\<lambda>e. ce_Seq e \<le> newest (item_events ws item db0)) new = []" using le by (force simp: filter_empty_conv)
  then have "filter (\<lambda>e. ce_WorkspaceID e = ws \<and> ce_ItemID e = Some item \<and> ce_Seq e \<le> newest (item_events ws item db0) \<and> ce_Seq e < after) new = []"
    by (auto simp: filter_empty_conv)
  then show ?thesis unfolding historySQL_def item_events_def new by (simp add: conj_ac)
qed

subsection \<open>Following the history of an item\<close>

definition request_history :: "(int \<Rightarrow> string) \<Rightarrow> cursor_prims \<Rightarrow> string \<Rightarrow> request \<Rightarrow> string option \<Rightarrow> database \<times> database \<Rightarrow> Problem + json list \<times> string option" where
  "request_history ts pr skey r token view = itemHistory ts pr skey (with_cursor token r) (fst view) (snd view)"

text \<open>The item a request names.\<close>

definition named_item :: "request \<Rightarrow> database \<Rightarrow> uuid option" where
  "named_item r db = map_option it_ID (find (\<lambda>i. it_WorkspaceID i = rq_WorkspaceID r \<and> it_Key i = rq_Key r) (items db))"

lemma itemHistory_page:
  assumes "rejectFields r = Inr ()" "PageLimit (rq_Query r) = Inr limit" "named_item r first = Some item"
    and "start_cursor pr skey r \<lparr>cu_Version = 0, cu_After = ''9223372036854775807'', cu_Sort = [],
        cu_Upper = itoa (newest (item_events (rq_WorkspaceID r) item first)), cu_Scope = cursorScope pr r, cu_At = []\<rparr> = Inr c"
    and "ParseInt64 (cu_After c) = Some after" "ParseInt64 (cu_Upper c) = Some upper"
    and s_def: "s = historySQL (rq_WorkspaceID r) item upper after (item_events (rq_WorkspaceID r) item db)"
  shows "itemHistory ts pr skey r first db =
    Inr (map (history_doc ts db) (take limit s), if length s \<le> limit then None
      else Some (EncodeCursor pr (c\<lparr>cu_After := itoa (ce_Seq (last (take limit s)))\<rparr>) skey))"
proof -
  obtain i where i: "find (\<lambda>i. it_WorkspaceID i = rq_WorkspaceID r \<and> it_Key i = rq_Key r) (items first) = Some i" "it_ID i = item"
    using assms(3) by (auto simp: named_item_def)
  have es: "filter (\<lambda>e. ce_WorkspaceID e = rq_WorkspaceID r \<and> ce_ItemID e = Some item) (events first) = item_events (rq_WorkspaceID r) item first"
    by (simp add: item_events_def log_of_def conj_commute)
  have s: "historySQL (rq_WorkspaceID r) item upper after (events db) = s" unfolding s_def by (rule historySQL_item_events [symmetric])
  have limit: "0 < limit" using PageLimit_bounds [OF assms(2)] by simp
  have "itemHistory ts pr skey r first db =
      rbind (page_loop (\<lambda>e. Inr (history_doc ts db e)) (\<lambda>e. itoa (ce_Seq e)) limit c [] (take (limit + 1) s)) (\<lambda>page. Inr (tokens pr skey page))"
    unfolding itemHistory_def assms(1,2) rbind_simps sum.case i option.case Let_def es newest_def [symmetric] assms(4-6) prod.case s ..
  also have "page_loop (\<lambda>e. Inr (history_doc ts db e)) (\<lambda>e. itoa (ce_Seq e)) limit c [] (take (limit + 1) s) =
      Inr (map (history_doc ts db) (take limit s), if length s \<le> limit then None else Some (c\<lparr>cu_After := itoa (ce_Seq (last (take limit s)))\<rparr>))"
    by (rule page_loop_page [OF _ limit]) simp
  finally show ?thesis by (simp add: tokens_def)
qed

lemma follow_history:
  assumes pr: "prims_ok pr" and r: "\<not> q_Has (rq_Query r) ''cursor''" "rejectFields r = Inr ()" "PageLimit (rq_Query r) = Inr limit"
    and item: "\<forall>v \<in> set (view # views). named_item r (fst v) = Some item"
    and seqs: "\<forall>v \<in> set (view # views). \<forall>e \<in> set (item_events (rq_WorkspaceID r) item (snd v)). 1 \<le> ce_Seq e \<and> ce_Seq e < 2 ^ 63"
    and upper: "upper = newest (item_events (rq_WorkspaceID r) item (fst view))" "0 \<le> upper" "upper < 2 ^ 63"
  shows "follow (request_history ts pr skey r) None (view # views) =
    (case walk (historySQL (rq_WorkspaceID r) item upper) ce_Seq limit (2 ^ 63 - 1) (map (\<lambda>v. item_events (rq_WorkspaceID r) item (snd v)) (view # views)) of
      (ps, ended) \<Rightarrow> Inr (map2 (\<lambda>v p. map (history_doc ts (snd v)) p) (view # views) ps, ended))"
proof -
  define ws where "ws = rq_WorkspaceID r"
  have range: "v \<in> set (view # views) \<Longrightarrow> e \<in> set (item_events (rq_WorkspaceID r) item (snd v)) \<Longrightarrow> 0 \<le> ce_Seq e \<and> ce_Seq e < 2 ^ 63" for v e
    using seqs by force
  define c where "c k = \<lparr>cu_Version = 0, cu_After = itoa k, cu_Sort = [], cu_Upper = itoa upper, cu_Scope = cursorScope pr r, cu_At = []\<rparr>" for k
  define token_of where "token_of k = EncodeCursor pr (c k) skey" for k
  have first: "''9223372036854775807'' = itoa (2 ^ 63 - 1)" by (simp add: itoa_def utoa.simps)
  have c_ok: "cursor_ok (c k)" "cu_After (c k) \<noteq> []" "cu_Upper (c k) \<noteq> []" if "0 \<le> k" "k < 2 ^ 63" for k
    using plain_itoa [OF that] plain_itoa [OF upper(2,3)] plain_scope [OF pr] by (simp_all add: c_def cursor_ok_def)
  have encode: "EncodeCursor pr ((c k)\<lparr>cu_Version := v, cu_After := itoa l\<rparr>) skey = token_of l" "EncodeCursor pr ((c k)\<lparr>cu_After := itoa l\<rparr>) skey = token_of l" for k l v
    by (simp_all add: token_of_def EncodeCursor_def c_def)
  have c_fields: "cu_After (c k) = itoa k" "cu_Upper (c k) = itoa upper" for k by (simp_all add: c_def)
  have start0: "start_cursor pr skey (with_cursor None r) \<lparr>cu_Version = 0, cu_After = ''9223372036854775807'', cu_Sort = [],
      cu_Upper = itoa upper, cu_Scope = cursorScope pr r, cu_At = []\<rparr> = Inr (c (2 ^ 63 - 1))"
    using start_cursor_with_cursor(2) [OF r(1) pr c_ok [of 0], of "c (2 ^ 63 - 1)" skey] unfolding first by (simp add: c_def)
  have start1: "start_cursor pr skey (with_cursor (Some (token_of k)) r) \<lparr>cu_Version = 0, cu_After = x, cu_Sort = [], cu_Upper = up,
      cu_Scope = cursorScope pr r, cu_At = []\<rparr> = Inr ((c k)\<lparr>cu_Version := 1\<rparr>)" if "0 \<le> k" "k < 2 ^ 63" for k up x
    unfolding token_of_def by (rule start_cursor_with_cursor(1) [OF r(1) pr c_ok [OF that]]) (simp add: c_def)
  show ?thesis unfolding ws_def [symmetric]
  proof (rule follow_refines_walk [where token_of = token_of
        and position = "\<lambda>tok after v. tok = None \<and> after = 2 ^ 63 - 1 \<and> v = view \<or> tok = Some (token_of after) \<and> 0 \<le> after \<and> after < 2 ^ 63"])
    fix tok after v
    assume v: "v \<in> set (view # views)"
      and pos: "tok = None \<and> after = 2 ^ 63 - 1 \<and> v = view \<or> tok = Some (token_of after) \<and> 0 \<le> after \<and> after < 2 ^ 63"
    have after: "0 \<le> after" "after < 2 ^ 63" using pos by auto
    have named: "named_item (with_cursor tok r) (fst v) = Some item"
      using bspec [OF item v] by (simp add: named_item_def with_cursor_request [OF r(1)])
    note page = itemHistory_page [of "with_cursor tok r" limit "fst v" item pr skey _ after upper _ "snd v" ts,
        OF _ _ named _ _ _ refl, unfolded with_cursor_request [OF r(1)], OF r(2,3), folded ws_def]
    show "request_history ts pr skey r tok v =
        Inr (map (history_doc ts (snd v)) (take limit (historySQL ws item upper after (item_events ws item (snd v)))),
          if length (historySQL ws item upper after (item_events ws item (snd v))) \<le> limit then None
          else Some (token_of (ce_Seq (last (take limit (historySQL ws item upper after (item_events ws item (snd v))))))))"
      using pos
    proof (elim disjE conjE)
      assume *: "tok = None" "after = 2 ^ 63 - 1" "v = view"
      show ?thesis unfolding request_history_def
        using page [of "c after"] start0 * upper after by (simp add: encode c_fields ParseInt64_itoa ws_def)
    next
      assume "tok = Some (token_of after)"
      then show ?thesis unfolding request_history_def
        using page [of "(c after)\<lparr>cu_Version := 1\<rparr>"] start1 [OF after] upper after by (simp add: encode c_fields ParseInt64_itoa)
    qed
  qed (use PageLimit_bounds [OF r(3)] range in \<open>auto simp: history_pages.select_set ws_def\<close>)
qed

text \<open>All events of the item, newest first, once every event is older than the first position.\<close>

lemma historySQL_all:
  assumes "log_ok db" "\<forall>e \<in> set (item_events ws item db). ce_Seq e < after"
  shows "historySQL ws item (newest (item_events ws item db)) after (item_events ws item db) = rev (item_events ws item db)"
proof (rule history_pages.sorted_unique)
  have dist: "distinct (map ce_Seq (item_events ws item db))"
    unfolding item_events_def by (rule distinct_map_filter [OF log_distinct [OF assms(1)]])
  then show "sorted_wrt (\<lambda>a b. b < a) (map ce_Seq (historySQL ws item (newest (item_events ws item db)) after (item_events ws item db)))"
    by (rule history_pages.select_sorted)
  have "sorted_wrt (<) [1..int (length (log_of ws db))]" by (rule strict_sorted_iff [THEN iffD2]) simp
  then have "sorted_wrt (\<lambda>a b. ce_Seq a < ce_Seq b) (log_of ws db)" by (simp add: log_seqs [OF assms(1), symmetric] sorted_wrt_map)
  then have "sorted_wrt (\<lambda>a b. ce_Seq a < ce_Seq b) (item_events ws item db)" unfolding item_events_def by (rule sorted_wrt_filter)
  then show "sorted_wrt (\<lambda>a b. b < a) (map ce_Seq (rev (item_events ws item db)))" by (simp add: sorted_wrt_map sorted_wrt_rev)
  have "\<forall>e \<in> set (item_events ws item db). ce_Seq e \<le> newest (item_events ws item db)"
    by (rule newest_bounds(1)) (use log_bounds [OF assms(1)] in \<open>auto simp: item_events_def\<close>)
  then show "set (historySQL ws item (newest (item_events ws item db)) after (item_events ws item db)) = set (rev (item_events ws item db))"
    using assms(2) by (auto simp: history_pages.select_set item_events_def log_of_def)
qed

subsection \<open>Polling the feed\<close>

fun poll_changes :: "(int \<Rightarrow> string) \<Rightarrow> request \<Rightarrow> int \<Rightarrow> database list \<Rightarrow> Problem + json list list \<times> int" where
  "poll_changes ts r since [] = Inr ([], since)"
| "poll_changes ts r since (db # dbs) =
     rbind (changes ts (r\<lparr>rq_Query := (''since_seq'', [itoa since]) # rq_Query r\<rparr>) db) (\<lambda>(data, next_seq).
     rbind (poll_changes ts r next_seq dbs) (\<lambda>(ps, end_seq). Inr (data # ps, end_seq)))"

lemma ListEventsSince_log:
  assumes "log_ok db" "n \<le> length (log_of ws db)"
  shows "ListEventsSince ws (int n) limit db = take limit (drop n (log_of ws db))"
proof -
  define L where "L = log_of ws db"
  have seq: "ce_Seq (L ! i) = int i + 1" if "i < length L" for i using log_nth [OF assms(1)] that by (simp add: L_def)
  have "filter (\<lambda>e. int n < ce_Seq e) L = filter (\<lambda>e. int n < ce_Seq e) (take n L @ drop n L)" by simp
  also have "\<dots> = drop n L"
  proof -
    have "filter (\<lambda>e. int n < ce_Seq e) (take n L) = []" using seq by (auto simp: filter_empty_conv in_set_conv_nth)
    moreover have "filter (\<lambda>e. int n < ce_Seq e) (drop n L) = drop n L"
      using seq by (auto simp: in_set_conv_nth intro!: filter_True)
    ultimately show ?thesis by (simp only: filter_append append_Nil)
  qed
  finally have "filter (\<lambda>e. ce_WorkspaceID e = ws \<and> int n < ce_Seq e) (events db) = drop n L"
    unfolding L_def log_of_def by (simp add: conj_commute)
  moreover have "sorted (map ce_Seq (drop n L))"
    using log_seqs [OF assms(1), of ws] by (metis L_def drop_map sorted_wrt_drop sorted_upto)
  ultimately show ?thesis by (simp add: ListEventsSince_def sorted_sort_id L_def sort_key_id_if_sorted)
qed

lemma changes_page:
  assumes "log_ok db" "n \<le> length (log_of (rq_WorkspaceID r) db)" "int n < 2 ^ 63"
    and "rejectFields r = Inr ()" "\<not> q_Has (rq_Query r) ''cursor''" "\<not> q_Has (rq_Query r) ''since_seq''" "PageLimit (rq_Query r) = Inr limit"
  shows "changes ts (r\<lparr>rq_Query := (''since_seq'', [itoa (int n)]) # rq_Query r\<rparr>) db =
    Inr (map (change_doc ts) (take limit (drop n (log_of (rq_WorkspaceID r) db))), int (min (n + limit) (length (log_of (rq_WorkspaceID r) db))))"
proof -
  define L where "L = log_of (rq_WorkspaceID r) db"
  define q where "q = (''since_seq'', [itoa (int n)]) # rq_Query r"
  have limit: "0 < limit" using PageLimit_bounds [OF assms(7)] by simp
  have other: "q_Has q k = q_Has (rq_Query r) k" "q_All q k = q_All (rq_Query r) k" "q_Get q k = q_Get (rq_Query r) k" if "k \<noteq> ''since_seq''" for k
    using that by (simp_all add: q_def q_Has_def q_Get_def q_All_def)
  have "PageLimit q = PageLimit (rq_Query r)" unfolding PageLimit_def by (simp add: other)
  then have q: "q_Has q ''cursor'' = False" "q_Has q ''since_seq''" "q_Get q ''since_seq'' = itoa (int n)" "length (q_All q ''since_seq'') = 1"
    "PageLimit q = Inr limit" "q_Has q ''fields'' = q_Has (rq_Query r) ''fields''"
    using assms(5,7) by (simp_all add: other) (simp_all add: q_def q_Has_def q_Get_def q_All_def)
  have f: "\<not> q_Has q ''fields''" using assms(4) q(6) by (simp add: rejectFields_def split: if_splits)
  have p: "ParseInt64 (itoa (int n)) = Some (int n)" by (rule ParseInt64_itoa) (use assms(3) in simp_all)
  have es: "ListEventsSince (rq_WorkspaceID r) (int n) limit db = take limit (drop n L)" unfolding L_def by (rule ListEventsSince_log [OF assms(1,2)])
  have end_seq: "(if take limit (drop n L) = [] then int n else ce_Seq (last (take limit (drop n L)))) = int (min (n + limit) (length L))"
  proof (cases "n = length L")
    case False
    then have n: "n < length L" using assms(2) by (simp add: L_def)
    define k where "k = min (n + limit) (length L)"
    have k: "n < k" "k \<le> length L" and len: "length (take limit (drop n L)) = k - n" using n limit by (auto simp: k_def)
    have "take limit (drop n L) \<noteq> []" using n limit by simp
    then have "last (take limit (drop n L)) = take limit (drop n L) ! (k - n - 1)" using len by (metis last_conv_nth)
    also have "\<dots> = L ! (k - 1)" using k n limit by (simp add: k_def)
    finally have "last (take limit (drop n L)) = L ! (k - 1)" .
    moreover have "ce_Seq (L ! (k - 1)) = int k" using log_nth [OF assms(1), of "k - 1" "rq_WorkspaceID r"] k by (simp add: L_def)
    ultimately show ?thesis using k(1,2) n limit by (simp add: k_def)
  qed simp
  show ?thesis unfolding changes_def q_def [symmetric] L_def [symmetric]
    using q f p es end_seq by (simp add: rejectFields_def Let_def)
qed

lemma list_all2_replicate: "\<forall>v \<in> set vs. P (f v) x \<Longrightarrow> list_all2 P (map f vs) (replicate (length vs) x)"
  by (induction vs) auto

lemma page_slice: "take limit (drop n xs) = drop n (take (min (n + limit) (length xs)) xs)"
  by (cases "n + limit \<le> length xs") (simp_all add: take_drop add.commute)

lemma drop_take_split: "n \<le> k \<Longrightarrow> k \<le> m \<Longrightarrow> k \<le> length xs \<Longrightarrow> drop n (take m xs) = drop n (take k xs) @ drop k (take m xs)"
  using append_take_drop_id [of k "take m xs"] drop_append [of n "take k xs" "drop k (take m xs)"] by (simp add: min_def)

subsection \<open>Properties\<close>

text \<open>
  C38.  Reading the history of an item page by page, while the store goes on working, yields
  exactly the events the item had at the first request, newest first and each once; enough
  requests reach the last page.
\<close>

theorem itemHistory_complete:
  assumes "prims_ok pr" "\<not> q_Has (rq_Query r) ''cursor''" "rejectFields r = Inr ()" "PageLimit (rq_Query r) = Inr limit"
    and "log_ok (fst view)" "\<forall>v \<in> set (view # views). evolves (fst view) (snd v) \<and> named_item r (fst v) = Some item"
    and "\<forall>v \<in> set (view # views). int (length (log_of (rq_WorkspaceID r) (snd v))) < 2 ^ 63 - 1"
    and "length (item_events (rq_WorkspaceID r) item (fst view)) < length (view # views) * limit"
  shows "\<exists>ps. follow (request_history ts pr skey r) None (view # views) = Inr (map2 (\<lambda>v p. map (history_doc ts (snd v)) p) (view # views) ps, True) \<and>
    concat ps = rev (item_events (rq_WorkspaceID r) item (fst view))"
proof -
  define ws where "ws = rq_WorkspaceID r"
  define es where "es = item_events ws item (fst view)"
  define rows where "rows = map (\<lambda>v. item_events ws item (snd v)) (view # views)"
  have ok: "log_ok (snd v)" if "v \<in> set (view # views)" for v using evolves_log [OF _ assms(5)] assms(6) that by blast
  have seqs: "\<forall>v \<in> set (view # views). \<forall>e \<in> set (item_events ws item (snd v)). 1 \<le> ce_Seq e \<and> ce_Seq e < 2 ^ 63"
    using log_bounds [OF ok] assms(7) by (fastforce simp: item_events_def ws_def)
  obtain new where "log_of ws (snd view) = log_of ws (fst view) @ new" using evolves_log [of "fst view" "snd view" ws] assms(5,6) by auto
  then have len: "int (length (log_of ws (fst view))) < 2 ^ 63 - 1" using assms(7) by (simp add: ws_def)
  have bound: "\<forall>e \<in> set es. 1 \<le> ce_Seq e \<and> ce_Seq e \<le> int (length (log_of ws (fst view)))"
    using log_bounds [OF assms(5)] by (auto simp: es_def item_events_def)
  note newest = newest_bounds [OF bound of_nat_0_le_iff]
  have up: "newest es < 2 ^ 63" using newest(3) len by simp
  have "\<forall>v \<in> set (view # views). \<forall>after. historySQL ws item (newest es) after (item_events ws item (snd v)) = historySQL ws item (newest es) after es"
  proof (intro ballI allI)
    fix v after
    assume v: "v \<in> set (view # views)"
    show "historySQL ws item (newest es) after (item_events ws item (snd v)) = historySQL ws item (newest es) after es"
      unfolding es_def by (rule history_settled [OF assms(5)]) (use bspec [OF assms(6) v] in blast)
  qed
  then have "list_all2 (\<lambda>v w. \<forall>after. historySQL ws item (newest es) after v = historySQL ws item (newest es) after w)
      (map (\<lambda>v. item_events ws item (snd v)) (view # views)) (replicate (length (view # views)) es)"
    by (rule list_all2_replicate)
  then have "list_all2 (\<lambda>v w. \<forall>after. historySQL ws item (newest es) after v = historySQL ws item (newest es) after w) rows (replicate (length rows) es)"
    by (simp add: rows_def)
  then have same: "walk (historySQL ws item (newest es)) ce_Seq limit k rows = walk (historySQL ws item (newest es)) ce_Seq limit k (replicate (length rows) es)" for k
    by (rule walk_cong)
  have all: "historySQL ws item (newest es) (2 ^ 63 - 1) es = rev es"
    unfolding es_def by (rule historySQL_all [OF assms(5)]) (use bound len in \<open>auto simp: es_def\<close>)
  have dist: "distinct (map ce_Seq es)" unfolding es_def item_events_def by (rule distinct_map_filter [OF log_distinct [OF assms(5)]])
  obtain ps ended where w: "walk (historySQL ws item (newest es)) ce_Seq limit (2 ^ 63 - 1) rows = (ps, ended)" by fastforce
  have "ended \<and> concat ps = rev es"
    using history_pages.walk_unchanged [OF dist, of limit ws item "newest es" "2 ^ 63 - 1" "length rows"] PageLimit_bounds [OF assms(4)] assms(8)
    unfolding same [symmetric] w all by (simp add: rows_def es_def ws_def)
  moreover have "follow (request_history ts pr skey r) None (view # views) = Inr (map2 (\<lambda>v p. map (history_doc ts (snd v)) p) (view # views) ps, ended)"
    using follow_history [OF assms(1-4), of view views item "newest es" ts skey] assms(6) seqs newest(2) up w
    by (simp add: rows_def es_def ws_def)
  ultimately show ?thesis by (auto simp: es_def ws_def)
qed

definition demo_event :: "int \<Rightarrow> ChangeEvent" where
  "demo_event seq = \<lparr>ce_WorkspaceID = 1, ce_Seq = seq, ce_At = 0, ce_ItemID = Some 20, ce_ActorID = Some 9, ce_Kind = EventCreated,
     ce_Field = None, ce_OldValue = None, ce_NewValue = None\<rparr>"

definition demo_history :: database where
  "demo_history = demo_tree\<lparr>events := [demo_event 1, demo_event 2], counters := [\<lparr>sq_WorkspaceID = 1, sq_Value = 2\<rparr>]\<rparr>"

theorem itemHistory_complete_witness:
  "\<exists>ps. follow (request_history itoa demo_cursor_prims ''k'' (demo_request\<lparr>rq_Key := ''SRX-1''\<rparr>)) None (replicate 3 (demo_history, demo_history)) =
     Inr (map2 (\<lambda>v p. map (history_doc itoa (snd v)) p) (replicate 3 (demo_history, demo_history)) ps, True) \<and>
     concat ps = [demo_event 2, demo_event 1]"
proof -
  define r where "r = demo_request\<lparr>rq_Key := ''SRX-1''\<rparr>"
  have r: "\<not> q_Has (rq_Query r) ''cursor''" "rejectFields r = Inr ()" "PageLimit (rq_Query r) = Inr 1" "rq_WorkspaceID r = 1"
    unfolding r_def by code_simp+
  have log: "log_of 1 demo_history = [demo_event 1, demo_event 2]" by (simp add: log_of_def demo_history_def demo_event_def)
  then have es: "item_events 1 20 demo_history = [demo_event 1, demo_event 2]" by (simp add: item_events_def demo_event_def)
  have ok: "log_ok demo_history" using log by (simp add: log_ok_def demo_history_def demo_event_def upto_rec1)
  have item: "named_item r demo_history = Some 20" by (simp add: named_item_def demo_history_def demo_items r_def demo_request_def demo_item_def)
  show ?thesis
    using itemHistory_complete [OF demo_prims_ok r(1-3), of "(demo_history, demo_history)" "replicate 2 (demo_history, demo_history)" 20 itoa "''k''"]
      ok item r(4) log es by (simp add: r_def [symmetric] numeral_3_eq_3 numeral_2_eq_2)
qed

text \<open>
  C37.  A client that polls the feed of changes with the number it was given last sees the log of
  its workspace from where it started, every event once and in order, however the store works
  between the polls; and after a page that is not full it has seen the whole log.
\<close>

theorem changes_feed:
  assumes "rejectFields r = Inr ()" "\<not> q_Has (rq_Query r) ''cursor''" "\<not> q_Has (rq_Query r) ''since_seq''" "PageLimit (rq_Query r) = Inr limit"
    and "sorted_wrt evolves (db # dbs)" "log_ok db" "n \<le> length (log_of (rq_WorkspaceID r) db)"
    and "int (length (log_of (rq_WorkspaceID r) (last (db # dbs)))) < 2 ^ 63"
  shows "\<exists>pages m. poll_changes ts r (int n) (db # dbs) = Inr (pages, int m) \<and> n \<le> m \<and> m \<le> length (log_of (rq_WorkspaceID r) (last (db # dbs))) \<and>
    concat pages = map (change_doc ts) (drop n (take m (log_of (rq_WorkspaceID r) (last (db # dbs))))) \<and>
    (length (last pages) < limit \<longrightarrow> m = length (log_of (rq_WorkspaceID r) (last (db # dbs))))"
  using assms(5-8)
proof (induction dbs arbitrary: db n)
  case Nil
  define L where "L = log_of (rq_WorkspaceID r) db"
  have "changes ts (r\<lparr>rq_Query := (''since_seq'', [itoa (int n)]) # rq_Query r\<rparr>) db = Inr (map (change_doc ts) (take limit (drop n L)), int (min (n + limit) (length L)))"
    unfolding L_def by (rule changes_page) (use assms(1-4) Nil in auto)
  then have "poll_changes ts r (int n) [db] = Inr ([map (change_doc ts) (take limit (drop n L))], int (min (n + limit) (length L)))" by simp
  moreover note page_slice [of limit n L]
  ultimately show ?case using Nil(3) by (intro exI [of _ "[map (change_doc ts) (take limit (drop n L))]"] exI [of _ "min (n + limit) (length L)"]) (auto simp: L_def)
next
  case (Cons db1 dbs)
  define L where "L = log_of (rq_WorkspaceID r) db"
  define E where "E = log_of (rq_WorkspaceID r) (last (db1 # dbs))"
  define k where "k = min (n + limit) (length L)"
  have e1: "evolves db db1" and el: "evolves db (last (db1 # dbs))" using Cons.prems(1) by (auto simp: last_in_set)
  obtain new1 where new1: "log_of (rq_WorkspaceID r) db1 = L @ new1" "log_ok db1" using evolves_log [OF e1 Cons.prems(2), of "rq_WorkspaceID r"] by (auto simp: L_def)
  obtain new where new: "E = L @ new" using evolves_log [OF el Cons.prems(2), of "rq_WorkspaceID r"] by (auto simp: L_def E_def)
  have n: "n \<le> length L" "n \<le> k" "k \<le> length L" using Cons.prems(3) by (auto simp: L_def k_def)
  have page: "changes ts (r\<lparr>rq_Query := (''since_seq'', [itoa (int n)]) # rq_Query r\<rparr>) db = Inr (map (change_doc ts) (take limit (drop n L)), int k)"
    unfolding L_def k_def by (rule changes_page) (use assms(1-4) Cons.prems n new in \<open>auto simp: E_def L_def\<close>)
  obtain pages m where IH: "poll_changes ts r (int k) (db1 # dbs) = Inr (pages, int m)" "k \<le> m" "m \<le> length E"
      "concat pages = map (change_doc ts) (drop k (take m E))" "length (last pages) < limit \<longrightarrow> m = length E"
    using Cons.IH [of db1 k] Cons.prems new1 n(3) unfolding E_def by (auto simp: L_def)
  have ne: "pages \<noteq> []" using IH(1) by (auto simp: result_simps split: prod.splits)
  have "take limit (drop n L) = drop n (take k E)" using page_slice [of limit n L] n(3) by (simp add: new k_def)
  then have "take limit (drop n L) @ drop k (take m E) = drop n (take m E)"
    using drop_take_split [OF n(2) IH(2), of E] n(3) new by simp
  then have "concat (map (change_doc ts) (take limit (drop n L)) # pages) = map (change_doc ts) (drop n (take m E))"
    using IH(4) by (simp flip: map_append)
  moreover have "poll_changes ts r (int n) (db # db1 # dbs) = Inr (map (change_doc ts) (take limit (drop n L)) # pages, int m)"
    unfolding poll_changes.simps(2) [of ts r "int n" db] page using IH(1) by (simp del: poll_changes.simps)
  moreover have "n \<le> m" using n IH(2) by simp
  moreover have "last (map (change_doc ts) (take limit (drop n L)) # pages) = last pages" "last (db # db1 # dbs) = last (db1 # dbs)" using ne by simp_all
  ultimately show ?case using IH(3,5) unfolding E_def [symmetric] by (metis E_def)
qed

theorem changes_feed_witness:
  "\<exists>pages m. poll_changes itoa demo_request 0 [demo_db, snd demo_result, snd demo_result] = Inr (pages, int m) \<and>
     concat pages = map (change_doc itoa) (take m (log_of 1 (snd demo_result)))"
proof -
  have r: "rejectFields demo_request = Inr ()" "\<not> q_Has (rq_Query demo_request) ''cursor''" "\<not> q_Has (rq_Query demo_request) ''since_seq''"
    "PageLimit (rq_Query demo_request) = Inr 1" "rq_WorkspaceID demo_request = 1" by code_simp+
  have "evolves demo_db (snd demo_result)" unfolding demo_result_def by (rule r_into_rtranclp [of store_step]) (rule store_step.mutate)
  then have sorted: "sorted_wrt evolves [demo_db, snd demo_result, snd demo_result]" by simp
  have "length (log_of 1 (snd demo_result)) < 3" by code_simp
  then have len: "int (length (log_of 1 (last [demo_db, snd demo_result, snd demo_result]))) < 2 ^ 63" by simp
  show ?thesis using changes_feed [OF r(1-4) sorted demo_log_ok, of 0 itoa] len unfolding r(5) by (simp del: poll_changes.simps) metis
qed

end
