(* ===== verification/Sx_Auth.thy ===== *)
theory Sx_Auth
  imports Sx_Request Sx_Projection
begin

text \<open>
  Sign-in: passwords, sessions and one-time codes (\<open>src/internal/api/auth\<close>), and the handlers that
  guard them (\<open>src/internal/api/auth.go\<close>, \<open>src/internal/api/totp.go\<close>).  The tables are a record; times are whole
  seconds; random bytes are arguments.  Argon2, HMAC-SHA-1, SHA-256, AES-GCM and JSON are parameters.
\<close>

subsection \<open>Primitives\<close>

record totpState =
  to_Secret :: string
  to_Active :: bool
  to_LastStep :: int
  to_PendingUntil :: int
  to_Recovery :: "string list"

record auth_prims =
  argon2 :: "string \<Rightarrow> string \<Rightarrow> string"
  hmac_sha1 :: "string \<Rightarrow> string \<Rightarrow> string"
  au_sha256 :: "string \<Rightarrow> string"
  au_seal :: "string \<Rightarrow> string \<Rightarrow> string \<Rightarrow> string \<Rightarrow> string"
  au_open :: "string \<Rightarrow> string \<Rightarrow> string \<Rightarrow> string \<Rightarrow> string option"
  json_totp :: "totpState \<Rightarrow> string"
  read_totp :: "string \<Rightarrow> totpState option"

datatype auth_error = ErrCredentials | AuthNoRows | AuthCipher | AuthJSON | AuthDatabase

subsection \<open>Passwords\<close>

text \<open>\<open>strings.Split\<close> at a character\<close>

fun split_on :: "char \<Rightarrow> string \<Rightarrow> string list" where
  "split_on d [] = [[]]"
| "split_on d (c # cs) = (if c = d then [] # split_on d cs else case split_on d cs of [] \<Rightarrow> [[c]] | w # ws \<Rightarrow> (c # w) # ws)"

definition ValidatePassword :: "string \<Rightarrow> bool" where
  "ValidatePassword password = (\<not> (length password < 12 \<or> length password > 1024))"

definition argon_header :: string where
  "argon_header = ''$argon2id$v=19$m=65536,t=3,p=1$''"

definition HashPassword :: "auth_prims \<Rightarrow> string \<Rightarrow> string \<Rightarrow> string option" where
  "HashPassword pr salt password =
     (if ValidatePassword password
      then Some (argon_header @ b64_std_encode salt @ ''$'' @ b64_std_encode (argon2 pr password salt)) else None)"

definition VerifyPassword :: "auth_prims \<Rightarrow> string \<Rightarrow> string \<Rightarrow> bool" where
  "VerifyPassword pr encoded password =
     (let parts = split_on CHR ''$'' encoded in
      if length password > 1024 \<or> length parts \<noteq> 6 \<or> parts ! 1 \<noteq> ''argon2id'' \<or> parts ! 2 \<noteq> ''v=19'' \<or> parts ! 3 \<noteq> ''m=65536,t=3,p=1''
      then False
      else case (b64_std_decode (parts ! 4), b64_std_decode (parts ! 5)) of
          (Some salt, Some want) \<Rightarrow> length salt = 16 \<and> length want = 32 \<and> argon2 pr password salt = want
        | _ \<Rightarrow> False)"

subsection \<open>The tables\<close>

record Account =
  us_ID :: uuid
  us_Email :: string
  us_DisplayName :: string
  us_PasswordHash :: "string option"
  us_TotpSecret :: string
  us_IsActive :: bool
  us_Theme :: string
  us_ReducedMotion :: "bool option"

record Membership =
  mb_WorkspaceID :: uuid
  mb_UserID :: uuid
  mb_Role :: string

record SessionRow =
  se_IdHash :: string
  se_UserID :: uuid
  se_ExpiresAt :: int

record auth_db =
  accounts :: "Account list"
  memberships :: "Membership list"
  sessions :: "SessionRow list"

record Identity =
  wh_ID :: uuid
  wh_Email :: string
  wh_DisplayName :: string
  wh_WorkspaceID :: uuid
  wh_Role :: string
  wh_Theme :: string
  wh_ReducedMotion :: "bool option"

text \<open>The column \<open>email\<close> is a \<open>citext\<close>: it compares without regard to case.\<close>

definition email_eq :: "string \<Rightarrow> string \<Rightarrow> bool" where
  "email_eq a b = (map lower_char a = map lower_char b)"

definition active_account :: "uuid \<Rightarrow> auth_db \<Rightarrow> Account option" where
  "active_account u db = find (\<lambda>a. us_ID a = u \<and> us_IsActive a) (accounts db)"

definition member_of :: "uuid \<Rightarrow> auth_db \<Rightarrow> Membership option" where
  "member_of u db = find (\<lambda>m. mb_UserID m = u) (memberships db)"

definition identity_of :: "Account \<Rightarrow> Membership \<Rightarrow> Identity" where
  "identity_of a m = \<lparr>wh_ID = us_ID a, wh_Email = us_Email a, wh_DisplayName = us_DisplayName a, wh_WorkspaceID = mb_WorkspaceID m,
     wh_Role = mb_Role m, wh_Theme = us_Theme a, wh_ReducedMotion = us_ReducedMotion a\<rparr>"

subsection \<open>One-time codes\<close>

definition totp_zero :: totpState where
  "totp_zero = \<lparr>to_Secret = [], to_Active = False, to_LastStep = 0, to_PendingUntil = 0, to_Recovery = []\<rparr>"

definition seal_totp :: "auth_prims \<Rightarrow> string \<Rightarrow> string \<Rightarrow> uuid \<Rightarrow> totpState \<Rightarrow> string" where
  "seal_totp pr skey nonce u state = nonce @ au_seal pr skey nonce (json_totp pr state) (uuid_String u)"

definition open_totp :: "auth_prims \<Rightarrow> string \<Rightarrow> uuid \<Rightarrow> string \<Rightarrow> auth_error + totpState" where
  "open_totp pr skey u raw =
     (if raw = [] then Inr totp_zero
      else if length raw < 12 then Inl ErrCredentials
      else rbind (some_or (au_open pr skey (take 12 raw) (drop 12 raw) (uuid_String u)) AuthCipher) (\<lambda>plain.
        some_or (read_totp pr plain) AuthJSON))"

text \<open>\<open>binary.BigEndian\<close>\<close>

fun big_endian :: "nat \<Rightarrow> int \<Rightarrow> string" where
  "big_endian 0 n = []"
| "big_endian (Suc w) n = big_endian w (n div 256) @ [char_of (n mod 256)]"

definition from_big_endian :: "string \<Rightarrow> int" where
  "from_big_endian s = foldl (\<lambda>a c. 256 * a + of_char c) 0 s"

text \<open>\<open>Code\<close> of the 30 seconds numbered \<open>step\<close>\<close>

definition Code :: "auth_prims \<Rightarrow> string \<Rightarrow> int \<Rightarrow> string" where
  "Code pr secret step =
     (let counter = big_endian 8 (step mod 2 ^ 64); s = hmac_sha1 pr secret counter;
          off = of_char (last s) mod 16; n = from_big_endian (take 4 (drop off s)) mod 2 ^ 31 in
      pad_digits 6 (nat (n mod 1000000)))"

text \<open>The first of the steps now, before and after that is newer than the last one used and has the code.\<close>

definition code_step :: "auth_prims \<Rightarrow> totpState \<Rightarrow> string \<Rightarrow> int \<Rightarrow> int option" where
  "code_step pr state code now =
     (if length code = 6 then find (\<lambda>candidate. candidate > to_LastStep state \<and> code = Code pr (to_Secret state) candidate)
        (map (\<lambda>offset. now div 30 + offset) [0, -1, 1]) else None)"

text \<open>\<open>None\<close> is false, which leaves the state as it was; a recovery code is removed where it is first found.\<close>

definition consumeCode :: "auth_prims \<Rightarrow> totpState \<Rightarrow> string \<Rightarrow> int \<Rightarrow> bool \<Rightarrow> totpState option" where
  "consumeCode pr state code now allowRecovery =
     (case code_step pr state code now of
        Some candidate \<Rightarrow> Some (state\<lparr>to_LastStep := candidate\<rparr>)
      | None \<Rightarrow>
          let encoded = hex_encode (au_sha256 pr code) in
          if allowRecovery \<and> encoded \<in> set (to_Recovery state) then Some (state\<lparr>to_Recovery := remove1 encoded (to_Recovery state)\<rparr>) else None)"

subsection \<open>Sessions\<close>

text \<open>The function \<open>sierx_create_session\<close> of the database; the hash is the primary key.\<close>

definition sierx_create_session :: "string \<Rightarrow> uuid \<Rightarrow> int \<Rightarrow> auth_db \<Rightarrow> auth_error + bool \<times> auth_db" where
  "sierx_create_session h u now db =
     (case find (\<lambda>a. us_ID a = u) (accounts db) of
        None \<Rightarrow> Inr (False, db)
      | Some a \<Rightarrow>
          if \<not> us_IsActive a then Inr (False, db)
          else if h \<in> se_IdHash ` set (sessions db) then Inl AuthDatabase
          else Inr (True, db\<lparr>sessions := sessions db @ [\<lparr>se_IdHash = h, se_UserID = u, se_ExpiresAt = now + 43200\<rparr>]\<rparr>))"

definition issueSession :: "auth_prims \<Rightarrow> string \<Rightarrow> uuid \<Rightarrow> int \<Rightarrow> auth_db \<Rightarrow> auth_error + string \<times> auth_db" where
  "issueSession pr raw u now db =
     (let token = b64_encode raw in
      rbind (sierx_create_session (au_sha256 pr token) u now db) (\<lambda>(created, db').
      if created then Inr (token, db') else Inl ErrCredentials))"

definition Session :: "auth_prims \<Rightarrow> string \<Rightarrow> int \<Rightarrow> auth_db \<Rightarrow> auth_error + Identity" where
  "Session pr token now db =
     (if length token \<noteq> 43 then Inl ErrCredentials
      else case find (\<lambda>s. se_IdHash s = au_sha256 pr token \<and> now < se_ExpiresAt s) (sessions db) of
          None \<Rightarrow> Inl ErrCredentials
        | Some s \<Rightarrow> (case (active_account (se_UserID s) db, member_of (se_UserID s) db) of
            (Some a, Some m) \<Rightarrow> Inr (identity_of a m)
          | _ \<Rightarrow> Inl ErrCredentials))"

definition Logout :: "auth_prims \<Rightarrow> string \<Rightarrow> auth_db \<Rightarrow> auth_db" where
  "Logout pr token db = db\<lparr>sessions := filter (\<lambda>s. se_IdHash s \<noteq> au_sha256 pr token) (sessions db)\<rparr>"

subsection \<open>The second factor\<close>

definition set_totp :: "uuid \<Rightarrow> string \<Rightarrow> auth_db \<Rightarrow> auth_db" where
  "set_totp u raw db = db\<lparr>accounts := map (\<lambda>a. if us_ID a = u then a\<lparr>us_TotpSecret := raw\<rparr> else a) (accounts db)\<rparr>"

definition saveTOTP :: "auth_prims \<Rightarrow> string \<Rightarrow> string \<Rightarrow> uuid \<Rightarrow> totpState \<Rightarrow> auth_db \<Rightarrow> auth_db" where
  "saveTOTP pr skey nonce u state db = set_totp u (seal_totp pr skey nonce u state) db"

definition delete_sessions :: "uuid \<Rightarrow> auth_db \<Rightarrow> auth_db" where
  "delete_sessions u db = db\<lparr>sessions := filter (\<lambda>s. se_UserID s \<noteq> u) (sessions db)\<rparr>"

text \<open>\<open>base32.StdEncoding\<close> without padding, and the link an authenticator reads.\<close>

definition bits_of :: "string \<Rightarrow> bool list" where
  "bits_of s = concat (map (\<lambda>c. map (\<lambda>i. odd ((of_char c :: nat) div 2 ^ i)) [7, 6, 5, 4, 3, 2, 1, 0]) s)"

fun quintets :: "bool list \<Rightarrow> string" where
  "quintets [] = []"
| "quintets (b # bs) =
     ''ABCDEFGHIJKLMNOPQRSTUVWXYZ234567'' ! foldl (\<lambda>a x. 2 * a + (if x then 1 else 0)) 0 (take 5 ((b # bs) @ replicate 4 False))
     # quintets (drop 4 bs)"

definition base32 :: "string \<Rightarrow> string" where
  "base32 s = quintets (bits_of s)"

record Enrollment =
  el_Secret :: string
  el_URI :: string

definition enrollment :: "string \<Rightarrow> string \<Rightarrow> Enrollment" where
  "enrollment email secret =
     (let text_secret = base32 secret;
          q = [(''secret'', [text_secret]), (''issuer'', [''sierx'']), (''algorithm'', [''SHA1'']), (''digits'', [''6'']), (''period'', [''30''])] in
      \<lparr>el_Secret = text_secret, el_URI = ''otpauth://totp/'' @ PathEscape (''sierx:'' @ email) @ ''?'' @ q_Encode q\<rparr>)"

text \<open>Each operation is a transaction: with an error the tables stay as they were.\<close>

definition Enroll :: "auth_prims \<Rightarrow> string \<Rightarrow> string \<Rightarrow> string \<Rightarrow> uuid \<Rightarrow> string \<Rightarrow> int \<Rightarrow> auth_db \<Rightarrow> auth_error + Enrollment \<times> auth_db" where
  "Enroll pr skey secret nonce u password now db =
     rbind (some_or (active_account u db) AuthNoRows) (\<lambda>a.
     if (case us_PasswordHash a of None \<Rightarrow> True | Some h \<Rightarrow> \<not> VerifyPassword pr h password) then Inl ErrCredentials
     else rbind (open_totp pr skey u (us_TotpSecret a)) (\<lambda>state.
     if to_Active state then Inl ErrCredentials
     else Inr (enrollment (us_Email a) secret,
       saveTOTP pr skey nonce u \<lparr>to_Secret = secret, to_Active = False, to_LastStep = -1, to_PendingUntil = now + 600, to_Recovery = []\<rparr> db)))"

definition Confirm :: "auth_prims \<Rightarrow> string \<Rightarrow> string \<Rightarrow> string list \<Rightarrow> uuid \<Rightarrow> string \<Rightarrow> int \<Rightarrow> auth_db \<Rightarrow> auth_error + string list \<times> auth_db" where
  "Confirm pr skey nonce randoms u code now db =
     rbind (some_or (active_account u db) AuthNoRows) (\<lambda>a.
     rbind (open_totp pr skey u (us_TotpSecret a)) (\<lambda>state.
     if length (to_Secret state) \<noteq> 20 \<or> to_Active state \<or> to_PendingUntil state < now then Inl ErrCredentials
     else case consumeCode pr state code now False of
         None \<Rightarrow> Inl ErrCredentials
       | Some state' \<Rightarrow>
           let codes = map hex_encode (take 8 randoms);
               final = state'\<lparr>to_Active := True, to_PendingUntil := 0, to_Recovery := to_Recovery state' @ map (\<lambda>c. hex_encode (au_sha256 pr c)) codes\<rparr> in
           Inr (codes, delete_sessions u (saveTOTP pr skey nonce u final db))))"

definition checkSecondFactor :: "auth_prims \<Rightarrow> string \<Rightarrow> string \<Rightarrow> string \<Rightarrow> uuid \<Rightarrow> string \<Rightarrow> int \<Rightarrow> auth_db \<Rightarrow> auth_error + string \<times> auth_db" where
  "checkSecondFactor pr skey nonce raw u code now db =
     rbind (some_or (active_account u db) AuthNoRows) (\<lambda>a.
     rbind (open_totp pr skey u (us_TotpSecret a)) (\<lambda>state.
     if to_Active state then
       (case consumeCode pr state code now True of
          None \<Rightarrow> Inl ErrCredentials
        | Some state' \<Rightarrow> issueSession pr raw u now (saveTOTP pr skey nonce u state' db))
     else issueSession pr raw u now db))"

definition Disable :: "auth_prims \<Rightarrow> string \<Rightarrow> uuid \<Rightarrow> string \<Rightarrow> string \<Rightarrow> int \<Rightarrow> auth_db \<Rightarrow> auth_error + auth_db" where
  "Disable pr skey u password code now db =
     rbind (some_or (active_account u db) AuthNoRows) (\<lambda>a.
     if (case us_PasswordHash a of None \<Rightarrow> True | Some h \<Rightarrow> \<not> VerifyPassword pr h password) then Inl ErrCredentials
     else rbind (open_totp pr skey u (us_TotpSecret a)) (\<lambda>state.
     if \<not> to_Active state \<or> consumeCode pr state code now True = None then Inl ErrCredentials
     else Inr (delete_sessions u (set_totp u [] db))))"

text \<open>\<open>New\<close>: the hash that is checked when there is no account, so that the work is the same.\<close>

definition dummyHash :: string where
  "dummyHash = argon_header @ b64_std_encode (replicate 16 (CHR 0x00)) @ ''$'' @ b64_std_encode (replicate 32 (CHR 0x00))"

text \<open>The database refuses a text with a zero byte.\<close>

definition Login :: "auth_prims \<Rightarrow> string \<Rightarrow> string \<Rightarrow> string \<Rightarrow> string \<Rightarrow> string \<Rightarrow> string \<Rightarrow> int \<Rightarrow> auth_db \<Rightarrow> auth_error + string \<times> auth_db" where
  "Login pr skey nonce raw email password code now db =
     (let row = find (\<lambda>a. email_eq (us_Email a) email \<and> us_IsActive a \<and> member_of (us_ID a) db \<noteq> None) (accounts db);
          hash = (case row of None \<Rightarrow> None | Some a \<Rightarrow> us_PasswordHash a);
          valid = VerifyPassword pr (case hash of None \<Rightarrow> dummyHash | Some h \<Rightarrow> h) password in
      if CHR 0x00 \<in> set email then Inl AuthDatabase
      else case row of
        None \<Rightarrow> Inl ErrCredentials
      | Some a \<Rightarrow> if hash = None \<or> \<not> valid then Inl ErrCredentials else checkSecondFactor pr skey nonce raw (us_ID a) code now db)"

subsection \<open>Proxies\<close>

text \<open>
  The address of the peer is parsed by \<open>peer\<close> (\<open>net.SplitHostPort\<close>, \<open>netip.ParseAddr\<close>, \<open>Unmap\<close>), a
  trusted prefix is the predicate of the addresses it contains; \<open>headers\<close> are the values of \<open>X-Sierx-Email\<close>.
\<close>

definition Proxy :: "(string \<Rightarrow> 'addr option) \<Rightarrow> ('addr \<Rightarrow> bool) list \<Rightarrow> string \<Rightarrow> string list \<Rightarrow> auth_db \<Rightarrow> auth_error + Identity" where
  "Proxy peer trusted remote headers db =
     (case peer remote of
        None \<Rightarrow> Inl ErrCredentials
      | Some addr \<Rightarrow>
          if \<not> list_ex (\<lambda>prefix_has. prefix_has addr) trusted then Inl ErrCredentials
          else (case headers of
              [email] \<Rightarrow>
                if TrimSpace email = [] \<or> list_ex (\<lambda>c. c \<in> set [CHR '','', CHR 0x0D, CHR 0x0A]) email \<or> length email > 320 then Inl ErrCredentials
                else (case find (\<lambda>a. email_eq (us_Email a) (TrimSpace email) \<and> us_IsActive a \<and> us_PasswordHash a = None \<and> member_of (us_ID a) db \<noteq> None) (accounts db) of
                    None \<Rightarrow> Inl ErrCredentials
                  | Some a \<Rightarrow> (case member_of (us_ID a) db of None \<Rightarrow> Inl ErrCredentials | Some m \<Rightarrow> Inr (identity_of a m)))
            | _ \<Rightarrow> Inl ErrCredentials))"

subsection \<open>The handlers\<close>

text \<open>The table of attempts; times are nanoseconds, and the flag says whether the attempt is refused.\<close>

record attemptWindow =
  aw_start :: int
  aw_count :: int

definition minute :: int where
  "minute = 60000000000"

definition attempt :: "int \<Rightarrow> string \<Rightarrow> (string \<times> attemptWindow) list \<Rightarrow> bool \<times> (string \<times> attemptWindow) list" where
  "attempt now key entries =
     (let kept = filter (\<lambda>(k, e). now - aw_start e < minute) entries;
          e = (case map_of kept key of None \<Rightarrow> \<lparr>aw_start = now, aw_count = 0\<rparr> | Some e \<Rightarrow> e);
          e' = e\<lparr>aw_count := aw_count e + 1\<rparr>;
          limited = (aw_count e' > 10 \<or> length kept \<ge> 4096) in
      (limited, if limited then kept else (key, e') # filter (\<lambda>(k, e). k \<noteq> key) kept))"

definition validOrigin :: "string \<Rightarrow> string \<Rightarrow> bool" where
  "validOrigin baseURL origin = (origin = [] \<or> origin = rev (dropWhile (\<lambda>c. c = CHR ''/'') (rev baseURL)))"

record auth_config =
  cf_AuthMode :: string
  cf_BaseURL :: string
  cf_SessionKey :: string

text \<open>The key under which the state of the second factor is sealed.\<close>

definition totp_key :: "auth_prims \<Rightarrow> auth_config \<Rightarrow> string" where
  "totp_key pr cfg = au_sha256 pr (''sierx-totp-v1:'' @ cf_SessionKey cfg)"

definition authError :: "auth_error \<Rightarrow> Problem" where
  "authError e = (if e = ErrCredentials then Unauthorized else Unavailable)"

record server_state =
  sv_attempts :: "(string \<times> attemptWindow) list"
  sv_db :: auth_db

text \<open>
  \<open>decoded\<close> is what \<open>decodeJSON\<close> makes of the body, \<open>busy\<close> whether another request does password work.
\<close>

definition login ::
  "auth_prims \<Rightarrow> auth_config \<Rightarrow> string \<Rightarrow> string \<Rightarrow> string \<Rightarrow> string \<Rightarrow> int \<Rightarrow> Problem + string \<times> string \<times> string \<Rightarrow> bool \<Rightarrow> server_state \<Rightarrow>
   (Problem + string) \<times> server_state" where
  "login pr cfg nonce raw origin ip now decoded busy st =
     (if cf_AuthMode cfg \<noteq> ''local'' then (Inl Forbidden, st)
      else if \<not> validOrigin (cf_BaseURL cfg) origin then (Inl Forbidden, st)
      else case attempt now ip (sv_attempts st) of (limited, entries) \<Rightarrow>
        let st1 = st\<lparr>sv_attempts := entries\<rparr> in
        if limited then (Inl RateLimited, st1)
        else case decoded of
            Inl p \<Rightarrow> (Inl p, st1)
          | Inr (email, password, code) \<Rightarrow>
              if email = [] \<or> length email > 320 \<or> length password > 1024 then (Inl BadRequest, st1)
              else if busy then (Inl RateLimited, st1)
              else (case Login pr (totp_key pr cfg) nonce raw email password code (now div 1000000000) (sv_db st) of
                  Inl e \<Rightarrow> (Inl (authError e), st1)
                | Inr (token, db) \<Rightarrow> (Inr token, st1\<lparr>sv_db := db\<rparr>)))"

definition requireAuth ::
  "auth_prims \<Rightarrow> auth_config \<Rightarrow> (auth_db \<Rightarrow> auth_error + Identity) \<Rightarrow> string \<Rightarrow> string \<Rightarrow> string option \<Rightarrow> int \<Rightarrow> auth_db \<Rightarrow> Problem + Identity" where
  "requireAuth pr cfg proxy httpMethod origin cookie now db =
     (if httpMethod \<noteq> ''GET'' \<and> httpMethod \<noteq> ''HEAD'' \<and> \<not> validOrigin (cf_BaseURL cfg) origin then Inl Forbidden
      else if cf_AuthMode cfg = ''proxy'' then (case proxy db of Inl e \<Rightarrow> Inl (authError e) | Inr who \<Rightarrow> Inr who)
      else case cookie of
          None \<Rightarrow> Inl Unauthorized
        | Some token \<Rightarrow> (case Session pr token now db of Inl e \<Rightarrow> Inl (authError e) | Inr who \<Rightarrow> Inr who))"

definition logout :: "auth_prims \<Rightarrow> auth_config \<Rightarrow> string \<Rightarrow> auth_db \<Rightarrow> Problem + auth_db" where
  "logout pr cfg token db = (if cf_AuthMode cfg \<noteq> ''local'' then Inl Forbidden else Inr (Logout pr token db))"

definition totpAllowed :: "auth_config \<Rightarrow> uuid \<Rightarrow> int \<Rightarrow> bool \<Rightarrow> server_state \<Rightarrow> (Problem + unit) \<times> server_state" where
  "totpAllowed cfg u now busy st =
     (if cf_AuthMode cfg \<noteq> ''local'' then (Inl Forbidden, st)
      else case attempt now (''totp:'' @ uuid_String u) (sv_attempts st) of (limited, entries) \<Rightarrow>
        let st1 = st\<lparr>sv_attempts := entries\<rparr> in
        if limited \<or> busy then (Inl RateLimited, st1) else (Inr (), st1))"

text \<open>The three handlers differ in the operation they call; \<open>decoded\<close> holds its arguments from the body.\<close>

definition totpHandler ::
  "auth_config \<Rightarrow> uuid \<Rightarrow> int \<Rightarrow> bool \<Rightarrow> Problem + 'arg \<Rightarrow> ('arg \<Rightarrow> auth_db \<Rightarrow> auth_error + 'res \<times> auth_db) \<Rightarrow> server_state \<Rightarrow> (Problem + 'res) \<times> server_state" where
  "totpHandler cfg u now busy decoded operation st =
     (case totpAllowed cfg u now busy st of
        (Inl p, st1) \<Rightarrow> (Inl p, st1)
      | (Inr _, st1) \<Rightarrow> (case decoded of
            Inl p \<Rightarrow> (Inl p, st1)
          | Inr arg \<Rightarrow> (case operation arg (sv_db st1) of
              Inl e \<Rightarrow> (Inl (authError e), st1)
            | Inr (res, db) \<Rightarrow> (Inr res, st1\<lparr>sv_db := db\<rparr>))))"

definition totpEnroll :: "auth_prims \<Rightarrow> auth_config \<Rightarrow> string \<Rightarrow> string \<Rightarrow> uuid \<Rightarrow> int \<Rightarrow> bool \<Rightarrow> Problem + string \<Rightarrow> server_state \<Rightarrow> (Problem + Enrollment) \<times> server_state" where
  "totpEnroll pr cfg secret nonce u now busy decoded st =
     totpHandler cfg u now busy decoded (\<lambda>password. Enroll pr (totp_key pr cfg) secret nonce u password (now div 1000000000)) st"

definition totpConfirm :: "auth_prims \<Rightarrow> auth_config \<Rightarrow> string \<Rightarrow> string list \<Rightarrow> uuid \<Rightarrow> int \<Rightarrow> bool \<Rightarrow> Problem + string \<Rightarrow> server_state \<Rightarrow> (Problem + string list) \<times> server_state" where
  "totpConfirm pr cfg nonce randoms u now busy decoded st =
     totpHandler cfg u now busy decoded (\<lambda>code. Confirm pr (totp_key pr cfg) nonce randoms u code (now div 1000000000)) st"

definition totpDisable :: "auth_prims \<Rightarrow> auth_config \<Rightarrow> uuid \<Rightarrow> int \<Rightarrow> bool \<Rightarrow> Problem + string \<times> string \<Rightarrow> server_state \<Rightarrow> (Problem + unit) \<times> server_state" where
  "totpDisable pr cfg u now busy decoded st =
     totpHandler cfg u now busy decoded (\<lambda>(password, code) db. rbind (Disable pr (totp_key pr cfg) u password code (now div 1000000000) db) (\<lambda>db'. Inr ((), db'))) st"

subsection \<open>Passwords\<close>

lemma split_on_simps:
  "d \<notin> set a \<Longrightarrow> split_on d (a @ d # s) = a # split_on d s" "d \<notin> set a \<Longrightarrow> split_on d a = [a]"
  by (induction a) auto

lemma VerifyPassword_HashPassword:
  assumes "HashPassword pr salt password = Some h" "length salt = 16" "length (argon2 pr password salt) = 32"
  shows "VerifyPassword pr h password' \<longleftrightarrow> length password' \<le> 1024 \<and> argon2 pr password' salt = argon2 pr password salt"
proof -
  define a b where "a = b64_std_encode salt" and "b = b64_std_encode (argon2 pr password salt)"
  have d: "CHR ''$'' \<notin> set a" "CHR ''$'' \<notin> set b" unfolding a_def b_def b64_std_encode_def by (rule encode_no_dollar [OF alphabets(2)])+
  have h: "h = [] @ CHR ''$'' # ''argon2id'' @ CHR ''$'' # ''v=19'' @ CHR ''$'' # ''m=65536,t=3,p=1'' @ CHR ''$'' # a @ CHR ''$'' # b"
    using assms(1) by (simp add: HashPassword_def argon_header_def a_def b_def split: if_splits)
  have n: "CHR ''$'' \<notin> set ''argon2id''" "CHR ''$'' \<notin> set ''v=19''" "CHR ''$'' \<notin> set ''m=65536,t=3,p=1''" "CHR ''$'' \<notin> set []" by simp_all
  have "split_on CHR ''$'' h = [[], ''argon2id'', ''v=19'', ''m=65536,t=3,p=1'', a, b]"
    unfolding h by (simp only: split_on_simps(1) [OF n(4)] split_on_simps(1) [OF n(1)] split_on_simps(1) [OF n(2)] split_on_simps(1) [OF n(3)]
        split_on_simps(1) [OF d(1)] split_on_simps(2) [OF d(2)])
  then show ?thesis using assms(2,3) by (auto simp: VerifyPassword_def a_def b_def b64_std_decode_encode)
qed

subsection \<open>Sessions\<close>

lemma find_cong_all: "(\<And>x. x \<in> set xs \<Longrightarrow> P x = Q x) \<Longrightarrow> find P xs = find Q xs"
  by (induction xs) auto

lemma find_map_keep: "(\<And>x. P (f x) = P x) \<Longrightarrow> find P (map f xs) = map_option f (find P xs)"
  by (induction xs) auto

lemma find_SomeD: "find P xs = Some x \<Longrightarrow> P x \<and> x \<in> set xs"
  by (metis find_Some_iff nth_mem)

lemma find_unique_id:
  assumes "distinct (map us_ID xs)" "a \<in> set xs" "us_IsActive a"
  shows "find (\<lambda>b. us_ID b = us_ID a \<and> us_IsActive b) xs = Some a"
  using assms by (induction xs) force+

lemma find_fresh:
  "h \<notin> se_IdHash ` set xs \<Longrightarrow> find (\<lambda>s. se_IdHash s = h \<and> P s) (xs @ ys) = find (\<lambda>s. se_IdHash s = h \<and> P s) ys"
  by (induction xs) auto

lemma set_totp_simps [simp]:
  "sessions (set_totp v raw db) = sessions db" "memberships (set_totp v raw db) = memberships db"
  "active_account u (set_totp v raw db) = map_option (\<lambda>a. if u = v then a\<lparr>us_TotpSecret := raw\<rparr> else a) (active_account u db)"
  unfolding set_totp_def active_account_def
  by (simp_all, subst find_map_keep) (auto split: option.splits simp: find_Some_iff intro!: option.map_cong)

lemma member_of_simps [simp]:
  "member_of u (set_totp v raw db) = member_of u db" "member_of u (delete_sessions v db) = member_of u db"
  "member_of u (db\<lparr>sessions := ss\<rparr>) = member_of u db"
  by (simp_all add: member_of_def delete_sessions_def)

lemma active_account_sessions [simp]:
  "active_account u (db\<lparr>sessions := ss\<rparr>) = active_account u db" "active_account u (delete_sessions v db) = active_account u db"
  "active_account u (Logout pr token db) = active_account u db"
  by (simp_all add: active_account_def delete_sessions_def Logout_def)

lemma issueSession_Inr:
  "issueSession pr raw u now db = Inr (token, db') \<longleftrightarrow>
     token = b64_encode raw \<and> au_sha256 pr token \<notin> se_IdHash ` set (sessions db) \<and>
     (\<exists>a. find (\<lambda>a. us_ID a = u) (accounts db) = Some a \<and> us_IsActive a) \<and>
     db' = db\<lparr>sessions := sessions db @ [\<lparr>se_IdHash = au_sha256 pr token, se_UserID = u, se_ExpiresAt = now + 43200\<rparr>]\<rparr>"
  by (auto simp: issueSession_def sierx_create_session_def Let_def result_simps split: option.splits if_splits)

text \<open>A sign-in that goes through is one of \<open>checkSecondFactor\<close> for the account it looked up.\<close>

lemma Login_Inr:
  assumes "Login pr skey nonce raw email password code now db = Inr (token, db')"
  obtains a m h where "a \<in> set (accounts db)" "email_eq (us_Email a) email" "us_IsActive a" "member_of (us_ID a) db = Some m"
    "us_PasswordHash a = Some h" "VerifyPassword pr h password"
    "checkSecondFactor pr skey nonce raw (us_ID a) code now db = Inr (token, db')"
  using assms by (auto simp: Login_def Let_def split: option.splits if_splits dest!: find_SomeD)

lemma checkSecondFactor_Inr:
  assumes "checkSecondFactor pr skey nonce raw u code now db = Inr (token, db')"
  obtains a s db1 where "active_account u db = Some a" "open_totp pr skey u (us_TotpSecret a) = Inr s"
    "to_Active s \<longrightarrow> (\<exists>s'. consumeCode pr s code now True = Some s' \<and> db1 = saveTOTP pr skey nonce u s' db)" "\<not> to_Active s \<longrightarrow> db1 = db"
    "issueSession pr raw u now db1 = Inr (token, db')"
  using assms by (auto simp: checkSecondFactor_def some_or_def result_simps split: option.splits if_splits)

lemma Session_new:
  assumes "length token = 43" "h = au_sha256 pr token" "h \<notin> se_IdHash ` set (sessions db)" "active_account u db = Some a" "member_of u db = Some m"
  shows "Session pr token t (db\<lparr>sessions := sessions db @ [\<lparr>se_IdHash = h, se_UserID = u, se_ExpiresAt = e\<rparr>]\<rparr>) =
    (if t < e then Inr (identity_of a m) else Inl ErrCredentials)"
  using assms by (simp add: Session_def find_fresh)

lemma Session_Logout: "Session pr token t (Logout pr token db) = Inl ErrCredentials"
proof -
  have "find (\<lambda>s. se_IdHash s = au_sha256 pr token \<and> t < se_ExpiresAt s) (sessions (Logout pr token db)) = None"
    by (auto simp: find_None_iff Logout_def)
  then show ?thesis by (simp add: Session_def)
qed

lemma identity_of_totp [simp]: "identity_of (a\<lparr>us_TotpSecret := raw\<rparr>) m = identity_of a m"
  by (simp add: identity_of_def)

text \<open>
  C17. A sign-in hands out a token only for an active account of the given address that belongs to a workspace, whose
  password hash accepts the password, and, where the second factor is on, whose state accepts the code.  The
  token stands for exactly that identity until twelve hours after the sign-in, and for nobody afterwards or
  once it is signed out.
\<close>

theorem Login_opens_session:
  assumes "Login pr skey nonce raw email password code now db = Inr (token, db')"
    and "distinct (map us_ID (accounts db))" "length raw = 32"
  shows "\<exists>a m h s. a \<in> set (accounts db) \<and> email_eq (us_Email a) email \<and> us_IsActive a \<and> member_of (us_ID a) db = Some m \<and>
      us_PasswordHash a = Some h \<and> VerifyPassword pr h password \<and>
      open_totp pr skey (us_ID a) (us_TotpSecret a) = Inr s \<and> (to_Active s \<longrightarrow> consumeCode pr s code now True \<noteq> None) \<and>
      (\<forall>t. Session pr token t db' = (if t < now + 43200 then Inr (identity_of a m) else Inl ErrCredentials)) \<and>
      (\<forall>t. Session pr token t (Logout pr token db') = Inl ErrCredentials)"
proof -
  from assms(1) obtain a m h where a: "a \<in> set (accounts db)" "email_eq (us_Email a) email" "us_IsActive a" "member_of (us_ID a) db = Some m"
    "us_PasswordHash a = Some h" "VerifyPassword pr h password"
    "checkSecondFactor pr skey nonce raw (us_ID a) code now db = Inr (token, db')" by (rule Login_Inr)
  have act: "active_account (us_ID a) db = Some a" unfolding active_account_def by (rule find_unique_id [OF assms(2) a(1,3)])
  from a(7) obtain s db1 where s: "open_totp pr skey (us_ID a) (us_TotpSecret a) = Inr s"
    "to_Active s \<longrightarrow> (\<exists>s'. consumeCode pr s code now True = Some s' \<and> db1 = saveTOTP pr skey nonce (us_ID a) s' db)" "\<not> to_Active s \<longrightarrow> db1 = db"
    "issueSession pr raw (us_ID a) now db1 = Inr (token, db')" by (rule checkSecondFactor_Inr) (auto simp: act)
  have db1: "\<exists>a'. active_account (us_ID a) db1 = Some a' \<and> identity_of a' m = identity_of a m" "member_of (us_ID a) db1 = Some m"
    using s(2,3) act a(4) by (cases "to_Active s"; auto simp: saveTOTP_def)+
  from s(4) have tok: "token = b64_encode raw" "au_sha256 pr token \<notin> se_IdHash ` set (sessions db1)"
    "db' = db1\<lparr>sessions := sessions db1 @ [\<lparr>se_IdHash = au_sha256 pr token, se_UserID = us_ID a, se_ExpiresAt = now + 43200\<rparr>]\<rparr>"
    unfolding issueSession_Inr by blast+
  have "Session pr token t db' = (if t < now + 43200 then Inr (identity_of a m) else Inl ErrCredentials)" for t
    using db1 tok assms(3) by (auto simp: Session_new b64_length_32)
  then show ?thesis using a s(1,2) Session_Logout by blast
qed

subsection \<open>Single use of the second factor\<close>

text \<open>What a code spends: the 30 seconds it belongs to, or a recovery code by its hash.\<close>

definition credential :: "auth_prims \<Rightarrow> totpState \<Rightarrow> string \<Rightarrow> int \<Rightarrow> (int + string) option" where
  "credential pr s code now =
     (case code_step pr s code now of
        Some c \<Rightarrow> Some (Inl c)
      | None \<Rightarrow> if hex_encode (au_sha256 pr code) \<in> set (to_Recovery s) then Some (Inr (hex_encode (au_sha256 pr code))) else None)"

definition spent :: "int + string \<Rightarrow> totpState \<Rightarrow> bool" where
  "spent x s = (case x of Inl c \<Rightarrow> c \<le> to_LastStep s | Inr h \<Rightarrow> h \<notin> set (to_Recovery s))"

text \<open>The states that JSON keeps: integers of 64 bits, recovery hashes in hexadecimal; and no hash is there twice.\<close>

definition hex_text :: "string \<Rightarrow> bool" where
  "hex_text h = list_all (\<lambda>c. c \<in> set ''0123456789abcdef'') h"

definition state_ok :: "totpState \<Rightarrow> bool" where
  "state_ok s = (\<bar>to_LastStep s\<bar> < 2 ^ 63 \<and> \<bar>to_PendingUntil s\<bar> < 2 ^ 63 \<and> list_all hex_text (to_Recovery s) \<and>
     distinct (to_Recovery s))"

definition totp_laws :: "auth_prims \<Rightarrow> bool" where
  "totp_laws pr = ((\<forall>k n p a. au_open pr k n (au_seal pr k n p a) a = Some p) \<and> (\<forall>s. state_ok s \<longrightarrow> read_totp pr (json_totp pr s) = Some s))"

text \<open>The state of the second factor of an account.\<close>

definition factor :: "auth_prims \<Rightarrow> string \<Rightarrow> uuid \<Rightarrow> auth_db \<Rightarrow> auth_error + totpState" where
  "factor pr skey u db = rbind (some_or (active_account u db) AuthNoRows) (\<lambda>a. open_totp pr skey u (us_TotpSecret a))"

text \<open>The operations of the service as steps; one that fails leaves the tables alone.\<close>

datatype auth_op =
  OpLogin string string string string string int
| OpLogout string
| OpEnroll string string uuid string int
| OpConfirm string "string list" uuid string int
| OpDisable uuid string string int

fun run_op :: "auth_prims \<Rightarrow> string \<Rightarrow> auth_op \<Rightarrow> auth_db \<Rightarrow> auth_db" where
  "run_op pr skey (OpLogin nonce raw email password code now) db =
     (case Login pr skey nonce raw email password code now db of Inl _ \<Rightarrow> db | Inr (_, db') \<Rightarrow> db')"
| "run_op pr skey (OpLogout token) db = Logout pr token db"
| "run_op pr skey (OpEnroll secret nonce v password now) db =
     (case Enroll pr skey secret nonce v password now db of Inl _ \<Rightarrow> db | Inr (_, db') \<Rightarrow> db')"
| "run_op pr skey (OpConfirm nonce randoms v code now) db =
     (case Confirm pr skey nonce randoms v code now db of Inl _ \<Rightarrow> db | Inr (_, db') \<Rightarrow> db')"
| "run_op pr skey (OpDisable v password code now) db =
     (case Disable pr skey v password code now db of Inl _ \<Rightarrow> db | Inr db' \<Rightarrow> db')"

text \<open>Nonces of 12 bytes, times a machine can show; the second factor of \<open>u\<close> stays on.\<close>

definition time_ok :: "int \<Rightarrow> bool" where
  "time_ok now = (0 \<le> now \<and> now < 2 ^ 62)"

fun op_ok :: "uuid \<Rightarrow> auth_op \<Rightarrow> bool" where
  "op_ok u (OpLogin nonce raw email password code now) = (length nonce = 12 \<and> time_ok now)"
| "op_ok u (OpLogout token) = True"
| "op_ok u (OpEnroll secret nonce v password now) = (length nonce = 12 \<and> time_ok now)"
| "op_ok u (OpConfirm nonce randoms v code now) = (length nonce = 12 \<and> time_ok now)"
| "op_ok u (OpDisable v password code now) = (v \<noteq> u)"

lemma factor_save:
  assumes "totp_laws pr" "state_ok s" "length nonce = 12" "active_account u db \<noteq> None"
  shows "factor pr skey u (saveTOTP pr skey nonce u s db) = Inr s"
  using assms by (auto simp: factor_def saveTOTP_def seal_totp_def open_totp_def some_or_def totp_laws_def)

lemma factor_active: "factor pr skey u db = Inr s \<Longrightarrow> active_account u db \<noteq> None"
  by (auto simp: factor_def some_or_def split: option.splits)

lemma factor_cong: "active_account u db = active_account u db' \<Longrightarrow> factor pr skey u db = factor pr skey u db'"
  by (simp add: factor_def)

lemma factor_other [simp]: "u \<noteq> v \<Longrightarrow> factor pr skey u (set_totp v raw db) = factor pr skey u db"
  by (simp add: factor_def option.map_ident)

lemma factor_sessions [simp]:
  "factor pr skey u (db\<lparr>sessions := ss\<rparr>) = factor pr skey u db" "factor pr skey u (delete_sessions v db) = factor pr skey u db"
  "factor pr skey u (Logout pr' token db) = factor pr skey u db"
  by (simp_all add: factor_def)

lemma code_step_Some:
  assumes "code_step pr s code now = Some c" "time_ok now"
  shows "to_LastStep s < c" "\<bar>c\<bar> < 2 ^ 63"
proof -
  from assms(1) have c: "to_LastStep s < c" "c \<in> {now div 30, now div 30 - 1, now div 30 + 1}" by (auto simp: code_step_def split: if_splits)
  moreover from assms(2) have "0 \<le> now div 30" "now div 30 < 2 ^ 62" by (auto simp: time_ok_def)
  ultimately show "to_LastStep s < c" "\<bar>c\<bar> < 2 ^ 63" by auto
qed

text \<open>An accepted code spends what was not spent, and gives nothing back.\<close>

lemma consumeCode_cases:
  assumes "consumeCode pr s code now r = Some s'"
  obtains (step) c where "code_step pr s code now = Some c" "credential pr s code now = Some (Inl c)" "s' = s\<lparr>to_LastStep := c\<rparr>"
  | (recovery) h where "h \<in> set (to_Recovery s)" "credential pr s code now = Some (Inr h)" "s' = s\<lparr>to_Recovery := remove1 h (to_Recovery s)\<rparr>"
  using assms by (auto simp: consumeCode_def credential_def Let_def split: option.splits if_splits)

lemma consumeCode_spends:
  assumes "consumeCode pr s code now r = Some s'" "state_ok s" "time_ok now"
  shows "state_ok s' \<and> to_Active s' = to_Active s \<and> (\<exists>x. credential pr s code now = Some x \<and> \<not> spent x s \<and> spent x s') \<and> (\<forall>y. spent y s \<longrightarrow> spent y s')"
  using assms(1)
proof (cases rule: consumeCode_cases)
  case (step c)
  from code_step_Some [OF step(1) assms(3)] have "to_LastStep s < c" "\<bar>c\<bar> < 2 ^ 63" .
  with step(2,3) assms(2) show ?thesis by (simp add: state_ok_def spent_def split: sum.split)
next
  case (recovery h)
  from assms(2) have d: "distinct (to_Recovery s)" by (simp add: state_ok_def)
  then have "state_ok s'" using assms(2) recovery(3) by (simp add: state_ok_def list_all_iff)
  moreover have "\<forall>y. spent y s \<longrightarrow> spent y s'" "\<not> spent (Inr h) s" "spent (Inr h) s'"
    using d recovery(1,3) by (auto simp: spent_def split: sum.splits)
  ultimately show ?thesis using recovery(2,3) by auto
qed

lemma issueSession_factor: "issueSession pr raw v now db = Inr (token, db') \<Longrightarrow> factor pr skey u db' = factor pr skey u db"
  by (auto simp: issueSession_Inr)

lemma checkSecondFactor_spends:
  assumes "totp_laws pr" "checkSecondFactor pr skey nonce raw u code now db = Inr (token, db')" "length nonce = 12" "time_ok now"
    and "factor pr skey u db = Inr s" "state_ok s" "to_Active s"
  shows "\<exists>s'. consumeCode pr s code now True = Some s' \<and> factor pr skey u db' = Inr s'"
proof -
  from assms(2) obtain a s0 db1 where a: "active_account u db = Some a" "open_totp pr skey u (us_TotpSecret a) = Inr s0"
    "to_Active s0 \<longrightarrow> (\<exists>s'. consumeCode pr s0 code now True = Some s' \<and> db1 = saveTOTP pr skey nonce u s' db)"
    "issueSession pr raw u now db1 = Inr (token, db')" by (rule checkSecondFactor_Inr) blast
  from a(1,2) assms(5) have "s0 = s" by (simp add: factor_def some_or_def)
  with a(3) assms(7) obtain s' where s': "consumeCode pr s code now True = Some s'" "db1 = saveTOTP pr skey nonce u s' db" by blast
  have "factor pr skey u db1 = Inr s'" unfolding s'(2)
    using consumeCode_spends [OF s'(1) assms(6,4)] a(1) by (intro factor_save assms(1,3)) simp_all
  with s'(1) issueSession_factor [OF a(4)] show ?thesis by auto
qed

lemma checkSecondFactor_other:
  assumes "checkSecondFactor pr skey nonce raw v code now db = Inr (token, db')" "u \<noteq> v"
  shows "factor pr skey u db' = factor pr skey u db"
  using assms(1) by (rule checkSecondFactor_Inr) (use assms(2) in \<open>auto simp: issueSession_Inr saveTOTP_def\<close>)

text \<open>What every step keeps: the factor stays on, in a state that JSON keeps, and what is spent stays spent.\<close>

definition still_spent :: "auth_prims \<Rightarrow> string \<Rightarrow> uuid \<Rightarrow> int + string \<Rightarrow> auth_db \<Rightarrow> bool" where
  "still_spent pr skey u x db = (case factor pr skey u db of Inl _ \<Rightarrow> False | Inr s \<Rightarrow> state_ok s \<and> to_Active s \<and> spent x s)"

lemma still_spent_cong: "factor pr skey u db' = factor pr skey u db \<Longrightarrow> still_spent pr skey u x db' = still_spent pr skey u x db"
  by (simp add: still_spent_def)

lemma Enroll_factor:
  assumes "Enroll pr skey secret nonce v password now db = Inr (en, db')" "still_spent pr skey u x db"
  shows "factor pr skey u db' = factor pr skey u db"
proof (cases "u = v")
  case True
  with assms show ?thesis by (auto simp: Enroll_def still_spent_def factor_def some_or_def result_simps split: option.splits if_splits sum.splits)
next
  case False
  with assms show ?thesis by (auto simp: Enroll_def saveTOTP_def some_or_def result_simps split: option.splits if_splits)
qed

lemma Confirm_factor:
  assumes "Confirm pr skey nonce randoms v code now db = Inr (codes, db')" "still_spent pr skey u x db"
  shows "factor pr skey u db' = factor pr skey u db"
proof (cases "u = v")
  case True
  with assms show ?thesis by (auto simp: Confirm_def still_spent_def factor_def some_or_def result_simps split: option.splits if_splits sum.splits)
next
  case False
  with assms show ?thesis by (auto simp: Confirm_def saveTOTP_def Let_def some_or_def result_simps split: option.splits if_splits)
qed

lemma Disable_factor: "Disable pr skey v password code now db = Inr db' \<Longrightarrow> u \<noteq> v \<Longrightarrow> factor pr skey u db' = factor pr skey u db"
  by (auto simp: Disable_def some_or_def result_simps split: option.splits if_splits)

lemma Login_still_spent:
  assumes "totp_laws pr" "Login pr skey nonce raw email password code now db = Inr (token, db')" "length nonce = 12" "time_ok now"
    and "still_spent pr skey u x db"
  shows "still_spent pr skey u x db'"
proof -
  from assms(2) obtain v where v: "checkSecondFactor pr skey nonce raw v code now db = Inr (token, db')" by (rule Login_Inr)
  from assms(5) obtain s where s: "factor pr skey u db = Inr s" "state_ok s" "to_Active s" "spent x s" by (auto simp: still_spent_def split: sum.splits)
  show ?thesis
  proof (cases "u = v")
    case True
    from checkSecondFactor_spends [OF assms(1) v assms(3,4)] s(1-3) True obtain s' where
      "consumeCode pr s code now True = Some s'" "factor pr skey u db' = Inr s'" by blast
    with consumeCode_spends [OF this(1) s(2) assms(4)] s(3,4) show ?thesis by (simp add: still_spent_def)
  next
    case False
    from still_spent_cong [OF checkSecondFactor_other [OF v False]] assms(5) show ?thesis by simp
  qed
qed

lemma run_op_still_spent:
  assumes "totp_laws pr" "op_ok u op" "still_spent pr skey u x db"
  shows "still_spent pr skey u x (run_op pr skey op db)"
proof (cases op)
  case (OpLogin nonce raw email password code now)
  then show ?thesis using assms Login_still_spent [OF assms(1) _ _ _ assms(3)] by (auto split: sum.splits)
next
  case (OpLogout token)
  then show ?thesis using assms(3) by (simp add: still_spent_def)
next
  case (OpEnroll secret nonce v password now)
  then show ?thesis using assms(3) still_spent_cong [OF Enroll_factor [OF _ assms(3)]] by (auto split: sum.splits)
next
  case (OpConfirm nonce randoms v code now)
  then show ?thesis using assms(3) still_spent_cong [OF Confirm_factor [OF _ assms(3)]] by (auto split: sum.splits)
next
  case (OpDisable v password code now)
  then show ?thesis using assms(2,3) still_spent_cong [OF Disable_factor] by (auto split: sum.splits)
qed

lemma run_ops_still_spent:
  "totp_laws pr \<Longrightarrow> list_all (op_ok u) ops \<Longrightarrow> still_spent pr skey u x db \<Longrightarrow> still_spent pr skey u x (fold (run_op pr skey) ops db)"
  by (induction ops arbitrary: db) (simp_all add: run_op_still_spent)

text \<open>
  C15. While the second factor of an account is on, no code opens two sessions: whatever sign-ins, sign-outs, enrolments,
  confirmations and switch-offs of other accounts happen in between, a later sign-in of the account spends another
  30 seconds or another recovery code than the first one did.
\<close>

theorem second_factor_single_use:
  assumes "totp_laws pr" "factor pr skey u db = Inr s" "state_ok s" "to_Active s"
    and "checkSecondFactor pr skey nonce raw u code now db = Inr (token, db1)" "length nonce = 12" "time_ok now"
    and "list_all (op_ok u) ops" "db2 = fold (run_op pr skey) ops db1"
    and "checkSecondFactor pr skey nonce' raw' u code' now' db2 = Inr (token', db3)" "length nonce' = 12" "time_ok now'"
  shows "\<exists>x y s'. credential pr s code now = Some x \<and> factor pr skey u db2 = Inr s' \<and> credential pr s' code' now' = Some y \<and> x \<noteq> y"
proof -
  from checkSecondFactor_spends [OF assms(1,5,6,7,2-4)] obtain s1 where s1: "consumeCode pr s code now True = Some s1" "factor pr skey u db1 = Inr s1" by blast
  from consumeCode_spends [OF s1(1) assms(3,7)] assms(4) obtain x where x: "credential pr s code now = Some x" "spent x s1" "state_ok s1" "to_Active s1" by blast
  then have "still_spent pr skey u x db1" using s1(2) by (simp add: still_spent_def)
  from run_ops_still_spent [OF assms(1,8) this] obtain s2 where s2: "factor pr skey u db2 = Inr s2" "state_ok s2" "to_Active s2" "spent x s2"
    unfolding assms(9) by (auto simp: still_spent_def split: sum.splits)
  from checkSecondFactor_spends [OF assms(1,10-12) s2(1-3)] obtain s3 where "consumeCode pr s2 code' now' True = Some s3" by blast
  from consumeCode_spends [OF this s2(2) assms(12)] obtain y where "credential pr s2 code' now' = Some y" "\<not> spent y s2" by blast
  with x(1) s2(1,4) show ?thesis by blast
qed

subsection \<open>The rate of attempts\<close>

text \<open>The attempts that pass, of a sequence of requests.\<close>

fun attempts_run :: "(int \<times> string) list \<Rightarrow> (string \<times> attemptWindow) list \<Rightarrow> (int \<times> string) list \<times> (string \<times> attemptWindow) list" where
  "attempts_run [] entries = ([], entries)"
| "attempts_run ((now, key) # rs) entries =
     (case attempt now key entries of (limited, entries') \<Rightarrow>
      case attempts_run rs entries' of (passed, final) \<Rightarrow> (if limited then passed else (now, key) # passed, final))"

definition hits :: "(int \<Rightarrow> bool) \<Rightarrow> int list \<Rightarrow> nat" where
  "hits P ts = length (filter P ts)"

lemma hits_simps [simp]: "hits P [] = 0" "hits P (ts @ [t]) = hits P ts + (if P t then 1 else 0)"
  by (simp_all add: hits_def)

lemma hits_mono: "(\<And>t. t \<in> set ts \<Longrightarrow> P t \<Longrightarrow> Q t) \<Longrightarrow> hits P ts \<le> hits Q ts"
  by (induction ts) (auto simp: hits_def le_SucI)

lemma hits_split: "(\<And>t. P t \<Longrightarrow> Q t \<or> R t) \<Longrightarrow> hits P ts \<le> hits Q ts + hits R ts"
  by (induction ts) (auto simp: hits_def le_SucI)

text \<open>
  What the table says of a key with the past attempts \<open>ts\<close>: the last window opened at \<open>s\<close> has at most ten, the
  time of one minute before it has at most ten, and the table forgets the window only when it is over.
\<close>

definition window_inv :: "string \<Rightarrow> int \<Rightarrow> (string \<times> attemptWindow) list \<Rightarrow> int list \<Rightarrow> int \<Rightarrow> bool" where
  "window_inv k now entries ts s =
     ((\<forall>t\<in>set ts. t < s + minute) \<and> hits (\<lambda>t. s \<le> t) ts \<le> 10 \<and> hits (\<lambda>t. s - minute < t \<and> t < s) ts \<le> 10 \<and>
      (case map_of entries k of None \<Rightarrow> s + minute \<le> now | Some e \<Rightarrow> aw_start e = s \<and> aw_count e = int (hits (\<lambda>t. s \<le> t) ts) \<and> s \<le> now))"

lemma map_of_filter_fst: "map_of (filter (\<lambda>(k, e). k \<noteq> key) xs) k = (if k = key then None else map_of xs k)"
  by (induction xs) auto

lemma map_of_filter_snd: "distinct (map fst xs) \<Longrightarrow> map_of (filter (\<lambda>(k, e). P e) xs) k = (case map_of xs k of None \<Rightarrow> None | Some e \<Rightarrow> if P e then Some e else None)"
  by (induction xs) (force split: option.splits)+

lemma distinct_filter_fst: "distinct (map fst xs) \<Longrightarrow> distinct (map fst (filter P xs))"
  by (induction xs) auto

text \<open>The removal of the windows that are over\<close>

lemma window_inv_expire:
  assumes "window_inv k T entries ts s" "T \<le> now" "distinct (map fst entries)"
  shows "window_inv k now (filter (\<lambda>(k, e). now - aw_start e < minute) entries) ts s"
proof (cases "map_of entries k")
  case None
  with assms(1,2) show ?thesis by (simp add: window_inv_def map_of_filter_snd [OF assms(3)])
next
  case (Some e)
  with assms(1,2) show ?thesis by (auto simp: window_inv_def map_of_filter_snd [OF assms(3)])
qed

lemma window_inv_rate: "window_inv k now entries ts s \<Longrightarrow> hits (\<lambda>t. a \<le> t \<and> t < a + minute) ts \<le> 20 \<or> a + minute \<le> s"
  using hits_split [of "\<lambda>t. a \<le> t \<and> t < a + minute" "\<lambda>t. s \<le> t" "\<lambda>t. s - minute < t \<and> t < s" ts]
  unfolding window_inv_def by force

lemma window_inv_le: "window_inv k now entries ts s \<Longrightarrow> s \<le> now"
  by (auto simp: window_inv_def minute_def split: option.splits)

text \<open>One attempt: either it is refused, or the key has one more, in the window it had or in a new one.\<close>

lemma attempt_window_inv:
  assumes "attempt now key entries = (limited, entries')" "window_inv k T entries ts s" "T \<le> now" "distinct (map fst entries)"
  shows "\<exists>s'. s \<le> s' \<and> window_inv k now entries' (if limited \<or> key \<noteq> k then ts else ts @ [now]) s' \<and> (s' = s \<or> s + minute \<le> s' \<and> s' = now)"
proof -
  define kept where "kept = filter (\<lambda>(k, e). now - aw_start e < minute) entries"
  define e where "e = (case map_of kept key of None \<Rightarrow> \<lparr>aw_start = now, aw_count = 0\<rparr> | Some e \<Rightarrow> e)"
  have inv: "window_inv k now kept ts s" unfolding kept_def by (rule window_inv_expire [OF assms(2-4)])
  have lim: "limited = (aw_count e + 1 > 10 \<or> length kept \<ge> 4096)"
    "entries' = (if limited then kept else (key, e\<lparr>aw_count := aw_count e + 1\<rparr>) # filter (\<lambda>(k, e). k \<noteq> key) kept)"
    using assms(1) by (auto simp: attempt_def Let_def kept_def e_def)
  show ?thesis
  proof (cases "limited \<or> key \<noteq> k")
    case True
    then have "map_of entries' k = map_of kept k" using lim(2) by (auto simp: map_of_filter_fst)
    with inv True show ?thesis by (intro exI [of _ s]) (auto simp: window_inv_def)
  next
    case False
    then have key: "map_of entries' k = Some (e\<lparr>aw_count := aw_count e + 1\<rparr>)" and c: "aw_count e + 1 \<le> 10" "key = k" using lim by auto
    show ?thesis
    proof (cases "map_of kept k")
      case None
      with inv have s: "s + minute \<le> now" by (simp add: window_inv_def)
      have "hits (\<lambda>t. now - minute < t \<and> t < now) ts \<le> hits (\<lambda>t. s \<le> t) ts" by (rule hits_mono) (use s in auto)
      moreover have "hits (\<lambda>t. now \<le> t) ts = 0" using inv s by (force simp: hits_def window_inv_def filter_empty_conv)
      moreover have "e = \<lparr>aw_start = now, aw_count = 0\<rparr>" using None c(2) by (simp add: e_def)
      moreover have "\<forall>t\<in>set (ts @ [now]). t < now + minute" using inv s by (force simp: window_inv_def minute_def)
      ultimately have "window_inv k now entries' (ts @ [now]) now" using inv key by (simp add: window_inv_def)
      then show ?thesis using False s by (intro exI [of _ now]) (simp add: minute_def)
    next
      case (Some e0)
      then have "(k, e0) \<in> set kept" and e: "e = e0" using c(2) by (simp_all add: map_of_SomeD e_def)
      then have "now < aw_start e0 + minute" by (simp add: kept_def)
      then have "window_inv k now entries' (ts @ [now]) s" using inv key Some c(1) unfolding e by (auto simp: window_inv_def)
      then show ?thesis using False by (intro exI [of _ s]) simp
    qed
  qed
qed

lemma attempt_distinct: "attempt now key entries = (limited, entries') \<Longrightarrow> distinct (map fst entries) \<Longrightarrow> distinct (map fst entries')"
  by (auto simp: attempt_def Let_def distinct_filter_fst split: if_splits)

lemma attempt_length: "attempt now key entries = (limited, entries') \<Longrightarrow> length entries \<le> 4096 \<Longrightarrow> length entries' \<le> 4096"
  using length_filter_le [of "\<lambda>(k, e). now - aw_start e < minute" entries]
    length_filter_le [of "\<lambda>(k, e). k \<noteq> key" "filter (\<lambda>(k, e). now - aw_start e < minute) entries"]
  by (auto simp: attempt_def Let_def simp del: length_filter_le split: if_splits)

definition rate_inv :: "string \<Rightarrow> int \<Rightarrow> (string \<times> attemptWindow) list \<Rightarrow> int list \<Rightarrow> bool" where
  "rate_inv k now entries ts =
     (distinct (map fst entries) \<and> (\<exists>s. window_inv k now entries ts s) \<and> (\<forall>a. hits (\<lambda>t. a \<le> t \<and> t < a + minute) ts \<le> 20))"

lemma attempt_rate_inv:
  assumes "attempt now key entries = (limited, entries')" "rate_inv k T entries ts" "T \<le> now"
  shows "rate_inv k now entries' (if limited \<or> key \<noteq> k then ts else ts @ [now])"
proof -
  from assms(2) obtain s where s: "distinct (map fst entries)" "window_inv k T entries ts s" and r: "\<And>a. hits (\<lambda>t. a \<le> t \<and> t < a + minute) ts \<le> 20"
    by (auto simp: rate_inv_def)
  from attempt_window_inv [OF assms(1) s(2) assms(3) s(1)] obtain s' where
    s': "window_inv k now entries' (if limited \<or> key \<noteq> k then ts else ts @ [now]) s'" "s' = s \<or> s' = now" by blast
  have "s' \<le> now" by (rule window_inv_le [OF s'(1)])
  then have "hits (\<lambda>t. a \<le> t \<and> t < a + minute) (if limited \<or> key \<noteq> k then ts else ts @ [now]) \<le> 20" for a
    using r [of a] window_inv_rate [OF s'(1), of a] by auto
  with s' attempt_distinct [OF assms(1) s(1)] show ?thesis by (auto simp: rate_inv_def)
qed

lemma attempts_run_rate:
  "sorted (map fst rs) \<Longrightarrow> \<forall>(t, _)\<in>set rs. T \<le> t \<Longrightarrow> rate_inv k T entries ts \<Longrightarrow>
     hits (\<lambda>t. a \<le> t \<and> t < a + minute) (ts @ map fst (filter (\<lambda>(_, key). key = k) (fst (attempts_run rs entries)))) \<le> 20"
proof (induction rs arbitrary: T entries ts)
  case (Cons r rs)
  obtain now key where r: "r = (now, key)" by (cases r)
  obtain limited entries1 where att: "attempt now key entries = (limited, entries1)" by (cases "attempt now key entries")
  have "rate_inv k now entries1 (if limited \<or> key \<noteq> k then ts else ts @ [now])" by (rule attempt_rate_inv [OF att Cons.prems(3)]) (use Cons.prems(2) r in simp)
  moreover have "sorted (map fst rs)" "\<forall>(t, _)\<in>set rs. now \<le> t" using Cons.prems(1) r by auto
  ultimately show ?case using Cons.IH [of now entries1 "if limited \<or> key \<noteq> k then ts else ts @ [now]"] att r
    by (auto split: prod.splits if_splits)
qed (simp add: rate_inv_def)

lemma attempts_run_length: "length entries \<le> 4096 \<Longrightarrow> length (snd (attempts_run rs entries)) \<le> 4096"
proof (induction rs arbitrary: entries)
  case (Cons r rs)
  then show ?case using attempt_length [OF prod.collapse [symmetric] Cons.prems, of "fst r" "snd r"] by (cases r) (simp add: case_prod_beta)
qed simp

text \<open>
  C18. The sign-in attempts of one address that the table lets through are at most twenty in any minute, however
  they fall on its windows of ten, and the table never has more than 4096 addresses.
\<close>

theorem attempts_limited:
  assumes "sorted (map fst rs)"
  shows "length (filter (\<lambda>(t, key). key = k \<and> a \<le> t \<and> t < a + minute) (fst (attempts_run rs []))) \<le> 20 \<and>
    length (snd (attempts_run rs [])) \<le> 4096"
proof (rule conjI)
  define T where "T = (case rs of [] \<Rightarrow> 0 | r # _ \<Rightarrow> fst r)"
  have T: "\<forall>(t, _)\<in>set rs. T \<le> t" using assms by (cases rs) (auto simp: T_def)
  have "rate_inv k T [] []" by (auto simp: rate_inv_def window_inv_def intro: exI [of _ "T - minute"])
  from attempts_run_rate [OF assms T this, of a] have "hits (\<lambda>t. a \<le> t \<and> t < a + minute) (map fst (filter (\<lambda>(_, key). key = k) (fst (attempts_run rs [])))) \<le> 20" by simp
  moreover have "hits P (map fst (filter (\<lambda>(_, key). key = k) xs)) = length (filter (\<lambda>(t, key). key = k \<and> P t) xs)" for P xs
    by (induction xs) (auto simp: hits_def)
  ultimately show "length (filter (\<lambda>(t, key). key = k \<and> a \<le> t \<and> t < a + minute) (fst (attempts_run rs []))) \<le> 20" by simp
  show "length (snd (attempts_run rs [])) \<le> 4096" by (rule attempts_run_length) simp
qed

theorem attempts_limited_witness:
  "sorted (map fst [(0::int, ''a''), (5, ''b''), (9, ''a'')]) \<and>
   length (filter (\<lambda>(t, key). key = ''a'' \<and> 0 \<le> t \<and> t < 0 + minute) (fst (attempts_run [(0, ''a''), (5, ''b''), (9, ''a'')] []))) \<le> 20"
proof -
  have s: "sorted (map fst [(0::int, ''a''), (5, ''b''), (9, ''a'')])" by simp
  from s attempts_limited [OF s, of "''a''" 0] show ?thesis by blast
qed

subsection \<open>Primitives to try the properties with\<close>

text \<open>
  Readable stand-ins: sealing keeps the text, hashing pads it to 32 bytes, and the state is written as a list of fields.
\<close>

fun text_fields :: "string list \<Rightarrow> string" where
  "text_fields [] = []"
| "text_fields (w # ws) = concat (map (\<lambda>c. [CHR ''x'', c]) w) @ CHR ''.'' # text_fields ws"

fun fields_of :: "string \<Rightarrow> string \<Rightarrow> string list" where
  "fields_of acc [] = []"
| "fields_of acc [c] = [rev acc]"
| "fields_of acc (c # d # cs) = (if c = CHR ''.'' then rev acc # fields_of [] (d # cs) else fields_of (d # acc) cs)"

lemma fields_of_word: "fields_of acc (concat (map (\<lambda>c. [CHR ''x'', c]) w) @ CHR ''.'' # s) = (rev acc @ w) # fields_of [] s"
proof (induction w arbitrary: acc)
  case Nil
  then show ?case by (cases s) auto
qed simp

lemma fields_of_text_fields: "fields_of [] (text_fields ws) = ws"
  by (induction ws) (simp_all add: fields_of_word)

definition int_text :: "int \<Rightarrow> string" where
  "int_text i = (if i < 0 then CHR ''-'' else CHR ''+'') # replicate (nat \<bar>i\<bar>) (CHR ''1'')"

definition text_int :: "string \<Rightarrow> int" where
  "text_int s = (if hd s = CHR ''-'' then - int (length (tl s)) else int (length (tl s)))"

lemma text_int_int_text: "text_int (int_text i) = i"
  by (simp add: text_int_def int_text_def)

definition demo_json :: "totpState \<Rightarrow> string" where
  "demo_json s = text_fields ([to_Secret s, if to_Active s then ''t'' else ''f'', int_text (to_LastStep s), int_text (to_PendingUntil s)] @ to_Recovery s)"

definition demo_read :: "string \<Rightarrow> totpState option" where
  "demo_read t =
     (case fields_of [] t of
        a # b # c # d # r \<Rightarrow> Some \<lparr>to_Secret = a, to_Active = (b = ''t''), to_LastStep = text_int c, to_PendingUntil = text_int d, to_Recovery = r\<rparr>
      | _ \<Rightarrow> None)"

definition demo_auth_prims :: auth_prims where
  "demo_auth_prims = \<lparr>argon2 = (\<lambda>password salt. take 32 (password @ replicate 32 (CHR ''p''))),
     hmac_sha1 = (\<lambda>k m. drop 4 m @ replicate 16 (CHR 0x00)), au_sha256 = (\<lambda>s. take 32 (s @ replicate 32 (CHR ''s''))),
     au_seal = (\<lambda>k n p a. p), au_open = (\<lambda>k n c a. Some c), json_totp = demo_json, read_totp = demo_read\<rparr>"

lemma demo_laws: "totp_laws demo_auth_prims"
proof -
  have "demo_read (demo_json s) = Some s" for s
    by (simp add: demo_read_def demo_json_def fields_of_text_fields text_int_int_text del: text_fields.simps)
  then show ?thesis by (simp add: totp_laws_def demo_auth_prims_def)
qed

definition demo_state :: totpState where
  "demo_state = \<lparr>to_Secret = ''secret'', to_Active = True, to_LastStep = 0, to_PendingUntil = 0, to_Recovery = [''0a'']\<rparr>"

definition demo_auth_db :: auth_db where
  "demo_auth_db = \<lparr>accounts = [\<lparr>us_ID = 7, us_Email = ''ada@x'', us_DisplayName = ''Ada'', us_PasswordHash = HashPassword demo_auth_prims (replicate 16 (CHR ''s'')) ''correct horse'',
       us_TotpSecret = seal_totp demo_auth_prims [] (replicate 12 (CHR ''n'')) 7 demo_state, us_IsActive = True, us_Theme = ''dark'', us_ReducedMotion = None\<rparr>],
     memberships = [\<lparr>mb_WorkspaceID = 1, mb_UserID = 7, mb_Role = ''admin''\<rparr>], sessions = []\<rparr>"

definition demo_sign_in :: "char \<Rightarrow> string \<Rightarrow> int \<Rightarrow> auth_db \<Rightarrow> auth_error + string \<times> auth_db" where
  "demo_sign_in c code now db = checkSecondFactor demo_auth_prims [] (replicate 12 (CHR ''n'')) (replicate 32 c) 7 code now db"

definition demo_auth_db1 :: auth_db where
  "demo_auth_db1 = snd (projr (demo_sign_in (CHR ''r'') ''000002'' 60 demo_auth_db))"

lemma not_isl: "\<not> isl r \<Longrightarrow> r = Inr (fst (projr r), snd (projr r))"
  by (cases r) auto

theorem second_factor_single_use_witness:
  "\<exists>x y s' db2. db2 = fold (run_op demo_auth_prims []) [OpLogout ''x'', OpDisable 8 [] [] 61] demo_auth_db1 \<and> \<not> isl (demo_sign_in (CHR ''q'') ''000003'' 62 db2) \<and>
     credential demo_auth_prims demo_state ''000002'' 60 = Some x \<and> factor demo_auth_prims [] 7 db2 = Inr s' \<and> credential demo_auth_prims s' ''000003'' 62 = Some y \<and> x \<noteq> y"
proof -
  define db2 where "db2 = fold (run_op demo_auth_prims []) [OpLogout ''x'', OpDisable 8 [] [] 61] demo_auth_db1"
  have f: "factor demo_auth_prims [] 7 demo_auth_db = Inr demo_state" by code_simp
  have s: "state_ok demo_state" "to_Active demo_state" by (simp_all add: state_ok_def demo_state_def hex_text_def)
  have "\<not> isl (demo_sign_in (CHR ''r'') ''000002'' 60 demo_auth_db)" by code_simp
  then obtain t1 where l1: "demo_sign_in (CHR ''r'') ''000002'' 60 demo_auth_db = Inr (t1, demo_auth_db1)" using not_isl unfolding demo_auth_db1_def by blast
  have i2: "\<not> isl (demo_sign_in (CHR ''q'') ''000003'' 62 db2)" unfolding db2_def by code_simp
  then obtain t2 db3 where l2: "demo_sign_in (CHR ''q'') ''000003'' 62 db2 = Inr (t2, db3)" using not_isl by blast
  have "list_all (op_ok 7) [OpLogout ''x'', OpDisable 8 [] [] 61]" by simp
  from second_factor_single_use [OF demo_laws f s l1 [unfolded demo_sign_in_def] _ _ this db2_def l2 [unfolded demo_sign_in_def]] i2
  show ?thesis unfolding db2_def [symmetric] by (simp add: time_ok_def)
qed

theorem Login_opens_session_witness:
  "\<exists>token db'. Login demo_auth_prims [] (replicate 12 (CHR ''n'')) (replicate 32 (CHR ''r'')) ''ADA@x'' ''correct horse'' ''000002'' 60 demo_auth_db = Inr (token, db') \<and>
     Session demo_auth_prims token 43260 db' = Inl ErrCredentials"
proof -
  have "\<not> isl (Login demo_auth_prims [] (replicate 12 (CHR ''n'')) (replicate 32 (CHR ''r'')) ''ADA@x'' ''correct horse'' ''000002'' 60 demo_auth_db)" by code_simp
  then obtain token db' where l: "Login demo_auth_prims [] (replicate 12 (CHR ''n'')) (replicate 32 (CHR ''r'')) ''ADA@x'' ''correct horse'' ''000002'' 60 demo_auth_db = Inr (token, db')"
    using not_isl by blast
  have "distinct (map us_ID (accounts demo_auth_db))" by (simp add: demo_auth_db_def)
  from Login_opens_session [OF l this length_replicate] obtain a m where
    "\<forall>t. Session demo_auth_prims token t db' = (if t < 60 + 43200 then Inr (identity_of a m) else Inl ErrCredentials)" by blast
  from spec [OF this, of 43260] have "Session demo_auth_prims token 43260 db' = Inl ErrCredentials" by simp
  with l show ?thesis by blast
qed

end
