(* ===== verification/Sx_Workflow.thy ===== *)
theory Sx_Workflow
  imports Sx_Request Sx_Projection
begin

text \<open>
  The configuration of a project (\<open>src/internal/api/config.go\<close>) and the editor of its workflow
  (\<open>src/internal/api/workflow.go\<close>).  A version of the configuration lists statuses, types with their initial
  status, and the transitions with the fields they require; an edit adds a version and never changes one.
  A Go map is a list of its entries in the order of the iteration.
\<close>

subsection \<open>The tables\<close>

record ConfigStatus =
  cs_ProjectID :: uuid
  cs_Version :: int
  cs_StatusID :: uuid
  cs_DisplayOrder :: int

record ConfigType =
  ct_ProjectID :: uuid
  ct_Version :: int
  ct_ItemTypeID :: uuid
  ct_InitialStatusID :: uuid

record ConfigTransition =
  cr_ProjectID :: uuid
  cr_Version :: int
  cr_FromStatusID :: uuid
  cr_ToStatusID :: uuid
  cr_Requires :: "string list"

record FieldDef =
  fd_ProjectID :: uuid
  fd_Key :: string
  fd_Name :: string
  fd_DataType :: string
  fd_Options :: "string list"

record config_db =
  cd_store :: database
  config_statuses :: "ConfigStatus list"
  config_types :: "ConfigType list"
  config_transitions :: "ConfigTransition list"
  field_defs :: "FieldDef list"

subsection \<open>The resolved configuration\<close>

record workflowStatus =
  wf_Key :: string
  wf_Name :: string
  wf_Category :: string

record workflowArc =
  ar_To :: string
  ar_Requires :: "string list"

record workflowDraft =
  wd_Statuses :: "workflowStatus list"
  wd_Transitions :: "(string \<times> workflowArc list) list"
  wd_Initial :: "(string \<times> string) list"

record resolved_type =
  rt_Key :: string
  rt_Name :: string
  rt_Level :: int
  rt_IsIdea :: bool
  rt_Initial :: string

record workflowConfig =
  wc_Version :: int
  wc_Statuses :: "workflowStatus list"
  wc_Types :: "resolved_type list"
  wc_Transitions :: "(string \<times> workflowArc list) list"
  wc_Fields :: "FieldDef list"

definition join_status :: "config_db \<Rightarrow> uuid \<Rightarrow> Status list" where
  "join_status db u = filter (\<lambda>s. st_ID s = u) (statuses (cd_store db))"

definition join_type :: "config_db \<Rightarrow> uuid \<Rightarrow> ItemType list" where
  "join_type db u = filter (\<lambda>t. ty_ID t = u) (item_types (cd_store db))"

definition status_of :: "Status \<Rightarrow> workflowStatus" where
  "status_of s = \<lparr>wf_Key = st_Key s, wf_Name = st_Name s, wf_Category = st_Category s\<rparr>"

definition config_status_rows :: "config_db \<Rightarrow> uuid \<Rightarrow> int \<Rightarrow> (ConfigStatus \<times> Status) list" where
  "config_status_rows db p v =
     concat (map (\<lambda>cs. map (\<lambda>s. (cs, s)) (join_status db (cs_StatusID cs)))
       (filter (\<lambda>cs. cs_ProjectID cs = p \<and> cs_Version cs = v) (config_statuses db)))"

definition resolved_statuses :: "config_db \<Rightarrow> uuid \<Rightarrow> int \<Rightarrow> workflowStatus list" where
  "resolved_statuses db p v = map (\<lambda>(cs, s). status_of s) (sort_key (\<lambda>(cs, s). cs_DisplayOrder cs) (config_status_rows db p v))"

definition resolved_types :: "config_db \<Rightarrow> uuid \<Rightarrow> int \<Rightarrow> resolved_type list" where
  "resolved_types db p v = sort_key (\<lambda>t. (- rt_Level t, rt_Key t))
     (concat (map (\<lambda>ct. concat (map (\<lambda>t. map (\<lambda>s.
         \<lparr>rt_Key = ty_Key t, rt_Name = ty_Name t, rt_Level = ty_Level t, rt_IsIdea = ty_IsIdea t, rt_Initial = st_Key s\<rparr>)
         (join_status db (ct_InitialStatusID ct))) (join_type db (ct_ItemTypeID ct))))
       (filter (\<lambda>ct. ct_ProjectID ct = p \<and> ct_Version ct = v) (config_types db))))"

definition transition_rows :: "config_db \<Rightarrow> uuid \<Rightarrow> int \<Rightarrow> (string \<times> workflowArc) list" where
  "transition_rows db p v =
     concat (map (\<lambda>cr. concat (map (\<lambda>f. map (\<lambda>s. (st_Key f, \<lparr>ar_To = st_Key s, ar_Requires = cr_Requires cr\<rparr>))
         (join_status db (cr_ToStatusID cr))) (join_status db (cr_FromStatusID cr))))
       (filter (\<lambda>cr. cr_ProjectID cr = p \<and> cr_Version cr = v) (config_transitions db)))"

definition resolved_transitions :: "config_db \<Rightarrow> uuid \<Rightarrow> int \<Rightarrow> (string \<times> workflowArc list) list" where
  "resolved_transitions db p v =
     (let rows = transition_rows db p v in
      map (\<lambda>from. (from, sort_key ar_To (map snd (filter (\<lambda>(f, a). f = from) rows)))) (remdups (map fst rows)))"

definition resolvedConfigSQL :: "uuid \<Rightarrow> string \<Rightarrow> config_db \<Rightarrow> sql_error + workflowConfig" where
  "resolvedConfigSQL ws prefix_key db =
     (case find (\<lambda>p. pj_WorkspaceID p = ws \<and> pj_KeyPrefix p = prefix_key) (projects (cd_store db)) of
        None \<Rightarrow> Inl NoRows
      | Some p \<Rightarrow>
          (case sql_max (map (\<lambda>c. Some (pc_Version c)) (filter (\<lambda>c. pc_ProjectID c = pj_ID p) (configs (cd_store db)))) of
             None \<Rightarrow> Inl NoRows
           | Some v \<Rightarrow> Inr \<lparr>wc_Version = v, wc_Statuses = resolved_statuses db (pj_ID p) v, wc_Types = resolved_types db (pj_ID p) v,
               wc_Transitions = resolved_transitions db (pj_ID p) v,
               wc_Fields = sort_key fd_Key (filter (\<lambda>f. fd_ProjectID f = pj_ID p) (field_defs db))\<rparr>))"

text \<open>\<open>etagMatches\<close> and \<open>projectConfig\<close>: \<open>None\<close> is the answer 304; \<open>render\<close> and \<open>hash\<close> give the body and its digest in hexadecimal.\<close>

definition TrimPrefix :: "string \<Rightarrow> string \<Rightarrow> string" where
  "TrimPrefix s pre = (if take (length pre) s = pre then drop (length pre) s else s)"

definition etagMatches :: "string \<Rightarrow> string \<Rightarrow> bool" where
  "etagMatches header etag =
     list_ex (\<lambda>w. let v = TrimSpace w in v = ''*'' \<or> TrimPrefix v ''W/'' = TrimPrefix etag ''W/'') (split_commas header)"

definition projectConfig :: "(workflowConfig \<Rightarrow> string) \<Rightarrow> (string \<Rightarrow> string) \<Rightarrow> request \<Rightarrow> string \<Rightarrow> config_db \<Rightarrow> Problem + string \<times> string option" where
  "projectConfig render hash r ifNoneMatch db =
     rbind (rejectFields r) (\<lambda>_.
     case resolvedConfigSQL (rq_WorkspaceID r) (rq_Key r) db of
       Inl e \<Rightarrow> Inl (databaseProblem e)
     | Inr cfg \<Rightarrow>
         let body = render cfg; etag = ''W/'' @ CHR 0x22 # hash body @ [CHR 0x22] in
         Inr (etag, if etagMatches ifNoneMatch etag then None else Some (body @ [CHR 0x0A])))"

subsection \<open>Checking a draft\<close>

definition expectedVersion :: "string \<Rightarrow> Problem + int" where
  "expectedVersion header =
     (if header = [] then Inl PreconditionRequired
      else if length header < 3 \<or> hd header \<noteq> CHR 0x22 \<or> last header \<noteq> CHR 0x22 then Inl (requestProblem ''If-Match must contain one quoted item version.'')
      else case ParseInt_dec (butlast (tl header)) of
          None \<Rightarrow> Inl (requestProblem ''If-Match must contain one positive quoted item version.'')
        | Some n \<Rightarrow> if n < 1 \<or> n \<ge> 2 ^ 31 then Inl (requestProblem ''If-Match must contain one positive quoted item version.'') else Inr n)"

definition en_dash :: string where
  "en_dash = [CHR 0xE2, CHR 0x80, CHR 0x93]"

text \<open>The pattern \<open>^[a-z][a-z0-9_-]{0,39}$\<close>\<close>

definition status_key_ok :: "string \<Rightarrow> bool" where
  "status_key_ok s =
     (case s of [] \<Rightarrow> False
      | c # cs \<Rightarrow> CHR ''a'' \<le> c \<and> c \<le> CHR ''z'' \<and> length cs \<le> 39 \<and>
          list_all (\<lambda>x. CHR ''a'' \<le> x \<and> x \<le> CHR ''z'' \<or> CHR ''0'' \<le> x \<and> x \<le> CHR ''9'' \<or> x = CHR ''_'' \<or> x = CHR ''-'') cs)"

definition status_at :: "string \<Rightarrow> workflowStatus list \<Rightarrow> workflowStatus option" where
  "status_at k ss = find (\<lambda>s. wf_Key s = k) ss"

text \<open>One status; the state is the statuses and the names seen, \<open>lower\<close> is \<open>strings.ToLower\<close>.\<close>

definition check_status :: "(string \<Rightarrow> string) \<Rightarrow> workflowStatus list \<times> string list \<Rightarrow> workflowStatus \<Rightarrow> Problem + workflowStatus list \<times> string list" where
  "check_status lower seen status =
     (case seen of (keys, names) \<Rightarrow>
      if \<not> status_key_ok (wf_Key status) \<or> TrimSpace (wf_Name status) = [] \<or> length (runes (wf_Name status)) > 80
      then Inl (requestProblem (''Statuses need a unique lowercase key and a name of 1'' @ en_dash @ ''80 characters.''))
      else if status_at (wf_Key status) keys \<noteq> None then Inl (requestProblem ''Status keys must be unique.'')
      else let name = lower (TrimSpace (wf_Name status)) in
      if name \<in> set names then Inl (requestProblem ''Status names must be unique.'')
      else if wf_Category status \<notin> set [''open'', ''active'', ''done'', ''cancelled'']
      then Inl (requestProblem ''Choose an open, active, done or cancelled category.'')
      else Inr (keys @ [status], names @ [name]))"

definition check_statuses :: "(string \<Rightarrow> string) \<Rightarrow> workflowStatus list \<Rightarrow> Problem + workflowStatus list" where
  "check_statuses lower ss =
     (if length ss < 1 \<or> length ss > 50 then Inl (requestProblem (''Provide 1'' @ en_dash @ ''50 statuses.''))
      else rbind (rfold (check_status lower) ([], []) ss) (\<lambda>(keys, names). Inr keys))"

definition check_retained :: "workflowStatus list \<Rightarrow> unit \<Rightarrow> workflowStatus \<Rightarrow> Problem + unit" where
  "check_retained keys u old =
     guard_or (status_at (wf_Key old) keys = Some old)
       (requestProblem ''Existing status keys, names and categories are retained to preserve item history. Add a new status instead.'')"

definition known_fields :: "FieldDef list \<Rightarrow> string list" where
  "known_fields fs = [''assignee'', ''points'', ''start_date'', ''due_date'', ''title'', ''body''] @ map (\<lambda>f. ''fields.'' @ fd_Key f) fs"

definition check_requirement :: "string list \<Rightarrow> string list \<Rightarrow> string \<Rightarrow> Problem + string list" where
  "check_requirement known requirements f =
     (if f \<notin> set known \<or> f \<in> set requirements then Inl (requestProblem ''Transition requirements must be unique known item fields.'')
      else Inr (f # requirements))"

text \<open>One arc; the state is the destinations seen and the number of arcs.\<close>

definition check_arc :: "workflowStatus list \<Rightarrow> string list \<Rightarrow> string \<Rightarrow> string list \<times> int \<Rightarrow> workflowArc \<Rightarrow> Problem + string list \<times> int" where
  "check_arc keys known from st arc =
     (case st of (seen, arcs) \<Rightarrow>
      if status_at (ar_To arc) keys = None \<or> ar_To arc = from \<or> ar_To arc \<in> set seen
      then Inl (requestProblem ''Transitions need distinct configured start and destination statuses, without duplicates.'')
      else rbind (rfold (check_requirement known) [] (ar_Requires arc)) (\<lambda>_. Inr (ar_To arc # seen, arcs + 1)))"

definition check_from :: "workflowStatus list \<Rightarrow> string list \<Rightarrow> int \<Rightarrow> string \<times> workflowArc list \<Rightarrow> Problem + int" where
  "check_from keys known arcs entry =
     (case entry of (from, targets) \<Rightarrow>
      if status_at from keys = None then Inl (requestProblem ''Every transition must start at a configured status.'')
      else rbind (rfold (check_arc keys known from) ([], arcs) targets) (\<lambda>(seen, arcs'). Inr arcs'))"

definition check_transitions :: "workflowStatus list \<Rightarrow> string list \<Rightarrow> (string \<times> workflowArc list) list \<Rightarrow> Problem + unit" where
  "check_transitions keys known ts =
     rbind (rfold (check_from keys known) 0 ts) (\<lambda>arcs.
     guard_or (arcs \<le> 200) (requestProblem ''A workflow supports at most 200 transitions.''))"

definition initial_of :: "(string \<times> string) list \<Rightarrow> string \<Rightarrow> string" where
  "initial_of initial k = (case map_of initial k of None \<Rightarrow> [] | Some s \<Rightarrow> s)"

definition check_initial :: "workflowStatus list \<Rightarrow> (string \<times> string) list \<Rightarrow> resolved_type list \<Rightarrow> Problem + unit" where
  "check_initial keys initial types =
     (if length initial \<noteq> length types then Inl (requestProblem ''Choose one initial status for every item type.'')
      else guard_or (list_all (\<lambda>t. status_at (initial_of initial (rt_Key t)) keys \<noteq> None) types)
        (requestProblem ''Choose a configured initial status for every item type.''))"

subsection \<open>Saving a draft\<close>

definition InsertConfigStatus :: "ConfigStatus \<Rightarrow> config_db \<Rightarrow> sql_error + config_db" where
  "InsertConfigStatus row db =
     rbind (guard_or ((cs_ProjectID row, cs_Version row, cs_StatusID row) \<notin> (\<lambda>x. (cs_ProjectID x, cs_Version x, cs_StatusID x)) ` set (config_statuses db))
       (UniqueViolation ''config_status'')) (\<lambda>_.
     rbind (guard_or (cs_StatusID row \<in> st_ID ` set (statuses (cd_store db)) \<and>
         (cs_ProjectID row, cs_Version row) \<in> (\<lambda>x. (pc_ProjectID x, pc_Version x)) ` set (configs (cd_store db)))
       (ForeignKeyViolation ''config_status'')) (\<lambda>_.
     Inr (db\<lparr>config_statuses := config_statuses db @ [row]\<rparr>)))"

definition InsertConfigType :: "ConfigType \<Rightarrow> config_db \<Rightarrow> sql_error + config_db" where
  "InsertConfigType row db =
     rbind (guard_or ((ct_ProjectID row, ct_Version row, ct_ItemTypeID row) \<notin> (\<lambda>x. (ct_ProjectID x, ct_Version x, ct_ItemTypeID x)) ` set (config_types db))
       (UniqueViolation ''config_type'')) (\<lambda>_.
     rbind (guard_or (ct_ItemTypeID row \<in> ty_ID ` set (item_types (cd_store db)) \<and> ct_InitialStatusID row \<in> st_ID ` set (statuses (cd_store db)) \<and>
         (ct_ProjectID row, ct_Version row) \<in> (\<lambda>x. (pc_ProjectID x, pc_Version x)) ` set (configs (cd_store db)))
       (ForeignKeyViolation ''config_type'')) (\<lambda>_.
     Inr (db\<lparr>config_types := config_types db @ [row]\<rparr>)))"

definition InsertConfigTransition :: "ConfigTransition \<Rightarrow> config_db \<Rightarrow> sql_error + config_db" where
  "InsertConfigTransition row db =
     rbind (guard_or ((cr_ProjectID row, cr_Version row, cr_FromStatusID row, cr_ToStatusID row) \<notin>
         (\<lambda>x. (cr_ProjectID x, cr_Version x, cr_FromStatusID x, cr_ToStatusID x)) ` set (config_transitions db))
       (UniqueViolation ''config_transition'')) (\<lambda>_.
     rbind (guard_or (cr_FromStatusID row \<in> st_ID ` set (statuses (cd_store db)) \<and> cr_ToStatusID row \<in> st_ID ` set (statuses (cd_store db)) \<and>
         (cr_ProjectID row, cr_Version row) \<in> (\<lambda>x. (pc_ProjectID x, pc_Version x)) ` set (configs (cd_store db)))
       (ForeignKeyViolation ''config_transition'')) (\<lambda>_.
     Inr (db\<lparr>config_transitions := config_transitions db @ [row]\<rparr>)))"

text \<open>The map \<open>ids\<close> from keys to statuses; a status without one is inserted with the identifier of its index.\<close>

definition id_of :: "(string \<times> uuid) list \<Rightarrow> string \<Rightarrow> uuid" where
  "id_of ids k = (case map_of ids k of None \<Rightarrow> 0 | Some u \<Rightarrow> u)"

definition status_ids :: "config_db \<Rightarrow> uuid \<Rightarrow> int \<Rightarrow> (string \<times> uuid) list" where
  "status_ids db p v = rev (map (\<lambda>(cs, s). (st_Key s, st_ID s)) (config_status_rows db p v))"

definition add_status :: "(nat \<Rightarrow> uuid) \<Rightarrow> uuid \<Rightarrow> nat \<Rightarrow> workflowStatus \<Rightarrow> (string \<times> uuid) list \<times> config_db \<Rightarrow> sql_error + (string \<times> uuid) list \<times> config_db" where
  "add_status fresh p index status st =
     (case st of (ids, db) \<Rightarrow>
      if map_of ids (wf_Key status) = None then
        rbind (guard_or (CHR 0x00 \<notin> set (wf_Name status)) OutOfRange) (\<lambda>_.
        rbind (InsertStatus (fresh index) p (wf_Key status) (wf_Name status) (wf_Category status) (cd_store db)) (\<lambda>(s, store).
        Inr ((wf_Key status, st_ID s) # ids, db\<lparr>cd_store := store\<rparr>)))
      else Inr (ids, db))"

definition save_status :: "(nat \<Rightarrow> uuid) \<Rightarrow> uuid \<Rightarrow> int \<Rightarrow> (string \<times> uuid) list \<times> config_db \<Rightarrow> nat \<times> workflowStatus \<Rightarrow> sql_error + (string \<times> uuid) list \<times> config_db" where
  "save_status fresh p v st entry =
     (case entry of (index, status) \<Rightarrow>
      rbind (add_status fresh p index status st) (\<lambda>(ids, db).
      rbind (InsertConfigStatus \<lparr>cs_ProjectID = p, cs_Version = v, cs_StatusID = id_of ids (wf_Key status), cs_DisplayOrder = int index\<rparr> db) (\<lambda>db'.
      Inr (ids, db'))))"

text \<open>The types of the old version with the key of the kind, in the new version with the chosen initial status.\<close>

definition save_type :: "(string \<times> uuid) list \<Rightarrow> (string \<times> string) list \<Rightarrow> uuid \<Rightarrow> int \<Rightarrow> int \<Rightarrow> config_db \<Rightarrow> resolved_type \<Rightarrow> sql_error + config_db" where
  "save_type ids initial p old new db kind =
     rfold (\<lambda>d ct. InsertConfigType (ct\<lparr>ct_Version := new, ct_InitialStatusID := id_of ids (initial_of initial (rt_Key kind))\<rparr>) d) db
       (concat (map (\<lambda>ct. map (\<lambda>t. ct) (filter (\<lambda>t. ty_Key t = rt_Key kind) (join_type db (ct_ItemTypeID ct))))
         (filter (\<lambda>ct. ct_ProjectID ct = p \<and> ct_Version ct = old) (config_types db))))"

definition save_arcs :: "(string \<times> uuid) list \<Rightarrow> uuid \<Rightarrow> int \<Rightarrow> config_db \<Rightarrow> string \<times> workflowArc list \<Rightarrow> sql_error + config_db" where
  "save_arcs ids p v db entry =
     (case entry of (from, targets) \<Rightarrow>
      rfold (\<lambda>d arc. InsertConfigTransition \<lparr>cr_ProjectID = p, cr_Version = v, cr_FromStatusID = id_of ids from,
        cr_ToStatusID = id_of ids (ar_To arc), cr_Requires = ar_Requires arc\<rparr> d) db targets)"

text \<open>The addition of \<open>int32\<close>\<close>

definition int32_succ :: "int \<Rightarrow> int" where
  "int32_succ v = (v + 1 + 2 ^ 31) mod 2 ^ 32 - 2 ^ 31"

definition save_draft :: "int \<Rightarrow> (nat \<Rightarrow> uuid) \<Rightarrow> uuid \<Rightarrow> uuid \<Rightarrow> workflowConfig \<Rightarrow> workflowDraft \<Rightarrow> config_db \<Rightarrow> sql_error + config_db" where
  "save_draft now fresh who p current draft db =
     (let new = int32_succ (wc_Version current); ids0 = status_ids db p (wc_Version current) in
      rbind (InsertProjectConfig now p new None (Some who) (cd_store db)) (\<lambda>(_, store).
      rbind (rfold (save_status fresh p new) (ids0, db\<lparr>cd_store := store\<rparr>) (List.enumerate 0 (wd_Statuses draft))) (\<lambda>(ids, db1).
      rbind (rfold (save_type ids (wd_Initial draft) p (wc_Version current) new) db1 (wc_Types current)) (\<lambda>db2.
      rfold (save_arcs ids p new) db2 (wd_Transitions draft)))))"

text \<open>A refusal, with the current configuration where the draft was made from another version.\<close>

type_synonym refusal = "Problem \<times> workflowConfig option"

definition refuse :: "Problem + 'a \<Rightarrow> refusal + 'a" where
  "refuse res = (case res of Inl p \<Rightarrow> Inl (p, None) | Inr x \<Rightarrow> Inr x)"

definition sql_problem :: "sql_error + 'a \<Rightarrow> refusal + 'a" where
  "sql_problem res = (case res of Inl e \<Rightarrow> Inl (databaseProblem e, None) | Inr x \<Rightarrow> Inr x)"

definition check_draft :: "workflowStatus list \<Rightarrow> workflowConfig \<Rightarrow> workflowDraft \<Rightarrow> Problem + unit" where
  "check_draft keys current draft =
     rbind (rfold (check_retained keys) () (wc_Statuses current)) (\<lambda>_.
     rbind (check_transitions keys (known_fields (wc_Fields current)) (wd_Transitions draft)) (\<lambda>_.
     check_initial keys (wd_Initial draft) (wc_Types current)))"

text \<open>The result is the answer and the tables after the commit; a refused edit rolls back.\<close>

definition updateWorkflow ::
  "(string \<Rightarrow> string) \<Rightarrow> int \<Rightarrow> (nat \<Rightarrow> uuid) \<Rightarrow> request \<Rightarrow> string \<Rightarrow> Problem + workflowDraft \<Rightarrow> config_db \<Rightarrow> refusal + workflowConfig \<times> config_db" where
  "updateWorkflow lower now fresh r ifMatch decoded db =
     rbind (refuse (rejectFields r)) (\<lambda>_.
     rbind (refuse (guard_or (rq_Role r = ''admin'') Forbidden)) (\<lambda>_.
     rbind (refuse (expectedVersion ifMatch)) (\<lambda>expected.
     rbind (refuse decoded) (\<lambda>draft.
     rbind (refuse (check_statuses lower (wd_Statuses draft))) (\<lambda>keys.
     rbind (sql_problem (some_or (find (\<lambda>p. pj_WorkspaceID p = rq_WorkspaceID r \<and> pj_KeyPrefix p = rq_Key r \<and> pj_ArchivedAt p = None) (projects (cd_store db))) NoRows)) (\<lambda>p.
     rbind (sql_problem (resolvedConfigSQL (rq_WorkspaceID r) (rq_Key r) db)) (\<lambda>current.
     if wc_Version current \<noteq> expected
     then Inl (problem 409 ''Conflict'' ''This workflow changed. Compare the latest configuration before applying your draft.'', Some current)
     else rbind (refuse (check_draft keys current draft)) (\<lambda>_.
     rbind (sql_problem (save_draft now fresh (rq_UserID r) (pj_ID p) current draft db)) (\<lambda>db'.
     rbind (sql_problem (resolvedConfigSQL (rq_WorkspaceID r) (rq_Key r) db')) (\<lambda>final. Inr (final, db')))))))))))"

subsection \<open>Lists and loops\<close>

lemma sort_key_map: "sort_key k (map f xs) = map f (sort_key (\<lambda>x. k (f x)) xs)"
proof (induction xs)
  case (Cons x xs)
  have "insort_key k (f x) (map f ys) = map f (insort_key (\<lambda>x. k (f x)) x ys)" for ys by (induction ys) auto
  with Cons show ?case by simp
qed simp

lemma concat_map_single: "(\<And>x. x \<in> set xs \<Longrightarrow> g x = [h x]) \<Longrightarrow> concat (map g xs) = map h xs"
  by (induction xs) auto

lemma concat_map_filter: "(\<And>x. x \<in> set xs \<Longrightarrow> g x = (if P x then [x] else [])) \<Longrightarrow> concat (map g xs) = filter P xs"
  by (induction xs) auto

lemma sql_max_bound: "sql_max (map (\<lambda>c. Some (f c)) xs) = Some v \<Longrightarrow> v \<in> f ` set xs \<and> (\<forall>c\<in>set xs. f c \<le> v)"
proof (induction xs arbitrary: v)
  case (Cons x xs)
  show ?case
  proof (cases "sql_max (map (\<lambda>c. Some (f c)) xs)")
    case None
    then have "xs = []" by (cases xs) auto
    with Cons.prems show ?thesis by simp
  next
    case (Some w)
    with Cons.IH [OF this] Cons.prems show ?thesis by (force simp: max_def)
  qed
qed simp

lemma sql_max_snoc: "(\<forall>c\<in>set xs. f c \<le> n) \<Longrightarrow> sql_max (map (\<lambda>c. Some (f c)) xs @ [Some n]) = Some n"
  by (induction xs) (auto simp: max_def)

subsection \<open>What the checks establish\<close>

lemma status_at_Some: "status_at k ss = Some s \<Longrightarrow> s \<in> set ss \<and> wf_Key s = k"
  unfolding status_at_def by (induction ss) (auto split: if_splits)

lemma status_at_iff: "status_at k ss \<noteq> None \<longleftrightarrow> k \<in> wf_Key ` set ss"
  unfolding status_at_def by (auto simp: find_None_iff)

lemma check_status_Inr:
  "check_status lower (ks, ns) x = Inr (ks', ns') \<Longrightarrow> wf_Key x \<notin> wf_Key ` set ks \<and> ks' = ks @ [x]"
  by (auto simp: check_status_def Let_def status_at_iff [symmetric] split: if_splits)

lemma check_requirement_Inr: "check_requirement known rs f = Inr rs' \<longleftrightarrow> f \<in> set known \<and> f \<notin> set rs \<and> rs' = f # rs"
  by (auto simp: check_requirement_def)

lemma check_arc_Inr:
  "check_arc keys known from (seen, n) a = Inr st \<longleftrightarrow> ar_To a \<in> wf_Key ` set keys \<and> ar_To a \<noteq> from \<and> ar_To a \<notin> set seen \<and>
     (\<exists>rs. rfold (check_requirement known) [] (ar_Requires a) = Inr rs) \<and> st = (ar_To a # seen, n + 1)"
  by (auto simp: check_arc_def result_simps status_at_iff [symmetric])

lemma check_from_Inr:
  "check_from keys known n (from, as) = Inr n' \<longleftrightarrow> from \<in> wf_Key ` set keys \<and> (\<exists>seen. rfold (check_arc keys known from) ([], n) as = Inr (seen, n'))"
  by (auto simp: check_from_def result_simps status_at_iff [symmetric])

lemma check_statuses_Inr:
  assumes "check_statuses lower ss = Inr keys"
  shows "keys = ss" "distinct (map wf_Key ss)" "ss \<noteq> []"
proof -
  have step: "rfold (check_status lower) (ks, ns) xs = Inr (ks', ns') \<Longrightarrow> distinct (map wf_Key ks) \<Longrightarrow> ks' = ks @ xs \<and> distinct (map wf_Key (ks @ xs))" for ks ns xs ks' ns'
  proof (induction xs arbitrary: ks ns)
    case (Cons x xs)
    from Cons.prems(1) obtain ns1 where x: "wf_Key x \<notin> wf_Key ` set ks" "rfold (check_status lower) (ks @ [x], ns1) xs = Inr (ks', ns')"
      by (auto simp: result_simps dest: check_status_Inr)
    from Cons.IH [OF x(2)] Cons.prems(2) x(1) show ?case by simp
  qed simp
  from assms obtain ns where "rfold (check_status lower) ([], []) ss = Inr (keys, ns)" and ne: "ss \<noteq> []"
    by (auto simp: check_statuses_def result_simps split: if_splits)
  from step [OF this(1)] ne show "keys = ss" "distinct (map wf_Key ss)" "ss \<noteq> []" by auto
qed

lemma check_retained_Inr: "rfold (check_retained keys) u olds = Inr u' \<Longrightarrow> set olds \<subseteq> set keys"
  by (induction olds arbitrary: u) (auto simp: check_retained_def result_simps dest: status_at_Some)

lemma check_requirements_Inr:
  "rfold (check_requirement known) rs fs = Inr rs' \<Longrightarrow> set fs \<subseteq> set known \<and> distinct fs \<and> set fs \<inter> set rs = {}"
proof (induction fs arbitrary: rs)
  case (Cons f fs)
  then have "f \<in> set known" "f \<notin> set rs" "rfold (check_requirement known) (f # rs) fs = Inr rs'" by (auto simp: check_requirement_Inr result_simps)
  with Cons.IH [OF this(3)] show ?case by auto
qed simp

definition arc_ok :: "workflowStatus list \<Rightarrow> string list \<Rightarrow> string \<Rightarrow> workflowArc \<Rightarrow> bool" where
  "arc_ok keys known from a = (from \<in> wf_Key ` set keys \<and> ar_To a \<in> wf_Key ` set keys \<and> ar_To a \<noteq> from \<and> set (ar_Requires a) \<subseteq> set known \<and> distinct (ar_Requires a))"

lemma check_arcs_Inr:
  "rfold (check_arc keys known from) (seen, n) as = Inr (seen', n') \<Longrightarrow> from \<in> wf_Key ` set keys \<Longrightarrow>
     (\<forall>a\<in>set as. arc_ok keys known from a) \<and> distinct (map ar_To as) \<and> ar_To ` set as \<inter> set seen = {} \<and> n' = n + int (length as)"
proof (induction as arbitrary: seen n)
  case (Cons a as)
  from Cons.prems(1) have a: "ar_To a \<in> wf_Key ` set keys" "ar_To a \<noteq> from" "ar_To a \<notin> set seen"
    and q: "\<exists>rs. rfold (check_requirement known) [] (ar_Requires a) = Inr rs" and r: "rfold (check_arc keys known from) (ar_To a # seen, n + 1) as = Inr (seen', n')"
    by (auto simp: check_arc_Inr result_simps)
  from q have "arc_ok keys known from a" using a Cons.prems(2) by (auto simp: arc_ok_def dest!: check_requirements_Inr)
  with Cons.IH [OF r Cons.prems(2)] a show ?case by auto
qed simp

definition arcs :: "(string \<times> workflowArc list) list \<Rightarrow> (string \<times> workflowArc) set" where
  "arcs ts = {(from, a). \<exists>as. (from, as) \<in> set ts \<and> a \<in> set as}"

lemma check_transitions_Inr:
  assumes "check_transitions keys known ts = Inr u"
  shows "\<forall>(from, as)\<in>set ts. (\<forall>a\<in>set as. arc_ok keys known from a) \<and> distinct (map ar_To as)" "(\<Sum>(from, as)\<leftarrow>ts. length as) \<le> 200"
proof -
  have step: "rfold (check_from keys known) n ts = Inr n' \<Longrightarrow>
    (\<forall>(from, as)\<in>set ts. (\<forall>a\<in>set as. arc_ok keys known from a) \<and> distinct (map ar_To as)) \<and> n' = n + int (\<Sum>(from, as)\<leftarrow>ts. length as)" for n n'
  proof (induction ts arbitrary: n)
    case (Cons t ts)
    obtain fr as where t: "t = (fr, as)" by (cases t)
    from Cons.prems obtain seen n1 where r: "fr \<in> wf_Key ` set keys" "rfold (check_arc keys known fr) ([], n) as = Inr (seen, n1)" "rfold (check_from keys known) n1 ts = Inr n'"
      by (auto simp: t check_from_Inr result_simps)
    from check_arcs_Inr [OF r(2,1)] Cons.IH [OF r(3)] show ?case by (simp add: t)
  qed simp
  from assms obtain n where n: "rfold (check_from keys known) 0 ts = Inr n" "n \<le> 200" by (auto simp: check_transitions_def result_simps)
  from step [OF n(1)] show "\<forall>(from, as)\<in>set ts. (\<forall>a\<in>set as. arc_ok keys known from a) \<and> distinct (map ar_To as)" by blast
  from step [OF n(1)] n(2) have "int (\<Sum>(from, as)\<leftarrow>ts. length as) \<le> 200" by linarith
  then show "(\<Sum>(from, as)\<leftarrow>ts. length as) \<le> 200" by linarith
qed

subsection \<open>What the statements add\<close>

text \<open>What the constraints of the tables guarantee\<close>

definition version_known :: "config_db \<Rightarrow> uuid \<Rightarrow> int \<Rightarrow> bool" where
  "version_known db p v = (\<exists>c\<in>set (configs (cd_store db)). pc_ProjectID c = p \<and> pc_Version c = v)"

definition tables_ok :: "config_db \<Rightarrow> bool" where
  "tables_ok db =
     (distinct (map st_ID (statuses (cd_store db))) \<and> distinct (map ty_ID (item_types (cd_store db))) \<and>
      distinct (map (\<lambda>p. (pj_WorkspaceID p, pj_KeyPrefix p)) (projects (cd_store db))) \<and>
      (\<forall>x\<in>set (config_statuses db). version_known db (cs_ProjectID x) (cs_Version x) \<and> cs_StatusID x \<in> st_ID ` set (statuses (cd_store db))) \<and>
      (\<forall>x\<in>set (config_types db). version_known db (ct_ProjectID x) (ct_Version x) \<and> ct_ItemTypeID x \<in> ty_ID ` set (item_types (cd_store db)) \<and>
         ct_InitialStatusID x \<in> st_ID ` set (statuses (cd_store db))) \<and>
      (\<forall>x\<in>set (config_transitions db). version_known db (cr_ProjectID x) (cr_Version x) \<and> cr_FromStatusID x \<in> st_ID ` set (statuses (cd_store db)) \<and>
         cr_ToStatusID x \<in> st_ID ` set (statuses (cd_store db))))"

text \<open>The status of an identifier, where there is one\<close>

definition the_status :: "config_db \<Rightarrow> uuid \<Rightarrow> Status" where
  "the_status db u = hd (join_status db u)"

definition the_type :: "config_db \<Rightarrow> uuid \<Rightarrow> ItemType" where
  "the_type db u = hd (join_type db u)"

lemma join_status_one:
  "distinct (map st_ID (statuses (cd_store db))) \<Longrightarrow> u \<in> st_ID ` set (statuses (cd_store db)) \<Longrightarrow> join_status db u = [the_status db u]"
  by (auto simp: join_status_def the_status_def filter_unique)

lemma join_type_one:
  "distinct (map ty_ID (item_types (cd_store db))) \<Longrightarrow> u \<in> ty_ID ` set (item_types (cd_store db)) \<Longrightarrow> join_type db u = [the_type db u]"
  by (auto simp: join_type_def the_type_def filter_unique)

lemma the_status_eq: "distinct (map st_ID (statuses (cd_store db))) \<Longrightarrow> s \<in> set (statuses (cd_store db)) \<Longrightarrow> the_status db (st_ID s) = s"
  by (simp add: the_status_def join_status_def filter_unique)

text \<open>\<open>ids\<close> names statuses of the table that carry the key and are in the draft.\<close>

definition named :: "workflowStatus set \<Rightarrow> (string \<times> uuid) list \<Rightarrow> config_db \<Rightarrow> bool" where
  "named S ids db =
     (distinct (map st_ID (statuses (cd_store db))) \<and>
      (\<forall>k u. map_of ids k = Some u \<longrightarrow> (\<exists>s\<in>set (statuses (cd_store db)). st_ID s = u \<and> st_Key s = k \<and> status_of s \<in> S)))"

text \<open>What inserting statuses leaves alone\<close>

definition only_statuses :: "config_db \<Rightarrow> config_db \<Rightarrow> bool" where
  "only_statuses db db' =
     ((\<exists>new. statuses (cd_store db') = statuses (cd_store db) @ new) \<and> item_types (cd_store db') = item_types (cd_store db) \<and>
      projects (cd_store db') = projects (cd_store db) \<and> configs (cd_store db') = configs (cd_store db) \<and>
      config_types db' = config_types db \<and> config_transitions db' = config_transitions db \<and> field_defs db' = field_defs db)"

lemma only_statuses_trans: "only_statuses a b \<Longrightarrow> only_statuses b c \<Longrightarrow> only_statuses a c"
  by (auto simp: only_statuses_def)

lemma InsertConfigStatus_Inr:
  "InsertConfigStatus row db = Inr db' \<Longrightarrow>
     db' = db\<lparr>config_statuses := config_statuses db @ [row]\<rparr> \<and> cs_StatusID row \<in> st_ID ` set (statuses (cd_store db)) \<and> version_known db (cs_ProjectID row) (cs_Version row)"
  by (auto simp: InsertConfigStatus_def result_simps version_known_def)

text \<open>A statement that inserts one row, run in a loop: the rows are appended, each with its references in place.\<close>

locale row_insert =
  fixes ins :: "'row \<Rightarrow> 'db \<Rightarrow> 'err + 'db" and app :: "'row list \<Rightarrow> 'db \<Rightarrow> 'db" and refs :: "'db \<Rightarrow> 'row \<Rightarrow> bool"
  assumes ins_Inr: "ins row db = Inr db' \<Longrightarrow> db' = app [row] db \<and> refs db row"
    and app_Nil: "app [] db = db"
    and app_app: "app rows' (app rows db) = app (rows @ rows') db"
    and refs_app: "refs (app rows db) row = refs db row"
begin

lemma loop_Inr: "rfold (\<lambda>d x. ins (g x) d) db xs = Inr db' \<Longrightarrow> db' = app (map g xs) db \<and> (\<forall>x\<in>set xs. refs db (g x))"
proof (induction xs arbitrary: db)
  case (Cons x xs)
  then obtain db1 where r: "ins (g x) db = Inr db1" "rfold (\<lambda>d x. ins (g x) d) db1 xs = Inr db'" by (auto simp: result_simps)
  from ins_Inr [OF r(1)] Cons.IH [OF r(2)] show ?case by (simp add: app_app refs_app)
qed (simp add: app_Nil)

end

lemma version_known_cong [simp]:
  "version_known (db\<lparr>config_types := x\<rparr>) = version_known db" "version_known (db\<lparr>config_transitions := y\<rparr>) = version_known db"
  "version_known (db\<lparr>config_statuses := z\<rparr>) = version_known db"
  by (simp_all add: version_known_def fun_eq_iff)

definition type_row_ok :: "config_db \<Rightarrow> ConfigType \<Rightarrow> bool" where
  "type_row_ok db x = (version_known db (ct_ProjectID x) (ct_Version x) \<and> ct_ItemTypeID x \<in> ty_ID ` set (item_types (cd_store db)) \<and>
     ct_InitialStatusID x \<in> st_ID ` set (statuses (cd_store db)))"

definition arc_row_ok :: "config_db \<Rightarrow> ConfigTransition \<Rightarrow> bool" where
  "arc_row_ok db x = (version_known db (cr_ProjectID x) (cr_Version x) \<and> cr_FromStatusID x \<in> st_ID ` set (statuses (cd_store db)) \<and>
     cr_ToStatusID x \<in> st_ID ` set (statuses (cd_store db)))"

interpretation type_insert: row_insert InsertConfigType "\<lambda>rows db. db\<lparr>config_types := config_types db @ rows\<rparr>" type_row_ok
  by unfold_locales (auto simp: type_row_ok_def InsertConfigType_def result_simps version_known_def)

interpretation arc_insert: row_insert InsertConfigTransition "\<lambda>rows db. db\<lparr>config_transitions := config_transitions db @ rows\<rparr>" arc_row_ok
  by unfold_locales (auto simp: arc_row_ok_def InsertConfigTransition_def result_simps version_known_def)

lemma add_status_Inr:
  assumes "add_status fresh p i s (ids, db) = Inr (ids', db')" "named S ids db" "s \<in> S"
  shows "named S ids' db'" "map_of ids' (wf_Key s) \<noteq> None" "\<forall>k. map_of ids k \<noteq> None \<longrightarrow> map_of ids' k = map_of ids k"
    "config_statuses db' = config_statuses db" "only_statuses db db'"
proof -
  have "named S ids' db' \<and> map_of ids' (wf_Key s) \<noteq> None \<and> (\<forall>k. map_of ids k \<noteq> None \<longrightarrow> map_of ids' k = map_of ids k) \<and>
    config_statuses db' = config_statuses db \<and> only_statuses db db'"
  proof (cases "map_of ids (wf_Key s)")
    case None
    define st where "st = \<lparr>st_ID = fresh i, st_ProjectID = p, st_Key = wf_Key s, st_Name = wf_Name s, st_Category = wf_Category s\<rparr>"
    from None assms(1) have new: "ids' = (wf_Key s, st_ID st) # ids" "st_ID st \<notin> st_ID ` set (statuses (cd_store db))"
      "db' = db\<lparr>cd_store := (cd_store db)\<lparr>statuses := statuses (cd_store db) @ [st]\<rparr>\<rparr>"
      by (auto simp: add_status_def InsertStatus_def st_def Let_def result_simps)
    have st: "st_Key st = wf_Key s" "status_of st = s" by (simp_all add: st_def status_of_def)
    have "named S ids' db'" using assms(2,3) new st by (auto simp: named_def)
    with None new show ?thesis by (auto simp: only_statuses_def)
  next
    case (Some u)
    with assms(1,2) show ?thesis by (auto simp: add_status_def only_statuses_def)
  qed
  then show "named S ids' db'" "map_of ids' (wf_Key s) \<noteq> None" "\<forall>k. map_of ids k \<noteq> None \<longrightarrow> map_of ids' k = map_of ids k"
    "config_statuses db' = config_statuses db" "only_statuses db db'" by blast+
qed

lemma save_status_Inr:
  "save_status fresh p v st (i, s) = Inr (ids, db) \<longleftrightarrow>
     (\<exists>db1. add_status fresh p i s st = Inr (ids, db1) \<and>
       InsertConfigStatus \<lparr>cs_ProjectID = p, cs_Version = v, cs_StatusID = id_of ids (wf_Key s), cs_DisplayOrder = int i\<rparr> db1 = Inr db)"
  by (auto simp: save_status_def result_simps)

text \<open>The rows of the statuses in the new version\<close>

definition new_status_rows :: "uuid \<Rightarrow> int \<Rightarrow> (string \<times> uuid) list \<Rightarrow> (nat \<times> workflowStatus) list \<Rightarrow> ConfigStatus list" where
  "new_status_rows p v ids ss = map (\<lambda>(i, s). \<lparr>cs_ProjectID = p, cs_Version = v, cs_StatusID = id_of ids (wf_Key s), cs_DisplayOrder = int i\<rparr>) ss"

lemma save_statuses_Inr:
  "rfold (save_status fresh p v) (ids, db) ss = Inr (ids', db') \<Longrightarrow> named S ids db \<Longrightarrow> snd ` set ss \<subseteq> S \<Longrightarrow>
     named S ids' db' \<and> (\<forall>(i, s)\<in>set ss. map_of ids' (wf_Key s) \<noteq> None) \<and> (\<forall>k. map_of ids k \<noteq> None \<longrightarrow> map_of ids' k = map_of ids k) \<and>
     config_statuses db' = config_statuses db @ new_status_rows p v ids' ss \<and> only_statuses db db'"
proof (induction ss arbitrary: ids db)
  case Nil
  then show ?case by (simp add: new_status_rows_def only_statuses_def)
next
  case (Cons x ss)
  obtain i s where x: "x = (i, s)" by (cases x)
  from Cons.prems(1) obtain ids1 db1 db2 where r: "add_status fresh p i s (ids, db) = Inr (ids1, db1)"
    "InsertConfigStatus \<lparr>cs_ProjectID = p, cs_Version = v, cs_StatusID = id_of ids1 (wf_Key s), cs_DisplayOrder = int i\<rparr> db1 = Inr db2"
    "rfold (save_status fresh p v) (ids1, db2) ss = Inr (ids', db')"
    by (auto simp: x save_status_Inr result_simps)
  have s: "s \<in> S" using Cons.prems(3) x by auto
  note a = add_status_Inr [OF r(1) Cons.prems(2) s]
  from InsertConfigStatus_Inr [OF r(2)] have db2: "db2 = db1\<lparr>config_statuses := config_statuses db1 @ [\<lparr>cs_ProjectID = p, cs_Version = v, cs_StatusID = id_of ids1 (wf_Key s), cs_DisplayOrder = int i\<rparr>]\<rparr>" by blast
  have "named S ids1 db2" "only_statuses db db2" using a(1,5) unfolding db2 by (simp_all add: named_def only_statuses_def)
  note ih = Cons.IH [OF r(3) this(1)] this(2)
  have "map_of ids' (wf_Key s) = map_of ids1 (wf_Key s)" using ih(1) a(2) Cons.prems(3) by simp
  then show ?case using ih a Cons.prems(3) unfolding db2 x
    by (auto simp: new_status_rows_def id_of_def intro: only_statuses_trans)
qed

text \<open>The rows of the types: each old row, moved to the new version\<close>

definition old_types :: "config_db \<Rightarrow> uuid \<Rightarrow> int \<Rightarrow> ConfigType list" where
  "old_types db p v = filter (\<lambda>ct. ct_ProjectID ct = p \<and> ct_Version ct = v) (config_types db)"

definition moved_type :: "(string \<times> uuid) list \<Rightarrow> (string \<times> string) list \<Rightarrow> int \<Rightarrow> string \<Rightarrow> ConfigType \<Rightarrow> ConfigType" where
  "moved_type ids initial new k ct = ct\<lparr>ct_Version := new, ct_InitialStatusID := id_of ids (initial_of initial k)\<rparr>"

definition kind_rows :: "config_db \<Rightarrow> uuid \<Rightarrow> int \<Rightarrow> string \<Rightarrow> ConfigType list" where
  "kind_rows db p v k = concat (map (\<lambda>ct. map (\<lambda>t. ct) (filter (\<lambda>t. ty_Key t = k) (join_type db (ct_ItemTypeID ct)))) (old_types db p v))"

abbreviation type_rows_ok :: "config_db \<Rightarrow> ConfigType list \<Rightarrow> bool" where
  "type_rows_ok db rows \<equiv> \<forall>x\<in>set rows. type_row_ok db x"

lemma save_type_Inr:
  "save_type ids initial p old new db kind = Inr db' \<Longrightarrow>
     db' = db\<lparr>config_types := config_types db @ map (moved_type ids initial new (rt_Key kind)) (kind_rows db p old (rt_Key kind))\<rparr> \<and>
     type_rows_ok db (map (moved_type ids initial new (rt_Key kind)) (kind_rows db p old (rt_Key kind)))"
  unfolding save_type_def kind_rows_def old_types_def moved_type_def set_map ball_simps by (rule type_insert.loop_Inr)

lemma kind_rows_moved:
  assumes "old \<noteq> new"
  shows "kind_rows (db\<lparr>config_types := config_types db @ map (moved_type ids initial new k) rows\<rparr>) p old k' = kind_rows db p old k'"
proof -
  have "filter (\<lambda>ct. ct_ProjectID ct = p \<and> ct_Version ct = old) (map (moved_type ids initial new k) rows) = []"
    using assms by (auto simp: filter_empty_conv moved_type_def)
  then show ?thesis by (simp add: kind_rows_def old_types_def join_type_def)
qed

definition new_type_rows :: "(string \<times> uuid) list \<Rightarrow> (string \<times> string) list \<Rightarrow> config_db \<Rightarrow> uuid \<Rightarrow> int \<Rightarrow> int \<Rightarrow> resolved_type list \<Rightarrow> ConfigType list" where
  "new_type_rows ids initial db p old new kinds = concat (map (\<lambda>kind. map (moved_type ids initial new (rt_Key kind)) (kind_rows db p old (rt_Key kind))) kinds)"

lemma save_types_Inr:
  "rfold (save_type ids initial p old new) db kinds = Inr db' \<Longrightarrow> old \<noteq> new \<Longrightarrow>
     db' = db\<lparr>config_types := config_types db @ new_type_rows ids initial db p old new kinds\<rparr> \<and>
     type_rows_ok db (new_type_rows ids initial db p old new kinds)"
proof (induction kinds arbitrary: db)
  case (Cons kind kinds)
  then obtain db1 where r: "save_type ids initial p old new db kind = Inr db1" "rfold (save_type ids initial p old new) db1 kinds = Inr db'" by (auto simp: result_simps)
  note one = save_type_Inr [OF r(1)]
  have k: "kind_rows db1 p old = kind_rows db p old" using one kind_rows_moved [OF Cons.prems(2)] by (simp add: fun_eq_iff)
  from Cons.IH [OF r(2) Cons.prems(2)] one show ?case unfolding new_type_rows_def k by (auto simp: type_row_ok_def)
qed (simp add: type_row_ok_def new_type_rows_def)

text \<open>The rows of the transitions\<close>

definition new_arc :: "uuid \<Rightarrow> int \<Rightarrow> (string \<times> uuid) list \<Rightarrow> string \<Rightarrow> workflowArc \<Rightarrow> ConfigTransition" where
  "new_arc p v ids from a = \<lparr>cr_ProjectID = p, cr_Version = v, cr_FromStatusID = id_of ids from, cr_ToStatusID = id_of ids (ar_To a), cr_Requires = ar_Requires a\<rparr>"

definition new_arcs :: "uuid \<Rightarrow> int \<Rightarrow> (string \<times> uuid) list \<Rightarrow> (string \<times> workflowArc list) list \<Rightarrow> ConfigTransition list" where
  "new_arcs p v ids ts = concat (map (\<lambda>(from, as). map (new_arc p v ids from) as) ts)"

abbreviation arc_rows_ok :: "config_db \<Rightarrow> ConfigTransition list \<Rightarrow> bool" where
  "arc_rows_ok db rows \<equiv> \<forall>x\<in>set rows. arc_row_ok db x"

lemma save_arcs_Inr:
  "save_arcs ids p v db (from, as) = Inr db' \<Longrightarrow>
     db' = db\<lparr>config_transitions := config_transitions db @ map (new_arc p v ids from) as\<rparr> \<and> arc_rows_ok db (map (new_arc p v ids from) as)"
  unfolding save_arcs_def prod.case new_arc_def set_map ball_simps by (rule arc_insert.loop_Inr)

lemma save_all_arcs_Inr:
  "rfold (save_arcs ids p v) db ts = Inr db' \<Longrightarrow>
     db' = db\<lparr>config_transitions := config_transitions db @ new_arcs p v ids ts\<rparr> \<and> arc_rows_ok db (new_arcs p v ids ts)"
proof (induction ts arbitrary: db)
  case (Cons t ts)
  obtain fr as where t: "t = (fr, as)" by (cases t)
  from Cons.prems obtain db1 where r: "save_arcs ids p v db (fr, as) = Inr db1" "rfold (save_arcs ids p v) db1 ts = Inr db'" by (auto simp: t result_simps)
  from save_arcs_Inr [OF r(1)] Cons.IH [OF r(2)] show ?case by (auto simp: t new_arcs_def arc_row_ok_def)
qed (simp add: new_arcs_def arc_row_ok_def)

text \<open>All of \<open>save_draft\<close>\<close>

lemma save_draft_Inr:
  assumes "save_draft now fresh who p current draft db = Inr db'" "tables_ok db" "- (2 ^ 31) \<le> wc_Version current" "wc_Version current < 2 ^ 31 - 1"
    and "named (set (wd_Statuses draft)) (status_ids db p (wc_Version current)) db"
  obtains ids db1 where "named (set (wd_Statuses draft)) ids db1" "\<forall>s\<in>set (wd_Statuses draft). map_of ids (wf_Key s) \<noteq> None"
    "config_statuses db1 = config_statuses db @ new_status_rows p (wc_Version current + 1) ids (List.enumerate 0 (wd_Statuses draft))"
    "only_statuses (db\<lparr>cd_store := (cd_store db)\<lparr>configs := configs (cd_store db) @ [\<lparr>pc_ProjectID = p, pc_Version = wc_Version current + 1, pc_SourceYaml = None, pc_AppliedAt = now, pc_AppliedBy = Some who\<rparr>]\<rparr>\<rparr>) db1"
    "\<not> version_known db p (wc_Version current + 1)"
    "db' = db1\<lparr>config_types := config_types db @
        new_type_rows ids (wd_Initial draft) db p (wc_Version current) (wc_Version current + 1) (wc_Types current),
      config_transitions := config_transitions db @ new_arcs p (wc_Version current + 1) ids (wd_Transitions draft)\<rparr>"
    "type_rows_ok db1 (new_type_rows ids (wd_Initial draft) db p (wc_Version current) (wc_Version current + 1) (wc_Types current))"
    "arc_rows_ok db1 (new_arcs p (wc_Version current + 1) ids (wd_Transitions draft))"
proof -
  define new where "new = wc_Version current + 1"
  define store where "store = (cd_store db)\<lparr>configs := configs (cd_store db) @ [\<lparr>pc_ProjectID = p, pc_Version = new, pc_SourceYaml = None, pc_AppliedAt = now, pc_AppliedBy = Some who\<rparr>]\<rparr>"
  have succ: "int32_succ (wc_Version current) = new" using assms(3,4) by (simp add: int32_succ_def new_def)
  from assms(1) obtain ids db1 db2 where r: "(p, new) \<notin> (\<lambda>x. (pc_ProjectID x, pc_Version x)) ` set (configs (cd_store db))"
    "rfold (save_status fresh p new) (status_ids db p (wc_Version current), db\<lparr>cd_store := store\<rparr>) (List.enumerate 0 (wd_Statuses draft)) = Inr (ids, db1)"
    "rfold (save_type ids (wd_Initial draft) p (wc_Version current) new) db1 (wc_Types current) = Inr db2"
    "rfold (save_arcs ids p new) db2 (wd_Transitions draft) = Inr db'"
    by (auto simp: save_draft_def succ InsertProjectConfig_def store_def Let_def result_simps)
  have "named (set (wd_Statuses draft)) (status_ids db p (wc_Version current)) (db\<lparr>cd_store := store\<rparr>)" using assms(5) by (simp add: named_def store_def)
  note st = save_statuses_Inr [OF r(2) this]
  have sub: "snd ` set (List.enumerate 0 (wd_Statuses draft)) \<subseteq> set (wd_Statuses draft)" by (auto simp: in_set_enumerate_eq)
  note st = st [OF sub]
  from r(1) have nk: "\<not> version_known db p new" by (force simp: version_known_def)
  have "wc_Version current \<noteq> new" by (simp add: new_def)
  note ty = save_types_Inr [OF r(3) this] and ar = save_all_arcs_Inr [OF r(4)]
  from st have k: "kind_rows db1 p (wc_Version current) = kind_rows db p (wc_Version current)" "config_types db1 = config_types db" "config_transitions db1 = config_transitions db"
    by (simp_all add: fun_eq_iff kind_rows_def old_types_def join_type_def only_statuses_def store_def)
  have all: "\<forall>s\<in>set (wd_Statuses draft). map_of ids (wf_Key s) \<noteq> None"
  proof
    fix s assume "s \<in> set (wd_Statuses draft)"
    then obtain i where "i < length (wd_Statuses draft)" "s = wd_Statuses draft ! i" by (auto simp: in_set_conv_nth)
    then have "(i, s) \<in> set (List.enumerate 0 (wd_Statuses draft))" by (simp add: in_set_enumerate_eq)
    with st show "map_of ids (wf_Key s) \<noteq> None" by blast
  qed
  show thesis
  proof (rule that)
    show "named (set (wd_Statuses draft)) ids db1" using st by blast
    show "\<forall>s\<in>set (wd_Statuses draft). map_of ids (wf_Key s) \<noteq> None" by (rule all)
  qed (use st ty ar nk k in \<open>auto simp: new_def store_def arc_row_ok_def new_type_rows_def\<close>)
qed

subsection \<open>Reading the new version back\<close>

lemma named_status:
  assumes "named S ids db" "inj_on wf_Key S" "s \<in> S" "map_of ids (wf_Key s) \<noteq> None"
  shows "status_of (the_status db (id_of ids (wf_Key s))) = s" "st_Key (the_status db (id_of ids (wf_Key s))) = wf_Key s"
    "join_status db (id_of ids (wf_Key s)) = [the_status db (id_of ids (wf_Key s))]" "id_of ids (wf_Key s) \<in> st_ID ` set (statuses (cd_store db))"
proof -
  from assms(1) have d: "distinct (map st_ID (statuses (cd_store db)))" by (simp add: named_def)
  from assms(4) have "map_of ids (wf_Key s) = Some (id_of ids (wf_Key s))" by (auto simp: id_of_def)
  with assms(1) obtain st where st: "st \<in> set (statuses (cd_store db))" "st_ID st = id_of ids (wf_Key s)" "st_Key st = wf_Key s" "status_of st \<in> S"
    unfolding named_def by blast
  have the: "the_status db (id_of ids (wf_Key s)) = st" using the_status_eq [OF d st(1)] st(2) by simp
  have "status_of st = s" by (rule inj_onD [OF assms(2) _ st(4) assms(3)]) (simp add: status_of_def st(3))
  with the st(3) show "status_of (the_status db (id_of ids (wf_Key s))) = s" "st_Key (the_status db (id_of ids (wf_Key s))) = wf_Key s" by simp_all
  show "join_status db (id_of ids (wf_Key s)) = [the_status db (id_of ids (wf_Key s))]"
    using join_status_one [OF d, of "id_of ids (wf_Key s)"] st(1,2) by (metis imageI)
  show "id_of ids (wf_Key s) \<in> st_ID ` set (statuses (cd_store db))" using st(1,2) by force
qed

text \<open>The rows of a version that was not there before are the ones that are added.\<close>

lemma new_rows_filter:
  "filter (\<lambda>x. cs_ProjectID x = p \<and> cs_Version x = v) (new_status_rows p v ids ss) = new_status_rows p v ids ss"
  "filter (\<lambda>x. ct_ProjectID x = p \<and> ct_Version x = v) (new_type_rows ids initial db p old v kinds) = new_type_rows ids initial db p old v kinds"
  "filter (\<lambda>x. cr_ProjectID x = p \<and> cr_Version x = v) (new_arcs p v ids ts) = new_arcs p v ids ts"
  by (auto simp: filter_id_conv new_status_rows_def new_type_rows_def moved_type_def kind_rows_def old_types_def new_arcs_def new_arc_def)

lemma resolved_statuses_new:
  assumes "named (set ss) ids db" "distinct (map wf_Key ss)" "\<forall>s\<in>set ss. map_of ids (wf_Key s) \<noteq> None"
    and "filter (\<lambda>cs. cs_ProjectID cs = p \<and> cs_Version cs = v) (config_statuses db) = new_status_rows p v ids (List.enumerate 0 ss)"
  shows "resolved_statuses db p v = ss"
proof -
  define f where "f = (\<lambda>(i, s :: workflowStatus). (\<lparr>cs_ProjectID = p, cs_Version = v, cs_StatusID = id_of ids (wf_Key s), cs_DisplayOrder = int i\<rparr>, the_status db (id_of ids (wf_Key s))))"
  have inj: "inj_on wf_Key (set ss)" using assms(2) by (simp add: distinct_map)
  have one: "join_status db (id_of ids (wf_Key s)) = [the_status db (id_of ids (wf_Key s))]" "status_of (the_status db (id_of ids (wf_Key s))) = s" if "s \<in> set ss" for s
    using named_status [OF assms(1) inj that] assms(3) that by blast+
  have "config_status_rows db p v = map f (List.enumerate 0 ss)"
    unfolding config_status_rows_def assms(4) new_status_rows_def map_map comp_def
    by (rule concat_map_single) (auto simp: f_def in_set_enumerate_eq one)
  moreover have "sort_key (\<lambda>(cs, s). cs_DisplayOrder cs) (map f (List.enumerate 0 ss)) = map f (List.enumerate 0 ss)"
  proof (rule sort_key_id_if_sorted)
    have "map (\<lambda>(cs, s). cs_DisplayOrder cs) (map f (List.enumerate 0 ss)) = map int (map fst (List.enumerate 0 ss))"
      unfolding map_map by (rule map_cong) (auto simp: f_def)
    also have "\<dots> = map int [0..<length ss]" by simp
    finally show "sorted (map (\<lambda>(cs, s). cs_DisplayOrder cs) (map f (List.enumerate 0 ss)))" by (simp add: sorted_map monoI sorted_wrt_mono_rel)
  qed
  moreover have "map (\<lambda>(cs, s). status_of s) (map f (List.enumerate 0 ss)) = map snd (List.enumerate 0 ss)"
    unfolding map_map by (rule map_cong) (auto simp: f_def in_set_enumerate_eq one)
  ultimately show ?thesis by (simp add: resolved_statuses_def)
qed

text \<open>A row of the types, read with its type and its status\<close>

definition type_view :: "config_db \<Rightarrow> ConfigType \<Rightarrow> resolved_type" where
  "type_view db ct = (let t = the_type db (ct_ItemTypeID ct) in
     \<lparr>rt_Key = ty_Key t, rt_Name = ty_Name t, rt_Level = ty_Level t, rt_IsIdea = ty_IsIdea t, rt_Initial = st_Key (the_status db (ct_InitialStatusID ct))\<rparr>)"

abbreviation type_order :: "resolved_type \<Rightarrow> int \<times> string" where
  "type_order t \<equiv> (- rt_Level t, rt_Key t)"

lemma resolved_types_view:
  assumes "tables_ok db"
  shows "resolved_types db p v = map (type_view db) (sort_key (\<lambda>ct. type_order (type_view db ct)) (old_types db p v))"
proof -
  have "concat (map (\<lambda>t. map (\<lambda>s. \<lparr>rt_Key = ty_Key t, rt_Name = ty_Name t, rt_Level = ty_Level t, rt_IsIdea = ty_IsIdea t, rt_Initial = st_Key s\<rparr>)
      (join_status db (ct_InitialStatusID ct))) (join_type db (ct_ItemTypeID ct))) = [type_view db ct]" if "ct \<in> set (old_types db p v)" for ct
    using that assms by (simp add: tables_ok_def old_types_def join_type_one join_status_one type_view_def Let_def)
  then show ?thesis unfolding resolved_types_def old_types_def [symmetric] by (subst concat_map_single [where h = "type_view db"]) (simp_all add: sort_key_map)
qed

lemma kind_rows_one:
  assumes "tables_ok db" "distinct (map (\<lambda>ct. rt_Key (type_view db ct)) (old_types db p v))" "ct \<in> set (old_types db p v)"
  shows "kind_rows db p v (rt_Key (type_view db ct)) = [ct]"
proof -
  have "map (\<lambda>t. c) (filter (\<lambda>t. ty_Key t = k) (join_type db (ct_ItemTypeID c))) = (if rt_Key (type_view db c) = k then [c] else [])" if "c \<in> set (old_types db p v)" for c k
    using that assms(1) by (simp add: tables_ok_def old_types_def join_type_one type_view_def Let_def)
  then have "kind_rows db p v k = filter (\<lambda>c. rt_Key (type_view db c) = k) (old_types db p v)" for k
    unfolding kind_rows_def by (intro concat_map_filter) blast
  then show ?thesis using filter_unique [OF assms(2,3)] by simp
qed

lemma type_view_moved:
  assumes "named S ids db'" "inj_on wf_Key S" "s \<in> S" "map_of ids (wf_Key s) \<noteq> None" "item_types (cd_store db') = item_types (cd_store db)" "initial_of initial k = wf_Key s"
  shows "type_view db' (moved_type ids initial new k ct) = (type_view db ct)\<lparr>rt_Initial := initial_of initial k\<rparr>"
  using named_status [OF assms(1-4)] assms(5,6) by (simp add: type_view_def moved_type_def the_type_def join_type_def Let_def)

lemma resolved_types_new:
  assumes "tables_ok db" "tables_ok db'" "kinds = resolved_types db p v" "distinct (map rt_Key kinds)"
    and "named S ids db'" "inj_on wf_Key S" "\<forall>s\<in>S. map_of ids (wf_Key s) \<noteq> None" "\<forall>kind\<in>set kinds. \<exists>s\<in>S. initial_of initial (rt_Key kind) = wf_Key s"
    and "item_types (cd_store db') = item_types (cd_store db)"
    and "old_types db' p new = new_type_rows ids initial db p v new kinds"
  shows "resolved_types db' p new = map (\<lambda>t. t\<lparr>rt_Initial := initial_of initial (rt_Key t)\<rparr>) kinds"
proof -
  define cts where "cts = sort_key (\<lambda>ct. type_order (type_view db ct)) (old_types db p v)"
  define up where "up = (\<lambda>t :: resolved_type. t\<lparr>rt_Initial := initial_of initial (rt_Key t)\<rparr>)"
  define mv where "mv = (\<lambda>ct. moved_type ids initial new (rt_Key (type_view db ct)) ct)"
  have kinds: "kinds = map (type_view db) cts" unfolding assms(3) cts_def by (rule resolved_types_view [OF assms(1)])
  have "distinct (map (\<lambda>ct. rt_Key (type_view db ct)) cts)" using assms(4) by (simp add: kinds comp_def)
  then have d: "distinct (map (\<lambda>ct. rt_Key (type_view db ct)) (old_types db p v))" by (simp add: cts_def distinct_map)
  have view: "type_view db' (mv ct) = up (type_view db ct)" if "ct \<in> set cts" for ct
  proof -
    from that assms(8) obtain s where "s \<in> S" "initial_of initial (rt_Key (type_view db ct)) = wf_Key s" by (auto simp: kinds)
    with type_view_moved [OF assms(5,6) _ _ assms(9)] assms(7) show ?thesis by (auto simp: mv_def up_def)
  qed
  have "old_types db' p new = map mv cts"
    unfolding assms(10) new_type_rows_def kinds map_map comp_def by (rule concat_map_single) (simp add: cts_def kind_rows_one [OF assms(1) d] mv_def)
  then have "resolved_types db' p new = sort_key type_order (map (type_view db') (map mv cts))"
    by (simp add: resolved_types_view [OF assms(2)] sort_key_map)
  also have "map (type_view db') (map mv cts) = map up kinds" using view by (simp add: kinds)
  also have "sort_key type_order (map up kinds) = map up kinds"
  proof (rule sort_key_id_if_sorted)
    have "sorted (map type_order kinds)" unfolding assms(3) resolved_types_def by (rule sorted_sort_key)
    then show "sorted (map type_order (map up kinds))" by (simp add: up_def comp_def)
  qed
  finally show ?thesis by (simp add: up_def)
qed

lemma arcs_resolved: "arcs (resolved_transitions db p v) = set (transition_rows db p v)"
  by (force simp: arcs_def resolved_transitions_def Let_def)

lemma resolved_transitions_new:
  assumes "named S ids db" "inj_on wf_Key S" "\<forall>s\<in>S. map_of ids (wf_Key s) \<noteq> None"
    and "\<forall>(from, a)\<in>arcs ts. from \<in> wf_Key ` S \<and> ar_To a \<in> wf_Key ` S"
    and "filter (\<lambda>cr. cr_ProjectID cr = p \<and> cr_Version cr = v) (config_transitions db) = new_arcs p v ids ts"
  shows "arcs (resolved_transitions db p v) = arcs ts"
proof -
  define g where "g = (\<lambda>cr :: ConfigTransition. concat (map (\<lambda>f. map (\<lambda>s. (st_Key f, \<lparr>ar_To = st_Key s, ar_Requires = cr_Requires cr\<rparr>)) (join_status db (cr_ToStatusID cr))) (join_status db (cr_FromStatusID cr))))"
  have id: "join_status db (id_of ids k) = [the_status db (id_of ids k)] \<and> st_Key (the_status db (id_of ids k)) = k" if "k \<in> wf_Key ` S" for k
    using that named_status(2,3) [OF assms(1,2)] assms(3) by auto
  have g: "g (new_arc p v ids from a) = [(from, a)]" if "(from, a) \<in> arcs ts" for "from" a
    using that assms(4) id [of "from"] id [of "ar_To a"] by (auto simp: g_def new_arc_def)
  have "set (new_arcs p v ids ts) = (\<lambda>(from, a). new_arc p v ids from a) ` arcs ts" by (force simp: new_arcs_def arcs_def)
  then have "set (concat (map g (new_arcs p v ids ts))) = (\<Union>x\<in>arcs ts. set (g (new_arc p v ids (fst x) (snd x))))" by (simp add: case_prod_beta)
  also have "\<dots> = (\<Union>x\<in>arcs ts. {x})" using g by (intro SUP_cong) auto
  finally show ?thesis unfolding arcs_resolved transition_rows_def assms(5) g_def by simp
qed

subsection \<open>The editor\<close>

text \<open>A workflow in order: arcs between different configured statuses, at most one per pair, with known requirements.\<close>

definition workflow_ok :: "workflowConfig \<Rightarrow> bool" where
  "workflow_ok cfg =
     (wc_Statuses cfg \<noteq> [] \<and> distinct (map wf_Key (wc_Statuses cfg)) \<and>
      (\<forall>(from, a)\<in>arcs (wc_Transitions cfg). arc_ok (wc_Statuses cfg) (known_fields (wc_Fields cfg)) from a) \<and>
      (\<forall>from a b. (from, a) \<in> arcs (wc_Transitions cfg) \<and> (from, b) \<in> arcs (wc_Transitions cfg) \<and> ar_To a = ar_To b \<longrightarrow> a = b) \<and>
      (\<forall>t\<in>set (wc_Types cfg). rt_Initial t \<in> wf_Key ` set (wc_Statuses cfg)))"

lemma refuse_Inr [result_simps]: "refuse res = Inr x \<longleftrightarrow> res = Inr x"
  by (cases res) (simp_all add: refuse_def)

lemma sql_problem_Inr [result_simps]: "sql_problem res = Inr x \<longleftrightarrow> res = Inr x"
  by (cases res) (simp_all add: sql_problem_def)

lemma updateWorkflow_Inr:
  assumes "updateWorkflow lower now fresh r ifMatch (Inr draft) db = Inr (final, db')"
  obtains p current where "p \<in> set (projects (cd_store db))" "pj_WorkspaceID p = rq_WorkspaceID r" "pj_KeyPrefix p = rq_Key r"
    "resolvedConfigSQL (rq_WorkspaceID r) (rq_Key r) db = Inr current" "1 \<le> wc_Version current"
    "check_statuses lower (wd_Statuses draft) = Inr (wd_Statuses draft)"
    "check_draft (wd_Statuses draft) current draft = Inr ()" "save_draft now fresh (rq_UserID r) (pj_ID p) current draft db = Inr db'"
    "resolvedConfigSQL (rq_WorkspaceID r) (rq_Key r) db' = Inr final"
proof -
  from assms obtain p keys current expected where *: "find (\<lambda>p. pj_WorkspaceID p = rq_WorkspaceID r \<and> pj_KeyPrefix p = rq_Key r \<and> pj_ArchivedAt p = None) (projects (cd_store db)) = Some p"
    "expectedVersion ifMatch = Inr expected" "check_statuses lower (wd_Statuses draft) = Inr keys" "resolvedConfigSQL (rq_WorkspaceID r) (rq_Key r) db = Inr current"
    "wc_Version current = expected" "check_draft keys current draft = Inr ()" "save_draft now fresh (rq_UserID r) (pj_ID p) current draft db = Inr db'"
    "resolvedConfigSQL (rq_WorkspaceID r) (rq_Key r) db' = Inr final"
    by (auto simp: updateWorkflow_def result_simps split: if_splits)
  have "1 \<le> expected" using *(2) by (auto simp: expectedVersion_def split: if_splits option.splits)
  moreover have "p \<in> set (projects (cd_store db)) \<and> pj_WorkspaceID p = rq_WorkspaceID r \<and> pj_KeyPrefix p = rq_Key r"
    using *(1) by (auto simp: find_Some_iff)
  moreover have "keys = wd_Statuses draft" by (rule check_statuses_Inr(1) [OF *(3)])
  ultimately show thesis using that * by blast
qed

lemma resolvedConfig_Inr:
  assumes "tables_ok db" "p \<in> set (projects (cd_store db))" "pj_WorkspaceID p = ws" "pj_KeyPrefix p = k"
  shows "resolvedConfigSQL ws k db = Inr cfg \<longleftrightarrow>
    sql_max (map (\<lambda>c. Some (pc_Version c)) (filter (\<lambda>c. pc_ProjectID c = pj_ID p) (configs (cd_store db)))) = Some (wc_Version cfg) \<and>
    cfg = \<lparr>wc_Version = wc_Version cfg, wc_Statuses = resolved_statuses db (pj_ID p) (wc_Version cfg), wc_Types = resolved_types db (pj_ID p) (wc_Version cfg),
      wc_Transitions = resolved_transitions db (pj_ID p) (wc_Version cfg), wc_Fields = sort_key fd_Key (filter (\<lambda>f. fd_ProjectID f = pj_ID p) (field_defs db))\<rparr>"
proof -
  have "find (\<lambda>q. pj_WorkspaceID q = ws \<and> pj_KeyPrefix q = k) ps = Some p" if "distinct (map (\<lambda>p. (pj_WorkspaceID p, pj_KeyPrefix p)) ps)" "p \<in> set ps" for ps
    using that assms(3,4) by (induction ps) force+
  then have "find (\<lambda>q. pj_WorkspaceID q = ws \<and> pj_KeyPrefix q = k) (projects (cd_store db)) = Some p" using assms(1,2) by (simp add: tables_ok_def)
  then show ?thesis by (auto simp: resolvedConfigSQL_def split: option.splits)
qed

text \<open>The identifiers the editor starts from name the statuses of the version, which the draft keeps.\<close>

lemma named_start:
  assumes "tables_ok db" "set (resolved_statuses db p v) \<subseteq> S"
  shows "named S (status_ids db p v) db"
proof -
  have "\<exists>s\<in>set (statuses (cd_store db)). st_ID s = u \<and> st_Key s = k \<and> status_of s \<in> S" if "map_of (status_ids db p v) k = Some u" for k u
  proof -
    from map_of_SomeD [OF that] obtain cs s where s: "(cs, s) \<in> set (config_status_rows db p v)" "st_Key s = k" "st_ID s = u" by (auto simp: status_ids_def)
    then have "status_of s \<in> set (resolved_statuses db p v)" by (force simp: resolved_statuses_def)
    moreover have "s \<in> set (statuses (cd_store db))" using s(1) by (auto simp: config_status_rows_def join_status_def)
    ultimately show ?thesis using s assms(2) by blast
  qed
  then show ?thesis using assms(1) by (simp add: named_def tables_ok_def)
qed

lemma no_rows_yet:
  assumes "tables_ok db" "\<not> version_known db p v"
  shows "filter (\<lambda>x. cs_ProjectID x = p \<and> cs_Version x = v) (config_statuses db) = []"
    "filter (\<lambda>x. ct_ProjectID x = p \<and> ct_Version x = v) (config_types db) = []"
    "filter (\<lambda>x. cr_ProjectID x = p \<and> cr_Version x = v) (config_transitions db) = []"
  using assms by (auto simp: tables_ok_def filter_empty_conv)

lemma tables_ok_extend:
  assumes "tables_ok db" "named S ids db'" "\<exists>new. statuses (cd_store db') = statuses (cd_store db) @ new" "item_types (cd_store db') = item_types (cd_store db)"
    and "projects (cd_store db') = projects (cd_store db)" "set (configs (cd_store db)) \<subseteq> set (configs (cd_store db'))"
    and "config_statuses db' = config_statuses db @ css" "\<forall>x\<in>set css. version_known db' (cs_ProjectID x) (cs_Version x) \<and> cs_StatusID x \<in> st_ID ` set (statuses (cd_store db'))"
    and "config_types db' = config_types db @ cts" "type_rows_ok db' cts"
    and "config_transitions db' = config_transitions db @ crs" "arc_rows_ok db' crs"
  shows "tables_ok db'"
proof -
  have v: "version_known db q v \<Longrightarrow> version_known db' q v" for q v using assms(6) by (auto simp: version_known_def)
  have st: "st_ID ` set (statuses (cd_store db)) \<subseteq> st_ID ` set (statuses (cd_store db'))" using assms(3) by auto
  have "\<forall>x\<in>set (config_statuses db'). version_known db' (cs_ProjectID x) (cs_Version x) \<and> cs_StatusID x \<in> st_ID ` set (statuses (cd_store db'))"
    using assms(1,8) v st unfolding assms(7) tables_ok_def set_append by blast
  moreover have "type_rows_ok db' (config_types db')"
    using assms(1,10) v st unfolding assms(9) tables_ok_def type_row_ok_def set_append assms(4) by blast
  moreover have "arc_rows_ok db' (config_transitions db')"
    using assms(1,12) v st unfolding assms(11) tables_ok_def arc_row_ok_def set_append by blast
  ultimately show ?thesis using assms(1,2) unfolding tables_ok_def type_row_ok_def arc_row_ok_def named_def assms(4,5) by blast
qed

lemma save_draft_reads:
  assumes "save_draft now fresh who (pj_ID p) current draft db = Inr db'" "tables_ok db"
    and p: "p \<in> set (projects (cd_store db))" "pj_WorkspaceID p = ws" "pj_KeyPrefix p = k"
    and cur: "resolvedConfigSQL ws k db = Inr current" "1 \<le> wc_Version current" "wc_Version current < 2 ^ 31 - 1" "distinct (map rt_Key (wc_Types current))"
    and ss: "distinct (map wf_Key (wd_Statuses draft))" "set (wc_Statuses current) \<subseteq> set (wd_Statuses draft)"
    and arcs: "\<forall>(from, a)\<in>arcs (wd_Transitions draft). from \<in> wf_Key ` set (wd_Statuses draft) \<and> ar_To a \<in> wf_Key ` set (wd_Statuses draft)"
    and init: "\<forall>t\<in>set (wc_Types current). initial_of (wd_Initial draft) (rt_Key t) \<in> wf_Key ` set (wd_Statuses draft)"
  obtains ts where "tables_ok db'" "arcs ts = arcs (wd_Transitions draft)"
    "resolvedConfigSQL ws k db' = Inr \<lparr>wc_Version = wc_Version current + 1, wc_Statuses = wd_Statuses draft,
       wc_Types = map (\<lambda>t. t\<lparr>rt_Initial := initial_of (wd_Initial draft) (rt_Key t)\<rparr>) (wc_Types current), wc_Transitions = ts, wc_Fields = wc_Fields current\<rparr>"
proof -
  define S where "S = set (wd_Statuses draft)"
  define new where "new = wc_Version current + 1"
  define newc where "newc = \<lparr>pc_ProjectID = pj_ID p, pc_Version = new, pc_SourceYaml = None, pc_AppliedAt = now, pc_AppliedBy = Some who\<rparr>"
  note cfg = cur(1) [unfolded resolvedConfig_Inr [OF assms(2) p]]
  have S0: "named S (status_ids db (pj_ID p) (wc_Version current)) db"
  proof (rule named_start [OF assms(2)])
    show "set (resolved_statuses db (pj_ID p) (wc_Version current)) \<subseteq> S" using cfg ss(2) unfolding S_def by (metis workflowConfig.select_convs(2))
  qed
  obtain ids db1 where sv: "named S ids db1" "\<forall>s\<in>S. map_of ids (wf_Key s) \<noteq> None"
    "config_statuses db1 = config_statuses db @ new_status_rows (pj_ID p) new ids (List.enumerate 0 (wd_Statuses draft))"
    "only_statuses (db\<lparr>cd_store := (cd_store db)\<lparr>configs := configs (cd_store db) @ [newc]\<rparr>\<rparr>) db1" "\<not> version_known db (pj_ID p) new"
    "db' = db1\<lparr>config_types := config_types db @
        new_type_rows ids (wd_Initial draft) db (pj_ID p) (wc_Version current) new (wc_Types current),
      config_transitions := config_transitions db @ new_arcs (pj_ID p) new ids (wd_Transitions draft)\<rparr>"
    "type_rows_ok db1 (new_type_rows ids (wd_Initial draft) db (pj_ID p) (wc_Version current) new (wc_Types current))"
    "arc_rows_ok db1 (new_arcs (pj_ID p) new ids (wd_Transitions draft))"
    by (rule save_draft_Inr [OF assms(1,2) _ cur(3) S0 [unfolded S_def], folded S_def new_def, folded newc_def]) (use cur(2) in auto)
  have keep: "\<exists>add. statuses (cd_store db') = statuses (cd_store db) @ add" "item_types (cd_store db') = item_types (cd_store db)" "projects (cd_store db') = projects (cd_store db)"
    "configs (cd_store db') = configs (cd_store db) @ [newc]" "field_defs db' = field_defs db"
    using sv(4) unfolding sv(6) by (simp_all add: only_statuses_def)
  have nm: "named S ids db'" using sv(1) unfolding sv(6) by (simp add: named_def)
  have inj: "inj_on wf_Key S" using ss(1) by (simp add: S_def distinct_map)
  have "tables_ok db'"
  proof (rule tables_ok_extend [OF assms(2) nm keep(1-3)])
    show "config_statuses db' = config_statuses db @ new_status_rows (pj_ID p) new ids (List.enumerate 0 (wd_Statuses draft))" using sv(3,6) by simp
    show "\<forall>x\<in>set (new_status_rows (pj_ID p) new ids (List.enumerate 0 (wd_Statuses draft))). version_known db' (cs_ProjectID x) (cs_Version x) \<and> cs_StatusID x \<in> st_ID ` set (statuses (cd_store db'))"
      using named_status(4) [OF nm inj] sv(2) keep(4) by (auto simp: new_status_rows_def in_set_enumerate_eq S_def version_known_def newc_def)
  qed (use sv keep(4) in \<open>auto simp: type_row_ok_def arc_row_ok_def\<close>)
  moreover have "resolved_statuses db' (pj_ID p) new = wd_Statuses draft"
    by (rule resolved_statuses_new [OF nm [unfolded S_def] ss(1) sv(2) [unfolded S_def]]) (simp add: sv(3,6) no_rows_yet [OF assms(2) sv(5)] new_rows_filter)
  moreover have "resolved_types db' (pj_ID p) new = map (\<lambda>t. t\<lparr>rt_Initial := initial_of (wd_Initial draft) (rt_Key t)\<rparr>) (wc_Types current)"
  proof (rule resolved_types_new [OF assms(2) calculation(1) _ cur(4) nm inj sv(2) _ keep(2)])
    show "wc_Types current = resolved_types db (pj_ID p) (wc_Version current)" using cfg by (metis workflowConfig.select_convs(3))
    show "\<forall>kind\<in>set (wc_Types current). \<exists>s\<in>S. initial_of (wd_Initial draft) (rt_Key kind) = wf_Key s" using init by (auto simp: S_def)
  qed (simp add: sv(6) old_types_def no_rows_yet [OF assms(2) sv(5)] new_rows_filter)
  moreover have "arcs (resolved_transitions db' (pj_ID p) new) = arcs (wd_Transitions draft)"
    by (rule resolved_transitions_new [OF nm inj sv(2)]) (use arcs in \<open>simp_all add: S_def sv(6) no_rows_yet [OF assms(2) sv(5)] new_rows_filter\<close>)
  moreover have "sql_max (map (\<lambda>c. Some (pc_Version c)) (filter (\<lambda>c. pc_ProjectID c = pj_ID p) (configs (cd_store db')))) = Some new"
    using sql_max_snoc [of "filter (\<lambda>c. pc_ProjectID c = pj_ID p) (configs (cd_store db))" pc_Version new] sql_max_bound [OF conjunct1 [OF cfg]]
    by (force simp: keep(4) newc_def new_def)
  moreover have "wc_Fields current = sort_key fd_Key (filter (\<lambda>f. fd_ProjectID f = pj_ID p) (field_defs db))" using cfg by (metis workflowConfig.select_convs(5))
  ultimately show thesis using that [of "resolved_transitions db' (pj_ID p) new"] p keep(3,5)
    by (simp add: resolvedConfig_Inr [of db' p ws k] new_def)
qed

text \<open>What the checks give for the draft and the current configuration\<close>

lemma check_draft_Inr:
  assumes "check_draft keys current draft = Inr ()"
  shows "set (wc_Statuses current) \<subseteq> set keys"
    "\<forall>(from, as)\<in>set (wd_Transitions draft). (\<forall>a\<in>set as. arc_ok keys (known_fields (wc_Fields current)) from a) \<and> distinct (map ar_To as)"
    "\<forall>t\<in>set (wc_Types current). initial_of (wd_Initial draft) (rt_Key t) \<in> wf_Key ` set keys"
proof -
  from assms have c: "\<exists>u. rfold (check_retained keys) () (wc_Statuses current) = Inr u" "check_transitions keys (known_fields (wc_Fields current)) (wd_Transitions draft) = Inr ()"
    "check_initial keys (wd_Initial draft) (wc_Types current) = Inr ()" by (auto simp: check_draft_def result_simps)
  from c(1) show "set (wc_Statuses current) \<subseteq> set keys" using check_retained_Inr by blast
  show "\<forall>(from, as)\<in>set (wd_Transitions draft). (\<forall>a\<in>set as. arc_ok keys (known_fields (wc_Fields current)) from a) \<and> distinct (map ar_To as)" by (rule check_transitions_Inr [OF c(2)])
  show "\<forall>t\<in>set (wc_Types current). initial_of (wd_Initial draft) (rt_Key t) \<in> wf_Key ` set keys"
    using c(3) unfolding check_initial_def status_at_iff by (auto simp: result_simps list_all_iff split: if_splits)
qed

lemma updateWorkflow_final:
  assumes "updateWorkflow lower now fresh r ifMatch (Inr draft) db = Inr (final, db')" "tables_ok db"
    and "resolvedConfigSQL (rq_WorkspaceID r) (rq_Key r) db = Inr current" "distinct (map rt_Key (wc_Types current))" "wc_Version current < 2 ^ 31 - 1"
  obtains ts where "tables_ok db'" "arcs ts = arcs (wd_Transitions draft)" "resolvedConfigSQL (rq_WorkspaceID r) (rq_Key r) db' = Inr final"
    "final = \<lparr>wc_Version = wc_Version current + 1, wc_Statuses = wd_Statuses draft,
       wc_Types = map (\<lambda>t. t\<lparr>rt_Initial := initial_of (wd_Initial draft) (rt_Key t)\<rparr>) (wc_Types current), wc_Transitions = ts, wc_Fields = wc_Fields current\<rparr>"
    "check_draft (wd_Statuses draft) current draft = Inr ()" "distinct (map wf_Key (wd_Statuses draft))" "wd_Statuses draft \<noteq> []"
proof -
  from assms(1) obtain p cur where p: "p \<in> set (projects (cd_store db))" "pj_WorkspaceID p = rq_WorkspaceID r" "pj_KeyPrefix p = rq_Key r"
    and c: "resolvedConfigSQL (rq_WorkspaceID r) (rq_Key r) db = Inr cur" "1 \<le> wc_Version cur" "check_statuses lower (wd_Statuses draft) = Inr (wd_Statuses draft)"
    "check_draft (wd_Statuses draft) cur draft = Inr ()" "save_draft now fresh (rq_UserID r) (pj_ID p) cur draft db = Inr db'"
    "resolvedConfigSQL (rq_WorkspaceID r) (rq_Key r) db' = Inr final" by (rule updateWorkflow_Inr)
  have cur: "cur = current" using c(1) assms(3) by simp
  note d = check_draft_Inr [OF c(4)] and s = check_statuses_Inr [OF c(3)]
  have arcs: "\<forall>(from, a)\<in>arcs (wd_Transitions draft). from \<in> wf_Key ` set (wd_Statuses draft) \<and> ar_To a \<in> wf_Key ` set (wd_Statuses draft)"
    using d(2) by (fastforce simp: arcs_def arc_ok_def)
  obtain ts where "tables_ok db'" "arcs ts = arcs (wd_Transitions draft)"
    "resolvedConfigSQL (rq_WorkspaceID r) (rq_Key r) db' = Inr \<lparr>wc_Version = wc_Version cur + 1, wc_Statuses = wd_Statuses draft,
       wc_Types = map (\<lambda>t. t\<lparr>rt_Initial := initial_of (wd_Initial draft) (rt_Key t)\<rparr>) (wc_Types cur), wc_Transitions = ts, wc_Fields = wc_Fields cur\<rparr>"
    by (rule save_draft_reads [OF c(5) assms(2) p c(1,2) _ _ s(2) d(1) arcs d(3)]) (use assms(4,5) cur in auto)
  then show thesis using that c(4,6) s cur by auto
qed

text \<open>
  C16. What the editor saves is what it shows next: after an accepted edit the configuration of the project has the next
  version, exactly the statuses of the draft in their order, exactly its arcs with their requirements, and for
  every type the initial status the draft chose; statuses of the previous version are all kept, types and
  fields are the same otherwise.
\<close>

theorem updateWorkflow_saves:
  assumes "updateWorkflow lower now fresh r ifMatch (Inr draft) db = Inr (final, db')" "tables_ok db"
    and "resolvedConfigSQL (rq_WorkspaceID r) (rq_Key r) db = Inr current" "distinct (map rt_Key (wc_Types current))" "wc_Version current < 2 ^ 31 - 1"
  shows "resolvedConfigSQL (rq_WorkspaceID r) (rq_Key r) db' = Inr final \<and> wc_Version final = wc_Version current + 1 \<and>
    wc_Statuses final = wd_Statuses draft \<and> set (wc_Statuses current) \<subseteq> set (wc_Statuses final) \<and> arcs (wc_Transitions final) = arcs (wd_Transitions draft) \<and>
    wc_Types final = map (\<lambda>t. t\<lparr>rt_Initial := initial_of (wd_Initial draft) (rt_Key t)\<rparr>) (wc_Types current) \<and> wc_Fields final = wc_Fields current"
  using assms by (rule updateWorkflow_final) (use check_draft_Inr(1) in auto)

text \<open>
  C19. The editor leaves a workflow in order: keys of statuses are unique, every arc joins two different configured statuses,
  there is at most one arc from a status to another, requirements are known fields without repetition, and every type
  starts in a configured status.  The constraints of the tables that this rests on hold afterwards as well.
\<close>

theorem updateWorkflow_valid:
  assumes "updateWorkflow lower now fresh r ifMatch (Inr draft) db = Inr (final, db')" "tables_ok db"
    and "resolvedConfigSQL (rq_WorkspaceID r) (rq_Key r) db = Inr current" "distinct (map rt_Key (wc_Types current))" "wc_Version current < 2 ^ 31 - 1"
    and "distinct (map fst (wd_Transitions draft))"
  shows "workflow_ok final \<and> tables_ok db' \<and> distinct (map rt_Key (wc_Types final))"
proof -
  from assms(1-5) obtain ts where f: "tables_ok db'" "arcs ts = arcs (wd_Transitions draft)"
    "final = \<lparr>wc_Version = wc_Version current + 1, wc_Statuses = wd_Statuses draft,
       wc_Types = map (\<lambda>t. t\<lparr>rt_Initial := initial_of (wd_Initial draft) (rt_Key t)\<rparr>) (wc_Types current), wc_Transitions = ts, wc_Fields = wc_Fields current\<rparr>"
    and c: "check_draft (wd_Statuses draft) current draft = Inr ()" and s: "distinct (map wf_Key (wd_Statuses draft))" "wd_Statuses draft \<noteq> []" by (rule updateWorkflow_final)
  note d = check_draft_Inr [OF c]
  have "\<forall>(from, a)\<in>arcs (wd_Transitions draft). arc_ok (wd_Statuses draft) (known_fields (wc_Fields current)) from a" using d(2) by (fastforce simp: arcs_def)
  moreover have "a = b" if "(from, a) \<in> arcs (wd_Transitions draft)" "(from, b) \<in> arcs (wd_Transitions draft)" "ar_To a = ar_To b" for "from" a b
  proof -
    from that(1,2) obtain as bs where *: "(from, as) \<in> set (wd_Transitions draft)" "(from, bs) \<in> set (wd_Transitions draft)" "a \<in> set as" "b \<in> set bs" by (auto simp: arcs_def)
    have "as = bs" using * assms(6) by (metis eq_key_imp_eq_value)
    moreover have "distinct (map ar_To as)" using d(2) *(1) by fastforce
    ultimately show ?thesis using * that(3) by (metis distinct_map inj_onD)
  qed
  ultimately show ?thesis using f s d(3) assms(4) by (auto simp: workflow_ok_def comp_def)
qed

text \<open>The older versions\<close>

lemma join_status_extend:
  assumes "statuses (cd_store db') = statuses (cd_store db) @ add" "distinct (map st_ID (statuses (cd_store db')))" "u \<in> st_ID ` set (statuses (cd_store db))"
  shows "join_status db' u = join_status db u"
proof -
  have "filter (\<lambda>s. st_ID s = u) add = []" using assms by (force simp: filter_empty_conv)
  then show ?thesis by (simp add: join_status_def assms(1))
qed

lemma versions_kept:
  assumes "tables_ok db" "statuses (cd_store db') = statuses (cd_store db) @ add" "distinct (map st_ID (statuses (cd_store db')))" "item_types (cd_store db') = item_types (cd_store db)"
    and "filter (\<lambda>x. cs_ProjectID x = q \<and> cs_Version x = v) (config_statuses db') = filter (\<lambda>x. cs_ProjectID x = q \<and> cs_Version x = v) (config_statuses db)"
    and "filter (\<lambda>x. ct_ProjectID x = q \<and> ct_Version x = v) (config_types db') = filter (\<lambda>x. ct_ProjectID x = q \<and> ct_Version x = v) (config_types db)"
    and "filter (\<lambda>x. cr_ProjectID x = q \<and> cr_Version x = v) (config_transitions db') = filter (\<lambda>x. cr_ProjectID x = q \<and> cr_Version x = v) (config_transitions db)"
  shows "resolved_statuses db' q v = resolved_statuses db q v" "resolved_types db' q v = resolved_types db q v" "resolved_transitions db' q v = resolved_transitions db q v"
proof -
  have j: "u \<in> st_ID ` set (statuses (cd_store db)) \<Longrightarrow> join_status db' u = join_status db u" for u by (rule join_status_extend [OF assms(2,3)])
  have t: "join_type db' = join_type db" by (simp add: fun_eq_iff join_type_def assms(4))
  have "config_status_rows db' q v = config_status_rows db q v" unfolding config_status_rows_def assms(5)
    using assms(1) by (intro arg_cong [where f = concat] map_cong) (auto simp: tables_ok_def j)
  then show "resolved_statuses db' q v = resolved_statuses db q v" by (simp add: resolved_statuses_def)
  show "resolved_types db' q v = resolved_types db q v" unfolding resolved_types_def assms(6) t
    using assms(1) by (intro arg_cong [where f = "sort_key _"] arg_cong [where f = concat] map_cong) (auto simp: tables_ok_def j)
  have "transition_rows db' q v = transition_rows db q v" unfolding transition_rows_def assms(7)
    using assms(1) by (intro arg_cong [where f = concat] map_cong) (auto simp: tables_ok_def j)
  then show "resolved_transitions db' q v = resolved_transitions db q v" by (simp add: resolved_transitions_def)
qed

lemma other_rows_filter:
  assumes "\<not> (q = p \<and> v = new)"
  shows "filter (\<lambda>x. cs_ProjectID x = q \<and> cs_Version x = v) (new_status_rows p new ids ss) = []"
    "filter (\<lambda>x. ct_ProjectID x = q \<and> ct_Version x = v) (new_type_rows ids initial db p old new kinds) = []"
    "filter (\<lambda>x. cr_ProjectID x = q \<and> cr_Version x = v) (new_arcs p new ids ts) = []"
  using assms by (auto simp: filter_empty_conv new_status_rows_def new_type_rows_def moved_type_def kind_rows_def old_types_def new_arcs_def new_arc_def)

text \<open>
  C20. An edit never changes a version that exists: the statuses, types and transitions of every earlier version of every
  project are afterwards what they were, so an item that refers to one keeps its meaning.
\<close>

theorem updateWorkflow_keeps_versions:
  assumes "updateWorkflow lower now fresh r ifMatch (Inr draft) db = Inr (final, db')" "tables_ok db"
    and "resolvedConfigSQL (rq_WorkspaceID r) (rq_Key r) db = Inr current" "wc_Version current < 2 ^ 31 - 1" "version_known db q v"
  shows "resolved_statuses db' q v = resolved_statuses db q v \<and> resolved_types db' q v = resolved_types db q v \<and> resolved_transitions db' q v = resolved_transitions db q v"
proof -
  from assms(1) obtain p cur where p: "p \<in> set (projects (cd_store db))" "pj_WorkspaceID p = rq_WorkspaceID r" "pj_KeyPrefix p = rq_Key r"
    and c: "resolvedConfigSQL (rq_WorkspaceID r) (rq_Key r) db = Inr cur" "1 \<le> wc_Version cur"
    "check_draft (wd_Statuses draft) cur draft = Inr ()" "save_draft now fresh (rq_UserID r) (pj_ID p) cur draft db = Inr db'" by (rule updateWorkflow_Inr)
  have cur: "cur = current" using c(1) assms(3) by simp
  have "resolved_statuses db (pj_ID p) (wc_Version cur) = wc_Statuses cur" using c(1) [unfolded resolvedConfig_Inr [OF assms(2) p]] by (metis workflowConfig.select_convs(2))
  then have "named (set (wd_Statuses draft)) (status_ids db (pj_ID p) (wc_Version cur)) db" using named_start [OF assms(2)] check_draft_Inr(1) [OF c(3)] by simp
  from c(4) assms(2) _ _ this obtain ids db1 where sv: "named (set (wd_Statuses draft)) ids db1"
    "config_statuses db1 = config_statuses db @ new_status_rows (pj_ID p) (wc_Version cur + 1) ids (List.enumerate 0 (wd_Statuses draft))"
    "only_statuses (db\<lparr>cd_store := (cd_store db)\<lparr>configs := configs (cd_store db) @ [\<lparr>pc_ProjectID = pj_ID p, pc_Version = wc_Version cur + 1, pc_SourceYaml = None, pc_AppliedAt = now, pc_AppliedBy = Some (rq_UserID r)\<rparr>]\<rparr>\<rparr>) db1"
    "\<not> version_known db (pj_ID p) (wc_Version cur + 1)"
    "db' = db1\<lparr>config_types := config_types db @ new_type_rows ids (wd_Initial draft) db (pj_ID p) (wc_Version cur) (wc_Version cur + 1) (wc_Types cur),
      config_transitions := config_transitions db @ new_arcs (pj_ID p) (wc_Version cur + 1) ids (wd_Transitions draft)\<rparr>"
    by (rule save_draft_Inr) (use c(2) assms(4) cur in auto)
  have o: "\<not> (q = pj_ID p \<and> v = wc_Version cur + 1)" using sv(4) assms(5) by blast
  from sv(3) obtain add where "statuses (cd_store db1) = statuses (cd_store db) @ add" "item_types (cd_store db1) = item_types (cd_store db)" by (auto simp: only_statuses_def)
  moreover have "distinct (map st_ID (statuses (cd_store db1)))" using sv(1) by (simp add: named_def)
  ultimately show ?thesis by (intro conjI versions_kept [OF assms(2)]) (simp_all add: sv(2,5) other_rows_filter [OF o])
qed

subsection \<open>An example\<close>

definition demo_config :: config_db where
  "demo_config = \<lparr>cd_store = \<lparr>workspaces = [], users = [\<lparr>ua_ID = 9, ua_Email = ''a'', ua_DisplayName = ''A''\<rparr>],
       projects = [\<lparr>pj_ID = 2, pj_WorkspaceID = 1, pj_KeyPrefix = ''SX'', pj_Name = ''Sierx'', pj_Kind = ''delivery'', pj_NextKeyNum = 1, pj_ArchivedAt = None, pj_OwnerID = None, pj_Version = 1, pj_UpdatedAt = 0\<rparr>],
       configs = [\<lparr>pc_ProjectID = 2, pc_Version = 1, pc_SourceYaml = None, pc_AppliedAt = 0, pc_AppliedBy = None\<rparr>],
       statuses = [\<lparr>st_ID = 3, st_ProjectID = 2, st_Key = ''todo'', st_Name = ''To do'', st_Category = ''open''\<rparr>],
       item_types = [\<lparr>ty_ID = 4, ty_ProjectID = 2, ty_Key = ''task'', ty_Name = ''Task'', ty_Level = 0, ty_IsIdea = False\<rparr>],
       items = [], rollups = [], links = [], comments = [], events = [], counters = [], restrictions = []\<rparr>,
     config_statuses = [\<lparr>cs_ProjectID = 2, cs_Version = 1, cs_StatusID = 3, cs_DisplayOrder = 0\<rparr>],
     config_types = [\<lparr>ct_ProjectID = 2, ct_Version = 1, ct_ItemTypeID = 4, ct_InitialStatusID = 3\<rparr>], config_transitions = [], field_defs = []\<rparr>"

definition demo_draft :: workflowDraft where
  "demo_draft = \<lparr>wd_Statuses = [\<lparr>wf_Key = ''done'', wf_Name = ''Done'', wf_Category = ''done''\<rparr>, \<lparr>wf_Key = ''todo'', wf_Name = ''To do'', wf_Category = ''open''\<rparr>],
     wd_Transitions = [(''todo'', [\<lparr>ar_To = ''done'', ar_Requires = [''points'']\<rparr>])], wd_Initial = [(''task'', ''todo'')]\<rparr>"

definition demo_edit :: request where
  "demo_edit = \<lparr>rq_Query = [], rq_Path = [], rq_WorkspaceID = 1, rq_UserID = 9, rq_Role = ''admin'', rq_Key = ''SX''\<rparr>"

definition demo_current :: workflowConfig where
  "demo_current = \<lparr>wc_Version = 1, wc_Statuses = [\<lparr>wf_Key = ''todo'', wf_Name = ''To do'', wf_Category = ''open''\<rparr>],
     wc_Types = [\<lparr>rt_Key = ''task'', rt_Name = ''Task'', rt_Level = 0, rt_IsIdea = False, rt_Initial = ''todo''\<rparr>], wc_Transitions = [], wc_Fields = []\<rparr>"

abbreviation demo_update :: "refusal + workflowConfig \<times> config_db" where
  "demo_update \<equiv> updateWorkflow (\<lambda>s. s) 0 (\<lambda>i. 100 + of_nat i) demo_edit [CHR 0x22, CHR ''1'', CHR 0x22] (Inr demo_draft) demo_config"

lemma demo_current_read: "resolvedConfigSQL (rq_WorkspaceID demo_edit) (rq_Key demo_edit) demo_config = Inr demo_current"
  by code_simp

lemma demo_tables: "tables_ok demo_config"
  by (simp add: tables_ok_def demo_config_def version_known_def)

lemma demo_update_accepted: "\<exists>final db'. demo_update = Inr (final, db')"
proof -
  have "\<not> isl demo_update" by code_simp
  then show ?thesis by (cases demo_update) auto
qed

theorem updateWorkflow_saves_witness:
  "\<exists>final db'. demo_update = Inr (final, db') \<and> wc_Version final = 2 \<and> wc_Statuses final = wd_Statuses demo_draft \<and> arcs (wc_Transitions final) = arcs (wd_Transitions demo_draft)"
proof -
  obtain final db' where u: "demo_update = Inr (final, db')" using demo_update_accepted by blast
  from updateWorkflow_saves [OF u demo_tables demo_current_read] u show ?thesis by (simp add: demo_current_def)
qed

theorem updateWorkflow_valid_witness: "\<exists>final db'. demo_update = Inr (final, db') \<and> workflow_ok final"
proof -
  obtain final db' where u: "demo_update = Inr (final, db')" using demo_update_accepted by blast
  from updateWorkflow_valid [OF u demo_tables demo_current_read] u show ?thesis by (simp add: demo_current_def demo_draft_def)
qed

theorem updateWorkflow_keeps_versions_witness: "\<exists>final db'. demo_update = Inr (final, db') \<and> resolved_statuses db' 2 1 = resolved_statuses demo_config 2 1"
proof -
  obtain final db' where u: "demo_update = Inr (final, db')" using demo_update_accepted by blast
  have v: "version_known demo_config 2 1" by (simp add: version_known_def demo_config_def)
  from updateWorkflow_keeps_versions [OF u demo_tables demo_current_read _ v] u show ?thesis by (simp add: demo_current_def)
qed

end
