(* ===== verification/Sx_Input.thy ===== *)
theory Sx_Input
  imports Sx_Auth Sx_Workflow "HOL-Library.Log_Nat"
begin

text \<open>
  The input of an item: decoding of the body into \<open>itemInput\<close> (\<open>src/internal/api/items.go\<close>) and
  \<open>validateInput\<close> (\<open>src/internal/api/validation.go\<close>), and that what passes fits the columns.
\<close>

subsection \<open>Floating point\<close>

text \<open>The exponent of the leading binary digit of a positive number\<close>

definition exponent2 :: "rat \<Rightarrow> int" where
  "exponent2 q = (case quotient_of q of (n, d) \<Rightarrow>
     let k = bitlen n - bitlen d in if 2 powi k \<le> q then k else k - 1)"

text \<open>The nearest \<open>float64\<close>, ties to even; \<open>None\<close> is out of range.\<close>

definition float64 :: "rat \<Rightarrow> rat option" where
  "float64 q =
     (if q = 0 then Some 0
      else let a = \<bar>q\<bar>; e = max (exponent2 a - 52) (- 1074); v = of_int (round_half_even (a / 2 powi e)) * 2 powi e in
        if v \<ge> 2 powi 1024 then None else Some (sgn q * v))"

text \<open>Arithmetic rounds; it stays in range for the numbers below.\<close>

definition fl :: "rat \<Rightarrow> rat" where
  "fl q = (case float64 q of None \<Rightarrow> 0 | Some v \<Rightarrow> v)"

definition math_Round :: "rat \<Rightarrow> rat" where
  "math_Round q = sgn q * of_int \<lfloor>\<bar>q\<bar> + 1 / 2\<rfloor>"

subsection \<open>Decoding\<close>

record itemInput =
  ii_Project :: string
  ii_Type :: string
  ii_Title :: string
  ii_Body :: "string option"
  ii_Parent :: "string option"
  ii_Assignee :: "string option"
  ii_Points :: "rat option"
  ii_StartDate :: "string option"
  ii_DueDate :: "string option"
  ii_Fields :: go_map

definition empty_input :: itemInput where
  "empty_input = \<lparr>ii_Project = [], ii_Type = [], ii_Title = [], ii_Body = None, ii_Parent = None, ii_Assignee = None, ii_Points = None,
     ii_StartDate = None, ii_DueDate = None, ii_Fields = None\<rparr>"

text \<open>A value of type \<open>any\<close>: numbers become \<open>float64\<close>.\<close>

fun any_value :: "json \<Rightarrow> json option" and any_values :: "json list \<Rightarrow> json list option" and any_entries :: "(string \<times> json) list \<Rightarrow> (string \<times> json) list option" where
  "any_value (JNum q) = map_option JNum (float64 q)"
| "any_value (JArr vs) = map_option JArr (any_values vs)"
| "any_value (JObj kvs) = map_option JObj (any_entries kvs)"
| "any_value v = Some v"
| "any_values [] = Some []"
| "any_values (v # vs) = (case (any_value v, any_values vs) of (Some w, Some ws) \<Rightarrow> Some (w # ws) | _ \<Rightarrow> None)"
| "any_entries [] = Some []"
| "any_entries ((k, v) # kvs) = (case (any_value v, any_entries kvs) of (Some w, Some ws) \<Rightarrow> Some ((k, w) # ws) | _ \<Rightarrow> None)"

definition text_or :: "json \<Rightarrow> string \<Rightarrow> string option" where
  "text_or v old = (case v of JNull \<Rightarrow> Some old | JStr s \<Rightarrow> Some s | _ \<Rightarrow> None)"

definition text_ptr :: "json \<Rightarrow> string option option" where
  "text_ptr v = (case v of JNull \<Rightarrow> Some None | JStr s \<Rightarrow> Some (Some s) | _ \<Rightarrow> None)"

text \<open>
  One entry of the object; a name matches the tag of a field without regard to the case of its letters (\<open>ToLower\<close>, and
  the long s).  An entry that has the wrong type is an error, an unknown one is skipped by \<open>json.Unmarshal\<close>.
\<close>

function (sequential) fold_name :: "string \<Rightarrow> string" where
  "fold_name [] = []"
| "fold_name (c # cs) = (if c = CHR 0xC5 \<and> take 1 cs = [CHR 0xBF] then CHR ''s'' # fold_name (drop 1 cs) else c # fold_name cs)"
  by pat_completeness auto
termination by (relation "measure length") auto

definition input_names :: "string list" where
  "input_names = [''project'', ''type'', ''title'', ''body'', ''parent'', ''assignee'', ''points'', ''start_date'', ''due_date'', ''fields'']"

definition folded :: "string \<Rightarrow> string" where
  "folded k = (if k \<in> set input_names then k else let f = ToLower (fold_name k) in if f \<in> set input_names \<and> CHR 0xC4 \<notin> set k then f else k)"

definition decode_entry :: "itemInput \<Rightarrow> string \<times> json \<Rightarrow> itemInput option" where
  "decode_entry inp entry =
     (case entry of (k, v) \<Rightarrow> let f = folded k in
      if f = ''project'' then map_option (\<lambda>s. inp\<lparr>ii_Project := s\<rparr>) (text_or v (ii_Project inp))
      else if f = ''type'' then map_option (\<lambda>s. inp\<lparr>ii_Type := s\<rparr>) (text_or v (ii_Type inp))
      else if f = ''title'' then map_option (\<lambda>s. inp\<lparr>ii_Title := s\<rparr>) (text_or v (ii_Title inp))
      else if f = ''body'' then map_option (\<lambda>s. inp\<lparr>ii_Body := s\<rparr>) (text_ptr v)
      else if f = ''parent'' then map_option (\<lambda>s. inp\<lparr>ii_Parent := s\<rparr>) (text_ptr v)
      else if f = ''assignee'' then map_option (\<lambda>s. inp\<lparr>ii_Assignee := s\<rparr>) (text_ptr v)
      else if f = ''points'' then
        (case v of JNull \<Rightarrow> Some (inp\<lparr>ii_Points := None\<rparr>) | JNum q \<Rightarrow> map_option (\<lambda>x. inp\<lparr>ii_Points := Some x\<rparr>) (float64 q) | _ \<Rightarrow> None)
      else if f = ''start_date'' then map_option (\<lambda>s. inp\<lparr>ii_StartDate := s\<rparr>) (text_ptr v)
      else if f = ''due_date'' then map_option (\<lambda>s. inp\<lparr>ii_DueDate := s\<rparr>) (text_ptr v)
      else if f = ''fields'' then
        (case v of
           JNull \<Rightarrow> Some (inp\<lparr>ii_Fields := None\<rparr>)
         | JObj kvs \<Rightarrow> map_option (\<lambda>ws. inp\<lparr>ii_Fields := Some (foldl (\<lambda>m (k, w). put k w m) (case ii_Fields inp of None \<Rightarrow> [] | Some m \<Rightarrow> m) ws)\<rparr>) (any_entries kvs)
         | _ \<Rightarrow> None)
      else Some inp)"

fun decode_entries :: "itemInput \<Rightarrow> (string \<times> json) list \<Rightarrow> itemInput option" where
  "decode_entries inp [] = Some inp"
| "decode_entries inp (e # es) = (case decode_entry inp e of None \<Rightarrow> None | Some inp' \<Rightarrow> decode_entries inp' es)"

definition decode_input :: "(string \<times> json) list \<Rightarrow> itemInput option" where
  "decode_input raw = decode_entries empty_input raw"

subsection \<open>Validation\<close>

text \<open>\<open>uuid.Parse\<close>, whether \<open>url.Parse\<close> gives a web address with a host, and the verb \<open>%q\<close> of \<open>fmt\<close> are arguments.\<close>

record input_env =
  parse_uuid :: "string \<Rightarrow> uuid option"
  web_address :: "string \<Rightarrow> bool"
  quote_text :: "string \<Rightarrow> string"

record api_db =
  ap_config :: config_db
  ap_auth :: auth_db

definition memberExists :: "input_env \<Rightarrow> api_db \<Rightarrow> uuid \<Rightarrow> string \<Rightarrow> bool" where
  "memberExists env db ws t =
     (case parse_uuid env t of
        None \<Rightarrow> False
      | Some u \<Rightarrow> list_ex (\<lambda>m. mb_WorkspaceID m = ws \<and> mb_UserID m = u) (memberships (ap_auth db)) \<and> active_account u (ap_auth db) \<noteq> None)"

definition points_ok :: "rat \<Rightarrow> bool" where
  "points_ok p = (let h = fl (p * 100) in \<not> (p < 0 \<or> p > fl (999999 / 100) \<or> \<bar>fl (h - math_Round h)\<bar> > fl (1 / 1000000)))"

definition dates_ok :: "string option \<Rightarrow> bool" where
  "dates_ok d = (case d of None \<Rightarrow> True | Some t \<Rightarrow> parse_DateOnly t \<noteq> None)"

definition value_ok :: "input_env \<Rightarrow> api_db \<Rightarrow> uuid \<Rightarrow> FieldDef \<Rightarrow> json \<Rightarrow> bool" where
  "value_ok env db ws def v =
     (let kind = fd_DataType def in
      if kind = ''text'' then (case v of JStr _ \<Rightarrow> True | _ \<Rightarrow> False)
      else if kind = ''number'' then (case v of JNum _ \<Rightarrow> True | _ \<Rightarrow> False)
      else if kind = ''bool'' then (case v of JBool _ \<Rightarrow> True | _ \<Rightarrow> False)
      else if kind = ''date'' then (case v of JStr t \<Rightarrow> parse_DateOnly t \<noteq> None | _ \<Rightarrow> False)
      else if kind = ''url'' then (case v of JStr t \<Rightarrow> web_address env t | _ \<Rightarrow> False)
      else if kind = ''user'' then (case v of JStr t \<Rightarrow> memberExists env db ws t | _ \<Rightarrow> False)
      else if kind = ''select'' then (case v of JStr t \<Rightarrow> t \<in> set (fd_Options def) | _ \<Rightarrow> False)
      else if kind = ''multiselect'' then
        (case v of JArr vs \<Rightarrow> list_all (\<lambda>w. case w of JStr t \<Rightarrow> t \<in> set (fd_Options def) | _ \<Rightarrow> False) vs | _ \<Rightarrow> False)
      else False)"

definition check_field :: "input_env \<Rightarrow> api_db \<Rightarrow> uuid \<Rightarrow> FieldDef list \<Rightarrow> unit \<Rightarrow> string \<times> json \<Rightarrow> string + unit" where
  "check_field env db ws defs u entry =
     (case entry of (k, v) \<Rightarrow>
      case find (\<lambda>d. fd_Key d = k) defs of
        None \<Rightarrow> Inl (''custom field '' @ quote_text env k @ '' is not configured for this project'')
      | Some def \<Rightarrow>
          guard_or (v = JNull \<or> value_ok env db ws def v)
            (''custom field '' @ quote_text env k @ '' must match its '' @ fd_DataType def @ '' definition and configured options''))"

definition validateInput :: "input_env \<Rightarrow> api_db \<Rightarrow> uuid \<Rightarrow> uuid \<Rightarrow> itemInput \<Rightarrow> bool \<Rightarrow> string + unit" where
  "validateInput env db ws project inp titleRequired =
     (if titleRequired \<and> (TrimSpace (ii_Title inp) = [] \<or> length (runes (ii_Title inp)) > 500) then Inl (''title must contain 1'' @ en_dash @ ''500 characters'')
      else if (case ii_Body inp of None \<Rightarrow> False | Some b \<Rightarrow> length b > 100000) then Inl ''body must not exceed 100000 bytes''
      else if (case ii_Points inp of None \<Rightarrow> False | Some p \<Rightarrow> \<not> points_ok p) then Inl ''points must be between 0 and 9999.99 with at most two decimal places''
      else if \<not> dates_ok (ii_StartDate inp) \<or> \<not> dates_ok (ii_DueDate inp) then Inl ''dates must use YYYY-MM-DD''
      else if (case ii_Assignee inp of None \<Rightarrow> False | Some a \<Rightarrow> \<not> memberExists env db ws a) then Inl ''assignee must identify an active workspace member''
      else case ii_Fields inp of
          None \<Rightarrow> Inr ()
        | Some [] \<Rightarrow> Inr ()
        | Some kvs \<Rightarrow> rfold (check_field env db ws (filter (\<lambda>d. fd_ProjectID d = project) (field_defs (ap_config db)))) () kvs)"

subsection \<open>What passes fits the columns\<close>

lemma rune_size_first: "rune_size (c # cs) \<noteq> None \<Longrightarrow> \<not> (128 \<le> (of_char c :: nat) \<and> (of_char c :: nat) < 192)"
  by (auto simp: rune_size_def utf8_first_def split: if_splits)

lemma rune_size_rest:
  assumes "rune_size s = Some n"
  shows "0 < n" "n \<le> length s" "utf8_length s = 1 + utf8_length (drop n s)"
proof -
  from assms obtain c cs where s: "s = c # cs" by (cases s) (auto simp: rune_size_def)
  from assms have n: "0 < n" "n \<le> length s" and l: "list_all (\<lambda>d. 128 \<le> (of_char d :: nat) \<and> (of_char d :: nat) \<le> 191) (take (n - 1) cs)"
    by (auto simp: s rune_size_def utf8_first_def split: if_splits)
  have "utf8_length (take (n - 1) cs) = 0" using l by (auto simp: utf8_length_def list_all_iff filter_empty_conv)
  moreover have "utf8_length s = 1 + utf8_length cs" using rune_size_first [of c cs] assms by (auto simp: s utf8_length_def)
  moreover have "utf8_length cs = utf8_length (take (n - 1) cs) + utf8_length (drop (n - 1) cs)"
    unfolding utf8_length_def by (metis append_take_drop_id filter_append length_append)
  moreover have "drop n s = drop (n - 1) cs" using n(1) by (cases n) (simp_all add: s)
  ultimately show "0 < n" "n \<le> length s" "utf8_length s = 1 + utf8_length (drop n s)" using n by simp_all
qed

text \<open>Go counts at least the characters that the database counts.\<close>

lemma utf8_length_runes: "utf8_length s \<le> length (runes s)"
proof (induction s rule: runes.induct)
  case (1 s)
  show ?case
  proof (cases "s = []")
    case False
    show ?thesis
    proof (cases "rune_size s")
      case None
      have "utf8_length s \<le> 1 + utf8_length (tl s)" using False by (cases s) (simp_all add: utf8_length_def)
      with 1(1) [OF False None] show ?thesis using False None by (simp add: runes.simps [of s])
    next
      case (Some n)
      note r = rune_size_rest [OF Some]
      have "max 1 n = n" using r(1) by simp
      with 1(2) [OF False Some] r(3) show ?thesis using False Some by (simp add: runes.simps [of s])
    qed
  qed (simp add: utf8_length_def)
qed

lemma utf8_length_valid: "ValidString s \<Longrightarrow> s \<noteq> [] \<Longrightarrow> 1 \<le> utf8_length s"
  by (cases s) (auto simp: utf8_length_def utf8_first_def split: if_splits)

lemma TrimSpace_Nil [simp]: "TrimSpace [] = []"
  by (simp add: TrimSpace_def strip_front.simps space_sequences_def find_None_iff)

lemma round_half_even_bounds: "\<lfloor>q\<rfloor> \<le> round_half_even q \<and> round_half_even q \<le> \<lfloor>q\<rfloor> + 1" "q - of_int \<lfloor>q\<rfloor> < 1 / 2 \<Longrightarrow> round_half_even q = \<lfloor>q\<rfloor>"
  by (simp_all add: round_half_even_def Let_def)

lemma fl_points: "fl (999999 / 100) < 9999995 / 1000"
  by code_simp

lemma points_ok_fits:
  assumes "points_ok p"
  shows "0 \<le> round_half_even (100 * p)" "round_half_even (100 * p) \<le> 999999"
proof -
  from assms have p: "0 \<le> p" "p \<le> fl (999999 / 100)" by (auto simp: points_ok_def Let_def)
  show "0 \<le> round_half_even (100 * p)" using round_half_even_bounds(1) [of "100 * p"] p(1) by (smt (verit) mult_nonneg_nonneg zero_le_floor zero_le_numeral)
  have lt: "100 * p < 1999999 / 2" using p(2) fl_points by simp
  then have f: "\<lfloor>100 * p\<rfloor> \<le> 999999" by (simp add: floor_le_iff)
  show "round_half_even (100 * p) \<le> 999999"
  proof (cases "\<lfloor>100 * p\<rfloor> = 999999")
    case True
    with lt round_half_even_bounds(2) [of "100 * p"] show ?thesis by simp
  next
    case False
    with f round_half_even_bounds(1) [of "100 * p"] show ?thesis by linarith
  qed
qed

text \<open>The parts of an accepted input\<close>

lemma validateInput_Inr:
  assumes "validateInput env db ws project inp titleRequired = Inr u"
  shows "numeric_ok 6 (toPgNumeric (ii_Points inp))"
    "titleRequired \<Longrightarrow> ValidString (ii_Title inp) \<Longrightarrow> 1 \<le> utf8_length (ii_Title inp) \<and> utf8_length (ii_Title inp) \<le> 500"
    "ii_StartDate inp \<noteq> None \<Longrightarrow> toPgDate (ii_StartDate inp) \<noteq> None" "ii_DueDate inp \<noteq> None \<Longrightarrow> toPgDate (ii_DueDate inp) \<noteq> None"
proof -
  from assms have p: "\<And>p. ii_Points inp = Some p \<Longrightarrow> points_ok p" and d: "dates_ok (ii_StartDate inp)" "dates_ok (ii_DueDate inp)"
    and t: "titleRequired \<Longrightarrow> TrimSpace (ii_Title inp) \<noteq> [] \<and> length (runes (ii_Title inp)) \<le> 500"
    by (auto simp: validateInput_def split: if_splits option.splits)
  show "numeric_ok 6 (toPgNumeric (ii_Points inp))"
    using points_ok_fits [OF p] by (cases "ii_Points inp") (simp_all add: numeric_ok_def toPgNumeric_def)
  show "1 \<le> utf8_length (ii_Title inp) \<and> utf8_length (ii_Title inp) \<le> 500" if req: "titleRequired" and valid: "ValidString (ii_Title inp)"
  proof -
    have "ii_Title inp \<noteq> []" using t [OF req] by auto
    then show ?thesis using utf8_length_valid [OF valid] utf8_length_runes [of "ii_Title inp"] t [OF req] by linarith
  qed
  have "parse_DateOnly [] = None" by (simp add: parse_DateOnly_def)
  then show "ii_StartDate inp \<noteq> None \<Longrightarrow> toPgDate (ii_StartDate inp) \<noteq> None" "ii_DueDate inp \<noteq> None \<Longrightarrow> toPgDate (ii_DueDate inp) \<noteq> None"
    using d by (auto simp: dates_ok_def toPgDate_def split: option.splits)
qed

end
