(* ===== verification/Sx_Items.thy ===== *)
theory Sx_Items
  imports Sx_Input Sx_Tree Sx_Pages
begin

text \<open>
  The handlers that create, change, move along the workflow and delete an item: \<open>src/internal/api/items.go\<close> and
  \<open>src/internal/api/transition.go\<close> over the store, the configuration and the members.  A handler answers with a
  problem or the document of the item and its version; the statements of a request see one state of the database.
\<close>

subsection \<open>Reading an item\<close>

text \<open>The columns of the registry, for a row with its joins\<close>

definition hundredths :: "int \<Rightarrow> json" where
  "hundredths h = JNum (of_int h / 100)"

definition date_json :: "date option \<Rightarrow> json" where
  "date_json d = json_opt JStr (fromPgDate d)"

definition item_doc :: "(int \<Rightarrow> string) \<Rightarrow> database \<Rightarrow> Item \<Rightarrow> Project \<Rightarrow> Status \<Rightarrow> ItemType \<Rightarrow> ItemRollup \<Rightarrow> (string \<times> json) list" where
  "item_doc ts db i p s t r =
     [(''id'', JStr (uuid_String (it_ID i))), (''key'', JStr (it_Key i)), (''title'', JStr (it_Title i)), (''body'', json_opt JStr (it_Body i)),
      (''version'', JNum (of_int (it_Version i))), (''change_seq'', JNum (of_int (it_ChangeSeq i))), (''config_version'', JNum (of_int (it_ConfigVersion i))),
      (''rank'', JStr (it_Rank i)), (''points'', json_opt hundredths (it_Points i)), (''start_date'', date_json (it_StartDate i)), (''due_date'', date_json (it_DueDate i)),
      (''created_at'', JStr (ts (it_CreatedAt i))), (''updated_at'', JStr (ts (it_UpdatedAt i))), (''deleted_at'', json_opt (\<lambda>a. JStr (ts a)) (it_DeletedAt i)),
      (''status'', JObj [(''key'', JStr (st_Key s)), (''name'', JStr (st_Name s)), (''category'', JStr (st_Category s))]),
      (''assignee'', case find (\<lambda>u. Some (ua_ID u) = it_AssigneeID i) (users db) of
         None \<Rightarrow> JNull | Some u \<Rightarrow> JObj [(''id'', JStr (uuid_String (ua_ID u))), (''display_name'', JStr (ua_DisplayName u))]),
      (''type'', JObj [(''key'', JStr (ty_Key t)), (''name'', JStr (ty_Name t)), (''level'', JNum (of_int (ty_Level t)))]),
      (''parent'', case find (\<lambda>x. Some (it_ID x) = it_ParentID i) (items db) of None \<Rightarrow> JNull | Some x \<Rightarrow> JObj [(''key'', JStr (it_Key x))]),
      (''project'', JObj [(''key_prefix'', JStr (pj_KeyPrefix p)), (''name'', JStr (pj_Name p))]),
      (''fields'', it_Fields i),
      (''rollup'', JObj [(''descendant_count'', JNum (of_int (ru_DescendantCount r))), (''done_count'', JNum (of_int (ru_DoneCount r))),
         (''points_total'', json_opt hundredths (ru_PointsTotal r)), (''points_done'', json_opt hundredths (ru_PointsDone r)),
         (''earliest_start'', date_json (ru_EarliestStart r)), (''latest_due'', date_json (ru_LatestDue r))])]"

definition all_fields :: "string list" where
  "all_fields = map pf_Name Registry"

definition readItem :: "(int \<Rightarrow> string) \<Rightarrow> uuid \<Rightarrow> string \<Rightarrow> string list \<Rightarrow> database \<Rightarrow> sql_error + (string \<times> json) list \<times> int" where
  "readItem ts ws key names db =
     rbind (some_or (find (\<lambda>i. it_WorkspaceID i = ws \<and> it_Key i = key) (items db)) NoRows) (\<lambda>i.
     rbind (some_or (find (\<lambda>p. pj_ID p = it_ProjectID i) (projects db)) NoRows) (\<lambda>p.
     rbind (some_or (find (\<lambda>s. st_ID s = it_StatusID i) (statuses db)) NoRows) (\<lambda>s.
     rbind (some_or (find (\<lambda>t. ty_ID t = it_ItemTypeID i) (item_types db)) NoRows) (\<lambda>t.
     rbind (some_or (find (\<lambda>r. ru_ItemID r = it_ID i) (rollups db)) NoRows) (\<lambda>r.
     Inr (Apply (item_doc ts db i p s t r) names, it_Version i))))))"

text \<open>\<open>customFields\<close>\<close>

definition customFields :: "uuid \<Rightarrow> config_db \<Rightarrow> (string \<times> string) list" where
  "customFields ws db =
     map (\<lambda>f. (fd_Key f, fd_DataType f))
       (filter (\<lambda>f. list_ex (\<lambda>p. pj_ID p = fd_ProjectID f \<and> pj_WorkspaceID p = ws) (projects (cd_store db))) (field_defs db))"

text \<open>The messages of \<open>projection.Parse\<close>; \<open>quote\<close> is the verb \<open>%q\<close>.\<close>

definition fields_text :: "(string \<Rightarrow> string) \<Rightarrow> fields_error \<Rightarrow> string" where
  "fields_text quote e =
     (case e of
        FieldsNotSupported \<Rightarrow> ''fields is not supported for this endpoint; remove it''
      | FieldsRequired \<Rightarrow> ''fields is required; choose fields such as key,title,status''
      | FieldsEmpty \<Rightarrow> ''fields must not be empty''
      | UnknownName name near \<Rightarrow> ''unknown field '' @ quote name @ ''; try '' @ quote near)"

definition selectedFields :: "(string \<Rightarrow> string) \<Rightarrow> request \<Rightarrow> Policy \<Rightarrow> config_db \<Rightarrow> Problem + string list" where
  "selectedFields quote r policy db =
     (case parse_fields (q_Get (rq_Query r) ''fields'') (q_Has (rq_Query r) ''fields'') policy (map fst (customFields (rq_WorkspaceID r) db)) of
        Inl e \<Rightarrow> Inl (requestProblem (fields_text quote e))
      | Inr names \<Rightarrow> Inr names)"

text \<open>\<open>writeCachedJSON\<close>: the tag and, unless the client has it, the body\<close>

definition writeCachedJSON :: "(json \<Rightarrow> string) \<Rightarrow> (string \<Rightarrow> string) \<Rightarrow> string \<Rightarrow> json \<Rightarrow> string \<times> string option" where
  "writeCachedJSON render hash ifNoneMatch v =
     (let body = render v; etag = ''W/'' @ CHR 0x22 # hash body @ [CHR 0x22] in
      (etag, if etagMatches ifNoneMatch etag then None else Some (body @ [CHR 0x0A])))"

definition getItem :: "(json \<Rightarrow> string) \<Rightarrow> (string \<Rightarrow> string) \<Rightarrow> (string \<Rightarrow> string) \<Rightarrow> (int \<Rightarrow> string) \<Rightarrow> request \<Rightarrow> string \<Rightarrow> config_db \<Rightarrow> Problem + string \<times> string option" where
  "getItem render hash quote ts r ifNoneMatch db =
     rbind (selectedFields quote r Optional db) (\<lambda>names.
     case readItem ts (rq_WorkspaceID r) (rq_Key r) names (cd_store db) of
       Inl e \<Rightarrow> Inl (databaseProblem e)
     | Inr (doc, _) \<Rightarrow> Inr (writeCachedJSON render hash ifNoneMatch (JObj doc)))"

subsection \<open>Problems\<close>

definition invalidChange :: "string \<Rightarrow> Problem" where
  "invalidChange detail = Unprocessable\<lparr>pb_Detail := detail\<rparr>"

definition storeProblem :: "store_error \<Rightarrow> Problem" where
  "storeProblem e = (case e of SqlError s \<Rightarrow> databaseProblem s | _ \<Rightarrow> Unavailable)"

definition mutationError :: "(int \<Rightarrow> string) \<Rightarrow> uuid \<Rightarrow> string \<Rightarrow> store_error \<Rightarrow> json \<Rightarrow> database \<Rightarrow> Problem" where
  "mutationError ts ws key e submitted db =
     (if e = ErrVersionConflict then
        (case readItem ts ws key all_fields db of
           Inl x \<Rightarrow> databaseProblem x
         | Inr (doc, v) \<Rightarrow> (Conflict (JObj doc))\<lparr>pb_Submitted := Some submitted\<rparr>)
      else storeProblem e)"

subsection \<open>Patches\<close>

text \<open>A value of type \<open>any\<close> in an event: \<open>nil\<close> is none.\<close>

definition any_of :: "json \<Rightarrow> json option" where
  "any_of v = (if v = JNull then None else Some v)"

definition decoded_any :: "json \<Rightarrow> json" where
  "decoded_any v = (case any_value v of None \<Rightarrow> JNull | Some w \<Rightarrow> w)"

definition field_change :: "string \<Rightarrow> json \<Rightarrow> json \<Rightarrow> FieldChange" where
  "field_change f old new = \<lparr>fc_Kind = [], fc_Field = f, fc_Old = any_of old, fc_New = any_of new\<rparr>"

definition empty_update :: "uuid \<Rightarrow> ItemUpdate" where
  "empty_update u = \<lparr>iu_ID = u, iu_Title = None, iu_Body = None, iu_SetBody = False, iu_StatusID = None, iu_ConfigVersion = None,
     iu_AssigneeID = None, iu_SetAssignee = False, iu_Points = None, iu_SetPoints = False, iu_StartDate = None, iu_SetStartDate = False,
     iu_DueDate = None, iu_SetDueDate = False, iu_Rank = None, iu_Fields = None\<rparr>"

definition object_entries :: "json \<Rightarrow> (string \<times> json) list" where
  "object_entries v = (case v of JObj kvs \<Rightarrow> kvs | _ \<Rightarrow> [])"

text \<open>
  One property of the patch, after the events and the merged document so far.  The custom fields are taken in the order of
  their names; \<open>old\<close> is the current value.
\<close>

type_synonym patch_state = "ItemUpdate \<times> FieldChange list \<times> (string \<times> json) list"

definition patch_custom :: "itemInput \<Rightarrow> json \<Rightarrow> patch_state \<Rightarrow> string + patch_state" where
  "patch_custom inp old st =
     (case st of (up, evs, merged) \<Rightarrow>
      case ii_Fields inp of
        None \<Rightarrow> Inl ''fields must be an object''
      | Some new \<Rightarrow>
          let olds = object_entries old; sorted_new = sort_key fst new;
              all = foldl (\<lambda>m (k, v). put k v m) olds sorted_new in
          Inr (up\<lparr>iu_Fields := Some (sort_key fst all)\<rparr>,
               evs @ map (\<lambda>(k, v). field_change (''fields.'' @ k) (get olds k) v) sorted_new,
               put ''fields'' (JObj all) merged))"

definition old_value :: "string \<Rightarrow> json \<Rightarrow> json" where
  "old_value f old = (if f = ''assignee'' then (case old of JObj kvs \<Rightarrow> get kvs ''id'' | v \<Rightarrow> v) else old)"

definition set_property :: "input_env \<Rightarrow> itemInput \<Rightarrow> string \<Rightarrow> ItemUpdate \<Rightarrow> ItemUpdate option" where
  "set_property env inp f up =
     (if f = ''title'' then Some (up\<lparr>iu_Title := Some (ii_Title inp)\<rparr>)
      else if f = ''body'' then Some (up\<lparr>iu_SetBody := True, iu_Body := ii_Body inp\<rparr>)
      else if f = ''assignee'' then
        Some (up\<lparr>iu_SetAssignee := True, iu_AssigneeID := (case ii_Assignee inp of None \<Rightarrow> iu_AssigneeID up
          | Some a \<Rightarrow> Some (case parse_uuid env a of None \<Rightarrow> 0 | Some u \<Rightarrow> u))\<rparr>)
      else if f = ''points'' then Some (up\<lparr>iu_SetPoints := True, iu_Points := ii_Points inp\<rparr>)
      else if f = ''start_date'' then Some (up\<lparr>iu_SetStartDate := True, iu_StartDate := ii_StartDate inp\<rparr>)
      else if f = ''due_date'' then Some (up\<lparr>iu_SetDueDate := True, iu_DueDate := ii_DueDate inp\<rparr>)
      else None)"

definition patch_property :: "input_env \<Rightarrow> itemInput \<Rightarrow> (string \<times> json) list \<Rightarrow> patch_state \<Rightarrow> string \<times> json \<Rightarrow> string + patch_state" where
  "patch_property env inp current st entry =
     (case entry of (f, raw) \<Rightarrow>
      if f = ''fields'' then patch_custom inp (get current f) st
      else case st of (up, evs, merged) \<Rightarrow>
        (case set_property env inp f up of
           None \<Rightarrow> Inl (''field '' @ f @ '' cannot be edited here; use its dedicated action'')
         | Some up' \<Rightarrow> Inr (up', evs @ [field_change f (old_value f (get current f)) (decoded_any raw)], put f (decoded_any raw) merged)))"

definition parsed_id :: "input_env \<Rightarrow> json \<Rightarrow> uuid" where
  "parsed_id env v = (case v of JStr t \<Rightarrow> (case parse_uuid env t of None \<Rightarrow> 0 | Some u \<Rightarrow> u) | _ \<Rightarrow> 0)"

definition itemPatch :: "input_env \<Rightarrow> api_db \<Rightarrow> uuid \<Rightarrow> uuid \<Rightarrow> (string \<times> json) list \<Rightarrow> (string \<times> json) list \<Rightarrow> string + patch_state" where
  "itemPatch env db ws project current raw =
     (case decode_input (sort_key fst raw) of
        None \<Rightarrow> Inl ''fields must contain valid editable item properties''
      | Some inp \<Rightarrow>
          rbind (validateInput env db ws project inp (map_of raw ''title'' \<noteq> None)) (\<lambda>_.
          rfold (patch_property env inp current) (empty_update (parsed_id env (get current ''id'')), [], current) (sort_key fst raw)))"

subsection \<open>Handlers\<close>

abbreviation api_store :: "api_db \<Rightarrow> database" where
  "api_store db \<equiv> cd_store (ap_config db)"

definition with_store :: "api_db \<Rightarrow> database \<Rightarrow> api_db" where
  "with_store db s = db\<lparr>ap_config := (ap_config db)\<lparr>cd_store := s\<rparr>\<rparr>"

type_synonym 'a answer = "(Problem + 'a) \<times> api_db"
type_synonym item_answer = "((string \<times> json) list \<times> int) answer"

text \<open>The answer of a handler that fails before it changes anything, and the reading of the item at its end\<close>

definition refused :: "api_db \<Rightarrow> Problem + 'a answer \<Rightarrow> 'a answer" where
  "refused db res = (case res of Inl p \<Rightarrow> (Inl p, db) | Inr ans \<Rightarrow> ans)"

definition or_database :: "sql_error + 'a \<Rightarrow> Problem + 'a" where
  "or_database res = (case res of Inl e \<Rightarrow> Inl (databaseProblem e) | Inr x \<Rightarrow> Inr x)"

definition or_detail :: "(string \<Rightarrow> Problem) \<Rightarrow> string + 'a \<Rightarrow> Problem + 'a" where
  "or_detail mk res = (case res of Inl d \<Rightarrow> Inl (mk d) | Inr x \<Rightarrow> Inr x)"

definition answer_item :: "(int \<Rightarrow> string) \<Rightarrow> uuid \<Rightarrow> string \<Rightarrow> api_db \<Rightarrow> item_answer" where
  "answer_item ts ws key db = (or_database (readItem ts ws key all_fields (api_store db)), db)"

text \<open>The call of the store, with the actor and the expected version, and what follows it\<close>

definition mutate_item :: "(int \<Rightarrow> string) \<Rightarrow> int \<Rightarrow> request \<Rightarrow> (Mutation \<Rightarrow> Mutation) \<Rightarrow> MutateOption list \<Rightarrow> json \<Rightarrow> (api_db \<Rightarrow> 'a answer) \<Rightarrow> api_db \<Rightarrow> 'a answer" where
  "mutate_item ts now r build opts submitted cont db =
     (case Mutate now (rq_WorkspaceID r) (\<lambda>m. Inr (build m)) (WithActor (rq_UserID r) # opts) (api_store db) of
        (Inl e, s) \<Rightarrow> (Inl (mutationError ts (rq_WorkspaceID r) (rq_Key r) e submitted s), with_store db s)
      | (Inr _, s) \<Rightarrow> cont (with_store db s))"

definition latest_version :: "uuid \<Rightarrow> config_db \<Rightarrow> int option" where
  "latest_version p db = sql_max (map (\<lambda>c. Some (pc_Version c)) (filter (\<lambda>c. pc_ProjectID c = p) (configs (cd_store db))))"

text \<open>The transition of the latest configuration from the status of the item to the status with the key\<close>

definition allowed_transition :: "uuid \<Rightarrow> string \<Rightarrow> string \<Rightarrow> config_db \<Rightarrow> (Item \<times> Status \<times> ConfigTransition) option" where
  "allowed_transition ws key to db =
     (case concat (map (\<lambda>i. concat (map (\<lambda>t. map (\<lambda>ct. (i, t, ct))
         (filter (\<lambda>ct. cr_ProjectID ct = it_ProjectID i \<and> cr_FromStatusID ct = it_StatusID i \<and> cr_ToStatusID ct = st_ID t \<and>
           latest_version (it_ProjectID i) db = Some (cr_Version ct)) (config_transitions db)))
         (filter (\<lambda>t. st_ProjectID t = it_ProjectID i \<and> st_Key t = to) (statuses (cd_store db)))))
       (filter (\<lambda>i. it_WorkspaceID i = ws \<and> it_Key i = key \<and> it_DeletedAt i = None) (items (cd_store db)))) of
        [] \<Rightarrow> None
      | row # _ \<Rightarrow> Some row)"

definition required_value :: "(string \<times> json) list \<Rightarrow> string \<Rightarrow> json" where
  "required_value merged f =
     (if take 7 f = ''fields.'' then get (object_entries (get merged ''fields'')) (drop 7 f) else get merged f)"

definition missing_fields :: "string list \<Rightarrow> (string \<times> json) list \<Rightarrow> string list" where
  "missing_fields requires merged = filter (\<lambda>f. required_value merged f = JNull \<or> required_value merged f = JStr []) requires"

definition status_change :: "(string \<times> json) list \<Rightarrow> string \<Rightarrow> FieldChange" where
  "status_change current to =
     \<lparr>fc_Kind = EventStatusChanged, fc_Field = ''status'', fc_Old = any_of (get (object_entries (get current ''status'')) ''key''), fc_New = Some (JStr to)\<rparr>"

definition transitionItem :: "input_env \<Rightarrow> (int \<Rightarrow> string) \<Rightarrow> int \<Rightarrow> request \<Rightarrow> string \<Rightarrow> Problem + string \<times> go_map \<Rightarrow> api_db \<Rightarrow> item_answer" where
  "transitionItem env ts now r ifMatch decoded db =
     refused db (rbind (rejectFields r) (\<lambda>_.
     rbind (expectedVersion ifMatch) (\<lambda>version.
     rbind decoded (\<lambda>(to, fields).
     let submitted = JObj [(''to_status'', JStr to), (''fields'', json_opt JObj fields)];
         raw = (case fields of None \<Rightarrow> [] | Some kvs \<Rightarrow> kvs) in
     rbind (or_database (readItem ts (rq_WorkspaceID r) (rq_Key r) all_fields (api_store db))) (\<lambda>(current, v).
     if v \<noteq> version then Inl (mutationError ts (rq_WorkspaceID r) (rq_Key r) ErrVersionConflict submitted (api_store db))
     else rbind (some_or (allowed_transition (rq_WorkspaceID r) (rq_Key r) to (ap_config db))
         (invalidChange ''to_status is not an allowed transition from the current status.'')) (\<lambda>(i, t, ct).
     rbind (or_detail invalidChange (itemPatch env db (rq_WorkspaceID r) (it_ProjectID i) current raw)) (\<lambda>(up, evs, merged).
     let missing = missing_fields (cr_Requires ct) merged in
     if missing \<noteq> [] then Inl (invalidChange (''Required fields are missing: '' @ join_with '', '' (sort missing) @ ''.''))
     else let up' = up\<lparr>iu_StatusID := Some (st_ID t), iu_ConfigVersion := Some (cr_Version ct)\<rparr> in
     Inr (mutate_item ts now r (Update up' (evs @ [status_change current to])) [WithExpectedVersion (iu_ID up) version] submitted
       (answer_item ts (rq_WorkspaceID r) (rq_Key r)) db))))))))"

definition editable :: "string list" where
  "editable = [''title'', ''body'', ''assignee'', ''points'', ''start_date'', ''due_date'', ''fields'']"

definition updateItem :: "input_env \<Rightarrow> (int \<Rightarrow> string) \<Rightarrow> int \<Rightarrow> request \<Rightarrow> string \<Rightarrow> Problem + (string \<times> json) list \<Rightarrow> api_db \<Rightarrow> item_answer" where
  "updateItem env ts now r ifMatch decoded db =
     refused db (rbind (rejectFields r) (\<lambda>_.
     rbind (expectedVersion ifMatch) (\<lambda>version.
     rbind decoded (\<lambda>raw.
     if raw = [] then Inl (requestProblem ''Provide at least one editable field.'')
     else case find (\<lambda>(f, v). f \<notin> set editable) raw of
       Some (f, _) \<Rightarrow> Inl (requestProblem (''Field '' @ f @ '' cannot be edited here. Use its dedicated action.''))
     | None \<Rightarrow>
     rbind (some_or (decode_input (sort_key fst raw)) BadRequest) (\<lambda>inp.
     rbind (or_database (readItem ts (rq_WorkspaceID r) (rq_Key r) all_fields (api_store db))) (\<lambda>(current, v).
     rbind (or_database (some_or (find (\<lambda>i. it_WorkspaceID i = rq_WorkspaceID r \<and> it_Key i = rq_Key r) (items (api_store db))) NoRows)) (\<lambda>i.
     rbind (or_detail requestProblem (validateInput env db (rq_WorkspaceID r) (it_ProjectID i) inp (map_of raw ''title'' \<noteq> None))) (\<lambda>_.
     rbind (or_detail (\<lambda>d. requestProblem (d @ ''.'')) (rfold (patch_property env inp current) (empty_update (parsed_id env (get current ''id'')), [], current) (sort_key fst raw))) (\<lambda>(up, evs, _).
     if evs = [] then Inl (requestProblem ''Provide at least one editable field.'')
     else Inr (mutate_item ts now r (Update up evs) [WithExpectedVersion (iu_ID up) version] (JObj raw) (answer_item ts (rq_WorkspaceID r) (rq_Key r)) db))))))))))"

definition deleteItem :: "(int \<Rightarrow> string) \<Rightarrow> int \<Rightarrow> request \<Rightarrow> string \<Rightarrow> api_db \<Rightarrow> item_answer" where
  "deleteItem ts now r ifMatch db =
     refused db (rbind (rejectFields r) (\<lambda>_.
     rbind (expectedVersion ifMatch) (\<lambda>version.
     rbind (or_database (some_or (find (\<lambda>i. it_WorkspaceID i = rq_WorkspaceID r \<and> it_Key i = rq_Key r) (items (api_store db))) NoRows)) (\<lambda>i.
     Inr (mutate_item ts now r (SoftDelete (it_ID i)) [WithExpectedVersion (it_ID i) version] (JObj [(''deleted'', JBool True)])
       (\<lambda>db'. (Inr ([(''key'', JStr (rq_Key r)), (''deleted'', JBool True)], version), db')) db)))))"

text \<open>
  \<open>createItem\<close>: the project, the type with its initial status and the version of the latest configuration; \<open>fresh\<close> is the
  new identifier.
\<close>

definition creation_row :: "uuid \<Rightarrow> string \<Rightarrow> string \<Rightarrow> config_db \<Rightarrow> (Project \<times> ItemType \<times> uuid \<times> int \<times> uuid) option" where
  "creation_row ws prefix_key kind db =
     (case concat (map (\<lambda>p. concat (map (\<lambda>w. concat (map (\<lambda>ct. map (\<lambda>t. (p, t, ct_InitialStatusID ct, ct_Version ct, ws_OriginID w))
         (filter (\<lambda>t. ty_ID t = ct_ItemTypeID ct \<and> ty_Key t = kind) (item_types (cd_store db))))
         (filter (\<lambda>ct. ct_ProjectID ct = pj_ID p \<and> latest_version (pj_ID p) db = Some (ct_Version ct)) (config_types db))))
         (filter (\<lambda>w. ws_ID w = pj_WorkspaceID p) (workspaces (cd_store db)))))
       (filter (\<lambda>p. pj_WorkspaceID p = ws \<and> pj_KeyPrefix p = prefix_key \<and> pj_ArchivedAt p = None) (projects (cd_store db)))) of
        [] \<Rightarrow> None
      | row # _ \<Rightarrow> Some row)"

definition parent_item :: "uuid \<Rightarrow> uuid \<Rightarrow> string option \<Rightarrow> database \<Rightarrow> sql_error + uuid option" where
  "parent_item ws project parent db =
     (case parent of
        None \<Rightarrow> Inr None
      | Some k \<Rightarrow> rbind (some_or (find (\<lambda>i. it_WorkspaceID i = ws \<and> it_ProjectID i = project \<and> it_Key i = k \<and> it_DeletedAt i = None) (items db)) NoRows)
          (\<lambda>i. Inr (Some (it_ID i))))"

definition createItem :: "input_env \<Rightarrow> (int \<Rightarrow> string) \<Rightarrow> int \<Rightarrow> uuid \<Rightarrow> request \<Rightarrow> Problem + itemInput \<Rightarrow> api_db \<Rightarrow> item_answer" where
  "createItem env ts now fresh r decoded db =
     refused db (rbind (rejectFields r) (\<lambda>_.
     rbind decoded (\<lambda>inp.
     rbind (or_database (some_or (creation_row (rq_WorkspaceID r) (ii_Project inp) (ii_Type inp) (ap_config db)) NoRows)) (\<lambda>(p, t, status, version, origin).
     rbind (or_detail requestProblem (validateInput env db (rq_WorkspaceID r) (pj_ID p) inp True)) (\<lambda>_.
     rbind (or_database (parent_item (rq_WorkspaceID r) (pj_ID p) (ii_Parent inp) (api_store db))) (\<lambda>parent.
     let ins = \<lparr>in_ID = fresh, in_ProjectID = pj_ID p, in_ItemTypeID = ty_ID t, in_StatusID = status, in_ParentID = parent, in_Title = ii_Title inp, in_Body = ii_Body inp,
           in_AssigneeID = map_option (\<lambda>a. case parse_uuid env a of None \<Rightarrow> 0 | Some u \<Rightarrow> u) (ii_Assignee inp), in_Points = ii_Points inp,
           in_StartDate = ii_StartDate inp, in_DueDate = ii_DueDate inp, in_Fields = ii_Fields inp, in_OriginID = origin, in_OriginSeq = None,
           in_ConfigVersion = Some version, in_rank = []\<rparr> in
     Inr (case Mutate now (rq_WorkspaceID r) (\<lambda>m. Inr (Create fresh ins m)) [WithActor (rq_UserID r)] (api_store db) of
         (Inl e, s) \<Rightarrow> (Inl (storeProblem e), with_store db s)
       | (Inr _, s) \<Rightarrow>
           (case find (\<lambda>i. it_ID i = fresh) (items s) of
              None \<Rightarrow> (Inl (databaseProblem NoRows), with_store db s)
            | Some i \<Rightarrow> answer_item ts (rq_WorkspaceID r) (it_Key i) (with_store db s)))))))))"

subsection \<open>What an update of the store does to the items\<close>

text \<open>The row an update leaves\<close>

definition updated_item :: "int \<Rightarrow> UpdateItemFieldsParams \<Rightarrow> Item \<Rightarrow> Item" where
  "updated_item now arg i =
     i\<lparr>it_Title := coalesce (up_Title arg) (it_Title i),
       it_Body := (if up_SetBody arg then up_Body arg else it_Body i),
       it_StatusID := coalesce (up_StatusID arg) (it_StatusID i),
       it_ConfigVersion := coalesce (up_ConfigVersion arg) (it_ConfigVersion i),
       it_AssigneeID := (if up_SetAssignee arg then up_AssigneeID arg else it_AssigneeID i),
       it_Points := (if up_SetPoints arg then up_Points arg else it_Points i),
       it_StartDate := (if up_SetStartDate arg then up_StartDate arg else it_StartDate i),
       it_DueDate := (if up_SetDueDate arg then up_DueDate arg else it_DueDate i),
       it_Rank := coalesce (up_Rank arg) (it_Rank i),
       it_Fields := coalesce (up_Fields arg) (it_Fields i),
       it_ChangeSeq := up_ChangeSeq arg, it_Version := it_Version i + 1, it_UpdatedAt := now\<rparr>"

lemma UpdateItemFields_row:
  "UpdateItemFields now arg db = one_row (update_items (\<lambda>i. it_ID i = up_ID arg) (updated_item now arg) db)"
  by (simp add: UpdateItemFields_def updated_item_def [abs_def])

lemma apply_op_events: "apply_op now m \<lparr>ch_op = op, ch_itemID = u, ch_events = es\<rparr> = apply_op now m \<lparr>ch_op = op, ch_itemID = u, ch_events = []\<rparr>"
  by (simp add: apply_op_def fun_eq_iff)

text \<open>
  A mutation with one change and one expected version: the item is live in the workspace and has the version, the change is
  applied to the items, and neither the later phases nor the numbering touch them.
\<close>

lemma insert_rollups_relations:
  "rfold (\<lambda>d u. sql (InsertRollupRow now u d)) db us = Inr db' \<Longrightarrow> comments db' = comments db \<and> links db' = links db"
  by (rule rfold_invariant [where P = "\<lambda>d. comments d = comments db \<and> links d = links db"])
     (auto simp: InsertRollupRow_def result_simps split: if_splits)

lemma recompute_relations: "recomputeRollups now us db = Inr db' \<Longrightarrow> comments db' = comments db \<and> links db' = links db"
  unfolding recomputeRollups_def
  by (rule rfold_invariant [where P = "\<lambda>d. comments d = comments db \<and> links d = links db"])
     (auto simp: RecomputeRollup_def Let_def result_simps)

lemma Mutate_one:
  assumes "Mutate now ws (\<lambda>m. Inr (build m)) [WithActor a, WithExpectedVersion u v] db = (Inr res, db')"
    and "\<And>m. mu_err m = None \<Longrightarrow> mu_err (build m) = None \<Longrightarrow>
      \<exists>es. build m = add_change \<lparr>ch_op = op, ch_itemID = u, ch_events = es\<rparr> m"
  obtains i seq m st st' where "i \<in> set (items db)" "it_ID i = u" "it_WorkspaceID i = ws" "it_DeletedAt i = None" "it_Version i = v"
    "apply_op now m \<lparr>ch_op = op, ch_itemID = u, ch_events = []\<rparr> seq st = Inr st'" "items (fs_db st) = items db" "statuses (fs_db st) = statuses db"
    "items db' = items (fs_db st')" "settled_part (fs_db st') = settled_part (fs_db st)" "statuses db' = statuses db"
    "comments (fs_db st) = comments db" "comments db' = comments (fs_db st')" "links (fs_db st) = links db" "links db' = links (fs_db st')" "mu_actorID m = a"
proof -
  define m0 where "m0 = foldl apply_option (empty_mutation ws) [WithActor a, WithExpectedVersion u v]"
  have m0: "mu_err m0 = None" "mu_expected m0 = [(u, v)]" "mu_workspaceID m0 = ws" "mu_changes m0 = []" "mu_actorID m0 = a"
    by (simp_all add: m0_def apply_option_def empty_mutation_def)
  from assms(1) have b: "mu_err (build m0) = None" "flush now (build m0) db = Inr (res, db')" by (auto simp: Mutate_Inr prepare_Inr m0_def)
  from assms(2) [OF m0(1) b(1)] obtain es where m: "build m0 = add_change \<lparr>ch_op = op, ch_itemID = u, ch_events = es\<rparr> m0" by blast
  define m where "m = build m0"
  have ms: "mu_expected m = [(u, v)]" "mu_workspaceID m = ws" "mu_changes m = [\<lparr>ch_op = op, ch_itemID = u, ch_events = es\<rparr>]" "mu_actorID m = a"
    unfolding m_def m using m0 by (simp_all add: add_change_def)
  from b(2) [folded m_def] show thesis
  proof (rule flushE)
    fix highest db1 changes itemSeq st db2 db3
    assume 1: "AllocateSeq (int (eventCount m)) (mu_workspaceID m) db = Inr (highest, db1)"
      and 2: "list_all (expected_ok (mu_workspaceID m) db1) (mu_expected m)"
      and 3: "assign_seqs (highest - int (eventCount m) + 1) (\<lambda>_. 0) (mu_changes m) = (changes, itemSeq)"
      and 4: "rfold (apply_change now m itemSeq) \<lparr>fs_db = db1, fs_touched = mu_touchedPaths m, fs_itemIDs = [], fs_created = [], fs_hardDeled = []\<rparr> changes = Inr st"
      and 5: "rfold (\<lambda>d u. sql (InsertRollupRow now u d)) (fs_db st) (fs_created st) = Inr db2"
      and 6: "recomputeRollups now (filter (\<lambda>u. u \<notin> set (fs_hardDeled st)) (dirtyAncestors (fs_touched st))) db2 = Inr db3"
      and 7: "rfold (\<lambda>d e. sql (InsertEvent now (event_row (mu_workspaceID m) e) d)) db3 (all_events changes) = Inr db'"
    from 1 have db1: "items db1 = items db" "statuses db1 = statuses db" "comments db1 = comments db" "links db1 = links db" by (auto simp: AllocateSeq_Inr)
    from 2 obtain i where i: "i \<in> set (items db)" "it_ID i = u" "it_WorkspaceID i = ws" "it_DeletedAt i = None" "it_Version i = v"
      using ms db1 by (auto simp: expected_ok_def split: option.splits dest!: find_SomeD)
    from 3 obtain es' where ch: "changes = [\<lparr>ch_op = op, ch_itemID = u, ch_events = es'\<rparr>]" using ms(3) by (auto split: prod.splits)
    from 4 [unfolded ch] obtain st1 where a: "apply_op now m \<lparr>ch_op = op, ch_itemID = u, ch_events = es'\<rparr> (itemSeq u) \<lparr>fs_db = db1, fs_touched = mu_touchedPaths m, fs_itemIDs = [], fs_created = [], fs_hardDeled = []\<rparr> = Inr st1"
      "fs_db st = fs_db st1" by (auto simp: apply_change_def result_simps)
    have "settled_part (fs_db st) = settled_part db1" using settled.apply_changes_frame [OF 4] by simp
    moreover have "items db' = items (fs_db st)" "statuses db' = statuses (fs_db st)" "comments db' = comments (fs_db st)" "links db' = links (fs_db st)"
      using insert_events_Inr [OF 7] recompute_items [OF 6] insert_rollups_items [OF 5] insert_rollups_relations [OF 5] recompute_relations [OF 6] by simp_all
    ultimately show thesis
      using that [OF i a(1) [unfolded apply_op_events [of now m op u es']]] a(2) db1 ms(4) by (simp add: settled_part_def)
  qed
qed

lemma Update_one: "mu_err (Update up evs m) = None \<Longrightarrow> \<exists>es. Update up evs m = add_change \<lparr>ch_op = changeUpdate up, ch_itemID = iu_ID up, ch_events = es\<rparr> m"
  by (auto simp: Update_def fail_def split: if_splits sum.splits option.splits)

lemma Mutate_update:
  assumes "Mutate now ws (\<lambda>m. Inr (Update up evs m)) [WithActor a, WithExpectedVersion (iu_ID up) v] db = (Inr res, db')"
  obtains i seq where "i \<in> set (items db)" "it_ID i = iu_ID up" "it_WorkspaceID i = ws" "it_DeletedAt i = None" "it_Version i = v"
    "items db' = map (\<lambda>i. if it_ID i = iu_ID up then updated_item now (update_params up seq) i else i) (items db)" "statuses db' = statuses db"
    "item_ranges_ok (updated_item now (update_params up seq) i)" "items_unique (items db')"
proof (rule Mutate_one [OF assms, of "changeUpdate up"])
  show "\<exists>es. Update up evs m = add_change \<lparr>ch_op = changeUpdate up, ch_itemID = iu_ID up, ch_events = es\<rparr> m" if "mu_err (Update up evs m) = None" for m
    by (rule Update_one [OF that])
  fix i seq m st st'
  assume i: "i \<in> set (items db)" "it_ID i = iu_ID up" "it_WorkspaceID i = ws" "it_DeletedAt i = None" "it_Version i = v"
    and a: "apply_op now m \<lparr>ch_op = changeUpdate up, ch_itemID = iu_ID up, ch_events = []\<rparr> seq st = Inr st'" "items (fs_db st) = items db" "items db' = items (fs_db st')"
    and s: "statuses db' = statuses db"
  have up: "up_ID (update_params up seq) = iu_ID up" by (simp add: update_params_def)
  from a(1) obtain row rows db1 where u: "update_items (\<lambda>i. it_ID i = iu_ID up) (updated_item now (update_params up seq)) (fs_db st) = Inr (row # rows, db1)" "fs_db st' = db1"
    by (auto simp: apply_op_def Let_def applyUpdate_def UpdateItemFields_row up result_simps)
  note w = u(1) [unfolded update_items_Inr a(2)]
  show thesis
  proof (rule that [OF i])
    show "items db' = map (\<lambda>i. if it_ID i = iu_ID up then updated_item now (update_params up seq) i else i) (items db)" using w a(3) u(2) by simp
    show "items_unique (items db')" using w unfolding a(3) u(2) by blast
    have "list_all item_ranges_ok (map (updated_item now (update_params up seq)) (filter (\<lambda>i. it_ID i = iu_ID up) (items db)))" using w by metis
    then show "item_ranges_ok (updated_item now (update_params up seq) i)" using i(1,2) by (simp add: list_all_iff)
  qed (rule s)
qed

lemma update_ID: "iu_ID (empty_update u) = u"
  by (simp add: empty_update_def)

lemma Mutate_update_changes:
  assumes "Mutate now ws (\<lambda>m. Inr (Update up evs m)) [WithActor a, WithExpectedVersion (iu_ID up) v] db = (Inr res, db')"
  shows "items db' \<noteq> items db"
proof
  assume eq: "items db' = items db"
  from Mutate_update [OF assms] obtain i seq where i: "i \<in> set (items db)" "it_ID i = iu_ID up"
    "items db' = map (\<lambda>i. if it_ID i = iu_ID up then updated_item now (update_params up seq) i else i) (items db)" .
  have v: "it_Version (updated_item now (update_params up seq) i) = it_Version i + 1" by (simp add: updated_item_def)
  from eq i(3) have "map (\<lambda>i. if it_ID i = iu_ID up then updated_item now (update_params up seq) i else i) (items db) = map (\<lambda>i. i) (items db)" by simp
  then have "updated_item now (update_params up seq) i = i" using i(1,2) unfolding map_eq_conv by force
  with v have "it_Version i = it_Version i + 1" by simp
  then show False by simp
qed

subsection \<open>What an item shows\<close>

lemma get_put: "get (put k v m) f = (if f = k then v else get m f)"
  by (simp add: get_def)

lemma get_entries: "get ((k, v) # m) f = (if f = k then v else get m f)"
  by (simp add: get_def)

lemma Apply_plain:
  assumes "\<And>n. n \<in> set names \<Longrightarrow> CHR ''.'' \<notin> set n"
  shows "map_of (Apply source names) f = (if f \<in> set names then Some (get source f) else None)"
  using assms
proof (induction names rule: rev_induct)
  case (snoc n names)
  then have "cut_dot n = (n, [], False)" by (simp add: cut_dot_plain)
  then have "Apply source (names @ [n]) = put n (get source n) (Apply source names)" by (simp add: Apply_def apply_name_def)
  with snoc show ?case by simp
qed (simp add: Apply_def)

lemma get_document: "f \<in> set all_fields \<Longrightarrow> get (Apply source all_fields) f = get source f"
proof -
  assume f: "f \<in> set all_fields"
  have "list_all (\<lambda>n. CHR ''.'' \<notin> set n) all_fields" by (simp add: all_fields_def Registry_def field_def)
  then have "map_of (Apply source all_fields) f = Some (get source f)" using f Apply_plain [of all_fields source f] by (simp add: list_all_iff)
  then show ?thesis by (simp add: get_def [of "Apply source all_fields"])
qed

lemma readItem_Inr:
  assumes "readItem ts ws key all_fields db = Inr (current, v)"
  obtains i p s t r where "i \<in> set (items db)" "it_WorkspaceID i = ws" "it_Key i = key" "v = it_Version i"
    "\<forall>f \<in> set all_fields. get current f = get (item_doc ts db i p s t r) f"
proof -
  from assms obtain i p s t r where "find (\<lambda>i. it_WorkspaceID i = ws \<and> it_Key i = key) (items db) = Some i"
    "current = Apply (item_doc ts db i p s t r) all_fields" "v = it_Version i" by (auto simp: readItem_def result_simps)
  then show thesis using that [of i p s t r] by (auto simp: get_document dest!: find_SomeD)
qed

text \<open>Whether an item has a value for a name that a transition may require\<close>

definition some_value :: "json \<Rightarrow> bool" where
  "some_value v = (v \<noteq> JNull \<and> v \<noteq> JStr [])"

definition has_value :: "Item \<Rightarrow> string \<Rightarrow> bool" where
  "has_value i f =
     (if take 7 f = ''fields.'' then some_value (get (object_entries (it_Fields i)) (drop 7 f))
      else if f = ''title'' then it_Title i \<noteq> []
      else if f = ''body'' then it_Body i \<notin> {None, Some []}
      else if f = ''assignee'' then it_AssigneeID i \<noteq> None
      else if f = ''points'' then it_Points i \<noteq> None
      else if f = ''start_date'' then it_StartDate i \<noteq> None
      else if f = ''due_date'' then it_DueDate i \<noteq> None
      else True)"

lemma has_valueI:
  assumes "take 7 f = ''fields.'' \<Longrightarrow> some_value (get (object_entries (it_Fields i)) (drop 7 f))" "f = ''title'' \<Longrightarrow> it_Title i \<noteq> []"
    "f = ''body'' \<Longrightarrow> it_Body i \<notin> {None, Some []}" "f = ''assignee'' \<Longrightarrow> it_AssigneeID i \<noteq> None" "f = ''points'' \<Longrightarrow> it_Points i \<noteq> None"
    "f = ''start_date'' \<Longrightarrow> it_StartDate i \<noteq> None" "f = ''due_date'' \<Longrightarrow> it_DueDate i \<noteq> None"
  shows "has_value i f"
  unfolding has_value_def if_bool_eq_conj by (intro conjI impI TrueI) (erule assms)+

lemma date_json_null: "date_json d = JNull \<longleftrightarrow> d = None"
  by (cases d) (auto simp: date_json_def json_opt_def fromPgDate_def)

lemma document_values:
  assumes "\<And>f. f \<in> set all_fields \<Longrightarrow> get current f = get (item_doc ts db i p s t r) f" "some_value (required_value current f)"
  shows "has_value i f"
proof -
  have all: "{''title'', ''body'', ''assignee'', ''points'', ''start_date'', ''due_date'', ''fields''} \<subseteq> set all_fields"
    by (simp add: all_fields_def Registry_def field_def)
  note g = assms(1) [OF subsetD [OF all]]
  have doc: "get current ''fields'' = it_Fields i" "get current ''title'' = JStr (it_Title i)" "get current ''body'' = json_opt JStr (it_Body i)"
    "get current ''points'' = json_opt hundredths (it_Points i)" "get current ''start_date'' = date_json (it_StartDate i)" "get current ''due_date'' = date_json (it_DueDate i)"
    "get current ''assignee'' \<noteq> JNull \<Longrightarrow> it_AssigneeID i \<noteq> None"
    by (simp_all add: g item_doc_def get_entries split: option.splits) (auto dest!: find_SomeD dest: sym)
  note v = assms(2) [unfolded required_value_def some_value_def]
  show ?thesis
  proof (rule has_valueI)
    show "it_AssigneeID i \<noteq> None" if "f = ''assignee''" by (rule doc(7)) (use v in \<open>simp add: that\<close>)
  qed (use v in \<open>simp_all add: doc some_value_def date_json_null json_opt_def split: option.splits\<close>)
qed

subsection \<open>A patch\<close>

text \<open>The decoded input holds what the patch says, when the names are the exact ones.\<close>

definition reads :: "itemInput \<Rightarrow> string \<Rightarrow> json \<Rightarrow> bool" where
  "reads inp f v =
     (v \<noteq> JNull \<longrightarrow>
      (if f = ''title'' then v = JStr (ii_Title inp)
       else if f = ''body'' then Some v = map_option JStr (ii_Body inp)
       else if f = ''assignee'' then ii_Assignee inp \<noteq> None
       else if f = ''points'' then ii_Points inp \<noteq> None
       else if f = ''start_date'' then ii_StartDate inp \<noteq> None
       else if f = ''due_date'' then ii_DueDate inp \<noteq> None
       else True))"

lemma editable_cases:
  assumes "f \<in> set editable"
  obtains "f = ''title''" | "f = ''body''" | "f = ''assignee''" | "f = ''points''" | "f = ''start_date''" | "f = ''due_date''" | "f = ''fields''"
  using assms unfolding editable_def list.set insert_iff empty_iff by (elim disjE FalseE) (erule that)+

lemma decode_entry_editable:
  "decode_entry inp (''title'', v) = map_option (\<lambda>s. inp\<lparr>ii_Title := s\<rparr>) (text_or v (ii_Title inp))"
  "decode_entry inp (''body'', v) = map_option (\<lambda>s. inp\<lparr>ii_Body := s\<rparr>) (text_ptr v)"
  "decode_entry inp (''assignee'', v) = map_option (\<lambda>s. inp\<lparr>ii_Assignee := s\<rparr>) (text_ptr v)"
  "decode_entry inp (''points'', v) = (case v of JNull \<Rightarrow> Some (inp\<lparr>ii_Points := None\<rparr>) | JNum q \<Rightarrow> map_option (\<lambda>x. inp\<lparr>ii_Points := Some x\<rparr>) (float64 q) | _ \<Rightarrow> None)"
  "decode_entry inp (''start_date'', v) = map_option (\<lambda>s. inp\<lparr>ii_StartDate := s\<rparr>) (text_ptr v)"
  "decode_entry inp (''due_date'', v) = map_option (\<lambda>s. inp\<lparr>ii_DueDate := s\<rparr>) (text_ptr v)"
  "decode_entry inp (''fields'', v) = (case v of
      JNull \<Rightarrow> Some (inp\<lparr>ii_Fields := None\<rparr>)
    | JObj kvs \<Rightarrow> map_option (\<lambda>ws. inp\<lparr>ii_Fields := Some (foldl (\<lambda>m (k, w). put k w m) (case ii_Fields inp of None \<Rightarrow> [] | Some m \<Rightarrow> m) ws)\<rparr>) (any_entries kvs)
    | _ \<Rightarrow> None)"
  by (simp_all add: decode_entry_def folded_def input_names_def)

text \<open>An entry sets one property, and it leaves what the other entries say.\<close>

lemma decode_entry_sets:
  assumes "f \<in> set editable" "decode_entry inp (f, v) = Some inp'"
  shows "f = ''title'' \<and> (\<exists>s. inp' = inp\<lparr>ii_Title := s\<rparr>) \<or> f = ''body'' \<and> (\<exists>s. inp' = inp\<lparr>ii_Body := s\<rparr>) \<or> f = ''assignee'' \<and> (\<exists>s. inp' = inp\<lparr>ii_Assignee := s\<rparr>) \<or>
    f = ''points'' \<and> (\<exists>s. inp' = inp\<lparr>ii_Points := s\<rparr>) \<or> f = ''start_date'' \<and> (\<exists>s. inp' = inp\<lparr>ii_StartDate := s\<rparr>) \<or> f = ''due_date'' \<and> (\<exists>s. inp' = inp\<lparr>ii_DueDate := s\<rparr>) \<or>
    f = ''fields'' \<and> (\<exists>s. inp' = inp\<lparr>ii_Fields := s\<rparr>)"
  using assms(1)
  by (cases rule: editable_cases; use assms(2) in \<open>auto simp: decode_entry_editable split: json.splits\<close>)

lemma reads_set:
  "g \<noteq> ''title'' \<Longrightarrow> reads (inp\<lparr>ii_Title := t\<rparr>) g w = reads inp g w"
  "g \<noteq> ''body'' \<Longrightarrow> reads (inp\<lparr>ii_Body := x\<rparr>) g w = reads inp g w"
  "g \<noteq> ''assignee'' \<Longrightarrow> reads (inp\<lparr>ii_Assignee := x\<rparr>) g w = reads inp g w"
  "g \<noteq> ''points'' \<Longrightarrow> reads (inp\<lparr>ii_Points := q\<rparr>) g w = reads inp g w"
  "g \<noteq> ''start_date'' \<Longrightarrow> reads (inp\<lparr>ii_StartDate := x\<rparr>) g w = reads inp g w"
  "g \<noteq> ''due_date'' \<Longrightarrow> reads (inp\<lparr>ii_DueDate := x\<rparr>) g w = reads inp g w"
  "reads (inp\<lparr>ii_Fields := m\<rparr>) g w = reads inp g w"
  by (simp_all add: reads_def cong: if_cong split del: if_split)

lemma decode_entry_other:
  assumes "f \<in> set editable" "decode_entry inp (f, v) = Some inp'" "g \<noteq> f"
  shows "reads inp' g w = reads inp g w"
  using decode_entry_sets [OF assms(1,2)] assms(3) by (elim disjE conjE exE) (simp_all only: reads_set not_False_eq_True)

lemma decode_entry_reads:
  assumes "f \<in> set editable" "decode_entry inp (f, v) = Some inp'"
  shows "reads inp' f v"
  using assms(1)
  by (cases rule: editable_cases; use assms(2) in \<open>cases v; auto simp: decode_entry_editable text_or_def text_ptr_def reads_def\<close>)

lemma decode_entries_keep:
  assumes "decode_entries inp es = Some inp'" "\<forall>e \<in> set es. fst e \<in> set editable" "f \<notin> fst ` set es"
  shows "reads inp' f v = reads inp f v"
  using assms
proof (induction es arbitrary: inp)
  case (Cons e es)
  obtain g w where e: "e = (g, w)" by fastforce
  from Cons.prems(1) obtain inp1 where 1: "decode_entry inp (g, w) = Some inp1" "decode_entries inp1 es = Some inp'"
    by (auto simp: e split: option.splits)
  have "reads inp' f v = reads inp1 f v" by (rule Cons.IH [OF 1(2)]) (use Cons.prems in auto)
  also have "\<dots> = reads inp f v" by (rule decode_entry_other [OF _ 1(1)]) (use Cons.prems in \<open>auto simp: e\<close>)
  finally show ?case .
qed simp

lemma decode_entries_reads:
  assumes "decode_entries inp es = Some inp'" "\<forall>e \<in> set es. fst e \<in> set editable" "distinct (map fst es)" "(f, v) \<in> set es"
  shows "reads inp' f v"
  using assms
proof (induction es arbitrary: inp)
  case (Cons e es)
  obtain g w where e: "e = (g, w)" by fastforce
  from Cons.prems(1) obtain inp1 where 1: "decode_entry inp (g, w) = Some inp1" "decode_entries inp1 es = Some inp'"
    by (auto simp: e split: option.splits)
  show ?case
  proof (cases "(f, v) = (g, w)")
    case True
    have "reads inp' f v = reads inp1 f v" by (rule decode_entries_keep [OF 1(2)]) (use Cons.prems True in \<open>auto simp: e\<close>)
    moreover have "reads inp1 f v" using decode_entry_reads [OF _ 1(1)] Cons.prems(2) True by (simp add: e)
    ultimately show ?thesis by simp
  next
    case False
    then show ?thesis using Cons.IH [OF 1(2)] Cons.prems by (auto simp: e)
  qed
qed simp

text \<open>
  The merged document of a patch and the row that the update leaves: a value in the one is a value in the other.
\<close>

definition reflects :: "int \<Rightarrow> int \<Rightarrow> Item \<Rightarrow> patch_state \<Rightarrow> bool" where
  "reflects now seq i st = (case st of (up, evs, merged) \<Rightarrow>
     \<forall>f. some_value (required_value merged f) \<longrightarrow> has_value (updated_item now (update_params up seq) i) f)"

lemma has_value_set:
  "g \<noteq> ''title'' \<Longrightarrow> has_value (updated_item now (update_params (up\<lparr>iu_Title := t\<rparr>) seq) i) g = has_value (updated_item now (update_params up seq) i) g"
  "g \<noteq> ''body'' \<Longrightarrow> has_value (updated_item now (update_params (up\<lparr>iu_SetBody := b, iu_Body := t\<rparr>) seq) i) g = has_value (updated_item now (update_params up seq) i) g"
  "g \<noteq> ''assignee'' \<Longrightarrow> has_value (updated_item now (update_params (up\<lparr>iu_SetAssignee := b, iu_AssigneeID := a\<rparr>) seq) i) g = has_value (updated_item now (update_params up seq) i) g"
  "g \<noteq> ''points'' \<Longrightarrow> has_value (updated_item now (update_params (up\<lparr>iu_SetPoints := b, iu_Points := q\<rparr>) seq) i) g = has_value (updated_item now (update_params up seq) i) g"
  "g \<noteq> ''start_date'' \<Longrightarrow> has_value (updated_item now (update_params (up\<lparr>iu_SetStartDate := b, iu_StartDate := t\<rparr>) seq) i) g = has_value (updated_item now (update_params up seq) i) g"
  "g \<noteq> ''due_date'' \<Longrightarrow> has_value (updated_item now (update_params (up\<lparr>iu_SetDueDate := b, iu_DueDate := t\<rparr>) seq) i) g = has_value (updated_item now (update_params up seq) i) g"
  "take 7 g \<noteq> ''fields.'' \<Longrightarrow> has_value (updated_item now (update_params (up\<lparr>iu_Fields := m\<rparr>) seq) i) g = has_value (updated_item now (update_params up seq) i) g"
  "has_value (updated_item now (update_params (up\<lparr>iu_StatusID := s, iu_ConfigVersion := c\<rparr>) seq) i) g = has_value (updated_item now (update_params up seq) i) g"
  by (simp_all add: has_value_def updated_item_def update_params_def cong: if_cong split del: if_split)

lemma map_of_sort_key: "map_of (sort_key fst xs) k = map_of xs k"
  for xs :: "('a :: linorder \<times> 'b) list"
proof -
  have first: "map_of ys k = (case filter (\<lambda>e. fst e = k) ys of [] \<Rightarrow> None | e # _ \<Rightarrow> Some (snd e))" for ys :: "('a :: linorder \<times> 'b) list"
    by (induction ys) auto
  show ?thesis unfolding first sort_key_stable ..
qed

lemma set_property_cases:
  assumes "set_property env inp f up = Some up'"
  shows "f = ''title'' \<and> up' = up\<lparr>iu_Title := Some (ii_Title inp)\<rparr> \<or> f = ''body'' \<and> up' = up\<lparr>iu_SetBody := True, iu_Body := ii_Body inp\<rparr> \<or>
    f = ''assignee'' \<and> up' = up\<lparr>iu_SetAssignee := True, iu_AssigneeID := (case ii_Assignee inp of None \<Rightarrow> iu_AssigneeID up
      | Some a \<Rightarrow> Some (case parse_uuid env a of None \<Rightarrow> 0 | Some u \<Rightarrow> u))\<rparr> \<or>
    f = ''points'' \<and> up' = up\<lparr>iu_SetPoints := True, iu_Points := ii_Points inp\<rparr> \<or>
    f = ''start_date'' \<and> up' = up\<lparr>iu_SetStartDate := True, iu_StartDate := ii_StartDate inp\<rparr> \<or>
    f = ''due_date'' \<and> up' = up\<lparr>iu_SetDueDate := True, iu_DueDate := ii_DueDate inp\<rparr>"
  using assms unfolding set_property_def by (simp only: option.inject option.distinct split: if_split_asm) simp_all

lemma set_property_other:
  assumes "set_property env inp f up = Some up'" "g \<noteq> f"
  shows "has_value (updated_item now (update_params up' seq) i) g = has_value (updated_item now (update_params up seq) i) g"
  using set_property_cases [OF assms(1)] assms(2) by (elim disjE conjE) (simp_all only: has_value_set not_False_eq_True)

lemma decoded_any_text: "decoded_any (JStr t) = JStr t" "decoded_any JNull = JNull"
  by (simp_all add: decoded_any_def)

lemma set_property_value:
  assumes "set_property env inp f up = Some up'" "reads inp f v" "some_value (decoded_any v)"
    "ii_StartDate inp \<noteq> None \<Longrightarrow> toPgDate (ii_StartDate inp) \<noteq> None" "ii_DueDate inp \<noteq> None \<Longrightarrow> toPgDate (ii_DueDate inp) \<noteq> None"
  shows "has_value (updated_item now (update_params up' seq) i) f"
proof -
  have v: "v \<noteq> JNull" "v \<noteq> JStr []" using assms(3) by (auto simp: some_value_def decoded_any_text)
  note r = assms(2) [unfolded reads_def]
  from set_property_cases [OF assms(1)] show ?thesis
    by (elim disjE conjE; cases "ii_Body inp") (use v r assms(4,5) in \<open>auto simp: has_value_def updated_item_def update_params_def toPgNumeric_def coalesce_def\<close>)
qed

lemma required_value_put:
  assumes "set_property env inp f up = Some up'"
  shows "required_value (put f x m) g = (if g = f then x else required_value m g)"
  using set_property_cases [OF assms] by (elim disjE conjE) (auto simp: required_value_def get_put)

lemma required_value_fields: "required_value (put ''fields'' (JObj all) m) f = (if take 7 f = ''fields.'' then get all (drop 7 f) else if f = ''fields'' then JObj all else required_value m f)"
  by (simp add: required_value_def get_put object_entries_def)

lemma patch_property_reflects:
  assumes "patch_property env inp current st (f, v) = Inr st'" "reads inp f v" "reflects now seq i st"
    "ii_StartDate inp \<noteq> None \<Longrightarrow> toPgDate (ii_StartDate inp) \<noteq> None" "ii_DueDate inp \<noteq> None \<Longrightarrow> toPgDate (ii_DueDate inp) \<noteq> None"
  shows "reflects now seq i st'"
proof (cases "f = ''fields''")
  case True
  obtain up evs merged where st: "st = (up, evs, merged)" by (cases st) auto
  from assms(1) True obtain evs' all where st': "st' = (up\<lparr>iu_Fields := Some (sort_key fst all)\<rparr>, evs', put ''fields'' (JObj all) merged)"
    by (auto simp: patch_property_def patch_custom_def st Let_def split: option.splits)
  have custom: "it_Fields (updated_item now (update_params (up\<lparr>iu_Fields := Some (sort_key fst all)\<rparr>) seq) i) = JObj (sort_key fst all)"
    by (simp add: updated_item_def update_params_def marshalFieldsPatch_def coalesce_def)
  have other: "has_value (updated_item now (update_params (up\<lparr>iu_Fields := Some (sort_key fst all)\<rparr>) seq) i) g"
    if "some_value (required_value (put ''fields'' (JObj all) merged) g)" for g
  proof (cases "take 7 g = ''fields.''")
    case True
    then show ?thesis using that by (simp add: has_value_def custom object_entries_def required_value_fields get_def map_of_sort_key)
  next
    case False
    note h = has_value_set(7) [OF False]
    show ?thesis
    proof (cases "g = ''fields''")
      case True
      then show ?thesis by (simp add: has_value_def)
    next
      case g: False
      show ?thesis using that assms(3) unfolding h by (simp add: required_value_fields False g reflects_def st)
    qed
  qed
  show ?thesis unfolding reflects_def st' using other by simp
next
  case False
  obtain up evs merged where st: "st = (up, evs, merged)" by (cases st) auto
  from assms(1) False obtain up' evs' where s: "set_property env inp f up = Some up'" "st' = (up', evs', put f (decoded_any v) merged)"
    by (auto simp: patch_property_def st split: option.splits)
  have "has_value (updated_item now (update_params up' seq) i) g" if "some_value (required_value (put f (decoded_any v) merged) g)" for g
  proof (cases "g = f")
    case True
    then show ?thesis using that set_property_value [OF s(1) assms(2) _ assms(4,5)] by (simp add: required_value_put [OF s(1)])
  next
    case False
    then show ?thesis using that set_property_other [OF s(1) False] assms(3) by (simp add: required_value_put [OF s(1)] reflects_def st)
  qed
  then show ?thesis by (simp add: reflects_def s(2))
qed

lemma patch_property_editable:
  assumes "patch_property env inp current st (f, v) = Inr st'"
  shows "f \<in> set editable"
proof (cases "f = ''fields''")
  case False
  obtain up evs merged where st: "st = (up, evs, merged)" by (cases st) auto
  from assms False obtain up' where "set_property env inp f up = Some up'" by (auto simp: patch_property_def st split: option.splits)
  from set_property_cases [OF this] show ?thesis by (elim disjE conjE) (simp_all add: editable_def)
qed (simp add: editable_def)

text \<open>The identifier of the update never changes.\<close>

lemma patch_property_ID: "patch_property env inp current st e = Inr st' \<Longrightarrow> iu_ID (fst st') = iu_ID (fst st)"
proof -
  assume a: "patch_property env inp current st e = Inr st'"
  obtain f v where e: "e = (f, v)" by fastforce
  obtain up evs merged where st: "st = (up, evs, merged)" by (cases st) auto
  show ?thesis
  proof (cases "f = ''fields''")
    case True
    with a show ?thesis by (auto simp: patch_property_def patch_custom_def st e Let_def split: option.splits)
  next
    case False
    with a obtain up' evs' m where s: "set_property env inp f up = Some up'" "st' = (up', evs', m)" by (auto simp: patch_property_def st e split: option.splits)
    from set_property_cases [OF s(1)] show ?thesis by (elim disjE conjE) (simp_all add: s(2) st)
  qed
qed

lemma patches_editable: "rfold (patch_property env inp current) st es = Inr st' \<Longrightarrow> \<forall>e \<in> set es. fst e \<in> set editable"
  by (induction es arbitrary: st) (auto simp: result_simps dest: patch_property_editable)

lemma patches_reflect:
  assumes "rfold (patch_property env inp current) st es = Inr st'" "decode_input es = Some inp" "distinct (map fst es)" "reflects now seq i st"
    "ii_StartDate inp \<noteq> None \<Longrightarrow> toPgDate (ii_StartDate inp) \<noteq> None" "ii_DueDate inp \<noteq> None \<Longrightarrow> toPgDate (ii_DueDate inp) \<noteq> None"
  shows "reflects now seq i st'"
proof (rule rfold_invariant [OF assms(1), of "reflects now seq i"])
  show "reflects now seq i st2" if "e \<in> set es" "reflects now seq i st1" "patch_property env inp current st1 e = Inr st2" for e st1 st2
  proof -
    obtain f v where e: "e = (f, v)" by fastforce
    have "reads inp f v"
      using decode_entries_reads [of empty_input es inp f v] assms(2,3) patches_editable [OF assms(1)] that(1) by (simp add: decode_input_def e)
    from patch_property_reflects [OF that(3) [unfolded e] this that(2) assms(5,6)] show ?thesis .
  qed
qed (rule assms)

lemma patches_ID: "rfold (patch_property env inp current) st es = Inr st' \<Longrightarrow> iu_ID (fst st') = iu_ID (fst st)"
  by (erule rfold_invariant [where P = "\<lambda>s. iu_ID (fst s) = iu_ID (fst st)"]) (simp_all add: patch_property_ID)

lemma distinct_sort_key: "distinct (map fst (sort_key fst xs)) = distinct (map fst xs)"
  by (simp add: distinct_map)

text \<open>The values of the untouched item\<close>

lemma has_value_untouched: "has_value (updated_item now (update_params (empty_update u) seq) i) f = has_value i f"
  by (simp add: has_value_def updated_item_def update_params_def empty_update_def marshalFieldsPatch_def coalesce_def cong: if_cong split del: if_split)

lemma itemPatch_reflects:
  assumes "itemPatch env db ws project current raw = Inr (up, evs, merged)" "distinct (map fst raw)"
    "\<And>f. f \<in> set all_fields \<Longrightarrow> get current f = get (item_doc ts (api_store db) i p s t r) f"
  shows "reflects now seq i (up, evs, merged) \<and> iu_ID up = parsed_id env (JStr (uuid_String (it_ID i)))"
proof -
  from assms(1) obtain inp u where 1: "decode_input (sort_key fst raw) = Some inp" "validateInput env db ws project inp (map_of raw ''title'' \<noteq> None) = Inr u"
    "rfold (patch_property env inp current) (empty_update (parsed_id env (get current ''id'')), [], current) (sort_key fst raw) = Inr (up, evs, merged)"
    by (auto simp: itemPatch_def result_simps split: option.splits)
  have "''id'' \<in> set all_fields" by (simp add: all_fields_def Registry_def field_def)
  then have i: "get current ''id'' = JStr (uuid_String (it_ID i))" by (simp add: assms(3) item_doc_def get_entries)
  have "reflects now seq i (empty_update (parsed_id env (get current ''id'')), [], current)"
    using document_values [OF assms(3)] by (simp add: reflects_def has_value_untouched)
  from patches_reflect [OF 1(3,1) _ this validateInput_Inr(3,4) [OF 1(2)]] have "reflects now seq i (up, evs, merged)"
    using assms(2) by (simp add: distinct_sort_key)
  moreover have "iu_ID up = parsed_id env (get current ''id'')" using patches_ID [OF 1(3)] by (simp add: empty_update_def)
  ultimately show ?thesis by (simp add: i)
qed

subsection \<open>Transitions\<close>

text \<open>A request takes effect when it answers with the item or leaves another database.\<close>

definition effective :: "api_db \<Rightarrow> 'a answer \<Rightarrow> bool" where
  "effective db res = (\<not> isl (fst res) \<or> snd res \<noteq> db)"

lemma effective_refused: "effective db (refused db res) \<longleftrightarrow> (\<exists>ans. res = Inr ans \<and> effective db ans)"
  by (auto simp: effective_def refused_def split: sum.splits)

lemma or_database_Inr [result_simps]: "or_database res = Inr x \<longleftrightarrow> res = Inr x"
  by (auto simp: or_database_def split: sum.splits)

lemma or_detail_Inr [result_simps]: "or_detail mk res = Inr x \<longleftrightarrow> res = Inr x"
  by (auto simp: or_detail_def split: sum.splits)

lemma with_store_same: "with_store db (api_store db) = db"
  by (simp add: with_store_def)

lemma mutate_item_effective:
  assumes "effective db (mutate_item ts now r build opts submitted cont db)" "\<And>db1. snd (cont db1) = db1"
  obtains res s where "Mutate now (rq_WorkspaceID r) (\<lambda>m. Inr (build m)) (WithActor (rq_UserID r) # opts) (api_store db) = (Inr res, s)"
    "snd (mutate_item ts now r build opts submitted cont db) = with_store db s"
  using assms by (auto simp: mutate_item_def effective_def with_store_same split: prod.splits sum.splits dest: Mutate_Inl)

lemma answer_item_snd: "snd (answer_item ts ws key db) = db"
  by (simp add: answer_item_def)

lemma transitionItem_effective:
  assumes "effective db (transitionItem env ts now r ifMatch (Inr (to, opt)) db)"
  obtains version current i t ct up evs merged res s where "expectedVersion ifMatch = Inr version"
    "readItem ts (rq_WorkspaceID r) (rq_Key r) all_fields (api_store db) = Inr (current, version)"
    "allowed_transition (rq_WorkspaceID r) (rq_Key r) to (ap_config db) = Some (i, t, ct)"
    "itemPatch env db (rq_WorkspaceID r) (it_ProjectID i) current (case opt of None \<Rightarrow> [] | Some kvs \<Rightarrow> kvs) = Inr (up, evs, merged)"
    "missing_fields (cr_Requires ct) merged = []"
    "Mutate now (rq_WorkspaceID r) (\<lambda>m. Inr (Update (up\<lparr>iu_StatusID := Some (st_ID t), iu_ConfigVersion := Some (cr_Version ct)\<rparr>) (evs @ [status_change current to]) m))
       [WithActor (rq_UserID r), WithExpectedVersion (iu_ID up) version] (api_store db) = (Inr res, s)"
    "snd (transitionItem env ts now r ifMatch (Inr (to, opt)) db) = with_store db s"
proof -
  from assms obtain version current i t ct up evs merged where 1: "rejectFields r = Inr ()" "expectedVersion ifMatch = Inr version"
    "readItem ts (rq_WorkspaceID r) (rq_Key r) all_fields (api_store db) = Inr (current, version)"
    "allowed_transition (rq_WorkspaceID r) (rq_Key r) to (ap_config db) = Some (i, t, ct)"
    "itemPatch env db (rq_WorkspaceID r) (it_ProjectID i) current (case opt of None \<Rightarrow> [] | Some kvs \<Rightarrow> kvs) = Inr (up, evs, merged)"
    "missing_fields (cr_Requires ct) merged = []"
    unfolding transitionItem_def effective_refused Let_def by (auto simp: result_simps split: if_splits)
  define h where "h = mutate_item ts now r (Update (up\<lparr>iu_StatusID := Some (st_ID t), iu_ConfigVersion := Some (cr_Version ct)\<rparr>) (evs @ [status_change current to]))
    [WithExpectedVersion (iu_ID up) version] (JObj [(''to_status'', JStr to), (''fields'', json_opt JObj opt)]) (answer_item ts (rq_WorkspaceID r) (rq_Key r)) db"
  have h: "transitionItem env ts now r ifMatch (Inr (to, opt)) db = h"
    using 1 by (simp add: transitionItem_def refused_def rbind_def or_database_def or_detail_def some_or_def Let_def h_def)
  from assms [unfolded h h_def] obtain res s where
    "Mutate now (rq_WorkspaceID r) (\<lambda>m. Inr (Update (up\<lparr>iu_StatusID := Some (st_ID t), iu_ConfigVersion := Some (cr_Version ct)\<rparr>) (evs @ [status_change current to]) m))
       [WithActor (rq_UserID r), WithExpectedVersion (iu_ID up) version] (api_store db) = (Inr res, s)" "snd h = with_store db s"
    unfolding h_def by (rule mutate_item_effective [OF _ answer_item_snd])
  then show thesis using that [OF 1(2-6)] unfolding h by simp
qed

lemma allowed_transition_Some:
  assumes "allowed_transition ws key to db = Some (i, t, ct)"
  shows "i \<in> set (items (cd_store db))" "it_WorkspaceID i = ws" "it_Key i = key" "it_DeletedAt i = None"
    "t \<in> set (statuses (cd_store db))" "st_ProjectID t = it_ProjectID i" "st_Key t = to"
    "ct \<in> set (config_transitions db)" "cr_ProjectID ct = it_ProjectID i" "cr_FromStatusID ct = it_StatusID i" "cr_ToStatusID ct = st_ID t"
    "latest_version (it_ProjectID i) db = Some (cr_Version ct)"
proof -
  have head: "x \<in> set xs" if "(case xs of [] \<Rightarrow> None | y # _ \<Rightarrow> Some y) = Some x" for x and xs :: "'z list"
    using that by (cases xs) simp_all
  show "i \<in> set (items (cd_store db))" "it_WorkspaceID i = ws" "it_Key i = key" "it_DeletedAt i = None"
    "t \<in> set (statuses (cd_store db))" "st_ProjectID t = it_ProjectID i" "st_Key t = to"
    "ct \<in> set (config_transitions db)" "cr_ProjectID ct = it_ProjectID i" "cr_FromStatusID ct = it_StatusID i" "cr_ToStatusID ct = st_ID t"
    "latest_version (it_ProjectID i) db = Some (cr_Version ct)"
    using head [OF assms [unfolded allowed_transition_def]] by auto
qed

lemma items_unique_key:
  "items_unique its \<Longrightarrow> i \<in> set its \<Longrightarrow> j \<in> set its \<Longrightarrow> it_WorkspaceID i = it_WorkspaceID j \<Longrightarrow> it_Key i = it_Key j \<Longrightarrow> i = j"
  by (auto simp: items_unique_def distinct_map dest: inj_onD)

lemma missing_fields_Nil: "missing_fields requires merged = [] \<Longrightarrow> f \<in> set requires \<Longrightarrow> some_value (required_value merged f)"
  by (auto simp: missing_fields_def filter_empty_conv some_value_def)

text \<open>
  C13.  A transition follows the workflow: when the request takes effect (it answers with the item or the database differs
  afterwards), the stored item was live, had the version of the
  request and stood in a status from which the latest configuration of its project leads to the status asked for; afterwards it
  has that status, the version of that configuration, the next version and, together with the patch of the request, a value for
  every field the transition requires; no other item changes.
\<close>

theorem transitionItem_follows_workflow:
  assumes "items_unique (items (api_store db))" "\<And>u. parse_uuid env (uuid_String u) = Some u"
    and "distinct (map fst (case opt of None \<Rightarrow> [] | Some kvs \<Rightarrow> kvs))"
    and "transitionItem env ts now r ifMatch (Inr (to, opt)) db = (ans, db')" "effective db (ans, db')"
  shows "\<exists>i j ct t. i \<in> set (items (api_store db)) \<and> it_WorkspaceID i = rq_WorkspaceID r \<and> it_Key i = rq_Key r \<and> it_DeletedAt i = None \<and>
    expectedVersion ifMatch = Inr (it_Version i) \<and>
    ct \<in> set (config_transitions (ap_config db)) \<and> cr_ProjectID ct = it_ProjectID i \<and> latest_version (it_ProjectID i) (ap_config db) = Some (cr_Version ct) \<and>
    cr_FromStatusID ct = it_StatusID i \<and> t \<in> set (statuses (api_store db)) \<and> st_ID t = cr_ToStatusID ct \<and> st_ProjectID t = it_ProjectID i \<and> st_Key t = to \<and>
    it_ID j = it_ID i \<and> it_StatusID j = st_ID t \<and> it_ConfigVersion j = cr_Version ct \<and> it_Version j = it_Version i + 1 \<and>
    (\<forall>f \<in> set (cr_Requires ct). has_value j f) \<and>
    items (api_store db') = map (\<lambda>x. if it_ID x = it_ID i then j else x) (items (api_store db))"
proof (rule transitionItem_effective [OF assms(5) [folded assms(4)]])
  fix version current i and t :: Status and ct :: ConfigTransition and up :: ItemUpdate and evs merged res s
  let ?up = "up\<lparr>iu_StatusID := Some (st_ID t), iu_ConfigVersion := Some (cr_Version ct)\<rparr>"
  assume v: "expectedVersion ifMatch = Inr version" and rd: "readItem ts (rq_WorkspaceID r) (rq_Key r) all_fields (api_store db) = Inr (current, version)"
    and tr: "allowed_transition (rq_WorkspaceID r) (rq_Key r) to (ap_config db) = Some (i, t, ct)"
    and patch: "itemPatch env db (rq_WorkspaceID r) (it_ProjectID i) current (case opt of None \<Rightarrow> [] | Some kvs \<Rightarrow> kvs) = Inr (up, evs, merged)"
    and req: "missing_fields (cr_Requires ct) merged = []"
    and mut: "Mutate now (rq_WorkspaceID r) (\<lambda>m. Inr (Update ?up (evs @ [status_change current to]) m))
       [WithActor (rq_UserID r), WithExpectedVersion (iu_ID up) version] (api_store db) = (Inr res, s)"
    and "snd (transitionItem env ts now r ifMatch (Inr (to, opt)) db) = with_store db s"
  then have db': "db' = with_store db s" using assms(4) by simp
  note i = allowed_transition_Some [OF tr]
  from rd obtain i' p st tt rr where cur: "i' \<in> set (items (api_store db))" "it_WorkspaceID i' = rq_WorkspaceID r" "it_Key i' = rq_Key r" "version = it_Version i'"
    "\<forall>f \<in> set all_fields. get current f = get (item_doc ts (api_store db) i' p st tt rr) f" by (rule readItem_Inr)
  have "i' = i" using items_unique_key [OF assms(1) cur(1) i(1)] cur(2,3) i(2,3) by simp
  note cur = cur [unfolded this]
  note ref = itemPatch_reflects [OF patch assms(3) bspec [OF cur(5)]]
  have id: "iu_ID up = it_ID i" using ref assms(2) by (simp add: parsed_id_def)
  have m: "Mutate now (rq_WorkspaceID r) (\<lambda>m. Inr (Update ?up (evs @ [status_change current to]) m))
       [WithActor (rq_UserID r), WithExpectedVersion (iu_ID ?up) version] (api_store db) = (Inr res, s)" using mut by simp
  from Mutate_update [OF m] obtain seq where its: "items s = map (\<lambda>x. if it_ID x = iu_ID ?up then updated_item now (update_params ?up seq) x else x) (items (api_store db))" .
  let ?j = "updated_item now (update_params ?up seq) i"
  have same: "x = i" if "x \<in> set (items (api_store db))" "it_ID x = it_ID i" for x
    using that i(1) assms(1) by (auto simp: items_unique_def distinct_map dest: inj_onD)
  have "items s = map (\<lambda>x. if it_ID x = it_ID i then ?j else x) (items (api_store db))"
    unfolding its using same id by (auto intro!: map_cong)
  moreover have "has_value ?j f" if "f \<in> set (cr_Requires ct)" for f
    using missing_fields_Nil [OF req that] ref unfolding reflects_def by (simp add: has_value_set)
  moreover have "it_ID ?j = it_ID i" "it_StatusID ?j = st_ID t" "it_ConfigVersion ?j = cr_Version ct" "it_Version ?j = it_Version i + 1"
    by (simp_all add: updated_item_def update_params_def coalesce_def)
  ultimately show ?thesis using i cur v db' by (intro exI [of _ i] exI [of _ ?j] exI [of _ ct] exI [of _ t]) (simp add: with_store_def)
qed

text \<open>A workspace with two items and a workflow of two statuses\<close>

definition demo_env :: input_env where
  "demo_env = \<lparr>parse_uuid = uuid_Parse, web_address = (\<lambda>t. take 8 t = ''https://''), quote_text = (\<lambda>t. t)\<rparr>"

definition demo_api :: api_db where
  "demo_api =
     \<lparr>ap_config = \<lparr>cd_store = demo_tree\<lparr>rollups := [aggregate 0 20 [], aggregate 0 21 []]\<rparr>, config_statuses = [],
        config_types = [\<lparr>ct_ProjectID = 2, ct_Version = 1, ct_ItemTypeID = 5, ct_InitialStatusID = 3\<rparr>],
        config_transitions = [\<lparr>cr_ProjectID = 2, cr_Version = 1, cr_FromStatusID = 3, cr_ToStatusID = 4, cr_Requires = [''points'', ''body'']\<rparr>], field_defs = []\<rparr>,
      ap_auth = demo_auth_db\<rparr>"

definition demo_call :: request where
  "demo_call = \<lparr>rq_Query = [], rq_Path = [], rq_WorkspaceID = 1, rq_UserID = 9, rq_Role = ''member'', rq_Key = ''SRX-2''\<rparr>"

definition first_version :: string where
  "first_version = [CHR 0x22, CHR ''1'', CHR 0x22]"

definition demo_body :: "(string \<times> json) list" where
  "demo_body = [(''body'', JStr ''b'')]"

abbreviation demo_transition :: item_answer where
  "demo_transition \<equiv> transitionItem demo_env (\<lambda>_. []) 100 demo_call first_version (Inr (''done'', Some demo_body)) demo_api"

definition demo_current_doc :: "(string \<times> json) list" where
  "demo_current_doc = Apply (item_doc (\<lambda>_. []) (api_store demo_api) (demo_item 21 (Some 20) [20, 21] ''SRX-2'' ''r'') (hd (projects demo_db)) (hd (statuses demo_db)) (hd (item_types demo_db)) (aggregate 0 21 [])) all_fields"

lemma demo_doc: "get demo_current_doc ''id'' = JStr (uuid_String 21)" "get demo_current_doc ''body'' = JNull" "get (object_entries (get demo_current_doc ''status'')) ''key'' = JStr ''todo''"
   "get demo_current_doc ''points'' = hundredths 200"
proof -
  have "set [''id'', ''body'', ''status'', ''points''] \<subseteq> set all_fields" by (simp add: all_fields_def Registry_def field_def)
  then show "get demo_current_doc ''id'' = JStr (uuid_String 21)" "get demo_current_doc ''body'' = JNull" "get (object_entries (get demo_current_doc ''status'')) ''key'' = JStr ''todo''"
   "get demo_current_doc ''points'' = hundredths 200"
    by (simp_all add: demo_current_doc_def get_document item_doc_def get_entries demo_item_def demo_db_def object_entries_def json_opt_def)
qed

lemma demo_find: "find (\<lambda>i. it_WorkspaceID i = 1 \<and> it_Key i = ''SRX-2'') (items (api_store demo_api)) = Some (demo_item 21 (Some 20) [20, 21] ''SRX-2'' ''r'')"
  by (simp add: demo_api_def demo_items demo_item_def)

lemma aggregate_ID: "ru_ItemID (aggregate now u xs) = u"
  by (simp add: aggregate_def)

lemma demo_read: "readItem (\<lambda>_. []) 1 ''SRX-2'' all_fields (api_store demo_api) = Inr (demo_current_doc, 1)"
  unfolding readItem_def demo_find
  by (simp add: demo_current_doc_def demo_api_def demo_tree_def demo_db_def demo_item_def some_or_def rbind_def aggregate_ID)


lemma demo_allowed: "allowed_transition 1 ''SRX-2'' ''done'' (ap_config demo_api) =
  Some (demo_item 21 (Some 20) [20, 21] ''SRX-2'' ''r'', \<lparr>st_ID = 4, st_ProjectID = 2, st_Key = ''done'', st_Name = ''Done'', st_Category = ''done''\<rparr>,
    \<lparr>cr_ProjectID = 2, cr_Version = 1, cr_FromStatusID = 3, cr_ToStatusID = 4, cr_Requires = [''points'', ''body'']\<rparr>)"
proof -
  have "allowed_transition 1 ''SRX-2'' ''done'' (ap_config demo_api) \<noteq> None" by code_simp
  then obtain i t ct where a: "allowed_transition 1 ''SRX-2'' ''done'' (ap_config demo_api) = Some (i, t, ct)" by auto
  note f = allowed_transition_Some [OF a]
  have "i = demo_item 21 (Some 20) [20, 21] ''SRX-2'' ''r''" using f(1,3) by (auto simp: demo_api_def demo_items demo_item_def)
  moreover have "t = \<lparr>st_ID = 4, st_ProjectID = 2, st_Key = ''done'', st_Name = ''Done'', st_Category = ''done''\<rparr>"
    using f(5,7) by (auto simp: demo_api_def demo_tree_def demo_db_def)
  moreover have "ct = \<lparr>cr_ProjectID = 2, cr_Version = 1, cr_FromStatusID = 3, cr_ToStatusID = 4, cr_Requires = [''points'', ''body'']\<rparr>"
    using f(8) by (simp add: demo_api_def)
  ultimately show ?thesis using a by simp
qed

lemma demo_decoded: "decode_input demo_body = Some (empty_input\<lparr>ii_Body := Some ''b''\<rparr>)"
  by (simp add: decode_input_def demo_body_def decode_entry_editable text_ptr_def)

lemma demo_valid: "validateInput demo_env demo_api 1 2 (empty_input\<lparr>ii_Body := Some ''b''\<rparr>) False = Inr ()"
  by (simp add: validateInput_def empty_input_def dates_ok_def)

lemma demo_patch: "itemPatch demo_env demo_api 1 2 demo_current_doc demo_body =
  Inr (empty_update 21\<lparr>iu_SetBody := True, iu_Body := Some ''b''\<rparr>, [field_change ''body'' JNull (JStr ''b'')], put ''body'' (JStr ''b'') demo_current_doc)"
proof -
  have "sort_key fst demo_body = demo_body" by (simp add: demo_body_def)
  moreover have "map_of demo_body ''title'' = None" by (simp add: demo_body_def)
  moreover have "parsed_id demo_env (JStr (uuid_String 21)) = 21" by (simp add: parsed_id_def demo_env_def)
  ultimately show ?thesis
    by (simp add: itemPatch_def demo_decoded demo_valid demo_doc rbind_def)
      (simp add: demo_body_def patch_property_def set_property_def demo_doc old_value_def decoded_any_text rbind_def empty_input_def)
qed

definition demo_mutation_run :: "(store_error + Result) \<times> database" where
  "demo_mutation_run = Mutate 100 1 (\<lambda>m. Inr (Update (empty_update 21\<lparr>iu_SetBody := True, iu_Body := Some ''b'', iu_StatusID := Some 4, iu_ConfigVersion := Some 1\<rparr>)
    [field_change ''body'' JNull (JStr ''b''), \<lparr>fc_Kind = EventStatusChanged, fc_Field = ''status'', fc_Old = Some (JStr ''todo''), fc_New = Some (JStr ''done'')\<rparr>] m))
    [WithActor 9, WithExpectedVersion 21 1] (api_store demo_api)"

lemma demo_mutate: "\<not> isl (fst demo_mutation_run)"
  by code_simp

lemma demo_store_unique: "items_unique (items (api_store demo_api))"
  by (simp add: demo_api_def demo_items items_unique_def demo_item_def)

lemma demo_transition_run:
  "demo_transition = answer_item (\<lambda>_. []) 1 ''SRX-2'' (with_store demo_api (snd demo_mutation_run))" "effective demo_api demo_transition"
proof -
  have v: "expectedVersion first_version = Inr 1" "rejectFields demo_call = Inr ()" by code_simp+
  have req: "rq_WorkspaceID demo_call = 1" "rq_UserID demo_call = 9" "rq_Key demo_call = ''SRX-2''" by (simp_all add: demo_call_def)
  let ?m = "put ''body'' (JStr ''b'') demo_current_doc"
  have "required_value ?m ''points'' = JNum 2" "required_value ?m ''body'' = JStr ''b''"
    by (simp_all add: required_value_def get_put demo_doc hundredths_def)
  then have missing: "missing_fields [''points'', ''body''] ?m = []" by (simp add: missing_fields_def)
  have change: "status_change demo_current_doc ''done'' = \<lparr>fc_Kind = EventStatusChanged, fc_Field = ''status'', fc_Old = Some (JStr ''todo''), fc_New = Some (JStr ''done'')\<rparr>"
    by (simp add: status_change_def demo_doc any_of_def)
  from not_isl_fst [OF demo_mutate] obtain res s where run: "demo_mutation_run = (Inr res, s)" by blast
  note m = run [unfolded demo_mutation_run_def]
  have eq: "demo_transition = answer_item (\<lambda>_. []) 1 ''SRX-2'' (with_store demo_api s)"
    by (simp add: transitionItem_def v req demo_read demo_allowed demo_patch missing change rbind_def refused_def or_database_def or_detail_def some_or_def Let_def
      mutate_item_def m update_ID)
  then show "demo_transition = answer_item (\<lambda>_. []) 1 ''SRX-2'' (with_store demo_api (snd demo_mutation_run))" unfolding run snd_conv .
  have "items s \<noteq> items (api_store demo_api)"
    by (rule Mutate_update_changes [where up = "empty_update 21\<lparr>iu_SetBody := True, iu_Body := Some ''b'', iu_StatusID := Some 4, iu_ConfigVersion := Some 1\<rparr>"]) (use m in \<open>simp add: update_ID\<close>)
  with eq show "effective demo_api demo_transition" by (auto simp: effective_def answer_item_snd with_store_def dest: arg_cong [of _ _ "\<lambda>d. items (api_store d)"])
qed

theorem transitionItem_follows_workflow_witness:
  "\<exists>i j. i \<in> set (items (api_store demo_api)) \<and> it_Key i = ''SRX-2'' \<and> it_Version j = it_Version i + 1 \<and> it_StatusID j = 4 \<and> has_value j ''body'' \<and>
     items (api_store (snd demo_transition)) = map (\<lambda>x. if it_ID x = it_ID i then j else x) (items (api_store demo_api))"
proof -
  obtain ans db' where run: "demo_transition = (ans, db')" by fastforce
  have env: "parse_uuid demo_env (uuid_String u) = Some u" for u by (simp add: demo_env_def)
  have keys: "distinct (map fst (case Some demo_body of None \<Rightarrow> [] | Some kvs \<Rightarrow> kvs))" by (simp add: demo_body_def)
  have one: "ct = \<lparr>cr_ProjectID = 2, cr_Version = 1, cr_FromStatusID = 3, cr_ToStatusID = 4, cr_Requires = [''points'', ''body'']\<rparr>" if "ct \<in> set (config_transitions (ap_config demo_api))" for ct
    using that by (simp add: demo_api_def)
  show ?thesis
    using transitionItem_follows_workflow [OF demo_store_unique env keys run demo_transition_run(2) [unfolded run]] one run
    by (fastforce simp: demo_call_def)
qed

end
