(* ===== verification/Sx_Calls.thy ===== *)
theory Sx_Calls
  imports Sx_Items
begin

text \<open>
  Requests that change an item, one after another: what an effective request does to the items, that the version of
  \<open>If-Match\<close> keeps concurrent edits from overwriting each other, and that an accepted patch fits the columns.
\<close>

subsection \<open>An effective request\<close>

definition bumped :: "Item list \<Rightarrow> Item \<Rightarrow> Item list \<Rightarrow> bool" where
  "bumped its i its' =
     (\<exists>j. it_ID j = it_ID i \<and> it_WorkspaceID j = it_WorkspaceID i \<and> it_Key j = it_Key i \<and> it_Version j = it_Version i + 1 \<and>
       its' = map (\<lambda>x. if it_ID x = it_ID i then j else x) its)"

lemma bumpedI:
  assumes "items_unique its" "i \<in> set its" "its' = map (\<lambda>x. if it_ID x = it_ID i then g x else x) its"
    "it_ID (g i) = it_ID i" "it_WorkspaceID (g i) = it_WorkspaceID i" "it_Key (g i) = it_Key i" "it_Version (g i) = it_Version i + 1"
  shows "bumped its i its'"
proof -
  have "x = i" if "x \<in> set its" "it_ID x = it_ID i" for x
    using that assms(1,2) by (auto simp: items_unique_def distinct_map dest: inj_onD)
  then have "its' = map (\<lambda>x. if it_ID x = it_ID i then g i else x) its" unfolding assms(3) by (auto intro!: map_cong)
  with assms(4-7) show ?thesis unfolding bumped_def by blast
qed

lemma bumped_versions:
  assumes "items_unique its" "bumped its i its'" "i \<in> set its" "x \<in> set its"
  obtains y where "y \<in> set its'" "it_WorkspaceID y = it_WorkspaceID x" "it_Key y = it_Key x" "it_Version x \<le> it_Version y" "x = i \<longrightarrow> it_Version x < it_Version y"
proof -
  from assms(2) obtain j where j: "it_ID j = it_ID i" "it_WorkspaceID j = it_WorkspaceID i" "it_Key j = it_Key i" "it_Version j = it_Version i + 1"
    "its' = map (\<lambda>x. if it_ID x = it_ID i then j else x) its" unfolding bumped_def by blast
  have same: "x = i" if "it_ID x = it_ID i"
    using that assms(1,3,4) by (auto simp: items_unique_def distinct_map dest: inj_onD)
  define y where "y = (if it_ID x = it_ID i then j else x)"
  have "y \<in> set its'" using assms(4) unfolding j(5) y_def by auto
  moreover have "it_WorkspaceID y = it_WorkspaceID x" "it_Key y = it_Key x" "it_Version x \<le> it_Version y" "x = i \<longrightarrow> it_Version x < it_Version y"
    using same j by (auto simp: y_def)
  ultimately show thesis by (rule that)
qed

lemma Mutate_SoftDelete:
  assumes "Mutate now ws (\<lambda>m. Inr (SoftDelete u m)) [WithActor a, WithExpectedVersion u v] db = (Inr res, db')" "items_unique (items db)"
  obtains i where "i \<in> set (items db)" "it_ID i = u" "it_WorkspaceID i = ws" "it_DeletedAt i = None" "it_Version i = v"
    "bumped (items db) i (items db')" "items_unique (items db')"
proof (rule Mutate_one [OF assms(1), of changeSoftDelete])
  show "\<exists>es. SoftDelete u m = add_change \<lparr>ch_op = changeSoftDelete, ch_itemID = u, ch_events = es\<rparr> m" for m by (auto simp: SoftDelete_def)
  fix i seq m st st'
  assume i: "i \<in> set (items db)" "it_ID i = u" "it_WorkspaceID i = ws" "it_DeletedAt i = None" "it_Version i = v"
    and a: "apply_op now m \<lparr>ch_op = changeSoftDelete, ch_itemID = u, ch_events = []\<rparr> seq st = Inr st'" "items (fs_db st) = items db" "items db' = items (fs_db st')"
  let ?g = "\<lambda>i. i\<lparr>it_DeletedAt := Some now, it_ChangeSeq := seq, it_Version := it_Version i + 1, it_UpdatedAt := now\<rparr>"
  from a(1) obtain row rows db1 where u: "update_items (\<lambda>i. it_ID i = u \<and> it_DeletedAt i = None) ?g (fs_db st) = Inr (row # rows, db1)" "fs_db st' = db1"
    by (auto simp: apply_op_def Let_def SoftDeleteItem_def result_simps)
  note w = u(1) [unfolded update_items_Inr a(2)]
  have its: "items db' = map (\<lambda>i. if it_ID i = u \<and> it_DeletedAt i = None then ?g i else i) (items db)" using w a(3) u(2) by simp
  have same: "x = i" if "x \<in> set (items db)" "it_ID x = it_ID i" for x
    using that i(1) assms(2) by (auto simp: items_unique_def distinct_map dest: inj_onD)
  have its': "items db' = map (\<lambda>x. if it_ID x = it_ID i then ?g x else x) (items db)" unfolding its using i(2,4) by (intro map_cong refl if_cong) (auto dest: same)
  show thesis
  proof (rule that [OF i])
    show "bumped (items db) i (items db')" by (rule bumpedI [OF assms(2) i(1) its']) simp_all
    show "items_unique (items db')" using w unfolding a(3) u(2) by blast
  qed
qed

lemma Mutate_Update_bumps:
  assumes "Mutate now ws (\<lambda>m. Inr (Update up evs m)) [WithActor a, WithExpectedVersion (iu_ID up) v] db = (Inr res, db')" "items_unique (items db)"
  obtains i where "i \<in> set (items db)" "it_ID i = iu_ID up" "it_WorkspaceID i = ws" "it_DeletedAt i = None" "it_Version i = v"
    "bumped (items db) i (items db')" "items_unique (items db')"
proof (rule Mutate_update [OF assms(1)])
  fix i seq
  assume i: "i \<in> set (items db)" "it_ID i = iu_ID up" "it_WorkspaceID i = ws" "it_DeletedAt i = None" "it_Version i = v"
    and its: "items db' = map (\<lambda>i. if it_ID i = iu_ID up then updated_item now (update_params up seq) i else i) (items db)" "items_unique (items db')"
  have "bumped (items db) i (items db')"
    by (rule bumpedI [OF assms(2) i(1), where g = "updated_item now (update_params up seq)"]) (simp_all add: its(1) i(2), simp_all add: updated_item_def i(2))
  from that [OF i this its(2)] show thesis .
qed

text \<open>The item that a request has read\<close>

lemma parsed_current:
  assumes "readItem ts ws key all_fields db = Inr (current, v)" "\<And>u. parse_uuid env (uuid_String u) = Some u"
  obtains i where "i \<in> set (items db)" "it_WorkspaceID i = ws" "it_Key i = key" "it_Version i = v" "parsed_id env (get current ''id'') = it_ID i"
proof -
  from assms(1) obtain i p s t r where i: "i \<in> set (items db)" "it_WorkspaceID i = ws" "it_Key i = key" "v = it_Version i"
    "\<forall>f \<in> set all_fields. get current f = get (item_doc ts db i p s t r) f" by (rule readItem_Inr)
  have "''id'' \<in> set all_fields" by (simp add: all_fields_def Registry_def field_def)
  then have "get current ''id'' = JStr (uuid_String (it_ID i))" using i(5) by (simp add: item_doc_def get_entries)
  then have "parsed_id env (get current ''id'') = it_ID i" using assms(2) by (simp add: parsed_id_def)
  with i show thesis by (intro that) simp_all
qed

lemma updateItem_effective:
  assumes "effective db (updateItem env ts now r ifMatch (Inr raw) db)"
  obtains version inp current v i up evs merged res s where "expectedVersion ifMatch = Inr version" "\<forall>e \<in> set raw. fst e \<in> set editable"
    "decode_input (sort_key fst raw) = Some inp" "readItem ts (rq_WorkspaceID r) (rq_Key r) all_fields (api_store db) = Inr (current, v)"
    "i \<in> set (items (api_store db))" "it_WorkspaceID i = rq_WorkspaceID r" "it_Key i = rq_Key r"
    "validateInput env db (rq_WorkspaceID r) (it_ProjectID i) inp (map_of raw ''title'' \<noteq> None) = Inr ()"
    "rfold (patch_property env inp current) (empty_update (parsed_id env (get current ''id'')), [], current) (sort_key fst raw) = Inr (up, evs, merged)"
    "Mutate now (rq_WorkspaceID r) (\<lambda>m. Inr (Update up evs m)) [WithActor (rq_UserID r), WithExpectedVersion (iu_ID up) version] (api_store db) = (Inr res, s)"
    "snd (updateItem env ts now r ifMatch (Inr raw) db) = with_store db s"
proof -
  from assms obtain version inp current v i up evs merged where 1: "rejectFields r = Inr ()" "expectedVersion ifMatch = Inr version"
    "raw \<noteq> []" "find (\<lambda>(f, v). f \<notin> set editable) raw = None"
    "decode_input (sort_key fst raw) = Some inp" "readItem ts (rq_WorkspaceID r) (rq_Key r) all_fields (api_store db) = Inr (current, v)"
    "find (\<lambda>i. it_WorkspaceID i = rq_WorkspaceID r \<and> it_Key i = rq_Key r) (items (api_store db)) = Some i"
    "validateInput env db (rq_WorkspaceID r) (it_ProjectID i) inp (map_of raw ''title'' \<noteq> None) = Inr ()"
    "rfold (patch_property env inp current) (empty_update (parsed_id env (get current ''id'')), [], current) (sort_key fst raw) = Inr (up, evs, merged)" "evs \<noteq> []"
    unfolding updateItem_def effective_refused by (auto simp: result_simps split: if_splits option.splits)
  define h where "h = mutate_item ts now r (Update up evs) [WithExpectedVersion (iu_ID up) version] (JObj raw) (answer_item ts (rq_WorkspaceID r) (rq_Key r)) db"
  have h: "updateItem env ts now r ifMatch (Inr raw) db = h"
    using 1 by (simp add: updateItem_def refused_def rbind_def or_database_def or_detail_def some_or_def h_def)
  from assms [unfolded h h_def] obtain res s where
    "Mutate now (rq_WorkspaceID r) (\<lambda>m. Inr (Update up evs m)) [WithActor (rq_UserID r), WithExpectedVersion (iu_ID up) version] (api_store db) = (Inr res, s)"
    "snd h = with_store db s" unfolding h_def by (rule mutate_item_effective [OF _ answer_item_snd])
  moreover have "\<forall>e \<in> set raw. fst e \<in> set editable" using 1(4) by (auto simp: find_None_iff)
  ultimately show thesis using that [OF 1(2) _ 1(5,6) _ _ _ 1(8,9), of res s] find_SomeD [OF 1(7)] unfolding h by simp
qed

lemma deleteItem_effective:
  assumes "effective db (deleteItem ts now r ifMatch db)"
  obtains version i res s where "expectedVersion ifMatch = Inr version"
    "i \<in> set (items (api_store db))" "it_WorkspaceID i = rq_WorkspaceID r" "it_Key i = rq_Key r"
    "Mutate now (rq_WorkspaceID r) (\<lambda>m. Inr (SoftDelete (it_ID i) m)) [WithActor (rq_UserID r), WithExpectedVersion (it_ID i) version] (api_store db) = (Inr res, s)"
    "snd (deleteItem ts now r ifMatch db) = with_store db s"
proof -
  from assms obtain version i where 1: "rejectFields r = Inr ()" "expectedVersion ifMatch = Inr version"
    "find (\<lambda>i. it_WorkspaceID i = rq_WorkspaceID r \<and> it_Key i = rq_Key r) (items (api_store db)) = Some i"
    unfolding deleteItem_def effective_refused by (auto simp: result_simps)
  define h where "h = mutate_item ts now r (SoftDelete (it_ID i)) [WithExpectedVersion (it_ID i) version] (JObj [(''deleted'', JBool True)])
    (\<lambda>db'. (Inr ([(''key'', JStr (rq_Key r)), (''deleted'', JBool True)], version), db')) db"
  have h: "deleteItem ts now r ifMatch db = h"
    using 1 by (simp add: deleteItem_def refused_def rbind_def or_database_def some_or_def h_def)
  from assms [unfolded h h_def] obtain res s where
    "Mutate now (rq_WorkspaceID r) (\<lambda>m. Inr (SoftDelete (it_ID i) m)) [WithActor (rq_UserID r), WithExpectedVersion (it_ID i) version] (api_store db) = (Inr res, s)"
    "snd h = with_store db s" unfolding h_def by (rule mutate_item_effective) simp
  then show thesis using that [OF 1(2), of i res s] find_SomeD [OF 1(3)] unfolding h by simp
qed

subsection \<open>Requests in a row\<close>

datatype item_call = UpdateCall "(string \<times> json) list" | TransitionCall string go_map | DeleteCall

record item_request =
  ir_Now :: int
  ir_Request :: request
  ir_IfMatch :: string
  ir_Call :: item_call

definition serve :: "input_env \<Rightarrow> (int \<Rightarrow> string) \<Rightarrow> item_request \<Rightarrow> api_db \<Rightarrow> item_answer" where
  "serve env ts q db =
     (case ir_Call q of
        UpdateCall raw \<Rightarrow> updateItem env ts (ir_Now q) (ir_Request q) (ir_IfMatch q) (Inr raw) db
      | TransitionCall to opt \<Rightarrow> transitionItem env ts (ir_Now q) (ir_Request q) (ir_IfMatch q) (Inr (to, opt)) db
      | DeleteCall \<Rightarrow> deleteItem ts (ir_Now q) (ir_Request q) (ir_IfMatch q) db)"

definition serve_all :: "input_env \<Rightarrow> (int \<Rightarrow> string) \<Rightarrow> item_request list \<Rightarrow> api_db \<Rightarrow> api_db" where
  "serve_all env ts qs db = foldl (\<lambda>d q. snd (serve env ts q d)) db qs"

lemma effective_item:
  assumes "items_unique (items db)" "\<And>u. parse_uuid env (uuid_String u) = Some u" "readItem ts ws key all_fields db = Inr (current, v)"
    "iu_ID up = parsed_id env (get current ''id'')"
    "Mutate now ws (\<lambda>m. Inr (Update up evs m)) [WithActor a, WithExpectedVersion (iu_ID up) version] db = (Inr res, s)"
  obtains i where "i \<in> set (items db)" "it_WorkspaceID i = ws" "it_Key i = key" "it_DeletedAt i = None" "it_Version i = version"
    "bumped (items db) i (items s)" "items_unique (items s)"
proof -
  from parsed_current [OF assms(3,2)] obtain i where i: "i \<in> set (items db)" "it_WorkspaceID i = ws" "it_Key i = key" "parsed_id env (get current ''id'') = it_ID i" by blast
  from Mutate_Update_bumps [OF assms(5,1)] obtain j where j: "j \<in> set (items db)" "it_ID j = iu_ID up" "it_DeletedAt j = None" "it_Version j = version"
    "bumped (items db) j (items s)" "items_unique (items s)" .
  have "j = i" using i(1,4) j(1,2) assms(1,4) by (auto simp: items_unique_def distinct_map dest: inj_onD)
  with i j show thesis by (intro that) simp_all
qed

lemma serve_effective:
  assumes "items_unique (items (api_store db))" "\<And>u. parse_uuid env (uuid_String u) = Some u" "effective db (serve env ts q db)"
  obtains i where "i \<in> set (items (api_store db))" "it_WorkspaceID i = rq_WorkspaceID (ir_Request q)" "it_Key i = rq_Key (ir_Request q)"
    "it_DeletedAt i = None" "expectedVersion (ir_IfMatch q) = Inr (it_Version i)"
    "bumped (items (api_store db)) i (items (api_store (snd (serve env ts q db))))" "items_unique (items (api_store (snd (serve env ts q db))))"
proof (cases "ir_Call q")
  case (UpdateCall raw)
  let ?r = "ir_Request q"
  have sv: "serve env ts q db = updateItem env ts (ir_Now q) ?r (ir_IfMatch q) (Inr raw) db" by (simp add: serve_def UpdateCall)
  from assms(3) [unfolded sv] show thesis
  proof (rule updateItem_effective)
    fix version inp current v i up evs merged res s
    assume 1: "expectedVersion (ir_IfMatch q) = Inr version" "readItem ts (rq_WorkspaceID ?r) (rq_Key ?r) all_fields (api_store db) = Inr (current, v)"
      "rfold (patch_property env inp current) (empty_update (parsed_id env (get current ''id'')), [], current) (sort_key fst raw) = Inr (up, evs, merged)"
      "Mutate (ir_Now q) (rq_WorkspaceID ?r) (\<lambda>m. Inr (Update up evs m)) [WithActor (rq_UserID ?r), WithExpectedVersion (iu_ID up) version] (api_store db) = (Inr res, s)"
      "snd (updateItem env ts (ir_Now q) ?r (ir_IfMatch q) (Inr raw) db) = with_store db s"
    have "iu_ID up = parsed_id env (get current ''id'')" using patches_ID [OF 1(3)] by (simp add: update_ID)
    from effective_item [OF assms(1,2) 1(2) this 1(4)] obtain i where "i \<in> set (items (api_store db))" "it_WorkspaceID i = rq_WorkspaceID ?r" "it_Key i = rq_Key ?r"
      "it_DeletedAt i = None" "it_Version i = version" "bumped (items (api_store db)) i (items s)" "items_unique (items s)" .
    then show thesis using that [of i] 1(1,5) by (simp add: sv with_store_def)
  qed
next
  case (TransitionCall to opt)
  let ?r = "ir_Request q"
  have sv: "serve env ts q db = transitionItem env ts (ir_Now q) ?r (ir_IfMatch q) (Inr (to, opt)) db" by (simp add: serve_def TransitionCall)
  from assms(3) [unfolded sv] show thesis
  proof (rule transitionItem_effective)
    fix version current i and t :: Status and ct :: ConfigTransition and up :: ItemUpdate and evs merged res s
    assume 1: "expectedVersion (ir_IfMatch q) = Inr version" "readItem ts (rq_WorkspaceID ?r) (rq_Key ?r) all_fields (api_store db) = Inr (current, version)"
      "itemPatch env db (rq_WorkspaceID ?r) (it_ProjectID i) current (case opt of None \<Rightarrow> [] | Some kvs \<Rightarrow> kvs) = Inr (up, evs, merged)"
      "Mutate (ir_Now q) (rq_WorkspaceID ?r) (\<lambda>m. Inr (Update (up\<lparr>iu_StatusID := Some (st_ID t), iu_ConfigVersion := Some (cr_Version ct)\<rparr>) (evs @ [status_change current to]) m))
        [WithActor (rq_UserID ?r), WithExpectedVersion (iu_ID up) version] (api_store db) = (Inr res, s)"
      "snd (transitionItem env ts (ir_Now q) ?r (ir_IfMatch q) (Inr (to, opt)) db) = with_store db s"
    from 1(3) have "iu_ID up = parsed_id env (get current ''id'')"
      by (auto simp: itemPatch_def result_simps update_ID split: option.splits dest!: patches_ID)
    then have id: "iu_ID (up\<lparr>iu_StatusID := Some (st_ID t), iu_ConfigVersion := Some (cr_Version ct)\<rparr>) = parsed_id env (get current ''id'')" by simp
    have m: "Mutate (ir_Now q) (rq_WorkspaceID ?r) (\<lambda>m. Inr (Update (up\<lparr>iu_StatusID := Some (st_ID t), iu_ConfigVersion := Some (cr_Version ct)\<rparr>) (evs @ [status_change current to]) m))
        [WithActor (rq_UserID ?r), WithExpectedVersion (iu_ID (up\<lparr>iu_StatusID := Some (st_ID t), iu_ConfigVersion := Some (cr_Version ct)\<rparr>)) version] (api_store db) = (Inr res, s)" using 1(4) by simp
    from effective_item [OF assms(1,2) 1(2) id m] obtain j where "j \<in> set (items (api_store db))" "it_WorkspaceID j = rq_WorkspaceID ?r" "it_Key j = rq_Key ?r"
      "it_DeletedAt j = None" "it_Version j = version" "bumped (items (api_store db)) j (items s)" "items_unique (items s)" .
    then show thesis using that [of j] 1(1,5) by (simp add: sv with_store_def)
  qed
next
  case DeleteCall
  let ?r = "ir_Request q"
  have sv: "serve env ts q db = deleteItem ts (ir_Now q) ?r (ir_IfMatch q) db" by (simp add: serve_def DeleteCall)
  from assms(3) [unfolded sv] show thesis
  proof (rule deleteItem_effective)
    fix version i res s
    assume 1: "expectedVersion (ir_IfMatch q) = Inr version" "i \<in> set (items (api_store db))" "it_WorkspaceID i = rq_WorkspaceID ?r" "it_Key i = rq_Key ?r"
      "Mutate (ir_Now q) (rq_WorkspaceID ?r) (\<lambda>m. Inr (SoftDelete (it_ID i) m)) [WithActor (rq_UserID ?r), WithExpectedVersion (it_ID i) version] (api_store db) = (Inr res, s)"
      "snd (deleteItem ts (ir_Now q) ?r (ir_IfMatch q) db) = with_store db s"
    from Mutate_SoftDelete [OF 1(5) assms(1)] obtain j where j: "j \<in> set (items (api_store db))" "it_ID j = it_ID i" "it_DeletedAt j = None" "it_Version j = version"
      "bumped (items (api_store db)) j (items s)" "items_unique (items s)" .
    have "j = i" using j(1,2) 1(2) assms(1) by (auto simp: items_unique_def distinct_map dest: inj_onD)
    then show thesis using that [of i] j 1 by (simp add: sv with_store_def)
  qed
qed

text \<open>The versions that a request leaves, effective or not\<close>

definition at_least :: "uuid \<Rightarrow> string \<Rightarrow> int \<Rightarrow> api_db \<Rightarrow> bool" where
  "at_least ws key v db = (items_unique (items (api_store db)) \<and>
     (\<exists>i \<in> set (items (api_store db)). it_WorkspaceID i = ws \<and> it_Key i = key \<and> v \<le> it_Version i))"

lemma serve_at_least:
  assumes "\<And>u. parse_uuid env (uuid_String u) = Some u" "at_least ws key v db"
  shows "at_least ws key v (snd (serve env ts q db))"
proof (cases "effective db (serve env ts q db)")
  case True
  from assms(2) have u: "items_unique (items (api_store db))" by (simp add: at_least_def)
  from assms(2) obtain x where x: "x \<in> set (items (api_store db))" "it_WorkspaceID x = ws" "it_Key x = key" "v \<le> it_Version x" by (auto simp: at_least_def)
  from serve_effective [OF u assms(1) True] obtain i where i: "i \<in> set (items (api_store db))" "bumped (items (api_store db)) i (items (api_store (snd (serve env ts q db))))"
    "items_unique (items (api_store (snd (serve env ts q db))))" by blast
  from bumped_versions [OF u i(2,1) x(1)] obtain y where "y \<in> set (items (api_store (snd (serve env ts q db))))" "it_WorkspaceID y = it_WorkspaceID x" "it_Key y = it_Key x" "it_Version x \<le> it_Version y" .
  then show ?thesis using x i(3) unfolding at_least_def by (auto intro!: bexI [of _ y])
next
  case False
  then show ?thesis using assms(2) by (simp add: effective_def)
qed

lemma serve_all_at_least:
  assumes "\<And>u. parse_uuid env (uuid_String u) = Some u"
  shows "at_least ws key v db \<Longrightarrow> at_least ws key v (serve_all env ts qs db)"
  by (induction qs arbitrary: db) (simp_all add: serve_all_def serve_at_least [OF assms])

lemma serve_bumps:
  assumes "items_unique (items (api_store db))" "\<And>u. parse_uuid env (uuid_String u) = Some u" "effective db (serve env ts q db)"
  obtains v where "expectedVersion (ir_IfMatch q) = Inr v" "at_least (rq_WorkspaceID (ir_Request q)) (rq_Key (ir_Request q)) (v + 1) (snd (serve env ts q db))"
proof -
  from serve_effective [OF assms] obtain i where i: "i \<in> set (items (api_store db))" "it_WorkspaceID i = rq_WorkspaceID (ir_Request q)" "it_Key i = rq_Key (ir_Request q)"
    "expectedVersion (ir_IfMatch q) = Inr (it_Version i)" "bumped (items (api_store db)) i (items (api_store (snd (serve env ts q db))))"
    "items_unique (items (api_store (snd (serve env ts q db))))" .
  from bumped_versions [OF assms(1) i(5,1,1)] obtain y where "y \<in> set (items (api_store (snd (serve env ts q db))))" "it_WorkspaceID y = it_WorkspaceID i" "it_Key y = it_Key i"
    "it_Version i < it_Version y" by blast
  then have "at_least (rq_WorkspaceID (ir_Request q)) (rq_Key (ir_Request q)) (it_Version i + 1) (snd (serve env ts q db))"
    using i unfolding at_least_def by (auto intro!: bexI [of _ y])
  with i(4) show thesis by (rule that)
qed

lemma serve_all_unique:
  assumes "\<And>u. parse_uuid env (uuid_String u) = Some u" "items_unique (items (api_store db))"
  shows "items_unique (items (api_store (serve_all env ts qs db)))"
  using assms(2)
proof (induction qs arbitrary: db)
  case (Cons q qs)
  have "items_unique (items (api_store (snd (serve env ts q db))))"
  proof (cases "effective db (serve env ts q db)")
    case True
    then show ?thesis using serve_effective [OF Cons.prems assms(1)] by blast
  qed (use Cons.prems in \<open>simp add: effective_def\<close>)
  from Cons.IH [OF this] show ?case by (simp add: serve_all_def)
qed (simp add: serve_all_def)

text \<open>
  C14.  No update is lost: in any sequence of updates, transitions and deletions of items, two requests on the same item that both
  take effect carry different versions in \<open>If-Match\<close>, and the later one the higher version; so of two edits made from the
  same version of an item at most one is stored, whatever happens in between.
\<close>

theorem no_lost_update:
  assumes "items_unique (items (api_store db))" "\<And>u. parse_uuid env (uuid_String u) = Some u"
    and "db1 = serve_all env ts qs1 db" "effective db1 (serve env ts q1 db1)"
    and "db2 = serve_all env ts qs2 (snd (serve env ts q1 db1))" "effective db2 (serve env ts q2 db2)"
    and "rq_WorkspaceID (ir_Request q2) = rq_WorkspaceID (ir_Request q1)" "rq_Key (ir_Request q2) = rq_Key (ir_Request q1)"
  shows "\<exists>v w. expectedVersion (ir_IfMatch q1) = Inr v \<and> expectedVersion (ir_IfMatch q2) = Inr w \<and> v < w"
proof -
  have "items_unique (items (api_store db1))" unfolding assms(3) by (rule serve_all_unique [OF assms(2,1)])
  from serve_bumps [OF this assms(2,4)] obtain v where v: "expectedVersion (ir_IfMatch q1) = Inr v"
    "at_least (rq_WorkspaceID (ir_Request q1)) (rq_Key (ir_Request q1)) (v + 1) (snd (serve env ts q1 db1))" .
  have al: "at_least (rq_WorkspaceID (ir_Request q1)) (rq_Key (ir_Request q1)) (v + 1) db2" unfolding assms(5) by (rule serve_all_at_least [OF assms(2) v(2)])
  then have u: "items_unique (items (api_store db2))" by (simp add: at_least_def)
  from serve_effective [OF u assms(2,6)] obtain i where i: "i \<in> set (items (api_store db2))" "it_WorkspaceID i = rq_WorkspaceID (ir_Request q2)" "it_Key i = rq_Key (ir_Request q2)"
    "expectedVersion (ir_IfMatch q2) = Inr (it_Version i)" by blast
  from al obtain x where x: "x \<in> set (items (api_store db2))" "it_WorkspaceID x = rq_WorkspaceID (ir_Request q1)" "it_Key x = rq_Key (ir_Request q1)" "v + 1 \<le> it_Version x"
    by (auto simp: at_least_def)
  have "x = i" using items_unique_key [OF u x(1) i(1)] x i assms(7,8) by simp
  with x(4) v(1) i(4) show ?thesis by auto
qed

text \<open>A transition from version 1 and a deletion from version 2 both take effect.\<close>

definition demo_first :: item_request where
  "demo_first = \<lparr>ir_Now = 100, ir_Request = demo_call, ir_IfMatch = first_version, ir_Call = TransitionCall ''done'' (Some demo_body)\<rparr>"

definition demo_second :: item_request where
  "demo_second = \<lparr>ir_Now = 101, ir_Request = demo_call, ir_IfMatch = [CHR 0x22, CHR ''2'', CHR 0x22], ir_Call = DeleteCall\<rparr>"

lemma demo_delete: "\<not> isl (fst (deleteItem (\<lambda>_. []) 101 demo_call [CHR 0x22, CHR ''2'', CHR 0x22] (with_store demo_api (snd demo_mutation_run))))"
  by code_simp

theorem no_lost_update_witness:
  "\<exists>v w. expectedVersion (ir_IfMatch demo_first) = Inr v \<and> expectedVersion (ir_IfMatch demo_second) = Inr w \<and> v < w"
proof (rule no_lost_update [OF demo_store_unique, of demo_env])
  have first: "serve demo_env (\<lambda>_. []) demo_first demo_api = demo_transition" by (simp add: serve_def demo_first_def)
  show "parse_uuid demo_env (uuid_String u) = Some u" for u by (simp add: demo_env_def)
  show "demo_api = serve_all demo_env (\<lambda>_. []) [] demo_api" by (simp add: serve_all_def)
  show "effective demo_api (serve demo_env (\<lambda>_. []) demo_first demo_api)" unfolding first by (rule demo_transition_run)
  show "with_store demo_api (snd demo_mutation_run) = serve_all demo_env (\<lambda>_. []) [] (snd (serve demo_env (\<lambda>_. []) demo_first demo_api))"
    unfolding first demo_transition_run(1) by (simp add: serve_all_def answer_item_snd)
  show "effective (with_store demo_api (snd demo_mutation_run)) (serve demo_env (\<lambda>_. []) demo_second (with_store demo_api (snd demo_mutation_run)))"
    using demo_delete by (simp add: effective_def serve_def demo_second_def)
qed (simp_all add: demo_first_def demo_second_def)

subsection \<open>Accepted patches\<close>

lemma decode_entry_title: "decode_entry inp (k, v) = Some inp' \<Longrightarrow> ii_Title inp' = ii_Title inp \<or> v = JStr (ii_Title inp')"
  by (cases v) (auto simp: decode_entry_def Let_def text_or_def text_ptr_def split: if_split_asm)

lemma decode_entries_title:
  assumes "decode_entries inp es = Some inp'" "\<forall>k t. (k, JStr t) \<in> set es \<longrightarrow> P t" "P (ii_Title inp)"
  shows "P (ii_Title inp')"
  using assms
proof (induction es arbitrary: inp)
  case (Cons e es)
  obtain k v where e: "e = (k, v)" by fastforce
  from Cons.prems(1) obtain inp1 where 1: "decode_entry inp (k, v) = Some inp1" "decode_entries inp1 es = Some inp'"
    by (auto simp: e split: option.splits)
  have "P (ii_Title inp1)" using decode_entry_title [OF 1(1)] Cons.prems(2,3) by (auto simp: e)
  with Cons.IH [OF 1(2)] Cons.prems(2) show ?case by simp
qed simp

text \<open>What a patch can set the title and the points to\<close>

definition sets_input :: "itemInput \<Rightarrow> bool \<Rightarrow> patch_state \<Rightarrow> bool" where
  "sets_input inp titled st = (case st of (up, _) \<Rightarrow>
     (iu_Title up = None \<or> titled \<and> iu_Title up = Some (ii_Title inp)) \<and> (iu_SetPoints up \<longrightarrow> iu_Points up = ii_Points inp) \<and> iu_ConfigVersion up = None)"

lemma patch_property_sets:
  assumes "patch_property env inp current st (f, v) = Inr st'" "sets_input inp titled st" "f = ''title'' \<Longrightarrow> titled"
  shows "sets_input inp titled st'"
proof -
  obtain up evs merged where st: "st = (up, evs, merged)" by (cases st) auto
  show ?thesis
  proof (cases "f = ''fields''")
    case True
    with assms show ?thesis by (auto simp: patch_property_def patch_custom_def st sets_input_def Let_def split: option.splits)
  next
    case False
    with assms(1) obtain up' evs' m where s: "set_property env inp f up = Some up'" "st' = (up', evs', m)" by (auto simp: patch_property_def st split: option.splits)
    from set_property_cases [OF s(1)] assms(2,3) show ?thesis by (elim disjE conjE) (simp_all add: s(2) st sets_input_def)
  qed
qed

lemma title_of_raw: "(''title'', v) \<in> set raw \<Longrightarrow> map_of raw ''title'' \<noteq> None"
  by (metis weak_map_of_SomeI option.distinct(1))

lemma itemPatch_sets:
  assumes "itemPatch env db ws project current raw = Inr (up, evs, merged)"
  obtains inp where "decode_input (sort_key fst raw) = Some inp" "validateInput env db ws project inp (map_of raw ''title'' \<noteq> None) = Inr ()"
    "sets_input inp (map_of raw ''title'' \<noteq> None) (up, evs, merged)"
proof -
  from assms obtain inp where 1: "decode_input (sort_key fst raw) = Some inp" "validateInput env db ws project inp (map_of raw ''title'' \<noteq> None) = Inr ()"
    "rfold (patch_property env inp current) (empty_update (parsed_id env (get current ''id'')), [], current) (sort_key fst raw) = Inr (up, evs, merged)"
    by (auto simp: itemPatch_def result_simps split: option.splits)
  have "sets_input inp (map_of raw ''title'' \<noteq> None) (up, evs, merged)"
  proof (rule rfold_invariant [OF 1(3), of "sets_input inp (map_of raw ''title'' \<noteq> None)"])
    show "sets_input inp (map_of raw ''title'' \<noteq> None) (empty_update (parsed_id env (get current ''id'')), [], current)" by (simp add: sets_input_def empty_update_def)
    show "sets_input inp (map_of raw ''title'' \<noteq> None) st2" if "e \<in> set (sort_key fst raw)" "sets_input inp (map_of raw ''title'' \<noteq> None) st1" "patch_property env inp current st1 e = Inr st2" for e st1 st2
    proof -
      obtain f v where e: "e = (f, v)" by fastforce
      show ?thesis by (rule patch_property_sets [OF that(3) [unfolded e] that(2)]) (rule title_of_raw [of v], use that(1) in \<open>simp add: e\<close>)
    qed
  qed
  with 1(1,2) show thesis by (rule that)
qed

text \<open>
  C21.  An accepted patch fits the columns: whatever values \<open>itemPatch\<close> accepts (texts being UTF-8, as \<open>encoding/json\<close> makes
  them), the update of the row never fails the range of a column or the length of the title, as long as the version and the
  sequence number are in range.
\<close>

theorem accepted_patch_fits:
  assumes "itemPatch env db ws project current raw = Inr (up, evs, merged)" "\<forall>k t. (k, JStr t) \<in> set raw \<longrightarrow> ValidString t"
    and "list_all item_ranges_ok (items store)" "list_all item_title_ok (items store)"
    and "list_all (\<lambda>i. int4_ok (it_Version i + 1)) (items store)" "int8_ok seq"
  shows "UpdateItemFields now (update_params up seq) store \<notin> {Inl OutOfRange, Inl (CheckViolation ''item_title_check'')}"
proof -
  from assms(1) obtain inp where 1: "decode_input (sort_key fst raw) = Some inp" "validateInput env db ws project inp (map_of raw ''title'' \<noteq> None) = Inr ()"
    "sets_input inp (map_of raw ''title'' \<noteq> None) (up, evs, merged)" by (rule itemPatch_sets)
  have "ValidString (ii_Title inp)"
    by (rule decode_entries_title [OF 1(1) [unfolded decode_input_def]]) (use assms(2) in \<open>simp_all add: empty_input_def\<close>)
  then have title: "map_of raw ''title'' \<noteq> None \<Longrightarrow> 1 \<le> utf8_length (ii_Title inp) \<and> utf8_length (ii_Title inp) \<le> 500" using validateInput_Inr(2) [OF 1(2)] by blast
  note points = validateInput_Inr(1) [OF 1(2)]
  have ok: "item_ranges_ok (updated_item now (update_params up seq) i)" "item_title_ok (updated_item now (update_params up seq) i)" if "i \<in> set (items store)" for i
  proof -
    have i: "item_ranges_ok i" "item_title_ok i" "int4_ok (it_Version i + 1)" using assms(3-5) that by (simp_all add: list_all_iff)
    show "item_ranges_ok (updated_item now (update_params up seq) i)"
      using i(1,3) 1(3) points assms(6) by (auto simp: item_ranges_ok_def updated_item_def update_params_def sets_input_def coalesce_def)
    show "item_title_ok (updated_item now (update_params up seq) i)"
      using i(2) 1(3) title by (auto simp: item_title_ok_def updated_item_def update_params_def sets_input_def coalesce_def)
  qed
  then have "list_all item_ranges_ok (map (updated_item now (update_params up seq)) (filter sel (items store)))"
    "list_all item_title_ok (map (updated_item now (update_params up seq)) (filter sel (items store)))" for sel by (simp_all add: list_all_iff)
  then show ?thesis unfolding UpdateItemFields_row by (auto simp: update_items_def one_row_def Let_def result_simps guard_or_def rbind_def split: sum.splits list.splits if_splits)
qed

theorem accepted_patch_fits_witness:
  "UpdateItemFields 100 (update_params (empty_update 21\<lparr>iu_SetBody := True, iu_Body := Some ''b''\<rparr>) 5) (api_store demo_api) \<notin> {Inl OutOfRange, Inl (CheckViolation ''item_title_check'')}"
proof (rule accepted_patch_fits [OF demo_patch])
  show "\<forall>k t. (k, JStr t) \<in> set demo_body \<longrightarrow> ValidString t" by (auto simp: demo_body_def utf8_first_def)
qed (simp_all add: demo_api_def demo_items demo_item_def item_ranges_ok_def item_title_ok_def int4_ok_def int8_ok_def numeric_ok_def utf8_length_def)

end
