(* ===== verification/Sx_Move.thy ===== *)
theory Sx_Move
  imports Sx_Calls Sx_Ranking
begin

text \<open>
  Moving an item to another parent or rank: the handler of \<open>src/internal/api/move.go\<close>, and that its checks of the hierarchy
  accept exactly the moves that the store accepts.
\<close>

text \<open>The item and the key prefix of its project\<close>

definition live_item :: "uuid \<Rightarrow> string \<Rightarrow> database \<Rightarrow> (Item \<times> Project) option" where
  "live_item ws key db =
     (case concat (map (\<lambda>i. map (Pair i) (filter (\<lambda>p. pj_ID p = it_ProjectID i) (projects db)))
         (filter (\<lambda>i. it_WorkspaceID i = ws \<and> it_Key i = key \<and> it_DeletedAt i = None) (items db))) of
        [] \<Rightarrow> None
      | row # _ \<Rightarrow> Some row)"

text \<open>The checks of the new parent and of the depth; the answer is the new parent.\<close>

definition check_parent :: "uuid \<Rightarrow> Item \<Rightarrow> Project \<Rightarrow> string option \<Rightarrow> database \<Rightarrow> string + Item option" where
  "check_parent ws it p parentKey db =
     (case parentKey of
        None \<Rightarrow> Inr None
      | Some k \<Rightarrow>
          rbind (some_or (live_item ws k db) (''Parent item '' @ k @ '' was not found. Enter a live item key in project '' @ pj_KeyPrefix p @ ''.'')) (\<lambda>(parent, q).
          if pj_KeyPrefix q \<noteq> pj_KeyPrefix p then
            Inl (''Cannot move an item from project '' @ pj_KeyPrefix p @ '' under a parent in project '' @ pj_KeyPrefix q @ ''. Choose a parent in '' @ pj_KeyPrefix p @ ''.'')
          else let parentPath = join_dots (it_Path parent); path = join_dots (it_Path it) in
            if parentPath = path \<or> prefix (path @ ''.'') parentPath then Inl ''parent cannot be this item or one of its descendants.''
            else Inr (Some parent)))"

definition parent_depth :: "Item option \<Rightarrow> int" where
  "parent_depth parent = (case parent of None \<Rightarrow> 0 | Some q \<Rightarrow> int (count_dots (join_dots (it_Path q))) + 1)"

definition depth_message :: string where
  "depth_message = ''parent would place this item or its descendants beyond the maximum depth of 8.''"

definition move_checks :: "uuid \<Rightarrow> Item \<Rightarrow> Project \<Rightarrow> string option \<Rightarrow> database \<Rightarrow> Problem + Item option" where
  "move_checks ws it p parentKey db =
     rbind (or_detail invalidChange (check_parent ws it p parentKey db)) (\<lambda>newParent.
     rbind (case subtree_height (it_Path it) db of Inl e \<Rightarrow> Inl (storeProblem e) | Inr h \<Rightarrow> Inr h) (\<lambda>height.
     if parent_depth newParent + height > 8 then Inl (invalidChange depth_message) else Inr newParent))"

text \<open>The item after which the moved one is placed; the outer option tells whether the request names a place.\<close>

definition check_after :: "uuid \<Rightarrow> Item \<Rightarrow> Project \<Rightarrow> string option option \<Rightarrow> database \<Rightarrow> string + uuid option" where
  "check_after ws it p rankAfter db =
     (case rankAfter of
        Some (Some k) \<Rightarrow>
          (case live_item ws k db of
             Some (a, q) \<Rightarrow>
               if pj_KeyPrefix q \<noteq> pj_KeyPrefix p then Inl ''rank_after must name another live item in the same project.''
               else if it_ID a = it_ID it then Inl ''rank_after cannot name the item being moved.''
               else Inr (Some (it_ID a))
           | None \<Rightarrow> Inl ''rank_after must name another live item in the same project.'')
      | _ \<Rightarrow> Inr None)"

definition hierarchy_changed :: string where
  "hierarchy_changed = ''The hierarchy changed. Choose a live parent without cycles and within depth 8, then retry.''"

text \<open>
  \<open>moveItem\<close>; the request holds the raw values of \<open>parent\<close> and \<open>rank_after\<close>, \<open>None\<close> when they are absent.
\<close>

definition moveItem :: "(int \<Rightarrow> string) \<Rightarrow> int \<Rightarrow> request \<Rightarrow> string \<Rightarrow> Problem + json option \<times> json option \<Rightarrow> api_db \<Rightarrow> item_answer" where
  "moveItem ts now r ifMatch decoded db =
     refused db (rbind (rejectFields r) (\<lambda>_.
     rbind (expectedVersion ifMatch) (\<lambda>version.
     rbind decoded (\<lambda>(parent, rankAfter).
     rbind (some_or parent (requestProblem ''Provide parent as an item key or null for a root item.'')) (\<lambda>parent.
     rbind (some_or (text_ptr parent) (requestProblem ''parent and rank_after must be item keys or null.'')) (\<lambda>parentKey.
     rbind (case rankAfter of None \<Rightarrow> Inr None
            | Some v \<Rightarrow> rbind (some_or (text_ptr v) (requestProblem ''parent and rank_after must be item keys or null.'')) (\<lambda>k. Inr (Some k))) (\<lambda>after.
     rbind (or_database (some_or (live_item (rq_WorkspaceID r) (rq_Key r) (api_store db)) NoRows)) (\<lambda>(it, p).
     rbind (move_checks (rq_WorkspaceID r) it p parentKey (api_store db)) (\<lambda>newParent.
     rbind (or_detail invalidChange (check_after (rq_WorkspaceID r) it p after (api_store db))) (\<lambda>rankItem.
     let move = \<lparr>rp_ID = it_ID it, rp_NewParentID = map_option it_ID newParent, rp_SetRank = (rankAfter \<noteq> None), rp_RankAfter = rankItem\<rparr>;
         submitted = JObj ((''parent'', parent) # (case rankAfter of None \<Rightarrow> [(''rank_after'', JNull)] | Some v \<Rightarrow> [(''rank_after'', v)])) in
     Inr (case Mutate now (rq_WorkspaceID r) (\<lambda>m. Inr (Reparent move m)) [WithActor (rq_UserID r), WithExpectedVersion (it_ID it) version] (api_store db) of
         (Inl e, s) \<Rightarrow>
           (Inl (if e = ErrInvalidMove
                 then invalidChange hierarchy_changed
                 else mutationError ts (rq_WorkspaceID r) (rq_Key r) e submitted s), with_store db s)
       | (Inr _, s) \<Rightarrow> answer_item ts (rq_WorkspaceID r) (rq_Key r) (with_store db s))))))))))))"

subsection \<open>The checks of the handler and of the store\<close>

lemma live_item_Some:
  assumes "live_item ws key db = Some (i, p)"
  shows "i \<in> set (items db)" "it_WorkspaceID i = ws" "it_Key i = key" "it_DeletedAt i = None" "p \<in> set (projects db)" "pj_ID p = it_ProjectID i"
proof -
  have head: "x \<in> set xs" if "(case xs of [] \<Rightarrow> None | y # _ \<Rightarrow> Some y) = Some x" for x and xs :: "'z list"
    using that by (cases xs) simp_all
  show "i \<in> set (items db)" "it_WorkspaceID i = ws" "it_Key i = key" "it_DeletedAt i = None" "p \<in> set (projects db)" "pj_ID p = it_ProjectID i"
    using head [OF assms [unfolded live_item_def]] by auto
qed

text \<open>What the tables guarantee: prefixes are unique in a workspace and items belong to projects of their workspace.\<close>

definition projects_ok :: "database \<Rightarrow> bool" where
  "projects_ok db =
     (distinct (map pj_ID (projects db)) \<and> distinct (map (\<lambda>p. (pj_WorkspaceID p, pj_KeyPrefix p)) (projects db)) \<and>
      list_all (\<lambda>i. list_all (\<lambda>p. pj_ID p = it_ProjectID i \<longrightarrow> pj_WorkspaceID p = it_WorkspaceID i) (projects db)) (items db))"

lemma same_prefix:
  assumes "projects_ok db" "live_item ws k db = Some (i, p)" "live_item ws l db = Some (j, q)"
  shows "pj_KeyPrefix q = pj_KeyPrefix p \<longleftrightarrow> it_ProjectID j = it_ProjectID i"
proof -
  note i = live_item_Some [OF assms(2)] and j = live_item_Some [OF assms(3)]
  have ws: "pj_WorkspaceID p = ws" "pj_WorkspaceID q = ws" using assms(1) i j by (auto simp: projects_ok_def list_all_iff)
  have "p = q" if "pj_KeyPrefix q = pj_KeyPrefix p" using that ws i(5) j(5) assms(1) by (auto simp: projects_ok_def distinct_map dest: inj_onD)
  moreover have "p = q" if "pj_ID p = pj_ID q" using that i(5) j(5) assms(1) by (auto simp: projects_ok_def distinct_map dest: inj_onD)
  ultimately show ?thesis using i(6) j(6) by auto
qed

text \<open>The place in the hierarchy: the two sets of checks refuse the same moves.\<close>

lemma applyReparent_invalid:
  assumes "find_item db (rp_ID mv) = Some it" "\<not> rp_SetRank mv"
  shows "applyReparent now mv seq db = Inl ErrInvalidMove \<longleftrightarrow>
    reparent_target it mv db = Inl ErrInvalidMove \<or>
    (\<exists>target h. reparent_target it mv db = Inr target \<and> subtree_height (it_Path it) db = Inr h \<and> (if target \<noteq> [] then int (count_dots target) + 1 else 0) + h > 8)"
proof -
  have "subtree_height p db \<noteq> Inl ErrInvalidMove" for p by (auto simp: subtree_height_def split: option.splits)
  then show ?thesis using assms unfolding applyReparent_def by (auto simp: Let_def result_simps GetItem_def)
qed

lemma subtree_height_total: "i \<in> set (items db) \<Longrightarrow> \<exists>h. subtree_height (it_Path i) db = Inr h"
  by (auto simp: subtree_height_def sql_max_None ltree_below_def filter_empty_conv split: option.splits)

lemma move_checks_place:
  assumes "tree_ok (items db)" "projects_ok db" "live_item ws key db = Some (it, p)"
    and "case parentKey of None \<Rightarrow> parent = None | Some k \<Rightarrow> \<exists>j q. live_item ws k db = Some (j, q) \<and> parent = Some j"
  shows "\<not> isl (move_checks ws it p parentKey db) \<longleftrightarrow>
    applyReparent now \<lparr>rp_ID = it_ID it, rp_NewParentID = map_option it_ID parent, rp_SetRank = False, rp_RankAfter = None\<rparr> seq db \<noteq> Inl ErrInvalidMove"
    (is "_ \<longleftrightarrow> applyReparent now ?mv seq db \<noteq> _")
proof -
  note i = live_item_Some [OF assms(3)]
  have f: "find_item db (rp_ID ?mv) = Some it" using i(1) by (simp add: find_item_iff [OF assms(1)])
  obtain h where h: "subtree_height (it_Path it) db = Inr h" using subtree_height_total [OF i(1)] by blast
  note inv = applyReparent_invalid [OF f, simplified, of now seq]
  show ?thesis
  proof (cases parentKey)
    case None
    then show ?thesis using assms(4) h unfolding inv by (auto simp: move_checks_def check_parent_def reparent_target_def parent_depth_def or_detail_def)
  next
    case (Some k)
    then obtain j q where j: "live_item ws k db = Some (j, q)" "parent = Some j" using assms(4) by auto
    note j' = live_item_Some [OF j(1)]
    have fj: "find_item db (it_ID j) = Some j" using j'(1) by (simp add: find_item_iff [OF assms(1)])
    have ne: "join_dots (it_Path j) \<noteq> []" by (rule path_text_facts(6) [OF assms(1) j'(1)])
    show ?thesis
      using same_prefix [OF assms(2,3) j(1)] fj ne j'(4) h unfolding inv
      by (auto simp: move_checks_def check_parent_def reparent_target_def Some j some_or_def rbind_def GetItem_def sql_def or_detail_def
          isDescendantOrSelf_def parent_depth_def Let_def split: sum.splits)
  qed
qed

text \<open>The place among the ranks: an item named by the handler is found in the store's list of ranks.\<close>

definition unrestricted :: "database \<Rightarrow> bool" where
  "unrestricted db = list_all (\<lambda>r. rs_Kind r \<noteq> ''item'') (restrictions db)"

definition after_listed :: "Item \<Rightarrow> ItemReparent \<Rightarrow> database \<Rightarrow> bool" where
  "after_listed it r db =
     (case rp_RankAfter r of None \<Rightarrow> True
      | Some a \<Rightarrow> a \<noteq> it_ID it \<and> list_ex (\<lambda>j. it_ID j = a \<and> it_ProjectID j = it_ProjectID it) (items db))"

lemma rank_scan_True: "fst (rank_scan self after True lo L)"
  by (induction L) auto

lemma rank_scan_finds: "(Some a, x) \<in> set L \<Longrightarrow> a \<noteq> self \<Longrightarrow> fst (rank_scan self (Some a) found lo L)"
proof (induction L arbitrary: found lo)
  case (Cons e L)
  then show ?case by (cases e) (auto simp: rank_scan_True coalesce_def)
qed simp

lemma after_listed_found:
  assumes "after_listed it r db" "unrestricted db"
  shows "fst (rank_scan (it_ID it) (rp_RankAfter r) (rp_RankAfter r = None) [] (ListProjectRanks (it_ProjectID it) db))"
proof (cases "rp_RankAfter r")
  case (Some a)
  then obtain j where j: "a \<noteq> it_ID it" "j \<in> set (items db)" "it_ID j = a" "it_ProjectID j = it_ProjectID it"
    using assms(1) by (auto simp: after_listed_def list_ex_iff)
  have "\<not> rank_hidden db j" using assms(2) by (auto simp: unrestricted_def rank_hidden_def list_ex_iff list_all_iff)
  then have "(Some a, it_Rank j) \<in> set (ListProjectRanks (it_ProjectID it) db)" using j by (force simp: ListProjectRanks_def)
  then show ?thesis using Some rank_scan_finds j(1) by fastforce
qed (simp add: rank_scan_True)

lemma after_listed_map:
  assumes "\<And>i. it_ID (g i) = it_ID i \<and> it_ProjectID (g i) = it_ProjectID i" "items db' = map g (items db)" "after_listed it r db"
  shows "after_listed it r db'"
  using assms by (auto simp: after_listed_def list_ex_iff split: option.splits)

lemma reparent_rank_found:
  assumes "after_listed it r db" "unrestricted db"
  shows "reparent_rank n now it r db \<noteq> Inl ErrInvalidMove"
  using assms
proof (induction n arbitrary: db)
  case (Suc n)
  obtain lo hi where scan: "rank_scan (it_ID it) (rp_RankAfter r) (rp_RankAfter r = None) [] (ListProjectRanks (it_ProjectID it) db) = (True, lo, hi)"
    using after_listed_found [OF Suc.prems] by (metis prod.collapse)
  have "rank_result x \<noteq> Inl ErrInvalidMove" for x by (auto simp: rank_result_def split: option.splits sum.splits rank_error.splits)
  moreover have "reparent_rank n now it r db' \<noteq> Inl ErrInvalidMove" if "rebalanceProjectRanks now p ranks db = Inr db'" for p ranks db'
  proof (rule Suc.IH)
    from rebalance_reranked [OF that] obtain g where g: "rank_only g" "db' = db\<lparr>items := map g (items db)\<rparr>" unfolding reranked_def by blast
    then show "unrestricted db'" using Suc.prems(2) by (simp add: unrestricted_def)
    have "it_ID (g i) = it_ID i \<and> it_ProjectID (g i) = it_ProjectID i" for i using rank_only_place [OF g(1)] by (simp add: keeps_place_def)
    then show "after_listed it r db'" by (rule after_listed_map) (use g(2) Suc.prems(1) in simp_all)
  qed
  moreover have "rebalanceProjectRanks now p ranks db \<noteq> Inl ErrInvalidMove" for p ranks by (auto simp: rebalanceProjectRanks_def result_simps)
  ultimately show ?case by (auto simp: scan Let_def result_simps)
qed simp

lemma applyReparent_accepts:
  assumes "find_item db (rp_ID mv) = Some it" "after_listed it mv db" "unrestricted db"
    and "applyReparent now (mv\<lparr>rp_SetRank := False, rp_RankAfter := None\<rparr>) seq db \<noteq> Inl ErrInvalidMove"
  shows "applyReparent now mv seq db \<noteq> Inl ErrInvalidMove"
proof
  assume inv: "applyReparent now mv seq db = Inl ErrInvalidMove"
  have same: "reparent_target it (mv\<lparr>rp_SetRank := False, rp_RankAfter := None\<rparr>) db = reparent_target it mv db" by (simp add: reparent_target_def)
  have height: "subtree_height p db \<noteq> Inl ErrInvalidMove" for p by (auto simp: subtree_height_def split: option.splits)
  have rank: "reparent_rank 2 now it mv db1 \<noteq> Inl ErrInvalidMove"
    if sub: "ReparentSubtree now u np target old seq db = Inr (rows, db1)" for u np target old rows db1
  proof (rule reparent_rank_found)
    have "restrictions db1 = restrictions db" using sub by (auto simp: ReparentSubtree_def Let_def result_simps update_items_Inr)
    then show "unrestricted db1" using assms(3) by (simp add: unrestricted_def)
    from ReparentSubtree_keeps [OF sub] obtain g where g: "keeps_rank g" "items db1 = map g (items db)" .
    show "after_listed it mv db1" by (rule after_listed_map [OF _ g(2) assms(2)]) (use g(1) in \<open>simp add: keeps_rank_def\<close>)
  qed
  from inv assms(4) show False
    unfolding applyReparent_def using assms(1) height rank same by (auto simp: Let_def result_simps GetItem_def split: if_split_asm)
qed

lemma rfold_sql_Inl: "rfold (\<lambda>d x. sql (f d x)) s xs = Inl e \<Longrightarrow> e \<noteq> ErrInvalidMove"
  by (drule rfold_error) (auto simp: sql_Inl)

lemma flush_Reparent_invalid:
  assumes "mu_changes m = [\<lparr>ch_op = changeReparent mv, ch_itemID = u, ch_events = es\<rparr>]" "flush now m db = Inl ErrInvalidMove"
  obtains seq db1 where "applyReparent now mv seq db1 = Inl ErrInvalidMove" "items db1 = items db" "projects db1 = projects db" "restrictions db1 = restrictions db"
proof (cases "AllocateSeq (int (eventCount m)) (mu_workspaceID m) db")
  case (Inr hd)
  obtain highest db1 where hd: "hd = (highest, db1)" by (cases hd)
  have db1: "items db1 = items db" "projects db1 = projects db" "restrictions db1 = restrictions db" using Inr hd by (auto simp: AllocateSeq_Inr)
  obtain changes itemSeq where num: "assign_seqs (highest - int (eventCount m) + 1) (\<lambda>_. 0) (mu_changes m) = (changes, itemSeq)" by (metis surj_pair)
  then obtain es' where ch: "changes = [\<lparr>ch_op = changeReparent mv, ch_itemID = u, ch_events = es'\<rparr>]" using assms(1) by (auto split: prod.splits)
  have "sql (Inr (highest, db1)) = Inr (highest, db1)" by (simp add: sql_def)
  then have "rfold (apply_change now m itemSeq) (flush_start m db1) changes = Inl ErrInvalidMove"
    using assms(2) unfolding flush_def by (auto simp: Let_def Inr hd num result_simps recomputeRollups_def dest: rfold_sql_Inl)
  then have "applyReparent now mv (itemSeq u) db1 = Inl ErrInvalidMove"
    unfolding ch by (auto simp: apply_change_def apply_op_def Let_def result_simps)
  then show thesis using that db1 by blast
qed (use assms(2) in \<open>simp add: flush_def Let_def sql_def\<close>)

lemma Mutate_Reparent_invalid:
  assumes "Mutate now ws (\<lambda>m. Inr (Reparent mv m)) [WithActor a, WithExpectedVersion u v] db = (Inl ErrInvalidMove, s)"
  obtains seq db1 where "applyReparent now mv seq db1 = Inl ErrInvalidMove" "items db1 = items db" "projects db1 = projects db" "restrictions db1 = restrictions db"
proof -
  define m where "m = Reparent mv (foldl apply_option (empty_mutation ws) [WithActor a, WithExpectedVersion u v])"
  obtain es where m: "mu_changes m = [\<lparr>ch_op = changeReparent mv, ch_itemID = rp_ID mv, ch_events = es\<rparr>]" "es \<noteq> []" "mu_err m = None"
    by (simp add: m_def Reparent_def Let_def add_change_def apply_option_def empty_mutation_def)
  then have "prepare ws (\<lambda>m. Inr (Reparent mv m)) [WithActor a, WithExpectedVersion u v] = Inr m" unfolding prepare_def m_def [symmetric] by simp
  with assms have "flush now m db = Inl ErrInvalidMove" by (auto simp: Mutate_def transaction_def split: sum.splits)
  from flush_Reparent_invalid [OF m(1) this] that show thesis .
qed

text \<open>No other answer of the handler has the text of a move refused by the store.\<close>

lemmas problem_defs = problem_def BadRequest_def NotFound_def Unprocessable_def Unavailable_def PreconditionRequired_def Conflict_def requestProblem_def invalidChange_def

lemma other_details:
  "rejectFields r = Inl pr \<Longrightarrow> pb_Detail pr \<noteq> hierarchy_changed"
  "expectedVersion header = Inl pr \<Longrightarrow> pb_Detail pr \<noteq> hierarchy_changed"
  "pb_Detail (databaseProblem e) \<noteq> hierarchy_changed"
  by (auto simp: rejectFields_def expectedVersion_def databaseProblem_def hierarchy_changed_def problem_defs split: if_splits option.splits sql_error.splits)

lemma store_details:
  "pb_Detail (storeProblem x) \<noteq> hierarchy_changed"
  "pb_Detail (mutationError ts ws key x submitted db) \<noteq> hierarchy_changed"
proof -
  have "pb_Detail Unavailable \<noteq> hierarchy_changed" by (simp add: hierarchy_changed_def problem_defs)
  then show store: "pb_Detail (storeProblem y) \<noteq> hierarchy_changed" for y using other_details(3) by (simp add: storeProblem_def split: store_error.split)
  have "pb_Detail ((Conflict j)\<lparr>pb_Submitted := Some k\<rparr>) \<noteq> hierarchy_changed" for j k by (simp add: hierarchy_changed_def problem_defs)
  then show "pb_Detail (mutationError ts ws key x submitted db) \<noteq> hierarchy_changed"
    using store other_details(3) by (simp add: mutationError_def split: sum.split prod.split)
qed

lemma request_details: "d \<noteq> hierarchy_changed \<Longrightarrow> pb_Detail (requestProblem d) \<noteq> hierarchy_changed" "pb_Detail (invalidChange d) = d"
  by (simp_all add: requestProblem_def invalidChange_def)

lemma check_details:
  "check_parent ws it p parentKey db = Inl d \<Longrightarrow> d \<noteq> hierarchy_changed"
  "check_after ws it p after db = Inl d \<Longrightarrow> d \<noteq> hierarchy_changed"
  "depth_message \<noteq> hierarchy_changed"
  by (auto simp: check_parent_def check_after_def depth_message_def hierarchy_changed_def Let_def result_simps split: if_splits option.splits)

lemma move_checks_details: "move_checks ws it p parentKey db = Inl pr \<Longrightarrow> pb_Detail pr \<noteq> hierarchy_changed"
  using check_details(1,3) store_details(1)
  by (auto simp: move_checks_def result_simps or_detail_def request_details(2) split: if_splits sum.splits)

definition answers_changed :: "Problem + 'a answer \<Rightarrow> bool" where
  "answers_changed res = (case res of Inl pr \<Rightarrow> pb_Detail pr = hierarchy_changed
     | Inr ans \<Rightarrow> (case fst ans of Inl pr \<Rightarrow> pb_Detail pr = hierarchy_changed | Inr _ \<Rightarrow> False))"

lemma answers_changed_bind:
  assumes "answers_changed (rbind m f)" "\<And>pr. m = Inl pr \<Longrightarrow> pb_Detail pr \<noteq> hierarchy_changed"
  obtains x where "m = Inr x" "answers_changed (f x)"
  using assms by (cases m) (auto simp: answers_changed_def)

lemma step_details:
  "some_or x (requestProblem d) = Inl pr \<Longrightarrow> d \<noteq> hierarchy_changed \<Longrightarrow> pb_Detail pr \<noteq> hierarchy_changed"
  "or_database y = Inl pr \<Longrightarrow> pb_Detail pr \<noteq> hierarchy_changed"
  "or_detail invalidChange (check_after ws it p after db) = Inl pr \<Longrightarrow> pb_Detail pr \<noteq> hierarchy_changed"
  using request_details other_details(3) check_details(2)
  by (auto simp: some_or_def or_database_def or_detail_def split: option.splits sum.splits)

lemma request_texts:
  "''Provide parent as an item key or null for a root item.'' \<noteq> hierarchy_changed" "''parent and rank_after must be item keys or null.'' \<noteq> hierarchy_changed"
  by (simp_all add: hierarchy_changed_def)

lemma mutate_changed:
  assumes "answers_changed (Inr (case res of
      (Inl e, s) \<Rightarrow> (Inl (if e = ErrInvalidMove then invalidChange hierarchy_changed else mutationError ts ws key e submitted s), with_store db s)
    | (Inr _, s) \<Rightarrow> answer_item ts ws key (with_store db s)))"
  obtains s where "res = (Inl ErrInvalidMove, s)"
  using assms by (auto simp: answers_changed_def answer_item_def store_details split: prod.splits sum.splits if_splits dest: step_details(2))

lemma moveItem_changed:
  assumes "fst (moveItem ts now r ifMatch (Inr (parent, rankAfter)) db) = Inl (invalidChange hierarchy_changed)"
  obtains version it p parentKey newParent after rankItem s where
    "live_item (rq_WorkspaceID r) (rq_Key r) (api_store db) = Some (it, p)"
    "move_checks (rq_WorkspaceID r) it p parentKey (api_store db) = Inr newParent" "check_after (rq_WorkspaceID r) it p after (api_store db) = Inr rankItem"
    "Mutate now (rq_WorkspaceID r) (\<lambda>m. Inr (Reparent \<lparr>rp_ID = it_ID it, rp_NewParentID = map_option it_ID newParent, rp_SetRank = (rankAfter \<noteq> None), rp_RankAfter = rankItem\<rparr> m))
      [WithActor (rq_UserID r), WithExpectedVersion (it_ID it) version] (api_store db) = (Inl ErrInvalidMove, s)"
proof -
  have res: "answers_changed res" if "fst (refused db res) = Inl (invalidChange hierarchy_changed)" for res :: "Problem + item_answer"
    using that by (auto simp: answers_changed_def refused_def request_details(2) split: sum.splits)
  show thesis
    using res [OF assms [unfolded moveItem_def]]
    apply -
    apply (erule answers_changed_bind, erule other_details)
    apply (erule answers_changed_bind, erule other_details)
    apply (erule answers_changed_bind, simp)
    apply (simp only: sum.inject, hypsubst, simp only: prod.case)
    apply (erule answers_changed_bind, erule step_details, rule request_texts)
    apply (erule answers_changed_bind, erule step_details, rule request_texts)
    apply (erule answers_changed_bind)
    subgoal using step_details(1) [OF _ request_texts(2)] by (auto simp: result_simps split: option.splits)
    apply (erule answers_changed_bind, erule step_details)
    subgoal for u version body parent parentKey after row
      apply (cases row)
      apply (simp only: prod.case or_database_Inr some_or_Inr)
      apply (erule answers_changed_bind, erule move_checks_details)
      apply (erule answers_changed_bind, erule step_details)
      apply (simp only: Let_def or_detail_Inr)
      apply (erule mutate_changed)
      apply (rule that; assumption)
      done
    done
qed

text \<open>What the checks on the parent and on the place among the ranks have found\<close>

lemma move_checks_parent:
  assumes "move_checks ws it p parentKey db = Inr newParent"
  shows "case parentKey of None \<Rightarrow> newParent = None | Some k \<Rightarrow> \<exists>j q. live_item ws k db = Some (j, q) \<and> newParent = Some j"
  using assms by (auto simp: move_checks_def check_parent_def result_simps Let_def split: option.splits if_splits)

lemma check_after_listed:
  assumes "projects_ok db" "live_item ws key db = Some (it, p)" "check_after ws it p after db = Inr rankItem"
  shows "after_listed it \<lparr>rp_ID = u, rp_NewParentID = np, rp_SetRank = b, rp_RankAfter = rankItem\<rparr> db"
proof (cases rankItem)
  case (Some a)
  then obtain k j q where k: "live_item ws k db = Some (j, q)" "pj_KeyPrefix q = pj_KeyPrefix p" "it_ID j \<noteq> it_ID it" "a = it_ID j"
    using assms(3) by (auto simp: check_after_def split: option.splits if_splits)
  then show ?thesis
    using same_prefix [OF assms(1,2) k(1)] live_item_Some(1) [OF k(1)] Some by (auto simp: after_listed_def list_ex_iff)
qed (simp add: after_listed_def)

lemma moveItem_not_changed:
  assumes "tree_ok (items (api_store db))" "projects_ok (api_store db)" "unrestricted (api_store db)"
  shows "fst (moveItem ts now r ifMatch (Inr (parent, rankAfter)) db) \<noteq> Inl (invalidChange hierarchy_changed)"
proof
  assume "fst (moveItem ts now r ifMatch (Inr (parent, rankAfter)) db) = Inl (invalidChange hierarchy_changed)"
  then show False
  proof (rule moveItem_changed)
    fix version and it :: Item and p :: Project and parentKey and newParent :: "Item option" and after rankItem s
    let ?ws = "rq_WorkspaceID r" and ?db = "api_store db"
    let ?mv = "\<lparr>rp_ID = it_ID it, rp_NewParentID = map_option it_ID newParent, rp_SetRank = (rankAfter \<noteq> None), rp_RankAfter = rankItem\<rparr>"
    assume live: "live_item ?ws (rq_Key r) ?db = Some (it, p)" and chk: "move_checks ?ws it p parentKey ?db = Inr newParent"
      and aft: "check_after ?ws it p after ?db = Inr rankItem"
      and mut: "Mutate now ?ws (\<lambda>m. Inr (Reparent ?mv m)) [WithActor (rq_UserID r), WithExpectedVersion (it_ID it) version] ?db = (Inl ErrInvalidMove, s)"
    from Mutate_Reparent_invalid [OF mut] obtain seq db1 where a: "applyReparent now ?mv seq db1 = Inl ErrInvalidMove"
      and same: "items db1 = items ?db" "projects db1 = projects ?db" "restrictions db1 = restrictions ?db" .
    have lv: "live_item w k db1 = live_item w k ?db" for w k by (simp add: live_item_def same)
    have ok: "tree_ok (items db1)" "projects_ok db1" "unrestricted db1" using assms by (simp_all add: same projects_ok_def unrestricted_def)
    have chk1: "move_checks ?ws it p parentKey db1 = Inr newParent" using chk unfolding move_checks_def check_parent_def subtree_height_def lv same .
    have aft1: "check_after ?ws it p after db1 = Inr rankItem" using aft unfolding check_after_def lv .
    have live1: "live_item ?ws (rq_Key r) db1 = Some (it, p)" using live lv by simp
    have "applyReparent now (?mv\<lparr>rp_SetRank := False, rp_RankAfter := None\<rparr>) seq db1 \<noteq> Inl ErrInvalidMove"
      using move_checks_place [OF ok(1,2) live1 move_checks_parent [OF chk1]] chk1 by simp
    moreover have "find_item db1 (rp_ID ?mv) = Some it" using live_item_Some(1) [OF live1] by (simp add: find_item_iff [OF ok(1)])
    ultimately have "applyReparent now ?mv seq db1 \<noteq> Inl ErrInvalidMove"
      using applyReparent_accepts [OF _ check_after_listed [OF ok(2) live1 aft1] ok(3)] by blast
    with a show False by blast
  qed
qed

text \<open>
  C22.  The handler of a move and the store agree.  For a live item and a parent that is none or a live item of the
  workspace, the checks of \<open>moveItem\<close> on projects, descendants and depth accept the place exactly when the store's
  \<open>applyReparent\<close> on the same database does not answer \<open>ErrInvalidMove\<close>.  With the place among the ranks included, a move
  that passes the handler is not refused by the store: over a well-formed database in which no item is restricted,
  \<open>moveItem\<close> never answers that the hierarchy has changed when nothing changes between its checks and its transaction.
\<close>

theorem move_checks_agree:
  assumes "tree_ok (items (api_store db))" "projects_ok (api_store db)" "unrestricted (api_store db)"
    and "live_item ws key (api_store db) = Some (it, p)"
    and "case parentKey of None \<Rightarrow> parent = None | Some k \<Rightarrow> \<exists>j q. live_item ws k (api_store db) = Some (j, q) \<and> parent = Some j"
  shows "(\<not> isl (move_checks ws it p parentKey (api_store db)) \<longleftrightarrow>
     applyReparent now \<lparr>rp_ID = it_ID it, rp_NewParentID = map_option it_ID parent, rp_SetRank = False, rp_RankAfter = None\<rparr> seq (api_store db) \<noteq> Inl ErrInvalidMove) \<and>
   fst (moveItem ts now r ifMatch (Inr (newParent, rankAfter)) db) \<noteq> Inl (invalidChange hierarchy_changed)"
  using move_checks_place [OF assms(1,2,4,5)] moveItem_not_changed [OF assms(1-3)] by blast

text \<open>Below its parent the second item may stay; the first cannot go below the second.\<close>

lemma demo_store: "items (api_store demo_api) = items demo_tree" "projects (api_store demo_api) = projects demo_db" "restrictions (api_store demo_api) = restrictions demo_db"
  by (simp_all add: demo_api_def demo_tree_def)

lemma demo_store_ok: "tree_ok (items (api_store demo_api))" "projects_ok (api_store demo_api)" "unrestricted (api_store demo_api)"
  using demo_tree_ok(1) by (simp_all add: demo_store projects_ok_def unrestricted_def demo_items, simp_all add: demo_db_def)

lemma demo_live:
  "live_item 1 ''SRX-2'' (api_store demo_api) = Some (demo_item 21 (Some 20) [20, 21] ''SRX-2'' ''r'', hd (projects demo_db))"
  "live_item 1 ''SRX-1'' (api_store demo_api) = Some (demo_item 20 None [20] ''SRX-1'' ''i'', hd (projects demo_db))"
  by (simp_all add: live_item_def demo_store demo_items, simp_all add: demo_db_def demo_item_def)

theorem move_checks_agree_witness:
  "applyReparent 100 \<lparr>rp_ID = 21, rp_NewParentID = Some 20, rp_SetRank = False, rp_RankAfter = None\<rparr> 5 (api_store demo_api) \<noteq> Inl ErrInvalidMove \<and>
   applyReparent 100 \<lparr>rp_ID = 20, rp_NewParentID = Some 21, rp_SetRank = False, rp_RankAfter = None\<rparr> 5 (api_store demo_api) = Inl ErrInvalidMove \<and>
   fst (moveItem (\<lambda>_. []) 100 demo_call first_version (Inr (Some JNull, Some (JStr ''SRX-1''))) demo_api) \<noteq> Inl (invalidChange hierarchy_changed)"
proof -
  let ?first = "demo_item 20 None [20] ''SRX-1'' ''i''" and ?second = "demo_item 21 (Some 20) [20, 21] ''SRX-2'' ''r''"
  have "\<not> isl (move_checks 1 ?second (hd (projects demo_db)) (Some ''SRX-1'') (api_store demo_api))"
    "isl (move_checks 1 ?first (hd (projects demo_db)) (Some ''SRX-2'') (api_store demo_api))" by code_simp+
  then show ?thesis
    using move_checks_agree [OF demo_store_ok demo_live(1), where parentKey = "Some ''SRX-1''" and parent = "Some ?first" and now = 100 and seq = 5 and ts = "\<lambda>_. []" and r = demo_call and ifMatch = first_version
        and newParent = "Some JNull" and rankAfter = "Some (JStr ''SRX-1'')"]
      move_checks_agree [OF demo_store_ok demo_live(2), where parentKey = "Some ''SRX-2''" and parent = "Some ?second" and now = 100 and seq = 5 and ts = "\<lambda>_. []" and r = demo_call and ifMatch = first_version
        and newParent = "Some JNull" and rankAfter = "Some (JStr ''SRX-1'')"]
    by (simp add: demo_live)
qed

end
