(* ===== verification/Sx_Projects.thy ===== *)
theory Sx_Projects
  imports Sx_Items
begin

text \<open>
  Projects and members: the handlers of \<open>src/internal/api/projects.go\<close> with the reserved prefixes of
  \<open>src/internal/api/reserved.go\<close>, and the configuration that a new project gets
  (\<open>src/internal/store/seed/install.go\<close> and \<open>config.sql\<close>).  \<open>ILIKE\<close> and the reading of a \<open>uuid\<close> by the database are arguments.
\<close>

subsection \<open>The first configuration of a project\<close>

definition InsertFieldDef :: "FieldDef \<Rightarrow> config_db \<Rightarrow> sql_error + config_db" where
  "InsertFieldDef row db =
     rbind (guard_or ((fd_ProjectID row, fd_Key row) \<notin> (\<lambda>x. (fd_ProjectID x, fd_Key x)) ` set (field_defs db)) (UniqueViolation ''field_def'')) (\<lambda>_.
     rbind (guard_or (fd_ProjectID row \<in> pj_ID ` set (projects (cd_store db))) (ForeignKeyViolation ''field_def'')) (\<lambda>_.
     Inr (db\<lparr>field_defs := field_defs db @ [row]\<rparr>)))"

text \<open>A statement of the store on its part of the database\<close>

definition in_store :: "(database \<Rightarrow> sql_error + 'a \<times> database) \<Rightarrow> config_db \<Rightarrow> sql_error + config_db" where
  "in_store f db = rbind (f (cd_store db)) (\<lambda>(_, s). Inr (db\<lparr>cd_store := s\<rparr>))"

definition seed_statuses :: "(string \<times> string \<times> string) list" where
  "seed_statuses =
     [(''todo'', ''To Do'', ''open''), (''doing'', ''In Progress'', ''active''), (''review'', ''In Review'', ''active''),
      (''done'', ''Done'', ''done''), (''dropped'', ''Dropped'', ''cancelled'')]"

definition seed_types :: "(string \<times> string \<times> int) list" where
  "seed_types = [(''initiative'', ''Initiative'', 3), (''epic'', ''Epic'', 2), (''story'', ''Story'', 1), (''bug'', ''Bug'', 1)]"

definition seed_fields :: "uuid \<Rightarrow> FieldDef list" where
  "seed_fields p =
     [\<lparr>fd_ProjectID = p, fd_Key = ''impact'', fd_Name = ''Impact'', fd_DataType = ''number'', fd_Options = []\<rparr>,
      \<lparr>fd_ProjectID = p, fd_Key = ''component'', fd_Name = ''Component'', fd_DataType = ''select'', fd_Options = [''api'', ''web'', ''infra'']\<rparr>]"

definition seed_arcs :: "(string \<times> string \<times> string list) list" where
  "seed_arcs = [(''todo'', ''doing'', [''assignee'']), (''doing'', ''review'', []), (''review'', ''done'', [''assignee''])]"

text \<open>The statuses of the project with a key\<close>

definition keyed :: "uuid \<Rightarrow> string \<Rightarrow> config_db \<Rightarrow> Status list" where
  "keyed p k db = filter (\<lambda>s. st_ProjectID s = p \<and> st_Key s = k) (statuses (cd_store db))"

text \<open>The rows that the \<open>SELECT\<close>s of \<open>config.sql\<close> insert\<close>

definition order_rows :: "uuid \<Rightarrow> int \<Rightarrow> config_db \<Rightarrow> ConfigStatus list" where
  "order_rows p v db =
     concat (map (\<lambda>(k, ord). map (\<lambda>s. \<lparr>cs_ProjectID = p, cs_Version = v, cs_StatusID = st_ID s, cs_DisplayOrder = ord\<rparr>) (keyed p k db))
       [(''todo'', 1), (''doing'', 2), (''review'', 3), (''done'', 4), (''dropped'', 5)])"

definition initial_rows :: "uuid \<Rightarrow> int \<Rightarrow> config_db \<Rightarrow> ConfigType list" where
  "initial_rows p v db =
     concat (map (\<lambda>t. map (\<lambda>s. \<lparr>ct_ProjectID = p, ct_Version = v, ct_ItemTypeID = ty_ID t, ct_InitialStatusID = st_ID s\<rparr>) (keyed p ''todo'' db))
       (filter (\<lambda>t. ty_ProjectID t = p) (item_types (cd_store db))))"

definition arc_rows :: "uuid \<Rightarrow> int \<Rightarrow> config_db \<Rightarrow> ConfigTransition list" where
  "arc_rows p v db =
     concat (map (\<lambda>(k, l, req). concat (map (\<lambda>f. map (\<lambda>t.
         \<lparr>cr_ProjectID = p, cr_Version = v, cr_FromStatusID = st_ID f, cr_ToStatusID = st_ID t, cr_Requires = req\<rparr>) (keyed p l db)) (keyed p k db))) seed_arcs)"

definition drop_rows :: "uuid \<Rightarrow> int \<Rightarrow> config_db \<Rightarrow> ConfigTransition list" where
  "drop_rows p v db =
     concat (map (\<lambda>f. map (\<lambda>d. \<lparr>cr_ProjectID = p, cr_Version = v, cr_FromStatusID = st_ID f, cr_ToStatusID = st_ID d, cr_Requires = []\<rparr>) (keyed p ''dropped'' db))
       (filter (\<lambda>s. st_ProjectID s = p \<and> st_Key s \<noteq> ''dropped'') (statuses (cd_store db))))"

definition config_statements :: "(nat \<Rightarrow> uuid) \<Rightarrow> uuid \<Rightarrow> int \<Rightarrow> config_db \<Rightarrow> sql_error + config_db" where
  "config_statements fresh p v db =
     rbind (rfold (\<lambda>d (i, k, name, cat). in_store (InsertStatus (fresh i) p k name cat) d) db (zip [0..<5] seed_statuses)) (\<lambda>db.
     rbind (rfold (\<lambda>d (i, k, name, level). in_store (InsertItemType (fresh i) p k name level False) d) db (zip [5..<9] seed_types)) (\<lambda>db.
     rbind (rfold (\<lambda>d row. InsertFieldDef row d) db (seed_fields p)) (\<lambda>db.
     rbind (rfold (\<lambda>d row. InsertConfigStatus row d) db (order_rows p v db)) (\<lambda>db.
     rbind (rfold (\<lambda>d row. InsertConfigType row d) db (initial_rows p v db)) (\<lambda>db.
     rbind (rfold (\<lambda>d row. InsertConfigTransition row d) db (arc_rows p v db)) (\<lambda>db.
     rfold (\<lambda>d row. InsertConfigTransition row d) db (drop_rows p v db)))))))"

definition InstallConfig :: "int \<Rightarrow> (nat \<Rightarrow> uuid) \<Rightarrow> uuid \<Rightarrow> config_db \<Rightarrow> sql_error + config_db" where
  "InstallConfig now fresh p db =
     rbind (in_store (InsertProjectConfig now p 1 None None) db) (\<lambda>db. config_statements fresh p 1 db)"

subsection \<open>Handlers\<close>

definition ReservedPrefixes :: "string list" where
  "ReservedPrefixes =
     [''API'', ''LOGIN'', ''BOARD'', ''VIEWS'', ''SETTINGS'', ''ADMIN'', ''ROADMAP'', ''PROJECTS'', ''ASSETS'', ''PRIVACY'', ''COPYRIGHT'', ''THIRD-PARTY'']"

text \<open>\<open>Project\<close> and \<open>ProjectOwner\<close> as JSON; the owner is null unless there is an account.\<close>

definition owner_json :: "uuid option \<Rightarrow> auth_db \<Rightarrow> json" where
  "owner_json owner db =
     (case find (\<lambda>a. Some (us_ID a) = owner) (accounts db) of
        None \<Rightarrow> JNull
      | Some a \<Rightarrow> JObj [(''id'', JStr (uuid_String (us_ID a))), (''display_name'', JStr (us_DisplayName a))])"

definition project_json :: "(int \<Rightarrow> string) \<Rightarrow> auth_db \<Rightarrow> Project \<Rightarrow> json" where
  "project_json ts db p =
     JObj [(''id'', JStr (uuid_String (pj_ID p))), (''key_prefix'', JStr (pj_KeyPrefix p)), (''name'', JStr (pj_Name p)), (''kind'', JStr (pj_Kind p)),
       (''archived_at'', json_opt (\<lambda>a. JStr (ts a)) (pj_ArchivedAt p)), (''owner'', owner_json (pj_OwnerID p) db),
       (''version'', JNum (of_int (pj_Version p))), (''updated_at'', JStr (ts (pj_UpdatedAt p)))]"

text \<open>\<open>SELECT EXISTS(... m.workspace_id=$1 AND m.user_id=$2 AND u.is_active)\<close>\<close>

definition active_member :: "(string \<Rightarrow> uuid option) \<Rightarrow> uuid \<Rightarrow> string \<Rightarrow> auth_db \<Rightarrow> Problem + uuid" where
  "active_member pg ws owner db =
     rbind (or_database (some_or (pg owner) InvalidText)) (\<lambda>u.
     rbind (guard_or (list_ex (\<lambda>m. mb_WorkspaceID m = ws \<and> mb_UserID m = u) (memberships db) \<and> active_account u db \<noteq> None)
       (requestProblem ''owner_id must identify an active member of this workspace.'')) (\<lambda>_. Inr u))"

definition optional_member :: "(string \<Rightarrow> uuid option) \<Rightarrow> uuid \<Rightarrow> string option \<Rightarrow> auth_db \<Rightarrow> Problem + uuid option" where
  "optional_member pg ws owner db =
     (case owner of None \<Rightarrow> Inr None | Some t \<Rightarrow> rbind (active_member pg ws t db) (\<lambda>u. Inr (Some u)))"

record projectInput =
  pi_KeyPrefix :: string
  pi_Name :: string
  pi_Kind :: string
  pi_OwnerID :: "string option"

definition name_ok :: "string \<Rightarrow> bool" where
  "name_ok name = (TrimSpace name \<noteq> [] \<and> length (runes name) \<le> 200)"

definition set_owner :: "uuid \<Rightarrow> uuid option \<Rightarrow> database \<Rightarrow> database" where
  "set_owner p owner db = db\<lparr>projects := map (\<lambda>x. if pj_ID x = p then x\<lparr>pj_OwnerID := owner\<rparr> else x) (projects db)\<rparr>"

definition createProject ::
  "(int \<Rightarrow> string) \<Rightarrow> (string \<Rightarrow> uuid option) \<Rightarrow> int \<Rightarrow> uuid \<Rightarrow> (nat \<Rightarrow> uuid) \<Rightarrow> request \<Rightarrow> Problem + projectInput \<Rightarrow> api_db \<Rightarrow> Problem + json \<times> api_db" where
  "createProject ts pg now p fresh r decoded db =
     rbind (rejectFields r) (\<lambda>_.
     rbind (guard_or (rq_Role r = ''admin'') Forbidden) (\<lambda>_.
     rbind decoded (\<lambda>inp.
     rbind (guard_or (key_prefix_ok (pi_KeyPrefix inp)) (requestProblem ''key_prefix must match ^[A-Z][A-Z0-9]{1,9}$. Choose an uppercase prefix.'')) (\<lambda>_.
     rbind (guard_or (pi_KeyPrefix inp \<notin> set ReservedPrefixes) (requestProblem (''key_prefix is reserved. Avoid: '' @ join_with '', '' ReservedPrefixes @ ''.''))) (\<lambda>_.
     rbind (guard_or (name_ok (pi_Name inp) \<and> pi_Kind inp \<in> {''delivery'', ''discovery'', ''portfolio''})
       (requestProblem (''Provide a name of 1'' @ en_dash @ ''200 characters and kind delivery, discovery or portfolio.''))) (\<lambda>_.
     rbind (optional_member pg (rq_WorkspaceID r) (pi_OwnerID inp) (ap_auth db)) (\<lambda>owner.
     rbind (or_database (guard_or (CHR 0x00 \<notin> set (pi_Name inp)) OutOfRange)) (\<lambda>_.
     rbind (or_database (CreateProject now p (rq_WorkspaceID r) (pi_KeyPrefix inp) (pi_Name inp) (pi_Kind inp) (api_store db))) (\<lambda>(row, s).
     rbind (or_database (InstallConfig now fresh p ((ap_config db)\<lparr>cd_store := set_owner p owner s\<rparr>))) (\<lambda>cfg.
     Inr (project_json ts (ap_auth db) (row\<lparr>pj_OwnerID := owner\<rparr>), db\<lparr>ap_config := cfg\<rparr>)))))))))))"

definition named_project :: "uuid \<Rightarrow> string \<Rightarrow> api_db \<Rightarrow> Project option" where
  "named_project ws key db = find (\<lambda>p. pj_WorkspaceID p = ws \<and> pj_KeyPrefix p = key) (projects (api_store db))"

definition getProject :: "(int \<Rightarrow> string) \<Rightarrow> request \<Rightarrow> api_db \<Rightarrow> Problem + json \<times> int" where
  "getProject ts r db =
     rbind (rejectFields r) (\<lambda>_.
     rbind (or_database (some_or (named_project (rq_WorkspaceID r) (rq_Key r) db) NoRows)) (\<lambda>p.
     Inr (project_json ts (ap_auth db) p, pj_Version p)))"

text \<open>\<open>updateProject\<close>: the version, the name and the owner of the request\<close>

definition project_version :: "string \<Rightarrow> Problem + int" where
  "project_version header =
     (if header = [] then Inl PreconditionRequired
      else if length header < 3 \<or> hd header \<noteq> CHR 0x22 \<or> last header \<noteq> CHR 0x22 then Inl (requestProblem ''If-Match must contain the quoted current project version.'')
      else case ParseInt64 (butlast (tl header)) of
          None \<Rightarrow> Inl (requestProblem ''If-Match must contain the quoted current project version.'')
        | Some n \<Rightarrow> if n < 1 then Inl (requestProblem ''If-Match must contain the quoted current project version.'') else Inr n)"

definition new_name :: "(string \<times> json) list \<Rightarrow> Problem + string option" where
  "new_name raw =
     (case map_of raw ''name'' of
        None \<Rightarrow> Inr None
      | Some v \<Rightarrow> (case text_or v [] of
            Some t \<Rightarrow> if name_ok t then Inr (Some t) else Inl (requestProblem (''name must contain 1'' @ en_dash @ ''200 characters.''))
          | None \<Rightarrow> Inl (requestProblem (''name must contain 1'' @ en_dash @ ''200 characters.''))))"

definition new_owner :: "(string \<times> json) list \<Rightarrow> Problem + string option" where
  "new_owner raw =
     (case map_of raw ''owner_id'' of
        None \<Rightarrow> Inr None
      | Some JNull \<Rightarrow> Inr None
      | Some (JStr t) \<Rightarrow> if t = [] then Inl (requestProblem ''owner_id must be a member ID or null.'') else Inr (Some t)
      | _ \<Rightarrow> Inl (requestProblem ''owner_id must be a member ID or null.''))"

definition UpdateProject :: "int \<Rightarrow> uuid \<Rightarrow> string \<Rightarrow> string option \<Rightarrow> bool \<Rightarrow> uuid option \<Rightarrow> database \<Rightarrow> sql_error + database" where
  "UpdateProject now ws key name ownerPresent owner db =
     (let sel = (\<lambda>p. pj_WorkspaceID p = ws \<and> pj_KeyPrefix p = key);
          f = (\<lambda>p. p\<lparr>pj_Name := coalesce name (pj_Name p), pj_OwnerID := (if ownerPresent then owner else pj_OwnerID p),
                 pj_Version := pj_Version p + 1, pj_UpdatedAt := now\<rparr>) in
      rbind (guard_or (CHR 0x00 \<notin> set (coalesce name [])) OutOfRange) (\<lambda>_.
      rbind (guard_or (list_all (\<lambda>p. int4_ok (pj_Version (f p))) (filter sel (projects db))) OutOfRange) (\<lambda>_.
      Inr (db\<lparr>projects := map (\<lambda>p. if sel p then f p else p) (projects db)\<rparr>))))"

definition project_conflict :: Problem where
  "project_conflict =
     (problem 409 ''Conflict'' ''This project changed. Compare the current metadata with your edits and retry using its version.'')\<lparr>pb_Type := ''urn:sierx:project-conflict''\<rparr>"

text \<open>A refusal carries the current project and the submitted values when the version is not the current one.\<close>

definition plainly :: "Problem + 'a \<Rightarrow> (Problem \<times> (json \<times> json) option) + 'a" where
  "plainly res = (case res of Inl p \<Rightarrow> Inl (p, None) | Inr x \<Rightarrow> Inr x)"

definition updateProject ::
  "(int \<Rightarrow> string) \<Rightarrow> (string \<Rightarrow> uuid option) \<Rightarrow> int \<Rightarrow> request \<Rightarrow> string \<Rightarrow> Problem + (string \<times> json) list \<Rightarrow> api_db \<Rightarrow>
    (Problem \<times> (json \<times> json) option) + json \<times> api_db" where
  "updateProject ts pg now r ifMatch decoded db =
     rbind (plainly (rejectFields r)) (\<lambda>_.
     rbind (plainly (guard_or (rq_Role r = ''admin'') Forbidden)) (\<lambda>_.
     rbind (plainly (project_version ifMatch)) (\<lambda>version.
     rbind (plainly decoded) (\<lambda>raw.
     rbind (plainly (guard_or (raw \<noteq> []) (requestProblem ''Provide name or owner_id to update.''))) (\<lambda>_.
     rbind (plainly (guard_or (list_all (\<lambda>(k, v). k = ''name'' \<or> k = ''owner_id'') raw) (requestProblem ''Only name and owner_id can be updated.''))) (\<lambda>_.
     rbind (plainly (new_name raw)) (\<lambda>name.
     rbind (plainly (new_owner raw)) (\<lambda>owner.
     let ownerPresent = (map_of raw ''owner_id'' \<noteq> None) in
     rbind (plainly (some_or (named_project (rq_WorkspaceID r) (rq_Key r) db) NotFound)) (\<lambda>p.
     if pj_Version p \<noteq> version
     then Inl (project_conflict, Some (project_json ts (ap_auth db) p,
       JObj ((case name of None \<Rightarrow> [] | Some t \<Rightarrow> [(''name'', JStr t)]) @ (if ownerPresent then [(''owner_id'', json_opt JStr owner)] else []))))
     else rbind (plainly (optional_member pg (rq_WorkspaceID r) owner (ap_auth db))) (\<lambda>u.
     rbind (plainly (or_database (UpdateProject now (rq_WorkspaceID r) (rq_Key r) name ownerPresent u (api_store db)))) (\<lambda>s.
     rbind (plainly (or_database (some_or (named_project (rq_WorkspaceID r) (rq_Key r) (with_store db s)) NoRows))) (\<lambda>p'.
     Inr (project_json ts (ap_auth db) p', with_store db s)))))))))))))"

subsection \<open>Listings\<close>

definition listProjects ::
  "(int \<Rightarrow> string) \<Rightarrow> (string \<Rightarrow> string \<Rightarrow> bool) \<Rightarrow> cursor_prims \<Rightarrow> string \<Rightarrow> request \<Rightarrow> api_db \<Rightarrow> api_db \<Rightarrow> Problem + json list \<times> string option" where
  "listProjects ts ilike pr skey r first db =
     rbind (rejectFields r) (\<lambda>_.
     case PageLimit (rq_Query r) of
       Inl d \<Rightarrow> Inl (requestProblem d)
     | Inr limit \<Rightarrow>
         let q = rq_Query r; archived = q_Get q ''archived''; search = TrimSpace (q_Get q ''search'');
             found = (\<lambda>p. pj_WorkspaceID p = rq_WorkspaceID r \<and>
               (search = [] \<or> ilike (pj_KeyPrefix p) (''%'' @ search @ ''%'') \<or> ilike (pj_Name p) (''%'' @ search @ ''%'')));
             rows = (\<lambda>sel d. map (\<lambda>p. (pj_ID p, project_json ts (ap_auth d) p)) (filter (\<lambda>p. found p \<and> sel p) (projects (api_store d)))) in
         if q_Has q ''archived'' \<and> archived \<noteq> ''true'' \<and> archived \<noteq> ''false'' then Inl (requestProblem ''archived must be true or false.'')
         else if length search > 100 then Inl (requestProblem ''search must be at most 100 characters.'')
         else projectedPage pr skey r None (rows (\<lambda>_. True) first) (rows (\<lambda>p. archived = ''true'' \<or> pj_ArchivedAt p = None) db))"

definition listMembers ::
  "(string \<Rightarrow> string \<Rightarrow> bool) \<Rightarrow> cursor_prims \<Rightarrow> string \<Rightarrow> request \<Rightarrow> api_db \<Rightarrow> api_db \<Rightarrow> Problem + json list \<times> string option" where
  "listMembers ilike pr skey r first db =
     rbind (rejectFields r) (\<lambda>_.
     case PageLimit (rq_Query r) of
       Inl d \<Rightarrow> Inl (requestProblem d)
     | Inr limit \<Rightarrow>
         let search = TrimSpace (q_Get (rq_Query r) ''q'');
             rows = (\<lambda>d. concat (map (\<lambda>m. map (\<lambda>a. (mb_UserID m, JObj [(''id'', JStr (uuid_String (mb_UserID m))), (''display_name'', JStr (us_DisplayName a))]))
                 (filter (\<lambda>a. us_ID a = mb_UserID m \<and> us_IsActive a \<and> ilike (us_DisplayName a) (''%'' @ search @ ''%'')) (accounts d)))
               (filter (\<lambda>m. mb_WorkspaceID m = rq_WorkspaceID r) (memberships d)))) in
         if length search > 100 then Inl (requestProblem ''q must be at most 100 characters.'')
         else projectedPage pr skey r None (rows (ap_auth first)) (rows (ap_auth db)))"

subsection \<open>What the statements leave\<close>

definition new_status :: "(nat \<Rightarrow> uuid) \<Rightarrow> uuid \<Rightarrow> nat \<times> string \<times> string \<times> string \<Rightarrow> Status" where
  "new_status fresh p x = (case x of (i, k, name, cat) \<Rightarrow> \<lparr>st_ID = fresh i, st_ProjectID = p, st_Key = k, st_Name = name, st_Category = cat\<rparr>)"

definition new_type :: "(nat \<Rightarrow> uuid) \<Rightarrow> uuid \<Rightarrow> nat \<times> string \<times> string \<times> int \<Rightarrow> ItemType" where
  "new_type fresh p x = (case x of (i, k, name, level) \<Rightarrow> \<lparr>ty_ID = fresh i, ty_ProjectID = p, ty_Key = k, ty_Name = name, ty_Level = level, ty_IsIdea = False\<rparr>)"

lemma insert_statuses_Inr:
  assumes "rfold (\<lambda>d (i, k, name, cat). in_store (InsertStatus (fresh i) p k name cat) d) db xs = Inr db'"
  shows "db' = db\<lparr>cd_store := (cd_store db)\<lparr>statuses := statuses (cd_store db) @ map (new_status fresh p) xs\<rparr>\<rparr> \<and>
    distinct (map (\<lambda>x. fresh (fst x)) xs) \<and> (\<forall>x \<in> set xs. fresh (fst x) \<notin> st_ID ` set (statuses (cd_store db)))"
  using assms
proof (induction xs arbitrary: db)
  case (Cons x xs)
  obtain i k name cat where x: "x = (i, k, name, cat)" by (metis prod_cases4)
  let ?db1 = "db\<lparr>cd_store := (cd_store db)\<lparr>statuses := statuses (cd_store db) @ [new_status fresh p x]\<rparr>\<rparr>"
  from Cons.prems have "fresh i \<notin> st_ID ` set (statuses (cd_store db))"
    "rfold (\<lambda>d (i, k, name, cat). in_store (InsertStatus (fresh i) p k name cat) d) ?db1 xs = Inr db'"
    by (auto simp: x in_store_def InsertStatus_def Let_def result_simps new_status_def)
  with Cons.IH [of ?db1] show ?case by (auto simp: x new_status_def)
qed simp

lemma insert_types_Inr:
  assumes "rfold (\<lambda>d (i, k, name, level). in_store (InsertItemType (fresh i) p k name level False) d) db xs = Inr db'"
  shows "db' = db\<lparr>cd_store := (cd_store db)\<lparr>item_types := item_types (cd_store db) @ map (new_type fresh p) xs\<rparr>\<rparr> \<and>
    distinct (map (\<lambda>x. fresh (fst x)) xs) \<and> (\<forall>x \<in> set xs. fresh (fst x) \<notin> ty_ID ` set (item_types (cd_store db)))"
  using assms
proof (induction xs arbitrary: db)
  case (Cons x xs)
  obtain i k name level where x: "x = (i, k, name, level)" by (metis prod_cases4)
  let ?db1 = "db\<lparr>cd_store := (cd_store db)\<lparr>item_types := item_types (cd_store db) @ [new_type fresh p x]\<rparr>\<rparr>"
  from Cons.prems have "fresh i \<notin> ty_ID ` set (item_types (cd_store db))"
    "rfold (\<lambda>d (i, k, name, level). in_store (InsertItemType (fresh i) p k name level False) d) ?db1 xs = Inr db'"
    by (auto simp: x in_store_def InsertItemType_def Let_def result_simps new_type_def)
  with Cons.IH [of ?db1] show ?case by (auto simp: x new_type_def)
qed simp

text \<open>Field definitions and ordered statuses are inserted like the other rows of a configuration.\<close>

interpretation field_insert: row_insert InsertFieldDef "\<lambda>rows db. db\<lparr>field_defs := field_defs db @ rows\<rparr>" "\<lambda>db row. fd_ProjectID row \<in> pj_ID ` set (projects (cd_store db))"
  by unfold_locales (auto simp: InsertFieldDef_def result_simps)

interpretation order_insert: row_insert InsertConfigStatus "\<lambda>rows db. db\<lparr>config_statuses := config_statuses db @ rows\<rparr>" "\<lambda>db row. cs_StatusID row \<in> st_ID ` set (statuses (cd_store db))"
  by unfold_locales (auto simp: InsertConfigStatus_def result_simps)

lemma insert_rows_Inr:
  "rfold (\<lambda>d row. InsertFieldDef row d) db rows1 = Inr db' \<Longrightarrow> db' = db\<lparr>field_defs := field_defs db @ rows1\<rparr>"
  "rfold (\<lambda>d row. InsertConfigStatus row d) db rows2 = Inr db' \<Longrightarrow> db' = db\<lparr>config_statuses := config_statuses db @ rows2\<rparr>"
  "rfold (\<lambda>d row. InsertConfigType row d) db rows3 = Inr db' \<Longrightarrow> db' = db\<lparr>config_types := config_types db @ rows3\<rparr>"
  "rfold (\<lambda>d row. InsertConfigTransition row d) db rows4 = Inr db' \<Longrightarrow> db' = db\<lparr>config_transitions := config_transitions db @ rows4\<rparr>"
  using field_insert.loop_Inr [of "\<lambda>x. x" db rows1 db'] order_insert.loop_Inr [of "\<lambda>x. x" db rows2 db']
    type_insert.loop_Inr [of "\<lambda>x. x" db rows3 db'] arc_insert.loop_Inr [of "\<lambda>x. x" db rows4 db'] by simp_all

text \<open>The references of the tables to the project\<close>

definition project_refs :: "config_db \<Rightarrow> bool" where
  "project_refs db =
     (let ps = pj_ID ` set (projects (cd_store db)) in
      (\<forall>s \<in> set (statuses (cd_store db)). st_ProjectID s \<in> ps) \<and> (\<forall>t \<in> set (item_types (cd_store db)). ty_ProjectID t \<in> ps) \<and>
      (\<forall>c \<in> set (configs (cd_store db)). pc_ProjectID c \<in> ps) \<and> (\<forall>f \<in> set (field_defs db). fd_ProjectID f \<in> ps) \<and>
      (\<forall>c \<in> set (config_statuses db). cs_ProjectID c \<in> ps) \<and> (\<forall>c \<in> set (config_types db). ct_ProjectID c \<in> ps) \<and>
      (\<forall>c \<in> set (config_transitions db). cr_ProjectID c \<in> ps))"

lemma project_refs_filter:
  assumes "project_refs db" "p \<notin> pj_ID ` set (projects (cd_store db))"
  shows "filter (\<lambda>s. st_ProjectID s = p \<and> P1 s) (statuses (cd_store db)) = []" "filter (\<lambda>t. ty_ProjectID t = p) (item_types (cd_store db)) = []"
    "filter (\<lambda>c. pc_ProjectID c = p) (configs (cd_store db)) = []" "filter (\<lambda>f. fd_ProjectID f = p) (field_defs db) = []"
    "filter (\<lambda>c. cs_ProjectID c = p \<and> P2 c) (config_statuses db) = []" "filter (\<lambda>c. ct_ProjectID c = p \<and> P3 c) (config_types db) = []"
    "filter (\<lambda>c. cr_ProjectID c = p \<and> P4 c) (config_transitions db) = []"
  using assms by (auto simp: project_refs_def Let_def filter_empty_conv)

text \<open>The rows of a new project\<close>

definition status_list :: "(nat \<Rightarrow> uuid) \<Rightarrow> uuid \<Rightarrow> Status list" where
  "status_list fresh p = map (new_status fresh p) (zip [0..<5] seed_statuses)"

definition type_list :: "(nat \<Rightarrow> uuid) \<Rightarrow> uuid \<Rightarrow> ItemType list" where
  "type_list fresh p = map (new_type fresh p) (zip [5..<9] seed_types)"

definition order_list :: "(nat \<Rightarrow> uuid) \<Rightarrow> uuid \<Rightarrow> ConfigStatus list" where
  "order_list fresh p = map (\<lambda>i. \<lparr>cs_ProjectID = p, cs_Version = 1, cs_StatusID = fresh i, cs_DisplayOrder = int i + 1\<rparr>) [0, 1, 2, 3, 4]"

definition initial_list :: "(nat \<Rightarrow> uuid) \<Rightarrow> uuid \<Rightarrow> ConfigType list" where
  "initial_list fresh p = map (\<lambda>i. \<lparr>ct_ProjectID = p, ct_Version = 1, ct_ItemTypeID = fresh i, ct_InitialStatusID = fresh 0\<rparr>) [5, 6, 7, 8]"

definition arc_list :: "(nat \<Rightarrow> uuid) \<Rightarrow> uuid \<Rightarrow> ConfigTransition list" where
  "arc_list fresh p = map (\<lambda>(i, j, req). \<lparr>cr_ProjectID = p, cr_Version = 1, cr_FromStatusID = fresh i, cr_ToStatusID = fresh j, cr_Requires = req\<rparr>)
     [(0, 1, [''assignee'']), (1, 2, []), (2, 3, [''assignee'']), (0, 4, []), (1, 4, []), (2, 4, []), (3, 4, [])]"

lemma status_list_rows: "status_list fresh p =
  [\<lparr>st_ID = fresh 0, st_ProjectID = p, st_Key = ''todo'', st_Name = ''To Do'', st_Category = ''open''\<rparr>,
   \<lparr>st_ID = fresh 1, st_ProjectID = p, st_Key = ''doing'', st_Name = ''In Progress'', st_Category = ''active''\<rparr>,
   \<lparr>st_ID = fresh 2, st_ProjectID = p, st_Key = ''review'', st_Name = ''In Review'', st_Category = ''active''\<rparr>,
   \<lparr>st_ID = fresh 3, st_ProjectID = p, st_Key = ''done'', st_Name = ''Done'', st_Category = ''done''\<rparr>,
   \<lparr>st_ID = fresh 4, st_ProjectID = p, st_Key = ''dropped'', st_Name = ''Dropped'', st_Category = ''cancelled''\<rparr>]"
  by (simp add: status_list_def seed_statuses_def new_status_def upt_rec numeral_eq_Suc)

lemma type_list_rows: "type_list fresh p =
  [\<lparr>ty_ID = fresh 5, ty_ProjectID = p, ty_Key = ''initiative'', ty_Name = ''Initiative'', ty_Level = 3, ty_IsIdea = False\<rparr>,
   \<lparr>ty_ID = fresh 6, ty_ProjectID = p, ty_Key = ''epic'', ty_Name = ''Epic'', ty_Level = 2, ty_IsIdea = False\<rparr>,
   \<lparr>ty_ID = fresh 7, ty_ProjectID = p, ty_Key = ''story'', ty_Name = ''Story'', ty_Level = 1, ty_IsIdea = False\<rparr>,
   \<lparr>ty_ID = fresh 8, ty_ProjectID = p, ty_Key = ''bug'', ty_Name = ''Bug'', ty_Level = 1, ty_IsIdea = False\<rparr>]"
  by (simp add: type_list_def seed_types_def new_type_def upt_rec)

lemma seeded_rows:
  assumes "statuses (cd_store db) = old @ status_list fresh p" "\<And>P. filter (\<lambda>s. st_ProjectID s = p \<and> P s) old = []"
    and "item_types (cd_store db) = olds @ type_list fresh p" "filter (\<lambda>t. ty_ProjectID t = p) olds = []"
  shows "order_rows p 1 db = order_list fresh p" "initial_rows p 1 db = initial_list fresh p" "arc_rows p 1 db @ drop_rows p 1 db = arc_list fresh p"
proof -
  have k: "keyed p k db = filter (\<lambda>s. st_Key s = k) (status_list fresh p)" for k
  proof -
    have "filter (\<lambda>s. st_ProjectID s = p \<and> st_Key s = k) (status_list fresh p) = filter (\<lambda>s. st_Key s = k) (status_list fresh p)"
      by (rule filter_cong) (auto simp: status_list_rows)
    then show ?thesis by (simp add: keyed_def assms(1,2))
  qed
  have d: "filter (\<lambda>s. st_ProjectID s = p \<and> st_Key s \<noteq> ''dropped'') (statuses (cd_store db)) = filter (\<lambda>s. st_Key s \<noteq> ''dropped'') (status_list fresh p)"
    unfolding assms(1) filter_append assms(2) by (simp add: status_list_rows)
  have t: "filter (\<lambda>t. ty_ProjectID t = p) (item_types (cd_store db)) = type_list fresh p" by (simp add: assms(3,4) type_list_rows)
  show "order_rows p 1 db = order_list fresh p" by (simp add: order_rows_def k status_list_rows order_list_def)
  show "initial_rows p 1 db = initial_list fresh p" by (simp add: initial_rows_def k t status_list_rows type_list_rows initial_list_def)
  show "arc_rows p 1 db @ drop_rows p 1 db = arc_list fresh p" by (simp add: arc_rows_def drop_rows_def d k status_list_rows seed_arcs_def arc_list_def)
qed

lemma InstallConfig_Inr:
  assumes "project_refs db0" "p \<notin> pj_ID ` set (projects (cd_store db0))" "db = db0\<lparr>cd_store := (cd_store db0)\<lparr>projects := ps\<rparr>\<rparr>"
    and "InstallConfig now fresh p db = Inr db'"
  shows "projects (cd_store db') = ps"
    "configs (cd_store db') = configs (cd_store db0) @ [\<lparr>pc_ProjectID = p, pc_Version = 1, pc_SourceYaml = None, pc_AppliedAt = now, pc_AppliedBy = None\<rparr>]"
    "statuses (cd_store db') = statuses (cd_store db0) @ status_list fresh p" "item_types (cd_store db') = item_types (cd_store db0) @ type_list fresh p"
    "field_defs db' = field_defs db0 @ seed_fields p" "config_statuses db' = config_statuses db0 @ order_list fresh p"
    "config_types db' = config_types db0 @ initial_list fresh p" "config_transitions db' = config_transitions db0 @ arc_list fresh p"
    "distinct (map st_ID (status_list fresh p))" "set (map st_ID (status_list fresh p)) \<inter> st_ID ` set (statuses (cd_store db0)) = {}"
    "distinct (map ty_ID (type_list fresh p))" "set (map ty_ID (type_list fresh p)) \<inter> ty_ID ` set (item_types (cd_store db0)) = {}"
proof -
  define c where "c = \<lparr>pc_ProjectID = p, pc_Version = 1, pc_SourceYaml = None, pc_AppliedAt = now, pc_AppliedBy = None\<rparr>"
  define d1 where "d1 = db\<lparr>cd_store := (cd_store db)\<lparr>configs := configs (cd_store db) @ [c]\<rparr>\<rparr>"
  define d2 where "d2 = d1\<lparr>cd_store := (cd_store d1)\<lparr>statuses := statuses (cd_store d1) @ status_list fresh p\<rparr>\<rparr>"
  define d3 where "d3 = d2\<lparr>cd_store := (cd_store d2)\<lparr>item_types := item_types (cd_store d2) @ type_list fresh p\<rparr>\<rparr>"
  define d4 where "d4 = d3\<lparr>field_defs := field_defs d3 @ seed_fields p\<rparr>"
  have parts: "statuses (cd_store d4) = statuses (cd_store db0) @ status_list fresh p" "item_types (cd_store d4) = item_types (cd_store db0) @ type_list fresh p"
    "config_statuses d4 = config_statuses db0" "config_types d4 = config_types db0" "config_transitions d4 = config_transitions db0"
    "field_defs d4 = field_defs db0 @ seed_fields p" "projects (cd_store d4) = ps" "configs (cd_store d4) = configs (cd_store db0) @ [c]"
    by (simp_all add: d4_def d3_def d2_def d1_def assms(3))
  note rows = seeded_rows [OF _ project_refs_filter(1) [OF assms(1,2)] _ project_refs_filter(2) [OF assms(1,2)]]
  from assms(4) obtain s2 s3 s4 s5 s6 s7 where 1:
    "rfold (\<lambda>d (i, k, name, cat). in_store (InsertStatus (fresh i) p k name cat) d) d1 (zip [0..<5] seed_statuses) = Inr s2"
    "rfold (\<lambda>d (i, k, name, level). in_store (InsertItemType (fresh i) p k name level False) d) s2 (zip [5..<9] seed_types) = Inr s3"
    "rfold (\<lambda>d row. InsertFieldDef row d) s3 (seed_fields p) = Inr s4"
    "rfold (\<lambda>d row. InsertConfigStatus row d) s4 (order_rows p 1 s4) = Inr s5"
    "rfold (\<lambda>d row. InsertConfigType row d) s5 (initial_rows p 1 s5) = Inr s6"
    "rfold (\<lambda>d row. InsertConfigTransition row d) s6 (arc_rows p 1 s6) = Inr s7"
    "rfold (\<lambda>d row. InsertConfigTransition row d) s7 (drop_rows p 1 s7) = Inr db'"
    by (auto simp: InstallConfig_def config_statements_def in_store_def [of "InsertProjectConfig now p 1 None None"] InsertProjectConfig_def Let_def result_simps d1_def c_def)
  note i2 = insert_statuses_Inr [OF 1(1)] and i3 = insert_types_Inr [OF 1(2)]
  have s2: "s2 = d2" using i2 by (simp add: d2_def status_list_def)
  have s3: "s3 = d3" using i3 by (simp add: s2 d3_def type_list_def)
  have s4: "s4 = d4" using insert_rows_Inr(1) [OF 1(3)] by (simp add: s3 d4_def)
  have s5: "s5 = d4\<lparr>config_statuses := config_statuses db0 @ order_list fresh p\<rparr>" using insert_rows_Inr(2) [OF 1(4)] rows(1) [of d4] by (simp add: s4 parts)
  have s6: "s6 = s5\<lparr>config_types := config_types db0 @ initial_list fresh p\<rparr>" using insert_rows_Inr(3) [OF 1(5)] rows(2) [of s5] by (simp add: s5 parts)
  have s7: "s7 = s6\<lparr>config_transitions := config_transitions db0 @ arc_rows p 1 s6\<rparr>" using insert_rows_Inr(4) [OF 1(6)] by (simp add: s6 s5 parts)
  have "drop_rows p 1 s7 = drop_rows p 1 s6" by (simp add: s7 drop_rows_def keyed_def)
  then have fin: "db' = s6\<lparr>config_transitions := config_transitions db0 @ arc_list fresh p\<rparr>"
    using insert_rows_Inr(4) [OF 1(7)] rows(3) [of s6] by (simp add: s7 s6 s5 parts)
  show "projects (cd_store db') = ps" "configs (cd_store db') = configs (cd_store db0) @ [\<lparr>pc_ProjectID = p, pc_Version = 1, pc_SourceYaml = None, pc_AppliedAt = now, pc_AppliedBy = None\<rparr>]"
    "statuses (cd_store db') = statuses (cd_store db0) @ status_list fresh p" "item_types (cd_store db') = item_types (cd_store db0) @ type_list fresh p"
    "field_defs db' = field_defs db0 @ seed_fields p" "config_statuses db' = config_statuses db0 @ order_list fresh p"
    "config_types db' = config_types db0 @ initial_list fresh p" "config_transitions db' = config_transitions db0 @ arc_list fresh p"
    by (simp_all add: fin s6 s5 parts c_def)
  have "map st_ID (status_list fresh p) = map (\<lambda>x. fresh (fst x)) (zip [0..<5] seed_statuses)" by (auto simp: status_list_def new_status_def)
  moreover have "map ty_ID (type_list fresh p) = map (\<lambda>x. fresh (fst x)) (zip [5..<9] seed_types)" by (auto simp: type_list_def new_type_def)
  ultimately show "distinct (map st_ID (status_list fresh p))" "set (map st_ID (status_list fresh p)) \<inter> st_ID ` set (statuses (cd_store db0)) = {}"
    "distinct (map ty_ID (type_list fresh p))" "set (map ty_ID (type_list fresh p)) \<inter> ty_ID ` set (item_types (cd_store db0)) = {}"
    using i2 i3 by (auto simp: d1_def s2 d2_def assms(3))
qed

subsection \<open>Reading the configuration back\<close>

lemma filter_new:
  "distinct (map f new) \<Longrightarrow> set (map f new) \<inter> f ` set old = {} \<Longrightarrow> x \<in> set new \<Longrightarrow> filter (\<lambda>s. f s = f x) (old @ new) = [x]"
  by (auto simp: filter_unique filter_empty_conv)

lemma join_new:
  assumes "statuses (cd_store db) = old @ status_list fresh p" "distinct (map st_ID (status_list fresh p))" "set (map st_ID (status_list fresh p)) \<inter> st_ID ` set old = {}"
    "x \<in> set (status_list fresh p)"
  shows "join_status db (st_ID x) = [x]"
  unfolding join_status_def assms(1) by (rule filter_new [OF assms(2-4)])

lemma join_new_type:
  assumes "item_types (cd_store db) = old @ type_list fresh p" "distinct (map ty_ID (type_list fresh p))" "set (map ty_ID (type_list fresh p)) \<inter> ty_ID ` set old = {}"
    "x \<in> set (type_list fresh p)"
  shows "join_type db (ty_ID x) = [x]"
  unfolding join_type_def assms(1) by (rule filter_new [OF assms(2-4)])

definition seed_workflow_arcs :: "(string \<times> workflowArc) set" where
  "seed_workflow_arcs =
     (\<lambda>(k, l, req). (k, \<lparr>ar_To = l, ar_Requires = req\<rparr>)) ` set seed_arcs \<union>
     {(k, \<lparr>ar_To = ''dropped'', ar_Requires = []\<rparr>) | k. k \<in> fst ` set seed_statuses \<and> k \<noteq> ''dropped''}"

lemma installed_reads:
  assumes st: "statuses (cd_store db') = statuses (cd_store db0) @ status_list fresh p" "distinct (map st_ID (status_list fresh p))"
      "set (map st_ID (status_list fresh p)) \<inter> st_ID ` set (statuses (cd_store db0)) = {}"
    and ty: "item_types (cd_store db') = item_types (cd_store db0) @ type_list fresh p" "distinct (map ty_ID (type_list fresh p))"
      "set (map ty_ID (type_list fresh p)) \<inter> ty_ID ` set (item_types (cd_store db0)) = {}"
    and rows: "config_statuses db' = config_statuses db0 @ order_list fresh p" "config_types db' = config_types db0 @ initial_list fresh p"
      "config_transitions db' = config_transitions db0 @ arc_list fresh p"
    and refs: "project_refs db0" "p \<notin> pj_ID ` set (projects (cd_store db0))"
  shows "resolved_statuses db' p 1 = map (\<lambda>(k, name, cat). \<lparr>wf_Key = k, wf_Name = name, wf_Category = cat\<rparr>) seed_statuses"
    "set (resolved_types db' p 1) = (\<lambda>(k, name, level). \<lparr>rt_Key = k, rt_Name = name, rt_Level = level, rt_IsIdea = False, rt_Initial = ''todo''\<rparr>) ` set seed_types"
    "arcs (resolved_transitions db' p 1) = seed_workflow_arcs"
proof -
  note j = join_new [OF st] and jt = join_new_type [OF ty]
  note js = j [of "status_list fresh p ! 0"] j [of "status_list fresh p ! 1"] j [of "status_list fresh p ! 2"] j [of "status_list fresh p ! 3"] j [of "status_list fresh p ! 4"]
  note js = js [unfolded status_list_rows, simplified]
  note jts = jt [of "type_list fresh p ! 0"] jt [of "type_list fresh p ! 1"] jt [of "type_list fresh p ! 2"] jt [of "type_list fresh p ! 3"]
  note jts = jts [unfolded type_list_rows, simplified]
  note f = project_refs_filter [OF refs]
  show "resolved_statuses db' p 1 = map (\<lambda>(k, name, cat). \<lparr>wf_Key = k, wf_Name = name, wf_Category = cat\<rparr>) seed_statuses"
    by (simp add: resolved_statuses_def config_status_rows_def rows f order_list_def js status_of_def seed_statuses_def)
  show "set (resolved_types db' p 1) = (\<lambda>(k, name, level). \<lparr>rt_Key = k, rt_Name = name, rt_Level = level, rt_IsIdea = False, rt_Initial = ''todo''\<rparr>) ` set seed_types"
    by (simp add: resolved_types_def rows f initial_list_def js jts seed_types_def del: sort_key_simps)
  have "transition_rows db' p 1 = map (\<lambda>(k, l, req). (k, \<lparr>ar_To = l, ar_Requires = req\<rparr>)) (seed_arcs @ map (\<lambda>k. (k, ''dropped'', [])) [''todo'', ''doing'', ''review'', ''done''])"
    by (simp add: transition_rows_def rows f arc_list_def js seed_arcs_def)
  moreover have "{(k, \<lparr>ar_To = ''dropped'', ar_Requires = []\<rparr>) | k. k \<in> fst ` set seed_statuses \<and> k \<noteq> ''dropped''} =
    (\<lambda>k. (k, \<lparr>ar_To = ''dropped'', ar_Requires = []\<rparr>)) ` set [''todo'', ''doing'', ''review'', ''done'']"
  proof -
    have "{k. k \<in> fst ` set seed_statuses \<and> k \<noteq> ''dropped''} = set [''todo'', ''doing'', ''review'', ''done'']" unfolding seed_statuses_def by auto
    then show ?thesis by blast
  qed
  ultimately show "arcs (resolved_transitions db' p 1) = seed_workflow_arcs"
    unfolding arcs_resolved seed_workflow_arcs_def by (simp add: image_Un image_image)
qed

definition seed_arc_list :: "(string \<times> workflowArc) list" where
  "seed_arc_list = map (\<lambda>(k, l, req). (k, \<lparr>ar_To = l, ar_Requires = req\<rparr>)) (seed_arcs @ map (\<lambda>k. (k, ''dropped'', [])) (filter (\<lambda>k. k \<noteq> ''dropped'') (map fst seed_statuses)))"

lemma seed_arc_list: "seed_workflow_arcs = set seed_arc_list"
  unfolding seed_workflow_arcs_def seed_arc_list_def by (auto simp: image_iff split: prod.splits)

lemma seed_arcs_unique: "(k, a) \<in> seed_workflow_arcs \<Longrightarrow> (k, b) \<in> seed_workflow_arcs \<Longrightarrow> ar_To a = ar_To b \<Longrightarrow> a = b"
proof -
  have "distinct (map (\<lambda>(k, a). (k, ar_To a)) seed_arc_list)" by code_simp
  then have inj: "inj_on (\<lambda>(k, a). (k, ar_To a)) (set seed_arc_list)" unfolding distinct_map by blast
  show "(k, a) \<in> seed_workflow_arcs \<Longrightarrow> (k, b) \<in> seed_workflow_arcs \<Longrightarrow> ar_To a = ar_To b \<Longrightarrow> a = b"
    unfolding seed_arc_list using inj_onD [OF inj, of "(k, a)" "(k, b)"] by simp
qed

lemma seed_workflow_ok:
  assumes "wc_Statuses cfg = map (\<lambda>(k, name, cat). \<lparr>wf_Key = k, wf_Name = name, wf_Category = cat\<rparr>) seed_statuses" "arcs (wc_Transitions cfg) = seed_workflow_arcs"
    "\<forall>t \<in> set (wc_Types cfg). rt_Initial t = ''todo''"
  shows "workflow_ok cfg"
proof -
  have keys: "wf_Key ` set (wc_Statuses cfg) = set (map fst seed_statuses)" unfolding assms(1) by (simp add: image_image case_prod_unfold)
  have "list_all (\<lambda>(k, a). k \<in> set (map fst seed_statuses) \<and> ar_To a \<in> set (map fst seed_statuses) \<and> ar_To a \<noteq> k \<and> set (ar_Requires a) \<subseteq> {''assignee''} \<and> distinct (ar_Requires a)) seed_arc_list"
    by code_simp
  then have "\<forall>(k, a) \<in> seed_workflow_arcs. arc_ok (wc_Statuses cfg) (known_fields (wc_Fields cfg)) k a"
    unfolding seed_arc_list by (auto simp: list_all_iff arc_ok_def keys known_fields_def)
  moreover have "distinct (map wf_Key (wc_Statuses cfg))" "wc_Statuses cfg \<noteq> []" "''todo'' \<in> set (map fst seed_statuses)" by (simp_all add: assms(1) seed_statuses_def)
  ultimately show ?thesis unfolding workflow_ok_def assms(2) keys using seed_arcs_unique assms(3) by metis
qed

lemma find_later: "find P xs = None \<Longrightarrow> find P (xs @ ys) = find P ys"
  by (induction xs) (auto split: if_splits)

lemma createProject_Inr:
  assumes "createProject ts pg now p fresh r (Inr inp) db = Inr (doc, db')"
  obtains owner s where "rq_Role r = ''admin''" "key_prefix_ok (pi_KeyPrefix inp)" "pi_KeyPrefix inp \<notin> set ReservedPrefixes"
    "p \<notin> pj_ID ` set (projects (api_store db))" "(rq_WorkspaceID r, pi_KeyPrefix inp) \<notin> (\<lambda>x. (pj_WorkspaceID x, pj_KeyPrefix x)) ` set (projects (api_store db))"
    "s = projects (api_store db) @ [\<lparr>pj_ID = p, pj_WorkspaceID = rq_WorkspaceID r, pj_KeyPrefix = pi_KeyPrefix inp, pj_Name = pi_Name inp,
               pj_Kind = pi_Kind inp, pj_NextKeyNum = 1, pj_ArchivedAt = None, pj_OwnerID = owner, pj_Version = 1, pj_UpdatedAt = now\<rparr>]"
    "InstallConfig now fresh p ((ap_config db)\<lparr>cd_store := (api_store db)\<lparr>projects := s\<rparr>\<rparr>) = Inr (ap_config db')"
proof -
  define row where "row = \<lparr>pj_ID = p, pj_WorkspaceID = rq_WorkspaceID r, pj_KeyPrefix = pi_KeyPrefix inp, pj_Name = pi_Name inp,
               pj_Kind = pi_Kind inp, pj_NextKeyNum = 1, pj_ArchivedAt = None, pj_OwnerID = None, pj_Version = 1, pj_UpdatedAt = now\<rparr>"
  from assms obtain owner s where 1: "rq_Role r = ''admin''" "key_prefix_ok (pi_KeyPrefix inp)" "pi_KeyPrefix inp \<notin> set ReservedPrefixes"
    "p \<notin> pj_ID ` set (projects (api_store db))" "(rq_WorkspaceID r, pi_KeyPrefix inp) \<notin> (\<lambda>x. (pj_WorkspaceID x, pj_KeyPrefix x)) ` set (projects (api_store db))"
    "s = (api_store db)\<lparr>projects := projects (api_store db) @ [row]\<rparr>" "InstallConfig now fresh p ((ap_config db)\<lparr>cd_store := set_owner p owner s\<rparr>) = Inr (ap_config db')"
    by (auto simp: createProject_def CreateProject_def Let_def result_simps row_def)
  have "map (\<lambda>x. if pj_ID x = p then x\<lparr>pj_OwnerID := owner\<rparr> else x) (projects (api_store db)) = projects (api_store db)"
    using 1(4) by (intro map_idI) auto
  then have "set_owner p owner s = (api_store db)\<lparr>projects := projects (api_store db) @ [row\<lparr>pj_OwnerID := owner\<rparr>]\<rparr>"
    by (simp add: set_owner_def 1(6) row_def)
  with 1 show thesis by (intro that) (simp_all add: row_def)
qed

text \<open>
  C23.  A new project is ready to use: when \<open>createProject\<close> succeeds, the resolved configuration of the project is the seed
  workflow in version 1, with its statuses in order, every type starting in \<open>todo\<close> and exactly the arcs of the seed, the wildcard
  expanded to every status but \<open>dropped\<close>; it is a workflow in order, and the prefix was neither taken in the workspace nor reserved.
\<close>

theorem createProject_installs_workflow:
  assumes "createProject ts pg now p fresh r (Inr inp) db = Inr (doc, db')" "project_refs (ap_config db)"
  shows "\<exists>cfg. resolvedConfigSQL (rq_WorkspaceID r) (pi_KeyPrefix inp) (ap_config db') = Inr cfg \<and> wc_Version cfg = 1 \<and>
    wc_Statuses cfg = map (\<lambda>(k, name, cat). \<lparr>wf_Key = k, wf_Name = name, wf_Category = cat\<rparr>) seed_statuses \<and>
    set (wc_Types cfg) = (\<lambda>(k, name, level). \<lparr>rt_Key = k, rt_Name = name, rt_Level = level, rt_IsIdea = False, rt_Initial = ''todo''\<rparr>) ` set seed_types \<and>
    arcs (wc_Transitions cfg) = seed_workflow_arcs \<and> workflow_ok cfg \<and> pi_KeyPrefix inp \<notin> set ReservedPrefixes \<and>
    (\<forall>x \<in> set (projects (api_store db)). pj_WorkspaceID x = rq_WorkspaceID r \<longrightarrow> pj_KeyPrefix x \<noteq> pi_KeyPrefix inp)"
proof (rule createProject_Inr [OF assms(1)])
  fix owner s
  assume 1: "pi_KeyPrefix inp \<notin> set ReservedPrefixes"
    "p \<notin> pj_ID ` set (projects (api_store db))" "(rq_WorkspaceID r, pi_KeyPrefix inp) \<notin> (\<lambda>x. (pj_WorkspaceID x, pj_KeyPrefix x)) ` set (projects (api_store db))"
    "s = projects (api_store db) @ [\<lparr>pj_ID = p, pj_WorkspaceID = rq_WorkspaceID r, pj_KeyPrefix = pi_KeyPrefix inp, pj_Name = pi_Name inp,
               pj_Kind = pi_Kind inp, pj_NextKeyNum = 1, pj_ArchivedAt = None, pj_OwnerID = owner, pj_Version = 1, pj_UpdatedAt = now\<rparr>]"
    "InstallConfig now fresh p ((ap_config db)\<lparr>cd_store := (api_store db)\<lparr>projects := s\<rparr>\<rparr>) = Inr (ap_config db')"
  let ?db' = "ap_config db'"
  note i = InstallConfig_Inr [OF assms(2) 1(2) refl 1(5)]
  note rd = installed_reads [OF i(3,9,10,4,11,12,6-8) assms(2) 1(2)]
  define cfg where "cfg = \<lparr>wc_Version = 1, wc_Statuses = resolved_statuses ?db' p 1, wc_Types = resolved_types ?db' p 1,
    wc_Transitions = resolved_transitions ?db' p 1, wc_Fields = sort_key fd_Key (filter (\<lambda>f. fd_ProjectID f = p) (field_defs ?db'))\<rparr>"
  have "find (\<lambda>q. pj_WorkspaceID q = rq_WorkspaceID r \<and> pj_KeyPrefix q = pi_KeyPrefix inp) (projects (api_store db)) = None"
    using 1(3) by (force simp: find_None_iff)
  then have "find (\<lambda>q. pj_WorkspaceID q = rq_WorkspaceID r \<and> pj_KeyPrefix q = pi_KeyPrefix inp) (projects (cd_store ?db')) = Some (last s)"
    unfolding i(1) 1(4) by (simp add: find_later)
  moreover have "pj_ID (last s) = p" by (simp add: 1(4))
  ultimately have read: "resolvedConfigSQL (rq_WorkspaceID r) (pi_KeyPrefix inp) ?db' = Inr cfg"
    by (simp add: resolvedConfigSQL_def i(2) project_refs_filter(3) [OF assms(2) 1(2)] cfg_def)
  have "workflow_ok cfg" by (rule seed_workflow_ok) (simp_all add: cfg_def rd, auto)
  moreover have "\<forall>x \<in> set (projects (api_store db)). pj_WorkspaceID x = rq_WorkspaceID r \<longrightarrow> pj_KeyPrefix x \<noteq> pi_KeyPrefix inp"
    using 1(3) by force
  ultimately show ?thesis using read rd 1(1) by (intro exI [of _ cfg]) (simp add: cfg_def)
qed

definition demo_admin :: request where
  "demo_admin = \<lparr>rq_Query = [], rq_Path = [], rq_WorkspaceID = 1, rq_UserID = 9, rq_Role = ''admin'', rq_Key = ''SRX''\<rparr>"

definition demo_plain :: api_db where
  "demo_plain = demo_api\<lparr>ap_auth := \<lparr>accounts = [], memberships = [], sessions = []\<rparr>\<rparr>"

definition demo_new :: projectInput where
  "demo_new = \<lparr>pi_KeyPrefix = ''NEW'', pi_Name = ''New'', pi_Kind = ''delivery'', pi_OwnerID = None\<rparr>"

abbreviation demo_created :: "Problem + json \<times> api_db" where
  "demo_created \<equiv> createProject (\<lambda>_. []) uuid_Parse 100 50 (\<lambda>i. 60 + of_nat i) demo_admin (Inr demo_new) demo_plain"

lemma demo_admin_simps: "rejectFields demo_admin = Inr ()" "rq_Role demo_admin = ''admin''" "rq_WorkspaceID demo_admin = 1" "rq_Key demo_admin = ''SRX''"
  by (simp_all add: demo_admin_def rejectFields_def q_Has_def)

lemma demo_created_ok: "\<not> isl demo_created"
proof -
  have inp: "key_prefix_ok (pi_KeyPrefix demo_new)" "pi_KeyPrefix demo_new \<notin> set ReservedPrefixes" "name_ok (pi_Name demo_new)" "pi_Kind demo_new = ''delivery''" "pi_OwnerID demo_new = None" "CHR 0x00 \<notin> set (pi_Name demo_new)"
    by (code_simp, code_simp, code_simp, simp_all add: demo_new_def)
  have "\<not> isl (CreateProject 100 50 1 (pi_KeyPrefix demo_new) (pi_Name demo_new) ''delivery'' (api_store demo_plain))" by code_simp
  then obtain row s where c: "CreateProject 100 50 1 (pi_KeyPrefix demo_new) (pi_Name demo_new) ''delivery'' (api_store demo_plain) = Inr (row, s)" using not_isl by blast
  have "\<not> isl (InstallConfig 100 (\<lambda>i. 60 + of_nat i) 50 ((ap_config demo_plain)\<lparr>cd_store := set_owner 50 None
    (snd (projr (CreateProject 100 50 1 (pi_KeyPrefix demo_new) (pi_Name demo_new) ''delivery'' (api_store demo_plain))))\<rparr>))" by code_simp
  then show ?thesis unfolding c by (auto simp: createProject_def demo_admin_simps inp c optional_member_def or_database_def guard_or_def rbind_def split: sum.splits)
qed

lemma demo_refs: "project_refs (ap_config demo_plain)"
  by (simp add: project_refs_def demo_plain_def demo_api_def demo_tree_def demo_db_def)

theorem createProject_installs_workflow_witness:
  "\<exists>doc db' cfg. demo_created = Inr (doc, db') \<and> resolvedConfigSQL 1 ''NEW'' (ap_config db') = Inr cfg \<and> length (wc_Statuses cfg) = 5 \<and> workflow_ok cfg \<and>
     ''NEW'' \<notin> set ReservedPrefixes \<and> (\<forall>x \<in> set (projects (api_store demo_plain)). pj_WorkspaceID x = 1 \<longrightarrow> pj_KeyPrefix x \<noteq> ''NEW'')"
proof -
  from demo_created_ok obtain doc db' where c: "demo_created = Inr (doc, db')" using not_isl by blast
  from createProject_installs_workflow [OF c demo_refs] c show ?thesis by (auto simp: demo_admin_def demo_new_def seed_statuses_def)
qed

subsection \<open>Changing a project\<close>

definition owner_wanted :: "(string \<Rightarrow> uuid option) \<Rightarrow> uuid \<Rightarrow> auth_db \<Rightarrow> json option \<Rightarrow> uuid option \<Rightarrow> uuid option \<Rightarrow> bool" where
  "owner_wanted pg ws db v old new =
     (case v of
        None \<Rightarrow> new = old
      | Some JNull \<Rightarrow> new = None
      | Some (JStr t) \<Rightarrow> (\<exists>u. pg t = Some u \<and> new = Some u \<and> (\<exists>m \<in> set (memberships db). mb_WorkspaceID m = ws \<and> mb_UserID m = u) \<and> active_account u db \<noteq> None)
      | _ \<Rightarrow> False)"

lemma plainly_Inr [result_simps]: "plainly res = Inr x \<longleftrightarrow> res = Inr x"
  by (cases res) (simp_all add: plainly_def)

lemma optional_member_wanted:
  assumes "new_owner raw = Inr owner" "optional_member pg ws owner db = Inr u"
  shows "owner_wanted pg ws db (map_of raw ''owner_id'') old (if map_of raw ''owner_id'' \<noteq> None then u else old)"
  using assms
  by (auto simp: new_owner_def optional_member_def active_member_def owner_wanted_def result_simps list_ex_iff split: option.splits json.splits if_splits)
    (metis option.inject)

definition name_wanted :: "json option \<Rightarrow> string \<Rightarrow> string \<Rightarrow> bool" where
  "name_wanted v old new = (case v of None \<Rightarrow> new = old | Some w \<Rightarrow> w = JStr new \<and> name_ok new)"

lemma new_name_wanted: "new_name raw = Inr name \<Longrightarrow> name_wanted (map_of raw ''name'') old (coalesce name old)"
  by (auto simp: new_name_def name_wanted_def text_or_def coalesce_def name_ok_def split: option.splits json.splits if_splits)

text \<open>
  C24.  An update of a project does what it says: it succeeds only for an administrator who names the current version of the
  project, the name and the owner become exactly the submitted ones (the owner an active member of the workspace, or none),
  the version goes up by one, and nothing else in the database changes.
\<close>

theorem updateProject_exact:
  assumes "updateProject ts pg now r ifMatch (Inr raw) db = Inr (doc, db')"
    and "distinct (map (\<lambda>p. (pj_WorkspaceID p, pj_KeyPrefix p)) (projects (api_store db)))"
  shows "\<exists>p name owner. rq_Role r = ''admin'' \<and> p \<in> set (projects (api_store db)) \<and> pj_WorkspaceID p = rq_WorkspaceID r \<and> pj_KeyPrefix p = rq_Key r \<and>
    project_version ifMatch = Inr (pj_Version p) \<and> fst ` set raw \<subseteq> {''name'', ''owner_id''} \<and>
    name_wanted (map_of raw ''name'') (pj_Name p) name \<and> owner_wanted pg (rq_WorkspaceID r) (ap_auth db) (map_of raw ''owner_id'') (pj_OwnerID p) owner \<and>
    db' = with_store db ((api_store db)\<lparr>projects := map (\<lambda>x. if x = p
      then p\<lparr>pj_Name := name, pj_OwnerID := owner, pj_Version := pj_Version p + 1, pj_UpdatedAt := now\<rparr> else x) (projects (api_store db))\<rparr>)"
proof -
  from assms(1) obtain name owner p u where 1: "rq_Role r = ''admin''" "project_version ifMatch = Inr (pj_Version p)" "list_all (\<lambda>(k, v). k = ''name'' \<or> k = ''owner_id'') raw"
    "new_name raw = Inr name" "new_owner raw = Inr owner" "named_project (rq_WorkspaceID r) (rq_Key r) db = Some p"
    "optional_member pg (rq_WorkspaceID r) owner (ap_auth db) = Inr u"
    "or_database (UpdateProject now (rq_WorkspaceID r) (rq_Key r) name (map_of raw ''owner_id'' \<noteq> None) u (api_store db)) = Inr (api_store db')" "db' = with_store db (api_store db')"
    by (auto simp: updateProject_def Let_def result_simps with_store_def split: if_splits)
  have p: "p \<in> set (projects (api_store db))" "pj_WorkspaceID p = rq_WorkspaceID r" "pj_KeyPrefix p = rq_Key r"
    using 1(6) by (auto simp: named_project_def dest!: find_SomeD)
  have sel: "(pj_WorkspaceID x = rq_WorkspaceID r \<and> pj_KeyPrefix x = rq_Key r) = (x = p)" if "x \<in> set (projects (api_store db))" for x
    using that p inj_onD [of "\<lambda>p. (pj_WorkspaceID p, pj_KeyPrefix p)" "set (projects (api_store db))" x p] assms(2) by (auto simp: distinct_map)
  let ?owner = "if map_of raw ''owner_id'' \<noteq> None then u else pj_OwnerID p"
  have "api_store db' = (api_store db)\<lparr>projects := map (\<lambda>x. if x = p
      then p\<lparr>pj_Name := coalesce name (pj_Name p), pj_OwnerID := ?owner, pj_Version := pj_Version p + 1, pj_UpdatedAt := now\<rparr> else x) (projects (api_store db))\<rparr>"
    (is "_ = _\<lparr>projects := ?ps\<rparr>")
  proof -
    have "map (\<lambda>x. if pj_WorkspaceID x = rq_WorkspaceID r \<and> pj_KeyPrefix x = rq_Key r then x\<lparr>pj_Name := coalesce name (pj_Name x),
        pj_OwnerID := (if map_of raw ''owner_id'' \<noteq> None then u else pj_OwnerID x), pj_Version := pj_Version x + 1, pj_UpdatedAt := now\<rparr> else x) (projects (api_store db)) = ?ps"
      by (rule map_cong [OF refl]) (simp add: sel)
    moreover from 1(8) have "api_store db' = (api_store db)\<lparr>projects := map (\<lambda>x. if pj_WorkspaceID x = rq_WorkspaceID r \<and> pj_KeyPrefix x = rq_Key r then x\<lparr>pj_Name := coalesce name (pj_Name x),
        pj_OwnerID := (if map_of raw ''owner_id'' \<noteq> None then u else pj_OwnerID x), pj_Version := pj_Version x + 1, pj_UpdatedAt := now\<rparr> else x) (projects (api_store db))\<rparr>"
      unfolding UpdateProject_def Let_def or_database_Inr rbind_Inr guard_or_Inr sum.inject by (elim exE conjE, elim sym)
    ultimately show ?thesis by (simp only:)
  qed
  moreover have "fst ` set raw \<subseteq> {''name'', ''owner_id''}" using 1(3) by (auto simp: list_all_iff)
  ultimately show ?thesis
    using 1 p new_name_wanted [OF 1(4)] optional_member_wanted [OF 1(5,7)] by (intro exI [of _ p] exI [of _ "coalesce name (pj_Name p)"] exI [of _ ?owner]) auto
qed

abbreviation demo_renamed :: "(Problem \<times> (json \<times> json) option) + json \<times> api_db" where
  "demo_renamed \<equiv> updateProject (\<lambda>_. []) uuid_Parse 100 demo_admin first_version (Inr [(''name'', JStr ''Q'')]) demo_plain"

theorem updateProject_exact_witness: "\<exists>doc db' p. demo_renamed = Inr (doc, db') \<and> p \<in> set (projects (api_store db')) \<and> pj_Name p = ''Q''"
proof -
  define raw where "raw = [(''name'', JStr ''Q'')]"
  let ?u = "UpdateProject 100 1 ''SRX'' (Some ''Q'') False None (api_store demo_plain)"
  have "name_ok ''Q''" by code_simp
  then have inp: "new_name raw = Inr (Some ''Q'')" "new_owner raw = Inr None" "map_of raw ''owner_id'' = None" "raw \<noteq> []" "list_all (\<lambda>(k, v). k = ''name'' \<or> k = ''owner_id'') raw"
    by (simp_all add: raw_def new_name_def new_owner_def text_or_def)
  have v: "project_version first_version = Inr 1" by code_simp
  have "case named_project 1 ''SRX'' demo_plain of None \<Rightarrow> False | Some p \<Rightarrow> pj_Version p = 1" by code_simp
  then obtain p where p: "named_project 1 ''SRX'' demo_plain = Some p" "pj_Version p = 1" by (auto split: option.splits)
  have "\<not> isl ?u" by code_simp
  then obtain s where s: "?u = Inr s" by (cases ?u) auto
  have "named_project 1 ''SRX'' (with_store demo_plain (projr ?u)) \<noteq> None" by code_simp
  then obtain p' where p': "named_project 1 ''SRX'' (with_store demo_plain s) = Some p'" unfolding s by auto
  have "\<not> isl (updateProject (\<lambda>_. []) uuid_Parse 100 demo_admin first_version (Inr raw) demo_plain)"
    by (simp add: updateProject_def demo_admin_simps inp v p s p' optional_member_def or_database_def guard_or_def rbind_def plainly_def some_or_def Let_def)
  then have "\<not> isl demo_renamed" unfolding raw_def .
  then obtain doc db' where u: "demo_renamed = Inr (doc, db')" using not_isl by blast
  have d: "distinct (map (\<lambda>p. (pj_WorkspaceID p, pj_KeyPrefix p)) (projects (api_store demo_plain)))" by (simp add: demo_plain_def demo_api_def demo_tree_def demo_db_def)
  from updateProject_exact [OF u d] u show ?thesis by (force simp: name_wanted_def with_store_def)
qed

end
