(* ===== verification/Sx_Relations.thy ===== *)
theory Sx_Relations
  imports Sx_Items
begin

text \<open>
  Links between items and comments on them: \<open>src/internal/api/links.go\<close> and \<open>src/internal/api/comments.go\<close> over the write
  path.  Every change goes through \<open>Mutate\<close> with the version of the item it acts on.  The steps that requests take on the two
  tables are relations; the lemmas relate the handlers to them and follow whole sequences of requests.
\<close>

subsection \<open>Links\<close>

definition parsed :: "input_env \<Rightarrow> string \<Rightarrow> uuid" where
  "parsed env t = (case parse_uuid env t of None \<Rightarrow> 0 | Some u \<Rightarrow> u)"

definition itemID :: "input_env \<Rightarrow> request \<Rightarrow> string \<Rightarrow> database \<Rightarrow> Problem + uuid" where
  "itemID env r key db =
     rbind (or_database (some_or (find (\<lambda>i. it_WorkspaceID i = rq_WorkspaceID r \<and> it_Key i = key \<and> it_DeletedAt i = None) (items db)) NoRows))
       (\<lambda>i. Inr (parsed env (uuid_String (it_ID i))))"

text \<open>\<open>linkSelect\<close>: the links between two items of the workspace, with the items\<close>

definition link_rows :: "uuid \<Rightarrow> database \<Rightarrow> (ItemLink \<times> Item \<times> Item) list" where
  "link_rows ws db =
     concat (map (\<lambda>l. concat (map (\<lambda>f. map (\<lambda>t. (l, f, t))
         (filter (\<lambda>t. it_ID t = ln_ToItemID l \<and> it_WorkspaceID t = ws) (items db)))
       (filter (\<lambda>f. it_ID f = ln_FromItemID l \<and> it_WorkspaceID f = ws) (items db)))) (links db))"

definition link_doc :: "(int \<Rightarrow> string) \<Rightarrow> ItemLink \<times> Item \<times> Item \<Rightarrow> json" where
  "link_doc ts row =
     (case row of (l, f, t) \<Rightarrow>
      JObj [(''id'', JStr (uuid_String (ln_ID l))), (''kind'', JStr (ln_Kind l)),
        (''from'', JObj [(''key'', JStr (it_Key f)), (''title'', JStr (it_Title f))]),
        (''to'', JObj [(''key'', JStr (it_Key t)), (''title'', JStr (it_Title t))]),
        (''created_at'', JStr (ts (ln_CreatedAt l)))])"

definition link_page :: "(int \<Rightarrow> string) \<Rightarrow> uuid \<Rightarrow> uuid \<Rightarrow> database \<Rightarrow> (uuid \<times> json) list" where
  "link_page ts ws u db =
     map (\<lambda>row. (ln_ID (fst row), link_doc ts row)) (filter (\<lambda>(l, _). ln_FromItemID l = u \<or> ln_ToItemID l = u) (link_rows ws db))"

definition listLinks :: "input_env \<Rightarrow> (int \<Rightarrow> string) \<Rightarrow> cursor_prims \<Rightarrow> string \<Rightarrow> request \<Rightarrow> database \<Rightarrow> database \<Rightarrow> Problem + json list \<times> string option" where
  "listLinks env ts pr skey r first db =
     rbind (rejectFields r) (\<lambda>_.
     rbind (itemID env r (rq_Key r) first) (\<lambda>u.
     jsonPage pr skey r (link_page ts (rq_WorkspaceID r) u first) (link_page ts (rq_WorkspaceID r) u db)))"

definition link_kinds :: "string list" where
  "link_kinds = [''blocks'', ''duplicates'', ''relates'', ''implements'', ''discovered_from'']"

definition linkResponse :: "(int \<Rightarrow> string) \<Rightarrow> request \<Rightarrow> uuid \<Rightarrow> api_db \<Rightarrow> json answer" where
  "linkResponse ts r u db =
     (or_database (rbind (some_or (find (\<lambda>(l, _). ln_ID l = u) (link_rows (rq_WorkspaceID r) (api_store db))) NoRows) (\<lambda>row. Inr (link_doc ts row))), db)"

definition createLink :: "input_env \<Rightarrow> (int \<Rightarrow> string) \<Rightarrow> int \<Rightarrow> uuid \<Rightarrow> request \<Rightarrow> string \<Rightarrow> Problem + string \<times> string \<Rightarrow> api_db \<Rightarrow> json answer" where
  "createLink env ts now fresh r ifMatch decoded db =
     refused db (rbind (rejectFields r) (\<lambda>_.
     rbind (expectedVersion ifMatch) (\<lambda>version.
     rbind decoded (\<lambda>(to, kind).
     if kind \<notin> set link_kinds then Inl (invalidChange ''kind must be blocks, duplicates, relates, implements or discovered_from.'')
     else rbind (itemID env r (rq_Key r) (api_store db)) (\<lambda>fromID.
     rbind (itemID env r to (api_store db)) (\<lambda>toID.
     if fromID = toID then Inl (invalidChange ''to must identify a different item; self-links are not allowed.'')
     else Inr (mutate_item ts now r
         (Link fresh \<lparr>lc_ID = fresh, lc_FromItemID = fromID, lc_ToItemID = toID, lc_ActingItemID = 0, lc_Kind = kind\<rparr>)
         [WithExpectedVersion fromID version] (JObj [(''to'', JStr to), (''kind'', JStr kind)]) (linkResponse ts r fresh) db)))))))"

text \<open>The item a deletion acts on: the first end unless the request names the other\<close>

definition acting_end :: "request \<Rightarrow> Item \<Rightarrow> Item \<Rightarrow> Problem + Item" where
  "acting_end r f t =
     (let requested = q_Get (rq_Query r) ''item'' in
      if requested = [] \<or> requested = it_Key f then Inr f
      else if requested = it_Key t then Inr t
      else Inl (invalidChange ''item must identify one of the linked items.''))"

definition deleteLink :: "input_env \<Rightarrow> (int \<Rightarrow> string) \<Rightarrow> int \<Rightarrow> request \<Rightarrow> string \<Rightarrow> string \<Rightarrow> api_db \<Rightarrow> json answer" where
  "deleteLink env ts now r ifMatch idText db =
     refused db (rbind (rejectFields r) (\<lambda>_.
     rbind (expectedVersion ifMatch) (\<lambda>version.
     rbind (some_or (parse_uuid env idText) NotFound) (\<lambda>u.
     rbind (or_database (some_or (find (\<lambda>(l, _). ln_ID l = u) (link_rows (rq_WorkspaceID r) (api_store db))) NoRows)) (\<lambda>(l, f, t).
     let fromID = parsed env (uuid_String (it_ID f)); toID = parsed env (uuid_String (it_ID t)) in
     rbind (acting_end r f t) (\<lambda>end_item.
     let acting = parsed env (uuid_String (it_ID end_item)); answer = JObj [(''deleted'', JBool True), (''id'', JStr (uuid_String u))] in
     Inr (mutate_item ts now (r\<lparr>rq_Key := it_Key end_item\<rparr>)
         (Unlink \<lparr>lc_ID = u, lc_FromItemID = fromID, lc_ToItemID = toID, lc_ActingItemID = acting, lc_Kind = ln_Kind l\<rparr>)
         [WithExpectedVersion acting version] answer (\<lambda>db'. (Inr answer, db')) db)))))))"

subsection \<open>Comments\<close>

text \<open>\<open>commentSelect\<close>: the comments on items of the workspace, with the item and the author\<close>

definition comment_rows :: "uuid \<Rightarrow> database \<Rightarrow> (Comment \<times> Item \<times> UserAccount) list" where
  "comment_rows ws db =
     concat (map (\<lambda>c. concat (map (\<lambda>i. map (\<lambda>u. (c, i, u))
         (filter (\<lambda>u. ua_ID u = cm_AuthorID c) (users db)))
       (filter (\<lambda>i. it_ID i = cm_ItemID c \<and> it_WorkspaceID i = ws) (items db)))) (comments db))"

definition comment_doc :: "(int \<Rightarrow> string) \<Rightarrow> Comment \<times> Item \<times> UserAccount \<Rightarrow> json" where
  "comment_doc ts row =
     (case row of (c, i, u) \<Rightarrow>
      JObj [(''id'', JStr (uuid_String (cm_ID c))), (''item'', JStr (it_Key i)),
        (''author'', JObj [(''id'', JStr (uuid_String (ua_ID u))), (''display_name'', JStr (ua_DisplayName u))]),
        (''body'', if cm_DeletedAt c = None then JStr (cm_Body c) else JNull),
        (''created_at'', JStr (ts (cm_CreatedAt c))), (''edited_at'', json_opt (\<lambda>a. JStr (ts a)) (cm_EditedAt c)),
        (''deleted_at'', json_opt (\<lambda>a. JStr (ts a)) (cm_DeletedAt c))])"

definition comment_page :: "(int \<Rightarrow> string) \<Rightarrow> uuid \<Rightarrow> uuid \<Rightarrow> database \<Rightarrow> (uuid \<times> json) list" where
  "comment_page ts ws u db = map (\<lambda>row. (cm_ID (fst row), comment_doc ts row)) (filter (\<lambda>(c, _). cm_ItemID c = u) (comment_rows ws db))"

definition listComments :: "input_env \<Rightarrow> (int \<Rightarrow> string) \<Rightarrow> cursor_prims \<Rightarrow> string \<Rightarrow> request \<Rightarrow> database \<Rightarrow> database \<Rightarrow> Problem + json list \<times> string option" where
  "listComments env ts pr skey r first db =
     rbind (rejectFields r) (\<lambda>_.
     rbind (itemID env r (q_Get (rq_Query r) ''item'') first) (\<lambda>u.
     jsonPage pr skey r (comment_page ts (rq_WorkspaceID r) u first) (comment_page ts (rq_WorkspaceID r) u db)))"

definition commentResponse :: "(int \<Rightarrow> string) \<Rightarrow> request \<Rightarrow> uuid \<Rightarrow> api_db \<Rightarrow> json answer" where
  "commentResponse ts r u db =
     (or_database (rbind (some_or (find (\<lambda>(c, _). cm_ID c = u) (comment_rows (rq_WorkspaceID r) (api_store db))) NoRows) (\<lambda>row. Inr (comment_doc ts row))), db)"

definition commentBodyValid :: "string \<Rightarrow> bool" where
  "commentBodyValid body = (\<not> (TrimSpace body = [] \<or> length body > 100000))"

definition checked_body :: "string \<Rightarrow> Problem + unit" where
  "checked_body body = guard_or (commentBodyValid body) (invalidChange ''body must contain Markdown text and must not exceed 100000 bytes.'')"

definition createComment :: "input_env \<Rightarrow> (int \<Rightarrow> string) \<Rightarrow> int \<Rightarrow> uuid \<Rightarrow> request \<Rightarrow> string \<Rightarrow> Problem + string \<times> string \<Rightarrow> api_db \<Rightarrow> json answer" where
  "createComment env ts now fresh r ifMatch decoded db =
     refused db (rbind (rejectFields r) (\<lambda>_.
     rbind (expectedVersion ifMatch) (\<lambda>version.
     rbind decoded (\<lambda>(key, body).
     rbind (checked_body body) (\<lambda>_.
     rbind (itemID env r key (api_store db)) (\<lambda>item.
     Inr (mutate_item ts now (r\<lparr>rq_Key := key\<rparr>)
         (Comment_builder fresh \<lparr>cc_ID = fresh, cc_ItemID = item, cc_Action = ''create'', cc_Body = body, cc_OldBody = None\<rparr>)
         [WithExpectedVersion item version] (JObj [(''item'', JStr key), (''body'', JStr body)]) (commentResponse ts r fresh) db)))))))"

text \<open>The live comment with its item; the identifier in the path; the method is \<open>PATCH\<close> or \<open>DELETE\<close>.\<close>

definition live_comment :: "uuid \<Rightarrow> uuid \<Rightarrow> database \<Rightarrow> (Comment \<times> Item) option" where
  "live_comment ws u db =
     (case concat (map (\<lambda>c. map (\<lambda>i. (c, i)) (filter (\<lambda>i. it_ID i = cm_ItemID c \<and> it_WorkspaceID i = ws) (items db)))
         (filter (\<lambda>c. cm_ID c = u \<and> cm_DeletedAt c = None) (comments db))) of
        [] \<Rightarrow> None
      | row # _ \<Rightarrow> Some row)"

definition changeComment_handler :: "input_env \<Rightarrow> (int \<Rightarrow> string) \<Rightarrow> int \<Rightarrow> uuid \<Rightarrow> request \<Rightarrow> string \<Rightarrow> string \<Rightarrow> string \<Rightarrow> Problem + string \<Rightarrow> api_db \<Rightarrow> json answer" where
  "changeComment_handler env ts now fresh r verb ifMatch idText decoded db =
     refused db (rbind (rejectFields r) (\<lambda>_.
     rbind (expectedVersion ifMatch) (\<lambda>version.
     rbind (some_or (parse_uuid env idText) NotFound) (\<lambda>u.
     rbind (or_database (some_or (live_comment (rq_WorkspaceID r) u (api_store db)) NoRows)) (\<lambda>(c, i).
     if cm_AuthorID c \<noteq> rq_UserID r \<and> \<not> (verb = ''DELETE'' \<and> rq_Role r = ''admin'') then Inl Forbidden
     else rbind (if verb = ''PATCH'' then rbind decoded (\<lambda>body. rbind (checked_body body) (\<lambda>_. Inr (''edit'', body))) else Inr (''delete'', [])) (\<lambda>(action, body).
     let item = parsed env (uuid_String (cm_ItemID c)) in
     Inr (mutate_item ts now (r\<lparr>rq_Key := it_Key i\<rparr>)
         (Comment_builder fresh \<lparr>cc_ID = u, cc_ItemID = item, cc_Action = action, cc_Body = body, cc_OldBody = Some (cm_Body c)\<rparr>)
         [WithExpectedVersion item version] (JObj [(''body'', JStr body)]) (commentResponse ts r u) db)))))))"

subsection \<open>What a request does to the comments\<close>

text \<open>A request on comments: the handler with what the request carries\<close>

datatype comment_call =
    Post "Problem + string \<times> string"
  | Change string string "Problem + string"

record comment_request =
  cq_Request :: request
  cq_IfMatch :: string
  cq_Now :: int
  cq_Fresh :: uuid
  cq_Call :: comment_call

definition serve_comment :: "input_env \<Rightarrow> (int \<Rightarrow> string) \<Rightarrow> comment_request \<Rightarrow> api_db \<Rightarrow> json answer" where
  "serve_comment env ts q db =
     (case cq_Call q of
        Post decoded \<Rightarrow> createComment env ts (cq_Now q) (cq_Fresh q) (cq_Request q) (cq_IfMatch q) decoded db
      | Change verb idText decoded \<Rightarrow> changeComment_handler env ts (cq_Now q) (cq_Fresh q) (cq_Request q) verb (cq_IfMatch q) idText decoded db)"

definition serve_comments :: "input_env \<Rightarrow> (int \<Rightarrow> string) \<Rightarrow> comment_request list \<Rightarrow> api_db \<Rightarrow> api_db" where
  "serve_comments env ts qs db = foldl (\<lambda>d q. snd (serve_comment env ts q d)) db qs"

text \<open>The text a request writes and the comment it removes\<close>

definition written :: "comment_request \<Rightarrow> string option" where
  "written q =
     (case cq_Call q of
        Post (Inr (_, body)) \<Rightarrow> Some body
      | Change verb _ (Inr body) \<Rightarrow> if verb = ''PATCH'' then Some body else None
      | _ \<Rightarrow> None)"

definition removes :: "input_env \<Rightarrow> comment_request \<Rightarrow> uuid \<Rightarrow> bool" where
  "removes env q u = (case cq_Call q of Change verb idText _ \<Rightarrow> verb \<noteq> ''PATCH'' \<and> parse_uuid env idText = Some u | _ \<Rightarrow> False)"

abbreviation caller :: "comment_request \<Rightarrow> uuid" where
  "caller q \<equiv> rq_UserID (cq_Request q)"

text \<open>The steps on the table\<close>

inductive comment_step :: "input_env \<Rightarrow> comment_request \<Rightarrow> Comment list \<Rightarrow> Comment list \<Rightarrow> bool" for env q where
  idle: "comment_step env q cs cs"
| post: "cm_ID c = cq_Fresh q \<Longrightarrow> cm_ID c \<notin> cm_ID ` set cs \<Longrightarrow> cm_AuthorID c = caller q \<Longrightarrow> written q = Some (cm_Body c) \<Longrightarrow> commentBodyValid (cm_Body c) \<Longrightarrow>
    cm_DeletedAt c = None \<Longrightarrow> comment_step env q cs (cs @ [c])"
| edit: "c \<in> set cs \<Longrightarrow> cm_DeletedAt c = None \<Longrightarrow> cm_AuthorID c = caller q \<Longrightarrow> written q = Some body \<Longrightarrow> commentBodyValid body \<Longrightarrow>
    comment_step env q cs (map (\<lambda>x. if x = c then x\<lparr>cm_Body := body, cm_EditedAt := Some (cq_Now q)\<rparr> else x) cs)"
| remove: "c \<in> set cs \<Longrightarrow> cm_DeletedAt c = None \<Longrightarrow> cm_AuthorID c = caller q \<or> rq_Role (cq_Request q) = ''admin'' \<Longrightarrow> removes env q (cm_ID c) \<Longrightarrow>
    comment_step env q cs (map (\<lambda>x. if x = c then x\<lparr>cm_DeletedAt := Some (cq_Now q)\<rparr> else x) cs)"

lemma bump_item_relations: "bump_item now u seq db = Inr db' \<Longrightarrow> comments db' = comments db \<and> links db' = links db"
  by (auto simp: bump_item_def update_items_Inr result_simps)

lemma Comment_one:
  "mu_err m = None \<Longrightarrow> mu_err (Comment_builder fresh c m) = None \<Longrightarrow>
   \<exists>es. Comment_builder fresh c m = add_change \<lparr>ch_op = changeComment (if cc_ID c = 0 then c\<lparr>cc_ID := fresh\<rparr> else c), ch_itemID = cc_ItemID c, ch_events = es\<rparr> m"
  by (auto simp: Comment_builder_def Let_def fail_def split: if_splits sum.splits option.splits)

lemma Mutate_comment:
  assumes "Mutate now ws (\<lambda>m. Inr (Comment_builder fresh c m)) [WithActor a, WithExpectedVersion (cc_ItemID c) v] db = (Inr res, db')"
  obtains m db0 db1 where "applyComment now m (if cc_ID c = 0 then c\<lparr>cc_ID := fresh\<rparr> else c) db0 = Inr db1" "comments db0 = comments db" "comments db' = comments db1" "mu_actorID m = a"
proof (rule Mutate_one [OF assms Comment_one], assumption, assumption)
  fix i seq m st st'
  assume a: "apply_op now m \<lparr>ch_op = changeComment (if cc_ID c = 0 then c\<lparr>cc_ID := fresh\<rparr> else c), ch_itemID = cc_ItemID c, ch_events = []\<rparr> seq st = Inr st'"
    and cs: "comments (fs_db st) = comments db" "comments db' = comments (fs_db st')" "mu_actorID m = a"
  from a obtain db1 where 1: "applyComment now m (if cc_ID c = 0 then c\<lparr>cc_ID := fresh\<rparr> else c) (fs_db st) = Inr db1" "bump_item now (cc_ItemID c) seq db1 = Inr (fs_db st')"
    by (auto simp: apply_op_def Let_def result_simps)
  show thesis by (rule that [OF 1(1)]) (use cs bump_item_relations [OF 1(2)] in simp_all)
qed

definition comments_ok :: "Comment list \<Rightarrow> bool" where
  "comments_ok cs = (distinct (map cm_ID cs) \<and> 0 \<notin> cm_ID ` set cs)"

lemma comments_ok_same: "comments_ok cs \<Longrightarrow> x \<in> set cs \<Longrightarrow> y \<in> set cs \<Longrightarrow> cm_ID x = cm_ID y \<Longrightarrow> x = y"
  by (auto simp: comments_ok_def distinct_map dest: inj_onD)

lemma comments_ok_map: "(\<And>x. cm_ID (f x) = cm_ID x) \<Longrightarrow> comments_ok (map f cs) \<longleftrightarrow> comments_ok cs"
  by (simp add: comments_ok_def comp_def image_image)

lemma comment_step_ok: "comment_step env q cs cs' \<Longrightarrow> cq_Fresh q \<noteq> 0 \<Longrightarrow> comments_ok cs \<Longrightarrow> comments_ok cs'"
  by (induction rule: comment_step.induct) (simp_all add: comments_ok_map, simp add: comments_ok_def)

text \<open>The statements on one comment hit the row the handler has read.\<close>

lemma hits_one:
  assumes "comments_ok cs" "c \<in> set cs" "length (filter (\<lambda>x. cm_ID x = cm_ID c \<and> P x) cs) = 1"
  shows "map (\<lambda>x. if cm_ID x = cm_ID c \<and> P x then f x else x) cs = map (\<lambda>x. if x = c then f x else x) cs"
proof -
  from assms(3) have "filter (\<lambda>x. cm_ID x = cm_ID c \<and> P x) cs \<noteq> []" by auto
  then obtain y where "y \<in> set cs" "cm_ID y = cm_ID c" "P y" by (auto simp: filter_empty_conv)
  then have "P c" using comments_ok_same [OF assms(1) _ assms(2)] by blast
  then show ?thesis using comments_ok_same [OF assms(1) _ assms(2)] by (auto intro!: map_cong)
qed

lemma live_comment_Some:
  assumes "live_comment ws u db = Some (c, i)"
  shows "c \<in> set (comments db)" "cm_ID c = u" "cm_DeletedAt c = None" "i \<in> set (items db)" "it_ID i = cm_ItemID c" "it_WorkspaceID i = ws"
proof -
  have head: "row \<in> set rows" if "(case rows of [] \<Rightarrow> None | x # _ \<Rightarrow> Some x) = Some row" for rows and row :: "Comment \<times> Item"
    using that by (cases rows) simp_all
  show "c \<in> set (comments db)" "cm_ID c = u" "cm_DeletedAt c = None" "i \<in> set (items db)" "it_ID i = cm_ItemID c" "it_WorkspaceID i = ws"
    using head [OF assms [unfolded live_comment_def]] by auto
qed

lemma api_with_store: "api_store (with_store db s) = s"
  by (simp add: with_store_def)

lemma checked_body_Inr [result_simps]: "checked_body b = Inr x \<longleftrightarrow> commentBodyValid b"
  by (simp add: checked_body_def guard_or_Inr)

lemma commentResponse_snd: "snd (commentResponse ts r u db) = db"
  by (simp add: commentResponse_def)

lemma posted:
  assumes "Mutate now ws (\<lambda>m. Inr (Comment_builder fresh \<lparr>cc_ID = fresh, cc_ItemID = item, cc_Action = ''create'', cc_Body = body, cc_OldBody = None\<rparr> m))
    [WithActor a, WithExpectedVersion item v] db = (Inr res, db')"
  shows "fresh \<notin> cm_ID ` set (comments db)" "comments db' = comments db @ [\<lparr>cm_ID = fresh, cm_ItemID = item, cm_AuthorID = a, cm_Body = body, cm_CreatedAt = now, cm_EditedAt = None, cm_DeletedAt = None\<rparr>]"
proof -
  let ?c = "\<lparr>cc_ID = fresh, cc_ItemID = item, cc_Action = ''create'', cc_Body = body, cc_OldBody = None\<rparr>"
  have "Mutate now ws (\<lambda>m. Inr (Comment_builder fresh ?c m)) [WithActor a, WithExpectedVersion (cc_ItemID ?c) v] db = (Inr res, db')" using assms by simp
  then obtain m db0 db1 where 1: "applyComment now m (if cc_ID ?c = 0 then ?c\<lparr>cc_ID := fresh\<rparr> else ?c) db0 = Inr db1"
    "comments db0 = comments db" "comments db' = comments db1" "mu_actorID m = a" by (rule Mutate_comment)
  have "(if cc_ID ?c = 0 then ?c\<lparr>cc_ID := fresh\<rparr> else ?c) = ?c" by simp
  from 1(1) [unfolded this] have "cc_ID ?c \<notin> cm_ID ` set (comments db0)" "db1 = db0\<lparr>comments := comments db0 @ [\<lparr>cm_ID = fresh, cm_ItemID = item, cm_AuthorID = mu_actorID m,
    cm_Body = body, cm_CreatedAt = now, cm_EditedAt = None, cm_DeletedAt = None\<rparr>]\<rparr>"
    by (simp_all add: applyComment_def Let_def result_simps)
  then show "fresh \<notin> cm_ID ` set (comments db)"
    "comments db' = comments db @ [\<lparr>cm_ID = fresh, cm_ItemID = item, cm_AuthorID = a, cm_Body = body, cm_CreatedAt = now, cm_EditedAt = None, cm_DeletedAt = None\<rparr>]"
    using 1(2-4) by simp_all
qed

lemma changed:
  assumes "Mutate now ws (\<lambda>m. Inr (Comment_builder fresh \<lparr>cc_ID = cm_ID c, cc_ItemID = item, cc_Action = action, cc_Body = body, cc_OldBody = old\<rparr> m))
    [WithActor a, WithExpectedVersion item v] db = (Inr res, db')"
    and "comments_ok (comments db)" "c \<in> set (comments db)"
  shows "action = ''edit'' \<Longrightarrow> comments db' = map (\<lambda>x. if x = c then x\<lparr>cm_Body := body, cm_EditedAt := Some now\<rparr> else x) (comments db)"
    and "action = ''delete'' \<Longrightarrow> comments db' = map (\<lambda>x. if x = c then x\<lparr>cm_DeletedAt := Some now\<rparr> else x) (comments db)"
proof -
  have "cm_ID c \<noteq> 0" using assms(2,3) by (force simp: comments_ok_def)
  let ?c = "\<lparr>cc_ID = cm_ID c, cc_ItemID = item, cc_Action = action, cc_Body = body, cc_OldBody = old\<rparr>"
  have "Mutate now ws (\<lambda>m. Inr (Comment_builder fresh ?c m)) [WithActor a, WithExpectedVersion (cc_ItemID ?c) v] db = (Inr res, db')" using assms(1) by simp
  then obtain m db0 db1 where 1: "applyComment now m (if cc_ID ?c = 0 then ?c\<lparr>cc_ID := fresh\<rparr> else ?c) db0 = Inr db1"
    "comments db0 = comments db" "comments db' = comments db1" by (rule Mutate_comment)
  have "(if cc_ID ?c = 0 then ?c\<lparr>cc_ID := fresh\<rparr> else ?c) = ?c" using \<open>cm_ID c \<noteq> 0\<close> by simp
  note 1 = 1(1) [unfolded this] 1(2,3)
  let ?hit = "\<lambda>x. cm_ID x = cm_ID c \<and> cm_ItemID x = item \<and> cm_DeletedAt x = None"
  note hit = hits_one [OF assms(2,3), where P = "\<lambda>x. cm_ItemID x = item \<and> cm_DeletedAt x = None"]
  show "comments db' = map (\<lambda>x. if x = c then x\<lparr>cm_Body := body, cm_EditedAt := Some now\<rparr> else x) (comments db)" if e: "action = ''edit''"
  proof -
    have "length (filter ?hit (comments db)) = 1" "comments db1 = map (\<lambda>x. if ?hit x then x\<lparr>cm_Body := body, cm_EditedAt := Some now\<rparr> else x) (comments db)"
      using 1(1,2) unfolding applyComment_def Let_def e CommentChange.select_convs by (auto simp: result_simps)
    then show ?thesis using hit [of "\<lambda>x. x\<lparr>cm_Body := body, cm_EditedAt := Some now\<rparr>"] 1(3) by simp
  qed
  show "comments db' = map (\<lambda>x. if x = c then x\<lparr>cm_DeletedAt := Some now\<rparr> else x) (comments db)" if e: "action = ''delete''"
  proof -
    have "length (filter ?hit (comments db)) = 1" "comments db1 = map (\<lambda>x. if ?hit x then x\<lparr>cm_DeletedAt := Some now\<rparr> else x) (comments db)"
      using 1(1,2) unfolding applyComment_def Let_def e CommentChange.select_convs by (auto simp: result_simps)
    then show ?thesis using hit [of "\<lambda>x. x\<lparr>cm_DeletedAt := Some now\<rparr>"] 1(3) by simp
  qed
qed

lemma createComment_step:
  assumes "effective db (createComment env ts now fresh r ifMatch decoded db)"
  obtains item key body where "decoded = Inr (key, body)" "commentBodyValid body" "fresh \<notin> cm_ID ` set (comments (api_store db))"
    "comments (api_store (snd (createComment env ts now fresh r ifMatch decoded db))) =
       comments (api_store db) @ [\<lparr>cm_ID = fresh, cm_ItemID = item, cm_AuthorID = rq_UserID r, cm_Body = body, cm_CreatedAt = now, cm_EditedAt = None, cm_DeletedAt = None\<rparr>]"
proof -
  from assms obtain version key body item where 1: "rejectFields r = Inr ()" "expectedVersion ifMatch = Inr version" "decoded = Inr (key, body)"
    "commentBodyValid body" "itemID env r key (api_store db) = Inr item"
    unfolding createComment_def effective_refused by (auto simp: result_simps)
  define h where "h = mutate_item ts now (r\<lparr>rq_Key := key\<rparr>) (Comment_builder fresh \<lparr>cc_ID = fresh, cc_ItemID = item, cc_Action = ''create'', cc_Body = body, cc_OldBody = None\<rparr>)
         [WithExpectedVersion item version] (JObj [(''item'', JStr key), (''body'', JStr body)]) (commentResponse ts r fresh) db"
  have h: "createComment env ts now fresh r ifMatch decoded db = h"
    using 1 by (simp add: createComment_def refused_def rbind_def checked_body_def guard_or_def h_def)
  from assms [unfolded h h_def] obtain res s where
    "Mutate now (rq_WorkspaceID r) (\<lambda>m. Inr (Comment_builder fresh \<lparr>cc_ID = fresh, cc_ItemID = item, cc_Action = ''create'', cc_Body = body, cc_OldBody = None\<rparr> m))
      [WithActor (rq_UserID r), WithExpectedVersion item version] (api_store db) = (Inr res, s)" "snd h = with_store db s"
    unfolding h_def by (rule mutate_item_effective [OF _ commentResponse_snd]) simp
  then show thesis using 1 posted that unfolding h by (simp add: api_with_store)
qed

lemma refuse_if_Inr: "(if b then Inl e else res) = Inr x \<longleftrightarrow> \<not> b \<and> res = Inr x"
  by simp

lemma changeComment_step:
  assumes "effective db (changeComment_handler env ts now fresh r verb ifMatch idText decoded db)" "comments_ok (comments (api_store db))"
  obtains (edit) c body where "c \<in> set (comments (api_store db))" "cm_DeletedAt c = None" "cm_AuthorID c = rq_UserID r" "verb = ''PATCH''" "decoded = Inr body" "commentBodyValid body"
      "comments (api_store (snd (changeComment_handler env ts now fresh r verb ifMatch idText decoded db))) =
         map (\<lambda>x. if x = c then x\<lparr>cm_Body := body, cm_EditedAt := Some now\<rparr> else x) (comments (api_store db))"
  | (remove) c where "c \<in> set (comments (api_store db))" "cm_DeletedAt c = None" "cm_AuthorID c = rq_UserID r \<or> rq_Role r = ''admin''" "verb \<noteq> ''PATCH''" "parse_uuid env idText = Some (cm_ID c)"
      "comments (api_store (snd (changeComment_handler env ts now fresh r verb ifMatch idText decoded db))) =
         map (\<lambda>x. if x = c then x\<lparr>cm_DeletedAt := Some now\<rparr> else x) (comments (api_store db))"
proof -
  from assms(1) obtain version u c i action body where 1: "rejectFields r = Inr ()" "expectedVersion ifMatch = Inr version" "parse_uuid env idText = Some u"
    "live_comment (rq_WorkspaceID r) u (api_store db) = Some (c, i)" "cm_AuthorID c = rq_UserID r \<or> verb = ''DELETE'' \<and> rq_Role r = ''admin''"
    "(if verb = ''PATCH'' then rbind decoded (\<lambda>body. rbind (checked_body body) (\<lambda>_. Inr (''edit'', body))) else Inr (''delete'', [])) = Inr (action, body)"
    unfolding changeComment_handler_def effective_refused by (auto simp: result_simps refuse_if_Inr split del: if_split)
  have author: "\<not> (cm_AuthorID c \<noteq> rq_UserID r \<and> \<not> (verb = ''DELETE'' \<and> rq_Role r = ''admin''))" using 1(5) by blast
  note c = live_comment_Some [OF 1(4)]
  let ?item = "parsed env (uuid_String (cm_ItemID c))"
  define h where "h = mutate_item ts now (r\<lparr>rq_Key := it_Key i\<rparr>) (Comment_builder fresh \<lparr>cc_ID = u, cc_ItemID = ?item, cc_Action = action, cc_Body = body, cc_OldBody = Some (cm_Body c)\<rparr>)
         [WithExpectedVersion ?item version] (JObj [(''body'', JStr body)]) (commentResponse ts r u) db"
  have h: "changeComment_handler env ts now fresh r verb ifMatch idText decoded db = h"
    unfolding changeComment_handler_def 1(1-4) rbind_simps some_or_def option.case or_database_def sum.case prod.case if_not_P [OF author] 1(6) Let_def h_def refused_def ..
  from assms(1) [unfolded h h_def] obtain res s where m:
    "Mutate now (rq_WorkspaceID r) (\<lambda>m. Inr (Comment_builder fresh \<lparr>cc_ID = cm_ID c, cc_ItemID = ?item, cc_Action = action, cc_Body = body, cc_OldBody = Some (cm_Body c)\<rparr> m))
      [WithActor (rq_UserID r), WithExpectedVersion ?item version] (api_store db) = (Inr res, s)" "snd h = with_store db s"
    unfolding h_def c(2) by (rule mutate_item_effective [OF _ commentResponse_snd]) simp
  note w = changed [OF m(1) assms(2) c(1)]
  show thesis
  proof (cases "verb = ''PATCH''")
    case True
    with 1(6) have "action = ''edit''" "decoded = Inr body" "commentBodyValid body" by (auto simp: result_simps)
    then show thesis using edit [OF c(1,3) _ True] 1(5) True w(1) m(2) unfolding h by (simp add: api_with_store)
  next
    case False
    with 1(6) have "action = ''delete''" by simp
    then show thesis using remove [OF c(1,3) _ False] 1(3,5) c(2) w(2) m(2) unfolding h by (auto simp: api_with_store)
  qed
qed

lemma serve_comment_step:
  assumes "comments_ok (comments (api_store db))"
  shows "comment_step env q (comments (api_store db)) (comments (api_store (snd (serve_comment env ts q db))))"
proof (cases "effective db (serve_comment env ts q db)")
  case True
  show ?thesis
  proof (cases "cq_Call q")
    case (Post decoded)
    have "effective db (createComment env ts (cq_Now q) (cq_Fresh q) (cq_Request q) (cq_IfMatch q) decoded db)" using True by (simp add: serve_comment_def Post)
    then obtain item key body where "decoded = Inr (key, body)" "commentBodyValid body" "cq_Fresh q \<notin> cm_ID ` set (comments (api_store db))"
      "comments (api_store (snd (serve_comment env ts q db))) = comments (api_store db) @ [\<lparr>cm_ID = cq_Fresh q, cm_ItemID = item, cm_AuthorID = caller q, cm_Body = body,
         cm_CreatedAt = cq_Now q, cm_EditedAt = None, cm_DeletedAt = None\<rparr>]"
      unfolding serve_comment_def Post comment_call.case by (rule createComment_step)
    then show ?thesis by (simp add: comment_step.post written_def Post)
  next
    case (Change verb idText decoded)
    have "effective db (changeComment_handler env ts (cq_Now q) (cq_Fresh q) (cq_Request q) verb (cq_IfMatch q) idText decoded db)" using True by (simp add: serve_comment_def Change)
    then show ?thesis
      using assms
    proof (cases rule: changeComment_step)
      case (edit c body)
      then show ?thesis by (simp add: serve_comment_def Change comment_step.edit written_def)
    next
      case (remove c)
      then show ?thesis by (simp add: serve_comment_def Change comment_step.remove removes_def)
    qed
  qed
qed (simp add: effective_def comment_step.idle)

text \<open>
  What is true of a comment \<open>c'\<close> after some requests, given those before: its text is the old one or its author wrote it in one
  of the requests; it is deleted only as before or by its author or an administrator; and what is kept of a comment \<open>c\<close>
\<close>

definition said :: "comment_request list \<Rightarrow> Comment list \<Rightarrow> Comment \<Rightarrow> bool" where
  "said qs cs c' =
     ((\<exists>c \<in> set cs. cm_ID c = cm_ID c' \<and> cm_AuthorID c = cm_AuthorID c' \<and> cm_Body c = cm_Body c') \<or>
      (\<exists>q \<in> set qs. caller q = cm_AuthorID c' \<and> written q = Some (cm_Body c') \<and> commentBodyValid (cm_Body c')))"

definition deleted_by :: "input_env \<Rightarrow> comment_request list \<Rightarrow> Comment list \<Rightarrow> Comment \<Rightarrow> bool" where
  "deleted_by env qs cs c' =
     (cm_DeletedAt c' = None \<or> c' \<in> set cs \<or>
      (\<exists>q \<in> set qs. (caller q = cm_AuthorID c' \<or> rq_Role (cq_Request q) = ''admin'') \<and> removes env q (cm_ID c')))"

definition kept :: "Comment list \<Rightarrow> Comment \<Rightarrow> bool" where
  "kept cs' c =
     (\<exists>c' \<in> set cs'. cm_ID c' = cm_ID c \<and> cm_ItemID c' = cm_ItemID c \<and> cm_AuthorID c' = cm_AuthorID c \<and> cm_CreatedAt c' = cm_CreatedAt c \<and>
         (cm_DeletedAt c \<noteq> None \<longrightarrow> c' = c))"

definition accounted :: "input_env \<Rightarrow> comment_request list \<Rightarrow> Comment list \<Rightarrow> Comment list \<Rightarrow> bool" where
  "accounted env qs cs cs' = ((\<forall>c' \<in> set cs'. said qs cs c' \<and> deleted_by env qs cs c') \<and> (\<forall>c \<in> set cs. kept cs' c))"

lemma unchanged: "c \<in> set cs \<Longrightarrow> said qs cs c" "c \<in> set cs \<Longrightarrow> deleted_by env qs cs c" "c \<in> set cs' \<Longrightarrow> kept cs' c"
  unfolding said_def deleted_by_def kept_def by blast+

lemma accounted_map:
  assumes "c \<in> set cs" "cm_DeletedAt c = None" "said qs cs (f c)" "deleted_by env qs cs (f c)"
    and "cm_ID (f c) = cm_ID c \<and> cm_ItemID (f c) = cm_ItemID c \<and> cm_AuthorID (f c) = cm_AuthorID c \<and> cm_CreatedAt (f c) = cm_CreatedAt c"
  shows "accounted env qs cs (map (\<lambda>x. if x = c then f x else x) cs)"
proof -
  let ?cs' = "map (\<lambda>x. if x = c then f x else x) cs"
  have "said qs cs c' \<and> deleted_by env qs cs c'" if "c' \<in> set ?cs'" for c'
  proof (cases "c' = f c")
    case False
    then have "c' \<in> set cs" using that by auto
    then show ?thesis by (simp add: unchanged)
  qed (use assms(3,4) in simp)
  moreover have "kept ?cs' x" if "x \<in> set cs" for x
  proof (cases "x = c")
    case True
    have "f c \<in> set ?cs'" using assms(1) by force
    then show ?thesis unfolding kept_def True using assms(2,5) by blast
  next
    case False
    then have "x \<in> set ?cs'" using that by force
    then show ?thesis by (rule unchanged)
  qed
  ultimately show ?thesis by (simp add: accounted_def)
qed

lemma accounted_Nil: "accounted env [] cs cs"
  by (simp add: accounted_def unchanged)

lemma accounted_step: "comment_step env q cs cs' \<Longrightarrow> accounted env [q] cs cs'"
proof (induction rule: comment_step.induct)
  case (post c cs)
  then have "said [q] cs c" "deleted_by env [q] cs c" by (simp_all add: said_def deleted_by_def)
  then show ?case by (simp add: accounted_def unchanged)
next
  case (edit c cs body)
  then show ?case by (intro accounted_map) (simp_all add: said_def deleted_by_def)
next
  case (remove c cs)
  then show ?case by (intro accounted_map) (auto simp: said_def deleted_by_def)
qed (simp add: accounted_def unchanged)

lemma kept_trans: "kept ds c \<Longrightarrow> \<forall>d \<in> set ds. kept es d \<Longrightarrow> kept es c"
  unfolding kept_def by (elim bexE, drule bspec, assumption, elim bexE, rule bexI [rotated], assumption) auto

lemma accounted_trans:
  assumes "accounted env qs cs ds" "accounted env qs' ds es"
  shows "accounted env (qs @ qs') cs es"
proof -
  have "said (qs @ qs') cs e" if "e \<in> set es" for e
  proof -
    from assms(2) that have "said qs' ds e" by (simp add: accounted_def)
    then consider d where "d \<in> set ds" "cm_ID d = cm_ID e" "cm_AuthorID d = cm_AuthorID e" "cm_Body d = cm_Body e"
      | q where "q \<in> set qs'" "caller q = cm_AuthorID e" "written q = Some (cm_Body e)" "commentBodyValid (cm_Body e)" unfolding said_def by blast
    then show ?thesis
    proof cases
      case 1
      then have "said qs cs d" using assms(1) by (simp add: accounted_def)
      then show ?thesis using 1 unfolding said_def set_append by auto
    qed (auto simp: said_def)
  qed
  moreover have "deleted_by env (qs @ qs') cs e" if "e \<in> set es" for e
    using assms that unfolding accounted_def deleted_by_def set_append by blast
  moreover have "kept es c" if "c \<in> set cs" for c
    using kept_trans assms that unfolding accounted_def by blast
  ultimately show ?thesis by (simp add: accounted_def)
qed

lemma serve_comments_accounted:
  assumes "comments_ok (comments (api_store db))" "\<forall>q \<in> set qs. cq_Fresh q \<noteq> 0"
  shows "accounted env qs (comments (api_store db)) (comments (api_store (serve_comments env ts qs db)))"
  using assms
proof (induction qs arbitrary: db)
  case (Cons q qs)
  let ?db = "snd (serve_comment env ts q db)"
  note st = serve_comment_step [OF Cons.prems(1), of env q ts]
  have "accounted env qs (comments (api_store ?db)) (comments (api_store (serve_comments env ts qs ?db)))"
    using Cons.IH [of ?db] comment_step_ok [OF st _ Cons.prems(1)] Cons.prems(2) by simp
  from accounted_trans [OF accounted_step [OF st] this] show ?case by (simp add: serve_comments_def)
qed (simp add: serve_comments_def accounted_Nil)

subsection \<open>What a request does to the links\<close>

lemma itemID_Inr:
  assumes "itemID env r key db = Inr u" "\<And>u. parse_uuid env (uuid_String u) = Some u"
  obtains i where "i \<in> set (items db)" "it_WorkspaceID i = rq_WorkspaceID r" "it_Key i = key" "it_DeletedAt i = None" "u = it_ID i"
  using assms by (auto simp: itemID_def result_simps parsed_def dest!: find_SomeD)

lemma linkResponse_snd: "snd (linkResponse ts r u db) = db"
  by (simp add: linkResponse_def)

lemma Mutate_link:
  assumes "Mutate now ws (\<lambda>m. Inr (Link fresh \<lparr>lc_ID = fresh, lc_FromItemID = f, lc_ToItemID = t, lc_ActingItemID = 0, lc_Kind = kind\<rparr> m))
    [WithActor a, WithExpectedVersion f v] db = (Inr res, db')"
  obtains l where "links db' = links db @ [l]" "ln_ID l = fresh" "ln_FromItemID l = f" "ln_ToItemID l = t" "ln_Kind l = kind" "fresh \<notin> ln_ID ` set (links db)"
    "(f, t, kind) \<notin> (\<lambda>x. (ln_FromItemID x, ln_ToItemID x, ln_Kind x)) ` set (links db)"
proof (rule Mutate_one [OF assms, where op = "changeLink \<lparr>lc_ID = fresh, lc_FromItemID = f, lc_ToItemID = t, lc_ActingItemID = 0, lc_Kind = kind\<rparr>"])
  fix i seq m st st'
  assume a: "apply_op now m \<lparr>ch_op = changeLink \<lparr>lc_ID = fresh, lc_FromItemID = f, lc_ToItemID = t, lc_ActingItemID = 0, lc_Kind = kind\<rparr>, ch_itemID = f, ch_events = []\<rparr> seq st = Inr st'"
    and ls: "links (fs_db st) = links db" "links db' = links (fs_db st')"
  from a obtain l db1 where 1: "InsertLink now fresh f t kind (actorPtr m) (fs_db st) = Inr (l, db1)" "bump_item now f seq db1 = Inr (fs_db st')"
    by (auto simp: apply_op_def Let_def result_simps)
  have "links db' = links db @ [l]" using InsertLink_Inr [OF 1(1)] bump_item_relations [OF 1(2)] ls by simp
  then show thesis using 1(1) ls that by (auto simp: InsertLink_def Let_def result_simps)
qed (auto simp: Link_def Let_def)

text \<open>
  A link that \<open>createLink\<close> adds is the only change to the table; it joins two different live items of the workspace, is of one of
  the five kinds and was not there.
\<close>

lemma createLink_adds:
  assumes "effective db (createLink env ts now fresh r ifMatch decoded db)" "\<And>u. parse_uuid env (uuid_String u) = Some u"
  obtains f t l where "f \<in> set (items (api_store db))" "t \<in> set (items (api_store db))" "it_ID f \<noteq> it_ID t" "it_Key f = rq_Key r"
    "it_WorkspaceID f = rq_WorkspaceID r" "it_WorkspaceID t = rq_WorkspaceID r" "it_DeletedAt f = None" "it_DeletedAt t = None"
    "links (api_store (snd (createLink env ts now fresh r ifMatch decoded db))) = links (api_store db) @ [l]" "ln_FromItemID l = it_ID f" "ln_ToItemID l = it_ID t"
    "ln_Kind l \<in> set link_kinds" "(it_ID f, it_ID t, ln_Kind l) \<notin> (\<lambda>x. (ln_FromItemID x, ln_ToItemID x, ln_Kind x)) ` set (links (api_store db))"
proof -
  from assms(1) obtain version to kind fromID toID where 1: "rejectFields r = Inr ()" "expectedVersion ifMatch = Inr version" "decoded = Inr (to, kind)"
    "kind \<in> set link_kinds" "itemID env r (rq_Key r) (api_store db) = Inr fromID" "itemID env r to (api_store db) = Inr toID" "fromID \<noteq> toID"
    unfolding createLink_def effective_refused by (auto simp: result_simps refuse_if_Inr split del: if_split)
  define h where "h = mutate_item ts now r (Link fresh \<lparr>lc_ID = fresh, lc_FromItemID = fromID, lc_ToItemID = toID, lc_ActingItemID = 0, lc_Kind = kind\<rparr>)
         [WithExpectedVersion fromID version] (JObj [(''to'', JStr to), (''kind'', JStr kind)]) (linkResponse ts r fresh) db"
  have h: "createLink env ts now fresh r ifMatch decoded db = h"
    using 1 by (simp add: createLink_def refused_def rbind_def h_def)
  from assms(1) [unfolded h h_def] obtain res s where
    m: "Mutate now (rq_WorkspaceID r) (\<lambda>m. Inr (Link fresh \<lparr>lc_ID = fresh, lc_FromItemID = fromID, lc_ToItemID = toID, lc_ActingItemID = 0, lc_Kind = kind\<rparr> m))
      [WithActor (rq_UserID r), WithExpectedVersion fromID version] (api_store db) = (Inr res, s)" "snd h = with_store db s"
    unfolding h_def by (rule mutate_item_effective [OF _ linkResponse_snd])
  from itemID_Inr [OF 1(5) assms(2)] obtain f where f: "f \<in> set (items (api_store db))" "it_WorkspaceID f = rq_WorkspaceID r" "it_Key f = rq_Key r" "it_DeletedAt f = None" "fromID = it_ID f" .
  from itemID_Inr [OF 1(6) assms(2)] obtain t where t: "t \<in> set (items (api_store db))" "it_WorkspaceID t = rq_WorkspaceID r" "it_DeletedAt t = None" "toID = it_ID t" .
  from Mutate_link [OF m(1)] obtain l where "links s = links (api_store db) @ [l]" "ln_FromItemID l = fromID" "ln_ToItemID l = toID" "ln_Kind l = kind"
    "(fromID, toID, kind) \<notin> (\<lambda>x. (ln_FromItemID x, ln_ToItemID x, ln_Kind x)) ` set (links (api_store db))" .
  then show thesis using that [of f t l] f t 1(4,7) m(2) unfolding h by (simp add: api_with_store)
qed

end
