(* ===== verification/Spec2Isabelle.thy ===== *)
theory Spec2Isabelle
  imports Sx_Rank Sx_Rollup Sx_Ranking Sx_Query Sx_Journal Sx_Projection Sx_Pages Sx_Feed Sx_Auth Sx_Workflow Sx_Move Sx_Projects Sx_Relations
begin

text \<open>
  A verification of \<^emph>\<open>sierx\<close>, a tracker for work items: a Go server over PostgreSQL.  The theories
  model the Go code under \<^verbatim>\<open>src/internal\<close> as functions on explicit state and prove what makes the
  code correct.  Go strings are byte lists (\<open>string\<close>), a function that returns an error is a value
  of a sum type (\<open>rbind\<close> is the early return), a transaction returns the new database or leaves
  the old one, and what the code takes from outside (the clock, random bytes, JSON, ciphers and
  hashes, the rows of a statement that is only passed on) is an argument.

  \<^bold>\<open>The store\<close> (\<^verbatim>\<open>src/internal/store\<close>).

  \<^item> \<open>Sx_Prelude\<close>, \<open>Sx_Values\<close>, \<open>Sx_Path\<close>: the error monad, texts, column values
    (\<^verbatim>\<open>pgtypes.go\<close>), identifiers and item paths.
  \<^item> \<open>Sx_Rank\<close>: \<^verbatim>\<open>rank.go\<close>.  \<open>RankBetween\<close> ends and returns a rank strictly between its
    bounds exactly when they are different fractions; it is the interface \<open>rank_space\<close>, on which
    sequences of insertions rest.  The loop may not end, so it is a \<open>partial_function\<close>.
  \<^item> \<open>Sx_Database\<close>: the tables (\<^verbatim>\<open>gen/models.go\<close>) as a record of lists, with the checks, keys,
    references and triggers of the migrations, and one function per generated statement
    (\<^verbatim>\<open>gen/*.sql.go\<close>).
  \<^item> \<open>Sx_Events\<close>, \<open>Sx_Mutate\<close>: the builders of \<^verbatim>\<open>events.go\<close>; \<open>Mutate\<close>, \<open>flush\<close> and everything
    they call in \<^verbatim>\<open>mutate.go\<close>, \<^verbatim>\<open>comments.go\<close> and \<^verbatim>\<open>rollup.go\<close>.  \<open>Sx_Example\<close> is a small store for
    the witnesses.
  \<^item> \<open>Sx_Flush\<close>: what a flush does to the log: it stays gap-free and in commit order; stale
    versions are rejected and errors change nothing.  The locale \<open>untouched\<close> carries the frames.
  \<^item> \<open>Sx_Tree\<close>: parents and paths describe one forest after every mutation, and no move fails in the
    path trigger: \<open>applyReparent\<close> refuses it before.
  \<^item> \<open>Sx_Rollup\<close>: every item keeps one rollup row that is the aggregate over its descendants.
    The lateral subquery of \<open>VerifyRollups\<close> is modelled apart from that of \<open>RecomputeRollup\<close>; over a
    forest it counts the items that reach an item over their parents (\<open>offspring\<close>), and the call
    reports a clean database exactly when the rows hold these counts.
  \<^item> \<open>Sx_Ranking\<close>: the ranks of a project stay distinct as fractions, so the rank search of a
    flush always ends; a respread keeps the order.

  \<^bold>\<open>The query language\<close> (\<^verbatim>\<open>src/internal/sxq\<close>).

  \<^item> \<open>Sx_Lexer\<close>, \<open>Sx_Parser\<close>, \<open>Sx_Compile\<close>: \<^verbatim>\<open>lexer.go\<close>, \<^verbatim>\<open>aliases.go\<close>, \<^verbatim>\<open>parser.go\<close> and
    \<^verbatim>\<open>compile.go\<close>.  The loops over operands carry fuel, one more than the number of tokens, which is
    proved enough (locale \<open>operand_parser\<close>); nesting is limited to 64 levels as in the code.  The
    ten cases of \<^verbatim>\<open>src/test/golden/sxq\<close> give the recorded results in the model.
  \<^item> \<open>Sx_Roundtrip\<close>: a printer, and that every query the parser returns parses back from its
    printed form.
  \<^item> \<open>Sx_Sql\<close>, \<open>Sx_Distance\<close>: statements spliced from fragments and parameters; edit distance.
  \<^item> \<open>Sx_Query\<close>: compiled SQL consists of the compiler's fragments and of parameters, values never
    reach it, suggestions are nearest names.

  \<^bold>\<open>The API\<close> (\<^verbatim>\<open>src/internal/api\<close>).

  \<^item> \<open>Sx_Projection\<close>: \<^verbatim>\<open>projection/registry.go\<close>.  The SQL of the requested fields never panics and
    binds custom names; the trimmed document is exactly what was asked for.  The generated
    TypeScript of the model is \<^verbatim>\<open>src/web/src/api/fields.ts\<close>.
  \<^item> \<open>Sx_Encoding\<close>, \<open>Sx_Request\<close>: hexadecimal, base 64 and query escaping; \<^verbatim>\<open>problem.go\<close>,
    \<^verbatim>\<open>cursor.go\<close> and the error mapping of \<^verbatim>\<open>projects.go\<close>.  A cursor decodes to what was encoded.
  \<^item> \<open>Sx_Keyset\<close>: keyset pagination as the locale \<open>keyset\<close>, and what a client reads that walks
    the pages while the rows change.
  \<^item> \<open>Sx_Pages\<close>, \<open>Sx_Feed\<close>: \<^verbatim>\<open>pages.go\<close>, \<^verbatim>\<open>history.go\<close> and \<^verbatim>\<open>changes.go\<close>, with the locale
    interpreted on their statements.  Following the cursors implements the walk; the history and
    the feed reproduce the store's log while the store goes on working.

  \<^item> \<open>Sx_Auth\<close>: \<^verbatim>\<open>auth/password.go\<close>, \<^verbatim>\<open>auth/local.go\<close>, \<^verbatim>\<open>auth/totp.go\<close>, \<^verbatim>\<open>auth/proxy.go\<close> over the tables of
    accounts, members and sessions, and the handlers of \<^verbatim>\<open>auth.go\<close> and \<^verbatim>\<open>totp.go\<close> with their table of attempts.
    A sign-in opens exactly one session of twelve hours for whom it should; while a second factor is on
    no code is accepted twice; attempts are limited.
  \<^item> \<open>Sx_Workflow\<close>: \<^verbatim>\<open>config.go\<close> and \<^verbatim>\<open>workflow.go\<close>.  The configuration read after an accepted edit is the
    draft, it is in order, and no earlier version changes.  The locale \<open>row_insert\<close> carries the loops of
    inserting statements.

  \<^bold>\<open>The lifecycle journal\<close> (\<^verbatim>\<open>src/internal/lifecycle\<close>).

  \<^item> \<open>Sx_Journal\<close>: \<^verbatim>\<open>journal.go\<close> over a map of files, with faults of the operating system as
    arguments, and the comparison of heads in \<^verbatim>\<open>database.go\<close>.  A loaded journal is one verified chain;
    what \<open>Append\<close> wrote is loaded again, or recovered when its checkpoint was lost.  The limits of
    2 MiB per record and 128 MiB per file are those of the code.

  \<^bold>\<open>Items and projects\<close> (\<^verbatim>\<open>src/internal/api\<close>).

  \<^item> \<open>Sx_Input\<close>: the body of an item (\<^verbatim>\<open>items.go\<close>) as \<open>encoding/json\<close> decodes it, and
    \<^verbatim>\<open>validation.go\<close>.  Numbers are \<open>float64\<close>: rationals, rounded to the nearest with ties to even by
    \<open>float64\<close>.  The lemmas say what an accepted input satisfies.
  \<^item> \<open>Sx_Items\<close>: \<open>readItem\<close>, \<open>createItem\<close>, \<open>updateItem\<close>, \<open>deleteItem\<close> and \<open>getItem\<close> of \<^verbatim>\<open>items.go\<close>,
    \<open>transitionItem\<close> and \<open>itemPatch\<close> of \<^verbatim>\<open>transition.go\<close>, on the store, the configuration and the
    members (\<open>api_db\<close>).  A request is \<open>effective\<close> when it answers with the item or the database
    differs.  A transition follows the workflow, and the fields it requires are there in the stored row.
  \<^item> \<open>Sx_Calls\<close>: requests in a row.  Effective requests on an item carry increasing versions, so no
    update is lost; an accepted patch fits the columns.
  \<^item> \<open>Sx_Move\<close>: \<^verbatim>\<open>move.go\<close>; its checks accept exactly the places that \<open>applyReparent\<close> accepts, and a
    move that passes them is not refused by the store over the same database.
  \<^item> \<open>Sx_Projects\<close>: \<^verbatim>\<open>projects.go\<close>, \<^verbatim>\<open>reserved.go\<close> and the configuration of a new project
    (\<^verbatim>\<open>store/seed/install.go\<close>, \<^verbatim>\<open>config.sql\<close>).  A new project resolves to the seed workflow, and an update
    changes exactly what was submitted.
  \<^item> \<open>Sx_Relations\<close>: \<^verbatim>\<open>links.go\<close> and \<^verbatim>\<open>comments.go\<close>.  Over any sequence of requests the text of a comment
    is what its author wrote, it is deleted only by its author or an administrator, and it keeps its author
    and item (\<open>comment_step\<close>, \<open>accounted\<close>); a new link joins two different live items of the workspace.

  \<^bold>\<open>Not modelled.\<close>  Row-level security, partitions and connection failures of the database; failures
  of \<open>json.Marshal\<close>; 64-bit overflow of the number of items in \<open>RankSequence\<close>; spellings of a UUID
  other than the hyphenated one; lower-casing of non-ASCII letters beyond the two that become ASCII
  letters; the branches for Windows; the writing of responses (headers, cookies, the rendering of JSON).
  The statements of one request see one state of the database.  The custom fields of an item are checked
  in the order of their entries, where Go takes them in any order.  The remaining handlers of the API
  (documents, views, the listing by a query, settings and the administration of members), the reading of the
  environment, bootstrap, the seed data, the commands and the web client are not modelled: they mostly pass validated input to statements or render output.
\<close>

end
